(* ===== verification/Prelude.thy ===== *)
theory Prelude
  imports Complex_Main "HOL-Library.AList" "HOL-Library.Multiset"
begin

text \<open>
  Vocabulary shared by every component of the development.

  \<^item> \<open>exn\<close> names the Python exceptions the modelled code raises or catches; an operation
    that can raise returns a value of the sum \<open>exn + 'a\<close>.
  \<^item> A Python \<open>dict\<close> is an association list: \<open>d[k] = v\<close> is \<open>AList.update k v d\<close>
    (an existing key keeps its place, a new one goes last), \<open>del d[k]\<close> is
    \<open>AList.delete k d\<close>, \<open>d.get(k)\<close> is \<open>map_of d k\<close>, and iteration follows the list.
    Theorems quantify over the list, so they hold for every iteration order.
    \<open>dict_ok\<close> says that no key occurs twice, which every real dictionary satisfies.
  \<^item> Times, periods and other Python floats are exact rationals; rounding to the
    nearest double is not modelled.  \<open>py_round\<close> is Python 2's \<open>round\<close>, which rounds
    halves away from zero.
  \<^item> \<open>clock\<close> is what a time provider answers during one call: \<open>clk 0\<close> is the reading
    taken first, \<open>clk 1\<close> the next one and so on.
\<close>

section \<open>Exceptions\<close>

text \<open>\<open>NotModelled\<close> is no exception of the code: it says that the code goes on in a way the model does
  not follow.\<close>

datatype exn =
    KeyError | ValueError | AttributeError | TypeError | IndexError | AssertionError
  | RuntimeError | StopIteration | Empty
  | NotEnoughResource | UnknownResource | AllocationNotFound | DeclarationError
  | ConflictError | NotFoundError | UnboundLocalError | NotImplementedError | DelayPacking
  | ParseError | HTTPError | MissingParameters | UnknownParameters | InvalidParameters | NotModelled

text \<open>Sequencing of operations that can raise: the rest runs only if the first returns.\<close>

definition bindE :: "'e + 'a \<Rightarrow> ('a \<Rightarrow> 'e + 'b) \<Rightarrow> 'e + 'b" where
  "bindE m f = (case m of Inl e \<Rightarrow> Inl e | Inr x \<Rightarrow> f x)"

lemma bindE_simps [simp]: "bindE (Inl e) f = Inl e" "bindE (Inr x) f = f x"
  by (simp_all add: bindE_def)

lemma bindE_Inr_iff: "bindE m f = Inr y \<longleftrightarrow> (\<exists>x. m = Inr x \<and> f x = Inr y)"
  by (cases m) simp_all

section \<open>Collections of facts\<close>

named_theorems dict_simps \<open>look-ups in updated, shortened and filtered dictionaries\<close>
named_theorems inv_intros \<open>operations keep the invariant of their component\<close>

section \<open>Dictionaries\<close>

type_synonym ('k, 'v) dict = "('k \<times> 'v) list"

abbreviation dict_ok :: "('k, 'v) dict \<Rightarrow> bool" where
  "dict_ok d \<equiv> distinct (map fst d)"

abbreviation dict_has :: "('k, 'v) dict \<Rightarrow> 'k \<Rightarrow> bool" where
  "dict_has d k \<equiv> map_of d k \<noteq> None"

lemma map_of_update [dict_simps]:
  "map_of (AList.update k v d) x = (if x = k then Some v else map_of d x)"
  by (simp add: update_conv')

lemma map_of_delete [dict_simps]:
  "map_of (AList.delete k d) x = (if x = k then None else map_of d x)"
  by (simp add: delete_conv')

lemma dict_ok_update [inv_intros, simp]: "dict_ok d \<Longrightarrow> dict_ok (AList.update k v d)"
  by (rule distinct_update)

lemma dict_ok_delete [inv_intros, simp]: "dict_ok d \<Longrightarrow> dict_ok (AList.delete k d)"
  by (rule distinct_delete)

lemma dict_ok_filter [inv_intros, simp]: "dict_ok d \<Longrightarrow> dict_ok (filter P d)"
  by (induction d) (auto simp: image_iff)

lemma dict_ok_map_values [simp]: "map fst (map (\<lambda>(k, v). (k, f v)) d) = map fst d"
  by (induction d) auto

lemma map_of_filter_dict [dict_simps]:
  assumes "dict_ok d"
  shows "map_of (filter (\<lambda>(k, v). P k v) d) x =
    (case map_of d x of None \<Rightarrow> None | Some v \<Rightarrow> if P x v then Some v else None)"
  using assms
proof (induction d)
  case Nil
  then show ?case by simp
next
  case (Cons kv d)
  obtain k v where kv: "kv = (k, v)" by (cases kv)
  have "k = x \<Longrightarrow> map_of d x = None"
    using Cons.prems kv by (simp add: map_of_eq_None_iff)
  with Cons kv show ?case by (auto split: option.splits)
qed

lemma map_of_map_values [dict_simps]:
  "map_of (map (\<lambda>(k, v). (k, f v)) d) x = map_option f (map_of d x)"
  by (induction d) auto

lemma dict_in_set: "dict_ok d \<Longrightarrow> (k, v) \<in> set d \<longleftrightarrow> map_of d k = Some v"
  by (rule map_of_eq_Some_iff [symmetric])

lemma length_delete_le: "length (AList.delete k d) \<le> length d"
  by (rule length_delete_le)

section \<open>Removing from a list while walking over it\<close>

text \<open>\<open>for x in xs: if P x: xs.remove(x)\<close>: \<open>remove\<close> takes the first equal element out, the walk goes on
  at the next index of the shortened list and so misses the element that moved into the gap.\<close>

function remove_walking :: "('a \<Rightarrow> bool) \<Rightarrow> nat \<Rightarrow> 'a list \<Rightarrow> 'a list" where
  "remove_walking P pos xs =
     (if pos < length xs then remove_walking P (pos + 1) (if P (xs ! pos) then remove1 (xs ! pos) xs else xs)
      else xs)"
  by pat_completeness auto

termination by (relation "measure (\<lambda>(_, pos, xs). length xs - pos)") (auto simp: length_remove1)

declare remove_walking.simps [simp del]

fun skip_removed :: "('a \<Rightarrow> bool) \<Rightarrow> 'a list \<Rightarrow> 'a list" where
  "skip_removed P [] = []"
| "skip_removed P [x] = (if P x then [] else [x])"
| "skip_removed P (x # y # xs) = (if P x then y # skip_removed P xs else x # skip_removed P (y # xs))"

text \<open>On a list without duplicates the element after each removed one is kept.\<close>

lemma remove_walking_distinct:
  "distinct (ys @ xs) \<Longrightarrow> remove_walking P (length ys) (ys @ xs) = ys @ skip_removed P xs"
proof (induction P xs arbitrary: ys rule: skip_removed.induct)
  case (1 P)
  then show ?case by (simp add: remove_walking.simps [of _ "length ys"])
next
  case (2 P x)
  then show ?case
    by (auto simp: remove_walking.simps [of _ "length ys"] remove_walking.simps [of _ "Suc (length ys)"]
        remove1_append)
next
  case (3 P x y xs)
  show ?case
  proof (cases "P x")
    case True
    then have "remove_walking P (length ys) (ys @ x # y # xs) = remove_walking P (length (ys @ [y])) ((ys @ [y]) @ xs)"
      using "3.prems" by (simp add: remove_walking.simps [of _ "length ys"] remove1_append)
    also have "\<dots> = (ys @ [y]) @ skip_removed P xs"
      by (rule "3.IH"(1)) (use True "3.prems" in auto)
    finally show ?thesis using True by simp
  next
    case False
    then have "remove_walking P (length ys) (ys @ x # y # xs) = remove_walking P (length (ys @ [x])) ((ys @ [x]) @ y # xs)"
      by (simp add: remove_walking.simps [of _ "length ys"])
    also have "\<dots> = (ys @ [x]) @ skip_removed P (y # xs)"
      by (rule "3.IH"(2)) (use False "3.prems" in auto)
    finally show ?thesis using False by simp
  qed
qed

section \<open>Numbers and time\<close>

type_synonym time = rat
type_synonym clock = "nat \<Rightarrow> time"

definition py_round :: "rat \<Rightarrow> int" where
  "py_round x = (if 0 \<le> x then \<lfloor>x + 1 / 2\<rfloor> else - \<lfloor>1 / 2 - x\<rfloor>)"

lemma py_round_of_int [simp]: "py_round (of_int n) = n"
proof -
  have "\<lfloor>of_int n + (1 / 2 :: rat)\<rfloor> = n"
    by (rule floor_unique) auto
  moreover have "\<lfloor>(1 / 2 :: rat) - of_int n\<rfloor> = - n"
    by (rule floor_unique) auto
  ultimately show ?thesis by (simp add: py_round_def)
qed

lemma py_round_minus: "py_round (- x) = - py_round x"
proof -
  have "\<lfloor>1 / 2 :: rat\<rfloor> = 0" by (rule floor_unique) auto
  then show ?thesis by (cases "x = 0") (auto simp: py_round_def add.commute)
qed

lemma py_round_pos: "0 < py_round x \<longleftrightarrow> 1 / 2 \<le> x"
  by (auto simp: py_round_def less_floor_iff le_floor_iff)

lemma py_round_neg: "py_round x < 0 \<longleftrightarrow> x \<le> - (1 / 2)"
proof -
  have "1 / 2 \<le> - x \<longleftrightarrow> x \<le> - (1 / 2 :: rat)" by linarith
  with py_round_pos [of "- x"] show ?thesis by (simp only: py_round_minus) linarith
qed

lemma py_round_near: "\<bar>of_int (py_round x) - x\<bar> \<le> 1 / 2"
proof (cases "0 \<le> x")
  case True
  have "of_int \<lfloor>x + 1 / 2\<rfloor> \<le> x + 1 / 2" "x + 1 / 2 < of_int \<lfloor>x + 1 / 2\<rfloor> + 1"
    using floor_correct [of "x + 1 / 2"] by auto
  then show ?thesis unfolding py_round_def using True by (simp only: if_True abs_le_iff) linarith
next
  case False
  have "of_int \<lfloor>1 / 2 - x\<rfloor> \<le> 1 / 2 - x" "1 / 2 - x < of_int \<lfloor>1 / 2 - x\<rfloor> + 1"
    using floor_correct [of "1 / 2 - x"] by auto
  then show ?thesis unfolding py_round_def using False
    by (simp only: if_False abs_le_iff of_int_minus) linarith
qed

end
