(* ===== verification/Exp.thy ===== *)
theory Exp
  imports Prelude "HOL-Library.Option_ord" "HOL-Library.Product_Lexorder"
begin

text \<open>
  The expiration dictionary of \<open>src/src/feat/common/container.py\<close>: \<open>ExpItem\<close>,
  \<open>RunningAverage\<close> and \<open>ExpDict\<close>.

  An operation takes the clock readings of its call, the old dictionary, and returns the new
  one together with what the Python method returns or raises.  \<open>clk 0\<close> is the reading the
  lazy packing takes when it needs one, \<open>clk 1\<close> the reading of the method body, \<open>clk 2\<close> and
  so on the readings the iterators take after each value they yield.

  The lemmas show that packing and expiring never change what a reader can see: the view
  \<open>xd_live now\<close> of an operation's result is the view of its argument, updated by what the
  operation says it does.  The locale \<open>exp_store\<close> states these laws as the interface on
  which the resource manager and the message store rely.
\<close>

section \<open>ExpItem\<close>

record 'v exp_item =
  item_exp :: "time option"
  item_value :: 'v

definition PRECISION :: rat where
  "PRECISION = 1000"

definition item_pri :: "'v exp_item \<Rightarrow> int option" where
  "item_pri i = map_option (\<lambda>e. py_round (e * PRECISION)) (item_exp i)"

definition item_cmp :: "'v exp_item \<Rightarrow> 'w exp_item \<Rightarrow> int" where
  "item_cmp a b =
     (case item_exp a of
        None \<Rightarrow> (case item_exp b of None \<Rightarrow> 0 | Some _ \<Rightarrow> 1)
      | Some x \<Rightarrow> (case item_exp b of
                    None \<Rightarrow> -1
                  | Some y \<Rightarrow> py_round (x * PRECISION - y * PRECISION)))"

definition item_snapshot :: "'v exp_item \<Rightarrow> int option \<times> 'v" where
  "item_snapshot i = (item_pri i, item_value i)"

definition item_restore :: "int option \<times> 'v \<Rightarrow> 'v exp_item" where
  "item_restore s = (case s of (pri, v) \<Rightarrow>
     \<lparr>item_exp = map_option (\<lambda>p. of_int p / PRECISION) pri, item_value = v\<rparr>)"

text \<open>The test \<open>item.exp is None or item.exp > now\<close>, which the code writes out at each use.\<close>

definition item_live :: "time \<Rightarrow> 'v exp_item \<Rightarrow> bool" where
  "item_live now i = (case item_exp i of None \<Rightarrow> True | Some e \<Rightarrow> now < e)"

lemma item_live_mono: "item_live t' i \<Longrightarrow> t \<le> t' \<Longrightarrow> item_live t i"
  by (auto simp: item_live_def split: option.splits)

section \<open>RunningAverage\<close>

record running_average =
  ra_default :: rat
  ra_nominator :: rat
  ra_denominator :: rat

definition ra_new :: "rat \<Rightarrow> running_average" where
  "ra_new d = \<lparr>ra_default = d, ra_nominator = 0, ra_denominator = 0\<rparr>"

definition ra_get_value :: "running_average \<Rightarrow> rat" where
  "ra_get_value r =
     (if ra_denominator r = 0 then ra_default r else ra_nominator r / ra_denominator r)"

definition ra_add_point :: "rat \<Rightarrow> running_average \<Rightarrow> running_average" where
  "ra_add_point v r =
     r\<lparr>ra_nominator := ra_nominator r + v, ra_denominator := ra_denominator r + 1\<rparr>"

section \<open>ExpDict\<close>

record ('k, 'v) xdict =
  xd_items :: "('k, 'v exp_item) dict"
  xd_max_size :: running_average
  xd_last_pack :: time

definition DEFAULT_MAX_SIZE :: rat where
  "DEFAULT_MAX_SIZE = 100"

definition MAX_LAZY_PACK_PER_SECOND :: rat where
  "MAX_LAZY_PACK_PER_SECOND = 1"

definition xd_init :: "rat option \<Rightarrow> ('k, 'v) xdict" where
  "xd_init max_size =
     \<lparr>xd_items = [],
      xd_max_size = ra_new (case max_size of
        None \<Rightarrow> DEFAULT_MAX_SIZE | Some m \<Rightarrow> if m = 0 then DEFAULT_MAX_SIZE else m),
      xd_last_pack = 0\<rparr>"

definition xd_clear :: "('k, 'v) xdict \<Rightarrow> ('k, 'v) xdict" where
  "xd_clear d = d\<lparr>xd_items := []\<rparr>"

text \<open>\<open>_pack\<close>, \<open>_lazy_pack\<close> and \<open>_get_item\<close>.\<close>

definition xd_pack_at :: "time \<Rightarrow> ('k, 'v) xdict \<Rightarrow> ('k, 'v) xdict" where
  "xd_pack_at now d =
     (let items = filter (\<lambda>(k, i). item_live now i) (xd_items d) in
      d\<lparr>xd_items := items, xd_last_pack := now,
        xd_max_size := ra_add_point (of_nat (length items)) (xd_max_size d)\<rparr>)"

definition xd_lazy_pack :: "time \<Rightarrow> ('k, 'v) xdict \<Rightarrow> ('k, 'v) xdict" where
  "xd_lazy_pack now d =
     (if of_nat (length (xd_items d)) > ra_get_value (xd_max_size d) * (5 / 4) \<and>
         now - xd_last_pack d \<ge> 1 / MAX_LAZY_PACK_PER_SECOND
      then xd_pack_at now d else d)"

definition xd_get_item :: "clock \<Rightarrow> 'k \<Rightarrow> ('k, 'v) xdict \<Rightarrow> 'v exp_item option \<times> ('k, 'v) xdict" where
  "xd_get_item clk k d =
     (let d = xd_lazy_pack (clk 0) d; now = clk 1 in
      case map_of (xd_items d) k of
        Some i \<Rightarrow> if item_live now i then (Some i, d)
                  else (None, d\<lparr>xd_items := AList.delete k (xd_items d)\<rparr>)
      | None \<Rightarrow> (None, d))"

definition xd_pack :: "clock \<Rightarrow> ('k, 'v) xdict \<Rightarrow> ('k, 'v) xdict" where
  "xd_pack clk d = xd_pack_at (clk 0) d"

text \<open>
  The public operations.  A Python value that may be \<open>None\<close> is an \<open>'v option\<close>.  \<open>pop\<close> takes
  its optional default as the list of extra arguments it was given; an empty dictionary makes
  it fall off its end, which returns \<open>None\<close>.
\<close>

definition xd_set :: "clock \<Rightarrow> 'k \<Rightarrow> 'v \<Rightarrow> time option \<Rightarrow> bool \<Rightarrow> ('k, 'v) xdict \<Rightarrow> ('k, 'v) xdict" where
  "xd_set clk k v expiration relative d =
     (let d = xd_lazy_pack (clk 0) d in
      case expiration of
        None \<Rightarrow> d\<lparr>xd_items := AList.update k \<lparr>item_exp = None, item_value = v\<rparr> (xd_items d)\<rparr>
      | Some e \<Rightarrow>
          (let now = clk 1; e = (if relative then now + e else e) in
           if e \<le> now then d
           else d\<lparr>xd_items := AList.update k \<lparr>item_exp = Some e, item_value = v\<rparr> (xd_items d)\<rparr>))"

definition xd_remove :: "clock \<Rightarrow> 'k \<Rightarrow> ('k, 'v) xdict \<Rightarrow> (exn + 'v) \<times> ('k, 'v) xdict" where
  "xd_remove clk k d =
     (let d = xd_lazy_pack (clk 0) d; now = clk 1 in
      if xd_items d = [] then (Inl KeyError, d)
      else case map_of (xd_items d) k of
             None \<Rightarrow> (Inl KeyError, d)
           | Some i \<Rightarrow>
               (let d = d\<lparr>xd_items := AList.delete k (xd_items d)\<rparr> in
                if item_live now i then (Inr (item_value i), d) else (Inl KeyError, d)))"

definition xd_pop :: "clock \<Rightarrow> 'k \<Rightarrow> 'v option list \<Rightarrow> ('k, 'v) xdict \<Rightarrow> (exn + 'v option) \<times> ('k, 'v) xdict" where
  "xd_pop clk k dflt d =
     (let d = xd_lazy_pack (clk 0) d; now = clk 1;
          missing = (case dflt of [x] \<Rightarrow> Inr x | _ \<Rightarrow> Inl KeyError) in
      if xd_items d = [] then (Inr None, d)
      else case map_of (xd_items d) k of
             None \<Rightarrow> (missing, d)
           | Some i \<Rightarrow>
               (let d = d\<lparr>xd_items := AList.delete k (xd_items d)\<rparr> in
                if item_live now i then (Inr (Some (item_value i)), d) else (missing, d)))"

definition xd_get :: "clock \<Rightarrow> 'k \<Rightarrow> 'v option \<Rightarrow> ('k, 'v) xdict \<Rightarrow> 'v option \<times> ('k, 'v) xdict" where
  "xd_get clk k dflt d =
     (case xd_get_item clk k d of
        (None, d) \<Rightarrow> (dflt, d)
      | (Some i, d) \<Rightarrow> (Some (item_value i), d))"

definition xd_get_expiration :: "clock \<Rightarrow> 'k \<Rightarrow> ('k, 'v) xdict \<Rightarrow> (exn + time option) \<times> ('k, 'v) xdict" where
  "xd_get_expiration clk k d =
     (case xd_get_item clk k d of
        (None, d) \<Rightarrow> (Inl KeyError, d)
      | (Some i, d) \<Rightarrow> (Inr (item_exp i), d))"

fun live_items :: "clock \<Rightarrow> nat \<Rightarrow> ('k, 'v exp_item) dict \<Rightarrow> ('k \<times> 'v) list" where
  "live_items clk n [] = []"
| "live_items clk n ((k, i) # items) =
     (if item_live (clk n) i then (k, item_value i) # live_items clk (Suc n) items
      else live_items clk n items)"

definition xd_iteritems :: "clock \<Rightarrow> ('k, 'v) xdict \<Rightarrow> ('k \<times> 'v) list \<times> ('k, 'v) xdict" where
  "xd_iteritems clk d =
     (let d = xd_lazy_pack (clk 0) d in (live_items clk 1 (xd_items d), d))"

definition xd_keys :: "clock \<Rightarrow> ('k, 'v) xdict \<Rightarrow> 'k list \<times> ('k, 'v) xdict" where
  "xd_keys clk d = (case xd_iteritems clk d of (kvs, d) \<Rightarrow> (map fst kvs, d))"

definition xd_values :: "clock \<Rightarrow> ('k, 'v) xdict \<Rightarrow> 'v list \<times> ('k, 'v) xdict" where
  "xd_values clk d = (case xd_iteritems clk d of (kvs, d) \<Rightarrow> (map snd kvs, d))"

definition xd_size :: "('k, 'v) xdict \<Rightarrow> nat" where
  "xd_size d = length (xd_items d)"

definition xd_setitem :: "clock \<Rightarrow> 'k \<Rightarrow> 'v \<Rightarrow> ('k, 'v) xdict \<Rightarrow> ('k, 'v) xdict" where
  "xd_setitem clk k v d =
     (let d = xd_lazy_pack (clk 0) d in
      d\<lparr>xd_items := AList.update k \<lparr>item_exp = None, item_value = v\<rparr> (xd_items d)\<rparr>)"

definition xd_getitem :: "clock \<Rightarrow> 'k \<Rightarrow> ('k, 'v) xdict \<Rightarrow> (exn + 'v) \<times> ('k, 'v) xdict" where
  "xd_getitem clk k d =
     (case xd_get_item clk k d of
        (Some i, d) \<Rightarrow> (Inr (item_value i), d)
      | (None, d) \<Rightarrow> (Inl KeyError, d))"

definition xd_delitem :: "clock \<Rightarrow> 'k \<Rightarrow> ('k, 'v) xdict \<Rightarrow> (exn + unit) \<times> ('k, 'v) xdict" where
  "xd_delitem clk k d =
     (case xd_get_item clk k d of
        (Some i, d) \<Rightarrow> (Inr (), d\<lparr>xd_items := AList.delete k (xd_items d)\<rparr>)
      | (None, d) \<Rightarrow> (Inl KeyError, d))"

definition xd_contains :: "clock \<Rightarrow> 'k \<Rightarrow> ('k, 'v) xdict \<Rightarrow> bool \<times> ('k, 'v) xdict" where
  "xd_contains clk k d = (case xd_get_item clk k d of (i, d) \<Rightarrow> (i \<noteq> None, d))"

definition xd_len :: "clock \<Rightarrow> ('k, 'v) xdict \<Rightarrow> nat" where
  "xd_len clk d = length (filter (\<lambda>(k, i). item_live (clk 0) i) (xd_items d))"

definition xd_live_triples :: "time \<Rightarrow> ('k, 'v) xdict \<Rightarrow> ('k \<times> int option \<times> 'v) list" where
  "xd_live_triples now d =
     map (\<lambda>(k, i). (k, item_pri i, item_value i))
       (filter (\<lambda>(k, i). item_live now i) (xd_items d))"

definition xd_eq :: "clock \<Rightarrow> ('k::linorder, 'v::linorder) xdict \<Rightarrow> ('k, 'v) xdict \<Rightarrow> bool" where
  "xd_eq clk d other =
     (sort (xd_live_triples (clk 0) d) = sort (xd_live_triples (clk 0) other))"

definition xd_snapshot :: "('k, 'v) xdict \<Rightarrow> rat \<times> ('k, int option \<times> 'v) dict" where
  "xd_snapshot d =
     (ra_get_value (xd_max_size d), map (\<lambda>(k, i). (k, item_snapshot i)) (xd_items d))"

definition xd_recover :: "rat \<times> ('k, int option \<times> 'v) dict \<Rightarrow> ('k, 'v) xdict" where
  "xd_recover s = (case s of (max_size, data) \<Rightarrow>
     \<lparr>xd_items = map (\<lambda>(k, s). (k, item_restore s)) data,
      xd_max_size = ra_new max_size,
      xd_last_pack = 0\<rparr>)"

section \<open>What a reader sees\<close>

definition live_view :: "time \<Rightarrow> ('k \<Rightarrow> 'v exp_item option) \<Rightarrow> 'k \<Rightarrow> 'v exp_item option" where
  "live_view now m k =
     (case m k of None \<Rightarrow> None | Some i \<Rightarrow> if item_live now i then Some i else None)"

definition xd_live :: "time \<Rightarrow> ('k, 'v) xdict \<Rightarrow> 'k \<Rightarrow> 'v exp_item option" where
  "xd_live now d = live_view now (map_of (xd_items d))"

definition xd_ok :: "('k, 'v) xdict \<Rightarrow> bool" where
  "xd_ok d \<longleftrightarrow> dict_ok (xd_items d)"

named_theorems view_simps \<open>live views of updated maps and dictionaries\<close>

lemma live_view_upd [view_simps]:
  "live_view t (m(k \<mapsto> i)) = (live_view t m)(k := if item_live t i then Some i else None)"
  by (auto simp: live_view_def)

lemma live_view_del [view_simps]: "live_view t (m(k := None)) = (live_view t m)(k := None)"
  by (auto simp: live_view_def)

lemma live_view_empty [view_simps]: "live_view t (\<lambda>_. None) = (\<lambda>_. None)"
  by (auto simp: live_view_def)

lemma live_view_later:
  "t \<le> t' \<Longrightarrow> live_view t m = live_view t m' \<Longrightarrow> live_view t' m = live_view t' m'"
proof (rule ext)
  fix k
  assume t: "t \<le> t'" and "live_view t m = live_view t m'"
  then have "live_view t m k = live_view t m' k" by simp
  then show "live_view t' m k = live_view t' m' k"
    using item_live_mono [OF _ t]
    by (fastforce simp: live_view_def split: option.splits if_splits)
qed

lemma live_view_idem: "t \<le> t' \<Longrightarrow> live_view t' (live_view t m) = live_view t' m"
  by (auto simp: live_view_def fun_eq_iff split: option.splits dest: item_live_mono)

lemma live_view_shrinks: "t \<le> t' \<Longrightarrow> live_view t' m k = Some i \<Longrightarrow> live_view t m k = Some i"
  by (auto simp: live_view_def split: option.splits if_splits dest: item_live_mono)

lemma map_of_live_items:
  "dict_ok items \<Longrightarrow>
   map_of (live_items (\<lambda>_. t) n items) k = map_option item_value (live_view t (map_of items) k)"
proof (induction items arbitrary: n)
  case Nil
  then show ?case by (simp add: live_view_def)
next
  case (Cons kv items)
  obtain k' i where kv: "kv = (k', i)" by (cases kv)
  have "k' = k \<Longrightarrow> map_of items k = None"
    using Cons.prems kv by (simp add: map_of_eq_None_iff)
  with Cons kv show ?case by (auto simp: live_view_def)
qed

lemma keys_live_items: "fst ` set (live_items clk n items) \<subseteq> fst ` set items"
  by (induction clk n items rule: live_items.induct) auto

lemma dict_ok_live_items: "dict_ok items \<Longrightarrow> dict_ok (live_items clk n items)"
proof (induction clk n items rule: live_items.induct)
  case (2 clk n k i items)
  then show ?case using keys_live_items [of clk "Suc n" items] by auto
qed simp

lemma live_items_const:
  "live_items (\<lambda>_. t) n items =
   map (\<lambda>(k, i). (k, item_value i)) (filter (\<lambda>(k, i). item_live t i) items)"
  by (induction items arbitrary: n) auto

section \<open>Packing and expiring are invisible\<close>

lemma xd_ok_pack_at: "xd_ok d \<Longrightarrow> xd_ok (xd_pack_at t d)"
  by (simp add: xd_ok_def xd_pack_at_def Let_def)

lemma xd_live_pack_at:
  "xd_ok d \<Longrightarrow> t \<le> t' \<Longrightarrow> xd_live t' (xd_pack_at t d) = xd_live t' d"
  by (auto simp: xd_live_def live_view_def xd_pack_at_def xd_ok_def Let_def fun_eq_iff
      dict_simps split: option.splits dest: item_live_mono)

lemma xd_ok_lazy_pack [simp]: "xd_ok d \<Longrightarrow> xd_ok (xd_lazy_pack t d)"
  by (simp add: xd_lazy_pack_def xd_ok_pack_at)

lemma xd_live_lazy_pack [simp]:
  "xd_ok d \<Longrightarrow> t \<le> t' \<Longrightarrow> xd_live t' (xd_lazy_pack t d) = xd_live t' d"
  by (simp add: xd_lazy_pack_def xd_live_pack_at)

lemma xd_live_update [view_simps]:
  "xd_live t (d\<lparr>xd_items := AList.update k i (xd_items d)\<rparr>) =
   (xd_live t d)(k := if item_live t i then Some i else None)"
  by (simp add: xd_live_def update_conv' live_view_upd)

lemma xd_live_delete [view_simps]:
  "xd_live t (d\<lparr>xd_items := AList.delete k (xd_items d)\<rparr>) = (xd_live t d)(k := None)"
  by (simp add: xd_live_def delete_conv' live_view_del)

lemma xd_ok_update [simp]:
  "xd_ok d \<Longrightarrow> xd_ok (d\<lparr>xd_items := AList.update k i (xd_items d)\<rparr>)"
  by (simp add: xd_ok_def)

lemma xd_ok_delete [simp]:
  "xd_ok d \<Longrightarrow> xd_ok (d\<lparr>xd_items := AList.delete k (xd_items d)\<rparr>)"
  by (simp add: xd_ok_def)

lemma xd_live_later: "t \<le> t' \<Longrightarrow> xd_live t d = xd_live t d' \<Longrightarrow> xd_live t' d = xd_live t' d'"
  unfolding xd_live_def by (rule live_view_later)

lemma xd_live_shrinks: "t \<le> t' \<Longrightarrow> xd_live t' d k = Some i \<Longrightarrow> xd_live t d k = Some i"
  unfolding xd_live_def by (rule live_view_shrinks)

text \<open>A look-up in the items, at the time of the look-up.\<close>

lemma xd_live_cases:
  "xd_live t d k = (case map_of (xd_items d) k of
     None \<Rightarrow> None | Some i \<Rightarrow> if item_live t i then Some i else None)"
  by (simp add: xd_live_def live_view_def)

lemma xd_get_item_spec:
  assumes "xd_ok d" and "clk 0 \<le> clk 1" and "xd_get_item clk k d = (r, d')"
  shows "r = xd_live (clk 1) d k" and "xd_live (clk 1) d' = xd_live (clk 1) d" and "xd_ok d'"
    and "r = Some i \<Longrightarrow> map_of (xd_items d') k = Some i"
proof -
  let ?d = "xd_lazy_pack (clk 0) d"
  have view: "xd_live (clk 1) ?d = xd_live (clk 1) d" and ok: "xd_ok ?d" using assms by simp_all
  have get: "xd_get_item clk k d =
      (case map_of (xd_items ?d) k of
         Some i \<Rightarrow> if item_live (clk 1) i then (Some i, ?d)
                   else (None, ?d\<lparr>xd_items := AList.delete k (xd_items ?d)\<rparr>)
       | None \<Rightarrow> (None, ?d))"
    by (simp only: xd_get_item_def Let_def)
  have "xd_live (clk 1) d k = (case map_of (xd_items ?d) k of
      None \<Rightarrow> None | Some i \<Rightarrow> if item_live (clk 1) i then Some i else None)"
    unfolding view [symmetric] by (rule xd_live_cases)
  moreover have "xd_live (clk 1) (?d\<lparr>xd_items := AList.delete k (xd_items ?d)\<rparr>) = xd_live (clk 1) ?d"
    if "map_of (xd_items ?d) k = Some i" "\<not> item_live (clk 1) i" for i
    using that by (auto simp: view_simps xd_live_cases fun_eq_iff)
  ultimately show "r = xd_live (clk 1) d k" and "xd_live (clk 1) d' = xd_live (clk 1) d" and "xd_ok d'"
    and "r = Some i \<Longrightarrow> map_of (xd_items d') k = Some i"
    using assms(3) view ok unfolding get by (auto split: option.splits if_splits)
qed

text \<open>The public operations, each by what it returns and what it leaves visible.\<close>

lemma xd_set_spec:
  assumes "xd_ok d" and "clk 0 \<le> clk 1"
  shows "xd_ok (xd_set clk k v e rel d)"
    and "xd_live (clk 1) (xd_set clk k v e rel d) =
      (let e' = map_option (\<lambda>e. if rel then clk 1 + e else e) e in
       if (\<exists>x. e' = Some x \<and> x \<le> clk 1) then xd_live (clk 1) d
       else (xd_live (clk 1) d)(k \<mapsto> \<lparr>item_exp = e', item_value = v\<rparr>))"
  using assms by (auto simp: xd_set_def Let_def view_simps item_live_def split: option.splits)

lemma xd_setitem_spec:
  assumes "xd_ok d" and "clk 0 \<le> clk 1"
  shows "xd_ok (xd_setitem clk k v d)"
    and "xd_live (clk 1) (xd_setitem clk k v d) =
      (xd_live (clk 1) d)(k \<mapsto> \<lparr>item_exp = None, item_value = v\<rparr>)"
  using assms by (auto simp: xd_setitem_def Let_def view_simps item_live_def)

lemma xd_live_empty_items: "xd_items d = [] \<Longrightarrow> xd_live t d = (\<lambda>_. None)"
  by (simp add: xd_live_def view_simps)

text \<open>What \<open>pop\<close> answers for a key that has no live entry: the default it was given, or
  \<open>KeyError\<close> without one; on an empty dictionary it falls off its end.\<close>

definition pop_missing :: "'v option list \<Rightarrow> exn + 'v option" where
  "pop_missing dflt = (case dflt of [x] \<Rightarrow> Inr x | _ \<Rightarrow> Inl KeyError)"

lemma xd_pop_spec:
  assumes "xd_ok d" and "clk 0 \<le> clk 1" and "xd_pop clk k dflt d = (r, d')"
  shows "case xd_live (clk 1) d k of
      Some i \<Rightarrow> r = Inr (Some (item_value i))
    | None \<Rightarrow> r = pop_missing dflt \<or> (xd_live (clk 1) d = (\<lambda>_. None) \<and> r = Inr None)"
    and "xd_live (clk 1) d' = (xd_live (clk 1) d)(k := None)" and "xd_ok d'"
proof -
  let ?d = "xd_lazy_pack (clk 0) d"
  have view: "xd_live (clk 1) ?d = xd_live (clk 1) d" and ok: "xd_ok ?d" using assms by simp_all
  note pop = assms(3) [unfolded xd_pop_def Let_def, folded pop_missing_def]
  show "case xd_live (clk 1) d k of
      Some i \<Rightarrow> r = Inr (Some (item_value i))
    | None \<Rightarrow> r = pop_missing dflt \<or> (xd_live (clk 1) d = (\<lambda>_. None) \<and> r = Inr None)"
    using pop unfolding view [symmetric]
    by (auto simp: xd_live_cases xd_live_empty_items split: if_splits option.splits)
  show "xd_live (clk 1) d' = (xd_live (clk 1) d)(k := None)"
    using pop unfolding view [symmetric]
    by (auto simp: view_simps xd_live_empty_items fun_eq_iff split: if_splits option.splits)
       (auto simp: xd_live_cases)
  show "xd_ok d'" using pop ok by (auto split: if_splits option.splits)
qed

lemma xd_remove_spec:
  assumes "xd_ok d" and "clk 0 \<le> clk 1" and "xd_remove clk k d = (r, d')"
  shows "r = (case xd_live (clk 1) d k of None \<Rightarrow> Inl KeyError | Some i \<Rightarrow> Inr (item_value i))"
    and "xd_live (clk 1) d' = (xd_live (clk 1) d)(k := None)" and "xd_ok d'"
proof -
  let ?d = "xd_lazy_pack (clk 0) d"
  have view: "xd_live (clk 1) ?d = xd_live (clk 1) d" and ok: "xd_ok ?d" using assms by simp_all
  note rem = assms(3) [unfolded xd_remove_def Let_def]
  show "r = (case xd_live (clk 1) d k of None \<Rightarrow> Inl KeyError | Some i \<Rightarrow> Inr (item_value i))"
    using rem unfolding view [symmetric]
    by (auto simp: xd_live_cases xd_live_empty_items split: if_splits option.splits)
  show "xd_live (clk 1) d' = (xd_live (clk 1) d)(k := None)"
    using rem unfolding view [symmetric]
    by (auto simp: view_simps xd_live_empty_items fun_eq_iff split: if_splits option.splits)
       (auto simp: xd_live_cases)
  show "xd_ok d'" using rem ok by (auto split: if_splits option.splits)
qed

lemma xd_delitem_spec:
  assumes "xd_ok d" and "clk 0 \<le> clk 1" and "xd_delitem clk k d = (r, d')"
  shows "r = (case xd_live (clk 1) d k of None \<Rightarrow> Inl KeyError | Some i \<Rightarrow> Inr ())"
    and "xd_live (clk 1) d' = (xd_live (clk 1) d)(k := None)" and "xd_ok d'"
proof -
  obtain r0 d0 where get: "xd_get_item clk k d = (r0, d0)" by (cases "xd_get_item clk k d")
  note spec = xd_get_item_spec [OF assms(1,2) get]
  show "r = (case xd_live (clk 1) d k of None \<Rightarrow> Inl KeyError | Some i \<Rightarrow> Inr ())"
    using assms(3) get spec(1) by (auto simp: xd_delitem_def split: option.splits)
  show "xd_live (clk 1) d' = (xd_live (clk 1) d)(k := None)"
    using assms(3) get spec(1,2) by (auto simp: xd_delitem_def view_simps split: option.splits)
  show "xd_ok d'"
    using assms(3) get spec(3) by (auto simp: xd_delitem_def split: option.splits)
qed

lemma xd_iteritems_spec:
  assumes "xd_ok d" and "xd_iteritems (\<lambda>_. t) d = (kvs, d')"
  shows "dict_ok kvs" and "map_of kvs k = map_option item_value (xd_live t d k)"
    and "xd_ok d'" and "xd_live t d' = xd_live t d"
proof -
  have d': "d' = xd_lazy_pack t d" and kvs: "kvs = live_items (\<lambda>_. t) 1 (xd_items d')"
    using assms(2) by (auto simp: xd_iteritems_def Let_def)
  show ok: "xd_ok d'" and live: "xd_live t d' = xd_live t d" using d' assms(1) by simp_all
  show "dict_ok kvs" using kvs ok by (simp add: xd_ok_def dict_ok_live_items)
  show "map_of kvs k = map_option item_value (xd_live t d k)"
    using kvs ok unfolding live [symmetric] by (simp add: xd_ok_def map_of_live_items xd_live_def)
qed

lemma xd_len_spec:
  assumes "xd_ok d"
  shows "xd_len clk d = card (dom (xd_live (clk 0) d))"
proof -
  let ?items = "filter (\<lambda>(k, i). item_live (clk 0) i) (xd_items d)"
  have ok: "dict_ok ?items" using assms by (simp add: xd_ok_def)
  have "map_of ?items = xd_live (clk 0) d"
    using assms by (auto simp: xd_ok_def dict_simps xd_live_cases fun_eq_iff split: option.splits)
  then have "card (dom (xd_live (clk 0) d)) = card (set (map fst ?items))"
    by (metis dom_map_of_conv_image_fst set_map)
  also have "\<dots> = length ?items" using ok by (metis distinct_card length_map)
  finally show ?thesis by (simp add: xd_len_def)
qed

section \<open>The interface of an expiring store\<close>

text \<open>A sum over the visible entries; the resource manager measures its usage with it.\<close>

definition live_total :: "('v \<Rightarrow> int) \<Rightarrow> ('k \<Rightarrow> 'v exp_item option) \<Rightarrow> int" where
  "live_total f m = (\<Sum>k \<in> dom m. f (item_value (the (m k))))"

lemma live_total_upd:
  assumes "finite (dom m)" "m k = None"
  shows "live_total f (m(k \<mapsto> i)) = live_total f m + f (item_value i)"
proof -
  have "k \<notin> dom m" using assms(2) by auto
  then have "(\<Sum>x \<in> dom m. f (item_value (the ((m(k \<mapsto> i)) x)))) = live_total f m"
    unfolding live_total_def by (intro sum.cong) auto
  with \<open>k \<notin> dom m\<close> assms(1) show ?thesis by (simp add: live_total_def)
qed

lemma live_total_del:
  assumes "finite (dom m)" "m k = Some i"
  shows "live_total f m = live_total f (m(k := None)) + f (item_value i)"
proof -
  have "m = (m(k := None))(k \<mapsto> i)" using assms(2) by auto
  then show ?thesis using live_total_upd [of "m(k := None)" k f i] assms(1) by simp
qed

lemma live_total_mono:
  assumes "finite (dom m)" "\<And>k i. m' k = Some i \<Longrightarrow> m k = Some i" "\<And>v. 0 \<le> f v"
  shows "live_total f m' \<le> live_total f m"
proof -
  have "dom m' \<subseteq> dom m" using assms(2) by blast
  moreover have "live_total f m' = (\<Sum>k \<in> dom m'. f (item_value (the (m k))))"
    unfolding live_total_def using assms(2) by (intro sum.cong) auto
  ultimately show ?thesis unfolding live_total_def using assms by (simp add: sum_mono2)
qed

lemma live_total_entries:
  assumes "dict_ok kvs" "\<And>k. map_of kvs k = map_option item_value (m k)"
  shows "live_total f m = sum_list (map (f \<circ> snd) kvs)"
proof -
  have dom: "dom m = fst ` set kvs"
    using assms(2) by (metis (mono_tags, lifting) Collect_cong dom_def dom_map_of_conv_image_fst
        map_option_is_None)
  have "sum_list (map (f \<circ> snd) kvs) = (\<Sum>kv \<in> set kvs. f (snd kv))"
    using assms(1) by (simp add: sum_list_distinct_conv_sum_set distinct_map)
  also have "\<dots> = (\<Sum>kv \<in> set kvs. f (item_value (the (m (fst kv)))))"
  proof (rule sum.cong)
    fix kv assume "kv \<in> set kvs"
    then have "map_of kvs (fst kv) = Some (snd kv)" using assms(1) by simp
    with assms(2) [of "fst kv"] show "f (snd kv) = f (item_value (the (m (fst kv))))"
      by (cases "m (fst kv)") auto
  qed simp
  also have "\<dots> = live_total f m"
    using assms(1) by (simp add: live_total_def dom sum.reindex distinct_map)
  finally show ?thesis by simp
qed

text \<open>
  What a user of an expiring store may rely on: an entry is found from the moment it is put
  until it is fetched or its expiration passes, and nothing else ever appears.
\<close>

locale exp_store =
  fixes view :: "time \<Rightarrow> 's \<Rightarrow> 'k \<Rightarrow> 'v exp_item option"
    and ok :: "'s \<Rightarrow> bool"
    and put :: "time \<Rightarrow> 'k \<Rightarrow> 'v \<Rightarrow> time option \<Rightarrow> bool \<Rightarrow> 's \<Rightarrow> 's"
    and fetch :: "time \<Rightarrow> 'k \<Rightarrow> 's \<Rightarrow> 'v option \<times> 's"
    and entries :: "time \<Rightarrow> 's \<Rightarrow> ('k \<times> 'v) list \<times> 's"
  assumes view_finite: "finite (dom (view t s))"
    and view_later: "t \<le> t' \<Longrightarrow> view t' s k = Some i \<Longrightarrow> view t s k = Some i"
    and view_expired: "view t s k = Some i \<Longrightarrow> item_exp i = Some deadline \<Longrightarrow> t < deadline"
    and ok_put: "ok s \<Longrightarrow> ok (put t k v e rel s)"
    and view_put: "ok s \<Longrightarrow> view t (put t k v e rel s) =
      (let e' = map_option (\<lambda>e. if rel then t + e else e) e in
       if (\<exists>x. e' = Some x \<and> x \<le> t) then view t s
       else (view t s)(k \<mapsto> \<lparr>item_exp = e', item_value = v\<rparr>))"
    and ok_fetch: "ok s \<Longrightarrow> ok (snd (fetch t k s))"
    and fetch_result: "ok s \<Longrightarrow> fst (fetch t k s) = map_option item_value (view t s k)"
    and view_fetch: "ok s \<Longrightarrow> view t (snd (fetch t k s)) = (view t s)(k := None)"
    and ok_entries: "ok s \<Longrightarrow> ok (snd (entries t s))"
    and entries_dict: "ok s \<Longrightarrow> dict_ok (fst (entries t s))"
    and entries_map: "ok s \<Longrightarrow> map_of (fst (entries t s)) k = map_option item_value (view t s k)"
    and view_entries: "ok s \<Longrightarrow> view t (snd (entries t s)) = view t s"
begin

lemma entries_total:
  "ok s \<Longrightarrow> sum_list (map (f \<circ> snd) (fst (entries t s))) = live_total f (view t s)"
  by (simp add: live_total_entries [symmetric] entries_dict entries_map)

lemma total_later:
  "t \<le> t' \<Longrightarrow> (\<And>v. 0 \<le> f v) \<Longrightarrow> live_total f (view t' s) \<le> live_total f (view t s)"
  by (rule live_total_mono) (auto simp: view_finite intro: view_later)

lemma total_put_fresh:
  assumes "ok s" "view t s k = None" "0 \<le> f v"
  shows "live_total f (view t (put t k v e rel s)) \<le> live_total f (view t s) + f v"
  using assms by (auto simp: view_put Let_def live_total_upd view_finite)

lemma total_fetch:
  assumes "ok s" "fst (fetch t k s) = Some v"
  shows "live_total f (view t s) = live_total f (view t (snd (fetch t k s))) + f v"
  using assms live_total_del [OF view_finite]
  by (fastforce simp: fetch_result view_fetch)

lemma fetch_missing:
  assumes "ok s" "fst (fetch t k s) = None"
  shows "view t (snd (fetch t k s)) = view t s"
  using assms by (auto simp: fetch_result view_fetch fun_eq_iff)

lemma fetch_twice:
  assumes "ok s"
  shows "fst (fetch t k (snd (fetch t k s))) = None"
  using assms by (simp add: fetch_result view_fetch ok_fetch)

lemma put_then_fetch:
  assumes "ok s" "\<forall>x. e = Some x \<longrightarrow> t < (if rel then t + x else x)"
  shows "fst (fetch t k (put t k v e rel s)) = Some v"
  using assms by (cases e) (auto simp: fetch_result ok_put view_put Let_def)

lemma in_entries_iff:
  "ok s \<Longrightarrow> v \<in> snd ` set (fst (entries t s)) \<longleftrightarrow> (\<exists>k i. view t s k = Some i \<and> item_value i = v)"
proof -
  assume ok: "ok s"
  have "v \<in> snd ` set (fst (entries t s)) \<longleftrightarrow> (\<exists>k. (k, v) \<in> set (fst (entries t s)))" by force
  also have "\<dots> \<longleftrightarrow> (\<exists>k i. view t s k = Some i \<and> item_value i = v)"
    using ok by (auto simp: dict_in_set entries_dict entries_map)
  finally show ?thesis .
qed

end

text \<open>\<open>ExpDict\<close> provides the interface, with a clock that stands still during each call.\<close>

definition xds_put ::
  "time \<Rightarrow> 'k \<Rightarrow> 'v \<Rightarrow> time option \<Rightarrow> bool \<Rightarrow> ('k, 'v) xdict \<Rightarrow> ('k, 'v) xdict" where
  "xds_put t k v e rel d = xd_set (\<lambda>_. t) k v e rel d"

definition xds_fetch :: "time \<Rightarrow> 'k \<Rightarrow> ('k, 'v) xdict \<Rightarrow> 'v option \<times> ('k, 'v) xdict" where
  "xds_fetch t k d = (case xd_pop (\<lambda>_. t) k [None] d of
     (Inr v, d) \<Rightarrow> (v, d) | (Inl _, d) \<Rightarrow> (None, d))"

lemma xds_fetch_eq:
  assumes "xd_ok d"
  shows "fst (xds_fetch t k d) = map_option item_value (xd_live t d k)"
    and "xd_live t (snd (xds_fetch t k d)) = (xd_live t d)(k := None)"
    and "xd_ok (snd (xds_fetch t k d))"
  using xd_pop_spec [OF assms, of "\<lambda>_. t" k "[None]"]
  by (auto simp: xds_fetch_def pop_missing_def split: prod.splits sum.splits option.splits)

interpretation xds: exp_store xd_live xd_ok xds_put xds_fetch "\<lambda>t. xd_iteritems (\<lambda>_. t)"
proof unfold_locales
  fix t :: time and s :: "('a, 'b) xdict"
  have "dom (xd_live t s) \<subseteq> dom (map_of (xd_items s))"
    by (auto simp: xd_live_cases split: option.splits)
  then show "finite (dom (xd_live t s))" by (rule finite_subset) (rule finite_dom_map_of)
next
  fix t t' :: time and s :: "('a, 'b) xdict" and k i
  assume "t \<le> t'" and "xd_live t' s k = Some i"
  then show "xd_live t s k = Some i" by (rule xd_live_shrinks)
next
  fix t e :: time and s :: "('a, 'b) xdict" and k i
  assume "xd_live t s k = Some i" and "item_exp i = Some e"
  then show "t < e" by (auto simp: xd_live_cases item_live_def split: option.splits if_splits)
next
  fix t e rel and s :: "('a, 'b) xdict" and k v
  assume "xd_ok s"
  then show "xd_ok (xds_put t k v e rel s)"
    and "xd_live t (xds_put t k v e rel s) =
      (let e' = map_option (\<lambda>e. if rel then t + e else e) e in
       if (\<exists>x. e' = Some x \<and> x \<le> t) then xd_live t s
       else (xd_live t s)(k \<mapsto> \<lparr>item_exp = e', item_value = v\<rparr>))"
    using xd_set_spec [of s "\<lambda>_. t"] by (simp_all add: xds_put_def)
next
  fix t and s :: "('a, 'b) xdict" and k
  assume ok: "xd_ok s"
  show "xd_ok (snd (xds_fetch t k s))" "fst (xds_fetch t k s) = map_option item_value (xd_live t s k)"
    "xd_live t (snd (xds_fetch t k s)) = (xd_live t s)(k := None)"
    using xds_fetch_eq [OF ok] by simp_all
  show "xd_ok (snd (xd_iteritems (\<lambda>_. t) s))" "dict_ok (fst (xd_iteritems (\<lambda>_. t) s))"
    "map_of (fst (xd_iteritems (\<lambda>_. t) s)) k = map_option item_value (xd_live t s k)"
    "xd_live t (snd (xd_iteritems (\<lambda>_. t) s)) = xd_live t s"
    using xd_iteritems_spec [OF ok] by (metis prod.collapse)+
qed

section \<open>ExpDict refines a map with expirations\<close>

text \<open>
  The methods of \<open>ExpDict\<close> as a datatype and one step of the dictionary, at a clock that stands
  still during the call.  \<open>XPop k dflt\<close> is \<open>pop(k, *dflt)\<close>: no default is the empty list.

  The specification is a map from keys to items that never packs and never drops an expired
  item, and only looks at the clock when it is read: \<open>xd_spec_next\<close> is what a call makes of
  the map, \<open>xd_answers\<close> what the call may answer.  Only two answers are not a function of the
  live entries.  \<open>size\<close> counts the expired entries that are not yet dropped: it lies between
  the number of live entries and the number of all entries of the map.  \<open>pop\<close> of a missing
  key answers its default or \<open>KeyError\<close>, and when no entry is live it may also answer \<open>None\<close>,
  which it does when nothing is left in the dictionary at all.
\<close>

datatype ('k, 'v) xd_op =
    XSet 'k 'v "time option" bool | XSetItem 'k 'v | XGet 'k "'v option" | XGetItem 'k
  | XExpiration 'k | XContains 'k | XRemove 'k | XPop 'k "'v option list" | XDel 'k | XPack
  | XClear | XLen | XKeys | XItems | XSize

datatype ('k, 'v) xd_result =
    RNone | RRaise exn | RValue "'v option" | RTime "time option" | RBool bool | RLen nat
  | RKeys "'k set" | RItems "('k \<times> 'v) set"

abbreviation try_res :: "('a \<Rightarrow> ('k, 'v) xd_result) \<Rightarrow> exn + 'a \<Rightarrow> ('k, 'v) xd_result" where
  "try_res f r \<equiv> (case r of Inl e \<Rightarrow> RRaise e | Inr x \<Rightarrow> f x)"

fun xd_step :: "time \<Rightarrow> ('k, 'v) xd_op \<Rightarrow> ('k, 'v) xdict \<Rightarrow> ('k, 'v) xd_result \<times> ('k, 'v) xdict" where
  "xd_step t (XSet k v e rel) d = (RNone, xd_set (\<lambda>_. t) k v e rel d)"
| "xd_step t (XSetItem k v) d = (RNone, xd_setitem (\<lambda>_. t) k v d)"
| "xd_step t (XGet k dflt) d = apfst RValue (xd_get (\<lambda>_. t) k dflt d)"
| "xd_step t (XGetItem k) d = apfst (try_res (RValue \<circ> Some)) (xd_getitem (\<lambda>_. t) k d)"
| "xd_step t (XExpiration k) d = apfst (try_res RTime) (xd_get_expiration (\<lambda>_. t) k d)"
| "xd_step t (XContains k) d = apfst RBool (xd_contains (\<lambda>_. t) k d)"
| "xd_step t (XRemove k) d = apfst (try_res (RValue \<circ> Some)) (xd_remove (\<lambda>_. t) k d)"
| "xd_step t (XPop k dflt) d = apfst (try_res RValue) (xd_pop (\<lambda>_. t) k dflt d)"
| "xd_step t (XDel k) d = apfst (try_res (\<lambda>_. RNone)) (xd_delitem (\<lambda>_. t) k d)"
| "xd_step t XPack d = (RNone, xd_pack (\<lambda>_. t) d)"
| "xd_step t XClear d = (RNone, xd_clear d)"
| "xd_step t XLen d = (RLen (xd_len (\<lambda>_. t) d), d)"
| "xd_step t XKeys d = apfst (RKeys \<circ> set) (xd_keys (\<lambda>_. t) d)"
| "xd_step t XItems d = apfst (RItems \<circ> set) (xd_iteritems (\<lambda>_. t) d)"
| "xd_step t XSize d = (RLen (xd_size d), d)"

fun xd_spec_next ::
  "time \<Rightarrow> ('k, 'v) xd_op \<Rightarrow> ('k \<Rightarrow> 'v exp_item option) \<Rightarrow> 'k \<Rightarrow> 'v exp_item option" where
  "xd_spec_next t (XSet k v e rel) m =
     (let e' = map_option (\<lambda>e. if rel then t + e else e) e in
      if (\<exists>x. e' = Some x \<and> x \<le> t) then m else m(k \<mapsto> \<lparr>item_exp = e', item_value = v\<rparr>))"
| "xd_spec_next t (XSetItem k v) m = m(k \<mapsto> \<lparr>item_exp = None, item_value = v\<rparr>)"
| "xd_spec_next t (XRemove k) m = m(k := None)"
| "xd_spec_next t (XPop k dflt) m = m(k := None)"
| "xd_spec_next t (XDel k) m = m(k := None)"
| "xd_spec_next t XClear m = (\<lambda>_. None)"
| "xd_spec_next t _ m = m"

fun xd_answers ::
  "time \<Rightarrow> ('k, 'v) xd_op \<Rightarrow> ('k \<Rightarrow> 'v exp_item option) \<Rightarrow> ('k, 'v) xd_result \<Rightarrow> bool" where
  "xd_answers t (XSet k v e rel) m r = (r = RNone)"
| "xd_answers t (XSetItem k v) m r = (r = RNone)"
| "xd_answers t (XGet k dflt) m r =
     (r = RValue (case live_view t m k of None \<Rightarrow> dflt | Some i \<Rightarrow> Some (item_value i)))"
| "xd_answers t (XGetItem k) m r =
     (r = (case live_view t m k of None \<Rightarrow> RRaise KeyError | Some i \<Rightarrow> RValue (Some (item_value i))))"
| "xd_answers t (XExpiration k) m r =
     (r = (case live_view t m k of None \<Rightarrow> RRaise KeyError | Some i \<Rightarrow> RTime (item_exp i)))"
| "xd_answers t (XContains k) m r = (r = RBool (live_view t m k \<noteq> None))"
| "xd_answers t (XRemove k) m r =
     (r = (case live_view t m k of None \<Rightarrow> RRaise KeyError | Some i \<Rightarrow> RValue (Some (item_value i))))"
| "xd_answers t (XPop k dflt) m r =
     (case live_view t m k of
        Some i \<Rightarrow> r = RValue (Some (item_value i))
      | None \<Rightarrow> r = try_res RValue (pop_missing dflt) \<or>
          (live_view t m = (\<lambda>_. None) \<and> r = RValue None))"
| "xd_answers t (XDel k) m r =
     (r = (case live_view t m k of None \<Rightarrow> RRaise KeyError | Some i \<Rightarrow> RNone))"
| "xd_answers t XPack m r = (r = RNone)"
| "xd_answers t XClear m r = (r = RNone)"
| "xd_answers t XLen m r = (r = RLen (card (dom (live_view t m))))"
| "xd_answers t XKeys m r = (r = RKeys (dom (live_view t m)))"
| "xd_answers t XItems m r =
     (r = RItems (Map.graph (\<lambda>k. map_option item_value (live_view t m k))))"
| "xd_answers t XSize m r =
     (case r of RLen n \<Rightarrow> card (dom (live_view t m)) \<le> n \<and> n \<le> card (dom m) | _ \<Rightarrow> False)"

text \<open>The answers of a sequence of calls, and whether the specification allows them.\<close>

fun run_steps :: "(time \<Rightarrow> 'op \<Rightarrow> 's \<Rightarrow> 'r \<times> 's) \<Rightarrow> 's \<Rightarrow> (time \<times> 'op) list \<Rightarrow> 'r list" where
  "run_steps step s [] = []"
| "run_steps step s ((t, x) # ops) = (case step t x s of (r, s') \<Rightarrow> r # run_steps step s' ops)"

fun xd_spec_run ::
  "('k \<Rightarrow> 'v exp_item option) \<Rightarrow> (time \<times> ('k, 'v) xd_op) list \<Rightarrow> ('k, 'v) xd_result list \<Rightarrow> bool" where
  "xd_spec_run m [] rs = (rs = [])"
| "xd_spec_run m ((t, x) # ops) rs =
     (case rs of [] \<Rightarrow> False
      | r # rs \<Rightarrow> xd_answers t x m r \<and> xd_spec_run (xd_spec_next t x m) ops rs)"

text \<open>The keys of the dictionary are keys of the map.\<close>

definition xd_below :: "('k, 'v) xdict \<Rightarrow> ('k \<Rightarrow> 'v exp_item option) \<Rightarrow> bool" where
  "xd_below d m \<longleftrightarrow> finite (dom m) \<and> (\<forall>k. m k = None \<longrightarrow> map_of (xd_items d) k = None)"

lemma map_of_filter_none: "map_of xs k = None \<Longrightarrow> map_of (filter P xs) k = None"
  by (auto simp: map_of_eq_None_iff)

lemma xd_lazy_pack_none:
  "map_of (xd_items d) k = None \<Longrightarrow> map_of (xd_items (xd_lazy_pack t d)) k = None"
  by (simp add: xd_lazy_pack_def xd_pack_at_def Let_def map_of_filter_none)

lemma xd_get_item_none:
  assumes "xd_get_item clk k d = (r, d')"
  shows "map_of (xd_items d) j = None \<Longrightarrow> map_of (xd_items d') j = None"
    and "r = None \<Longrightarrow> map_of (xd_items d') k = None"
  using assms xd_lazy_pack_none [of d j "clk 0"]
  by (auto simp: xd_get_item_def Let_def delete_conv' split: option.splits if_splits)

lemma xd_size_bounds:
  assumes "xd_ok d" and "xd_below d m"
  shows "card (dom (xd_live t d)) \<le> xd_size d" and "xd_size d \<le> card (dom m)"
proof -
  have size: "xd_size d = card (dom (map_of (xd_items d)))"
    using assms(1) by (simp add: xd_size_def xd_ok_def dom_map_of_conv_image_fst
        distinct_card [of "map fst (xd_items d)", simplified])
  have "dom (xd_live t d) \<subseteq> dom (map_of (xd_items d))"
    by (auto simp: xd_live_cases split: option.splits)
  then show "card (dom (xd_live t d)) \<le> xd_size d"
    unfolding size by (intro card_mono finite_dom_map_of)
  have "dom (map_of (xd_items d)) \<subseteq> dom m" using assms(2) by (auto simp: xd_below_def domIff)
  then show "xd_size d \<le> card (dom m)"
    using assms(2) unfolding size xd_below_def by (blast intro: card_mono)
qed

lemma xd_step_below:
  assumes "xd_below d m" and "xd_step t x d = (r, d')"
  shows "xd_below d' (xd_spec_next t x m)"
proof -
  have none: "xd_spec_next t x m k = None \<Longrightarrow> map_of (xd_items d') k = None" for k
  proof (cases x)
    case (XSet j v e rel)
    then show "xd_spec_next t x m k = None \<Longrightarrow> map_of (xd_items d') k = None"
      using assms by (auto simp: xd_below_def xd_set_def Let_def update_conv' xd_lazy_pack_none
          split: option.splits if_splits)
  qed (use assms in \<open>auto simp: xd_below_def xd_setitem_def xd_get_def xd_getitem_def
      xd_get_expiration_def xd_contains_def xd_remove_def xd_pop_def xd_delitem_def xd_pack_def
      xd_pack_at_def xd_clear_def xd_keys_def xd_iteritems_def Let_def update_conv' delete_conv'
      xd_lazy_pack_none map_of_filter_none xd_get_item_none
      split: option.splits if_splits prod.splits\<close>)
  have "finite (dom (xd_spec_next t x m))"
    using assms(1) by (cases x) (auto simp: xd_below_def Let_def)
  with none show ?thesis by (simp add: xd_below_def)
qed

lemma xd_get_item_const:
  assumes "xd_ok d" and "xd_get_item (\<lambda>_. t) k d = (r, d')"
  shows "r = xd_live t d k" and "xd_live t d' = xd_live t d" and "xd_ok d'"
  using xd_get_item_spec [of d "\<lambda>_. t"] assms by simp_all

lemma xd_clear_pack_spec:
  "xd_live t (xd_clear d) = (\<lambda>_. None)" "xd_ok (xd_clear d)"
  "xd_ok d \<Longrightarrow> xd_live t (xd_pack (\<lambda>_. t) d) = xd_live t d"
  "xd_ok d \<Longrightarrow> xd_ok (xd_pack (\<lambda>_. t) d)"
  by (simp_all add: xd_clear_def xd_live_empty_items xd_ok_def xd_pack_def xd_live_pack_at
      xd_ok_pack_at [unfolded xd_ok_def])

lemma xd_keys_spec:
  assumes "xd_ok d" and "xd_keys (\<lambda>_. t) d = (ks, d')"
  shows "set ks = dom (xd_live t d)" and "xd_live t d' = xd_live t d" and "xd_ok d'"
proof -
  obtain kvs where it: "xd_iteritems (\<lambda>_. t) d = (kvs, d')" and ks: "ks = map fst kvs"
    using assms(2) by (auto simp: xd_keys_def split: prod.splits)
  note spec = xd_iteritems_spec [OF assms(1) it]
  have "dom (map_of kvs) = dom (xd_live t d)" using spec(2) by (auto simp: dom_def)
  then show "set ks = dom (xd_live t d)" by (simp add: ks dom_map_of_conv_image_fst)
  show "xd_live t d' = xd_live t d" "xd_ok d'" by (rule spec)+
qed

lemma xd_step_answers:
  assumes ok: "xd_ok d" and view: "xd_live t d = live_view t m" and below: "xd_below d m"
    and step: "xd_step t x d = (r, d')"
  shows "xd_answers t x m r" and "xd_live t d' = live_view t (xd_spec_next t x m)" and "xd_ok d'"
proof -
  have "xd_answers t x m r \<and> xd_live t d' = live_view t (xd_spec_next t x m) \<and> xd_ok d'"
  proof (cases x)
    case (XSet k v e rel)
    then show ?thesis
      using assms xd_set_spec [OF ok, of "\<lambda>_. t" k v e rel]
      by (auto simp: Let_def view_simps item_live_def split: option.splits if_splits)
  next
    case (XSetItem k v)
    then show ?thesis
      using assms xd_setitem_spec [OF ok, of "\<lambda>_. t" k v]
      by (auto simp: view_simps item_live_def)
  next
    case (XGet k dflt)
    then show ?thesis
      using assms xd_get_item_const [OF ok] by (fastforce simp: xd_get_def split: prod.splits option.splits)
  next
    case (XGetItem k)
    then show ?thesis
      using assms xd_get_item_const [OF ok] by (fastforce simp: xd_getitem_def split: prod.splits option.splits)
  next
    case (XExpiration k)
    then show ?thesis
      using assms xd_get_item_const [OF ok] by (fastforce simp: xd_get_expiration_def split: prod.splits option.splits)
  next
    case (XContains k)
    then show ?thesis
      using assms xd_get_item_const [OF ok] by (fastforce simp: xd_contains_def split: prod.splits)
  next
    case (XRemove k)
    obtain r0 where "xd_remove (\<lambda>_. t) k d = (r0, d')" "r = try_res (RValue \<circ> Some) r0"
      using step XRemove by (auto simp: apfst_def map_prod_def split: prod.splits)
    with XRemove view xd_remove_spec [OF ok, of "\<lambda>_. t" k r0 d'] show ?thesis
      by (auto simp: view_simps split: option.splits)
  next
    case (XPop k dflt)
    obtain r0 where "xd_pop (\<lambda>_. t) k dflt d = (r0, d')" "r = try_res RValue r0"
      using step XPop by (auto simp: apfst_def map_prod_def split: prod.splits)
    with XPop view xd_pop_spec [OF ok, of "\<lambda>_. t" k dflt r0 d'] show ?thesis
      by (auto simp: view_simps split: option.splits)
  next
    case (XDel k)
    obtain r0 where "xd_delitem (\<lambda>_. t) k d = (r0, d')" "r = try_res (\<lambda>_. RNone) r0"
      using step XDel by (auto simp: apfst_def map_prod_def split: prod.splits)
    with XDel view xd_delitem_spec [OF ok, of "\<lambda>_. t" k r0 d'] show ?thesis
      by (auto simp: view_simps split: option.splits)
  next
    case XPack
    then show ?thesis using assms by (auto simp: xd_clear_pack_spec)
  next
    case XClear
    then show ?thesis using assms by (auto simp: xd_clear_pack_spec view_simps)
  next
    case XLen
    then show ?thesis using assms xd_len_spec [OF ok] by auto
  next
    case XKeys
    obtain ks where "xd_keys (\<lambda>_. t) d = (ks, d')" "r = RKeys (set ks)"
      using step XKeys by (auto simp: apfst_def map_prod_def split: prod.splits)
    with XKeys view xd_keys_spec [OF ok] show ?thesis by auto
  next
    case XItems
    obtain kvs where it: "xd_iteritems (\<lambda>_. t) d = (kvs, d')" and r: "r = RItems (set kvs)"
      using step XItems by (auto simp: apfst_def map_prod_def split: prod.splits)
    note spec = xd_iteritems_spec [OF ok it]
    have "set kvs = Map.graph (map_of kvs)" using spec(1) by (simp add: graph_map_of_if_distinct_dom)
    also have "map_of kvs = (\<lambda>k. map_option item_value (live_view t m k))"
      by (rule ext) (simp add: spec(2) view)
    finally show ?thesis using XItems r spec(3,4) view by simp
  next
    case XSize
    then show ?thesis using step xd_size_bounds(1) [OF ok below, of t] xd_size_bounds(2) [OF ok below] ok view by auto
  qed
  then show "xd_answers t x m r" and "xd_live t d' = live_view t (xd_spec_next t x m)" and "xd_ok d'"
    by auto
qed

lemma xd_run_answers:
  assumes "xd_ok d" and "xd_live t0 d = live_view t0 m" and "xd_below d m"
    and "sorted (t0 # map fst ops)"
  shows "xd_spec_run m ops (run_steps xd_step d ops)"
  using assms
proof (induction ops arbitrary: d m t0)
  case Nil
  then show ?case by simp
next
  case (Cons tx ops)
  obtain t x where tx: "tx = (t, x)" by (cases tx)
  obtain r d' where step: "xd_step t x d = (r, d')" by (cases "xd_step t x d")
  have view: "xd_live t d = live_view t m"
    using Cons.prems(2,4) tx live_view_later [of t0 t "map_of (xd_items d)" m]
    by (simp add: xd_live_def)
  note ref = xd_step_answers [OF Cons.prems(1) view Cons.prems(3) step]
  have "xd_spec_run (xd_spec_next t x m) ops (run_steps xd_step d' ops)"
    using Cons.IH [OF ref(3,2) xd_step_below [OF Cons.prems(3) step]] Cons.prems(4) tx by simp
  with tx step ref(1) show ?case by simp
qed

text \<open>C9: in any sequence of the calls \<open>set\<close>, \<open>d[k] = v\<close>, \<open>get\<close>, \<open>d[k]\<close>,
  \<open>get_expiration\<close>, \<open>k in d\<close>, \<open>remove\<close>, \<open>pop\<close> with or without a default, \<open>del d[k]\<close>,
  \<open>pack\<close>, \<open>clear\<close>, \<open>len(d)\<close>, \<open>keys\<close>, \<open>iteritems\<close> and \<open>size\<close>, at non-decreasing times that
  stand still during a call, a new \<open>ExpDict\<close> answers what the specification allows, a plain
  map from keys to items that is never packed: lazy packing, forced packing and the removal
  of expired items show in no answer but those of \<open>size\<close>, which counts expired entries until
  they are dropped, and of \<open>pop\<close> of a missing key while no entry is live, which may be
  \<open>None\<close>.  This holds whatever maximum size the dictionary was created with.\<close>

theorem xd_refines_map:
  assumes "sorted (map fst ops)"
  shows "xd_spec_run (\<lambda>_. None) ops (run_steps xd_step (xd_init max_size) ops)"
proof (cases ops)
  case Nil
  then show ?thesis by simp
next
  case (Cons tx ops')
  have "xd_ok (xd_init max_size)" "xd_live t (xd_init max_size) = live_view t (\<lambda>_. None)"
    "xd_below (xd_init max_size) (\<lambda>_. None)" for t
    by (simp_all add: xd_ok_def xd_init_def xd_live_def xd_below_def)
  from xd_run_answers [OF this, of "fst tx" ops] assms Cons show ?thesis by simp
qed

text \<open>A concrete run: a value is popped, a second one expires, and popping it without a default
  then raises \<open>KeyError\<close> because an entry is left in the dictionary.\<close>

theorem xd_refines_map_witness:
  "sorted (map fst [(1::time, XSet ''a'' (7::int) (Some 2) True), (1, XSet ''b'' 8 (Some 2) True),
      (1, XSetItem ''c'' 9), (2, XPop ''a'' []), (5, XPop ''b'' [])]) \<and>
   run_steps xd_step (xd_init (Some 1))
     [(1::time, XSet ''a'' (7::int) (Some 2) True), (1, XSet ''b'' 8 (Some 2) True),
      (1, XSetItem ''c'' 9), (2, XPop ''a'' []), (5, XPop ''b'' [])]
   = [RNone, RNone, RNone, RValue (Some 7), RRaise KeyError]"
proof -
  let ?ops = "[(1::time, XSet ''a'' (7::int) (Some 2) True), (1, XSet ''b'' 8 (Some 2) True),
      (1, XSetItem ''c'' 9), (2, XPop ''a'' []), (5, XPop ''b'' [])]"
  have h: "sorted (map fst ?ops)" by simp
  have live: "live_view (5::time) m \<noteq> (\<lambda>_. None)"
    if "m ''c'' = Some \<lparr>item_exp = None, item_value = 9::int\<rparr>" for m
    using that by (auto simp: live_view_def item_live_def fun_eq_iff intro!: exI [of _ "''c''"])
  show ?thesis
    using h xd_refines_map [OF h, of "Some 1"]
    by (simp add: live live_view_def item_live_def pop_missing_def Let_def split: list.splits)
qed

text \<open>\<open>snapshot\<close> and \<open>recover\<close> are inverse up to the millisecond resolution of the
  priorities: a recovered dictionary has the same keys and values in the same order, an item
  without expiration stays without, every other expiration moves by at most half a
  millisecond, and a second snapshot is equal to the first.\<close>

theorem xd_snapshot_recover:
  "xd_snapshot (xd_recover (xd_snapshot d)) = xd_snapshot d \<and>
   list_all2 (\<lambda>(k, i) (k', i'). k' = k \<and> item_value i' = item_value i \<and>
       rel_option (\<lambda>e e'. \<bar>e' - e\<bar> \<le> 1 / 2000) (item_exp i) (item_exp i'))
     (xd_items d) (xd_items (xd_recover (xd_snapshot d)))"
proof
  have pri: "item_snapshot (item_restore (item_snapshot i)) = item_snapshot i" for i :: "'b exp_item"
    by (cases "item_exp i") (simp_all add: item_snapshot_def item_restore_def item_pri_def PRECISION_def)
  show "xd_snapshot (xd_recover (xd_snapshot d)) = xd_snapshot d"
    by (simp add: xd_snapshot_def xd_recover_def ra_get_value_def ra_new_def pri split: prod.splits)
  have near: "\<bar>of_int (py_round (e * 1000)) / 1000 - e\<bar> \<le> 1 / 2000" for e :: rat
    using py_round_near [of "e * 1000"] by (simp add: abs_le_iff field_simps)
  have item: "rel_option (\<lambda>e e'. \<bar>e' - e\<bar> \<le> 1 / 2000) (item_exp i) (item_exp (item_restore (item_snapshot i)))
      \<and> item_value (item_restore (item_snapshot i)) = item_value i" for i :: "'b exp_item"
    using near by (cases "item_exp i")
      (simp_all only: item_restore_def item_snapshot_def item_pri_def PRECISION_def
        option.map option.rel_inject prod.case exp_item.simps)
  have items: "xd_items (xd_recover (xd_snapshot d)) =
      map (\<lambda>(k, i). (k, item_restore (item_snapshot i))) (xd_items d)"
    by (auto simp: xd_recover_def xd_snapshot_def)
  show "list_all2 (\<lambda>(k, i) (k', i'). k' = k \<and> item_value i' = item_value i \<and>
       rel_option (\<lambda>e e'. \<bar>e' - e\<bar> \<le> 1 / 2000) (item_exp i) (item_exp i'))
     (xd_items d) (xd_items (xd_recover (xd_snapshot d)))"
    unfolding items list_all2_map2 by (rule list.rel_refl_strong) (use item in auto)
qed

end
