(* ===== verification/Heapq.thy ===== *)
theory Heapq
  imports Prelude
begin

text \<open>
  The part of Python's \<open>heapq\<close> module that \<open>ExpQueue\<close> (\<open>src/src/feat/common/container.py\<close>)
  uses: \<open>heappush\<close>, \<open>heappop\<close> and \<open>heapify\<close>, over a list with the comparison \<open>lt\<close> of its
  items.  The standard library is not part of the repository; these definitions transcribe
  its algorithm (sift a hole down to a leaf along the smaller children, then bubble the item
  back up), because which item a pop returns depends on it when \<open>lt\<close> is not a proper order.

  The multiset lemmas hold for every comparison.  The ordering lemmas are proved in the
  locale \<open>heap_order\<close>, whose assumptions a comparison satisfies on the items accepted by \<open>ok\<close>.
\<close>

section \<open>Definitions\<close>

abbreviation parent :: "nat \<Rightarrow> nat" where
  "parent i \<equiv> (i - 1) div 2"

function siftdown :: "('a \<Rightarrow> 'a \<Rightarrow> bool) \<Rightarrow> 'a list \<Rightarrow> nat \<Rightarrow> nat \<Rightarrow> 'a \<Rightarrow> 'a list" where
  "siftdown lt h start pos newitem =
     (if start < pos \<and> lt newitem (h ! parent pos)
      then siftdown lt (h[pos := h ! parent pos]) start (parent pos) newitem
      else h[pos := newitem])"
  by pat_completeness auto
termination
  by (relation "measure (\<lambda>(lt, h, start, pos, newitem). pos)") auto

declare siftdown.simps [simp del]

definition smaller_child :: "('a \<Rightarrow> 'a \<Rightarrow> bool) \<Rightarrow> 'a list \<Rightarrow> nat \<Rightarrow> nat" where
  "smaller_child lt h pos =
     (let childpos = 2 * pos + 1; rightpos = childpos + 1 in
      if rightpos < length h \<and> \<not> lt (h ! childpos) (h ! rightpos) then rightpos else childpos)"

lemma smaller_child_bounds:
  "Suc (2 * pos) < length h \<Longrightarrow>
   pos < smaller_child lt h pos \<and> smaller_child lt h pos < length h \<and>
   parent (smaller_child lt h pos) = pos"
  by (auto simp: smaller_child_def Let_def)

function sift_hole :: "('a \<Rightarrow> 'a \<Rightarrow> bool) \<Rightarrow> 'a list \<Rightarrow> nat \<Rightarrow> 'a list \<times> nat" where
  "sift_hole lt h pos =
     (if 2 * pos + 1 < length h
      then sift_hole lt (h[pos := h ! smaller_child lt h pos]) (smaller_child lt h pos)
      else (h, pos))"
  by pat_completeness auto
termination
  by (relation "measure (\<lambda>(lt, h, pos). length h - pos)")
     (use smaller_child_bounds in \<open>auto intro!: diff_less_mono2\<close>)

declare sift_hole.simps [simp del]

definition siftup :: "('a \<Rightarrow> 'a \<Rightarrow> bool) \<Rightarrow> 'a list \<Rightarrow> nat \<Rightarrow> 'a list" where
  "siftup lt h pos =
     (let newitem = h ! pos; (h', leaf) = sift_hole lt h pos in siftdown lt h' pos leaf newitem)"

definition heappush :: "('a \<Rightarrow> 'a \<Rightarrow> bool) \<Rightarrow> 'a list \<Rightarrow> 'a \<Rightarrow> 'a list" where
  "heappush lt h x = siftdown lt (h @ [x]) 0 (length h) x"

definition heappop :: "('a \<Rightarrow> 'a \<Rightarrow> bool) \<Rightarrow> 'a list \<Rightarrow> exn + ('a \<times> 'a list)" where
  "heappop lt h =
     (case h of
        [] \<Rightarrow> Inl IndexError
      | _ \<Rightarrow> (let lastelt = last h; rest = butlast h in
             case rest of
               [] \<Rightarrow> Inr (lastelt, [])
             | returnitem # _ \<Rightarrow> Inr (returnitem, siftup lt (rest[0 := lastelt]) 0)))"

fun heapify_from :: "('a \<Rightarrow> 'a \<Rightarrow> bool) \<Rightarrow> 'a list \<Rightarrow> nat \<Rightarrow> 'a list" where
  "heapify_from lt h 0 = h"
| "heapify_from lt h (Suc i) = heapify_from lt (siftup lt h i) i"

definition heapify :: "('a \<Rightarrow> 'a \<Rightarrow> bool) \<Rightarrow> 'a list \<Rightarrow> 'a list" where
  "heapify lt h = heapify_from lt h (length h div 2)"

section \<open>No item is lost or invented\<close>

lemma mset_update_swap:
  assumes "i < length h" "j < length h" "i \<noteq> j"
  shows "mset (h[i := h ! j, j := x]) = mset (h[i := x])"
proof -
  have "h[i := h ! j, j := x] = (h[i := x])[i := h[i := x] ! j, j := h[i := x] ! i]"
    using assms by simp
  then show ?thesis using assms by (simp only: mset_swap length_list_update)
qed

lemma length_siftdown [simp]: "length (siftdown lt h s pos x) = length h"
  by (induction lt h s pos x rule: siftdown.induct) (subst siftdown.simps, auto)

lemma mset_siftdown: "pos < length h \<Longrightarrow> mset (siftdown lt h s pos x) = mset (h[pos := x])"
proof (induction lt h s pos x rule: siftdown.induct)
  case (1 lt h s pos x)
  show ?case
  proof (cases "s < pos \<and> lt x (h ! parent pos)")
    case True
    then have "parent pos < length h" "parent pos \<noteq> pos" using "1.prems" by auto
    with True "1.prems" "1.IH" show ?thesis
      by (subst siftdown.simps) (simp add: mset_update_swap)
  next
    case False
    then show ?thesis by (subst siftdown.simps) (auto simp del: One_nat_def)
  qed
qed

lemma sift_hole_props:
  "pos < length h \<Longrightarrow> sift_hole lt h pos = (h', leaf) \<Longrightarrow>
   length h' = length h \<and> pos \<le> leaf \<and> leaf < length h \<and>
   mset (h'[leaf := x]) = mset (h[pos := x])"
proof (induction lt h pos arbitrary: h' leaf rule: sift_hole.induct)
  case (1 lt h pos)
  show ?case
  proof (cases "2 * pos + 1 < length h")
    case True
    let ?c = "smaller_child lt h pos"
    have c: "pos < ?c" "?c < length h" using smaller_child_bounds [of pos h lt] True by auto
    have "sift_hole lt (h[pos := h ! ?c]) ?c = (h', leaf)"
      using "1.prems"(2) True by (subst (asm) sift_hole.simps) simp
    from "1.IH" [OF True _ this] c "1.prems"(1) show ?thesis
      by (simp add: mset_update_swap)
  next
    case False
    with "1.prems" show ?thesis by (subst (asm) sift_hole.simps) simp
  qed
qed

lemma siftup_props:
  assumes "pos < length h"
  shows "length (siftup lt h pos) = length h \<and> mset (siftup lt h pos) = mset h"
proof -
  obtain h' leaf where hole: "sift_hole lt h pos = (h', leaf)" by (cases "sift_hole lt h pos")
  from sift_hole_props [OF assms hole, of "h ! pos"] hole show ?thesis
    by (simp add: siftup_def mset_siftdown)
qed

lemma length_siftup [simp]: "pos < length h \<Longrightarrow> length (siftup lt h pos) = length h"
  by (simp add: siftup_props)

lemma mset_siftup: "pos < length h \<Longrightarrow> mset (siftup lt h pos) = mset h"
  by (simp add: siftup_props)

lemma mset_heappush: "mset (heappush lt h x) = add_mset x (mset h)"
  by (simp add: heappush_def mset_siftdown)

lemma heappop_Inl: "heappop lt h = Inl e \<longleftrightarrow> h = [] \<and> e = IndexError"
  by (auto simp: heappop_def Let_def split: list.splits)

lemma heappop_props:
  assumes "heappop lt h = Inr (x, h')"
  shows "mset h = add_mset x (mset h') \<and> length h = Suc (length h')"
proof -
  obtain ys y where h: "h = ys @ [y]"
    using assms by (cases h rule: rev_cases) (auto simp: heappop_def)
  show ?thesis
  proof (cases ys)
    case Nil
    with assms h show ?thesis by (simp add: heappop_def)
  next
    case (Cons z zs)
    with assms h have "x = z" "h' = siftup lt (y # zs) 0"
      by (auto simp: heappop_def Let_def split: list.splits)
    with h Cons show ?thesis by (simp add: mset_siftup add_mset_commute)
  qed
qed

lemma heapify_from_props:
  "i \<le> length h div 2 \<Longrightarrow>
   mset (heapify_from lt h i) = mset h \<and> length (heapify_from lt h i) = length h"
  by (induction i arbitrary: h) (auto simp: mset_siftup)

lemma mset_heapify: "mset (heapify lt h) = mset h"
  by (simp add: heapify_def heapify_from_props)

section \<open>Ordering\<close>

definition heap_from :: "('a \<Rightarrow> 'a \<Rightarrow> bool) \<Rightarrow> nat \<Rightarrow> 'a list \<Rightarrow> bool" where
  "heap_from lt s h \<longleftrightarrow>
     (\<forall>i < length h. 0 < i \<and> s \<le> parent i \<longrightarrow> \<not> lt (h ! i) (h ! parent i))"

text \<open>\<open>below s pos\<close>: position \<open>pos\<close> is in the subtree of position \<open>s\<close>.\<close>

fun below :: "nat \<Rightarrow> nat \<Rightarrow> bool" where
  "below s pos = (if s < pos then below s (parent pos) else pos = s)"

declare below.simps [simp del]

lemma below_refl: "below s s"
  by (simp add: below.simps)

lemma below_step: "below s pos \<Longrightarrow> s < c \<Longrightarrow> parent c = pos \<Longrightarrow> below s c"
  by (subst below.simps) simp

lemma below_ge: "below s pos \<Longrightarrow> s \<le> pos"
  by (subst (asm) below.simps) (auto split: if_splits)

lemma below_parent: "below s pos \<Longrightarrow> s < pos \<Longrightarrow> below s (parent pos)"
  by (subst (asm) below.simps) simp

lemma below_0: "below 0 pos"
  by (induction pos rule: less_induct) (subst below.simps, auto)

text \<open>
  The state of a sift, a list with a hole at \<open>pos\<close>: the heap order holds away from the
  hole, and the hole's children are not less than the hole's parent.
\<close>

definition hole_ok :: "('a \<Rightarrow> 'a \<Rightarrow> bool) \<Rightarrow> nat \<Rightarrow> 'a list \<Rightarrow> nat \<Rightarrow> bool" where
  "hole_ok lt s h pos \<longleftrightarrow>
     below s pos \<and> pos < length h \<and>
     (\<forall>i < length h. 0 < i \<and> s \<le> parent i \<and> i \<noteq> pos \<and> parent i \<noteq> pos
        \<longrightarrow> \<not> lt (h ! i) (h ! parent i)) \<and>
     (\<forall>i < length h. 0 < i \<and> parent i = pos \<and> s < pos \<longrightarrow> \<not> lt (h ! i) (h ! parent pos))"

lemma parent_le: "parent i \<le> i"
  by simp

locale heap_order =
  fixes lt :: "'a \<Rightarrow> 'a \<Rightarrow> bool" and ok :: "'a \<Rightarrow> bool"
  assumes lt_asym: "ok x \<Longrightarrow> ok y \<Longrightarrow> lt x y \<Longrightarrow> \<not> lt y x"
    and lt_negtrans: "ok x \<Longrightarrow> ok y \<Longrightarrow> ok z \<Longrightarrow> \<not> lt y x \<Longrightarrow> \<not> lt z y \<Longrightarrow> \<not> lt z x"
begin

lemma hole_siftdown_step:
  assumes hole: "hole_ok lt s h pos" and oks: "\<forall>y \<in> set h. ok y" and "ok x"
    and "s < pos" and less: "lt x (h ! parent pos)"
  shows "hole_ok lt s (h[pos := h ! parent pos]) (parent pos)"
    and "\<forall>i < length h. 0 < i \<and> parent i = parent pos
           \<longrightarrow> \<not> lt (h[pos := h ! parent pos] ! i) x"
proof -
  let ?p = "parent pos" and ?h = "h[pos := h ! parent pos]"
  have pos: "pos < length h" "below s pos" using hole by (auto simp: hole_ok_def)
  have p: "?p < pos" "below s ?p" "?p < length h" "s \<le> ?p"
    using pos \<open>s < pos\<close> below_parent below_ge by fastforce+
  have away: "\<not> lt (h ! i) (h ! parent i)"
    if "i < length h" "0 < i" "s \<le> parent i" "i \<noteq> pos" "parent i \<noteq> pos" for i
    using hole that by (simp add: hole_ok_def)
  have across: "\<not> lt (h ! i) (h ! ?p)" if "i < length h" "0 < i" "parent i = pos" for i
    using hole that \<open>s < pos\<close> by (simp add: hole_ok_def)
  have ok_nth: "ok (h ! i)" if "i < length h" for i using oks that by simp
  have above: "\<not> lt (h ! ?p) (h ! parent ?p)" if "s < ?p"
  proof -
    have "s \<le> parent ?p" using below_ge [OF below_parent [OF p(2) that]] .
    moreover have "parent ?p \<noteq> pos" using p(1) by linarith
    ultimately show ?thesis using away [of ?p] that p by simp
  qed
  show "\<forall>i < length h. 0 < i \<and> parent i = ?p \<longrightarrow> \<not> lt (?h ! i) x"
  proof (intro allI impI)
    fix i assume i: "i < length h" "0 < i \<and> parent i = ?p"
    have "\<not> lt (h ! ?p) x" using lt_asym less ok_nth [OF p(3)] \<open>ok x\<close> by blast
    moreover have "\<not> lt (h ! i) (h ! ?p)" if "i \<noteq> pos"
      using away [of i] that i p by simp
    ultimately show "\<not> lt (?h ! i) x"
      using i lt_negtrans [of x "h ! ?p" "h ! i"] ok_nth p \<open>ok x\<close>
      by (cases "i = pos") auto
  qed
  have "\<not> lt (?h ! i) (?h ! parent i)"
    if "i < length h" "0 < i" "s \<le> parent i" "i \<noteq> ?p" "parent i \<noteq> ?p" for i
    using away [of i] across [of i] that by (cases "i = pos"; cases "parent i = pos") auto
  moreover have "\<not> lt (?h ! i) (?h ! parent ?p)"
    if i: "i < length h" "0 < i" "parent i = ?p" and "s < ?p" for i
  proof -
    have pp: "parent ?p \<noteq> pos" "parent ?p < length h"
      using parent_le [of ?p] p(1,3) by linarith+
    have "\<not> lt (h ! i) (h ! ?p)" if "i \<noteq> pos" using away [of i] that i p by simp
    then have "\<not> lt (h ! i) (h ! parent ?p)" if "i \<noteq> pos"
      using that lt_negtrans [OF ok_nth [OF pp(2)] ok_nth [OF p(3)] ok_nth [OF i(1)]]
        above [OF \<open>s < ?p\<close>] by blast
    moreover have "?h ! parent ?p = h ! parent ?p" using pp(1) by simp
    moreover have "?h ! i = (if i = pos then h ! ?p else h ! i)" using pos(1) by simp
    ultimately show ?thesis using above [OF \<open>s < ?p\<close>] by metis
  qed
  ultimately show "hole_ok lt s ?h ?p" unfolding hole_ok_def using p by (simp only: length_list_update) blast
qed

lemma siftdown_heap:
  assumes "hole_ok lt s h pos" and "\<forall>y \<in> set h. ok y" and "ok x"
    and "\<forall>i < length h. 0 < i \<and> parent i = pos \<longrightarrow> \<not> lt (h ! i) x"
  shows "heap_from lt s (siftdown lt h s pos x)"
  using assms
proof (induction pos arbitrary: h rule: less_induct)
  case (less pos)
  have pos: "pos < length h" using less.prems(1) by (simp add: hole_ok_def)
  show ?case
  proof (cases "s < pos \<and> lt x (h ! parent pos)")
    case True
    let ?h = "h[pos := h ! parent pos]"
    have "heap_from lt s (siftdown lt ?h s (parent pos) x)"
    proof (rule less.IH)
      show "parent pos < pos" using True by auto
      show "hole_ok lt s ?h (parent pos)"
        using hole_siftdown_step(1) less.prems True by blast
      show "\<forall>y\<in>set ?h. ok y"
        using less.prems(2) pos set_update_subset_insert [of h pos "h ! parent pos"]
        by (auto dest!: subsetD)
      show "\<forall>i<length ?h. 0 < i \<and> parent i = parent pos \<longrightarrow> \<not> lt (?h ! i) x"
        using hole_siftdown_step(2) [OF less.prems(1,2,3)] True by simp
    qed (rule less.prems)
    with True show ?thesis by (subst siftdown.simps) simp
  next
    case False
    have "s \<le> parent pos \<Longrightarrow> 0 < pos \<Longrightarrow> s < pos" by auto
    with False less.prems show ?thesis
      by (subst siftdown.simps)
         (auto simp: heap_from_def hole_ok_def nth_list_update)
  qed
qed

lemma hole_sift_step:
  assumes hole: "hole_ok lt s h pos" and oks: "\<forall>y \<in> set h. ok y"
    and child: "Suc (2 * pos) < length h"
  shows "hole_ok lt s (h[pos := h ! smaller_child lt h pos]) (smaller_child lt h pos)"
proof -
  let ?c = "smaller_child lt h pos"
  let ?h = "h[pos := h ! ?c]"
  have pos: "pos < length h" "below s pos" "s \<le> pos"
    using hole below_ge by (auto simp: hole_ok_def)
  have c: "pos < ?c" "?c < length h" "parent ?c = pos"
    using smaller_child_bounds [OF child, of lt] by auto
  have away: "\<not> lt (h ! i) (h ! parent i)"
    if "i < length h" "0 < i" "s \<le> parent i" "i \<noteq> pos" "parent i \<noteq> pos" for i
    using hole that by (simp add: hole_ok_def)
  have across: "\<not> lt (h ! i) (h ! parent pos)"
    if "i < length h" "0 < i" "parent i = pos" "s < pos" for i
    using hole that by (simp add: hole_ok_def)
  have sibling: "\<not> lt (h ! i) (h ! ?c)" if "i < length h" "0 < i" "parent i = pos" for i
  proof -
    from that have "i = 2 * pos + 1 \<or> i = 2 * pos + 2" by auto
    then show ?thesis
      using that oks child lt_asym [of "h ! i" "h ! i"] lt_asym [of "h ! (2 * pos + 1)" "h ! i"]
      by (auto simp: smaller_child_def Let_def split: if_splits)
  qed
  have "\<not> lt (?h ! i) (?h ! parent i)"
    if i: "i < length h" "0 < i" "s \<le> parent i" "i \<noteq> ?c" "parent i \<noteq> ?c" for i
  proof (cases "i = pos")
    case True
    then show ?thesis using i c pos across [of ?c] by auto
  next
    case False
    then show ?thesis using i c pos away [of i] sibling [of i] by (cases "parent i = pos") auto
  qed
  moreover have "\<not> lt (?h ! i) (?h ! parent ?c)"
    if i: "i < length h" "0 < i" "parent i = ?c" for i
    using away [of i] i c pos by (auto simp del: One_nat_def)
  moreover have "below s ?c" using below_step pos c by auto
  ultimately show ?thesis using c by (auto simp: hole_ok_def nth_list_update)
qed

lemma ok_list_update: "\<forall>y \<in> set h. ok y \<Longrightarrow> ok z \<Longrightarrow> \<forall>y \<in> set (h[i := z]). ok y"
  using set_update_subset_insert [of h i z] by auto

lemma sift_hole_heap:
  assumes "hole_ok lt s h pos" and "\<forall>y \<in> set h. ok y" and "sift_hole lt h pos = (h', leaf)"
  shows "hole_ok lt s h' leaf \<and> (\<forall>y \<in> set h'. ok y) \<and> length h' \<le> Suc (2 * leaf)"
  using assms
proof (induction "length h - pos" arbitrary: h pos rule: less_induct)
  case less
  show ?case
  proof (cases "Suc (2 * pos) < length h")
    case True
    let ?c = "smaller_child lt h pos"
    have c: "pos < ?c" "?c < length h" using smaller_child_bounds [OF True, of lt] by auto
    have "sift_hole lt (h[pos := h ! ?c]) ?c = (h', leaf)"
      using less.prems(3) True by (subst (asm) sift_hole.simps) simp
    moreover have "hole_ok lt s (h[pos := h ! ?c]) ?c"
      using hole_sift_step less.prems(1,2) True by blast
    moreover have "\<forall>y \<in> set (h[pos := h ! ?c]). ok y"
      by (rule ok_list_update [OF less.prems(2)]) (use less.prems(2) c(2) in simp)
    moreover have "length (h[pos := h ! ?c]) - ?c < length h - pos" using c by simp
    ultimately show ?thesis using less.hyps [of "h[pos := h ! ?c]" ?c] by blast
  next
    case False
    with less.prems show ?thesis by (subst (asm) sift_hole.simps) auto
  qed
qed

lemma siftup_heap:
  assumes "heap_from lt (Suc s) h" and "\<forall>y \<in> set h. ok y" and "s < length h" and "ok x"
  shows "heap_from lt s (siftup lt (h[s := x]) s)"
proof -
  obtain h' leaf where sift: "sift_hole lt (h[s := x]) s = (h', leaf)"
    by (cases "sift_hole lt (h[s := x]) s")
  have "hole_ok lt s (h[s := x]) s"
    using assms(1,3) by (auto simp: hole_ok_def heap_from_def below_refl nth_list_update)
  from sift_hole_heap [OF this ok_list_update [OF assms(2,4)] sift]
  have h': "hole_ok lt s h' leaf" "\<forall>y \<in> set h'. ok y" "length h' \<le> Suc (2 * leaf)"
    by blast+
  have "\<not> (0 < i \<and> parent i = leaf)" if "i < length h'" for i
    using that h'(3) by linarith
  with h'(1,2) have "heap_from lt s (siftdown lt h' s leaf x)"
    using siftdown_heap \<open>ok x\<close> by blast
  with sift assms(3) show ?thesis by (simp add: siftup_def)
qed

lemma heappush_heap:
  assumes "heap_from lt 0 h" and "\<forall>y \<in> set h. ok y" and "ok x"
  shows "heap_from lt 0 (heappush lt h x)"
  unfolding heappush_def
proof (rule siftdown_heap)
  show "hole_ok lt 0 (h @ [x]) (length h)"
  proof -
    have "\<not> (i < Suc (length h) \<and> 0 < i \<and> parent i = length h)" for i by linarith
    then show ?thesis
      using assms(1) by (auto simp: hole_ok_def heap_from_def below_0 nth_append)
  qed
  have "\<not> (i < Suc (length h) \<and> 0 < i \<and> parent i = length h)" for i by linarith
  then show "\<forall>i<length (h @ [x]). 0 < i \<and> parent i = length h \<longrightarrow> \<not> lt ((h @ [x]) ! i) x"
    by auto
qed (use assms in auto)

lemma heappop_heap:
  assumes "heap_from lt 0 h" and "\<forall>y \<in> set h. ok y" and "heappop lt h = Inr (x, h')"
  shows "heap_from lt 0 h'"
proof -
  obtain ys y where h: "h = ys @ [y]"
    using assms(3) by (cases h rule: rev_cases) (auto simp: heappop_def)
  show ?thesis
  proof (cases ys)
    case Nil
    with assms(3) h show ?thesis by (auto simp: heappop_def heap_from_def)
  next
    case (Cons z zs)
    have "heap_from lt (Suc 0) ys"
    proof -
      have "\<not> lt (ys ! i) (ys ! parent i)" if "i < length ys" "0 < i" for i
      proof -
        have "parent i < length ys" using that by linarith
        with assms(1) h that show ?thesis by (auto simp: heap_from_def nth_append dest!: spec [of _ i])
      qed
      then show ?thesis by (simp add: heap_from_def)
    qed
    then have "heap_from lt 0 (siftup lt (ys[0 := y]) 0)"
      using siftup_heap [of 0 ys y] assms(2) h Cons by simp
    with assms(3) h Cons show ?thesis by (auto simp: heappop_def Let_def split: list.splits)
  qed
qed

lemma heapify_from_heap:
  "\<lbrakk>i \<le> length h div 2; heap_from lt i h; \<forall>y \<in> set h. ok y\<rbrakk> \<Longrightarrow> heap_from lt 0 (heapify_from lt h i)"
proof (induction i arbitrary: h)
  case 0
  then show ?case by simp
next
  case (Suc i)
  have i: "i < length h" using Suc.prems(1) by auto
  have "heap_from lt i (siftup lt h i)"
    using siftup_heap [of i h "h ! i"] Suc.prems i by simp
  moreover have "set (siftup lt h i) = set h"
    using mset_siftup [OF i, of lt] by (metis set_mset_mset)
  ultimately show ?case using Suc i by simp
qed

lemma heapify_heap: "\<forall>y \<in> set h. ok y \<Longrightarrow> heap_from lt 0 (heapify lt h)"
  unfolding heapify_def by (rule heapify_from_heap) (auto simp: heap_from_def)

lemma heap_root_least:
  assumes "heap_from lt 0 h" and "\<forall>y \<in> set h. ok y" and "i < length h"
  shows "\<not> lt (h ! i) (h ! 0)"
  using assms(3)
proof (induction i rule: less_induct)
  case (less i)
  show ?case
  proof (cases "i = 0")
    case True
    with lt_asym [of "h ! 0" "h ! 0"] assms(2) less.prems show ?thesis by auto
  next
    case False
    then have p: "parent i < i" "parent i < length h" using less.prems by auto
    have "\<not> lt (h ! i) (h ! parent i)" using assms(1) less.prems False by (simp add: heap_from_def)
    moreover have "ok (h ! j)" if "j < length h" for j using assms(2) nth_mem [OF that] by blast
    then have "ok (h ! 0)" "ok (h ! parent i)" "ok (h ! i)"
      using less.prems p(2) by (blast intro: le_less_trans [OF le0])+
    ultimately show ?thesis by (rule lt_negtrans [rotated 3, OF less.IH [OF p]])
  qed
qed

lemma heappop_least:
  assumes "heap_from lt 0 h" and "\<forall>y \<in> set h. ok y" and "heappop lt h = Inr (x, h')"
    and "y \<in> set h"
  shows "\<not> lt y x"
proof -
  have "x = h ! 0"
    using assms(3) by (auto simp: heappop_def Let_def split: list.splits if_splits)
  moreover obtain i where "i < length h" "y = h ! i" using assms(4) by (auto simp: in_set_conv_nth)
  ultimately show ?thesis using heap_root_least assms(1,2) by blast
qed

end

end
