(* ===== verification/ExpQueue.thy ===== *)
theory ExpQueue
  imports Exp Heapq
begin

text \<open>
  The expiration queue \<open>ExpQueue\<close> of \<open>src/src/feat/common/container.py\<close>, a heap of
  \<open>ExpItem\<close>s ordered by \<open>ExpItem.__cmp__\<close>.

  An operation returns what the method returns or raises, the values it handed to the
  \<open>on_expire\<close> callback in the order of the calls, and the new queue.  The attributes
  \<open>_max_size\<close> and \<open>_on_expire\<close> are options because \<open>prepare\<close> creates an instance without
  running \<open>__init__\<close> and \<open>recover\<close> does not set them; reading one that is missing raises
  \<open>AttributeError\<close>.  \<open>xq_on_expire q = Some b\<close> says whether the callback is callable.

  The lemmas account for every item (each one is still queued, returned or expired) for any
  expirations; the order of the returned values is proved for expirations that are whole
  milliseconds, where \<open>ExpItem.__cmp__\<close> is a proper order (\<open>heap_order\<close>).
\<close>

section \<open>Definitions\<close>

record 'v xqueue =
  xq_heap :: "'v exp_item list"
  xq_max_size :: "running_average option"
  xq_last_pack :: time
  xq_on_expire :: "bool option"

definition item_lt :: "'v exp_item \<Rightarrow> 'v exp_item \<Rightarrow> bool" where
  "item_lt a b \<longleftrightarrow> item_cmp a b < 0"

definition xq_init :: "rat option \<Rightarrow> bool \<Rightarrow> 'v xqueue" where
  "xq_init max_size on_expire =
     \<lparr>xq_heap = [],
      xq_max_size = Some (ra_new (case max_size of
        None \<Rightarrow> DEFAULT_MAX_SIZE | Some m \<Rightarrow> if m = 0 then DEFAULT_MAX_SIZE else m)),
      xq_last_pack = 0,
      xq_on_expire = Some on_expire\<rparr>"

definition xq_clear :: "'v xqueue \<Rightarrow> 'v xqueue" where
  "xq_clear q = q\<lparr>xq_heap := []\<rparr>"

definition xq_pack_at :: "time \<Rightarrow> 'v xqueue \<Rightarrow> (exn + unit) \<times> 'v list \<times> 'v xqueue" where
  "xq_pack_at now q =
     (let new_heap = filter (item_live now) (xq_heap q);
          dead = filter (\<lambda>i. \<not> item_live now i) (xq_heap q);
          calls = (if xq_on_expire q = Some True then map item_value dead else []) in
      if dead \<noteq> [] \<and> xq_on_expire q = None then (Inl AttributeError, [], q)
      else (let q = q\<lparr>xq_heap := heapify item_lt new_heap, xq_last_pack := now\<rparr> in
            case xq_max_size q of
              None \<Rightarrow> (Inl AttributeError, calls, q)
            | Some r \<Rightarrow> (Inr (), calls,
                q\<lparr>xq_max_size := Some (ra_add_point (of_nat (length new_heap)) r)\<rparr>)))"

definition xq_lazy_pack :: "time \<Rightarrow> 'v xqueue \<Rightarrow> (exn + unit) \<times> 'v list \<times> 'v xqueue" where
  "xq_lazy_pack now q =
     (case xq_max_size q of
        None \<Rightarrow> (Inl AttributeError, [], q)
      | Some r \<Rightarrow>
          if of_nat (length (xq_heap q)) > ra_get_value r * (5 / 4) \<and>
             now - xq_last_pack q \<ge> 1 / MAX_LAZY_PACK_PER_SECOND
          then xq_pack_at now q else (Inr (), [], q))"

definition xq_pack :: "clock \<Rightarrow> 'v xqueue \<Rightarrow> (exn + unit) \<times> 'v list \<times> 'v xqueue" where
  "xq_pack clk q = xq_pack_at (clk 0) q"

definition xq_add ::
  "clock \<Rightarrow> 'v \<Rightarrow> time option \<Rightarrow> bool \<Rightarrow> 'v xqueue \<Rightarrow> (exn + unit) \<times> 'v list \<times> 'v xqueue" where
  "xq_add clk v expiration relative q =
     (case xq_lazy_pack (clk 0) q of
        (Inl e, calls, q) \<Rightarrow> (Inl e, calls, q)
      | (Inr _, calls, q) \<Rightarrow>
          (case expiration of
             None \<Rightarrow> (Inr (), calls,
               q\<lparr>xq_heap := heappush item_lt (xq_heap q) \<lparr>item_exp = None, item_value = v\<rparr>\<rparr>)
           | Some e \<Rightarrow>
               (let now = clk 2; e = (if relative then now + e else e) in
                if e \<le> now then (Inr (), calls, q)
                else (Inr (), calls,
                  q\<lparr>xq_heap := heappush item_lt (xq_heap q) \<lparr>item_exp = Some e, item_value = v\<rparr>\<rparr>))))"

text \<open>The \<open>while True\<close> loop of \<open>pop\<close>; it ends because each turn takes an item off the heap.\<close>

function xq_pop_loop :: "time \<Rightarrow> 'v xqueue \<Rightarrow> (exn + 'v) \<times> 'v list \<times> 'v xqueue" where
  "xq_pop_loop now q =
     (case heappop item_lt (xq_heap q) of
        Inl _ \<Rightarrow> (Inl Empty, [], q)
      | Inr (i, h) \<Rightarrow>
          if item_live now i then (Inr (item_value i), [], q\<lparr>xq_heap := h\<rparr>)
          else (case xq_on_expire q of
                  None \<Rightarrow> (Inl AttributeError, [], q\<lparr>xq_heap := h\<rparr>)
                | Some b \<Rightarrow>
                    (case xq_pop_loop now (q\<lparr>xq_heap := h\<rparr>) of
                       (r, calls, q) \<Rightarrow> (r, (if b then item_value i # calls else calls), q))))"
  by pat_completeness auto
termination
  by (relation "measure (\<lambda>(now, q). length (xq_heap q))") (auto dest: heappop_props)

declare xq_pop_loop.simps [simp del]

definition xq_pop :: "clock \<Rightarrow> 'v xqueue \<Rightarrow> (exn + 'v) \<times> 'v list \<times> 'v xqueue" where
  "xq_pop clk q =
     (case xq_lazy_pack (clk 0) q of
        (Inl e, calls, q) \<Rightarrow> (Inl e, calls, q)
      | (Inr _, calls, q) \<Rightarrow>
          (case xq_pop_loop (clk 1) q of (r, calls', q) \<Rightarrow> (r, calls @ calls', q)))"

definition xq_size :: "'v xqueue \<Rightarrow> nat" where
  "xq_size q = length (xq_heap q)"

fun live_values :: "clock \<Rightarrow> nat \<Rightarrow> 'v exp_item list \<Rightarrow> 'v list" where
  "live_values clk n [] = []"
| "live_values clk n (i # items) =
     (if item_live (clk n) i then item_value i # live_values clk (Suc n) items
      else live_values clk n items)"

definition xq_iter :: "clock \<Rightarrow> 'v xqueue \<Rightarrow> (exn + 'v list) \<times> 'v list \<times> 'v xqueue" where
  "xq_iter clk q =
     (case xq_lazy_pack (clk 0) q of
        (Inl e, calls, q) \<Rightarrow> (Inl e, calls, q)
      | (Inr _, calls, q) \<Rightarrow> (Inr (live_values clk 1 (xq_heap q)), calls, q))"

definition xq_len :: "clock \<Rightarrow> 'v xqueue \<Rightarrow> nat" where
  "xq_len clk q = length (filter (item_live (clk 0)) (xq_heap q))"

definition xq_live_pairs :: "time \<Rightarrow> 'v xqueue \<Rightarrow> (int option \<times> 'v) list" where
  "xq_live_pairs now q =
     map (\<lambda>i. (item_pri i, item_value i)) (filter (item_live now) (xq_heap q))"

definition xq_eq :: "clock \<Rightarrow> 'v::linorder xqueue \<Rightarrow> 'v xqueue \<Rightarrow> bool" where
  "xq_eq clk q other = (sort (xq_live_pairs (clk 0) q) = sort (xq_live_pairs (clk 0) other))"

definition xq_snapshot :: "clock \<Rightarrow> 'v xqueue \<Rightarrow> (int option \<times> 'v) list" where
  "xq_snapshot clk q = map item_snapshot (filter (item_live (clk 0)) (xq_heap q))"

text \<open>\<open>ExpBase.prepare\<close> makes the bare instance that \<open>recover\<close> then fills.\<close>

definition xq_prepare :: "'v xqueue" where
  "xq_prepare = \<lparr>xq_heap = [], xq_max_size = None, xq_last_pack = 0, xq_on_expire = None\<rparr>"

definition xq_recover :: "(int option \<times> 'v) list \<Rightarrow> 'v xqueue \<Rightarrow> 'v xqueue" where
  "xq_recover data q = q\<lparr>xq_heap := map item_restore data, xq_last_pack := 0\<rparr>"

section \<open>The comparison\<close>

lemma item_lt_iff:
  "item_lt a b \<longleftrightarrow>
     (case item_exp a of
        None \<Rightarrow> False
      | Some x \<Rightarrow> (case item_exp b of None \<Rightarrow> True | Some y \<Rightarrow> x + 1 / 2000 \<le> y))"
proof -
  have "py_round (x * PRECISION - y * PRECISION) < 0 \<longleftrightarrow> x + 1 / 2000 \<le> y" for x y
    unfolding py_round_neg PRECISION_def by linarith
  then show ?thesis by (auto simp: item_lt_def item_cmp_def split: option.splits)
qed

text \<open>Items whose expiration is a whole number of milliseconds.\<close>

definition item_ms :: "'v exp_item \<Rightarrow> bool" where
  "item_ms i = (case item_exp i of None \<Rightarrow> True | Some e \<Rightarrow> of_int \<lfloor>e * 1000\<rfloor> = e * 1000)"

text \<open>The order of the queue: an item without expiration comes last.\<close>

definition expires_no_later :: "'v exp_item \<Rightarrow> 'v exp_item \<Rightarrow> bool" where
  "expires_no_later a b =
     (case item_exp b of
        None \<Rightarrow> True
      | Some y \<Rightarrow> (case item_exp a of None \<Rightarrow> False | Some x \<Rightarrow> x \<le> y))"

lemma item_lt_ms:
  assumes "item_ms a" "item_ms b"
  shows "\<not> item_lt b a \<longleftrightarrow> expires_no_later a b"
proof (cases "item_exp a"; cases "item_exp b")
  fix x y assume a: "item_exp a = Some x" and b: "item_exp b = Some y"
  obtain m n :: int where x: "x = of_int m / 1000" and y: "y = of_int n / 1000"
    using assms a b by (auto simp: item_ms_def eq_divide_eq)
  have "y + 1 / 2000 \<le> x \<longleftrightarrow> of_int (2 * n + 1) \<le> (of_int (2 * m) :: rat)"
    unfolding x y by simp linarith
  also have "\<dots> \<longleftrightarrow> \<not> m \<le> n" unfolding of_int_le_iff by linarith
  also have "\<dots> \<longleftrightarrow> \<not> x \<le> y" by (simp add: x y field_simps)
  finally have "y + 1 / 2000 \<le> x \<longleftrightarrow> \<not> x \<le> y" .
  then show ?thesis using a b by (auto simp: item_lt_iff expires_no_later_def)
qed (auto simp: item_lt_iff expires_no_later_def)

lemma expires_no_later_trans:
  "expires_no_later a b \<Longrightarrow> expires_no_later b c \<Longrightarrow> expires_no_later a c"
  by (auto simp: expires_no_later_def split: option.splits)

interpretation xqh: heap_order item_lt item_ms
proof unfold_locales
  fix x y z :: "'a exp_item"
  assume ms: "item_ms x" "item_ms y"
  show "item_lt x y \<Longrightarrow> \<not> item_lt y x"
    by (auto simp: item_lt_iff split: option.splits)
  assume "item_ms z"
  with ms show "\<not> item_lt y x \<Longrightarrow> \<not> item_lt z y \<Longrightarrow> \<not> item_lt z x"
    by (auto simp: item_lt_ms intro: expires_no_later_trans)
qed

section \<open>Every item is accounted for\<close>

definition xq_constructed :: "'v xqueue \<Rightarrow> bool" where
  "xq_constructed q \<longleftrightarrow> xq_max_size q \<noteq> None \<and> xq_on_expire q \<noteq> None"

text \<open>What a call did with the items that are no longer queued: those in \<open>dead\<close> had expired,
  and the callback, if there is one, was given their values.\<close>

definition xq_accounts :: "time \<Rightarrow> 'v xqueue \<Rightarrow> 'v exp_item multiset \<Rightarrow> 'v list \<Rightarrow> 'v xqueue \<Rightarrow> bool" where
  "xq_accounts now q dead calls q' \<longleftrightarrow>
     mset (xq_heap q) = dead + mset (xq_heap q') \<and>
     (\<forall>i \<in># dead. \<not> item_live now i) \<and>
     mset calls = (if xq_on_expire q = Some True then image_mset item_value dead else {#}) \<and>
     xq_on_expire q' = xq_on_expire q \<and> xq_constructed q'"

lemma xq_accounts_refl: "xq_constructed q \<Longrightarrow> xq_accounts now q {#} [] q"
  by (simp add: xq_accounts_def)

lemma xq_accounts_trans:
  "\<lbrakk>xq_accounts t q dead calls q'; xq_accounts t' q' dead' calls' q''; t \<le> t'\<rbrakk>
   \<Longrightarrow> xq_accounts t' q (dead + dead') (calls @ calls') q''"
  by (auto simp: xq_accounts_def dest: item_live_mono)

definition xq_pop_outcome ::
  "time \<Rightarrow> 'v xqueue \<Rightarrow> exn + 'v \<Rightarrow> 'v exp_item multiset \<Rightarrow> 'v list \<Rightarrow> 'v xqueue \<Rightarrow> bool" where
  "xq_pop_outcome now q r dead calls q' \<longleftrightarrow>
     (case r of
        Inl e \<Rightarrow> e = Empty \<and> xq_heap q' = [] \<and> xq_accounts now q dead calls q'
      | Inr v \<Rightarrow> (\<exists>i. item_value i = v \<and> item_live now i \<and>
                    xq_accounts now q dead calls (q'\<lparr>xq_heap := i # xq_heap q'\<rparr>)))"

lemma xq_pack_at_accounts:
  assumes "xq_constructed q"
  obtains calls q' dead where "xq_pack_at now q = (Inr (), calls, q')"
    and "xq_accounts now q dead calls q'"
    and "mset (xq_heap q') = filter_mset (item_live now) (mset (xq_heap q))"
proof -
  obtain r b where q: "xq_max_size q = Some r" "xq_on_expire q = Some b"
    using assms by (auto simp: xq_constructed_def)
  let ?live = "filter (item_live now) (xq_heap q)" and ?dead = "filter (\<lambda>i. \<not> item_live now i) (xq_heap q)"
  let ?calls = "if b then map item_value ?dead else []"
  let ?q = "q\<lparr>xq_heap := heapify item_lt ?live, xq_last_pack := now,
              xq_max_size := Some (ra_add_point (of_nat (length ?live)) r)\<rparr>"
  have "xq_pack_at now q = (Inr (), ?calls, ?q)" using q by (simp add: xq_pack_at_def Let_def)
  moreover have "mset (xq_heap q) = mset ?dead + mset ?live"
    using multiset_partition [of "mset (xq_heap q)" "item_live now"] by (simp add: add.commute)
  then have "xq_accounts now q (mset ?dead) ?calls ?q"
    using q by (auto simp: xq_accounts_def xq_constructed_def mset_heapify)
  moreover have "mset (xq_heap ?q) = filter_mset (item_live now) (mset (xq_heap q))"
    by (simp add: mset_heapify)
  ultimately show thesis by (rule that)
qed

lemma xq_lazy_pack_accounts:
  assumes "xq_constructed q"
  obtains calls q' dead where "xq_lazy_pack now q = (Inr (), calls, q')"
    and "xq_accounts now q dead calls q'"
proof -
  obtain r where r: "xq_max_size q = Some r" using assms by (auto simp: xq_constructed_def)
  obtain calls q' dead where "xq_pack_at now q = (Inr (), calls, q')" "xq_accounts now q dead calls q'"
    by (rule xq_pack_at_accounts [OF assms])
  with that r xq_accounts_refl [OF assms, of now] show thesis
    by (cases "xq_lazy_pack now q = xq_pack_at now q")
       (auto simp: xq_lazy_pack_def split: if_splits)
qed

lemma xq_accounts_pop:
  assumes "heappop item_lt (xq_heap q) = Inr (i, h)" and "\<not> item_live now i"
    and "xq_accounts now (q\<lparr>xq_heap := h\<rparr>) dead calls q0"
  shows "xq_accounts now q (add_mset i dead)
           (if xq_on_expire q = Some True then item_value i # calls else calls) q0"
  using assms heappop_props [OF assms(1)] by (auto simp: xq_accounts_def)

lemma xq_pop_loop_outcome:
  assumes "xq_constructed q"
  shows "\<exists>r calls q' dead. xq_pop_loop now q = (r, calls, q') \<and> xq_pop_outcome now q r dead calls q'"
  using assms
proof (induction "length (xq_heap q)" arbitrary: q rule: less_induct)
  case less
  obtain b where b: "xq_on_expire q = Some b" using less.prems by (auto simp: xq_constructed_def)
  show ?case
  proof (cases "heappop item_lt (xq_heap q)")
    case (Inl e)
    then have "xq_pop_loop now q = (Inl Empty, [], q)"
      by (subst xq_pop_loop.simps) simp
    moreover have "xq_heap q = []" using Inl by (simp add: heappop_Inl)
    ultimately show ?thesis using xq_accounts_refl [OF less.prems]
      by (auto simp: xq_pop_outcome_def)
  next
    case (Inr ih)
    obtain i h where ih: "ih = (i, h)" by (cases ih)
    note pop = Inr [unfolded ih] and props = heappop_props [OF Inr [unfolded ih]]
    let ?q = "q\<lparr>xq_heap := h\<rparr>"
    show ?thesis
    proof (cases "item_live now i")
      case True
      then have "xq_pop_loop now q = (Inr (item_value i), [], ?q)"
        using pop by (subst xq_pop_loop.simps) simp
      moreover have "xq_accounts now q {#} [] (?q\<lparr>xq_heap := i # h\<rparr>)"
        using props less.prems by (simp add: xq_accounts_def xq_constructed_def)
      ultimately show ?thesis using True by (auto simp: xq_pop_outcome_def)
    next
      case False
      have "length (xq_heap ?q) < length (xq_heap q)" "xq_constructed ?q"
        using props less.prems by (auto simp: xq_constructed_def)
      from less.hyps [OF this] obtain r calls q' dead where
        loop: "xq_pop_loop now ?q = (r, calls, q')" and res: "xq_pop_outcome now ?q r dead calls q'"
        by blast
      have "xq_pop_loop now q = (r, if b then item_value i # calls else calls, q')"
        using pop False b loop by (subst xq_pop_loop.simps) simp
      moreover have "xq_pop_outcome now q r (add_mset i dead) (if b then item_value i # calls else calls) q'"
        using res xq_accounts_pop [OF pop False] b by (auto simp: xq_pop_outcome_def split: sum.splits)
      ultimately show ?thesis by blast
    qed
  qed
qed

lemma xq_pop_outcome_exists:
  assumes "xq_constructed q" and "clk 0 \<le> clk 1"
  shows "\<exists>r calls q' dead. xq_pop clk q = (r, calls, q') \<and> xq_pop_outcome (clk 1) q r dead calls q'"
proof -
  obtain calls0 q0 dead0 where lazy: "xq_lazy_pack (clk 0) q = (Inr (), calls0, q0)"
    and acc0: "xq_accounts (clk 0) q dead0 calls0 q0"
    by (rule xq_lazy_pack_accounts [OF assms(1)])
  then have "xq_constructed q0" by (simp add: xq_accounts_def)
  from xq_pop_loop_outcome [OF this, of "clk 1"] obtain r calls q' dead where
    loop: "xq_pop_loop (clk 1) q0 = (r, calls, q')" and res: "xq_pop_outcome (clk 1) q0 r dead calls q'"
    by blast
  have "xq_pop clk q = (r, calls0 @ calls, q')" using lazy loop by (simp add: xq_pop_def)
  moreover have "xq_pop_outcome (clk 1) q r (dead0 + dead) (calls0 @ calls) q'"
    using res xq_accounts_trans [OF acc0 _ assms(2)]
    by (auto simp: xq_pop_outcome_def split: sum.splits)
  ultimately show ?thesis by blast
qed

lemma xq_pop_shrinks:
  assumes "xq_constructed q" and "xq_pop (\<lambda>_. now) q = (Inr v, calls, q')"
  shows "length (xq_heap q') < length (xq_heap q)" and "xq_constructed q'"
proof -
  from xq_pop_outcome_exists [OF assms(1), of "\<lambda>_. now"] assms(2) obtain dead i where
    acc: "xq_accounts now q dead calls (q'\<lparr>xq_heap := i # xq_heap q'\<rparr>)"
    by (auto simp: xq_pop_outcome_def)
  then have "size (mset (xq_heap q)) = size (dead + mset (i # xq_heap q'))"
    by (simp add: xq_accounts_def)
  then show "length (xq_heap q') < length (xq_heap q)" by simp
  have "xq_constructed (q'\<lparr>xq_heap := i # xq_heap q'\<rparr>)" using acc by (simp add: xq_accounts_def)
  then show "xq_constructed q'" by (simp add: xq_constructed_def)
qed

text \<open>C10: no value is lost.  On a queue made by its constructor, \<open>pop\<close> either returns the value
  of an item that has not expired, or raises \<open>Empty\<close> with the queue emptied; every other item
  that left the queue had expired, and the \<open>on_expire\<close> callback received exactly the values of
  those, once each.  This holds for any expirations and any clock that does not go back.\<close>

theorem xq_pop_accounts:
  assumes "xq_constructed q" and "clk 0 \<le> clk 1"
  shows "\<exists>r calls q' dead. xq_pop clk q = (r, calls, q') \<and>
    (case r of
       Inl e \<Rightarrow> e = Empty \<and> xq_heap q' = [] \<and> xq_accounts (clk 1) q dead calls q'
     | Inr v \<Rightarrow> (\<exists>i. item_value i = v \<and> item_live (clk 1) i \<and>
                   xq_accounts (clk 1) q dead calls (q'\<lparr>xq_heap := i # xq_heap q'\<rparr>)))"
  using xq_pop_outcome_exists [OF assms] unfolding xq_pop_outcome_def by blast

theorem xq_pop_accounts_witness:
  "\<exists>r calls q' dead. xq_pop (\<lambda>_. 3)
      ((xq_init None True)\<lparr>xq_heap := [\<lparr>item_exp = Some 2, item_value = (1::int)\<rparr>]\<rparr>) = (r, calls, q') \<and>
    r = Inl Empty \<and> calls = [1]"
proof -
  let ?q = "(xq_init None True)\<lparr>xq_heap := [\<lparr>item_exp = Some 2, item_value = (1::int)\<rparr>]\<rparr>"
  have h: "xq_constructed ?q" "(\<lambda>_::nat. 3::time) 0 \<le> (\<lambda>_. 3) 1"
    by (simp_all add: xq_constructed_def xq_init_def)
  from xq_pop_accounts [OF h] obtain r calls q' dead where
    pop: "xq_pop (\<lambda>_. 3) ?q = (r, calls, q')" and
    res: "case r of
       Inl e \<Rightarrow> e = Empty \<and> xq_heap q' = [] \<and> xq_accounts 3 ?q dead calls q'
     | Inr v \<Rightarrow> (\<exists>i. item_value i = v \<and> item_live 3 i \<and>
                   xq_accounts 3 ?q dead calls (q'\<lparr>xq_heap := i # xq_heap q'\<rparr>))" by blast
  from res have "r = Inl Empty \<and> calls = [1]"
    by (auto simp: xq_accounts_def xq_init_def item_live_def single_is_union split: sum.splits)
  with pop show ?thesis by blast
qed

section \<open>Values come out in the order of their expirations\<close>

definition xq_ordered :: "'v xqueue \<Rightarrow> bool" where
  "xq_ordered q \<longleftrightarrow> heap_from item_lt 0 (xq_heap q) \<and> (\<forall>i \<in> set (xq_heap q). item_ms i)"

abbreviation live_mset :: "time \<Rightarrow> 'v xqueue \<Rightarrow> 'v exp_item multiset" where
  "live_mset now q \<equiv> filter_mset (item_live now) (mset (xq_heap q))"

lemma xq_pack_at_ordered:
  "xq_ordered q \<Longrightarrow> xq_pack_at now q = (r, calls, q') \<Longrightarrow> xq_ordered q'"
proof -
  assume q: "xq_ordered q" and pack: "xq_pack_at now q = (r, calls, q')"
  let ?h = "filter (item_live now) (xq_heap q)"
  have ms: "\<forall>i \<in> set ?h. item_ms i" using q by (simp add: xq_ordered_def)
  have "set (heapify item_lt ?h) = set ?h" by (metis mset_heapify set_mset_mset)
  with xqh.heapify_heap [OF ms] ms have
    "heap_from item_lt 0 (heapify item_lt ?h) \<and> (\<forall>i \<in> set (heapify item_lt ?h). item_ms i)" by blast
  with q pack show ?thesis
    by (auto simp: xq_pack_at_def xq_ordered_def Let_def split: if_splits option.splits)
qed

lemma xq_lazy_pack_ordered:
  "xq_ordered q \<Longrightarrow> xq_lazy_pack now q = (r, calls, q') \<Longrightarrow> xq_ordered q'"
  by (auto simp: xq_lazy_pack_def dest: xq_pack_at_ordered split: option.splits if_splits)

lemma xq_pop_loop_ordered:
  assumes "xq_ordered q" and "xq_pop_loop now q = (r, calls, q')"
  shows "xq_ordered q' \<and>
    (\<forall>v. r = Inr v \<longrightarrow> (\<exists>i. item_value i = v \<and> live_mset now q = add_mset i (live_mset now q') \<and>
        (\<forall>j \<in># live_mset now q'. expires_no_later i j)))"
  using assms
proof (induction "length (xq_heap q)" arbitrary: q r calls q' rule: less_induct)
  case less
  note unfolded = less.prems(2) [unfolded xq_pop_loop.simps [of now q]]
  show ?case
  proof (cases "heappop item_lt (xq_heap q)")
    case (Inl e)
    with unfolded less.prems(1) show ?thesis by auto
  next
    case (Inr ih)
    obtain i h where ih: "ih = (i, h)" by (cases ih)
    note pop = Inr [unfolded ih] and props = heappop_props [OF Inr [unfolded ih]]
    let ?q = "q\<lparr>xq_heap := h\<rparr>"
    have q: "heap_from item_lt 0 (xq_heap q)" "\<forall>j \<in> set (xq_heap q). item_ms j"
      using less.prems(1) by (auto simp: xq_ordered_def)
    have "set (xq_heap q) = insert i (set h)"
      using props by (metis set_mset_mset set_mset_add_mset_insert)
    then have ord: "xq_ordered ?q" and least: "\<forall>j \<in> set h. expires_no_later i j"
      using q xqh.heappop_heap [OF q pop] xqh.heappop_least [OF q pop]
      by (auto simp: xq_ordered_def item_lt_ms [symmetric])
    show ?thesis
    proof (cases "item_live now i")
      case True
      with unfolded pop have "r = Inr (item_value i)" "q' = ?q" by auto
      with True props ord least show ?thesis by auto
    next
      case False
      then have live: "live_mset now q = live_mset now ?q" using props by simp
      show ?thesis
      proof (cases "xq_on_expire q")
        case None
        with unfolded pop False ord show ?thesis by auto
      next
        case (Some b)
        obtain r1 c1 q1 where loop: "xq_pop_loop now ?q = (r1, c1, q1)" by (cases "xq_pop_loop now ?q")
        with unfolded pop False Some have "r = r1" "q' = q1" by auto
        with less.hyps [OF _ ord loop] props live show ?thesis by auto
      qed
    qed
  qed
qed

lemma xq_lazy_pack_live:
  assumes "xq_constructed q" and "xq_lazy_pack now q = (r, calls, q')" and "now \<le> now'"
  shows "r = Inr ()" "live_mset now' q' = live_mset now' q" "xq_constructed q'"
proof -
  obtain calls1 q1 dead where "xq_lazy_pack now q = (Inr (), calls1, q1)"
    and acc: "xq_accounts now q dead calls1 q1"
    by (rule xq_lazy_pack_accounts [OF assms(1)])
  with assms(2) have eq: "r = Inr ()" "calls1 = calls" "q1 = q'" by auto
  show "r = Inr ()" by (rule eq)
  from acc eq show "xq_constructed q'" by (simp add: xq_accounts_def)
  have "\<forall>i \<in># dead. \<not> item_live now' i"
    using acc item_live_mono [OF _ assms(3)] by (auto simp: xq_accounts_def)
  then have "filter_mset (item_live now') dead = {#}" by simp
  then show "live_mset now' q' = live_mset now' q" using acc eq by (simp add: xq_accounts_def)
qed

text \<open>A consumer that pops until the queue raises \<open>Empty\<close>, all at one moment.\<close>

function xq_drain :: "time \<Rightarrow> 'v xqueue \<Rightarrow> 'v list" where
  "xq_drain now q =
     (if xq_constructed q
      then (case xq_pop (\<lambda>_. now) q of (r, calls, q') \<Rightarrow>
              (case r of Inl _ \<Rightarrow> [] | Inr v \<Rightarrow> v # xq_drain now q'))
      else [])"
  by pat_completeness auto
termination
  by (relation "measure (\<lambda>(now, q). length (xq_heap q))") (auto dest!: xq_pop_shrinks(1) [OF _ sym])

declare xq_drain.simps [simp del]

lemma xq_pop_ordered:
  assumes "xq_constructed q" and "xq_ordered q" and "xq_pop (\<lambda>_. now) q = (r, calls, q')"
  shows "xq_ordered q' \<and>
    (case r of
       Inl e \<Rightarrow> live_mset now q = {#}
     | Inr v \<Rightarrow> (\<exists>i. item_value i = v \<and> live_mset now q = add_mset i (live_mset now q') \<and>
                   (\<forall>j \<in># live_mset now q'. expires_no_later i j)))"
proof -
  obtain r0 calls0 q0 where lazy: "xq_lazy_pack now q = (r0, calls0, q0)"
    by (cases "xq_lazy_pack now q")
  note lz = xq_lazy_pack_live [OF assms(1) lazy order_refl] xq_lazy_pack_ordered [OF assms(2) lazy]
  obtain calls1 where loop: "xq_pop_loop now q0 = (r, calls1, q')"
    using assms(3) lazy lz(1) by (auto simp: xq_pop_def split: prod.splits)
  have "live_mset now q0 = {#}" if "r = Inl e" for e
  proof -
    from xq_pop_loop_outcome [OF lz(3), of now] loop that obtain dead where
      "xq_heap q' = []" "xq_accounts now q0 dead calls1 q'"
      by (auto simp: xq_pop_outcome_def)
    then show ?thesis by (auto simp: xq_accounts_def filter_mset_eq_conv)
  qed
  with xq_pop_loop_ordered [OF lz(4) loop] lz(2) show ?thesis by (auto split: sum.splits)
qed

lemma xq_drain_sorted:
  assumes "xq_constructed q" and "xq_ordered q"
  shows "\<exists>items. xq_drain now q = map item_value items \<and> mset items = live_mset now q \<and>
    sorted_wrt expires_no_later items"
  using assms
proof (induction now q rule: xq_drain.induct)
  case (1 now q)
  obtain r calls q' where pop: "xq_pop (\<lambda>_. now) q = (r, calls, q')" by (cases "xq_pop (\<lambda>_. now) q")
  note ord = xq_pop_ordered [OF "1.prems" pop]
  show ?case
  proof (cases r)
    case (Inl e)
    with pop ord show ?thesis by (subst xq_drain.simps) simp
  next
    case (Inr v)
    with ord obtain i where i: "item_value i = v" "live_mset now q = add_mset i (live_mset now q')"
      "\<forall>j \<in># live_mset now q'. expires_no_later i j" and "xq_ordered q'" by auto
    with "1.IH" [OF "1.prems"(1) pop [symmetric] refl Inr] xq_pop_shrinks(2) [OF "1.prems"(1)] pop Inr
    obtain items where items: "xq_drain now q' = map item_value items" "mset items = live_mset now q'"
      "sorted_wrt expires_no_later items" by auto
    have "xq_drain now q = map item_value (i # items)"
      using pop Inr items(1) i(1) "1.prems"(1) by (subst xq_drain.simps) simp
    moreover have "sorted_wrt expires_no_later (i # items)"
      using items(2,3) i(3) by (simp flip: set_mset_mset)
    moreover have "mset (i # items) = live_mset now q" using items(2) i(2) by simp
    ultimately show ?thesis by blast
  qed
qed

lemma xq_add_live:
  assumes "xq_constructed q" and "xq_ordered q" and ms: "item_ms \<lparr>item_exp = e, item_value = v\<rparr>"
    and "t \<le> now" and add: "xq_add (\<lambda>_. t) v e False q = (r, calls, q')"
  shows "r = Inr ()" "xq_constructed q'" "xq_ordered q'"
    "live_mset now q' = live_mset now q + filter_mset (item_live now) {#\<lparr>item_exp = e, item_value = v\<rparr>#}"
proof -
  let ?i = "\<lparr>item_exp = e, item_value = v\<rparr>"
  obtain r0 calls0 q0 where lazy: "xq_lazy_pack t q = (r0, calls0, q0)"
    by (cases "xq_lazy_pack t q")
  note lz = xq_lazy_pack_live [OF assms(1) lazy \<open>t \<le> now\<close>] xq_lazy_pack_ordered [OF assms(2) lazy]
  let ?h = "heappush item_lt (xq_heap q0) ?i"
  have "q' = q0 \<and> \<not> item_live now ?i \<or> q' = q0\<lparr>xq_heap := ?h\<rparr>" and r: "r = Inr ()"
    using add lazy lz(1) \<open>t \<le> now\<close>
    by (auto simp: xq_add_def Let_def item_live_def split: option.splits if_splits)
  then consider "q' = q0" "\<not> item_live now ?i" | "q' = q0\<lparr>xq_heap := ?h\<rparr>" by blast
  then have "xq_constructed q' \<and> xq_ordered q' \<and>
      live_mset now q' = live_mset now q + filter_mset (item_live now) {#?i#}"
  proof cases
    case 1
    with lz show ?thesis by simp
  next
    case 2
    have q0: "heap_from item_lt 0 (xq_heap q0)" "\<forall>i \<in> set (xq_heap q0). item_ms i"
      using lz(4) by (auto simp: xq_ordered_def)
    have "set ?h = insert ?i (set (xq_heap q0))"
      by (metis mset_heappush set_mset_add_mset_insert set_mset_mset)
    then have "xq_ordered q'" using 2 q0 ms xqh.heappush_heap [OF q0 ms] by (simp add: xq_ordered_def)
    with 2 lz show ?thesis by (simp add: xq_constructed_def mset_heappush)
  qed
  with r show "r = Inr ()" "xq_constructed q'" "xq_ordered q'"
    "live_mset now q' = live_mset now q + filter_mset (item_live now) {#?i#}" by blast+
qed

definition xq_add_all :: "time \<Rightarrow> ('v \<times> time option) list \<Rightarrow> 'v xqueue \<Rightarrow> 'v xqueue" where
  "xq_add_all t xs q = fold (\<lambda>(v, e) q. snd (snd (xq_add (\<lambda>_. t) v e False q))) xs q"

abbreviation new_items :: "('v \<times> time option) list \<Rightarrow> 'v exp_item list" where
  "new_items xs \<equiv> map (\<lambda>(v, e). \<lparr>item_exp = e, item_value = v\<rparr>) xs"

lemma xq_add_all_live:
  assumes "xq_constructed q" and "xq_ordered q" and "list_all item_ms (new_items xs)" and "t \<le> now"
  shows "xq_constructed (xq_add_all t xs q) \<and> xq_ordered (xq_add_all t xs q) \<and>
    live_mset now (xq_add_all t xs q) =
      live_mset now q + filter_mset (item_live now) (mset (new_items xs))"
  using assms
proof (induction xs arbitrary: q)
  case Nil
  then show ?case by (simp add: xq_add_all_def)
next
  case (Cons ve xs)
  obtain v e where ve: "ve = (v, e)" by (cases ve)
  obtain r calls q1 where add: "xq_add (\<lambda>_. t) v e False q = (r, calls, q1)"
    by (cases "xq_add (\<lambda>_. t) v e False q")
  have "item_ms \<lparr>item_exp = e, item_value = v\<rparr>" using Cons.prems(3) ve by simp
  note one = xq_add_live [OF Cons.prems(1,2) this Cons.prems(4) add]
  from Cons.IH [OF one(2,3)] Cons.prems(3,4) one(4) ve add show ?case
    by (simp add: xq_add_all_def)
qed

text \<open>C11: a queue filled with values whose expirations are whole milliseconds (or missing) and
  later popped until \<open>Empty\<close> yields precisely the values that have not expired by then, in the
  order of their expirations, those without expiration last.\<close>

theorem xq_drain_order:
  assumes "list_all item_ms (new_items xs)" and "t \<le> now"
  shows "\<exists>items. xq_drain now (xq_add_all t xs (xq_init max_size cb)) = map item_value items \<and>
    mset items = filter_mset (item_live now) (mset (new_items xs)) \<and>
    sorted_wrt expires_no_later items"
proof -
  have init: "xq_constructed (xq_init max_size cb)" "xq_ordered (xq_init max_size cb)"
    "xq_heap (xq_init max_size cb) = []"
    by (simp_all add: xq_constructed_def xq_ordered_def heap_from_def xq_init_def)
  note filled = xq_add_all_live [OF init(1,2) assms]
  then have live: "live_mset now (xq_add_all t xs (xq_init max_size cb)) =
      filter_mset (item_live now) (mset (new_items xs))" by (simp add: init(3))
  show ?thesis unfolding live [symmetric] using filled by (intro xq_drain_sorted) simp_all
qed

theorem xq_drain_order_witness:
  "\<exists>items. xq_drain 2 (xq_add_all 0 [(''b'', Some 5), (''x'', Some 1), (''c'', None), (''a'', Some 3)]
       (xq_init None False)) = map item_value items \<and>
    mset items = {#\<lparr>item_exp = Some 5, item_value = ''b''\<rparr>, \<lparr>item_exp = None, item_value = ''c''\<rparr>,
                  \<lparr>item_exp = Some 3, item_value = ''a''\<rparr>#} \<and>
    sorted_wrt expires_no_later items"
proof -
  let ?xs = "[(''b'', Some 5), (''x'', Some 1), (''c'', None), (''a'', Some 3)] :: (string \<times> time option) list"
  have "list_all item_ms (new_items ?xs)" "(0::time) \<le> 2" by (simp_all add: item_ms_def)
  from xq_drain_order [OF this, of None False] show ?thesis by (simp add: item_live_def)
qed

text \<open>a queue restored by \<open>prepare\<close> and \<open>recover\<close> is unusable: \<open>recover\<close> does not restore the
  average size that lazy packing reads, so every \<open>add\<close>, \<open>pop\<close> and iteration raises
  \<open>AttributeError\<close> and leaves the queue unchanged, and so does a call of \<open>pack\<close> except that it
  may replace the heap first.\<close>

theorem xq_recovered_unusable:
  "xq_add clk v e rel (xq_recover data xq_prepare) = (Inl AttributeError, [], xq_recover data xq_prepare) \<and>
   xq_pop clk (xq_recover data xq_prepare) = (Inl AttributeError, [], xq_recover data xq_prepare) \<and>
   xq_iter clk (xq_recover data xq_prepare) = (Inl AttributeError, [], xq_recover data xq_prepare) \<and>
   fst (xq_pack clk (xq_recover data xq_prepare)) = Inl AttributeError"
  by (simp add: xq_add_def xq_pop_def xq_iter_def xq_pack_def xq_pack_at_def xq_lazy_pack_def
      xq_recover_def xq_prepare_def Let_def)

end
