(* ===== verification/MroData.thy ===== *)
theory MroData
  imports Prelude
begin

text \<open>
  The class-level containers of \<open>src/src/feat/common/container.py\<close>: the descriptors
  \<open>MroDict\<close>, \<open>MroList\<close> and \<open>MroDictOfList\<close> with their proxies, and \<open>AsyncDict\<close>.

  A descriptor keeps one private structure, its black box, in the \<open>__dict__\<close> of each class;
  \<open>blackboxes\<close> maps a class to it.  A class is given by its method resolution order, the
  class itself first.  Reading the descriptor folds the black boxes from the root of the
  hierarchy down to the class (\<open>mro_values\<close>) and gives a proxy: the consolidated values
  together with a reference to the black box of the class, here the class \<open>owner\<close>.  A write
  through a proxy changes both, so it is a function of the black boxes and the proxy.

  The locale \<open>mro_write\<close> states the law that makes a proxy and a fresh read agree; it is
  interpreted for every kind of write the three proxies offer.
\<close>

section \<open>The descriptor\<close>

type_synonym ('c, 'b) blackboxes = "'c \<Rightarrow> 'b option"

record ('c, 'vals) proxy =
  owner :: 'c
  vals :: 'vals

definition has_blackbox :: "('c, 'b) blackboxes \<Rightarrow> 'c \<Rightarrow> bool" where
  "has_blackbox bbs c \<longleftrightarrow> bbs c \<noteq> None"

definition ensure_blackbox :: "'b \<Rightarrow> ('c, 'b) blackboxes \<Rightarrow> 'c \<Rightarrow> ('c, 'b) blackboxes" where
  "ensure_blackbox new bbs c = (case bbs c of None \<Rightarrow> bbs(c \<mapsto> new) | Some _ \<Rightarrow> bbs)"

definition mro_values ::
  "('vals \<Rightarrow> 'b \<Rightarrow> 'vals) \<Rightarrow> 'vals \<Rightarrow> ('c, 'b) blackboxes \<Rightarrow> 'c list \<Rightarrow> 'vals" where
  "mro_values consolidate init bbs mro =
     fold (\<lambda>c values. case bbs c of None \<Rightarrow> values | Some bb \<Rightarrow> consolidate values bb)
       (rev mro) init"

definition mro_get ::
  "('vals \<Rightarrow> 'b \<Rightarrow> 'vals) \<Rightarrow> 'vals \<Rightarrow> 'b \<Rightarrow> ('c, 'b) blackboxes \<Rightarrow> 'c list \<Rightarrow>
   ('c, 'b) blackboxes \<times> ('c, 'vals) proxy" where
  "mro_get consolidate init new bbs mro =
     (ensure_blackbox new bbs (hd mro),
      \<lparr>owner = hd mro, vals = mro_values consolidate init bbs mro\<rparr>)"

text \<open>A write through a proxy: the black box of its owner and its own values change.\<close>

definition mro_update ::
  "('x \<Rightarrow> 'b \<Rightarrow> 'b) \<Rightarrow> ('x \<Rightarrow> 'vals \<Rightarrow> 'vals) \<Rightarrow> 'x \<Rightarrow>
   ('c, 'b) blackboxes \<times> ('c, 'vals) proxy \<Rightarrow> ('c, 'b) blackboxes \<times> ('c, 'vals) proxy" where
  "mro_update wr_bb wr_vals x = (\<lambda>(bbs, p).
     (bbs(owner p := map_option (wr_bb x) (bbs (owner p))), p\<lparr>vals := wr_vals x (vals p)\<rparr>))"

section \<open>MroDict\<close>

type_synonym ('k, 'v) mro_dict = "'k \<Rightarrow> 'v option"

definition mrodict_consolidate :: "('k, 'v) mro_dict \<Rightarrow> ('k, 'v) mro_dict \<Rightarrow> ('k, 'v) mro_dict" where
  "mrodict_consolidate values private = values ++ private"

definition mrodict_get where
  "mrodict_get = mro_get mrodict_consolidate (\<lambda>_. None) (\<lambda>_. None)"

definition mrodict_set :: "'k \<times> 'v \<Rightarrow> ('k, 'v) mro_dict \<Rightarrow> ('k, 'v) mro_dict" where
  "mrodict_set kv d = d(fst kv \<mapsto> snd kv)"

definition mrodict_setitem where
  "mrodict_setitem = mro_update mrodict_set mrodict_set"

definition mrodict_getitem :: "('c, ('k, 'v) mro_dict) proxy \<Rightarrow> 'k \<Rightarrow> exn + 'v" where
  "mrodict_getitem p k = (case vals p k of None \<Rightarrow> Inl KeyError | Some v \<Rightarrow> Inr v)"

section \<open>MroList\<close>

definition mrolist_consolidate :: "'v list \<Rightarrow> 'v list \<Rightarrow> 'v list" where
  "mrolist_consolidate values private = values @ private"

definition mrolist_get where
  "mrolist_get = mro_get mrolist_consolidate [] []"

definition mrolist_append where
  "mrolist_append = mro_update (\<lambda>v l. l @ [v]) (\<lambda>v l. l @ [v])"

definition mrolist_extend where
  "mrolist_extend = mro_update (\<lambda>vs l. l @ vs) (\<lambda>vs l. l @ vs)"

section \<open>MroDictOfList\<close>

type_synonym ('k, 'v) mro_dictlist = "'k \<Rightarrow> 'v list option"

text \<open>\<open>d.setdefault(name, []).extend(values)\<close>\<close>

definition extend_at :: "'k \<times> 'v list \<Rightarrow> ('k, 'v) mro_dictlist \<Rightarrow> ('k, 'v) mro_dictlist" where
  "extend_at = (\<lambda>(k, vs) d. d(k \<mapsto> (case d k of None \<Rightarrow> [] | Some l \<Rightarrow> l) @ vs))"

definition mrodl_consolidate :: "('k, 'v) mro_dictlist \<Rightarrow> ('k, 'v) mro_dictlist \<Rightarrow> ('k, 'v) mro_dictlist" where
  "mrodl_consolidate values private = (\<lambda>k. case private k of
     None \<Rightarrow> values k | Some l \<Rightarrow> Some ((case values k of None \<Rightarrow> [] | Some l0 \<Rightarrow> l0) @ l))"

definition mrodl_get where
  "mrodl_get = mro_get mrodl_consolidate (\<lambda>_. None) (\<lambda>_. None)"

definition mrodl_put where
  "mrodl_put = mro_update (\<lambda>(k, v). extend_at (k, [v])) (\<lambda>(k, v). extend_at (k, [v]))"

definition mrodl_aggregate where
  "mrodl_aggregate = mro_update extend_at extend_at"

definition mrodl_getitem :: "('c, ('k, 'v) mro_dictlist) proxy \<Rightarrow> 'k \<Rightarrow> exn + 'v list" where
  "mrodl_getitem p k = (case vals p k of None \<Rightarrow> Inl KeyError | Some v \<Rightarrow> Inr v)"

definition mrodl_lookup :: "('c, ('k, 'v) mro_dictlist) proxy \<Rightarrow> 'k \<Rightarrow> 'v list option \<Rightarrow> 'v list option" where
  "mrodl_lookup p k dflt = (case vals p k of None \<Rightarrow> dflt | Some v \<Rightarrow> Some v)"

section \<open>A proxy and a fresh read agree\<close>

lemma mro_values_Cons:
  "mro_values f i bbs (c # mro) =
     (case bbs c of None \<Rightarrow> mro_values f i bbs mro | Some bb \<Rightarrow> f (mro_values f i bbs mro) bb)"
  by (cases "bbs c") (simp_all add: mro_values_def)

lemma mro_values_cong:
  "(\<And>c. c \<in> set mro \<Longrightarrow> bbs c = bbs' c) \<Longrightarrow> mro_values f i bbs mro = mro_values f i bbs' mro"
  by (induction mro) (simp_all add: mro_values_Cons mro_values_def [of f i _ "[]"] split: option.splits)

locale mro_write =
  fixes consolidate :: "'vals \<Rightarrow> 'b \<Rightarrow> 'vals" and init :: 'vals and new :: 'b
    and wr_bb :: "'x \<Rightarrow> 'b \<Rightarrow> 'b" and wr_vals :: "'x \<Rightarrow> 'vals \<Rightarrow> 'vals"
  assumes consolidate_new: "consolidate v new = v"
    and consolidate_write: "consolidate v (wr_bb x b) = wr_vals x (consolidate v b)"
begin

lemma write_then_read:
  assumes "distinct (c # mro)"
    and "mro_update wr_bb wr_vals x (mro_get consolidate init new bbs (c # mro)) = (bbs', p)"
  shows "vals (snd (mro_get consolidate init new bbs' (c # mro))) = vals p"
    and "vals p = wr_vals x (mro_values consolidate init bbs (c # mro))"
    and "c \<notin> set other \<Longrightarrow> mro_values consolidate init bbs' other = mro_values consolidate init bbs other"
proof -
  have bbs': "bbs' = bbs(c \<mapsto> wr_bb x (case bbs c of None \<Rightarrow> new | Some b \<Rightarrow> b))"
    and p: "vals p = wr_vals x (mro_values consolidate init bbs (c # mro))"
    using assms(2) by (auto simp: mro_update_def mro_get_def ensure_blackbox_def split: option.splits)
  show "vals p = wr_vals x (mro_values consolidate init bbs (c # mro))" by (rule p)
  have rest: "mro_values consolidate init bbs' mro = mro_values consolidate init bbs mro"
    using assms(1) by (intro mro_values_cong) (auto simp: bbs')
  show "vals (snd (mro_get consolidate init new bbs' (c # mro))) = vals p"
  proof -
    have "bbs' c = Some (wr_bb x (case bbs c of None \<Rightarrow> new | Some b \<Rightarrow> b))" by (simp add: bbs')
    then show ?thesis
      by (simp add: p mro_get_def mro_values_Cons rest consolidate_new consolidate_write
          split: option.splits)
  qed
  show "c \<notin> set other \<Longrightarrow> mro_values consolidate init bbs' other = mro_values consolidate init bbs other"
    by (intro mro_values_cong) (auto simp: bbs')
qed

end

interpretation mrodict: mro_write mrodict_consolidate "\<lambda>_. None" "\<lambda>_. None" mrodict_set mrodict_set
  by unfold_locales (auto simp: mrodict_consolidate_def mrodict_set_def map_add_def fun_eq_iff)

interpretation mrolist_app: mro_write mrolist_consolidate "[]" "[]" "\<lambda>v l. l @ [v]" "\<lambda>v l. l @ [v]"
  by unfold_locales (simp_all add: mrolist_consolidate_def)

interpretation mrolist_ext: mro_write mrolist_consolidate "[]" "[]" "\<lambda>vs l. l @ vs" "\<lambda>vs l. l @ vs"
  by unfold_locales (simp_all add: mrolist_consolidate_def)

lemma mrodl_consolidate_extend:
  "mrodl_consolidate v (extend_at kvs b) = extend_at kvs (mrodl_consolidate v b)"
  by (cases kvs) (auto simp: mrodl_consolidate_def extend_at_def fun_eq_iff split: option.splits)

interpretation mrodl_agg: mro_write mrodl_consolidate "\<lambda>_. None" "\<lambda>_. None" extend_at extend_at
  by unfold_locales (simp_all add: mrodl_consolidate_extend, simp add: mrodl_consolidate_def)

interpretation mrodl_one: mro_write mrodl_consolidate "\<lambda>_. None" "\<lambda>_. None"
    "\<lambda>(k, v). extend_at (k, [v])" "\<lambda>(k, v). extend_at (k, [v])"
  by unfold_locales (auto simp: mrodl_consolidate_extend, simp add: mrodl_consolidate_def)

text \<open>C12: a write through the proxy of a class is seen, exactly once, by a later read from that
  class (the proxy's own values equal those of a fresh read), and no class that does not have
  the written class among its ancestors sees it.  Stated for \<open>MroDictOfList.put\<close>, which the
  framework registers its class annotations with.\<close>

theorem mrodl_put_read:
  assumes "distinct (c # mro)" and "mrodl_put (k, v) (mrodl_get bbs (c # mro)) = (bbs', p)"
  shows "vals (snd (mrodl_get bbs' (c # mro))) = vals p \<and>
    mrodl_getitem p k = Inr ((case vals (snd (mrodl_get bbs (c # mro))) k of None \<Rightarrow> [] | Some l \<Rightarrow> l) @ [v]) \<and>
    (\<forall>other. c \<notin> set other \<longrightarrow> vals (snd (mrodl_get bbs' other)) = vals (snd (mrodl_get bbs other)))"
proof -
  note w = mrodl_one.write_then_read [OF assms(1) assms(2) [unfolded mrodl_put_def mrodl_get_def]]
  show ?thesis
    using w(1) w(3) unfolding mrodl_get_def mrodl_getitem_def w(2)
    by (simp add: extend_at_def mro_get_def)
qed

theorem mrodl_put_read_witness:
  "distinct [1::nat, 2] \<and>
   (\<exists>bbs' p. mrodl_put (''a'', 7::int) (mrodl_get [2 \<mapsto> [''a'' \<mapsto> [5]]] [1::nat, 2]) = (bbs', p) \<and>
     mrodl_getitem p ''a'' = Inr [5, 7])"
proof -
  have d: "distinct [1::nat, 2]" by simp
  obtain bbs' p where put:
    "mrodl_put (''a'', 7::int) (mrodl_get [2 \<mapsto> [''a'' \<mapsto> [5]]] [1::nat, 2]) = (bbs', p)"
    by (cases "mrodl_put (''a'', 7::int) (mrodl_get [2 \<mapsto> [''a'' \<mapsto> [5]]] [1::nat, 2])")
  from mrodl_put_read [OF d put] d put show ?thesis
    by (simp add: mrodl_get_def mro_get_def mro_values_def mrodl_consolidate_def)
qed

section \<open>AsyncDict\<close>

text \<open>
  A \<open>Deferred\<close> is represented by its outcome: \<open>Inr v\<close> when it fires with \<open>v\<close>, \<open>Inl e\<close> when
  it fails.  \<open>wait\<close> collects all outcomes (a \<open>DeferredList\<close> that consumes the errors) and
  \<open>_process_values\<close> builds the dictionary.
\<close>

record ('k, 'v) async_dict =
  ad_values :: "(exn + 'v) list"
  ad_info :: "('k \<times> ('v \<Rightarrow> bool) option) list"

definition ad_init :: "('k, 'v) async_dict" where
  "ad_init = \<lparr>ad_values = [], ad_info = []\<rparr>"

definition ad_add :: "'k \<Rightarrow> exn + 'v \<Rightarrow> ('v \<Rightarrow> bool) option \<Rightarrow> ('k, 'v) async_dict \<Rightarrow> ('k, 'v) async_dict" where
  "ad_add k v condition a =
     a\<lparr>ad_info := ad_info a @ [(k, condition)], ad_values := ad_values a @ [v]\<rparr>"

definition ad_add_if_true :: "('v \<Rightarrow> bool) \<Rightarrow> 'k \<Rightarrow> exn + 'v \<Rightarrow> ('k, 'v) async_dict \<Rightarrow> ('k, 'v) async_dict" where
  "ad_add_if_true truthy k v = ad_add k v (Some truthy)"

definition ad_add_if_not_none :: "('v \<Rightarrow> bool) \<Rightarrow> 'k \<Rightarrow> exn + 'v \<Rightarrow> ('k, 'v) async_dict \<Rightarrow> ('k, 'v) async_dict" where
  "ad_add_if_not_none is_none k v = ad_add k v (Some (\<lambda>v. \<not> is_none v))"

definition ad_add_result :: "('v \<Rightarrow> exn + 'v) \<Rightarrow> 'k \<Rightarrow> exn + 'v \<Rightarrow> ('k, 'v) async_dict \<Rightarrow> ('k, 'v) async_dict" where
  "ad_add_result call k v = ad_add k (case v of Inl e \<Rightarrow> Inl e | Inr x \<Rightarrow> call x) None"

definition ad_wait :: "('k, 'v) async_dict \<Rightarrow> ('k, 'v) dict" where
  "ad_wait a =
     fold (\<lambda>(r, (k, c)) d. case r of
         Inl _ \<Rightarrow> d
       | Inr v \<Rightarrow> (case c of
           None \<Rightarrow> AList.update k v d
         | Some f \<Rightarrow> if f v then AList.update k v d else d))
       (zip (ad_values a) (ad_info a)) []"

lemma ad_wait_add:
  assumes "length (ad_values a) = length (ad_info a)"
  shows "ad_wait (ad_add k r c a) =
     (case r of Inl _ \<Rightarrow> ad_wait a
      | Inr v \<Rightarrow> if (case c of None \<Rightarrow> True | Some f \<Rightarrow> f v) then AList.update k v (ad_wait a) else ad_wait a)"
  using assms by (simp add: ad_wait_def ad_add_def split: sum.splits option.splits)

end
