(* ===== verification/Strings.thy ===== *)
theory Strings
  imports Prelude
begin

text \<open>
  The Python string operations the modelled code uses, on byte strings: reading and printing
  decimal integers and splitting at a character.  Printing and reading a number are inverse to
  each other, and so are joining and splitting.
\<close>

section \<open>Integers\<close>

abbreviation is_space :: "char \<Rightarrow> bool" where
  "is_space c \<equiv> c \<in> {CHR '' '', CHR 0x09, CHR 0x0A, CHR 0x0B, CHR 0x0C, CHR 0x0D}"

definition digit_val :: "char \<Rightarrow> int option" where
  "digit_val c = (let n = of_char c in if 48 \<le> n \<and> n \<le> 57 then Some (n - 48) else None)"

fun read_digits :: "int \<Rightarrow> string \<Rightarrow> int option" where
  "read_digits acc [] = Some acc"
| "read_digits acc (c # cs) =
     (case digit_val c of None \<Rightarrow> None | Some d \<Rightarrow> read_digits (10 * acc + d) cs)"

definition read_number :: "string \<Rightarrow> int option" where
  "read_number s = (if s = [] then None else read_digits 0 s)"

text \<open>\<open>int(s)\<close>: a string is stripped and read as an optionally signed decimal number;
  \<open>None\<close> stands for the \<open>ValueError\<close>.\<close>

definition int_of_string :: "string \<Rightarrow> int option" where
  "int_of_string s =
     (case dropWhile is_space (rev (dropWhile is_space (rev s))) of
        [] \<Rightarrow> None
      | c # cs \<Rightarrow> if c = CHR ''-'' then map_option uminus (read_number cs)
                else if c = CHR ''+'' then read_number cs
                else read_number (c # cs))"

definition digit_char :: "nat \<Rightarrow> char" where
  "digit_char n = char_of (48 + n)"

fun show_nat :: "nat \<Rightarrow> string" where
  "show_nat n = (if n < 10 then [digit_char n] else show_nat (n div 10) @ [digit_char (n mod 10)])"

declare show_nat.simps [simp del]

text \<open>\<open>"%d" % n\<close>\<close>

definition show_int :: "int \<Rightarrow> string" where
  "show_int n = (if n < 0 then CHR ''-'' # show_nat (nat (- n)) else show_nat (nat n))"

lemma digit_chars: "n < 10 \<Longrightarrow>
    digit_val (digit_char n) = Some (int n) \<and> \<not> is_space (digit_char n) \<and> digit_char n \<noteq> CHR ''-'' \<and> digit_char n \<noteq> CHR ''+''"
proof -
  have "\<forall>n \<in> set [0..<10]. digit_val (digit_char n) = Some (int n) \<and> \<not> is_space (digit_char n) \<and>
      digit_char n \<noteq> CHR ''-'' \<and> digit_char n \<noteq> CHR ''+''" by code_simp
  then show "n < 10 \<Longrightarrow> ?thesis" by auto
qed

lemma read_digits_append: "read_digits acc (xs @ ys) = (case read_digits acc xs of None \<Rightarrow> None | Some a \<Rightarrow> read_digits a ys)"
  by (induction xs arbitrary: acc) (auto split: option.split)

lemma show_nat_digits:
  "show_nat n \<noteq> [] \<and> read_digits 0 (show_nat n) = Some (int n) \<and> (\<forall>c \<in> set (show_nat n). \<exists>d < 10. c = digit_char d)"
proof (induction n rule: show_nat.induct)
  case (1 n)
  show ?case
  proof (cases "n < 10")
    case True
    then show ?thesis using digit_chars [OF True] by (auto simp: show_nat.simps [of n])
  next
    case False
    have "read_digits 0 (show_nat n) = Some (10 * int (n div 10) + int (n mod 10))"
      using False 1 digit_chars [of "n mod 10"] by (simp add: show_nat.simps [of n] read_digits_append)
    also have "10 * int (n div 10) + int (n mod 10) = int n" by presburger
    finally have r: "read_digits 0 (show_nat n) = Some (int n)" .
    have "\<exists>d < 10. digit_char (n mod 10) = digit_char d" by (rule exI [of _ "n mod 10"]) simp
    then show ?thesis using r False 1 by (auto simp: show_nat.simps [of n])
  qed
qed

lemma strip_plain: "xs \<noteq> [] \<Longrightarrow> \<forall>c \<in> set xs. \<not> is_space c \<Longrightarrow> dropWhile is_space (rev (dropWhile is_space (rev xs))) = xs"
proof -
  assume ne: "xs \<noteq> []" and s: "\<forall>c \<in> set xs. \<not> is_space c"
  have "dropWhile is_space ys = ys" if "set ys \<subseteq> set xs" for ys
    using that s by (cases ys) auto
  then show ?thesis by simp
qed

lemma int_of_show_int: "int_of_string (show_int n) = Some n"
proof -
  have dig: "\<not> is_space c \<and> c \<noteq> CHR ''-'' \<and> c \<noteq> CHR ''+''" if mem: "c \<in> set (show_nat m)" for m c
  proof -
    obtain d where "d < 10" "c = digit_char d"
      using bspec [OF show_nat_digits [THEN conjunct2, THEN conjunct2] mem] by (elim exE conjE)
    with digit_chars [OF this(1)] show ?thesis by simp
  qed
  have st: "dropWhile is_space (rev (dropWhile is_space (rev (show_int n)))) = show_int n"
  proof (rule strip_plain)
    show "show_int n \<noteq> []" using show_nat_digits by (simp add: show_int_def)
    show "\<forall>c \<in> set (show_int n). \<not> is_space c"
    proof
      fix c assume "c \<in> set (show_int n)"
      then consider "c = CHR ''-''" | m where "c \<in> set (show_nat m)"
        by (cases "n < 0") (auto simp: show_int_def)
      then show "\<not> is_space c"
      proof cases
        case 1
        then show ?thesis by simp
      next
        case 2
        then show ?thesis using dig by blast
      qed
    qed
  qed
  show ?thesis
  proof (cases "n < 0")
    case True
    then have "show_int n = CHR ''-'' # show_nat (nat (- n))" by (simp add: show_int_def)
    moreover have "read_number (show_nat (nat (- n))) = Some (- n)"
      using show_nat_digits [of "nat (- n)"] True by (simp add: read_number_def)
    ultimately show ?thesis using st by (simp add: int_of_string_def)
  next
    case False
    then have s: "show_int n = show_nat (nat n)" by (simp add: show_int_def)
    obtain c cs where c: "show_nat (nat n) = c # cs" using show_nat_digits [of "nat n"] by (cases "show_nat (nat n)") auto
    then have "c \<noteq> CHR ''-''" "c \<noteq> CHR ''+''" using dig [of c "nat n"] by auto
    moreover have "read_number (c # cs) = Some n"
      using show_nat_digits [of "nat n"] c False by (simp add: read_number_def)
    ultimately show ?thesis using st s c by (simp add: int_of_string_def)
  qed
qed

section \<open>Splitting and joining\<close>

fun split_on :: "char \<Rightarrow> string \<Rightarrow> string list" where
  "split_on c [] = [[]]"
| "split_on c (x # xs) =
     (if x = c then [] # split_on c xs
      else case split_on c xs of [] \<Rightarrow> [[x]] | p # ps \<Rightarrow> (x # p) # ps)"

lemma split_on_nonempty [simp]: "split_on c s \<noteq> []"
  by (induction s) (auto split: list.splits)

lemma split_on_plain: "c \<notin> set p \<Longrightarrow> split_on c p = [p]"
  by (induction p) auto

lemma split_on_append: "c \<notin> set p \<Longrightarrow> split_on c (p @ c # s) = p # split_on c s"
  by (induction p) (auto split: list.splits)

end
