(* ===== verification/Resource.thy ===== *)
theory Resource
  imports Strings
begin

text \<open>
  Resource kinds and allocated resources of \<open>src/src/feat/agents/base/resource.py\<close>: the
  definitions \<open>Range\<close> and \<open>Scalar\<close>, the allocated quantities \<open>AllocatedRange\<close> and
  \<open>AllocatedScalar\<close> (their modifications have the same data), \<open>Allocation\<close> and
  \<open>AllocationChange\<close>.

  The set of values of a range is a list without duplicates in the order in which Python
  iterates over the set.  A parameter of \<open>allocate\<close> or \<open>modify\<close> is an integer or a string.
\<close>

section \<open>Data\<close>

datatype pyarg = PInt int | PStr string

datatype resource_def =
    Range (def_name: string) (first: int) (last_value: int)
  | Scalar (def_name: string) (total: int)

datatype allocated = AScalar int | ARange "int list"

definition mk_range :: "string \<Rightarrow> int \<Rightarrow> int \<Rightarrow> exn + resource_def" where
  "mk_range name f l =
     (if f < 0 \<or> l < 0 then Inl DeclarationError
      else if f > l then Inl DeclarationError
      else Inr (Range name f l))"

definition mk_scalar :: "string \<Rightarrow> int \<Rightarrow> exn + resource_def" where
  "mk_scalar name t = (if t < 0 then Inl DeclarationError else Inr (Scalar name t))"

text \<open>\<open>int(value)\<close>\<close>

definition py_int :: "pyarg \<Rightarrow> int option" where
  "py_int a = (case a of PInt n \<Rightarrow> Some n | PStr s \<Rightarrow> int_of_string s)"

section \<open>Adding values to sets\<close>

definition set_add :: "int list \<Rightarrow> int \<Rightarrow> int list" where
  "set_add s v = (if v \<in> set s then s else s @ [v])"

definition set_of :: "int list \<Rightarrow> int list" where
  "set_of vs = fold (\<lambda>v s. set_add s v) vs []"

lemma set_set_add [simp]: "set (set_add s v) = insert v (set s)"
  by (auto simp: set_add_def)

lemma set_fold_set_add: "set (fold (\<lambda>v s. set_add s v) vs s) = set vs \<union> set s"
  by (induction vs arbitrary: s) auto

lemma set_set_of [simp]: "set (set_of vs) = set vs"
  by (simp add: set_of_def set_fold_set_add)

section \<open>Allocated resources\<close>

definition alloc_zero :: "allocated \<Rightarrow> allocated" where
  "alloc_zero a = (case a of AScalar _ \<Rightarrow> AScalar 0 | ARange _ \<Rightarrow> ARange [])"

definition init_arguments :: "allocated \<Rightarrow> pyarg list" where
  "init_arguments a =
     (case a of AScalar v \<Rightarrow> [PInt v] | ARange vs \<Rightarrow> [PInt (int (length vs))])"

fun range_add :: "int list \<Rightarrow> int list \<Rightarrow> exn + int list" where
  "range_add vs [] = Inr vs"
| "range_add vs (val # rest) =
     (if val > 0
      then (if val \<in> set vs then Inl ValueError else range_add (set_add vs val) rest)
      else (if - val \<notin> set vs then Inl ValueError else range_add (removeAll (- val) vs) rest))"

text \<open>\<open>add\<close> returns the new quantity and whether it is non-zero.\<close>

definition alloc_add :: "allocated \<Rightarrow> allocated \<Rightarrow> exn + allocated \<times> bool" where
  "alloc_add a other =
     (case (a, other) of
        (AScalar v, AScalar d) \<Rightarrow>
          (let tmp = v + d in
           if tmp < 0 then Inl ValueError else Inr (AScalar tmp, tmp \<noteq> 0))
      | (ARange vs, ARange ds) \<Rightarrow> bindE (range_add vs ds) (\<lambda>r. Inr (ARange r, r \<noteq> []))
      | _ \<Rightarrow> Inl AttributeError)"

text \<open>\<open>get_delta\<close>: an integer for a scalar; for a range a command with its count, or \<open>None\<close>.\<close>

datatype delta = DInt int | DCommand string int | DNone

definition get_delta :: "allocated \<Rightarrow> pyarg list \<Rightarrow> exn + delta" where
  "get_delta a args =
     (case (a, args) of
        (AScalar v, [PInt n]) \<Rightarrow> Inr (DInt (n - v))
      | (ARange vs, [PInt n]) \<Rightarrow>
          (let delta = int (length vs) - n in
           if delta > 0 then Inr (DCommand ''release'' delta)
           else if delta < 0 then Inr (DCommand ''add'' (- delta))
           else Inr DNone)
      | _ \<Rightarrow> Inl TypeError)"

definition delta_true :: "delta \<Rightarrow> bool" where
  "delta_true d = (case d of DInt n \<Rightarrow> n \<noteq> 0 | DCommand _ _ \<Rightarrow> True | DNone \<Rightarrow> False)"

section \<open>Definitions of resources\<close>

text \<open>Reading \<open>x.values\<close> or \<open>x.value\<close> of each allocation fails on an allocation of the other kind.\<close>

fun all_values :: "allocated list \<Rightarrow> exn + int list list" where
  "all_values [] = Inr []"
| "all_values (ARange vs # as) = bindE (all_values as) (\<lambda>vss. Inr (vs # vss))"
| "all_values (AScalar _ # as) = Inl AttributeError"

fun all_scalars :: "allocated list \<Rightarrow> exn + int list" where
  "all_scalars [] = Inr []"
| "all_scalars (AScalar v # as) = bindE (all_scalars as) (\<lambda>vs. Inr (v # vs))"
| "all_scalars (ARange _ # as) = Inl AttributeError"

definition scalar_reduce :: "allocated list \<Rightarrow> exn + int" where
  "scalar_reduce allocs = bindE (all_scalars allocs) (\<lambda>vs. Inr (sum_list (map (\<lambda>x. max x 0) vs)))"

definition value_free :: "int list list \<Rightarrow> int \<Rightarrow> bool" where
  "value_free vss v \<longleftrightarrow> (\<forall>vs \<in> set vss. v \<notin> set vs)"

text \<open>The loop of \<open>_find_free_values\<close>: the values found and the number still wanted.\<close>

fun find_free :: "int list list \<Rightarrow> int list \<Rightarrow> int \<Rightarrow> int list \<times> int" where
  "find_free vss [] number = ([], number)"
| "find_free vss (x # xs) number =
     (if number < 1 then ([], number)
      else if value_free vss x
           then (case find_free vss xs (number - 1) of (res, n) \<Rightarrow> (x # res, n))
           else find_free vss xs number)"

definition find_free_values :: "int \<Rightarrow> int \<Rightarrow> allocated list \<Rightarrow> int \<Rightarrow> exn + int list" where
  "find_free_values f l allocs number =
     (if number < 1 then Inr []
      else bindE (all_values allocs) (\<lambda>vss.
        case find_free vss [f..l] number of
          (res, n) \<Rightarrow> if n > 0 then Inl NotEnoughResource else Inr res))"

fun range_modify ::
  "int \<Rightarrow> int \<Rightarrow> allocated list \<Rightarrow> allocated option \<Rightarrow> string option \<Rightarrow> int list \<Rightarrow> pyarg list \<Rightarrow>
   exn + int list" where
  "range_modify f l allocs resource last_cmd res [] = Inr res"
| "range_modify f l allocs resource last_cmd res (PStr cmd # args) =
     range_modify f l allocs resource (Some cmd) res args"
| "range_modify f l allocs resource last_cmd res (PInt param # args) =
     (let held = (case resource of Some (ARange vs) \<Rightarrow> Inr vs | _ \<Rightarrow> Inl AttributeError) in
      case last_cmd of
        None \<Rightarrow> Inl DeclarationError
      | Some cmd \<Rightarrow>
          if cmd = ''add'' then
            bindE (find_free_values f l allocs param) (\<lambda>vs.
              range_modify f l allocs resource last_cmd (fold (\<lambda>v s. set_add s v) vs res) args)
          else if cmd = ''add_specific'' then
            bindE (all_values allocs) (\<lambda>vss.
              if \<not> value_free vss param then Inl NotEnoughResource
              else bindE held (\<lambda>vs.
                if param \<in> set vs then Inl DeclarationError
                else range_modify f l allocs resource last_cmd (set_add res param) args))
          else if cmd = ''release'' then
            bindE held (\<lambda>vs.
              if param \<notin> set vs then Inl DeclarationError
              else range_modify f l allocs resource last_cmd (set_add res (- param)) args)
          else Inl DeclarationError)"

definition scalar_room :: "int \<Rightarrow> allocated list \<Rightarrow> int \<Rightarrow> exn + allocated" where
  "scalar_room tot allocs value =
     bindE (scalar_reduce allocs) (\<lambda>used.
       if tot < used + value then Inl NotEnoughResource else Inr (AScalar value))"

definition def_allocate :: "resource_def \<Rightarrow> allocated list \<Rightarrow> pyarg list \<Rightarrow> exn + allocated" where
  "def_allocate d allocs args =
     (case (d, args) of
        (Range _ f l, [PInt number]) \<Rightarrow>
          bindE (find_free_values f l allocs number) (\<lambda>vs. Inr (ARange (set_of vs)))
      | (Scalar _ tot, [arg]) \<Rightarrow>
          (case py_int arg of
             None \<Rightarrow> Inl DeclarationError
           | Some value \<Rightarrow>
               if value \<le> 0 then Inl DeclarationError else scalar_room tot allocs value)
      | _ \<Rightarrow> Inl TypeError)"

definition def_modify ::
  "resource_def \<Rightarrow> allocated list \<Rightarrow> allocated option \<Rightarrow> pyarg list \<Rightarrow> exn + allocated" where
  "def_modify d allocs resource args =
     (case d of
        Range _ f l \<Rightarrow>
          bindE (range_modify f l allocs resource None [] args) (\<lambda>vs. Inr (ARange vs))
      | Scalar _ tot \<Rightarrow>
          (case args of
             [arg] \<Rightarrow>
               (case py_int arg of
                  None \<Rightarrow> Inl DeclarationError
                | Some value \<Rightarrow>
                    (case resource of
                       Some (ARange _) \<Rightarrow> Inl AttributeError
                     | _ \<Rightarrow>
                        (let current = (case resource of Some (AScalar v) \<Rightarrow> v | _ \<Rightarrow> 0) in
                         if - value > current then Inl DeclarationError
                         else scalar_room tot allocs value)))
           | _ \<Rightarrow> Inl TypeError))"

datatype reduced = RedTotal int | RedValues "int list"

definition def_reduce :: "resource_def \<Rightarrow> allocated list \<Rightarrow> exn + reduced" where
  "def_reduce d allocs =
     (case d of
        Range _ f l \<Rightarrow>
          bindE (all_values allocs) (\<lambda>vss. Inr (RedValues (filter (\<lambda>x. \<not> value_free vss x) [f..l])))
      | Scalar _ _ \<Rightarrow> bindE (scalar_reduce allocs) (\<lambda>n. Inr (RedTotal n)))"

definition get_total :: "resource_def \<Rightarrow> int list" where
  "get_total d = (case d of Range _ f l \<Rightarrow> [f, l] | Scalar _ tot \<Rightarrow> [tot])"

definition def_zero :: "resource_def \<Rightarrow> allocated" where
  "def_zero d = (case d of Range _ _ _ \<Rightarrow> ARange [] | Scalar _ _ \<Rightarrow> AScalar 0)"

section \<open>Allocations and changes\<close>

type_synonym rid = nat

record allocation =
  alloc_id :: rid
  alloc :: "(string, allocated) dict"

record change =
  change_id :: rid
  allocation_id :: rid
  deltas :: "(string, allocated) dict"

definition allocation_for :: "allocation \<Rightarrow> string \<Rightarrow> allocated option" where
  "allocation_for a name = map_of (alloc a) name"

definition change_for :: "change \<Rightarrow> string \<Rightarrow> allocated option" where
  "change_for c name = map_of (deltas c) name"

text \<open>The two loops of \<open>Allocation.apply\<close>: missing names start from zero, then every name of
  the change is added and dropped when it becomes zero.\<close>

definition add_zeros :: "(string, allocated) dict \<Rightarrow> (string, allocated) dict \<Rightarrow> (string, allocated) dict" where
  "add_zeros ds al =
     fold (\<lambda>(name, d) al. if dict_has al name then al else AList.update name (alloc_zero d) al) ds al"

fun apply_loop ::
  "(string, allocated) dict \<Rightarrow> (string, allocated) dict \<Rightarrow> (string, allocated) dict \<Rightarrow>
   exn + (string, allocated) dict" where
  "apply_loop ds [] al = Inr al"
| "apply_loop ds ((name, a) # items) al =
     (case map_of ds name of
        None \<Rightarrow> apply_loop ds items al
      | Some d \<Rightarrow>
          bindE (alloc_add a d) (\<lambda>(a', nonzero).
            apply_loop ds items
              (if nonzero then AList.update name a' al else AList.delete name al)))"

definition allocation_apply :: "allocation \<Rightarrow> change \<Rightarrow> exn + allocation" where
  "allocation_apply a c =
     (let al = add_zeros (deltas c) (alloc a) in
      bindE (apply_loop (deltas c) al al) (\<lambda>al'. Inr (a\<lparr>alloc := al'\<rparr>)))"

section \<open>Finding free values\<close>

lemma find_free_eq:
  "find_free vss xs number =
     (let free = filter (value_free vss) xs in
      (take (nat number) free, if number < 1 then number else max 0 (number - int (length free))))"
proof (induction vss xs number rule: find_free.induct)
  case (2 vss x xs number)
  then show ?case by (auto simp: Let_def take_Cons' nat_diff_distrib)
qed auto

text \<open>\<open>_find_free_values\<close> returns the lowest free values of the range, as many as it is asked
  for, and raises \<open>NotEnoughResource\<close> when and only when fewer are free.\<close>

theorem find_free_values_lowest:
  "find_free_values f l allocs number =
     (if number < 1 then Inr []
      else bindE (all_values allocs) (\<lambda>vss.
        let free = filter (value_free vss) [f..l] in
        if int (length free) < number then Inl NotEnoughResource
        else Inr (take (nat number) free)))"
  by (auto simp: find_free_values_def find_free_eq Let_def max_def intro!: arg_cong2 [of _ _ _ _ bindE])

lemma find_free_values_props:
  assumes "find_free_values f l allocs number = Inr vs" and "all_values allocs = Inr vss"
  shows "\<forall>v \<in> set vs. f \<le> v \<and> v \<le> l \<and> value_free vss v" and "distinct vs"
proof -
  have "vs = [] \<or> vs = take (nat number) (filter (value_free vss) [f..l])"
    using assms by (auto simp: find_free_values_def find_free_eq Let_def split: if_splits)
  then have "vs = [] \<or> set vs \<subseteq> set (filter (value_free vss) [f..l]) \<and> distinct vs"
    by (metis distinct_filter distinct_take distinct_upto set_take_subset)
  then show "\<forall>v \<in> set vs. f \<le> v \<and> v \<le> l \<and> value_free vss v" "distinct vs" by auto
qed

section \<open>Applying changes\<close>

lemma dict_ok_fold_update:
  "dict_ok al \<Longrightarrow> dict_ok (add_zeros ds al)"
proof (induction ds arbitrary: al)
  case Nil
  then show ?case by (simp add: add_zeros_def)
next
  case (Cons nd ds)
  then show ?case by (cases nd) (auto simp: add_zeros_def)
qed

lemma map_of_add_zeros:
  "map_of (add_zeros ds al) name =
     (case map_of al name of Some a \<Rightarrow> Some a | None \<Rightarrow> map_option alloc_zero (map_of ds name))"
proof (induction ds arbitrary: al)
  case Nil
  then show ?case by (simp add: add_zeros_def split: option.splits)
next
  case (Cons nd ds)
  obtain n d where nd: "nd = (n, d)" by (cases nd)
  have step: "add_zeros (nd # ds) al =
      add_zeros ds (if dict_has al n then al else AList.update n (alloc_zero d) al)"
    by (simp add: add_zeros_def nd)
  show ?case
    unfolding step Cons.IH by (auto simp: nd dict_simps split: option.splits)
qed

text \<open>The dictionary after \<open>Allocation.apply\<close>: a name of the change holds the sum, unless that
  is zero; other names keep what they have.\<close>

lemma apply_loop_map_of:
  "\<lbrakk>apply_loop ds items al = Inr al'; dict_ok items\<rbrakk> \<Longrightarrow>
   map_of al' name =
     (case map_of items name of
        None \<Rightarrow> map_of al name
      | Some a \<Rightarrow>
          (case map_of ds name of
             None \<Rightarrow> map_of al name
           | Some d \<Rightarrow> (case alloc_add a d of
                 Inr (a', True) \<Rightarrow> Some a' | _ \<Rightarrow> None)))"
proof (induction items arbitrary: al)
  case Nil
  then show ?case by simp
next
  case (Cons na items)
  obtain n a where na: "na = (n, a)" by (cases na)
  have fresh: "map_of items n = None" using Cons.prems(2) na by (auto simp: map_of_eq_None_iff)
  show ?case
  proof (cases "map_of ds n")
    case None
    with Cons na fresh show ?thesis by (auto split: option.splits)
  next
    case (Some d)
    with Cons.prems(1) na obtain a' nz where add: "alloc_add a d = Inr (a', nz)"
      and rest: "apply_loop ds items (if nz then AList.update n a' al else AList.delete n al) = Inr al'"
      by (auto simp: bindE_Inr_iff)
    have "map_of al' name = (case map_of items name of
        None \<Rightarrow> map_of (if nz then AList.update n a' al else AList.delete n al) name
      | Some a \<Rightarrow> (case map_of ds name of
             None \<Rightarrow> map_of (if nz then AList.update n a' al else AList.delete n al) name
           | Some d \<Rightarrow> (case alloc_add a d of Inr (a', True) \<Rightarrow> Some a' | _ \<Rightarrow> None)))"
      using Cons.IH [OF rest] Cons.prems(2) na by simp
    then show ?thesis using na fresh Some add
      by (cases "name = n") (auto simp: dict_simps split: option.splits)
  qed
qed

lemma apply_loop_adds:
  "\<lbrakk>apply_loop ds items al = Inr al'; map_of items name = Some a; dict_ok items; map_of ds name = Some d\<rbrakk>
   \<Longrightarrow> \<exists>r. alloc_add a d = Inr r"
proof (induction items arbitrary: al)
  case (Cons na items)
  obtain n b where na: "na = (n, b)" by (cases na)
  show ?case
  proof (cases "map_of ds n")
    case None
    with Cons na show ?thesis by (auto split: if_splits)
  next
    case (Some e)
    with Cons na show ?thesis by (auto simp: bindE_Inr_iff split: if_splits)
  qed
qed simp

lemma allocation_apply_for:
  assumes "allocation_apply a c = Inr a'" and "dict_ok (alloc a)"
  shows "alloc_id a' = alloc_id a"
    and "allocation_for a' name =
      (case change_for c name of
         None \<Rightarrow> allocation_for a name
       | Some d \<Rightarrow>
           (case alloc_add (case allocation_for a name of Some x \<Rightarrow> x | None \<Rightarrow> alloc_zero d) d of
              Inr (x, True) \<Rightarrow> Some x | _ \<Rightarrow> None))"
    and "change_for c name = Some d \<Longrightarrow>
      \<exists>r. alloc_add (case allocation_for a name of Some x \<Rightarrow> x | None \<Rightarrow> alloc_zero d) d = Inr r"
proof -
  let ?al = "add_zeros (deltas c) (alloc a)"
  obtain al' where loop: "apply_loop (deltas c) ?al ?al = Inr al'" and a': "a' = a\<lparr>alloc := al'\<rparr>"
    using assms(1) by (auto simp: allocation_apply_def Let_def bindE_Inr_iff)
  have ok: "dict_ok ?al" using assms(2) by (rule dict_ok_fold_update)
  show "alloc_id a' = alloc_id a" by (simp add: a')
  show "allocation_for a' name = (case change_for c name of
         None \<Rightarrow> allocation_for a name
       | Some d \<Rightarrow>
           (case alloc_add (case allocation_for a name of Some x \<Rightarrow> x | None \<Rightarrow> alloc_zero d) d of
              Inr (x, True) \<Rightarrow> Some x | _ \<Rightarrow> None))"
    unfolding allocation_for_def change_for_def a' using apply_loop_map_of [OF loop ok, of name]
    by (simp add: map_of_add_zeros split: option.splits)
  assume "change_for c name = Some d"
  then show "\<exists>r. alloc_add (case allocation_for a name of Some x \<Rightarrow> x | None \<Rightarrow> alloc_zero d) d = Inr r"
    using apply_loop_adds [OF loop _ ok, of name]
    by (auto simp: allocation_for_def change_for_def map_of_add_zeros split: option.splits)
qed

end
