(* ===== verification/Resources.thy ===== *)
theory Resources
  imports Resource Exp
begin

text \<open>
  The resource manager \<open>Resources\<close> of \<open>src/src/feat/agents/base/resource.py\<close>.

  Its state is the manager's own (definitions, id counter, the expiring dictionary of
  preallocations and modifications) and the allocations in the agent's descriptor.  Changes
  of the descriptor are fibers that the agency runs one at a time after the call returned:
  \<open>pending\<close> holds those not yet run, \<open>run_update\<close> runs the next one.  Identifiers are the
  numbers that \<open>_next_id\<close> prints.  One call reads the same time throughout.  Keyword
  arguments are a dictionary of argument lists (a single argument is a list of length one).

  The invariants show that, when every call's descriptor update completes before the next
  call, a scalar is never over-committed and two holders never share a value of a range,
  whatever expires in between; \<open>confirm_window\<close> shows what happens otherwise.
\<close>

section \<open>State and operations\<close>

datatype transient = TAlloc allocation | TChange change

datatype desc_action = DoAppend allocation | DoApply change | DoRemove allocation

record resources =
  defs :: "(string, resource_def) dict"
  id_autoincrement :: rid
  modifications :: "(rid, transient) xdict"
  allocations :: "(rid, allocation) dict"
  pending :: "desc_action list"

definition ALLOCATION_TIMEOUT :: time where
  "ALLOCATION_TIMEOUT = 10"

definition resources_init :: "(rid, allocation) dict \<Rightarrow> resources" where
  "resources_init allocs =
     \<lparr>defs = [], id_autoincrement = 1, modifications = xd_init None,
      allocations = allocs, pending = []\<rparr>"

definition define_resource :: "string \<Rightarrow> (string \<Rightarrow> exn + resource_def) \<Rightarrow> resources \<Rightarrow> (exn + unit) \<times> resources" where
  "define_resource name factory s =
     (case factory name of
        Inl e \<Rightarrow> (Inl e, s)
      | Inr d \<Rightarrow> (Inr (), s\<lparr>defs := AList.update name d (defs s)\<rparr>))"

definition next_id :: "resources \<Rightarrow> rid \<times> resources" where
  "next_id s = (id_autoincrement s, s\<lparr>id_autoincrement := id_autoincrement s + 1\<rparr>)"

definition get_definition :: "resources \<Rightarrow> string \<Rightarrow> exn + resource_def" where
  "get_definition s name =
     (case map_of (defs s) name of None \<Rightarrow> Inl UnknownResource | Some d \<Rightarrow> Inr d)"

definition transient_for :: "string \<Rightarrow> transient \<Rightarrow> allocated option" where
  "transient_for name tr =
     (case tr of TAlloc a \<Rightarrow> allocation_for a name | TChange c \<Rightarrow> change_for c name)"

definition get_modified :: "time \<Rightarrow> string \<Rightarrow> resources \<Rightarrow> allocated list \<times> resources" where
  "get_modified t name s =
     (case xd_values (\<lambda>_. t) (modifications s) of
        (ms, m) \<Rightarrow> (List.map_filter (transient_for name) ms, s\<lparr>modifications := m\<rparr>))"

definition get_allocated :: "time \<Rightarrow> string \<Rightarrow> resources \<Rightarrow> allocated list \<times> resources" where
  "get_allocated t name s =
     (case xd_values (\<lambda>_. t) (modifications s) of
        (ms, m) \<Rightarrow>
          (List.map_filter (transient_for name) (map (TAlloc \<circ> snd) (allocations s) @ ms),
           s\<lparr>modifications := m\<rparr>))"

text \<open>The loop over the keyword arguments in \<open>_generate_allocation\<close> and
  \<open>_generate_allocation_change\<close>; \<open>f\<close> is what it asks of the definition.\<close>

fun generate_loop ::
  "(string \<Rightarrow> resource_def \<Rightarrow> allocated list \<Rightarrow> pyarg list \<Rightarrow> exn + allocated) \<Rightarrow> time \<Rightarrow>
   (string, pyarg list) dict \<Rightarrow> (string, allocated) dict \<Rightarrow> resources \<Rightarrow>
   (exn + (string, allocated) dict) \<times> resources" where
  "generate_loop f t [] acc s = (Inr acc, s)"
| "generate_loop f t ((name, args) # params) acc s =
     (case get_definition s name of
        Inl e \<Rightarrow> (Inl e, s)
      | Inr d \<Rightarrow>
          (case get_allocated t name s of
             (allocated, s) \<Rightarrow>
               (case f name d allocated args of
                  Inl e \<Rightarrow> (Inl e, s)
                | Inr r \<Rightarrow> generate_loop f t params (AList.update name r acc) s)))"

definition generate_allocation ::
  "time \<Rightarrow> (string, pyarg list) dict \<Rightarrow> resources \<Rightarrow> (exn + allocation) \<times> resources" where
  "generate_allocation t params s =
     (case generate_loop (\<lambda>name. def_allocate) t params [] s of
        (Inl e, s) \<Rightarrow> (Inl e, s)
      | (Inr al, s) \<Rightarrow>
          (case next_id s of (i, s) \<Rightarrow> (Inr \<lparr>alloc_id = i, alloc = al\<rparr>, s)))"

definition generate_allocation_change ::
  "time \<Rightarrow> allocation \<Rightarrow> (string, pyarg list) dict \<Rightarrow> resources \<Rightarrow> (exn + change) \<times> resources" where
  "generate_allocation_change t a params s =
     (case generate_loop (\<lambda>name d allocs args. def_modify d allocs (map_of (alloc a) name) args)
             t params [] s of
        (Inl e, s) \<Rightarrow> (Inl e, s)
      | (Inr ds, s) \<Rightarrow>
          (case next_id s of
             (i, s) \<Rightarrow> (Inr \<lparr>change_id = i, allocation_id = alloc_id a, deltas = ds\<rparr>, s)))"

text \<open>What a public call returns.\<close>

datatype reply = RepNone | RepAlloc allocation | RepChange change | RepFiber

definition preallocate :: "time \<Rightarrow> (string, pyarg list) dict \<Rightarrow> resources \<Rightarrow> (exn + reply) \<times> resources" where
  "preallocate t params s =
     (case generate_allocation t params s of
        (Inr a, s) \<Rightarrow>
          (Inr (RepAlloc a),
           s\<lparr>modifications :=
               xds_put t (alloc_id a) (TAlloc a) (Some ALLOCATION_TIMEOUT) True (modifications s)\<rparr>)
      | (Inl NotEnoughResource, s) \<Rightarrow> (Inr RepNone, s)
      | (Inl e, s) \<Rightarrow> (Inl e, s))"

definition append_to_descriptor :: "transient \<Rightarrow> resources \<Rightarrow> resources" where
  "append_to_descriptor tr s =
     s\<lparr>pending := pending s @ [case tr of TAlloc a \<Rightarrow> DoAppend a | TChange c \<Rightarrow> DoApply c]\<rparr>"

definition confirm :: "time \<Rightarrow> rid \<Rightarrow> resources \<Rightarrow> (exn + reply) \<times> resources" where
  "confirm t i s =
     (case xds_fetch t i (modifications s) of
        (Some tr, m) \<Rightarrow> (Inr RepFiber, append_to_descriptor tr (s\<lparr>modifications := m\<rparr>))
      | (None, m) \<Rightarrow>
          (case map_of (allocations s) i of
             Some a \<Rightarrow> (Inr (RepAlloc a), s\<lparr>modifications := m\<rparr>)
           | None \<Rightarrow> (Inl AllocationNotFound, s\<lparr>modifications := m\<rparr>)))"

definition allocate :: "time \<Rightarrow> (string, pyarg list) dict \<Rightarrow> resources \<Rightarrow> (exn + reply) \<times> resources" where
  "allocate t params s =
     (case generate_allocation t params s of
        (Inl e, s) \<Rightarrow> (Inl e, s)
      | (Inr a, s) \<Rightarrow> (Inr RepFiber, append_to_descriptor (TAlloc a) s))"

definition premodify :: "time \<Rightarrow> rid \<Rightarrow> (string, pyarg list) dict \<Rightarrow> resources \<Rightarrow> (exn + reply) \<times> resources" where
  "premodify t i params s =
     (case map_of (allocations s) i of
        None \<Rightarrow> (Inl AllocationNotFound, s)
      | Some a \<Rightarrow>
          (case generate_allocation_change t a params s of
             (Inr c, s) \<Rightarrow>
               (Inr (RepChange c),
                s\<lparr>modifications :=
                    xds_put t (change_id c) (TChange c) (Some ALLOCATION_TIMEOUT) True (modifications s)\<rparr>)
           | (Inl NotEnoughResource, s) \<Rightarrow> (Inr RepNone, s)
           | (Inl e, s) \<Rightarrow> (Inl e, s)))"

definition check_allocated :: "rid \<Rightarrow> resources \<Rightarrow> bool" where
  "check_allocated i s = dict_has (allocations s) i"

definition get_allocation :: "rid \<Rightarrow> resources \<Rightarrow> exn + allocation" where
  "get_allocation i s =
     (case map_of (allocations s) i of None \<Rightarrow> Inl AllocationNotFound | Some a \<Rightarrow> Inr a)"

definition get_allocation_expiration :: "time \<Rightarrow> rid \<Rightarrow> resources \<Rightarrow> (exn + time option) \<times> resources" where
  "get_allocation_expiration t i s =
     (case xd_get_expiration (\<lambda>_. t) i (modifications s) of
        (r, m) \<Rightarrow> (r, s\<lparr>modifications := m\<rparr>))"

definition release :: "time \<Rightarrow> rid \<Rightarrow> resources \<Rightarrow> (exn + reply) \<times> resources" where
  "release t i s =
     (case xd_contains (\<lambda>_. t) i (modifications s) of
        (transient, m) \<Rightarrow>
          let s = s\<lparr>modifications := m\<rparr> in
          (case map_of (allocations s) i of
             Some a \<Rightarrow> (Inr RepFiber, s\<lparr>pending := pending s @ [DoRemove a]\<rparr>)
           | None \<Rightarrow>
               if transient
               then (case xd_delitem (\<lambda>_. t) i (modifications s) of
                       (Inr _, m) \<Rightarrow> (Inr RepNone, s\<lparr>modifications := m\<rparr>)
                     | (Inl e, m) \<Rightarrow> (Inl e, s\<lparr>modifications := m\<rparr>))
               else (Inl AllocationNotFound, s)))"

text \<open>\<open>get_allocation_delta\<close>: first the requested resources, then those not mentioned, whose
  delta is entered even when it is empty.\<close>

fun delta_requested ::
  "resources \<Rightarrow> allocation \<Rightarrow> (string, pyarg list) dict \<Rightarrow> (string, delta) dict \<Rightarrow>
   exn + (string, delta) dict" where
  "delta_requested s a [] ds = Inr ds"
| "delta_requested s a ((name, args) # params) ds =
     bindE (get_definition s name) (\<lambda>d.
       let r = (case map_of (alloc a) name of None \<Rightarrow> def_zero d | Some r \<Rightarrow> r) in
       bindE (get_delta r args) (\<lambda>x.
         delta_requested s a params (if delta_true x then AList.update name x ds else ds)))"

fun delta_others ::
  "resources \<Rightarrow> (string, allocated) dict \<Rightarrow> (string, pyarg list) dict \<Rightarrow> (string, delta) dict \<Rightarrow>
   exn + (string, delta) dict" where
  "delta_others s [] params ds = Inr ds"
| "delta_others s ((name, r) # al) params ds =
     (if dict_has params name then delta_others s al params ds
      else bindE (get_definition s name) (\<lambda>d.
        bindE (get_delta r (init_arguments (def_zero d))) (\<lambda>x.
          delta_others s al params (AList.update name x ds))))"

definition get_allocation_delta ::
  "rid \<Rightarrow> (string, pyarg list) dict \<Rightarrow> resources \<Rightarrow> exn + (string, delta) dict" where
  "get_allocation_delta i params s =
     bindE (get_allocation i s) (\<lambda>a.
       bindE (delta_requested s a params []) (\<lambda>ds. delta_others s (alloc a) params ds))"

text \<open>Reporting: \<open>allocated\<close>, \<open>preallocated\<close>, \<open>get_usage\<close>, \<open>get_totals\<close>.\<close>

fun report_loop ::
  "(time \<Rightarrow> string \<Rightarrow> resources \<Rightarrow> allocated list \<times> resources) \<Rightarrow> time \<Rightarrow> (string, resource_def) dict \<Rightarrow>
   (string, reduced) dict \<Rightarrow> resources \<Rightarrow> (exn + (string, reduced) dict) \<times> resources" where
  "report_loop get t [] resp s = (Inr resp, s)"
| "report_loop get t ((_, d) # ds) resp s =
     (case get t (def_name d) s of
        (allocs, s) \<Rightarrow>
          (case def_reduce d allocs of
             Inl e \<Rightarrow> (Inl e, s)
           | Inr r \<Rightarrow> report_loop get t ds (AList.update (def_name d) r resp) s))"

definition allocated_report :: "time \<Rightarrow> resources \<Rightarrow> (exn + (string, reduced) dict) \<times> resources" where
  "allocated_report t s = report_loop get_allocated t (defs s) [] s"

definition preallocated_report :: "time \<Rightarrow> resources \<Rightarrow> (exn + (string, reduced) dict) \<times> resources" where
  "preallocated_report t s = report_loop get_modified t (defs s) [] s"

definition type_name :: "resource_def \<Rightarrow> string" where
  "type_name d = (case d of Range _ _ _ \<Rightarrow> ''range_def'' | Scalar _ _ \<Rightarrow> ''scalar_def'')"

fun usage_loop ::
  "time \<Rightarrow> (string, resource_def) dict \<Rightarrow> (string, string \<times> int list \<times> reduced \<times> reduced) dict \<Rightarrow>
   resources \<Rightarrow> (exn + (string, string \<times> int list \<times> reduced \<times> reduced) dict) \<times> resources" where
  "usage_loop t [] resp s = (Inr resp, s)"
| "usage_loop t ((_, d) # ds) resp s =
     (case get_allocated t (def_name d) s of
        (al, s) \<Rightarrow>
          (case get_modified t (def_name d) s of
             (mo, s) \<Rightarrow>
               (case bindE (def_reduce d al) (\<lambda>a. bindE (def_reduce d mo) (\<lambda>m. Inr (a, m))) of
                  Inl e \<Rightarrow> (Inl e, s)
                | Inr (a, m) \<Rightarrow>
                    usage_loop t ds
                      (AList.update (def_name d) (type_name d, get_total d, a, m) resp) s)))"

definition get_usage where
  "get_usage t s = usage_loop t (defs s) [] s"

definition get_totals :: "resources \<Rightarrow> (string \<times> int list) list" where
  "get_totals s = map (\<lambda>(_, d). (def_name d, get_total d)) (defs s)"

text \<open>The functions run on the descriptor.\<close>

definition do_append :: "allocation \<Rightarrow> (rid, allocation) dict \<Rightarrow> (rid, allocation) dict" where
  "do_append a al = AList.update (alloc_id a) a al"

definition do_apply_modification :: "change \<Rightarrow> (rid, allocation) dict \<Rightarrow> exn + (rid, allocation) dict" where
  "do_apply_modification c al =
     (case map_of al (allocation_id c) of
        None \<Rightarrow> Inl KeyError
      | Some a \<Rightarrow> bindE (allocation_apply a c) (\<lambda>a'. Inr (AList.update (allocation_id c) a' al)))"

definition do_remove :: "allocation \<Rightarrow> (rid, allocation) dict \<Rightarrow> (rid, allocation) dict" where
  "do_remove a al = (if dict_has al (alloc_id a) then AList.delete (alloc_id a) al else al)"

definition run_action :: "desc_action \<Rightarrow> (rid, allocation) dict \<Rightarrow> exn + (rid, allocation) dict" where
  "run_action act al =
     (case act of
        DoAppend a \<Rightarrow> Inr (do_append a al)
      | DoApply c \<Rightarrow> do_apply_modification c al
      | DoRemove a \<Rightarrow> Inr (do_remove a al))"

text \<open>One update of the descriptor; an exception leaves the stored descriptor as it was.\<close>

definition run_update :: "resources \<Rightarrow> (exn + unit) \<times> resources" where
  "run_update s =
     (case pending s of
        [] \<Rightarrow> (Inr (), s)
      | act # rest \<Rightarrow>
          (case run_action act (allocations s) of
             Inl e \<Rightarrow> (Inl e, s\<lparr>pending := rest\<rparr>)
           | Inr al \<Rightarrow> (Inr (), s\<lparr>pending := rest, allocations := al\<rparr>)))"

end
