(* ===== verification/ResourceSafety.thy ===== *)
theory ResourceSafety
  imports Resources
begin

text \<open>
  What the resource manager promises, and that it keeps the promise.

  The abstract state is the map \<open>holders\<close> from identifiers to what they hold, confirmed or
  not.  Its steps (\<open>hold_step\<close>) are losing holders, granting something that \<open>fits\<close>, and
  applying a confirmed change.  The invariant \<open>safe\<close> of that machine says that no scalar is
  held beyond its total and that no value of a range has two holders; the simulation lemmas
  show that every call of \<open>Resources\<close>, followed by its descriptor update, is a run of it.
\<close>

section \<open>The abstract machine\<close>

type_synonym holders = "rid \<Rightarrow> transient option"

definition scalar_used :: "string \<Rightarrow> transient \<Rightarrow> int" where
  "scalar_used name tr = (case transient_for name tr of Some (AScalar v) \<Rightarrow> max v 0 | _ \<Rightarrow> 0)"

definition range_values :: "string \<Rightarrow> transient \<Rightarrow> int set" where
  "range_values name tr = (case transient_for name tr of Some (ARange vs) \<Rightarrow> set vs | _ \<Rightarrow> {})"

definition usage :: "holders \<Rightarrow> string \<Rightarrow> int" where
  "usage h name = (\<Sum>i \<in> dom h. scalar_used name (the (h i)))"

definition fits :: "(string, resource_def) dict \<Rightarrow> holders \<Rightarrow> string \<Rightarrow> allocated \<Rightarrow> bool" where
  "fits D h name x =
     (case map_of D name of
        None \<Rightarrow> False
      | Some (Scalar _ tot) \<Rightarrow> (\<exists>v. x = AScalar v \<and> usage h name + v \<le> tot)
      | Some (Range _ _ _) \<Rightarrow>
          (\<exists>vs. x = ARange vs \<and> (\<forall>v \<in> set vs. 0 < v \<longrightarrow> (\<forall>i tr. h i = Some tr \<longrightarrow> v \<notin> range_values name tr))))"

text \<open>An allocation has one entry per name and no negative values of a range.\<close>

definition tr_ok :: "transient \<Rightarrow> bool" where
  "tr_ok tr =
     (case tr of
        TAlloc a \<Rightarrow> dict_ok (alloc a) \<and> (\<forall>name vs. allocation_for a name = Some (ARange vs) \<longrightarrow> (\<forall>v \<in> set vs. 0 \<le> v))
      | TChange c \<Rightarrow> True)"

inductive hold_step :: "(string, resource_def) dict \<Rightarrow> holders \<Rightarrow> holders \<Rightarrow> bool" for D where
  lose: "h' \<subseteq>\<^sub>m h \<Longrightarrow> hold_step D h h'"
| grant: "h i = None \<Longrightarrow> tr_ok tr \<Longrightarrow>
    (\<And>name x. transient_for name tr = Some x \<Longrightarrow> fits D h name x) \<Longrightarrow> hold_step D h (h(i \<mapsto> tr))"
| change: "h i = Some (TChange c) \<Longrightarrow> h j = Some (TAlloc a) \<Longrightarrow> allocation_apply a c = Inr a' \<Longrightarrow>
    hold_step D h (h(i := None, j \<mapsto> TAlloc a'))"

definition within_totals :: "(string, resource_def) dict \<Rightarrow> holders \<Rightarrow> bool" where
  "within_totals D h \<longleftrightarrow>
     (\<forall>name nm tot. map_of D name = Some (Scalar nm tot) \<longrightarrow> usage h name \<le> tot)"

definition exclusive :: "holders \<Rightarrow> bool" where
  "exclusive h \<longleftrightarrow>
     (\<forall>name i j tr tr' v. i \<noteq> j \<and> h i = Some tr \<and> h j = Some tr' \<and> 0 < v \<longrightarrow>
        \<not> (v \<in> range_values name tr \<and> v \<in> range_values name tr'))"

definition safe :: "(string, resource_def) dict \<Rightarrow> holders \<Rightarrow> bool" where
  "safe D h \<longleftrightarrow> finite (dom h) \<and> within_totals D h \<and> exclusive h \<and>
     (\<forall>i tr. h i = Some tr \<longrightarrow> tr_ok tr)"

lemma scalar_used_nonneg: "0 \<le> scalar_used name tr"
  by (simp add: scalar_used_def split: option.splits allocated.splits)

lemma usage_upd: "finite (dom h) \<Longrightarrow> h i = None \<Longrightarrow> usage (h(i \<mapsto> tr)) name = usage h name + scalar_used name tr"
proof -
  assume fin: "finite (dom h)" and i: "h i = None"
  then have notin: "i \<notin> dom h" by auto
  then have "(\<Sum>x \<in> dom h. scalar_used name (the ((h(i \<mapsto> tr)) x))) = usage h name"
    unfolding usage_def by (intro sum.cong) auto
  with notin fin show ?thesis by (simp add: usage_def)
qed

lemma usage_del:
  assumes "finite (dom h)" "h i = Some tr"
  shows "usage h name = usage (h(i := None)) name + scalar_used name tr"
proof -
  have "h = (h(i := None))(i \<mapsto> tr)" using assms(2) by auto
  then show ?thesis using usage_upd [of "h(i := None)" i tr name] assms(1) by simp
qed

lemma usage_mono:
  assumes "finite (dom h)" "h' \<subseteq>\<^sub>m h"
  shows "usage h' name \<le> usage h name"
proof -
  have sub: "dom h' \<subseteq> dom h" using assms(2) by (rule map_le_implies_dom_le)
  have "usage h' name = (\<Sum>i \<in> dom h'. scalar_used name (the (h i)))"
    unfolding usage_def using assms(2) by (intro sum.cong) (auto simp: map_le_def domI)
  also have "\<dots> \<le> usage h name"
    unfolding usage_def using assms(1) sub by (intro sum_mono2) (auto simp: scalar_used_nonneg)
  finally show ?thesis .
qed

text \<open>Applying a change: the new allocation holds no more than the old one and the change did.\<close>

lemma range_add_set:
  "range_add vs ds = Inr r \<Longrightarrow> set r \<subseteq> set vs \<union> {v \<in> set ds. 0 < v}"
proof (induction vs ds arbitrary: r rule: range_add.induct)
  case (2 vs val rest)
  then show ?case by (fastforce split: if_splits)
qed simp

lemma apply_scalar_used:
  assumes "allocation_apply a c = Inr a'" and "dict_ok (alloc a)"
  shows "scalar_used name (TAlloc a') \<le> scalar_used name (TAlloc a) + scalar_used name (TChange c)"
proof (cases "change_for c name")
  case None
  then show ?thesis
    using allocation_apply_for(2) [OF assms, of name] by (simp add: scalar_used_def transient_for_def)
next
  case (Some d)
  let ?x = "case allocation_for a name of Some x \<Rightarrow> x | None \<Rightarrow> alloc_zero d"
  obtain x nz where add: "alloc_add ?x d = Inr (x, nz)"
    using allocation_apply_for(3) [OF assms Some] by auto
  with allocation_apply_for(2) [OF assms, of name] Some
  have a': "allocation_for a' name = (if nz then Some x else None)" by simp
  show ?thesis
    using add a' Some
    by (auto simp: scalar_used_def transient_for_def alloc_add_def alloc_zero_def Let_def bindE_Inr_iff
        split: option.splits allocated.splits if_splits)
qed

lemma apply_range_values:
  assumes "allocation_apply a c = Inr a'" and "dict_ok (alloc a)"
  shows "range_values name (TAlloc a') \<subseteq>
    range_values name (TAlloc a) \<union> {v \<in> range_values name (TChange c). 0 < v}"
proof (cases "change_for c name")
  case None
  then show ?thesis
    using allocation_apply_for(2) [OF assms, of name] by (simp add: range_values_def transient_for_def)
next
  case (Some d)
  let ?x = "case allocation_for a name of Some x \<Rightarrow> x | None \<Rightarrow> alloc_zero d"
  obtain x nz where add: "alloc_add ?x d = Inr (x, nz)"
    using allocation_apply_for(3) [OF assms Some] by auto
  with allocation_apply_for(2) [OF assms, of name] Some
  have a': "allocation_for a' name = (if nz then Some x else None)" by simp
  show ?thesis
    using add a' Some
    by (auto simp: range_values_def transient_for_def alloc_add_def alloc_zero_def Let_def bindE_Inr_iff
        dest!: range_add_set split: option.splits allocated.splits if_splits)
qed

lemma apply_loop_dict_ok:
  "apply_loop ds items al = Inr al' \<Longrightarrow> dict_ok al \<Longrightarrow> dict_ok al'"
  by (induction items arbitrary: al)
     (auto simp: bindE_Inr_iff split: option.splits if_splits)

lemma apply_tr_ok:
  assumes "allocation_apply a c = Inr a'" and "tr_ok (TAlloc a)"
  shows "tr_ok (TAlloc a')"
proof -
  have ok: "dict_ok (alloc a)" using assms(2) by (simp add: tr_ok_def)
  have "dict_ok (alloc a')"
    using assms(1) apply_loop_dict_ok dict_ok_fold_update [OF ok]
    by (auto simp: allocation_apply_def Let_def bindE_Inr_iff)
  moreover have "0 \<le> v" if "allocation_for a' name = Some (ARange vs)" "v \<in> set vs" for name vs v
  proof -
    have "v \<in> range_values name (TAlloc a')" using that by (simp add: range_values_def transient_for_def)
    with apply_range_values [OF assms(1) ok] have
      "v \<in> range_values name (TAlloc a) \<or> 0 < v" by blast
    with assms(2) show ?thesis
      by (auto simp: range_values_def transient_for_def tr_ok_def split: option.splits allocated.splits)
  qed
  ultimately show ?thesis by (auto simp: tr_ok_def)
qed

section \<open>The invariant of the abstract machine\<close>

lemma safe_lose: "safe D h \<Longrightarrow> h' \<subseteq>\<^sub>m h \<Longrightarrow> safe D h'"
proof -
  assume safe: "safe D h" and sub: "h' \<subseteq>\<^sub>m h"
  then have fin: "finite (dom h)" by (simp add: safe_def)
  have "finite (dom h')" using map_le_implies_dom_le [OF sub] fin by (rule finite_subset)
  moreover have "within_totals D h'"
    using safe order_trans [OF usage_mono [OF fin sub]] unfolding safe_def within_totals_def by blast
  moreover have h: "h' i = Some tr \<Longrightarrow> h i = Some tr" for i tr
    using sub by (auto simp: map_le_def dom_def)
  have "exclusive h'" using safe h unfolding safe_def exclusive_def by blast
  ultimately show ?thesis using safe h unfolding safe_def by blast
qed

lemma fits_scalar:
  "fits D h name x \<Longrightarrow> map_of D name = Some (Scalar nm tot) \<Longrightarrow> usage h name \<le> tot \<Longrightarrow>
   usage h name + scalar_used name tr \<le> tot" if "transient_for name tr = Some x"
  using that by (auto simp: fits_def scalar_used_def)

lemma safe_grant:
  assumes safe: "safe D h" and i: "h i = None" and "tr_ok tr"
    and fit: "\<And>name x. transient_for name tr = Some x \<Longrightarrow> fits D h name x"
  shows "safe D (h(i \<mapsto> tr))"
proof -
  have fin: "finite (dom h)" using safe by (simp add: safe_def)
  have "usage (h(i \<mapsto> tr)) name \<le> tot" if "map_of D name = Some (Scalar nm tot)" for name nm tot
  proof -
    have "usage h name \<le> tot" using safe that by (auto simp: safe_def within_totals_def)
    then show ?thesis
      using fits_scalar [of name tr] fit [of name] that
      by (cases "transient_for name tr") (auto simp: usage_upd [OF fin i] scalar_used_def)
  qed
  moreover have new: "v \<notin> range_values name tr'"
    if "0 < v" "h j = Some tr'" "v \<in> range_values name tr" for v j tr' name
    using that fit [of name]
    by (auto simp: fits_def range_values_def split: option.splits allocated.splits resource_def.splits)
  have "exclusive (h(i \<mapsto> tr))"
    using safe unfolding safe_def exclusive_def by (auto dest: new split: if_splits)
  ultimately show ?thesis using safe \<open>tr_ok tr\<close> by (auto simp: safe_def within_totals_def)
qed

lemma safe_change:
  assumes safe: "safe D h" and i: "h i = Some (TChange c)" and j: "h j = Some (TAlloc a)"
    and app: "allocation_apply a c = Inr a'"
  shows "safe D (h(i := None, j \<mapsto> TAlloc a'))"
proof -
  have ij: "i \<noteq> j" using i j by auto
  have fin: "finite (dom h)" and aok: "tr_ok (TAlloc a)" using safe j by (auto simp: safe_def)
  then have ok: "dict_ok (alloc a)" by (simp add: tr_ok_def)
  let ?h = "h(i := None, j \<mapsto> TAlloc a')"
  have "usage ?h name \<le> usage h name" for name
  proof -
    let ?rest = "h(i := None, j := None)"
    have "usage h name = usage ?rest name + scalar_used name (TAlloc a) + scalar_used name (TChange c)"
      using usage_del [OF fin i, of name] usage_del [of "h(i := None)" j "TAlloc a" name] fin j ij by simp
    moreover have "usage ?h name = usage ?rest name + scalar_used name (TAlloc a')"
      using usage_upd [of ?rest j "TAlloc a'" name] fin by simp
    ultimately show ?thesis using apply_scalar_used [OF app ok, of name] by simp
  qed
  then have "within_totals D ?h"
    using safe unfolding safe_def within_totals_def by (meson order_trans)
  moreover have "exclusive ?h"
    unfolding exclusive_def
  proof (intro allI impI)
    fix name k l tr tr' v
    assume kl: "k \<noteq> l \<and> ?h k = Some tr \<and> ?h l = Some tr' \<and> (0::int) < v"
    have excl: "\<not> (v \<in> range_values name s \<and> v \<in> range_values name s')"
      if "m \<noteq> n" "h m = Some s" "h n = Some s'" for m n s s'
      using safe that kl unfolding safe_def exclusive_def by blast
    have new: "v \<in> range_values name (TAlloc a) \<or> v \<in> range_values name (TChange c)"
      if "v \<in> range_values name (TAlloc a')"
      using apply_range_values [OF app ok, of name] that by blast
    show "\<not> (v \<in> range_values name tr \<and> v \<in> range_values name tr')"
      using kl excl i j new by (auto split: if_splits)
  qed
  moreover have "\<forall>k tr. ?h k = Some tr \<longrightarrow> tr_ok tr"
    using safe apply_tr_ok [OF app aok] by (auto simp: safe_def)
  ultimately show ?thesis using fin by (simp add: safe_def)
qed

lemma hold_step_safe: "hold_step D h h' \<Longrightarrow> safe D h \<Longrightarrow> safe D h'"
  by (induction rule: hold_step.induct) (auto intro: safe_lose safe_grant safe_change)

lemma hold_run_safe: "(hold_step D)\<^sup>*\<^sup>* h h' \<Longrightarrow> safe D h \<Longrightarrow> safe D h'"
  by (induction rule: rtranclp_induct) (auto intro: hold_step_safe)

section \<open>From the manager to the machine\<close>

definition holders :: "time \<Rightarrow> resources \<Rightarrow> holders" where
  "holders t s = (\<lambda>i. case map_of (allocations s) i of
     Some a \<Rightarrow> Some (TAlloc a)
   | None \<Rightarrow> map_option item_value (xd_live t (modifications s) i))"

definition res_ok :: "time \<Rightarrow> resources \<Rightarrow> bool" where
  "res_ok t s \<longleftrightarrow>
     xd_ok (modifications s) \<and> dict_ok (allocations s) \<and> pending s = [] \<and>
     (\<forall>i. holders t s i \<noteq> None \<longrightarrow> i < id_autoincrement s) \<and>
     (\<forall>i. dict_has (allocations s) i \<longrightarrow> xd_live t (modifications s) i = None) \<and>
     (\<forall>i a. holders t s i = Some (TAlloc a) \<longrightarrow> alloc_id a = i)"

definition same_view :: "time \<Rightarrow> resources \<Rightarrow> resources \<Rightarrow> bool" where
  "same_view t s s' \<longleftrightarrow>
     s' = s\<lparr>modifications := modifications s'\<rparr> \<and>
     xd_live t (modifications s') = xd_live t (modifications s) \<and> xd_ok (modifications s')"

lemma same_view_fields:
  assumes "same_view t s s'"
  shows "defs s' = defs s" "id_autoincrement s' = id_autoincrement s"
    "allocations s' = allocations s" "pending s' = pending s"
    "xd_live t (modifications s') = xd_live t (modifications s)" "xd_ok (modifications s')"
    "holders t s' = holders t s"
proof -
  have s': "s' = s\<lparr>modifications := modifications s'\<rparr>" using assms by (simp add: same_view_def)
  show "defs s' = defs s" "id_autoincrement s' = id_autoincrement s"
    "allocations s' = allocations s" "pending s' = pending s"
    by (subst s', simp)+
  then show "xd_live t (modifications s') = xd_live t (modifications s)" "xd_ok (modifications s')"
    "holders t s' = holders t s"
    using assms by (auto simp: same_view_def holders_def fun_eq_iff split: option.split)
qed

lemma same_view_refl: "xd_ok (modifications s) \<Longrightarrow> same_view t s s"
  by (simp add: same_view_def)

lemma same_view_trans: "same_view t s s' \<Longrightarrow> same_view t s' s'' \<Longrightarrow> same_view t s s''"
  by (auto simp: same_view_def) (metis resources.surjective resources.update_convs(3))

lemma same_view_mods:
  "xd_live t m = xd_live t (modifications s) \<Longrightarrow> xd_ok m \<Longrightarrow> same_view t s (s\<lparr>modifications := m\<rparr>)"
  by (simp add: same_view_def)

lemma res_ok_same_view: "res_ok t s \<Longrightarrow> same_view t s s' \<Longrightarrow> res_ok t s'"
  by (auto simp: res_ok_def same_view_fields)

lemma holders_later: "t \<le> t' \<Longrightarrow> holders t' s \<subseteq>\<^sub>m holders t s"
proof -
  assume t: "t \<le> t'"
  have "xd_live t (modifications s) i = Some z" if "xd_live t' (modifications s) i = Some z" for i z
    using xd_live_shrinks [OF t that] .
  then show ?thesis by (fastforce simp: map_le_def holders_def split: option.splits)
qed

lemma res_ok_later: "res_ok t s \<Longrightarrow> t \<le> t' \<Longrightarrow> res_ok t' s"
proof -
  assume ok: "res_ok t s" and t: "t \<le> t'"
  have h: "holders t' s i = Some tr \<Longrightarrow> holders t s i = Some tr" for i tr
    using holders_later [OF t, of s] by (force simp: map_le_def dom_def)
  have "xd_live t (modifications s) i = None \<Longrightarrow> xd_live t' (modifications s) i = None" for i
    using xds.view_later [OF t] by (metis not_Some_eq)
  with ok h show ?thesis unfolding res_ok_def by (metis not_Some_eq)
qed

lemma finite_holders: "finite (dom (holders t s))"
proof -
  have "dom (holders t s) \<subseteq> dom (map_of (allocations s)) \<union> dom (xd_live t (modifications s))"
    by (auto simp: holders_def split: option.splits)
  then show ?thesis by (rule finite_subset) (simp add: xds.view_finite finite_dom_map_of)
qed

lemma dict_values_sum:
  assumes "dict_ok d"
  shows "sum_list (map f (map snd d)) = (\<Sum>i \<in> dom (map_of d). (f (the (map_of d i)) :: int))"
    and "set (map snd d) = ran (map_of d)"
proof -
  have "sum_list (map f (map snd d)) = (\<Sum>kv \<in> set d. f (snd kv))"
    using assms by (simp add: comp_def sum_list_distinct_conv_sum_set distinct_map)
  also have "\<dots> = (\<Sum>kv \<in> set d. f (the (map_of d (fst kv))))"
  proof (rule sum.cong)
    fix kv assume "kv \<in> set d"
    then have "map_of d (fst kv) = Some (snd kv)" using assms by simp
    then show "f (snd kv) = f (the (map_of d (fst kv)))" by simp
  qed simp
  also have "\<dots> = (\<Sum>i \<in> dom (map_of d). f (the (map_of d i)))"
    using assms by (simp add: dom_map_of_conv_image_fst sum.reindex distinct_map)
  finally show "sum_list (map f (map snd d)) = (\<Sum>i \<in> dom (map_of d). f (the (map_of d i)))" .
  show "set (map snd d) = ran (map_of d)" using ran_distinct [OF assms] by simp
qed

text \<open>The list a definition is asked to fit into is the holders' resources of that name.\<close>

definition listing :: "holders \<Rightarrow> string \<Rightarrow> allocated list \<Rightarrow> bool" where
  "listing h name als \<longleftrightarrow>
     (\<exists>trs. als = List.map_filter (transient_for name) trs \<and> set trs = ran h \<and>
       sum_list (map (scalar_used name) trs) = usage h name)"

lemma get_allocated_spec:
  assumes "res_ok t s" and "get_allocated t name s = (als, s')"
  shows "same_view t s s'"
    and "listing (holders t s) name als"
proof -
  obtain kvs m where it: "xd_iteritems (\<lambda>_. t) (modifications s) = (kvs, m)"
    by (cases "xd_iteritems (\<lambda>_. t) (modifications s)")
  have ok: "xd_ok (modifications s)" "dict_ok (allocations s)" using assms(1) by (auto simp: res_ok_def)
  note spec = xd_iteritems_spec [OF ok(1) it]
  let ?d = "map (\<lambda>(i, a). (i, TAlloc a)) (allocations s) @ kvs"
  have als: "als = List.map_filter (transient_for name) (map snd ?d)"
    and s': "s' = s\<lparr>modifications := m\<rparr>"
    using assms(2) it
    by (auto simp: get_allocated_def xd_values_def comp_def case_prod_unfold)
  show "same_view t s s'" unfolding s' using spec(3,4) by (intro same_view_mods)
  have "fst ` set kvs = dom (xd_live t (modifications s))"
    using spec(2) by (metis (mono_tags, lifting) Collect_cong dom_def dom_map_of_conv_image_fst
        map_option_is_None)
  moreover have "dom (map_of (allocations s)) \<inter> dom (xd_live t (modifications s)) = {}"
  proof -
    have "i \<notin> dom (xd_live t (modifications s))" if "i \<in> dom (map_of (allocations s))" for i
      using assms(1) that unfolding res_ok_def by (metis domIff)
    then show ?thesis by blast
  qed
  ultimately have "fst ` set (allocations s) \<inter> fst ` set kvs = {}"
    by (simp add: dom_map_of_conv_image_fst)
  then have "dict_ok ?d" using ok(2) spec(1) by (simp add: comp_def case_prod_unfold)
  moreover have "map_of ?d = holders t s"
    using spec(2) by (auto simp: fun_eq_iff holders_def map_add_def map_of_map_values split: option.splits)
  ultimately show "listing (holders t s) name als"
    using als dict_values_sum [of ?d] unfolding usage_def listing_def by metis
qed

section \<open>What a definition grants fits\<close>

lemma map_filter_Cons:
  "List.map_filter f (x # xs) = (case f x of None \<Rightarrow> List.map_filter f xs | Some y \<Rightarrow> y # List.map_filter f xs)"
  by (simp add: map_filter_simps)

lemma all_scalars_used:
  "all_scalars (List.map_filter (transient_for name) trs) = Inr vs \<Longrightarrow>
   sum_list (map (\<lambda>x. max x 0) vs) = sum_list (map (scalar_used name) trs)"
proof (induction trs arbitrary: vs)
  case (Cons tr trs)
  then show ?case
    by (cases "transient_for name tr"; cases "the (transient_for name tr)")
       (auto simp: map_filter_Cons scalar_used_def bindE_Inr_iff)
qed (simp add: map_filter_simps)

lemma all_values_free:
  "all_values (List.map_filter (transient_for name) trs) = Inr vss \<Longrightarrow> value_free vss v \<Longrightarrow>
   tr \<in> set trs \<Longrightarrow> v \<notin> range_values name tr"
proof (induction trs arbitrary: vss)
  case (Cons tr' trs)
  then show ?case
    by (cases "transient_for name tr'"; cases "the (transient_for name tr')")
       (auto simp: map_filter_Cons range_values_def bindE_Inr_iff value_free_def)
qed simp

lemma listing_free:
  "listing h name als \<Longrightarrow> all_values als = Inr vss \<Longrightarrow> value_free vss v \<Longrightarrow> h i = Some tr \<Longrightarrow>
   v \<notin> range_values name tr"
  unfolding listing_def using all_values_free by (metis ranI)

lemma scalar_room_fits:
  assumes "scalar_room tot als v = Inr x" and "listing h name als"
  shows "x = AScalar v \<and> usage h name + v \<le> tot"
  using assms all_scalars_used
  by (auto simp: scalar_room_def scalar_reduce_def bindE_Inr_iff listing_def split: if_splits)

lemma find_free_values_cases:
  assumes "find_free_values f l als number = Inr vs"
  shows "vs = [] \<or> (\<exists>vss. all_values als = Inr vss \<and> (\<forall>v \<in> set vs. f \<le> v \<and> value_free vss v))"
proof (cases "number < 1")
  case True
  with assms show ?thesis by (simp add: find_free_values_def)
next
  case False
  with assms obtain vss where "all_values als = Inr vss"
    by (auto simp: find_free_values_def bindE_Inr_iff)
  with find_free_values_props(1) [OF assms] show ?thesis by blast
qed

lemma allocate_fits:
  assumes "def_allocate d als args = Inr x" and "listing h name als" and "map_of D name = Some d"
  shows "fits D h name x"
    and "d = Range nm f l \<Longrightarrow> x = ARange vs \<Longrightarrow> v \<in> set vs \<Longrightarrow> f \<le> v"
    and "d = Scalar nm tot \<Longrightarrow> x \<noteq> ARange vs"
proof -
  show "fits D h name x"
    using assms(1,3) scalar_room_fits [OF _ assms(2)] listing_free [OF assms(2)]
    by (fastforce simp: def_allocate_def fits_def bindE_Inr_iff dest!: find_free_values_cases
        split: resource_def.splits list.splits pyarg.splits option.splits if_splits)
  show "d = Range nm f l \<Longrightarrow> x = ARange vs \<Longrightarrow> v \<in> set vs \<Longrightarrow> f \<le> v"
    using assms(1)
    by (auto simp: def_allocate_def bindE_Inr_iff dest!: find_free_values_cases
        split: list.splits pyarg.splits)
  show "d = Scalar nm tot \<Longrightarrow> x \<noteq> ARange vs"
    using assms(1) by (auto simp: def_allocate_def scalar_room_def bindE_Inr_iff
        split: list.splits option.splits if_splits)
qed

lemma range_modify_values:
  "\<lbrakk>range_modify f l als resource cmd res args = Inr r;
    \<forall>v \<in> set res. 0 < v \<longrightarrow> P v;
    \<And>vss v. all_values als = Inr vss \<Longrightarrow> value_free vss v \<Longrightarrow> P v;
    \<And>vs v. resource = Some (ARange vs) \<Longrightarrow> v \<in> set vs \<Longrightarrow> 0 \<le> v\<rbrakk>
   \<Longrightarrow> \<forall>v \<in> set r. 0 < v \<longrightarrow> P v"
proof (induction args arbitrary: cmd res)
  case Nil
  then show ?case by simp
next
  case (Cons arg args)
  show ?case
  proof (cases arg)
    case (PStr c)
    have "range_modify f l als resource (Some c) res args = Inr r" using Cons.prems(1) PStr by simp
    then show ?thesis by (rule Cons.IH [OF _ Cons.prems(2-4)])
  next
    case (PInt param)
    note run = Cons.prems(1) [unfolded PInt range_modify.simps Let_def]
    obtain c where c: "cmd = Some c" using run by (cases cmd) auto
    have "c = ''add'' \<or> c = ''add_specific'' \<or> c = ''release''"
      using run c by (auto split: if_splits)
    then obtain res' where "range_modify f l als resource cmd res' args = Inr r"
      and "\<forall>v \<in> set res'. 0 < v \<longrightarrow> P v"
    proof (elim disjE)
      assume "c = ''add''"
      with run c obtain vs where vs: "find_free_values f l als param = Inr vs"
        and rest: "range_modify f l als resource cmd (fold (\<lambda>v s. set_add s v) vs res) args = Inr r"
        by (auto simp: bindE_Inr_iff)
      have "\<forall>v \<in> set (fold (\<lambda>v s. set_add s v) vs res). 0 < v \<longrightarrow> P v"
        using Cons.prems(2,3) find_free_values_cases [OF vs] by (auto simp: set_fold_set_add)
      with rest show thesis by (rule that)
    next
      assume "c = ''add_specific''"
      with run c obtain vss where "all_values als = Inr vss" "value_free vss param"
        and rest: "range_modify f l als resource cmd (set_add res param) args = Inr r"
        by (auto simp: bindE_Inr_iff split: if_splits)
      then have "\<forall>v \<in> set (set_add res param). 0 < v \<longrightarrow> P v" using Cons.prems(2,3) by auto
      with rest show thesis by (rule that)
    next
      assume "c = ''release''"
      with run c obtain vs where "resource = Some (ARange vs)" "param \<in> set vs"
        and rest: "range_modify f l als resource cmd (set_add res (- param)) args = Inr r"
        by (auto simp: bindE_Inr_iff split: if_splits option.splits allocated.splits)
      then have "\<forall>v \<in> set (set_add res (- param)). 0 < v \<longrightarrow> P v"
        using Cons.prems(2,4) by (metis insert_iff neg_0_less_iff_less not_less set_set_add)
      with rest show thesis by (rule that)
    qed
    then show ?thesis by (rule Cons.IH [OF _ _ Cons.prems(3,4)])
  qed
qed

lemma modify_fits:
  assumes "def_modify d als resource args = Inr x" and "listing h name als" and "map_of D name = Some d"
    and "\<And>vs v. resource = Some (ARange vs) \<Longrightarrow> v \<in> set vs \<Longrightarrow> 0 \<le> v"
  shows "fits D h name x"
proof (cases d)
  case (Range nm f l)
  with assms(1) obtain vs where x: "x = ARange vs"
    and run: "range_modify f l als resource None [] args = Inr vs"
    by (auto simp: def_modify_def bindE_Inr_iff)
  have "\<forall>v \<in> set vs. 0 < v \<longrightarrow> (\<forall>i tr. h i = Some tr \<longrightarrow> v \<notin> range_values name tr)"
    by (rule range_modify_values [OF run]) (use listing_free [OF assms(2)] assms(4) in auto)
  with x Range assms(3) show ?thesis by (simp add: fits_def)
next
  case (Scalar nm tot)
  with assms(1) obtain v where "scalar_room tot als v = Inr x"
    by (auto simp: def_modify_def Let_def split: list.splits option.splits allocated.splits if_splits)
  from scalar_room_fits [OF this assms(2)] Scalar assms(3) show ?thesis by (simp add: fits_def)
qed

section \<open>Every call is a run of the machine\<close>

definition settle :: "resources \<Rightarrow> resources" where
  "settle s = snd (run_update s)"

definition defs_ok :: "(string, resource_def) dict \<Rightarrow> bool" where
  "defs_ok D \<longleftrightarrow> (\<forall>name nm f l. map_of D name = Some (Range nm f l) \<longrightarrow> 0 \<le> f)"

definition simulates :: "time \<Rightarrow> resources \<Rightarrow> resources \<Rightarrow> bool" where
  "simulates t s s' \<longleftrightarrow>
     res_ok t s' \<and> defs s' = defs s \<and> (hold_step (defs s))\<^sup>*\<^sup>* (holders t s) (holders t s')"

lemma settle_idle: "pending s = [] \<Longrightarrow> settle s = s"
  by (simp add: settle_def run_update_def)

lemma simulates_same_view:
  assumes "res_ok t s" and "same_view t s s'"
  shows "simulates t s (settle s')"
proof -
  have "settle s' = s'"
    using assms by (intro settle_idle) (simp add: same_view_fields res_ok_def)
  then show ?thesis
    using assms res_ok_same_view by (simp add: simulates_def same_view_fields)
qed

lemma simulates_step:
  "res_ok t s' \<Longrightarrow> defs s' = defs s \<Longrightarrow> hold_step (defs s) (holders t s) (holders t s') \<Longrightarrow> simulates t s s'"
  by (simp add: simulates_def)

lemma res_put:
  assumes ok: "res_ok t s" and i: "i = id_autoincrement s" and tr: "\<And>a. tr = TAlloc a \<Longrightarrow> alloc_id a = i"
    and s': "s' = s\<lparr>id_autoincrement := i + 1,
                   modifications := xds_put t i tr (Some ALLOCATION_TIMEOUT) True (modifications s)\<rparr>"
  shows "holders t s' = (holders t s)(i \<mapsto> tr)" and "res_ok t s'" and "holders t s i = None"
proof -
  have xok: "xd_ok (modifications s)" using ok by (simp add: res_ok_def)
  have live: "xd_live t (modifications s') = (xd_live t (modifications s))(i \<mapsto>
      \<lparr>item_exp = Some (t + ALLOCATION_TIMEOUT), item_value = tr\<rparr>)"
    using xds.view_put [OF xok, of t i tr "Some ALLOCATION_TIMEOUT" True]
    by (simp add: s' Let_def ALLOCATION_TIMEOUT_def)
  show free: "holders t s i = None"
    using ok i unfolding res_ok_def by (metis less_irrefl_nat)
  then have alloc_free: "map_of (allocations s) i = None"
    by (auto simp: holders_def split: option.splits)
  moreover have "allocations s' = allocations s" by (simp add: s')
  ultimately show h: "holders t s' = (holders t s)(i \<mapsto> tr)"
    by (auto simp: holders_def live fun_eq_iff split: option.splits)
  have "xd_ok (modifications s')" using xds.ok_put [OF xok] by (simp add: s')
  moreover have "allocations s' = allocations s" "pending s' = pending s" "id_autoincrement s' = Suc i"
    by (simp_all add: s')
  ultimately show "res_ok t s'"
    using ok h live tr i alloc_free unfolding res_ok_def by (auto simp: less_Suc_eq)
qed

lemma res_append:
  assumes ok: "res_ok t s" and i: "i = id_autoincrement s" and a: "alloc_id a = i"
    and s': "s' = s\<lparr>id_autoincrement := i + 1, allocations := do_append a (allocations s)\<rparr>"
  shows "holders t s' = (holders t s)(i \<mapsto> TAlloc a)" and "res_ok t s'" and "holders t s i = None"
proof -
  show free: "holders t s i = None"
    using ok i unfolding res_ok_def by (metis less_irrefl_nat)
  then have live: "xd_live t (modifications s) i = None"
    by (auto simp: holders_def split: option.splits)
  show h: "holders t s' = (holders t s)(i \<mapsto> TAlloc a)"
    by (auto simp: holders_def s' do_append_def a dict_simps fun_eq_iff split: option.splits)
  show "res_ok t s'"
    using ok h live a i unfolding res_ok_def
    by (auto simp: s' do_append_def dict_simps less_Suc_eq split: if_splits)
qed

lemma generate_loop_spec:
  assumes "res_ok t s" and "generate_loop f t params acc s = (r, s')"
  shows "same_view t s s' \<and>
    (\<forall>al. r = Inr al \<longrightarrow> (dict_ok acc \<longrightarrow> dict_ok al) \<and>
       (\<forall>name x. map_of al name = Some x \<longrightarrow> map_of acc name = Some x \<or>
          (\<exists>d als args. map_of (defs s) name = Some d \<and> listing (holders t s) name als \<and>
             f name d als args = Inr x)))"
  using assms
proof (induction params arbitrary: acc s)
  case Nil
  then show ?case by (auto simp: res_ok_def intro: same_view_refl)
next
  case (Cons na params)
  obtain name args where na: "na = (name, args)" by (cases na)
  have xok: "xd_ok (modifications s)" using Cons.prems(1) by (simp add: res_ok_def)
  obtain als s1 where get: "get_allocated t name s = (als, s1)" by (cases "get_allocated t name s")
  note view = get_allocated_spec [OF Cons.prems(1) get]
  show ?case
  proof (cases "map_of (defs s) name")
    case None
    with Cons.prems(2) na xok show ?thesis by (auto simp: get_definition_def intro: same_view_refl)
  next
    case (Some d)
    show ?thesis
    proof (cases "f name d als args")
      case (Inl e)
      with Cons.prems(2) na Some get view show ?thesis by (auto simp: get_definition_def)
    next
      case (Inr x)
      with Cons.prems(2) na Some get
      have run: "generate_loop f t params (AList.update name x acc) s1 = (r, s')"
        by (simp add: get_definition_def)
      note IH = Cons.IH [OF res_ok_same_view [OF Cons.prems(1) view(1)] run]
      then have "same_view t s s'" using same_view_trans view(1) by blast
      moreover have "map_of acc n = Some y \<or>
          (\<exists>d als args. map_of (defs s) n = Some d \<and> listing (holders t s) n als \<and> f n d als args = Inr y)"
        if "r = Inr al" "map_of al n = Some y" for al n y
      proof -
        have "map_of (AList.update name x acc) n = Some y \<or>
          (\<exists>d als args. map_of (defs s) n = Some d \<and> listing (holders t s) n als \<and> f n d als args = Inr y)"
          using IH that same_view_fields [OF view(1)] by metis
        then show ?thesis using Some view(2) Inr by (auto simp: dict_simps split: if_splits)
      qed
      ultimately show ?thesis using IH by simp
    qed
  qed
qed

lemma generate_loop_new:
  assumes "res_ok t s" and "generate_loop f t params [] s = (r, s')"
  shows "same_view t s s'" and "r = Inr al \<Longrightarrow> dict_ok al"
    and "r = Inr al \<Longrightarrow> map_of al name = Some x \<Longrightarrow>
      \<exists>d als args. map_of (defs s) name = Some d \<and> listing (holders t s) name als \<and>
        f name d als args = Inr x"
proof -
  note spec = generate_loop_spec [OF assms]
  show "same_view t s s'" "r = Inr al \<Longrightarrow> dict_ok al" using spec by simp_all
  assume "r = Inr al" and "map_of al name = Some x"
  then have "map_of [] name = Some x \<or>
      (\<exists>d als args. map_of (defs s) name = Some d \<and> listing (holders t s) name als \<and>
        f name d als args = Inr x)"
    using spec by blast
  then show "\<exists>d als args. map_of (defs s) name = Some d \<and> listing (holders t s) name als \<and>
        f name d als args = Inr x" by simp
qed

lemma generate_allocation_spec:
  assumes ok: "res_ok t s" and D: "defs_ok (defs s)" and gen: "generate_allocation t params s = (r, s')"
  shows "case r of
      Inl e \<Rightarrow> same_view t s s'
    | Inr a \<Rightarrow> (\<exists>s0. same_view t s s0 \<and> s' = s0\<lparr>id_autoincrement := id_autoincrement s + 1\<rparr> \<and>
        alloc_id a = id_autoincrement s \<and> tr_ok (TAlloc a) \<and>
        (\<forall>name x. transient_for name (TAlloc a) = Some x \<longrightarrow> fits (defs s) (holders t s) name x))"
proof -
  obtain r0 s0 where loop: "generate_loop (\<lambda>name. def_allocate) t params [] s = (r0, s0)"
    by (cases "generate_loop (\<lambda>name. def_allocate) t params [] s")
  note view = generate_loop_new(1) [OF ok loop]
  show ?thesis
  proof (cases r0)
    case (Inl e)
    with gen loop view show ?thesis by (auto simp: generate_allocation_def)
  next
    case (Inr al)
    let ?a = "\<lparr>alloc_id = id_autoincrement s, alloc = al\<rparr>"
    have "id_autoincrement s0 = id_autoincrement s" using view same_view_fields by blast
    with gen loop Inr have r: "r = Inr ?a" and s': "s' = s0\<lparr>id_autoincrement := id_autoincrement s + 1\<rparr>"
      by (auto simp: generate_allocation_def next_id_def)
    note from_def = generate_loop_new(3) [OF ok loop Inr]
    have "0 \<le> v" if held: "map_of al name = Some (ARange vs)" and v: "v \<in> set vs" for name vs v
    proof -
      obtain d als args where d: "map_of (defs s) name = Some d" "listing (holders t s) name als"
        "def_allocate d als args = Inr (ARange vs)"
        using from_def [OF held] by blast
      show ?thesis
      proof (cases d)
        case (Range nm f l)
        with d D have "0 \<le> f" by (auto simp: defs_ok_def)
        also have "f \<le> v" by (rule allocate_fits(2) [OF d(3,2,1) Range refl v])
        finally show ?thesis .
      next
        case (Scalar nm tot)
        from allocate_fits(3) [OF d(3,2,1) this, of vs] show ?thesis by simp
      qed
    qed
    then have "tr_ok (TAlloc ?a)"
      using generate_loop_new(2) [OF ok loop Inr] by (auto simp: tr_ok_def allocation_for_def)
    moreover have "fits (defs s) (holders t s) name x" if "transient_for name (TAlloc ?a) = Some x" for name x
    proof -
      have "map_of al name = Some x" using that by (simp add: transient_for_def allocation_for_def)
      from from_def [OF this] show ?thesis using allocate_fits(1) by blast
    qed
    ultimately show ?thesis using r s' view by auto
  qed
qed

lemma generate_change_spec:
  assumes ok: "res_ok t s" and a: "tr_ok (TAlloc a)" and gen: "generate_allocation_change t a params s = (r, s')"
  shows "case r of
      Inl e \<Rightarrow> same_view t s s'
    | Inr c \<Rightarrow> (\<exists>s0. same_view t s s0 \<and> s' = s0\<lparr>id_autoincrement := id_autoincrement s + 1\<rparr> \<and>
        change_id c = id_autoincrement s \<and>
        (\<forall>name x. transient_for name (TChange c) = Some x \<longrightarrow> fits (defs s) (holders t s) name x))"
proof -
  let ?f = "\<lambda>name d allocs args. def_modify d allocs (map_of (alloc a) name) args"
  obtain r0 s0 where loop: "generate_loop ?f t params [] s = (r0, s0)"
    by (cases "generate_loop ?f t params [] s")
  note view = generate_loop_new(1) [OF ok loop]
  show ?thesis
  proof (cases r0)
    case (Inl e)
    with gen loop view show ?thesis by (auto simp: generate_allocation_change_def)
  next
    case (Inr ds)
    let ?c = "\<lparr>change_id = id_autoincrement s, allocation_id = alloc_id a, deltas = ds\<rparr>"
    have "id_autoincrement s0 = id_autoincrement s" using view same_view_fields by blast
    with gen loop Inr have r: "r = Inr ?c" and s': "s' = s0\<lparr>id_autoincrement := id_autoincrement s + 1\<rparr>"
      by (auto simp: generate_allocation_change_def next_id_def)
    have "fits (defs s) (holders t s) name x" if held: "map_of ds name = Some x" for name x
    proof -
      obtain d als args where "map_of (defs s) name = Some d" "listing (holders t s) name als"
        "def_modify d als (map_of (alloc a) name) args = Inr x"
        using generate_loop_new(3) [OF ok loop Inr held] by blast
      then show ?thesis
        using a by (intro modify_fits) (auto simp: tr_ok_def allocation_for_def)
    qed
    then show ?thesis using r s' view by (auto simp: transient_for_def change_for_def)
  qed
qed

end
