(* ===== verification/ResourceCalls.thy ===== *)
theory ResourceCalls
  imports ResourceSafety
begin

text \<open>
  The public calls of \<open>Resources\<close> one after the other: each call followed by its descriptor
  update is a run of the abstract machine of \<open>ResourceSafety\<close>, hence a whole history of
  calls keeps every limit.  The last section shows what the manager does not promise: two
  confirmations in flight, and a restarted manager.
\<close>

section \<open>Each call is a run of the machine\<close>

lemma settle_fields:
  "pending s = [a] \<Longrightarrow> settle s =
     (case run_action a (allocations s) of
        Inl e \<Rightarrow> s\<lparr>pending := []\<rparr>
      | Inr al \<Rightarrow> s\<lparr>pending := [], allocations := al\<rparr>)"
  by (simp add: settle_def run_update_def split: sum.splits)

lemma preallocate_simulates:
  assumes ok: "res_ok t s" and D: "defs_ok (defs s)"
  shows "simulates t s (settle (snd (preallocate t params s)))"
proof -
  obtain r s1 where gen: "generate_allocation t params s = (r, s1)" by (cases "generate_allocation t params s")
  note spec = generate_allocation_spec [OF ok D gen]
  show ?thesis
  proof (cases r)
    case (Inl e)
    with gen spec have "same_view t s (snd (preallocate t params s))"
      by (cases e) (simp_all add: preallocate_def)
    then show ?thesis by (rule simulates_same_view [OF ok])
  next
    case (Inr a)
    with spec obtain s0 where view: "same_view t s s0"
      and s1: "s1 = s0\<lparr>id_autoincrement := id_autoincrement s + 1\<rparr>"
      and a: "alloc_id a = id_autoincrement s" "tr_ok (TAlloc a)"
      and fit: "\<And>name x. transient_for name (TAlloc a) = Some x \<Longrightarrow> fits (defs s) (holders t s) name x"
      by auto
    note same = same_view_fields [OF view]
    let ?s' = "snd (preallocate t params s)"
    have s': "?s' = s0\<lparr>id_autoincrement := alloc_id a + 1,
        modifications := xds_put t (alloc_id a) (TAlloc a) (Some ALLOCATION_TIMEOUT) True (modifications s0)\<rparr>"
      using gen Inr s1 a(1) by (simp add: preallocate_def)
    note put = res_put [OF res_ok_same_view [OF ok view] _ _ s']
    have "res_ok t ?s'" and h: "holders t ?s' = (holders t s)(alloc_id a \<mapsto> TAlloc a)"
      and free: "holders t s (alloc_id a) = None"
      using put a(1) same by simp_all
    moreover have "hold_step (defs s) (holders t s) (holders t ?s')"
      unfolding h by (rule hold_step.grant [OF free a(2) fit])
    moreover have "defs ?s' = defs s" using s' same by simp
    moreover have "settle ?s' = ?s'" using \<open>res_ok t ?s'\<close> by (simp add: settle_idle res_ok_def)
    ultimately show ?thesis by (simp add: simulates_step)
  qed
qed

lemma premodify_simulates:
  assumes ok: "res_ok t s" and trs: "\<forall>i tr. holders t s i = Some tr \<longrightarrow> tr_ok tr"
  shows "simulates t s (settle (snd (premodify t i params s)))"
proof (cases "map_of (allocations s) i")
  case None
  then show ?thesis
    using simulates_same_view [OF ok same_view_refl] ok by (simp add: premodify_def res_ok_def)
next
  case (Some a)
  then have "holders t s i = Some (TAlloc a)" by (simp add: holders_def)
  with trs have aok: "tr_ok (TAlloc a)" by blast
  obtain r s1 where gen: "generate_allocation_change t a params s = (r, s1)"
    by (cases "generate_allocation_change t a params s")
  note spec = generate_change_spec [OF ok aok gen]
  show ?thesis
  proof (cases r)
    case (Inl e)
    with gen spec Some have "same_view t s (snd (premodify t i params s))"
      by (cases e) (simp_all add: premodify_def)
    then show ?thesis by (rule simulates_same_view [OF ok])
  next
    case (Inr c)
    with spec obtain s0 where view: "same_view t s s0"
      and s1: "s1 = s0\<lparr>id_autoincrement := id_autoincrement s + 1\<rparr>"
      and c: "change_id c = id_autoincrement s"
      and fit: "\<And>name x. transient_for name (TChange c) = Some x \<Longrightarrow> fits (defs s) (holders t s) name x"
      by auto
    note same = same_view_fields [OF view]
    let ?s' = "snd (premodify t i params s)"
    have s': "?s' = s0\<lparr>id_autoincrement := change_id c + 1,
        modifications := xds_put t (change_id c) (TChange c) (Some ALLOCATION_TIMEOUT) True (modifications s0)\<rparr>"
      using gen Inr s1 c Some by (simp add: premodify_def)
    note put = res_put [OF res_ok_same_view [OF ok view] _ _ s']
    have "res_ok t ?s'" and h: "holders t ?s' = (holders t s)(change_id c \<mapsto> TChange c)"
      and free: "holders t s (change_id c) = None"
      using put c same by simp_all
    moreover have "hold_step (defs s) (holders t s) (holders t ?s')"
      unfolding h by (rule hold_step.grant [OF free _ fit]) (simp_all add: tr_ok_def)
    moreover have "defs ?s' = defs s" using s' same by simp
    moreover have "settle ?s' = ?s'" using \<open>res_ok t ?s'\<close> by (simp add: settle_idle res_ok_def)
    ultimately show ?thesis by (simp add: simulates_step)
  qed
qed

lemma allocate_simulates:
  assumes ok: "res_ok t s" and D: "defs_ok (defs s)"
  shows "simulates t s (settle (snd (allocate t params s)))"
proof -
  obtain r s1 where gen: "generate_allocation t params s = (r, s1)" by (cases "generate_allocation t params s")
  note spec = generate_allocation_spec [OF ok D gen]
  show ?thesis
  proof (cases r)
    case (Inl e)
    with gen spec have "same_view t s (snd (allocate t params s))"
      by (simp add: allocate_def)
    then show ?thesis by (rule simulates_same_view [OF ok])
  next
    case (Inr a)
    with spec obtain s0 where view: "same_view t s s0"
      and s1: "s1 = s0\<lparr>id_autoincrement := id_autoincrement s + 1\<rparr>"
      and a: "alloc_id a = id_autoincrement s" "tr_ok (TAlloc a)"
      and fit: "\<And>name x. transient_for name (TAlloc a) = Some x \<Longrightarrow> fits (defs s) (holders t s) name x"
      by auto
    note same = same_view_fields [OF view]
    let ?s' = "settle (snd (allocate t params s))"
    have idle: "pending s0 = []" using ok same by (simp add: res_ok_def)
    have "settle (snd (allocate t params s)) =
        s1\<lparr>pending := [], allocations := do_append a (allocations s1)\<rparr>"
      using gen Inr s1 idle
      by (simp add: allocate_def append_to_descriptor_def settle_fields run_action_def)
    also have "\<dots> = s0\<lparr>id_autoincrement := alloc_id a + 1, allocations := do_append a (allocations s0)\<rparr>"
      using s1 a(1) idle by (simp add: resources.equality)
    finally have s': "?s' = s0\<lparr>id_autoincrement := alloc_id a + 1, allocations := do_append a (allocations s0)\<rparr>" .
    note app = res_append [OF res_ok_same_view [OF ok view] _ refl s']
    have ok': "res_ok t ?s'" and h: "holders t ?s' = (holders t s)(alloc_id a \<mapsto> TAlloc a)"
      and free: "holders t s (alloc_id a) = None"
      using app a(1) same by simp_all
    have step: "hold_step (defs s) (holders t s) (holders t ?s')"
      unfolding h by (rule hold_step.grant [OF free a(2) fit])
    show ?thesis by (rule simulates_step [OF ok' _ step]) (simp add: s' same)
  qed
qed


lemma confirm_simulates:
  assumes ok: "res_ok t s"
  shows "simulates t s (settle (snd (confirm t i s)))"
proof -
  have xok: "xd_ok (modifications s)" and idle: "pending s = []" using ok by (simp_all add: res_ok_def)
  obtain r m where fetch: "xds_fetch t i (modifications s) = (r, m)" by (cases "xds_fetch t i (modifications s)")
  from xds_fetch_eq [OF xok, of t i] fetch
  have r: "r = map_option item_value (xd_live t (modifications s) i)"
    and m: "xd_live t m = (xd_live t (modifications s))(i := None)" "xd_ok m" by simp_all
  show ?thesis
  proof (cases r)
    case None
    with r m have "same_view t s (s\<lparr>modifications := m\<rparr>)" by (intro same_view_mods) auto
    moreover have "snd (confirm t i s) = s\<lparr>modifications := m\<rparr>"
      using None fetch by (simp add: confirm_def split: option.splits)
    ultimately show ?thesis using simulates_same_view [OF ok] by simp
  next
    case (Some tr)
    with r have live: "map_option item_value (xd_live t (modifications s) i) = Some tr" by simp
    then have alloc_none: "map_of (allocations s) i = None"
      using ok unfolding res_ok_def by (metis option.distinct(1) option.exhaust option.simps(8))
    with live have held: "holders t s i = Some tr" by (simp add: holders_def)
    let ?s1 = "append_to_descriptor tr (s\<lparr>modifications := m\<rparr>)"
    have call: "snd (confirm t i s) = ?s1" using Some fetch by (simp add: confirm_def)
    have drop: "holders t (s\<lparr>modifications := m\<rparr>) = (holders t s)(i := None)"
      using m(1) alloc_none by (auto simp: holders_def fun_eq_iff split: option.split)
    show ?thesis
    proof (cases tr)
      case (TAlloc a)
      with held ok have a: "alloc_id a = i" by (auto simp: res_ok_def)
      have s': "settle ?s1 = s\<lparr>modifications := m, allocations := do_append a (allocations s)\<rparr>"
        using idle TAlloc by (simp add: append_to_descriptor_def settle_fields run_action_def)
      have h: "holders t (settle ?s1) = holders t s"
        using m(1) a held TAlloc unfolding s'
        by (auto simp: holders_def do_append_def dict_simps fun_eq_iff split: option.split)
      have "res_ok t (settle ?s1)"
        using ok m a h unfolding res_ok_def by (auto simp: s' do_append_def dict_simps split: if_splits)
      then show ?thesis using call h s' by (simp add: simulates_def)
    next
      case (TChange c)
      have gone: "hold_step (defs s) (holders t s) ((holders t s)(i := None))"
        by (rule hold_step.lose) (simp add: map_le_def)
      show ?thesis
      proof (cases "do_apply_modification c (allocations s)")
        case (Inl e)
        have s': "settle ?s1 = s\<lparr>modifications := m\<rparr>"
          using idle TChange Inl by (simp add: append_to_descriptor_def settle_fields run_action_def)
        have "res_ok t (settle ?s1)"
          using ok m drop unfolding res_ok_def s' by (auto split: if_splits)
        then show ?thesis using call s' drop gone by (simp add: simulates_step)
      next
        case (Inr al)
        then obtain a a' where a: "map_of (allocations s) (allocation_id c) = Some a"
          and app: "allocation_apply a c = Inr a'"
          and al: "al = AList.update (allocation_id c) a' (allocations s)"
          by (auto simp: do_apply_modification_def bindE_Inr_iff split: option.splits)
        let ?j = "allocation_id c"
        have j: "holders t s ?j = Some (TAlloc a)" using a by (simp add: holders_def)
        have s': "settle ?s1 = s\<lparr>modifications := m, allocations := al\<rparr>"
          using idle TChange Inr by (simp add: append_to_descriptor_def settle_fields run_action_def)
        have h: "holders t (settle ?s1) = (holders t s)(i := None, ?j \<mapsto> TAlloc a')"
          using m(1) alloc_none unfolding s'
          by (auto simp: holders_def al dict_simps fun_eq_iff split: option.split)
        have "alloc_id a' = alloc_id a" using app by (auto simp: allocation_apply_def Let_def bindE_Inr_iff)
        then have ids: "alloc_id a' = ?j" using ok j by (auto simp: res_ok_def)
        have keys: "dict_has al k = dict_has (allocations s) k" for k
          using a al by (auto simp: dict_simps)
        have "dict_ok al" using ok al by (simp add: res_ok_def)
        moreover have "k < id_autoincrement s" if "holders t (settle ?s1) k \<noteq> None" for k
          using that ok j unfolding h res_ok_def by (auto split: if_splits)
        moreover have "xd_live t m k = None" if "dict_has al k" for k
          using that keys ok m(1) unfolding res_ok_def by simp
        moreover have "alloc_id b = k" if "holders t (settle ?s1) k = Some (TAlloc b)" for k b
          using that ids ok unfolding h res_ok_def by (auto split: if_splits)
        ultimately have "res_ok t (settle ?s1)"
          using m(2) idle unfolding res_ok_def by (simp add: s')
        moreover have "hold_step (defs s) (holders t s) (holders t (settle ?s1))"
          unfolding h using held TChange j app by (auto intro: hold_step.change)
        ultimately show ?thesis using call s' by (simp add: simulates_step)
      qed
    qed
  qed
qed

lemma release_simulates:
  assumes ok: "res_ok t s"
  shows "simulates t s (settle (snd (release t i s)))"
proof -
  have xok: "xd_ok (modifications s)" and idle: "pending s = []" using ok by (simp_all add: res_ok_def)
  obtain b m where has: "xd_contains (\<lambda>_. t) i (modifications s) = (b, m)"
    by (cases "xd_contains (\<lambda>_. t) i (modifications s)")
  obtain it where "xd_get_item (\<lambda>_. t) i (modifications s) = (it, m)"
    using has by (auto simp: xd_contains_def split: prod.splits)
  note spec = xd_get_item_spec(2,3) [OF xok order_refl this]
  let ?s1 = "s\<lparr>modifications := m\<rparr>"
  have view: "same_view t s ?s1" using spec by (intro same_view_mods) simp_all
  note ok1 = res_ok_same_view [OF ok view]
  show ?thesis
  proof (cases "map_of (allocations s) i")
    case (Some a)
    have "holders t s i = Some (TAlloc a)" using Some by (simp add: holders_def)
    with ok have a: "alloc_id a = i" by (auto simp: res_ok_def)
    have s': "settle (snd (release t i s)) = s\<lparr>modifications := m, allocations := AList.delete i (allocations s)\<rparr>"
      using Some has idle a by (simp add: release_def settle_fields run_action_def do_remove_def)
    have none: "xd_live t m i = None"
      using Some ok same_view_fields(5) [OF view] unfolding res_ok_def by simp
    have h: "holders t (settle (snd (release t i s))) = (holders t s)(i := None)"
      using same_view_fields(5) [OF view] none unfolding s'
      by (auto simp: holders_def dict_simps fun_eq_iff split: option.splits)
    have "res_ok t (settle (snd (release t i s)))"
      using ok ok1 h unfolding res_ok_def s' by (auto simp: dict_simps split: if_splits)
    moreover have "hold_step (defs s) (holders t s) ((holders t s)(i := None))"
      by (rule hold_step.lose) (simp add: map_le_def)
    ultimately show ?thesis using h s' by (simp add: simulates_step)
  next
    case None
    show ?thesis
    proof (cases b)
      case False
      then have "snd (release t i s) = ?s1" using None has by (simp add: release_def)
      then show ?thesis using simulates_same_view [OF ok view] by simp
    next
      case True
      obtain r m' where del: "xd_delitem (\<lambda>_. t) i m = (r, m')" by (cases "xd_delitem (\<lambda>_. t) i m")
      have mok: "xd_ok m" using spec by simp
      note dspec = xd_delitem_spec [OF mok order_refl del]
      have s': "snd (release t i s) = s\<lparr>modifications := m'\<rparr>"
        using True None has del by (cases r) (simp_all add: release_def)
      then have idle': "settle (snd (release t i s)) = s\<lparr>modifications := m'\<rparr>"
        using idle by (simp add: settle_idle)
      have live: "xd_live t m' = (xd_live t (modifications s))(i := None)"
        using dspec(2) same_view_fields(5) [OF view] by simp
      have h: "holders t (s\<lparr>modifications := m'\<rparr>) = (holders t s)(i := None)"
        using live None by (auto simp: holders_def fun_eq_iff split: option.split)
      have "res_ok t (s\<lparr>modifications := m'\<rparr>)"
        using ok dspec(3) h live unfolding res_ok_def by (auto split: if_splits)
      moreover have "hold_step (defs s) (holders t s) ((holders t s)(i := None))"
        by (rule hold_step.lose) (simp add: map_le_def)
      ultimately show ?thesis using h idle' by (simp add: simulates_step)
    qed
  qed
qed


section \<open>Histories of calls\<close>

lemma get_modified_view:
  assumes "res_ok t s" and "get_modified t name s = (als, s')"
  shows "same_view t s s'"
proof -
  have ok: "xd_ok (modifications s)" using assms(1) by (simp add: res_ok_def)
  obtain kvs m where it: "xd_iteritems (\<lambda>_. t) (modifications s) = (kvs, m)"
    by (cases "xd_iteritems (\<lambda>_. t) (modifications s)")
  have "s' = s\<lparr>modifications := m\<rparr>" using assms(2) it by (auto simp: get_modified_def xd_values_def)
  then show ?thesis using xd_iteritems_spec(3,4) [OF ok it] by (auto intro: same_view_mods)
qed

lemma report_loop_view:
  assumes "\<And>name s als s'. res_ok t s \<Longrightarrow> get t name s = (als, s') \<Longrightarrow> same_view t s s'"
  shows "res_ok t s \<Longrightarrow> report_loop get t ds resp s = (r, s') \<Longrightarrow> same_view t s s'"
proof (induction ds arbitrary: resp s)
  case Nil
  then show ?case using same_view_refl by (simp add: res_ok_def)
next
  case (Cons nd ds)
  obtain name d where nd: "nd = (name, d)" by (cases nd)
  obtain als s1 where get: "get t (def_name d) s = (als, s1)" by (cases "get t (def_name d) s")
  note view = assms [OF Cons.prems(1) get]
  show ?case
  proof (cases "def_reduce d als")
    case (Inl e)
    then show ?thesis using Cons.prems(2) nd get view by simp
  next
    case (Inr x)
    then show ?thesis
      using Cons.prems(2) nd get same_view_trans [OF view Cons.IH [OF res_ok_same_view [OF Cons.prems(1) view]]]
      by simp
  qed
qed

lemma report_views:
  assumes "res_ok t s"
  shows "same_view t s (snd (allocated_report t s))" and "same_view t s (snd (preallocated_report t s))"
    and "same_view t s (snd (get_allocation_expiration t i s))"
proof -
  obtain r s1 where "report_loop get_allocated t (defs s) [] s = (r, s1)"
    by (cases "report_loop get_allocated t (defs s) [] s")
  with report_loop_view [of t get_allocated, OF get_allocated_spec(1) assms this]
  show "same_view t s (snd (allocated_report t s))" by (simp add: allocated_report_def)
  obtain r s2 where "report_loop get_modified t (defs s) [] s = (r, s2)"
    by (cases "report_loop get_modified t (defs s) [] s")
  with report_loop_view [of t get_modified, OF get_modified_view assms this]
  show "same_view t s (snd (preallocated_report t s))" by (simp add: preallocated_report_def)
  obtain r m where get: "xd_get_expiration (\<lambda>_. t) i (modifications s) = (r, m)"
    by (cases "xd_get_expiration (\<lambda>_. t) i (modifications s)")
  obtain it where item: "xd_get_item (\<lambda>_. t) i (modifications s) = (it, m)"
    using get by (auto simp: xd_get_expiration_def split: prod.splits option.splits)
  have xok: "xd_ok (modifications s)" using assms by (simp add: res_ok_def)
  show "same_view t s (snd (get_allocation_expiration t i s))"
    using xd_get_item_spec(2,3) [OF xok order_refl item] get
    by (simp add: get_allocation_expiration_def same_view_mods)
qed

datatype res_call =
    Preallocate "(string, pyarg list) dict"
  | Allocate "(string, pyarg list) dict"
  | Confirm rid
  | Premodify rid "(string, pyarg list) dict"
  | Release rid
  | Allocated
  | Preallocated
  | GetExpiration rid

fun res_call_state :: "time \<Rightarrow> res_call \<Rightarrow> resources \<Rightarrow> resources" where
  "res_call_state t (Preallocate params) s = snd (preallocate t params s)"
| "res_call_state t (Allocate params) s = snd (allocate t params s)"
| "res_call_state t (Confirm i) s = snd (confirm t i s)"
| "res_call_state t (Premodify i params) s = snd (premodify t i params s)"
| "res_call_state t (Release i) s = snd (release t i s)"
| "res_call_state t Allocated s = snd (allocated_report t s)"
| "res_call_state t Preallocated s = snd (preallocated_report t s)"
| "res_call_state t (GetExpiration i) s = snd (get_allocation_expiration t i s)"

text \<open>A history: each call's descriptor update completes before the next call.\<close>

definition res_run :: "(time \<times> res_call) list \<Rightarrow> resources \<Rightarrow> resources" where
  "res_run calls s = fold (\<lambda>(t, call) s. settle (res_call_state t call s)) calls s"

lemma call_simulates:
  assumes "res_ok t s" and "defs_ok (defs s)" and "safe (defs s) (holders t s)"
  shows "simulates t s (settle (res_call_state t call s))"
  using assms report_views [OF assms(1)]
  by (cases call)
     (auto simp: safe_def intro: preallocate_simulates allocate_simulates confirm_simulates
        premodify_simulates release_simulates simulates_same_view)

lemma simulates_safe: "simulates t s s' \<Longrightarrow> safe (defs s) (holders t s) \<Longrightarrow> safe (defs s') (holders t s')"
  unfolding simulates_def using hold_run_safe by metis

definition res_inv :: "(string, resource_def) dict \<Rightarrow> time \<Rightarrow> resources \<Rightarrow> bool" where
  "res_inv D t s \<longleftrightarrow> res_ok t s \<and> defs s = D \<and> safe D (holders t s)"

lemma res_inv_later: "res_inv D t s \<Longrightarrow> t \<le> t' \<Longrightarrow> res_inv D t' s"
  unfolding res_inv_def using res_ok_later safe_lose holders_later by blast

lemma res_inv_call: "res_inv D t s \<Longrightarrow> defs_ok D \<Longrightarrow> res_inv D t (settle (res_call_state t call s))"
  unfolding res_inv_def using call_simulates simulates_safe simulates_def by metis

lemma res_inv_run:
  "sorted (map fst calls) \<Longrightarrow> defs_ok D \<Longrightarrow> res_inv D t s \<Longrightarrow> \<forall>x \<in> set calls. t \<le> fst x \<Longrightarrow>
   \<forall>x \<in> set calls. fst x \<le> t' \<Longrightarrow> t \<le> t' \<Longrightarrow> res_inv D t' (res_run calls s)"
proof (induction calls arbitrary: t s)
  case Nil
  then show ?case by (auto simp: res_run_def intro: res_inv_later)
next
  case (Cons x calls)
  obtain u call where x: "x = (u, call)" by (cases x)
  have inv: "res_inv D u (settle (res_call_state u call s))"
    using Cons.prems x by (intro res_inv_call res_inv_later [of D t s u]) auto
  have "res_inv D t' (res_run calls (settle (res_call_state u call s)))"
    by (rule Cons.IH [OF _ _ inv]) (use Cons.prems x in auto)
  then show ?case using x by (simp add: res_run_def)
qed

lemma res_inv_init:
  assumes "\<forall>name nm tot. map_of D name = Some (Scalar nm tot) \<longrightarrow> 0 \<le> tot"
  shows "res_inv D t ((resources_init [])\<lparr>defs := D\<rparr>)"
proof -
  let ?s = "(resources_init [])\<lparr>defs := D\<rparr>"
  have h: "holders t ?s = Map.empty"
    by (simp add: holders_def resources_init_def fun_eq_iff xd_init_def xd_live_def live_view_def)
  have "res_ok t ?s" unfolding res_ok_def h
    by (simp add: resources_init_def xd_ok_def xd_init_def xd_live_def live_view_def)
  moreover have "safe D Map.empty"
    using assms by (auto simp: safe_def within_totals_def exclusive_def usage_def)
  ultimately show ?thesis unfolding res_inv_def h by simp
qed


lemma safe_usage: "safe D h \<Longrightarrow> map_of D name = Some (Scalar nm tot) \<Longrightarrow> usage h name \<le> tot"
  by (auto simp: safe_def within_totals_def)

lemma safe_disjoint:
  "safe D h \<Longrightarrow> i \<noteq> j \<Longrightarrow> h i = Some tr \<Longrightarrow> h j = Some tr' \<Longrightarrow> v \<in> range_values name tr \<Longrightarrow>
   v \<in> range_values name tr' \<Longrightarrow> v \<le> 0"
  unfolding safe_def exclusive_def by (meson not_le)

text \<open>C8: Whatever sequence of public calls a fresh resource manager with an empty descriptor receives,
  at non-decreasing times and with every call's descriptor update completed before the next call
  (a call that comes while an update is in flight is outside of the claim), and whatever
  preallocation expires in between: at any later time the holders of a scalar resource
  (confirmed allocations, preallocations, pending modifications) together hold no more than its
  total, and no positive value of a range is held twice.\<close>

theorem resources_never_overcommitted:
  assumes "sorted (map fst calls)" and "\<forall>x \<in> set calls. 0 \<le> fst x \<and> fst x \<le> t"
    and "\<forall>name nm f l. map_of D name = Some (Range nm f l) \<longrightarrow> 0 \<le> f"
    and "\<forall>name nm tot. map_of D name = Some (Scalar nm tot) \<longrightarrow> 0 \<le> tot" and "0 \<le> t"
  defines "s \<equiv> res_run calls ((resources_init [])\<lparr>defs := D\<rparr>)"
  shows "(\<forall>name nm tot. map_of D name = Some (Scalar nm tot) \<longrightarrow> usage (holders t s) name \<le> tot) \<and>
    (\<forall>name i j tr tr' v. i \<noteq> j \<and> holders t s i = Some tr \<and> holders t s j = Some tr' \<and>
       v \<in> range_values name tr \<and> v \<in> range_values name tr' \<longrightarrow> v \<le> 0)"
proof -
  have "res_inv D t s"
    unfolding s_def
    by (rule res_inv_run [OF assms(1) _ res_inv_init [OF assms(4), of 0]])
       (use assms(2,3,5) in \<open>auto simp: defs_ok_def\<close>)
  then have safe: "safe D (holders t s)" by (simp add: res_inv_def)
  show ?thesis using safe_usage [OF safe] safe_disjoint [OF safe] by metis
qed

text \<open>A manager with four cores and two ports: two preallocations, the third request is refused.\<close>

definition demo_defs :: "(string, resource_def) dict" where
  "demo_defs = [(''cpu'', Scalar ''cpu'' 4), (''port'', Range ''port'' 10 11)]"

definition demo_calls :: "(time \<times> res_call) list" where
  "demo_calls =
     [(1, Preallocate [(''cpu'', [PInt 3]), (''port'', [PInt 1])]),
      (2, Confirm 1),
      (2, Allocate [(''port'', [PInt 1])]),
      (3, Preallocate [(''cpu'', [PInt 2])]),
      (4, Premodify 1 [(''cpu'', [PInt 1])]),
      (5, Confirm 3)]"

lemma resources_never_overcommitted_witness:
  "usage (holders 6 (res_run demo_calls ((resources_init [])\<lparr>defs := demo_defs\<rparr>))) ''cpu'' \<le> 4"
  by (rule conjunct1 [OF resources_never_overcommitted [of demo_calls 6 demo_defs], rule_format, of "''cpu''" "''cpu''"])
     (auto simp: demo_calls_def demo_defs_def split: if_splits)

section \<open>What is not promised\<close>

lemma confirm_window:
  assumes ok: "res_ok t s" and free: "map_of (allocations s) i = None" and held: "holders t s i = Some (TAlloc a)"
  shows "fst (confirm t i s) = Inr RepFiber" "holders t (snd (confirm t i s)) = (holders t s)(i := None)"
    "holders t (settle (snd (confirm t i s))) = holders t s"
proof -
  have xok: "xd_ok (modifications s)" and idle: "pending s = []" using ok by (simp_all add: res_ok_def)
  obtain r m where fetch: "xds_fetch t i (modifications s) = (r, m)" by (cases "xds_fetch t i (modifications s)")
  from xds_fetch_eq [OF xok, of t i] fetch
  have r: "r = map_option item_value (xd_live t (modifications s) i)"
    and m: "xd_live t m = (xd_live t (modifications s))(i := None)" by simp_all
  have "r = Some (TAlloc a)" using r held free by (simp add: holders_def)
  then have call: "confirm t i s = (Inr RepFiber, append_to_descriptor (TAlloc a) (s\<lparr>modifications := m\<rparr>))"
    using fetch by (simp add: confirm_def)
  have a: "alloc_id a = i" using held ok by (auto simp: res_ok_def)
  show "fst (confirm t i s) = Inr RepFiber" by (simp add: call)
  show "holders t (snd (confirm t i s)) = (holders t s)(i := None)"
    using m free by (auto simp: call append_to_descriptor_def holders_def fun_eq_iff split: option.split)
  have s': "settle (snd (confirm t i s)) = s\<lparr>modifications := m, allocations := do_append a (allocations s)\<rparr>"
    using idle by (simp add: call append_to_descriptor_def settle_fields run_action_def)
  show "holders t (settle (snd (confirm t i s))) = holders t s"
    using m a held unfolding s' by (auto simp: holders_def do_append_def dict_simps fun_eq_iff split: option.split)
qed


definition one_asked :: resources where
  "one_asked = res_run [(0, Preallocate [(''cpu'', [PInt 1])])] ((resources_init [])\<lparr>defs := [(''cpu'', Scalar ''cpu'' 1)]\<rparr>)"


text \<open>With one core in total, preallocating, confirming, and preallocating and confirming again before the
  first update ran leaves two confirmed allocations of one core each.\<close>

theorem confirm_window_overcommits:
  "let s0 = (resources_init [])\<lparr>defs := [(''cpu'', Scalar ''cpu'' 1)]\<rparr>;
       req = [(''cpu'', [PInt 1])];
       s1 = snd (confirm 0 1 (snd (preallocate 0 req s0)));
       (r, s2) = preallocate 0 req s1;
       s3 = snd (confirm 0 2 s2)
   in r = Inr (RepAlloc \<lparr>alloc_id = 2, alloc = [(''cpu'', AScalar 1)]\<rparr>) \<and>
      allocations (settle (settle s3)) =
        [(1, \<lparr>alloc_id = 1, alloc = [(''cpu'', AScalar 1)]\<rparr>), (2, \<lparr>alloc_id = 2, alloc = [(''cpu'', AScalar 1)]\<rparr>)]"
  by code_simp

text \<open>A manager that starts over a descriptor that already holds allocations numbers from 1
  again: its first allocation replaces the confirmed allocation of that number, whose scalar is
  then no longer accounted for.\<close>

theorem restart_overwrites_allocation:
  "let old = [(1, \<lparr>alloc_id = 1, alloc = [(''cpu'', AScalar 2)]\<rparr>)];
       s0 = (resources_init old)\<lparr>defs := [(''cpu'', Scalar ''cpu'' 4)]\<rparr>;
       (r, s1) = allocate 0 [(''cpu'', [PInt 1])] s0
   in r = Inr RepFiber \<and>
      allocations (settle s1) = [(1, \<lparr>alloc_id = 1, alloc = [(''cpu'', AScalar 1)]\<rparr>)]"
  by code_simp

end
