(* ===== verification/Patient.thy ===== *)
theory Patient
  imports Prelude
begin

text \<open>
  Heart monitoring, \<open>src/src/feat/agents/monitor/intensive_care.py\<close> and the defaults of
  \<open>interface.py\<close> beside it: the record \<open>Patient\<close> with its state machine, and
  \<open>IntensiveCare\<close>, which checks its patients periodically and tells a doctor what changed.

  Patients are objects that the intensive care and the doctor share: a heap lists them, a
  reference is an index into it.  The doctor is a record of its callbacks, each given the time
  and the heap it may read; the locale \<open>doctor_laws\<close> is what the intensive care relies on.
\<close>

section \<open>Patients\<close>

datatype patient_state = Alive | Dying | Dead

record patient =
  pt_key :: string
  pt_location :: string
  pt_type :: "string option"
  pt_period :: time
  pt_dying_skips :: rat
  pt_death_skips :: rat
  pt_last_state :: patient_state
  pt_state :: patient_state
  pt_last_beat :: time
  pt_counter :: nat

definition DEFAULT_HEARTBEAT_PERIOD :: time where "DEFAULT_HEARTBEAT_PERIOD = 12"
definition DEFAULT_DEATH_SKIPS :: rat where "DEFAULT_DEATH_SKIPS = 3"
definition DEFAULT_DYING_SKIPS :: rat where "DEFAULT_DYING_SKIPS = 3 / 2"
definition DEFAULT_CONTROL_PERIOD :: time where "DEFAULT_CONTROL_PERIOD = DEFAULT_HEARTBEAT_PERIOD / 3"
definition PATIENT_RESET_EXTRA :: rat where "PATIENT_RESET_EXTRA = 2 / 3"

text \<open>\<open>x or default\<close> for a number that may be \<open>None\<close>.\<close>

definition num_or :: "rat option \<Rightarrow> rat \<Rightarrow> rat" where
  "num_or x d = (case x of None \<Rightarrow> d | Some v \<Rightarrow> if v = 0 then d else v)"

definition patient_reset :: "time \<Rightarrow> rat \<Rightarrow> patient \<Rightarrow> patient" where
  "patient_reset beat_time extra p =
     p\<lparr>pt_last_beat := beat_time + pt_period p * extra, pt_counter := 0\<rparr>"

definition mk_patient ::
  "string \<Rightarrow> string \<Rightarrow> time \<Rightarrow> rat option \<Rightarrow> rat option \<Rightarrow> rat option \<Rightarrow> string option \<Rightarrow> exn + patient" where
  "mk_patient key location beat_time period dying_skips death_skips patient_type =
     (let p = patient_reset beat_time 0
        \<lparr>pt_key = key, pt_location = location, pt_type = patient_type,
         pt_period = num_or period DEFAULT_HEARTBEAT_PERIOD,
         pt_dying_skips = num_or dying_skips DEFAULT_DYING_SKIPS,
         pt_death_skips = num_or death_skips DEFAULT_DEATH_SKIPS,
         pt_last_state = Alive, pt_state = Alive, pt_last_beat = 0, pt_counter = 0\<rparr> in
      if pt_dying_skips p \<le> pt_death_skips p then Inr p else Inl AssertionError)"

definition patient_beat :: "time \<Rightarrow> patient \<Rightarrow> patient" where
  "patient_beat beat_time p =
     p\<lparr>pt_counter := pt_counter p + 1,
       pt_last_beat := if beat_time > pt_last_beat p then beat_time else pt_last_beat p\<rparr>"

definition patient_check :: "time \<Rightarrow> patient \<Rightarrow> patient" where
  "patient_check ref_time p =
     (let delta = ref_time - pt_last_beat p;
          state =
            (if delta > pt_period p
             then (if delta > pt_death_skips p * pt_period p then Dead
                   else if delta > pt_dying_skips p * pt_period p then Dying
                   else Alive)
             else Alive) in
      p\<lparr>pt_last_state := pt_state p, pt_state := state\<rparr>)"

section \<open>Intensive care\<close>

text \<open>What the intensive care calls on its doctor; a callback reads the heap and changes the
  doctor's own state.\<close>

record 'd doctor =
  on_added :: "time \<Rightarrow> patient list \<Rightarrow> nat \<Rightarrow> 'd \<Rightarrow> (exn + unit) \<times> 'd"
  on_removed :: "time \<Rightarrow> patient list \<Rightarrow> nat \<Rightarrow> 'd \<Rightarrow> (exn + unit) \<times> 'd"
  on_dying :: "time \<Rightarrow> patient list \<Rightarrow> nat \<Rightarrow> 'd \<Rightarrow> (exn + unit) \<times> 'd"
  on_died :: "time \<Rightarrow> patient list \<Rightarrow> nat \<Rightarrow> 'd \<Rightarrow> (exn + unit) \<times> 'd"
  on_resurrected :: "time \<Rightarrow> patient list \<Rightarrow> nat \<Rightarrow> 'd \<Rightarrow> (exn + unit) \<times> 'd"

text \<open>\<open>ic_task\<close> is the period of the running \<open>CheckPatientTask\<close>, \<open>ic_collectors\<close> the number
  of times the heart-beat collector was registered.\<close>

record 'd icare =
  ic_heap :: "patient list"
  ic_patients :: "(string, nat) dict"
  ic_control_period :: time
  ic_task :: "time option"
  ic_collectors :: nat
  ic_last_check :: "time option"
  ic_skip_checks :: "nat option"
  ic_doctor :: 'd

definition ic_init :: "time option \<Rightarrow> 'd \<Rightarrow> 'd icare" where
  "ic_init control_period d =
     \<lparr>ic_heap = [], ic_patients = [],
      ic_control_period = num_or control_period DEFAULT_CONTROL_PERIOD,
      ic_task = None, ic_collectors = 0, ic_last_check = None, ic_skip_checks = None, ic_doctor = d\<rparr>"

definition ic_beat :: "time \<Rightarrow> string \<Rightarrow> 'd icare \<Rightarrow> 'd icare" where
  "ic_beat now key s =
     (case map_of (ic_patients s) key of
        None \<Rightarrow> s
      | Some r \<Rightarrow> s\<lparr>ic_heap := (ic_heap s)[r := patient_beat now (ic_heap s ! r)]\<rparr>)"

definition ic_pause :: "'d icare \<Rightarrow> 'd icare" where
  "ic_pause s = (case ic_task s of None \<Rightarrow> s | Some _ \<Rightarrow> s\<lparr>ic_task := None\<rparr>)"

definition ic_resume :: "time \<Rightarrow> 'd icare \<Rightarrow> 'd icare" where
  "ic_resume now s =
     (case ic_task s of
        Some _ \<Rightarrow> s
      | None \<Rightarrow>
          s\<lparr>ic_heap := fold (\<lambda>(k, r) h. h[r := patient_reset now PATIENT_RESET_EXTRA (h ! r)])
              (ic_patients s) (ic_heap s),
            ic_collectors := ic_collectors s + 1,
            ic_task := Some (ic_control_period s)\<rparr>)"

definition ic_has_patient :: "string \<Rightarrow> 'd icare \<Rightarrow> bool" where
  "ic_has_patient key s = dict_has (ic_patients s) key"

definition ic_get_patient :: "string \<Rightarrow> 'd icare \<Rightarrow> patient option" where
  "ic_get_patient key s = map_option (\<lambda>r. ic_heap s ! r) (map_of (ic_patients s) key)"

definition ic_iter_patients :: "'d icare \<Rightarrow> patient list" where
  "ic_iter_patients s = map (\<lambda>(k, r). ic_heap s ! r) (ic_patients s)"

definition call_doctor :: "('d \<Rightarrow> (exn + unit) \<times> 'd) \<Rightarrow> 'd icare \<Rightarrow> (exn + unit) \<times> 'd icare" where
  "call_doctor f s = (case f (ic_doctor s) of (r, d) \<Rightarrow> (r, s\<lparr>ic_doctor := d\<rparr>))"

definition ic_add_patient ::
  "'d doctor \<Rightarrow> time \<Rightarrow> string \<Rightarrow> string \<Rightarrow> rat option \<Rightarrow> rat option \<Rightarrow> rat option \<Rightarrow> string option \<Rightarrow>
   'd icare \<Rightarrow> (exn + unit) \<times> 'd icare" where
  "ic_add_patient doc now key location period dying_skips death_skips patient_type s =
     (if dict_has (ic_patients s) key then (Inl AssertionError, s)
      else case mk_patient key location now period dying_skips death_skips patient_type of
        Inl e \<Rightarrow> (Inl e, s)
      | Inr p \<Rightarrow>
          (let r = length (ic_heap s); h = ic_heap s @ [p] in
           call_doctor (on_added doc now h r)
             (s\<lparr>ic_heap := h, ic_patients := AList.update key r (ic_patients s)\<rparr>)))"

definition ic_remove_patient :: "'d doctor \<Rightarrow> time \<Rightarrow> string \<Rightarrow> 'd icare \<Rightarrow> (exn + unit) \<times> 'd icare" where
  "ic_remove_patient doc now key s =
     (case map_of (ic_patients s) key of
        None \<Rightarrow> (Inr (), s)
      | Some r \<Rightarrow>
          (case call_doctor (on_removed doc now (ic_heap s) r) s of
             (Inl e, s) \<Rightarrow> (Inl e, s)
           | (Inr _, s) \<Rightarrow> (Inr (), s\<lparr>ic_patients := AList.delete key (ic_patients s)\<rparr>)))"

text \<open>The chain of tests in \<open>check_patients\<close> that picks the callback, if any.\<close>

definition change_callback ::
  "'d doctor \<Rightarrow> patient_state \<Rightarrow> patient_state \<Rightarrow>
   (time \<Rightarrow> patient list \<Rightarrow> nat \<Rightarrow> 'd \<Rightarrow> (exn + unit) \<times> 'd) option" where
  "change_callback doc before after =
     (if before = after then None
      else if before = Alive \<and> after = Dying then Some (on_dying doc)
      else if after = Dead then Some (on_died doc)
      else if after = Alive then Some (on_resurrected doc)
      else None)"

fun check_loop :: "'d doctor \<Rightarrow> time \<Rightarrow> nat list \<Rightarrow> 'd icare \<Rightarrow> (exn + unit) \<times> 'd icare" where
  "check_loop doc now [] s = (Inr (), s)"
| "check_loop doc now (r # rs) s =
     (let p = patient_check now (ic_heap s ! r);
          s = s\<lparr>ic_heap := (ic_heap s)[r := p]\<rparr> in
      case change_callback doc (pt_last_state p) (pt_state p) of
        None \<Rightarrow> check_loop doc now rs s
      | Some f \<Rightarrow>
          (case call_doctor (f now (ic_heap s) r) s of
             (Inl e, s) \<Rightarrow> (Inl e, s)
           | (Inr _, s) \<Rightarrow> check_loop doc now rs s))"

definition ic_check_patients :: "'d doctor \<Rightarrow> time \<Rightarrow> 'd icare \<Rightarrow> (exn + unit) \<times> 'd icare" where
  "ic_check_patients doc ref_time s =
     (let s = (case ic_last_check s of
                 None \<Rightarrow> s
               | Some epoch \<Rightarrow>
                   if ref_time - epoch > 2 * ic_control_period s
                   then s\<lparr>ic_skip_checks := Some 3\<rparr> else s);
          s = s\<lparr>ic_last_check := Some ref_time\<rparr> in
      case ic_skip_checks s of
        Some (Suc n) \<Rightarrow> (Inr (), s\<lparr>ic_skip_checks := Some n\<rparr>)
      | _ \<Rightarrow> check_loop doc ref_time (map snd (ic_patients s)) s)"

end
