(* ===== verification/Intensive.thy ===== *)
theory Intensive
  imports Patient
begin

text \<open>
  Properties of the intensive care.  A patient's state is a function of the time since its last
  beat; a wake-up from suspension skips three checks; and for any doctor that keeps the laws of
  the locale \<open>doctor_laws\<close>, no operation raises and the doctor admits exactly the patients of
  the intensive care.
\<close>

section \<open>Beats and checks of one patient\<close>

datatype heart_event = Beat time | Check time

fun heart_step :: "heart_event \<Rightarrow> patient \<Rightarrow> patient" where
  "heart_step (Beat t) p = patient_beat t p"
| "heart_step (Check t) p = patient_check t p"

fun event_time :: "heart_event \<Rightarrow> time" where
  "event_time (Beat t) = t"
| "event_time (Check t) = t"

definition last_heard :: "heart_event list \<Rightarrow> time \<Rightarrow> time" where
  "last_heard evs t0 = fold (\<lambda>e t. case e of Beat u \<Rightarrow> max u t | Check _ \<Rightarrow> t) evs t0"

lemma heart_run_fields:
  "pt_last_beat (fold heart_step evs p) = last_heard evs (pt_last_beat p)"
  "pt_period (fold heart_step evs p) = pt_period p"
  "pt_dying_skips (fold heart_step evs p) = pt_dying_skips p"
  "pt_death_skips (fold heart_step evs p) = pt_death_skips p"
proof (induction evs arbitrary: p)
  case (Cons e evs)
  { case 1 show ?case using Cons.IH(1)
      by (cases e) (auto simp: last_heard_def patient_beat_def patient_check_def Let_def max_def) }
  { case 2 show ?case using Cons.IH(2) by (cases e) (simp_all add: patient_beat_def patient_check_def Let_def) }
  { case 3 show ?case using Cons.IH(3) by (cases e) (simp_all add: patient_beat_def patient_check_def Let_def) }
  { case 4 show ?case using Cons.IH(4) by (cases e) (simp_all add: patient_beat_def patient_check_def Let_def) }
qed (simp_all add: last_heard_def)

definition silent_for :: "heart_event list \<Rightarrow> patient \<Rightarrow> time \<Rightarrow> time" where
  "silent_for evs p t = t - last_heard evs (pt_last_beat p)"

lemma fold_snoc_check:
  "fold heart_step (evs @ [Check t]) p = patient_check t (fold heart_step evs p)"
  by simp

text \<open>After any history of beats and checks, the state a check at time \<open>t\<close> gives a patient
  depends only on how long it was silent: dead beyond \<open>death_skips\<close> periods, dying beyond
  \<open>dying_skips\<close> periods, alive otherwise.  In particular a patient that beats at least once in
  every \<open>dying_skips\<close> periods is never reported, and a silent one is dead at the first check
  after \<open>death_skips\<close> periods.\<close>

theorem check_measures_silence:
  assumes "0 < pt_period p" and "1 \<le> pt_dying_skips p" and "pt_dying_skips p \<le> pt_death_skips p"
  shows "pt_state (fold heart_step (evs @ [Check t]) p) =
    (if silent_for evs p t > pt_death_skips p * pt_period p then Dead
     else if silent_for evs p t > pt_dying_skips p * pt_period p then Dying
     else Alive)"
proof -
  have "pt_period p \<le> pt_dying_skips p * pt_period p" "pt_period p \<le> pt_death_skips p * pt_period p"
    using assms by (simp_all add: mult_le_cancel_right1)
  then show ?thesis
    unfolding fold_snoc_check silent_for_def
    by (auto simp: patient_check_def Let_def heart_run_fields)
qed

text \<open>With the defaults (a period of 12, 1.5 and 3 skips): silent since 0, dying at 20, heard at
  30, alive at 40, dead at 70.\<close>

lemma check_measures_silence_witness:
  "(case mk_patient ''a'' ''host'' 0 None None None None of
      Inl _ \<Rightarrow> False
    | Inr p \<Rightarrow> 0 < pt_period p \<and>
        pt_state (fold heart_step ([] @ [Check 20]) p) = Dying \<and>
        pt_state (fold heart_step ([Check 20, Beat 30] @ [Check 40]) p) = Alive \<and>
        pt_state (fold heart_step ([Check 20, Beat 30, Check 40] @ [Check 70]) p) = Dead)"
proof -
  obtain p where p: "mk_patient ''a'' ''host'' 0 None None None None = Inr p"
    "pt_period p = 12" "pt_dying_skips p = 3 / 2" "pt_death_skips p = 3" "pt_last_beat p = 0"
    by (simp add: mk_patient_def patient_reset_def num_or_def Let_def DEFAULT_HEARTBEAT_PERIOD_def
        DEFAULT_DYING_SKIPS_def DEFAULT_DEATH_SKIPS_def)
  have hyps: "0 < pt_period p" "1 \<le> pt_dying_skips p" "pt_dying_skips p \<le> pt_death_skips p"
    using p by simp_all
  have "pt_state (fold heart_step ([] @ [Check 20]) p) = Dying"
    "pt_state (fold heart_step ([Check 20, Beat 30] @ [Check 40]) p) = Alive"
    "pt_state (fold heart_step ([Check 20, Beat 30, Check 40] @ [Check 70]) p) = Dead"
    unfolding check_measures_silence [OF hyps] using p by (simp_all add: silent_for_def last_heard_def)
  then show ?thesis using p hyps by simp
qed

section \<open>Waking up\<close>

lemma check_gap:
  assumes "ic_last_check s = Some e" "t - e \<le> 2 * ic_control_period s"
  shows "ic_check_patients doc t s =
    (case ic_skip_checks s of
       Some (Suc n) \<Rightarrow> (Inr (), s\<lparr>ic_last_check := Some t, ic_skip_checks := Some n\<rparr>)
     | _ \<Rightarrow> check_loop doc t (map snd (ic_patients s)) (s\<lparr>ic_last_check := Some t\<rparr>))"
  using assms by (simp add: ic_check_patients_def Let_def split: option.split nat.split)

lemma check_wakeup:
  assumes "ic_last_check s = Some e" "t - e > 2 * ic_control_period s"
  shows "ic_check_patients doc t s = (Inr (), s\<lparr>ic_last_check := Some t, ic_skip_checks := Some 2\<rparr>)"
  using assms by (simp add: ic_check_patients_def Let_def numeral_3_eq_3 numeral_2_eq_2)

text \<open>When a check comes more than two control periods after the previous one (the monitor was
  suspended), it and the next two checks examine nobody and call nobody; the fourth examines
  every patient again.\<close>

theorem wakeup_skips_three_checks:
  fixes s :: "'d icare" and doc :: "'d doctor"
  assumes "ic_last_check s = Some e" and "t0 - e > 2 * ic_control_period s"
    and "t1 - t0 \<le> 2 * ic_control_period s" and "t2 - t1 \<le> 2 * ic_control_period s"
    and "t3 - t2 \<le> 2 * ic_control_period s"
  defines "s1 \<equiv> snd (ic_check_patients doc t0 s)"
  defines "s2 \<equiv> snd (ic_check_patients doc t1 s1)"
  defines "s3 \<equiv> snd (ic_check_patients doc t2 s2)"
  shows "s3 = s\<lparr>ic_last_check := Some t2, ic_skip_checks := Some 0\<rparr> \<and>
    ic_check_patients doc t3 s3 =
      check_loop doc t3 (map snd (ic_patients s)) (s\<lparr>ic_skip_checks := Some 0, ic_last_check := Some t3\<rparr>)"
proof -
  have s1: "s1 = s\<lparr>ic_last_check := Some t0, ic_skip_checks := Some 2\<rparr>"
    unfolding s1_def check_wakeup [OF assms(1,2)] by simp
  have s2: "s2 = s\<lparr>ic_last_check := Some t1, ic_skip_checks := Some 1\<rparr>"
    unfolding s2_def using check_gap [of s1 t0 t1 doc] assms(3) by (simp add: s1 numeral_2_eq_2)
  have s3: "s3 = s\<lparr>ic_last_check := Some t2, ic_skip_checks := Some 0\<rparr>"
    unfolding s3_def using check_gap [of s2 t1 t2 doc] assms(4) by (simp add: s2)
  then show ?thesis using check_gap [of s3 t2 t3 doc] assms(5) by simp
qed

definition quiet_doctor :: "unit doctor" where
  "quiet_doctor =
     \<lparr>on_added = \<lambda>_ _ _ d. (Inr (), d), on_removed = \<lambda>_ _ _ d. (Inr (), d), on_dying = \<lambda>_ _ _ d. (Inr (), d),
      on_died = \<lambda>_ _ _ d. (Inr (), d), on_resurrected = \<lambda>_ _ _ d. (Inr (), d)\<rparr>"

lemma wakeup_skips_three_checks_witness:
  "let s = (ic_init None ())\<lparr>ic_last_check := Some 0\<rparr>;
       s3 = snd (ic_check_patients quiet_doctor 108 (snd (ic_check_patients quiet_doctor 104
              (snd (ic_check_patients quiet_doctor 100 s)))))
   in ic_skip_checks s3 = Some 0 \<and> ic_last_check s3 = Some 108"
  using wakeup_skips_three_checks [of "(ic_init None ())\<lparr>ic_last_check := Some 0\<rparr>" 0 100 104 108 112 quiet_doctor]
  by (simp add: ic_init_def num_or_def DEFAULT_CONTROL_PERIOD_def DEFAULT_HEARTBEAT_PERIOD_def Let_def)

section \<open>The intensive care and its doctor\<close>

definition same_people :: "patient list \<Rightarrow> patient list \<Rightarrow> bool" where
  "same_people h h' \<longleftrightarrow>
     (\<forall>r < length h. r < length h' \<and> pt_key (h' ! r) = pt_key (h ! r) \<and> pt_location (h' ! r) = pt_location (h ! r))"

definition returns :: "(exn + unit) \<times> 'd \<Rightarrow> ('d \<Rightarrow> bool) \<Rightarrow> bool" where
  "returns r P \<longleftrightarrow> fst r = Inr () \<and> P (snd r)"

text \<open>The table of patients against the heap and the doctor: \<open>dinv\<close> is the doctor's invariant,
  \<open>admitted\<close> says which patients it treats.\<close>

definition care_inv ::
  "(patient list \<Rightarrow> 'd \<Rightarrow> bool) \<Rightarrow> (patient list \<Rightarrow> 'd \<Rightarrow> nat \<Rightarrow> bool) \<Rightarrow> 'd icare \<Rightarrow> bool" where
  "care_inv dinv admitted s \<longleftrightarrow>
     dict_ok (ic_patients s) \<and> dinv (ic_heap s) (ic_doctor s) \<and>
     (\<forall>k r. map_of (ic_patients s) k = Some r \<longrightarrow> r < length (ic_heap s) \<and> pt_key (ic_heap s ! r) = k) \<and>
     (\<forall>r. admitted (ic_heap s) (ic_doctor s) r \<longleftrightarrow> (\<exists>k. map_of (ic_patients s) k = Some r))"

lemma care_inv_parts:
  assumes "care_inv dinv admitted s"
  shows "dict_ok (ic_patients s)" "dinv (ic_heap s) (ic_doctor s)"
    "map_of (ic_patients s) k = Some r \<Longrightarrow> r < length (ic_heap s) \<and> pt_key (ic_heap s ! r) = k"
    "admitted (ic_heap s) (ic_doctor s) r \<longleftrightarrow> (\<exists>k. map_of (ic_patients s) k = Some r)"
  using assms unfolding care_inv_def by blast+

lemma same_people_update:
  "r < length h \<Longrightarrow> pt_key p = pt_key (h ! r) \<Longrightarrow> pt_location p = pt_location (h ! r) \<Longrightarrow> same_people h (h[r := p])"
  by (auto simp: same_people_def nth_list_update)

lemma same_people_refl [simp]: "same_people h h"
  by (simp add: same_people_def)

lemma same_people_trans: "same_people h h' \<Longrightarrow> same_people h' h'' \<Longrightarrow> same_people h h''"
  by (simp add: same_people_def)

lemma patient_ops_people [simp]:
  "pt_key (patient_check t p) = pt_key p" "pt_location (patient_check t p) = pt_location p"
  "pt_key (patient_beat t p) = pt_key p" "pt_location (patient_beat t p) = pt_location p"
  "pt_key (patient_reset t x p) = pt_key p" "pt_location (patient_reset t x p) = pt_location p"
  by (simp_all add: patient_check_def patient_beat_def patient_reset_def Let_def)

locale doctor_laws =
  fixes doc :: "'d doctor"
    and dinv :: "patient list \<Rightarrow> 'd \<Rightarrow> bool"
    and admitted :: "patient list \<Rightarrow> 'd \<Rightarrow> nat \<Rightarrow> bool"
  assumes inv_people: "dinv h d \<Longrightarrow> same_people h h' \<Longrightarrow> dinv h' d"
    and admitted_people: "dinv h d \<Longrightarrow> same_people h h' \<Longrightarrow> admitted h' d r \<longleftrightarrow> admitted h d r"
    and added: "dinv h d \<Longrightarrow> r < length h \<Longrightarrow> (\<And>q. admitted h d q \<Longrightarrow> pt_key (h ! q) \<noteq> pt_key (h ! r)) \<Longrightarrow>
      returns (on_added doc now h r d) (\<lambda>d'. dinv h d' \<and> (\<forall>q. admitted h d' q \<longleftrightarrow> q = r \<or> admitted h d q))"
    and removed: "dinv h d \<Longrightarrow> admitted h d r \<Longrightarrow>
      returns (on_removed doc now h r d) (\<lambda>d'. dinv h d' \<and> (\<forall>q. admitted h d' q \<longleftrightarrow> q \<noteq> r \<and> admitted h d q))"
    and dying: "dinv h d \<Longrightarrow> admitted h d r \<Longrightarrow>
      returns (on_dying doc now h r d) (\<lambda>d'. dinv h d' \<and> (\<forall>q. admitted h d' q \<longleftrightarrow> admitted h d q))"
    and died: "dinv h d \<Longrightarrow> admitted h d r \<Longrightarrow> pt_state (h ! r) = Dead \<Longrightarrow>
      returns (on_died doc now h r d) (\<lambda>d'. dinv h d' \<and> (\<forall>q. admitted h d' q \<longleftrightarrow> admitted h d q))"
    and resurrected: "dinv h d \<Longrightarrow> admitted h d r \<Longrightarrow>
      returns (on_resurrected doc now h r d) (\<lambda>d'. dinv h d' \<and> (\<forall>q. admitted h d' q \<longleftrightarrow> admitted h d q))"
begin

abbreviation "ic_inv \<equiv> care_inv dinv admitted"

lemma ic_inv_heap:
  assumes "ic_inv s" and "same_people (ic_heap s) h"
  shows "ic_inv (s\<lparr>ic_heap := h\<rparr>)"
proof -
  have i: "dinv (ic_heap s) (ic_doctor s)" using assms(1) by (simp add: care_inv_def)
  note a = inv_people [OF i assms(2)] admitted_people [OF i assms(2)]
  show ?thesis using assms unfolding care_inv_def same_people_def by (simp add: a)
qed

lemma ic_inv_other:
  "ic_inv (s\<lparr>ic_task := a\<rparr>) = ic_inv s" "ic_inv (s\<lparr>ic_collectors := b\<rparr>) = ic_inv s"
  "ic_inv (s\<lparr>ic_last_check := c\<rparr>) = ic_inv s" "ic_inv (s\<lparr>ic_skip_checks := e\<rparr>) = ic_inv s"
  by (simp_all add: care_inv_def)

lemma beat_keeps: "ic_inv s \<Longrightarrow> ic_inv (ic_beat now key s)"
proof (cases "map_of (ic_patients s) key")
  case (Some r)
  assume ok: "ic_inv s"
  with Some have "r < length (ic_heap s)" unfolding care_inv_def by blast
  from ic_inv_heap [OF ok same_people_update [OF this]] Some show ?thesis by (simp add: ic_beat_def)
qed (simp add: ic_beat_def)

lemma pause_keeps: "ic_inv s \<Longrightarrow> ic_inv (ic_pause s)"
  by (simp add: ic_pause_def ic_inv_other split: option.split)

lemma reset_people:
  "(\<forall>(k, r) \<in> set rs. r < length h) \<Longrightarrow>
   same_people h (fold (\<lambda>(k, r) h. h[r := patient_reset now x (h ! r)]) rs h)"
proof (induction rs arbitrary: h)
  case (Cons kr rs)
  obtain k r where kr: "kr = (k, r)" by (cases kr)
  let ?h = "h[r := patient_reset now x (h ! r)]"
  have "same_people h ?h" using Cons.prems kr by (intro same_people_update) simp_all
  moreover have "same_people ?h (fold (\<lambda>(k, r) h. h[r := patient_reset now x (h ! r)]) rs ?h)"
    by (rule Cons.IH) (use Cons.prems in auto)
  ultimately show ?case using kr same_people_trans by simp
qed simp

lemma resume_keeps:
  assumes "ic_inv s"
  shows "ic_inv (ic_resume now s)"
proof -
  have "\<forall>(k, r) \<in> set (ic_patients s). r < length (ic_heap s)"
    using assms unfolding care_inv_def by (auto dest: map_of_is_SomeI)
  from ic_inv_heap [OF assms reset_people [OF this]] assms
  show ?thesis by (simp add: ic_resume_def ic_inv_other split: option.split)
qed

lemma call_doctor_keeps:
  assumes "ic_inv s" and "returns (f (ic_doctor s))
    (\<lambda>d'. dinv (ic_heap s) d' \<and> (\<forall>q. admitted (ic_heap s) d' q \<longleftrightarrow> admitted (ic_heap s) (ic_doctor s) q))"
  shows "\<exists>d'. call_doctor f s = (Inr (), s\<lparr>ic_doctor := d'\<rparr>) \<and> ic_inv (s\<lparr>ic_doctor := d'\<rparr>)"
  using assms by (cases "f (ic_doctor s)") (auto simp: call_doctor_def returns_def care_inv_def)

lemma check_loop_keeps:
  assumes "ic_inv s" and "\<forall>r \<in> set rs. \<exists>k. map_of (ic_patients s) k = Some r"
  shows "\<exists>s'. check_loop doc now rs s = (Inr (), s') \<and> ic_inv s' \<and> ic_patients s' = ic_patients s"
  using assms
proof (induction rs arbitrary: s)
  case (Cons r rs)
  let ?p = "patient_check now (ic_heap s ! r)"
  let ?s = "s\<lparr>ic_heap := (ic_heap s)[r := ?p]\<rparr>"
  obtain k where k: "map_of (ic_patients s) k = Some r" using Cons.prems(2) by auto
  then have r: "r < length (ic_heap s)" using Cons.prems(1) unfolding care_inv_def by blast
  have s: "ic_inv ?s" by (rule ic_inv_heap [OF Cons.prems(1) same_people_update [OF r]]) simp_all
  then have i: "dinv (ic_heap ?s) (ic_doctor ?s)" and adm: "admitted (ic_heap ?s) (ic_doctor ?s) r"
    using k unfolding care_inv_def by auto
  have state: "pt_state (ic_heap ?s ! r) = pt_state ?p" using r by simp
  show ?case
  proof (cases "change_callback doc (pt_last_state ?p) (pt_state ?p)")
    case None
    then show ?thesis using Cons.IH [OF s] Cons.prems(2) by simp
  next
    case (Some f)
    have "returns (f now (ic_heap ?s) r (ic_doctor ?s))
        (\<lambda>d'. dinv (ic_heap ?s) d' \<and> (\<forall>q. admitted (ic_heap ?s) d' q \<longleftrightarrow> admitted (ic_heap ?s) (ic_doctor ?s) q))"
      using Some dying [OF i adm, of now] died [OF i adm, of now] resurrected [OF i adm, of now] state
      by (auto simp: change_callback_def split: if_splits)
    from call_doctor_keeps [of ?s "f now (ic_heap ?s) r", OF s this]
    obtain d' where d': "call_doctor (f now (ic_heap ?s) r) ?s = (Inr (), ?s\<lparr>ic_doctor := d'\<rparr>)"
      "ic_inv (?s\<lparr>ic_doctor := d'\<rparr>)" by blast
    from Cons.IH [OF d'(2)] Cons.prems(2) Some d'(1) show ?thesis by simp
  qed
qed simp

lemma check_patients_keeps:
  assumes "ic_inv s"
  shows "\<exists>s'. ic_check_patients doc now s = (Inr (), s') \<and> ic_inv s' \<and> ic_patients s' = ic_patients s"
proof -
  let ?s = "(case ic_last_check s of None \<Rightarrow> s
    | Some epoch \<Rightarrow> if now - epoch > 2 * ic_control_period s then s\<lparr>ic_skip_checks := Some 3\<rparr> else s)
    \<lparr>ic_last_check := Some now\<rparr>"
  have s: "ic_inv ?s" and pats: "ic_patients ?s = ic_patients s"
    using assms by (simp_all add: ic_inv_other split: option.split)
  have "\<forall>r \<in> set (map snd (ic_patients s)). \<exists>k. map_of (ic_patients ?s) k = Some r"
    using assms pats unfolding care_inv_def by (auto dest: map_of_is_SomeI)
  then obtain s' where loop: "check_loop doc now (map snd (ic_patients s)) ?s = (Inr (), s')" "ic_inv s'"
    "ic_patients s' = ic_patients s"
    using check_loop_keeps [OF s] pats by metis
  show ?thesis
  proof (cases "ic_skip_checks ?s")
    case (Some n)
    with loop s pats show ?thesis
      unfolding ic_check_patients_def Let_def by (cases n) (simp_all add: ic_inv_other)
  next
    case None
    with loop pats show ?thesis unfolding ic_check_patients_def Let_def by simp
  qed
qed

lemma add_patient_keeps:
  assumes "ic_inv s" and fresh: "map_of (ic_patients s) key = None"
    and p: "mk_patient key location now period dying_skips death_skips patient_type = Inr p"
  shows "\<exists>s'. ic_add_patient doc now key location period dying_skips death_skips patient_type s = (Inr (), s') \<and>
    ic_inv s' \<and> ic_patients s' = AList.update key (length (ic_heap s)) (ic_patients s)"
proof -
  let ?h = "ic_heap s @ [p]" and ?r = "length (ic_heap s)"
  have pk: "pt_key p = key"
    using p by (auto simp: mk_patient_def Let_def patient_reset_def split: if_splits)
  have people: "same_people (ic_heap s) ?h" by (simp add: same_people_def nth_append)
  have i0: "dinv (ic_heap s) (ic_doctor s)" using assms(1) by (simp add: care_inv_def)
  note i = inv_people [OF i0 people] and adm = admitted_people [OF i0 people]
  have old: "q < ?r \<and> pt_key (?h ! q) \<noteq> key" if "admitted ?h (ic_doctor s) q" for q
  proof -
    have "admitted (ic_heap s) (ic_doctor s) q" using that adm [of q] by simp
    then obtain k where k: "map_of (ic_patients s) k = Some q" using care_inv_parts(4) [OF assms(1)] by blast
    from care_inv_parts(3) [OF assms(1) k] k fresh show ?thesis by (auto simp: nth_append)
  qed
  have "returns (on_added doc now ?h ?r (ic_doctor s))
      (\<lambda>d'. dinv ?h d' \<and> (\<forall>q. admitted ?h d' q \<longleftrightarrow> q = ?r \<or> admitted ?h (ic_doctor s) q))"
    by (rule added [OF i]) (use old pk in auto)
  then obtain d' where d': "on_added doc now ?h ?r (ic_doctor s) = (Inr (), d')" "dinv ?h d'"
    "\<And>q. admitted ?h d' q \<longleftrightarrow> q = ?r \<or> admitted ?h (ic_doctor s) q"
    by (cases "on_added doc now ?h ?r (ic_doctor s)") (auto simp: returns_def)
  let ?s' = "s\<lparr>ic_heap := ?h, ic_patients := AList.update key ?r (ic_patients s), ic_doctor := d'\<rparr>"
  have "ic_inv ?s'"
    unfolding care_inv_def
  proof (intro conjI allI impI)
    show "dict_ok (ic_patients ?s')" using assms(1) by (simp add: care_inv_def distinct_update)
    show "dinv (ic_heap ?s') (ic_doctor ?s')" using d'(2) by simp
    fix k r assume "map_of (ic_patients ?s') k = Some r"
    then have "k = key \<and> r = ?r \<or> map_of (ic_patients s) k = Some r" by (auto simp: dict_simps split: if_splits)
    then show "r < length (ic_heap ?s')" "pt_key (ic_heap ?s' ! r) = k"
      using care_inv_parts(3) [OF assms(1), of k r] pk by (auto simp: nth_append less_Suc_eq)
  next
    fix r
    have "(\<exists>k. map_of (ic_patients ?s') k = Some r) \<longleftrightarrow> r = ?r \<or> (\<exists>k. map_of (ic_patients s) k = Some r)"
    proof
      assume "r = ?r \<or> (\<exists>k. map_of (ic_patients s) k = Some r)"
      then show "\<exists>k. map_of (ic_patients ?s') k = Some r"
        using fresh by (metis (mono_tags, lifting) icare.select_convs(2) icare.surjective icare.update_convs(2)
            icare.update_convs(8) map_of_update option.distinct(1))
    qed (auto simp: dict_simps split: if_splits)
    then show "admitted (ic_heap ?s') (ic_doctor ?s') r \<longleftrightarrow> (\<exists>k. map_of (ic_patients ?s') k = Some r)"
      using d'(3) [of r] adm [of r] care_inv_parts(4) [OF assms(1), of r] by simp
  qed
  with d'(1) fresh p show ?thesis by (simp add: ic_add_patient_def call_doctor_def Let_def)
qed

lemma remove_patient_keeps:
  assumes "ic_inv s"
  shows "\<exists>s'. ic_remove_patient doc now key s = (Inr (), s') \<and> ic_inv s' \<and>
    ic_patients s' = (if dict_has (ic_patients s) key then AList.delete key (ic_patients s) else ic_patients s)"
proof (cases "map_of (ic_patients s) key")
  case None
  with assms show ?thesis by (simp add: ic_remove_patient_def)
next
  case (Some r)
  have i: "dinv (ic_heap s) (ic_doctor s)" "admitted (ic_heap s) (ic_doctor s) r"
    using care_inv_parts(2,4) [OF assms] Some by blast+
  obtain d' where d': "on_removed doc now (ic_heap s) r (ic_doctor s) = (Inr (), d')" "dinv (ic_heap s) d'"
    "\<And>q. admitted (ic_heap s) d' q \<longleftrightarrow> q \<noteq> r \<and> admitted (ic_heap s) (ic_doctor s) q"
    using removed [OF i, of now]
    by (cases "on_removed doc now (ic_heap s) r (ic_doctor s)") (auto simp: returns_def)
  let ?s' = "s\<lparr>ic_doctor := d', ic_patients := AList.delete key (ic_patients s)\<rparr>"
  have inj: "k = key" if "map_of (ic_patients s) k = Some r" for k
    using care_inv_parts(3) [OF assms that] care_inv_parts(3) [OF assms Some] by simp
  have lookup: "map_of (ic_patients ?s') k = Some q \<longleftrightarrow> k \<noteq> key \<and> map_of (ic_patients s) k = Some q" for k q
    by (simp add: dict_simps)
  have mem: "(\<exists>k. map_of (ic_patients ?s') k = Some q) \<longleftrightarrow> q \<noteq> r \<and> (\<exists>k. map_of (ic_patients s) k = Some q)" for q
    unfolding lookup using inj Some by (metis option.inject)
  have "ic_inv ?s'"
    unfolding care_inv_def mem
  proof (intro conjI allI impI)
    show "dict_ok (ic_patients ?s')" using assms by (simp add: care_inv_def distinct_delete)
    show "dinv (ic_heap ?s') (ic_doctor ?s')" using d'(2) by simp
    fix k q assume "map_of (ic_patients ?s') k = Some q"
    then have "map_of (ic_patients s) k = Some q" by (simp add: dict_simps split: if_splits)
    then show "q < length (ic_heap ?s')" "pt_key (ic_heap ?s' ! q) = k"
      using care_inv_parts(3) [OF assms, of k q] by auto
  next
    fix q show "admitted (ic_heap ?s') (ic_doctor ?s') q \<longleftrightarrow> q \<noteq> r \<and> (\<exists>k. map_of (ic_patients s) k = Some q)"
      using d'(3) [of q] care_inv_parts(4) [OF assms, of q] by simp
  qed
  with d'(1) Some show ?thesis by (simp add: ic_remove_patient_def call_doctor_def)
qed

end

end
