(* ===== verification/Clerk.thy ===== *)
theory Clerk
  imports Patient
begin

text \<open>
  The clerk of the monitor agent, \<open>src/src/feat/agents/monitor/clerk.py\<close>: it groups patients
  by location, decides when a silent location is put in quarantine, when the monitor itself is
  isolated, and when the coroner is told of a death.

  \<open>Location\<close> objects are shared (a delayed call may hold one that the clerk dropped): the
  state lists them, a reference is an index.  The clerk and its locations call each other; the
  only cycle goes through \<open>_location_state_changed\<close>, so every operation takes that callback as
  its argument \<open>sc\<close>, and \<open>location_state_changed\<close> ties the knot with a depth whose exhaustion
  is Python's \<open>RuntimeError\<close>.  \<open>ClerkProps\<close> shows that the depth given is always enough.

  The delayed calls of the agent and the deaths reported to the coroner are part of the state.
  The operations return the new state or the exception raised; \<open>h\<close> is the heap of patients.
\<close>

section \<open>State\<close>

datatype location_state = LNormal | LIsolated | LRecovering

datatype monitor_state = MNormal | MIsolated | MRecovering | MDisconnected

type_synonym lref = nat

datatype delayed_call = LiftLocation lref | LiftIsolation

record location =
  loc_name :: string
  loc_quarantine :: bool
  loc_state :: location_state
  loc_paused :: bool
  loc_patients :: "(string, nat) dict"
  loc_dead :: "string set"

record clerk =
  ck_locs :: "location list"
  ck_locations :: "(string, lref) dict"
  ck_patients :: "(string, lref) dict"
  ck_location_calls :: "(string, nat) dict"
  ck_isolated_call :: "nat option"
  ck_quarantine :: bool
  ck_location :: string
  ck_state :: monitor_state
  ck_host_length :: time
  ck_self_length :: time
  ck_delayed :: "(nat, time \<times> delayed_call) dict"
  ck_next_call :: nat
  ck_coroner :: "nat list"

definition mk_location :: "string \<Rightarrow> bool \<Rightarrow> location" where
  "mk_location name enable_quarantine =
     \<lparr>loc_name = name, loc_quarantine = enable_quarantine, loc_state = LNormal,
      loc_paused = False, loc_patients = [], loc_dead = {}\<rparr>"

definition clerk_init :: "string \<Rightarrow> bool \<Rightarrow> time \<Rightarrow> time \<Rightarrow> clerk" where
  "clerk_init location enable_quarantine host_length self_length =
     \<lparr>ck_locs = [], ck_locations = [], ck_patients = [], ck_location_calls = [],
      ck_isolated_call = None, ck_quarantine = enable_quarantine, ck_location = location,
      ck_state = MNormal, ck_host_length = host_length, ck_self_length = self_length,
      ck_delayed = [], ck_next_call = 0, ck_coroner = []\<rparr>"

abbreviation the_loc :: "clerk \<Rightarrow> lref \<Rightarrow> location" where
  "the_loc s l \<equiv> ck_locs s ! l"

definition upd_loc :: "lref \<Rightarrow> (location \<Rightarrow> location) \<Rightarrow> clerk \<Rightarrow> clerk" where
  "upd_loc l f s = s\<lparr>ck_locs := (ck_locs s)[l := f (the_loc s l)]\<rparr>"

section \<open>Patients of a location\<close>

definition iter_patients :: "patient list \<Rightarrow> patient_state option \<Rightarrow> location \<Rightarrow> nat list" where
  "iter_patients h st loc =
     filter (\<lambda>r. case st of None \<Rightarrow> True | Some x \<Rightarrow> pt_state (h ! r) = x) (map snd (loc_patients loc))"

definition count_patients :: "patient list \<Rightarrow> patient_state option \<Rightarrow> location \<Rightarrow> nat" where
  "count_patients h st loc = length (iter_patients h st loc)"

definition count_alive :: "patient list \<Rightarrow> location \<Rightarrow> nat" where
  "count_alive h = count_patients h (Some Alive)"

definition count_dying :: "patient list \<Rightarrow> location \<Rightarrow> nat" where
  "count_dying h = count_patients h (Some Dying)"

definition count_dead :: "patient list \<Rightarrow> location \<Rightarrow> nat" where
  "count_dead h = count_patients h (Some Dead)"

definition loc_add_patient :: "patient list \<Rightarrow> nat \<Rightarrow> location \<Rightarrow> exn + location" where
  "loc_add_patient h r loc =
     (if dict_has (loc_patients loc) (pt_key (h ! r)) then Inl AssertionError
      else Inr (loc\<lparr>loc_patients := AList.update (pt_key (h ! r)) r (loc_patients loc)\<rparr>))"

definition list_max :: "rat list \<Rightarrow> exn + rat" where
  "list_max xs = (case xs of [] \<Rightarrow> Inl ValueError | x # xs \<Rightarrow> Inr (fold max xs x))"

definition get_recovery_time :: "patient list \<Rightarrow> location \<Rightarrow> exn + rat" where
  "get_recovery_time h loc = list_max (map (\<lambda>r. pt_period (h ! r)) (iter_patients h None loc))"

section \<open>Delayed calls\<close>

definition call_later :: "time \<Rightarrow> time \<Rightarrow> delayed_call \<Rightarrow> clerk \<Rightarrow> nat \<times> clerk" where
  "call_later now delay call s =
     (let i = ck_next_call s in
      (i, s\<lparr>ck_delayed := AList.update i (now + delay, call) (ck_delayed s), ck_next_call := i + 1\<rparr>))"

definition cancel_delayed_call :: "nat \<Rightarrow> clerk \<Rightarrow> clerk" where
  "cancel_delayed_call i s = s\<lparr>ck_delayed := AList.delete i (ck_delayed s)\<rparr>"

definition loc_cleanup_call :: "lref \<Rightarrow> clerk \<Rightarrow> clerk" where
  "loc_cleanup_call l s =
     s\<lparr>ck_location_calls := AList.delete (loc_name (the_loc s l)) (ck_location_calls s)\<rparr>"

definition loc_cancel_call :: "lref \<Rightarrow> clerk \<Rightarrow> clerk" where
  "loc_cancel_call l s =
     loc_cleanup_call l
       (case map_of (ck_location_calls s) (loc_name (the_loc s l)) of
          None \<Rightarrow> s
        | Some call_id \<Rightarrow> cancel_delayed_call call_id s)"

definition loc_schedule_call :: "time \<Rightarrow> time \<Rightarrow> delayed_call \<Rightarrow> lref \<Rightarrow> clerk \<Rightarrow> clerk" where
  "loc_schedule_call now delay function l s =
     (case call_later now delay function (loc_cancel_call l s) of
        (call_id, s) \<Rightarrow>
          s\<lparr>ck_location_calls := AList.update (loc_name (the_loc s l)) call_id (ck_location_calls s)\<rparr>)"

definition iso_cancel_call :: "clerk \<Rightarrow> clerk" where
  "iso_cancel_call s =
     (case ck_isolated_call s of
        None \<Rightarrow> s
      | Some i \<Rightarrow> (cancel_delayed_call i s)\<lparr>ck_isolated_call := None\<rparr>)"

definition iso_schedule_call :: "time \<Rightarrow> time \<Rightarrow> delayed_call \<Rightarrow> clerk \<Rightarrow> clerk" where
  "iso_schedule_call now delay call s =
     (case call_later now delay call (iso_cancel_call s) of
        (call_id, s) \<Rightarrow> s\<lparr>ck_isolated_call := Some call_id\<rparr>)"

section \<open>Locations and clerk\<close>

type_synonym callback = "lref \<Rightarrow> clerk \<Rightarrow> exn + clerk"

text \<open>A loop over locations whose body may raise.\<close>

fun each :: "('a \<Rightarrow> clerk \<Rightarrow> exn + clerk) \<Rightarrow> 'a list \<Rightarrow> clerk \<Rightarrow> exn + clerk" where
  "each f [] s = Inr s"
| "each f (x # xs) s = bindE (f x s) (each f xs)"

definition set_state :: "callback \<Rightarrow> lref \<Rightarrow> location_state \<Rightarrow> clerk \<Rightarrow> exn + clerk" where
  "set_state sc l st s = sc l (upd_loc l (loc_state_update (\<lambda>_. st)) s)"

definition loc_pause :: "callback \<Rightarrow> lref \<Rightarrow> clerk \<Rightarrow> exn + clerk" where
  "loc_pause sc l s =
     (let s = upd_loc l (loc_paused_update (\<lambda>_. True)) s in
      if loc_state (the_loc s l) = LRecovering then set_state sc l LNormal s else Inr s)"

definition loc_pause_all :: "callback \<Rightarrow> clerk \<Rightarrow> exn + clerk" where
  "loc_pause_all sc s =
     each (\<lambda>l s. loc_pause sc l (loc_cancel_call l s)) (map snd (ck_locations s)) s"

definition other_alive :: "patient list \<Rightarrow> clerk \<Rightarrow> bool" where
  "other_alive h s \<longleftrightarrow>
     (\<exists>l \<in> set (map snd (ck_locations s)).
        loc_state (the_loc s l) \<noteq> LIsolated \<and> loc_name (the_loc s l) \<noteq> ck_location s \<and>
        count_alive h (the_loc s l) > 0)"

definition check_isolated :: "callback \<Rightarrow> patient list \<Rightarrow> time \<Rightarrow> clerk \<Rightarrow> exn + bool \<times> clerk" where
  "check_isolated sc h now s =
     (if ck_state s = MIsolated \<or> ck_state s = MRecovering then Inr (True, s)
      else if other_alive h s then Inr (False, s)
      else
        bindE (loc_pause_all sc
                 (iso_schedule_call now (ck_self_length s) LiftIsolation (s\<lparr>ck_state := MIsolated\<rparr>)))
          (\<lambda>s. Inr (True, s)))"

definition start_quarantine :: "callback \<Rightarrow> lref \<Rightarrow> clerk \<Rightarrow> exn + clerk" where
  "start_quarantine sc l s =
     (if loc_state (the_loc s l) \<noteq> LIsolated then set_state sc l LIsolated s else Inr s)"

definition loc_start_quarantine :: "callback \<Rightarrow> patient list \<Rightarrow> time \<Rightarrow> lref \<Rightarrow> clerk \<Rightarrow> exn + clerk" where
  "loc_start_quarantine sc h now l s =
     bindE (check_isolated sc h now s) (\<lambda>(isolated, s).
       if isolated then Inr s else start_quarantine sc l (loc_cancel_call l s))"

definition loc_schedule_lift :: "time \<Rightarrow> lref \<Rightarrow> clerk \<Rightarrow> clerk" where
  "loc_schedule_lift now l s = loc_schedule_call now (ck_host_length s) (LiftLocation l) l s"

definition need_quarantine :: "callback \<Rightarrow> patient list \<Rightarrow> time \<Rightarrow> lref \<Rightarrow> clerk \<Rightarrow> exn + clerk" where
  "need_quarantine sc h now l s =
     bindE (loc_start_quarantine sc h now l s) (\<lambda>s.
       Inr (if ck_state s \<noteq> MIsolated then loc_schedule_lift now l s else s))"

definition start_recovery :: "callback \<Rightarrow> patient list \<Rightarrow> lref \<Rightarrow> clerk \<Rightarrow> exn + time \<times> clerk" where
  "start_recovery sc h l s =
     (if count_dead h (the_loc s l) > 0 \<or> count_dying h (the_loc s l) > 0 then
        bindE (if loc_state (the_loc s l) \<noteq> LRecovering then set_state sc l LRecovering s else Inr s)
          (\<lambda>s. bindE (list_max (map (\<lambda>r. pt_period (h ! r))
                  (filter (\<lambda>r. pt_state (h ! r) \<noteq> Alive) (map snd (loc_patients (the_loc s l))))))
            (\<lambda>delay. Inr (delay, s)))
      else Inr (0, s))"

definition location_recovering :: "callback \<Rightarrow> patient list \<Rightarrow> time \<Rightarrow> lref \<Rightarrow> clerk \<Rightarrow> exn + clerk" where
  "location_recovering sc h now l s =
     bindE (start_recovery sc h l s) (\<lambda>(recovery_time, s).
       Inr (loc_schedule_call now recovery_time (LiftLocation l) l s))"

definition notify_death :: "patient list \<Rightarrow> lref \<Rightarrow> nat \<Rightarrow> clerk \<Rightarrow> clerk" where
  "notify_death h l r s =
     (if loc_paused (the_loc s l) then s
      else if pt_key (h ! r) \<notin> loc_dead (the_loc s l)
           then (upd_loc l (loc_dead_update (insert (pt_key (h ! r)))) s)\<lparr>ck_coroner := ck_coroner s @ [r]\<rparr>
           else s)"

definition bring_out_your_dead :: "patient list \<Rightarrow> lref \<Rightarrow> clerk \<Rightarrow> clerk" where
  "bring_out_your_dead h l s = fold (notify_death h l) (iter_patients h (Some Dead) (the_loc s l)) s"

definition loc_resume :: "callback \<Rightarrow> patient list \<Rightarrow> time \<Rightarrow> lref \<Rightarrow> clerk \<Rightarrow> exn + clerk" where
  "loc_resume sc h now l s =
     (let s = upd_loc l (loc_paused_update (\<lambda>_. False)) s in
      if \<not> loc_quarantine (the_loc s l) then Inr (bring_out_your_dead h l s)
      else if loc_state (the_loc s l) = LIsolated then need_quarantine sc h now l s
      else if loc_state (the_loc s l) = LRecovering then location_recovering sc h now l s
      else Inr s)"

definition loc_resume_all :: "callback \<Rightarrow> patient list \<Rightarrow> time \<Rightarrow> clerk \<Rightarrow> exn + clerk" where
  "loc_resume_all sc h now s = each (loc_resume sc h now) (map snd (ck_locations s)) s"

definition state_changed_body :: "callback \<Rightarrow> patient list \<Rightarrow> time \<Rightarrow> callback" where
  "state_changed_body sc h now l s =
     (let s = (if loc_state (the_loc s l) = LNormal then loc_cancel_call l s else s) in
      case ck_state s of
        MIsolated \<Rightarrow>
          if loc_state (the_loc s l) \<noteq> LIsolated \<and> loc_name (the_loc s l) \<noteq> ck_location s
          then loc_resume_all sc h now (iso_cancel_call (s\<lparr>ck_state := MNormal\<rparr>))
          else Inr s
      | MRecovering \<Rightarrow>
          if \<forall>l' \<in> set (map snd (ck_locations s)). loc_state (the_loc s l') = LNormal
          then Inr (s\<lparr>ck_state := MNormal\<rparr>) else Inr s
      | _ \<Rightarrow> Inr s)"

fun location_state_changed :: "nat \<Rightarrow> patient list \<Rightarrow> time \<Rightarrow> callback" where
  "location_state_changed 0 h now l s = Inl RuntimeError"
| "location_state_changed (Suc depth) h now l s =
     state_changed_body (location_state_changed depth h now) h now l s"

text \<open>The callback as the operations below use it.\<close>

definition state_changed :: "patient list \<Rightarrow> time \<Rightarrow> callback" where
  "state_changed h now l s = location_state_changed (Suc (length (ck_locs s))) h now l s"

definition quarantine_lifted :: "patient list \<Rightarrow> time \<Rightarrow> lref \<Rightarrow> clerk \<Rightarrow> exn + clerk" where
  "quarantine_lifted h now l s =
     bindE (set_state (state_changed h now) l LNormal s) (\<lambda>s. Inr (bring_out_your_dead h l s))"

definition check_quarantine :: "patient list \<Rightarrow> time \<Rightarrow> lref \<Rightarrow> clerk \<Rightarrow> exn + clerk" where
  "check_quarantine h now l s =
     (if count_dying h (the_loc s l) > 0 then Inr s
      else if \<not> count_dead h (the_loc s l) > 0 then Inr s
      else if loc_state (the_loc s l) \<noteq> LIsolated then
        bindE (set_state (state_changed h now) l LIsolated s) (\<lambda>s.
          if loc_paused (the_loc s l) then Inr s
          else need_quarantine (state_changed h now) h now l s)
      else Inr s)"

definition loc_remove_patient :: "patient list \<Rightarrow> time \<Rightarrow> lref \<Rightarrow> nat \<Rightarrow> clerk \<Rightarrow> exn + bool \<times> clerk" where
  "loc_remove_patient h now l r s =
     (let key = pt_key (h ! r);
          s = upd_loc l (\<lambda>loc. loc\<lparr>loc_patients := AList.delete key (loc_patients loc),
                                   loc_dead := loc_dead loc - {key}\<rparr>) s in
      bindE (if loc_quarantine (the_loc s l) \<and> loc_state (the_loc s l) = LNormal \<and> pt_state (h ! r) \<noteq> Dead
             then check_quarantine h now l s else Inr s)
        (\<lambda>s. Inr (loc_patients (the_loc s l) = [], s)))"

definition loc_patient_died :: "patient list \<Rightarrow> time \<Rightarrow> lref \<Rightarrow> nat \<Rightarrow> clerk \<Rightarrow> exn + clerk" where
  "loc_patient_died h now l r s =
     (if \<not> dict_has (loc_patients (the_loc s l)) (pt_key (h ! r)) then Inl AssertionError
      else if \<not> loc_quarantine (the_loc s l) then Inr (notify_death h l r s)
      else if loc_state (the_loc s l) = LNormal \<and> count_alive h (the_loc s l) > 0
           then Inr (notify_death h l r s)
      else check_quarantine h now l s)"

definition loc_patient_dying :: "patient list \<Rightarrow> lref \<Rightarrow> nat \<Rightarrow> clerk \<Rightarrow> exn + clerk" where
  "loc_patient_dying h l r s =
     (if \<not> dict_has (loc_patients (the_loc s l)) (pt_key (h ! r)) then Inl AssertionError else Inr s)"

definition loc_patient_resurrected :: "patient list \<Rightarrow> time \<Rightarrow> lref \<Rightarrow> nat \<Rightarrow> clerk \<Rightarrow> exn + clerk" where
  "loc_patient_resurrected h now l r s =
     (if \<not> dict_has (loc_patients (the_loc s l)) (pt_key (h ! r)) then Inl AssertionError
      else
        let s = upd_loc l (\<lambda>loc. loc\<lparr>loc_dead := loc_dead loc - {pt_key (h ! r)}\<rparr>) s;
            recovered = (count_dying h (the_loc s l) = 0 \<and> count_dead h (the_loc s l) = 0) in
        if \<not> loc_quarantine (the_loc s l) then Inr s
        else if loc_state (the_loc s l) = LRecovering then
          (if recovered then set_state (state_changed h now) l LNormal s else Inr s)
        else if recovered then set_state (state_changed h now) l LNormal s
        else
          bindE (set_state (state_changed h now) l LRecovering s) (\<lambda>s.
            if loc_paused (the_loc s l) then Inr s
            else location_recovering (state_changed h now) h now l s))"

section \<open>The clerk's interface\<close>

definition clerk_patient_added :: "patient list \<Rightarrow> nat \<Rightarrow> clerk \<Rightarrow> exn + clerk" where
  "clerk_patient_added h r s =
     (let key = pt_key (h ! r); name = pt_location (h ! r) in
      if dict_has (ck_patients s) key then Inl AssertionError
      else
        let (l, s) = (case map_of (ck_locations s) name of
              Some l \<Rightarrow> (l, s)
            | None \<Rightarrow>
                (let l = length (ck_locs s) in
                 (l, s\<lparr>ck_locs := ck_locs s @ [mk_location name (ck_quarantine s)],
                       ck_locations := AList.update name l (ck_locations s)\<rparr>))) in
        bindE (loc_add_patient h r (the_loc s l)) (\<lambda>loc.
          Inr ((upd_loc l (\<lambda>_. loc) s)\<lparr>ck_patients := AList.update key l (ck_patients s)\<rparr>)))"

definition clerk_patient_removed :: "patient list \<Rightarrow> time \<Rightarrow> nat \<Rightarrow> clerk \<Rightarrow> exn + clerk" where
  "clerk_patient_removed h now r s =
     (let key = pt_key (h ! r);
          s = (if dict_has (ck_patients s) key
               then s\<lparr>ck_patients := AList.delete key (ck_patients s)\<rparr> else s) in
      case map_of (ck_locations s) (pt_location (h ! r)) of
        None \<Rightarrow> Inr s
      | Some l \<Rightarrow>
          bindE (loc_remove_patient h now l r s) (\<lambda>(empty, s).
            Inr (if empty
                 then s\<lparr>ck_locations := AList.delete (loc_name (the_loc s l)) (ck_locations s)\<rparr>
                 else s)))"

text \<open>\<open>self._patients[key]\<close> raises \<open>KeyError\<close> for a patient the clerk does not know.\<close>

definition with_location :: "patient list \<Rightarrow> nat \<Rightarrow> (lref \<Rightarrow> clerk \<Rightarrow> exn + clerk) \<Rightarrow> clerk \<Rightarrow> exn + clerk" where
  "with_location h r f s =
     (case map_of (ck_patients s) (pt_key (h ! r)) of None \<Rightarrow> Inl KeyError | Some l \<Rightarrow> f l s)"

definition clerk_patient_dying :: "patient list \<Rightarrow> nat \<Rightarrow> clerk \<Rightarrow> exn + clerk" where
  "clerk_patient_dying h r = with_location h r (\<lambda>l. loc_patient_dying h l r)"

definition clerk_patient_died :: "patient list \<Rightarrow> time \<Rightarrow> nat \<Rightarrow> clerk \<Rightarrow> exn + clerk" where
  "clerk_patient_died h now r = with_location h r (\<lambda>l. loc_patient_died h now l r)"

definition clerk_patient_resurrected :: "patient list \<Rightarrow> time \<Rightarrow> nat \<Rightarrow> clerk \<Rightarrow> exn + clerk" where
  "clerk_patient_resurrected h now r = with_location h r (\<lambda>l. loc_patient_resurrected h now l r)"

definition on_disconnected :: "patient list \<Rightarrow> time \<Rightarrow> clerk \<Rightarrow> exn + clerk" where
  "on_disconnected h now s =
     (if ck_state s \<noteq> MDisconnected
      then loc_pause_all (state_changed h now) ((iso_cancel_call s)\<lparr>ck_state := MDisconnected\<rparr>)
      else Inr s)"

definition on_reconnected :: "patient list \<Rightarrow> time \<Rightarrow> clerk \<Rightarrow> exn + clerk" where
  "on_reconnected h now s =
     (if ck_state s = MDisconnected
      then bindE (loc_resume_all (state_changed h now) h now (s\<lparr>ck_state := MNormal\<rparr>)) (\<lambda>s.
             bindE (check_isolated (state_changed h now) h now s) (\<lambda>(_, s). Inr s))
      else Inr s)"

definition clerk_has_patient :: "string \<Rightarrow> clerk \<Rightarrow> bool" where
  "clerk_has_patient key s = dict_has (ck_patients s) key"

definition clerk_get_patient :: "string \<Rightarrow> clerk \<Rightarrow> nat option" where
  "clerk_get_patient key s =
     (case map_of (ck_patients s) key of
        None \<Rightarrow> None
      | Some l \<Rightarrow> map_of (loc_patients (the_loc s l)) key)"

definition iso_lift_quarantine :: "patient list \<Rightarrow> time \<Rightarrow> clerk \<Rightarrow> exn + clerk" where
  "iso_lift_quarantine h now s = loc_resume_all (state_changed h now) h now (s\<lparr>ck_state := MRecovering\<rparr>)"

text \<open>A delayed call fires: it leaves the agent's table and its function runs.\<close>

definition fire_call :: "patient list \<Rightarrow> time \<Rightarrow> nat \<Rightarrow> clerk \<Rightarrow> exn + clerk" where
  "fire_call h now i s =
     (case map_of (ck_delayed s) i of
        None \<Rightarrow> Inr s
      | Some (due, call) \<Rightarrow>
          let s = cancel_delayed_call i s in
          (case call of
             LiftLocation l \<Rightarrow> quarantine_lifted h now l s
           | LiftIsolation \<Rightarrow> iso_lift_quarantine h now s))"

text \<open>The callbacks as a doctor of the intensive care; they raise before they change anything.\<close>

definition as_callback :: "(clerk \<Rightarrow> exn + clerk) \<Rightarrow> clerk \<Rightarrow> (exn + unit) \<times> clerk" where
  "as_callback f s = (case f s of Inl e \<Rightarrow> (Inl e, s) | Inr s \<Rightarrow> (Inr (), s))"

definition clerk_doctor :: "clerk doctor" where
  "clerk_doctor =
     \<lparr>on_added = \<lambda>now h r. as_callback (clerk_patient_added h r),
      on_removed = \<lambda>now h r. as_callback (clerk_patient_removed h now r),
      on_dying = \<lambda>now h r. as_callback (clerk_patient_dying h r),
      on_died = \<lambda>now h r. as_callback (clerk_patient_died h now r),
      on_resurrected = \<lambda>now h r. as_callback (clerk_patient_resurrected h now r)\<rparr>"

end
