(* ===== verification/ClerkProps.thy ===== *)
theory ClerkProps
  imports Clerk
begin

text \<open>
  Properties of the clerk.  First what every nested call does: it keeps the patients and names
  of all locations, reports deaths one by one (\<open>report\<close>), and returns; the depth of
  \<open>_location_state_changed\<close> is bounded by the number of recovering locations, because every
  nested round turns a recovering location back to normal.
\<close>

section \<open>What the nested calls keep\<close>

definition static where
  "static s = (ck_locations s, ck_patients s, ck_quarantine s, ck_location s, ck_host_length s,
     ck_self_length s, map (\<lambda>l. (loc_name l, loc_quarantine l, loc_patients l)) (ck_locs s))"

definition patients_of :: "clerk \<Rightarrow> (string, nat) dict list" where
  "patients_of s = map loc_patients (ck_locs s)"

definition dview :: "clerk \<Rightarrow> string set list \<times> nat list" where
  "dview s = (map loc_dead (ck_locs s), ck_coroner s)"

inductive report ::
  "patient list \<Rightarrow> (string, nat) dict list \<Rightarrow> string set list \<times> nat list \<Rightarrow> string set list \<times> nat list \<Rightarrow> bool"
  for h P where
  "\<lbrakk>l < length D; r \<in> snd ` set (P ! l); pt_state (h ! r) = Dead; pt_key (h ! r) \<notin> D ! l\<rbrakk> \<Longrightarrow>
   report h P (D, out) (D[l := insert (pt_key (h ! r)) (D ! l)], out @ [r])"

definition lifts_ok :: "clerk \<Rightarrow> bool" where
  "lifts_ok s \<longleftrightarrow>
     (\<forall>i due l. (i, due, LiftLocation l) \<in> set (ck_delayed s) \<longrightarrow> l < length (ck_locs s)) \<and>
     (\<forall>i due. (i, due, LiftIsolation) \<in> set (ck_delayed s) \<longrightarrow> ck_isolated_call s = Some i)"

definition evolves :: "patient list \<Rightarrow> clerk \<Rightarrow> clerk \<Rightarrow> bool" where
  "evolves h s s' \<longleftrightarrow>
     static s' = static s \<and> (report h (patients_of s))\<^sup>*\<^sup>* (dview s) (dview s') \<and>
     (lifts_ok s \<longrightarrow> lifts_ok s')"

definition recovering :: "clerk \<Rightarrow> nat" where
  "recovering s = length (filter (\<lambda>loc. loc_state loc = LRecovering) (ck_locs s))"

definition locs_ok :: "clerk \<Rightarrow> bool" where
  "locs_ok s \<longleftrightarrow> (\<forall>l \<in> set (map snd (ck_locations s)). l < length (ck_locs s))"

lemma static_fields:
  assumes "static s' = static s"
  shows "ck_locations s' = ck_locations s" "ck_patients s' = ck_patients s"
    "ck_location s' = ck_location s" "ck_quarantine s' = ck_quarantine s"
    "length (ck_locs s') = length (ck_locs s)" "patients_of s' = patients_of s" "locs_ok s' = locs_ok s"
proof -
  note eq = assms [unfolded static_def]
  show "ck_locations s' = ck_locations s" "ck_patients s' = ck_patients s"
    "ck_location s' = ck_location s" "ck_quarantine s' = ck_quarantine s" using eq by simp_all
  have m: "map (\<lambda>l. (loc_name l, loc_quarantine l, loc_patients l)) (ck_locs s') =
      map (\<lambda>l. (loc_name l, loc_quarantine l, loc_patients l)) (ck_locs s)" using eq by simp
  show len: "length (ck_locs s') = length (ck_locs s)" using m by (rule map_eq_imp_length_eq)
  show "patients_of s' = patients_of s"
    using arg_cong [OF m, of "map (snd \<circ> snd)"] by (simp add: patients_of_def comp_def)
  show "locs_ok s' = locs_ok s" using eq len by (simp add: locs_ok_def)
qed

lemma static_loc:
  assumes "static s' = static s" and "l < length (ck_locs s)"
  shows "loc_name (the_loc s' l) = loc_name (the_loc s l)"
    "loc_quarantine (the_loc s' l) = loc_quarantine (the_loc s l)"
    "loc_patients (the_loc s' l) = loc_patients (the_loc s l)"
proof -
  have "map (\<lambda>l. (loc_name l, loc_quarantine l, loc_patients l)) (ck_locs s') ! l =
      map (\<lambda>l. (loc_name l, loc_quarantine l, loc_patients l)) (ck_locs s) ! l"
    using assms(1) by (simp add: static_def)
  then show "loc_name (the_loc s' l) = loc_name (the_loc s l)"
    "loc_quarantine (the_loc s' l) = loc_quarantine (the_loc s l)"
    "loc_patients (the_loc s' l) = loc_patients (the_loc s l)"
    using assms(2) static_fields(5) [OF assms(1)] by simp_all
qed

lemma evolves_refl [simp]: "evolves h s s"
  by (simp add: evolves_def)

lemma evolves_trans:
  assumes "evolves h s s'" and "evolves h s' s''"
  shows "evolves h s s''"
proof -
  have st: "static s' = static s" using assms(1) by (simp add: evolves_def)
  note p = static_fields(6) [OF st]
  have "(report h (patients_of s))\<^sup>*\<^sup>* (dview s) (dview s'')"
    using assms unfolding evolves_def p by (metis rtranclp_trans)
  moreover have "static s'' = static s" using assms(2) st by (simp add: evolves_def)
  moreover have "lifts_ok s \<longrightarrow> lifts_ok s''" using assms by (simp add: evolves_def)
  ultimately show ?thesis unfolding evolves_def by blast
qed

lemma evolves_static: "evolves h s s' \<Longrightarrow> static s' = static s"
  by (simp add: evolves_def)

lemmas evolves_fields = evolves_static [THEN static_fields(1)] evolves_static [THEN static_fields(5)]
  evolves_static [THEN static_fields(7)]

text \<open>Changes outside the locations.\<close>

lemma evolves_outside:
  assumes "ck_locs s' = ck_locs s" "ck_locations s' = ck_locations s" "ck_patients s' = ck_patients s"
    "ck_quarantine s' = ck_quarantine s" "ck_location s' = ck_location s" "ck_host_length s' = ck_host_length s"
    "ck_self_length s' = ck_self_length s" "ck_coroner s' = ck_coroner s"
    "lifts_ok s \<Longrightarrow> lifts_ok s'"
  shows "evolves h s s'"
  using assms by (simp add: evolves_def static_def dview_def)

lemma recovering_cong: "ck_locs s' = ck_locs s \<Longrightarrow> recovering s' = recovering s"
  by (simp add: recovering_def)

lemma upd_loc_nth [simp]:
  "the_loc (upd_loc l f s) l' = (if l = l' \<and> l < length (ck_locs s) then f (the_loc s l) else the_loc s l')"
  by (cases "l < length (ck_locs s)") (auto simp: upd_loc_def not_less list_update_beyond)

lemma upd_loc_fields [simp]:
  "ck_locations (upd_loc l f s) = ck_locations s" "ck_patients (upd_loc l f s) = ck_patients s"
  "ck_location_calls (upd_loc l f s) = ck_location_calls s"
  "ck_isolated_call (upd_loc l f s) = ck_isolated_call s" "ck_quarantine (upd_loc l f s) = ck_quarantine s"
  "ck_location (upd_loc l f s) = ck_location s" "ck_state (upd_loc l f s) = ck_state s"
  "ck_host_length (upd_loc l f s) = ck_host_length s" "ck_self_length (upd_loc l f s) = ck_self_length s"
  "ck_delayed (upd_loc l f s) = ck_delayed s" "ck_next_call (upd_loc l f s) = ck_next_call s"
  "ck_coroner (upd_loc l f s) = ck_coroner s" "length (ck_locs (upd_loc l f s)) = length (ck_locs s)"
  by (simp_all add: upd_loc_def)

lemma map_upd_same: "g (f (xs ! l)) = g (xs ! l) \<Longrightarrow> map g (xs[l := f (xs ! l)]) = map g xs"
  by (cases "l < length xs") (auto simp: map_update list_update_same_conv list_update_beyond)

lemma evolves_upd_loc:
  assumes "\<And>x. loc_name (f x) = loc_name x" "\<And>x. loc_quarantine (f x) = loc_quarantine x"
    "\<And>x. loc_patients (f x) = loc_patients x" "\<And>x. loc_dead (f x) = loc_dead x"
  shows "evolves h s (upd_loc l f s)"
proof -
  have "map loc_dead (ck_locs (upd_loc l f s)) = map loc_dead (ck_locs s)"
    unfolding upd_loc_def by (simp add: map_upd_same assms)
  moreover have "static (upd_loc l f s) = static s"
    unfolding static_def by (simp add: upd_loc_def map_upd_same assms)
  ultimately show ?thesis by (simp add: evolves_def dview_def lifts_ok_def)
qed

lemma recovering_upd:
  assumes "l < length (ck_locs s)"
  shows "recovering (upd_loc l f s) + (if loc_state (the_loc s l) = LRecovering then 1 else 0) =
    recovering s + (if loc_state (f (the_loc s l)) = LRecovering then 1 else 0)"
proof -
  let ?P = "\<lambda>loc. loc_state loc = LRecovering"
  have split: "ck_locs s = take l (ck_locs s) @ the_loc s l # drop (Suc l) (ck_locs s)"
    using assms by (rule id_take_nth_drop)
  have upd: "ck_locs (upd_loc l f s) = take l (ck_locs s) @ f (the_loc s l) # drop (Suc l) (ck_locs s)"
    using assms by (simp add: upd_loc_def upd_conv_take_nth_drop)
  have "recovering s = length (filter ?P (take l (ck_locs s) @ the_loc s l # drop (Suc l) (ck_locs s)))"
    unfolding recovering_def using split by simp
  then show ?thesis unfolding recovering_def upd by simp
qed

section \<open>Good results\<close>

definition good :: "patient list \<Rightarrow> clerk \<Rightarrow> exn + clerk \<Rightarrow> bool" where
  "good h s r \<longleftrightarrow> (\<exists>s'. r = Inr s' \<and> evolves h s s' \<and> recovering s' \<le> recovering s)"

lemma goodI: "evolves h s s' \<Longrightarrow> recovering s' \<le> recovering s \<Longrightarrow> good h s (Inr s')"
  by (simp add: good_def)

lemma good_Inr [simp]: "good h s (Inr s)"
  by (simp add: good_def)

lemma good_from:
  "evolves h s s' \<Longrightarrow> recovering s' \<le> recovering s \<Longrightarrow> good h s' r \<Longrightarrow> good h s r"
  unfolding good_def using evolves_trans le_trans by blast

lemma good_bind:
  assumes "good h s m"
    and "\<And>s'. m = Inr s' \<Longrightarrow> evolves h s s' \<Longrightarrow> recovering s' \<le> recovering s \<Longrightarrow> good h s' (f s')"
  shows "good h s (bindE m f)"
proof -
  obtain s' where m: "m = Inr s'" "evolves h s s'" "recovering s' \<le> recovering s"
    using assms(1) by (auto simp: good_def)
  then show ?thesis using good_from [OF m(2,3) assms(2) [OF m]] by simp
qed

lemma good_each:
  assumes "\<And>x s'. x \<in> set xs \<Longrightarrow> evolves h s s' \<Longrightarrow> recovering s' \<le> recovering s \<Longrightarrow> good h s' (f x s')"
  shows "good h s (each f xs s)"
  using assms
proof (induction xs arbitrary: s)
  case (Cons x xs)
  have "good h s' (each f xs s')" if ev: "evolves h s s'" and rec: "recovering s' \<le> recovering s" for s'
    by (rule Cons.IH) (meson Cons.prems evolves_trans ev rec le_trans list.set_intros(2))
  then show ?case using Cons.prems [of x s] by (auto intro: good_bind)
qed simp

section \<open>Delayed calls and deaths\<close>

lemma delete_subset: "set (AList.delete k d) \<subseteq> set d"
  by (auto simp: AList.delete_eq)

lemma update_subset: "set (AList.update k v d) \<subseteq> insert (k, v) (set d)"
  by (induction d) auto

lemma lifts_ok_subset: "lifts_ok s \<Longrightarrow> set (ck_delayed s') \<subseteq> set (ck_delayed s) \<Longrightarrow>
  length (ck_locs s') = length (ck_locs s) \<Longrightarrow> ck_isolated_call s' = ck_isolated_call s \<Longrightarrow> lifts_ok s'"
  unfolding lifts_ok_def by (metis subsetD)

lemma iso_cancel_delayed:
  "lifts_ok s \<Longrightarrow> lifts_ok (iso_cancel_call s) \<and> (\<forall>i due. (i, due, LiftIsolation) \<notin> set (ck_delayed (iso_cancel_call s)))"
  by (auto simp: lifts_ok_def iso_cancel_call_def cancel_delayed_call_def AList.delete_eq split: option.split)

lemma cancel_fields [simp]:
  "ck_locs (cancel_delayed_call i s) = ck_locs s" "ck_locations (cancel_delayed_call i s) = ck_locations s"
  "ck_patients (cancel_delayed_call i s) = ck_patients s" "ck_state (cancel_delayed_call i s) = ck_state s"
  "ck_quarantine (cancel_delayed_call i s) = ck_quarantine s" "ck_location (cancel_delayed_call i s) = ck_location s"
  "ck_host_length (cancel_delayed_call i s) = ck_host_length s"
  "ck_self_length (cancel_delayed_call i s) = ck_self_length s"
  "ck_coroner (cancel_delayed_call i s) = ck_coroner s" "ck_isolated_call (cancel_delayed_call i s) = ck_isolated_call s"
  "set (ck_delayed (cancel_delayed_call i s)) \<subseteq> set (ck_delayed s)"
  by (simp_all add: cancel_delayed_call_def delete_subset)

lemma loc_cancel_fields [simp]:
  "ck_locs (loc_cancel_call l s) = ck_locs s" "ck_locations (loc_cancel_call l s) = ck_locations s"
  "ck_patients (loc_cancel_call l s) = ck_patients s" "ck_state (loc_cancel_call l s) = ck_state s"
  "ck_quarantine (loc_cancel_call l s) = ck_quarantine s" "ck_location (loc_cancel_call l s) = ck_location s"
  "ck_host_length (loc_cancel_call l s) = ck_host_length s"
  "ck_self_length (loc_cancel_call l s) = ck_self_length s"
  "ck_coroner (loc_cancel_call l s) = ck_coroner s" "ck_isolated_call (loc_cancel_call l s) = ck_isolated_call s"
  "set (ck_delayed (loc_cancel_call l s)) \<subseteq> set (ck_delayed s)"
  by (simp_all add: loc_cancel_call_def loc_cleanup_call_def split: option.split)

lemma iso_cancel_fields [simp]:
  "ck_locs (iso_cancel_call s) = ck_locs s" "ck_locations (iso_cancel_call s) = ck_locations s"
  "ck_patients (iso_cancel_call s) = ck_patients s" "ck_state (iso_cancel_call s) = ck_state s"
  "ck_quarantine (iso_cancel_call s) = ck_quarantine s" "ck_location (iso_cancel_call s) = ck_location s"
  "ck_host_length (iso_cancel_call s) = ck_host_length s"
  "ck_self_length (iso_cancel_call s) = ck_self_length s"
  "ck_coroner (iso_cancel_call s) = ck_coroner s"
  "set (ck_delayed (iso_cancel_call s)) \<subseteq> set (ck_delayed s)"
  by (simp_all add: iso_cancel_call_def split: option.split)

lemma evolves_cancel [simp]:
  "evolves h s (loc_cancel_call l s)" "recovering (loc_cancel_call l s) = recovering s"
  "evolves h s (iso_cancel_call s)" "recovering (iso_cancel_call s) = recovering s"
  "evolves h s (cancel_delayed_call i s)" "recovering (cancel_delayed_call i s) = recovering s"
proof -
  show "evolves h s (loc_cancel_call l s)"
    by (rule evolves_outside) (simp_all add: lifts_ok_subset [of s "loc_cancel_call l s"])
  show "evolves h s (iso_cancel_call s)"
    by (rule evolves_outside) (simp_all add: iso_cancel_delayed)
  show "evolves h s (cancel_delayed_call i s)"
    by (rule evolves_outside) (simp_all add: lifts_ok_subset [of s "cancel_delayed_call i s"])
qed (rule recovering_cong, simp)+


lemma call_later_fields [simp]:
  "ck_locs (snd (call_later now d c s)) = ck_locs s" "ck_locations (snd (call_later now d c s)) = ck_locations s"
  "ck_patients (snd (call_later now d c s)) = ck_patients s" "ck_state (snd (call_later now d c s)) = ck_state s"
  "ck_quarantine (snd (call_later now d c s)) = ck_quarantine s"
  "ck_location (snd (call_later now d c s)) = ck_location s"
  "ck_host_length (snd (call_later now d c s)) = ck_host_length s"
  "ck_self_length (snd (call_later now d c s)) = ck_self_length s"
  "ck_coroner (snd (call_later now d c s)) = ck_coroner s"
  by (simp_all add: call_later_def Let_def)

lemma loc_schedule_fields [simp]:
  "ck_locs (loc_schedule_call now d c l s) = ck_locs s"
  "ck_locations (loc_schedule_call now d c l s) = ck_locations s"
  "ck_patients (loc_schedule_call now d c l s) = ck_patients s"
  "ck_state (loc_schedule_call now d c l s) = ck_state s"
  "ck_quarantine (loc_schedule_call now d c l s) = ck_quarantine s"
  "ck_location (loc_schedule_call now d c l s) = ck_location s"
  "ck_host_length (loc_schedule_call now d c l s) = ck_host_length s"
  "ck_self_length (loc_schedule_call now d c l s) = ck_self_length s"
  "ck_coroner (loc_schedule_call now d c l s) = ck_coroner s"
  "ck_isolated_call (loc_schedule_call now d c l s) = ck_isolated_call s"
  by (simp_all add: loc_schedule_call_def call_later_def Let_def)

lemma iso_schedule_fields [simp]:
  "ck_locs (iso_schedule_call now d c s) = ck_locs s"
  "ck_locations (iso_schedule_call now d c s) = ck_locations s"
  "ck_patients (iso_schedule_call now d c s) = ck_patients s"
  "ck_state (iso_schedule_call now d c s) = ck_state s"
  "ck_quarantine (iso_schedule_call now d c s) = ck_quarantine s"
  "ck_location (iso_schedule_call now d c s) = ck_location s"
  "ck_host_length (iso_schedule_call now d c s) = ck_host_length s"
  "ck_self_length (iso_schedule_call now d c s) = ck_self_length s"
  "ck_coroner (iso_schedule_call now d c s) = ck_coroner s"
  by (simp_all add: iso_schedule_call_def call_later_def Let_def)

lemma lifts_ok_insert:
  assumes "lifts_ok s" and "set (ck_delayed s') \<subseteq> insert (i, due, LiftLocation l) (set (ck_delayed s))"
    and "length (ck_locs s') = length (ck_locs s)" and "l < length (ck_locs s)"
    and "ck_isolated_call s' = ck_isolated_call s"
  shows "lifts_ok s'"
proof -
  have "x \<in> set (ck_delayed s') \<Longrightarrow> x = (i, due, LiftLocation l) \<or> x \<in> set (ck_delayed s)" for x
    using assms(2) by blast
  then show ?thesis using assms(1,3-5) unfolding lifts_ok_def by fastforce
qed

lemma evolves_schedule [simp]:
  "l < length (ck_locs s) \<Longrightarrow> evolves h s (loc_schedule_call now d (LiftLocation l) l' s)"
  "evolves h s (iso_schedule_call now d LiftIsolation s)"
  "recovering (loc_schedule_call now d c l' s) = recovering s"
  "recovering (iso_schedule_call now d c s) = recovering s"
proof -
  let ?c = "loc_cancel_call l' s" and ?i = "iso_cancel_call s"
  have del: "ck_delayed (loc_schedule_call now d c l' s) =
      AList.update (ck_next_call ?c) (now + d, c) (ck_delayed ?c)" for c
    by (simp add: loc_schedule_call_def call_later_def Let_def)
  have sub: "set (ck_delayed (loc_schedule_call now d c l' s)) \<subseteq>
      insert (ck_next_call ?c, now + d, c) (set (ck_delayed s))" for c
    unfolding del using update_subset [of "ck_next_call ?c" "(now + d, c)" "ck_delayed ?c"]
      loc_cancel_fields(11) [of l' s] by blast
  show "evolves h s (loc_schedule_call now d (LiftLocation l) l' s)" if "l < length (ck_locs s)"
    by (rule evolves_outside) (use that lifts_ok_insert [OF _ sub] in auto)
  have idel: "ck_delayed (iso_schedule_call now d c s) =
      AList.update (ck_next_call ?i) (now + d, c) (ck_delayed ?i)" for c
    by (simp add: iso_schedule_call_def call_later_def Let_def)
  have "lifts_ok (iso_schedule_call now d LiftIsolation s)" if "lifts_ok s"
  proof -
    have "ck_isolated_call (iso_schedule_call now d LiftIsolation s) = Some (ck_next_call ?i)"
      by (simp add: iso_schedule_call_def call_later_def Let_def)
    moreover have "set (ck_delayed (iso_schedule_call now d LiftIsolation s)) \<subseteq>
        insert (ck_next_call ?i, now + d, LiftIsolation) (set (ck_delayed ?i))"
      unfolding idel by (rule update_subset)
    ultimately show ?thesis
      using iso_cancel_delayed [OF that] unfolding lifts_ok_def by (fastforce dest: subsetD)
  qed
  then show "evolves h s (iso_schedule_call now d LiftIsolation s)" by (rule evolves_outside [rotated 8]) simp_all
qed (rule recovering_cong, simp)+

lemma evolves_state: "evolves h s (s\<lparr>ck_state := x\<rparr>)" "recovering (s\<lparr>ck_state := x\<rparr>) = recovering s"
  by (simp_all add: evolves_def static_def dview_def lifts_ok_def recovering_def)

lemma evolves_notify:
  assumes "l < length (ck_locs s)" and "r \<in> snd ` set (loc_patients (the_loc s l))" and "pt_state (h ! r) = Dead"
  shows "evolves h s (notify_death h l r s)" and "recovering (notify_death h l r s) = recovering s"
    and "ck_state (notify_death h l r s) = ck_state s"
proof -
  let ?s = "(upd_loc l (loc_dead_update (insert (pt_key (h ! r)))) s)\<lparr>ck_coroner := ck_coroner s @ [r]\<rparr>"
  have map: "map g (ck_locs ?s) = map g (ck_locs s)" if "\<And>f x. g (loc_dead_update f x) = g x"
    for g :: "location \<Rightarrow> 'a"
    using that by (simp add: upd_loc_def map_upd_same)
  have "static ?s = static s" unfolding static_def map by (simp add: upd_loc_def map_upd_same)
  moreover have "lifts_ok s \<longrightarrow> lifts_ok ?s" by (simp add: lifts_ok_def)
  moreover have "report h (patients_of s) (dview s) (dview ?s)" if "pt_key (h ! r) \<notin> loc_dead (the_loc s l)"
  proof -
    have "map loc_dead (ck_locs ?s) = (map loc_dead (ck_locs s))[l := insert (pt_key (h ! r)) (map loc_dead (ck_locs s) ! l)]"
      using assms(1) by (simp add: upd_loc_def map_update)
    then show ?thesis
      using report.intros [of l "map loc_dead (ck_locs s)" r "patients_of s" h "ck_coroner s"] assms that
      by (simp add: dview_def patients_of_def)
  qed
  ultimately have "evolves h s ?s" if "pt_key (h ! r) \<notin> loc_dead (the_loc s l)"
    using that by (simp add: evolves_def)
  then show "evolves h s (notify_death h l r s)" by (simp add: notify_death_def)
  show "recovering (notify_death h l r s) = recovering s"
    using recovering_upd [OF assms(1), of "loc_dead_update (insert (pt_key (h ! r)))"]
    by (simp add: notify_death_def recovering_def split: if_splits)
  show "ck_state (notify_death h l r s) = ck_state s" by (simp add: notify_death_def)
qed

lemma evolves_bring_out:
  assumes "l < length (ck_locs s)"
  shows "evolves h s (bring_out_your_dead h l s) \<and> recovering (bring_out_your_dead h l s) = recovering s \<and>
    ck_state (bring_out_your_dead h l s) = ck_state s"
proof -
  have "evolves h s (fold (notify_death h l) rs s) \<and> recovering (fold (notify_death h l) rs s) = recovering s \<and>
      ck_state (fold (notify_death h l) rs s) = ck_state s"
    if "\<forall>r \<in> set rs. r \<in> snd ` set (loc_patients (the_loc s l)) \<and> pt_state (h ! r) = Dead"
      "l < length (ck_locs s)" for rs s
    using that
  proof (induction rs arbitrary: s)
    case (Cons r rs)
    let ?s = "notify_death h l r s"
    have n: "evolves h s ?s" "recovering ?s = recovering s" "ck_state ?s = ck_state s"
      using Cons.prems evolves_notify [of l s r h] by auto
    have len: "length (ck_locs ?s) = length (ck_locs s)" using n(1) by (rule evolves_fields(2))
    have pat: "loc_patients (the_loc ?s l) = loc_patients (the_loc s l)"
      using static_loc(3) [OF evolves_static [OF n(1)] Cons.prems(2)] .
    have "evolves h ?s (fold (notify_death h l) rs ?s) \<and>
        recovering (fold (notify_death h l) rs ?s) = recovering ?s \<and>
        ck_state (fold (notify_death h l) rs ?s) = ck_state ?s"
      by (rule Cons.IH) (use Cons.prems len pat in auto)
    then show ?case using n evolves_trans [OF n(1)] by simp
  qed simp
  from this [of "iter_patients h (Some Dead) (the_loc s l)" s] assms
  show ?thesis by (auto simp: bring_out_your_dead_def iter_patients_def)
qed


section \<open>Nested calls return\<close>

definition sc_ok :: "patient list \<Rightarrow> nat \<Rightarrow> callback \<Rightarrow> bool" where
  "sc_ok h k sc \<longleftrightarrow>
     (\<forall>l s. l < length (ck_locs s) \<longrightarrow> locs_ok s \<longrightarrow> recovering s < k \<longrightarrow> good h s (sc l s))"

lemma set_state_good:
  assumes "sc_ok h k sc" "l < length (ck_locs s)" "locs_ok s" "st \<noteq> LRecovering"
    and "loc_state (the_loc s l) = LRecovering \<and> recovering s \<le> k \<or> recovering s < k"
  shows "good h s (set_state sc l st s)"
proof -
  let ?s = "upd_loc l (loc_state_update (\<lambda>_. st)) s"
  have ev: "evolves h s ?s" by (rule evolves_upd_loc) simp_all
  have rec: "recovering ?s + (if loc_state (the_loc s l) = LRecovering then 1 else 0) = recovering s"
    using recovering_upd [OF assms(2), of "loc_state_update (\<lambda>_. st)"] assms(4) by simp
  then have "recovering ?s < k" and le: "recovering ?s \<le> recovering s" using assms(5) by (auto split: if_splits)
  moreover have "locs_ok ?s" using assms(3) by (simp add: locs_ok_def)
  ultimately have "good h ?s (sc l ?s)" using assms(1,2) by (simp add: sc_ok_def)
  then show ?thesis unfolding set_state_def by (rule good_from [OF ev le])
qed

lemma loc_pause_good:
  assumes "sc_ok h k sc" "l < length (ck_locs s)" "locs_ok s" "recovering s \<le> k"
  shows "good h s (loc_pause sc l s)"
proof -
  let ?s = "upd_loc l (loc_paused_update (\<lambda>_. True)) s"
  have ev: "evolves h s ?s" by (rule evolves_upd_loc) simp_all
  have rec: "recovering ?s = recovering s"
    using recovering_upd [OF assms(2), of "loc_paused_update (\<lambda>_. True)"] by simp
  have "good h ?s (set_state sc l LNormal ?s)" if "loc_state (the_loc ?s l) = LRecovering"
    by (rule set_state_good [OF assms(1)]) (use assms rec that in \<open>auto simp: locs_ok_def\<close>)
  then have "good h ?s (if loc_state (the_loc ?s l) = LRecovering then set_state sc l LNormal ?s else Inr ?s)"
    by simp
  from good_from [OF ev _ this] rec show ?thesis by (simp add: loc_pause_def Let_def)
qed

lemma locs_ok_mem: "locs_ok s \<Longrightarrow> l \<in> set (map snd (ck_locations s)) \<Longrightarrow> l < length (ck_locs s)"
  unfolding locs_ok_def by blast

lemma good_each_loc:
  assumes "\<And>l s'. l < length (ck_locs s') \<Longrightarrow> locs_ok s' \<Longrightarrow> recovering s' \<le> k \<Longrightarrow> good h s' (f l s')"
    and "locs_ok s" "recovering s \<le> k"
  shows "good h s (each f (map snd (ck_locations s)) s)"
proof (rule good_each)
  fix l s'
  assume l: "l \<in> set (map snd (ck_locations s))" and ev: "evolves h s s'" and rec: "recovering s' \<le> recovering s"
  have "locs_ok s'" using evolves_fields(3) [OF ev] assms(2) by simp
  moreover have "l < length (ck_locs s')" using locs_ok_mem [OF assms(2) l] evolves_fields(2) [OF ev] by simp
  ultimately show "good h s' (f l s')" using assms(1,3) rec by simp
qed

lemma loc_pause_all_good:
  assumes "sc_ok h k sc" "locs_ok s" "recovering s \<le> k"
  shows "good h s (loc_pause_all sc s)"
  unfolding loc_pause_all_def
proof (rule good_each_loc [OF _ assms(2,3)])
  fix l s' assume l: "l < length (ck_locs s')" and ok: "locs_ok s'" and rec: "recovering s' \<le> k"
  have "good h (loc_cancel_call l s') (loc_pause sc l (loc_cancel_call l s'))"
    by (rule loc_pause_good [OF assms(1)]) (use l ok rec in \<open>simp_all add: locs_ok_def\<close>)
  then show "good h s' (loc_pause sc l (loc_cancel_call l s'))" by (rule good_from [rotated 2]) simp_all
qed

lemma check_isolated_good:
  assumes "sc_ok h k sc" "locs_ok s" "recovering s \<le> k"
  shows "\<exists>b s'. check_isolated sc h now s = Inr (b, s') \<and> evolves h s s' \<and> recovering s' \<le> recovering s \<and>
    (\<not> b \<longrightarrow> s' = s)"
proof -
  let ?s = "iso_schedule_call now (ck_self_length s) LiftIsolation (s\<lparr>ck_state := MIsolated\<rparr>)"
  have ev: "evolves h s ?s" by (rule evolves_trans [OF evolves_state(1) [of h s MIsolated]]) simp
  have rec: "recovering ?s = recovering s" by (simp add: evolves_state)
  have "good h ?s (loc_pause_all sc ?s)"
    by (rule loc_pause_all_good [OF assms(1)]) (use assms(2,3) rec in \<open>simp_all add: locs_ok_def\<close>)
  then have "good h s (loc_pause_all sc ?s)" by (rule good_from [OF ev, rotated]) (use rec in \<open>simp add: evolves_state\<close>)
  then show ?thesis by (auto simp: check_isolated_def good_def)
qed

lemma need_quarantine_good:
  assumes "sc_ok h k sc" "l < length (ck_locs s)" "locs_ok s"
    and "loc_state (the_loc s l) = LIsolated \<and> recovering s \<le> k \<or> recovering s < k"
  shows "good h s (need_quarantine sc h now l s)"
proof -
  obtain b s1 where ci: "check_isolated sc h now s = Inr (b, s1)" "evolves h s s1"
    "recovering s1 \<le> recovering s" "\<not> b \<longrightarrow> s1 = s"
    using check_isolated_good [OF assms(1,3), of now] assms(4) by fastforce
  have "good h s (loc_start_quarantine sc h now l s)"
  proof (cases b)
    case True
    with ci show ?thesis by (simp add: loc_start_quarantine_def goodI)
  next
    case False
    with ci have s1: "s1 = s" by simp
    let ?s = "loc_cancel_call l s"
    have "good h ?s (start_quarantine sc l ?s)"
    proof (cases "loc_state (the_loc s l) = LIsolated")
      case True
      then show ?thesis by (simp add: start_quarantine_def)
    next
      case False
      have "good h ?s (set_state sc l LIsolated ?s)"
        by (rule set_state_good [OF assms(1)]) (use assms False in \<open>simp_all add: locs_ok_def\<close>)
      with False show ?thesis by (simp add: start_quarantine_def)
    qed
    then have "good h s (start_quarantine sc l ?s)" by (rule good_from [rotated 2]) simp_all
    with ci(1) False s1 show ?thesis by (simp add: loc_start_quarantine_def)
  qed
  then show ?thesis
    unfolding need_quarantine_def
  proof (rule good_bind)
    fix s' assume ev: "evolves h s s'"
    have "l < length (ck_locs s')" using evolves_fields(2) [OF ev] assms(2) by simp
    then show "good h s' (Inr (if ck_state s' \<noteq> MIsolated then loc_schedule_lift now l s' else s'))"
      by (simp add: loc_schedule_lift_def goodI)
  qed
qed

lemma iter_nonempty: "count_patients h st loc > 0 \<longleftrightarrow> iter_patients h st loc \<noteq> []"
  by (simp add: count_patients_def)

lemma list_max_total: "xs \<noteq> [] \<Longrightarrow> \<exists>m. list_max xs = Inr m"
  by (cases xs) (simp_all add: list_max_def)

lemma recovery_delay:
  assumes "count_dead h loc > 0 \<or> count_dying h loc > 0"
  shows "\<exists>m. list_max (map (\<lambda>r. pt_period (h ! r))
    (filter (\<lambda>r. pt_state (h ! r) \<noteq> Alive) (map snd (loc_patients loc)))) = Inr m"
proof (rule list_max_total)
  obtain r where "r \<in> set (map snd (loc_patients loc))" "pt_state (h ! r) \<noteq> Alive"
    using assms unfolding count_dead_def count_dying_def iter_nonempty iter_patients_def filter_empty_conv
    by (metis option.simps(5) patient_state.distinct(2,4))
  then show "map (\<lambda>r. pt_period (h ! r)) (filter (\<lambda>r. pt_state (h ! r) \<noteq> Alive) (map snd (loc_patients loc))) \<noteq> []"
    by (auto simp: filter_empty_conv)
qed

lemma location_recovering_good:
  assumes "l < length (ck_locs s)" and "loc_state (the_loc s l) = LRecovering"
  shows "good h s (location_recovering sc h now l s)"
proof -
  have "\<exists>d. start_recovery sc h l s = Inr (d, s)"
    using assms(2) recovery_delay [of h "the_loc s l"] by (auto simp: start_recovery_def)
  then obtain d where "start_recovery sc h l s = Inr (d, s)" by blast
  then show ?thesis using assms(1) by (simp add: location_recovering_def goodI)
qed

lemma loc_resume_good:
  assumes "sc_ok h k sc" "l < length (ck_locs s)" "locs_ok s" "recovering s \<le> k"
  shows "good h s (loc_resume sc h now l s)"
proof -
  let ?s = "upd_loc l (loc_paused_update (\<lambda>_. False)) s"
  have ev: "evolves h s ?s" by (rule evolves_upd_loc) simp_all
  have rec: "recovering ?s = recovering s"
    using recovering_upd [OF assms(2), of "loc_paused_update (\<lambda>_. False)"] by simp
  have len: "l < length (ck_locs ?s)" and ok: "locs_ok ?s" using assms by (simp_all add: locs_ok_def)
  have "good h ?s (Inr (bring_out_your_dead h l ?s))"
    using evolves_bring_out [OF len, of h] by (intro goodI) simp_all
  moreover have "good h ?s (need_quarantine sc h now l ?s)" if "loc_state (the_loc ?s l) = LIsolated"
    by (rule need_quarantine_good [OF assms(1) len ok]) (use assms(4) rec that in simp)
  moreover have "good h ?s (location_recovering sc h now l ?s)" if "loc_state (the_loc ?s l) = LRecovering"
    by (rule location_recovering_good [OF len that])
  ultimately have "good h ?s
     (if \<not> loc_quarantine (the_loc ?s l) then Inr (bring_out_your_dead h l ?s)
      else if loc_state (the_loc ?s l) = LIsolated then need_quarantine sc h now l ?s
      else if loc_state (the_loc ?s l) = LRecovering then location_recovering sc h now l ?s
      else Inr ?s)" by simp
  from good_from [OF ev _ this] rec show ?thesis by (simp add: loc_resume_def Let_def)
qed

lemma loc_resume_all_good:
  assumes "sc_ok h k sc" "locs_ok s" "recovering s \<le> k"
  shows "good h s (loc_resume_all sc h now s)"
  unfolding loc_resume_all_def
  by (rule good_each_loc [OF loc_resume_good [OF assms(1)] assms(2,3)])

lemma state_changed_body_good:
  assumes "sc_ok h k sc" "locs_ok s" "recovering s \<le> k"
  shows "good h s (state_changed_body sc h now l s)"
proof -
  let ?s = "if loc_state (the_loc s l) = LNormal then loc_cancel_call l s else s"
  have ev: "evolves h s ?s" and rec: "recovering ?s = recovering s" by simp_all
  let ?n = "iso_cancel_call (?s\<lparr>ck_state := MNormal\<rparr>)"
  have evn: "evolves h ?s ?n" by (rule evolves_trans [OF evolves_state(1) [of h ?s MNormal] evolves_cancel(3)])
  have recn: "recovering ?n = recovering s" using rec by (simp add: evolves_state)
  have "good h ?n (loc_resume_all sc h now ?n)"
    by (rule loc_resume_all_good [OF assms(1)]) (use assms(2,3) recn in \<open>simp_all add: locs_ok_def\<close>)
  then have resume: "good h ?s (loc_resume_all sc h now ?n)"
    by (rule good_from [OF evn, rotated]) (use rec recn in simp)
  have normal: "good h ?s (Inr (?s\<lparr>ck_state := MNormal\<rparr>))"
    by (rule goodI) (simp_all add: evolves_state)
  have "good h ?s (state_changed_body sc h now l s)"
    unfolding state_changed_body_def Let_def
    using resume normal by (cases "ck_state ?s") (simp_all split: if_split)
  then show ?thesis by (rule good_from [OF ev, rotated]) (use rec in simp)
qed

lemma location_state_changed_ok: "sc_ok h k (location_state_changed k h now)"
proof (induction k)
  case (Suc k)
  then show ?case
    using state_changed_body_good [OF Suc.IH] by (simp add: sc_ok_def less_Suc_eq_le)
qed (simp add: sc_ok_def)

lemma recovering_bound: "recovering s \<le> length (ck_locs s)"
  by (simp add: recovering_def)

lemma state_changed_good: "locs_ok s \<Longrightarrow> good h s (state_changed h now l s)"
  unfolding state_changed_def location_state_changed.simps
  by (rule state_changed_body_good [OF location_state_changed_ok]) (simp_all add: recovering_bound)

lemma state_changed_ok: "sc_ok h k (state_changed h now)"
  by (simp add: sc_ok_def state_changed_good)

end
