(* ===== verification/ClerkSafety.thy ===== *)
theory ClerkSafety
  imports ClerkProps
begin

text \<open>
  The clerk's interface.  The invariant \<open>clerk_wf\<close> ties the table of patients, the table of
  locations and the location objects together; every operation on a patient the clerk knows
  returns and keeps it.  The sections on reports show when the coroner is told of a death.
\<close>

section \<open>Operations return\<close>

definition fine :: "patient list \<Rightarrow> clerk \<Rightarrow> exn + clerk \<Rightarrow> bool" where
  "fine h s r \<longleftrightarrow> (\<exists>s'. r = Inr s' \<and> evolves h s s')"

lemma good_fine: "good h s r \<Longrightarrow> fine h s r"
  by (auto simp: good_def fine_def)

lemma fineI: "evolves h s s' \<Longrightarrow> fine h s (Inr s')"
  by (simp add: fine_def)

lemma fine_Inr [simp]: "fine h s (Inr s)"
  by (simp add: fine_def)

lemma fine_from: "evolves h s s' \<Longrightarrow> fine h s' r \<Longrightarrow> fine h s r"
  unfolding fine_def using evolves_trans by blast

lemma fine_bind:
  assumes "fine h s m" and "\<And>s'. m = Inr s' \<Longrightarrow> evolves h s s' \<Longrightarrow> fine h s' (f s')"
  shows "fine h s (bindE m f)"
proof -
  obtain s' where m: "m = Inr s'" "evolves h s s'" using assms(1) by (auto simp: fine_def)
  then show ?thesis using fine_from [OF m(2) assms(2) [OF m]] by simp
qed

lemma set_state_fine:
  assumes "locs_ok s"
  shows "fine h s (set_state (state_changed h now) l st s)"
proof -
  let ?s = "upd_loc l (loc_state_update (\<lambda>_. st)) s"
  have ev: "evolves h s ?s" by (rule evolves_upd_loc) simp_all
  moreover have "locs_ok ?s" using assms by (simp add: locs_ok_def)
  ultimately show ?thesis
    unfolding set_state_def using fine_from [OF ev good_fine [OF state_changed_good]] by blast
qed

lemma need_quarantine_fine:
  "l < length (ck_locs s) \<Longrightarrow> locs_ok s \<Longrightarrow> fine h s (need_quarantine (state_changed h now) h now l s)"
  by (rule good_fine [OF need_quarantine_good [OF state_changed_ok [of h "Suc (recovering s)"]]]) simp_all

lemma location_recovering_fine:
  assumes "l < length (ck_locs s)" "locs_ok s"
  shows "fine h s (location_recovering (state_changed h now) h now l s)"
proof -
  let ?sc = "state_changed h now"
  let ?set = "if loc_state (the_loc s l) \<noteq> LRecovering then set_state ?sc l LRecovering s else Inr s"
  have "\<exists>d s'. start_recovery ?sc h l s = Inr (d, s') \<and> evolves h s s'"
  proof (cases "count_dead h (the_loc s l) > 0 \<or> count_dying h (the_loc s l) > 0")
    case True
    have "fine h s ?set" using set_state_fine [OF assms(2)] by simp
    then obtain s' where s': "?set = Inr s'" and ev: "evolves h s s'" by (auto simp: fine_def)
    have "loc_patients (the_loc s' l) = loc_patients (the_loc s l)"
      by (rule static_loc(3) [OF evolves_static [OF ev] assms(1)])
    then show ?thesis
      using True recovery_delay [OF True] ev unfolding start_recovery_def s' by auto
  qed (simp add: start_recovery_def)
  then obtain d s' where start: "start_recovery ?sc h l s = Inr (d, s')" and ev: "evolves h s s'" by blast
  have "l < length (ck_locs s')" using evolves_fields(2) [OF ev] assms(1) by simp
  then have "fine h s' (Inr (loc_schedule_call now d (LiftLocation l) l s'))" by (intro fineI) simp
  with start show ?thesis using fine_from [OF ev] by (simp add: location_recovering_def)
qed

lemma quarantine_lifted_fine:
  assumes "l < length (ck_locs s)" "locs_ok s"
  shows "fine h s (quarantine_lifted h now l s)"
  unfolding quarantine_lifted_def
proof (rule fine_bind [OF set_state_fine [OF assms(2)]])
  fix s' assume ev: "evolves h s s'"
  have "l < length (ck_locs s')" using evolves_fields(2) [OF ev] assms(1) by simp
  then show "fine h s' (Inr (bring_out_your_dead h l s'))" using evolves_bring_out by (intro fineI) blast
qed

lemma check_quarantine_fine:
  assumes "l < length (ck_locs s)" "locs_ok s"
  shows "fine h s (check_quarantine h now l s)"
proof -
  have "fine h s (bindE (set_state (state_changed h now) l LIsolated s) (\<lambda>s.
          if loc_paused (the_loc s l) then Inr s else need_quarantine (state_changed h now) h now l s))"
  proof (rule fine_bind [OF set_state_fine [OF assms(2)]])
    fix s' assume ev: "evolves h s s'"
    have "l < length (ck_locs s')" "locs_ok s'" using evolves_fields(2,3) [OF ev] assms by simp_all
    from need_quarantine_fine [OF this, of h now]
    show "fine h s' (if loc_paused (the_loc s' l) then Inr s' else need_quarantine (state_changed h now) h now l s')"
      by simp
  qed
  then show ?thesis by (simp add: check_quarantine_def)
qed

section \<open>The invariant\<close>

definition clerk_wf :: "patient list \<Rightarrow> clerk \<Rightarrow> bool" where
  "clerk_wf h s \<longleftrightarrow>
     dict_ok (ck_locations s) \<and> lifts_ok s \<and>
     (\<forall>name l. map_of (ck_locations s) name = Some l \<longrightarrow>
        l < length (ck_locs s) \<and> loc_name (the_loc s l) = name) \<and>
     (\<forall>k l. map_of (ck_patients s) k = Some l \<longrightarrow>
        l < length (ck_locs s) \<and> map_of (ck_locations s) (loc_name (the_loc s l)) = Some l \<and>
        dict_has (loc_patients (the_loc s l)) k) \<and>
     (\<forall>l < length (ck_locs s).
        dict_ok (loc_patients (the_loc s l)) \<and> loc_dead (the_loc s l) \<subseteq> dom (map_of (loc_patients (the_loc s l))) \<and>
        (\<forall>k r. map_of (loc_patients (the_loc s l)) k = Some r \<longrightarrow>
           map_of (ck_patients s) k = Some l \<and> r < length h \<and> pt_key (h ! r) = k \<and>
           pt_location (h ! r) = loc_name (the_loc s l)))"

lemma wf_locs_ok: "clerk_wf h s \<Longrightarrow> locs_ok s"
  unfolding locs_ok_def clerk_wf_def
  by (metis (no_types, lifting) imageE list.set_map map_of_eq_Some_iff prod.collapse)

lemma report_flags:
  assumes "(report h P)\<^sup>*\<^sup>* v w"
    and "\<forall>l < length (fst v). fst v ! l \<subseteq> K l \<and> (\<forall>r \<in> snd ` set (P ! l). pt_key (h ! r) \<in> K l)"
  shows "length (fst w) = length (fst v) \<and> (\<forall>l < length (fst v). fst v ! l \<subseteq> fst w ! l \<and> fst w ! l \<subseteq> K l)"
  using assms
proof (induction rule: rtranclp_induct)
  case (step w x)
  from step(2) show ?case
  proof (cases rule: report.cases)
    case (1 l D r out)
    with step.IH step.prems show ?thesis by (auto simp: nth_list_update)
  qed
qed simp

lemma wf_location:
  "clerk_wf h s \<Longrightarrow> map_of (ck_locations s) name = Some l \<Longrightarrow> l < length (ck_locs s) \<and> loc_name (the_loc s l) = name"
  unfolding clerk_wf_def by blast

lemma wf_patient:
  "clerk_wf h s \<Longrightarrow> map_of (ck_patients s) k = Some l \<Longrightarrow> l < length (ck_locs s) \<and>
     map_of (ck_locations s) (loc_name (the_loc s l)) = Some l \<and> dict_has (loc_patients (the_loc s l)) k"
  unfolding clerk_wf_def by blast

lemma wf_loc:
  assumes "clerk_wf h s" "l < length (ck_locs s)"
  shows "dict_ok (loc_patients (the_loc s l))" "loc_dead (the_loc s l) \<subseteq> dom (map_of (loc_patients (the_loc s l)))"
    "map_of (loc_patients (the_loc s l)) k = Some r \<Longrightarrow> map_of (ck_patients s) k = Some l \<and> r < length h \<and>
       pt_key (h ! r) = k \<and> pt_location (h ! r) = loc_name (the_loc s l)"
  using assms unfolding clerk_wf_def by blast+

lemma wf_tables: "clerk_wf h s \<Longrightarrow> dict_ok (ck_locations s)" "clerk_wf h s \<Longrightarrow> lifts_ok s"
  unfolding clerk_wf_def by blast+

lemma wfI:
  assumes "dict_ok (ck_locations s)" "lifts_ok s"
    and "\<And>name l. map_of (ck_locations s) name = Some l \<Longrightarrow> l < length (ck_locs s) \<and> loc_name (the_loc s l) = name"
    and "\<And>k l. map_of (ck_patients s) k = Some l \<Longrightarrow> l < length (ck_locs s) \<and>
      map_of (ck_locations s) (loc_name (the_loc s l)) = Some l \<and> dict_has (loc_patients (the_loc s l)) k"
    and "\<And>l. l < length (ck_locs s) \<Longrightarrow> dict_ok (loc_patients (the_loc s l)) \<and>
      loc_dead (the_loc s l) \<subseteq> dom (map_of (loc_patients (the_loc s l)))"
    and "\<And>l k r. l < length (ck_locs s) \<Longrightarrow> map_of (loc_patients (the_loc s l)) k = Some r \<Longrightarrow>
      map_of (ck_patients s) k = Some l \<and> r < length h \<and> pt_key (h ! r) = k \<and>
      pt_location (h ! r) = loc_name (the_loc s l)"
  shows "clerk_wf h s"
  unfolding clerk_wf_def using assms by blast

lemma wf_static:
  assumes wf: "clerk_wf h s" and "static s' = static s" and "lifts_ok s'"
    and dead: "\<And>l. l < length (ck_locs s) \<Longrightarrow> loc_dead (the_loc s' l) \<subseteq> dom (map_of (loc_patients (the_loc s l)))"
  shows "clerk_wf h s'"
proof -
  note st = static_fields [OF assms(2)]
  note loc = static_loc [OF assms(2)]
  show ?thesis
    unfolding clerk_wf_def st(1,2,5)
  proof (intro conjI allI impI)
    show "dict_ok (ck_locations s)" using wf by (simp add: clerk_wf_def)
    show "lifts_ok s'" by (rule assms(3))
  next
    fix name l assume "map_of (ck_locations s) name = Some l"
    from wf_location [OF wf this] loc(1) [of l]
    show "l < length (ck_locs s)" "loc_name (the_loc s' l) = name" by simp_all
  next
    fix k l assume "map_of (ck_patients s) k = Some l"
    from wf_patient [OF wf this] loc [of l]
    show "l < length (ck_locs s)" "map_of (ck_locations s) (loc_name (the_loc s' l)) = Some l"
      "dict_has (loc_patients (the_loc s' l)) k" by simp_all
  next
    fix l assume l: "l < length (ck_locs s)"
    show "dict_ok (loc_patients (the_loc s' l))"
      "loc_dead (the_loc s' l) \<subseteq> dom (map_of (loc_patients (the_loc s' l)))"
      using wf_loc(1) [OF wf l] dead [OF l] loc(3) [OF l] by simp_all
    fix k r assume "map_of (loc_patients (the_loc s' l)) k = Some r"
    then have "map_of (loc_patients (the_loc s l)) k = Some r" using loc(3) [OF l] by simp
    from wf_loc(3) [OF wf l this] loc(1) [OF l]
    show "map_of (ck_patients s) k = Some l" "r < length h" "pt_key (h ! r) = k"
      "pt_location (h ! r) = loc_name (the_loc s' l)" by simp_all
  qed
qed

lemma wf_evolves:
  assumes "clerk_wf h s" and "evolves h s s'"
  shows "clerk_wf h s'"
proof -
  note st = static_fields [OF evolves_static [OF assms(2)]]
  let ?K = "\<lambda>l. dom (map_of (loc_patients (the_loc s l)))"
  have keys: "pt_key (h ! r) \<in> ?K l" if l: "l < length (ck_locs s)" and r: "r \<in> snd ` set (patients_of s ! l)" for l r
  proof -
    from l r obtain k where "(k, r) \<in> set (loc_patients (the_loc s l))" by (auto simp: patients_of_def)
    then have "map_of (loc_patients (the_loc s l)) k = Some r" using wf_loc(1) [OF assms(1) l] by simp
    with wf_loc(3) [OF assms(1) l this] show ?thesis by auto
  qed
  have run: "(report h (patients_of s))\<^sup>*\<^sup>* (dview s) (dview s')" using assms(2) by (simp add: evolves_def)
  have "\<forall>l < length (fst (dview s)). fst (dview s) ! l \<subseteq> ?K l \<and> (\<forall>r \<in> snd ` set (patients_of s ! l). pt_key (h ! r) \<in> ?K l)"
    using wf_loc(2) [OF assms(1)] keys by (simp add: dview_def)
  note flags = report_flags [OF run this]
  show ?thesis
  proof (rule wf_static [OF assms(1) evolves_static [OF assms(2)]])
    show "lifts_ok s'" using assms by (simp add: evolves_def clerk_wf_def)
    fix l assume "l < length (ck_locs s)"
    then show "loc_dead (the_loc s' l) \<subseteq> ?K l" using flags st(5) by (simp add: dview_def)
  qed
qed

definition known :: "patient list \<Rightarrow> clerk \<Rightarrow> nat \<Rightarrow> lref \<Rightarrow> bool" where
  "known h s r l \<longleftrightarrow>
     map_of (ck_patients s) (pt_key (h ! r)) = Some l \<and>
     map_of (loc_patients (the_loc s l)) (pt_key (h ! r)) = Some r"

lemma known_loc:
  assumes "clerk_wf h s" "known h s r l"
  shows "l < length (ck_locs s)" "r < length h" "map_of (ck_locations s) (pt_location (h ! r)) = Some l"
    "r \<in> snd ` set (loc_patients (the_loc s l))"
proof -
  show l: "l < length (ck_locs s)" using assms unfolding clerk_wf_def known_def by blast
  show "r < length h" "map_of (ck_locations s) (pt_location (h ! r)) = Some l"
    using assms l unfolding clerk_wf_def known_def by metis+
  show "r \<in> snd ` set (loc_patients (the_loc s l))"
    using assms by (force simp: known_def dest: map_of_SomeD)
qed

section \<open>The callbacks on known patients\<close>

lemma clerk_dying_total: "clerk_wf h s \<Longrightarrow> known h s r l \<Longrightarrow> clerk_patient_dying h r s = Inr s"
  by (simp add: clerk_patient_dying_def with_location_def known_def loc_patient_dying_def)

lemma clerk_died_fine:
  assumes wf: "clerk_wf h s" and k: "known h s r l" and "pt_state (h ! r) = Dead"
  shows "fine h s (clerk_patient_died h now r s)"
proof -
  note l = known_loc [OF wf k]
  have "fine h s (Inr (notify_death h l r s))"
    by (rule fineI [OF evolves_notify(1) [OF l(1,4) assms(3)]])
  moreover have "fine h s (check_quarantine h now l s)"
    by (rule check_quarantine_fine [OF l(1) wf_locs_ok [OF wf]])
  ultimately show ?thesis
    using k by (simp add: clerk_patient_died_def with_location_def known_def loc_patient_died_def)
qed

definition undead :: "lref \<Rightarrow> string \<Rightarrow> clerk \<Rightarrow> clerk" where
  "undead l key = upd_loc l (\<lambda>loc. loc\<lparr>loc_dead := loc_dead loc - {key}\<rparr>)"

lemma undead_wf: "clerk_wf h s \<Longrightarrow> clerk_wf h (undead l key s)"
proof -
  assume wf: "clerk_wf h s"
  show ?thesis
  proof (rule wf_static [OF wf])
  show "static (undead l key s) = static s"
    by (simp add: undead_def static_def upd_loc_def map_upd_same)
  show "lifts_ok (undead l key s)" using wf by (simp add: clerk_wf_def undead_def lifts_ok_def)
  show "loc_dead (the_loc (undead l key s) l') \<subseteq> dom (map_of (loc_patients (the_loc s l')))"
    if "l' < length (ck_locs s)" for l'
    using wf_loc(2) [OF wf that] by (auto simp: undead_def)
  qed
qed

lemma clerk_resurrected_fine:
  assumes wf: "clerk_wf h s" and k: "known h s r l"
  shows "fine h (undead l (pt_key (h ! r)) s) (clerk_patient_resurrected h now r s)"
proof -
  let ?s = "undead l (pt_key (h ! r)) s" and ?sc = "state_changed h now"
  have l: "l < length (ck_locs ?s)" using known_loc [OF wf k] by (simp add: undead_def)
  have ok: "locs_ok ?s" by (rule wf_locs_ok [OF undead_wf [OF wf]])
  have "fine h ?s (set_state ?sc l LNormal ?s)" by (rule set_state_fine [OF ok])
  moreover have "fine h ?s (bindE (set_state ?sc l LRecovering ?s) (\<lambda>s.
      if loc_paused (the_loc s l) then Inr s else location_recovering ?sc h now l s))"
  proof (rule fine_bind [OF set_state_fine [OF ok]])
    fix s' assume ev: "evolves h ?s s'"
    have "l < length (ck_locs s')" "locs_ok s'" using evolves_fields(2,3) [OF ev] l ok by simp_all
    from location_recovering_fine [OF this, of h now]
    show "fine h s' (if loc_paused (the_loc s' l) then Inr s' else location_recovering ?sc h now l s')" by simp
  qed
  ultimately show ?thesis
    using k by (simp add: clerk_patient_resurrected_def with_location_def known_def
        loc_patient_resurrected_def Let_def undead_def)
qed

lemma clerk_disconnected_fine:
  assumes "clerk_wf h s"
  shows "fine h s (on_disconnected h now s)"
proof -
  let ?s = "(iso_cancel_call s)\<lparr>ck_state := MDisconnected\<rparr>"
  have ev: "evolves h s ?s" by (rule evolves_trans [OF evolves_cancel(3) evolves_state(1)])
  have "locs_ok ?s" using wf_locs_ok [OF assms] by (simp add: locs_ok_def)
  from good_fine [OF loc_pause_all_good [OF state_changed_ok this order_refl]]
  show ?thesis using fine_from [OF ev] by (simp add: on_disconnected_def)
qed

lemma loc_resume_all_fine: "locs_ok s \<Longrightarrow> fine h s (loc_resume_all (state_changed h now) h now s)"
  by (rule good_fine [OF loc_resume_all_good [OF state_changed_ok _ order_refl]])

lemma clerk_reconnected_fine:
  assumes "clerk_wf h s"
  shows "fine h s (on_reconnected h now s)"
proof -
  let ?s = "s\<lparr>ck_state := MNormal\<rparr>"
  have ok: "locs_ok ?s" using wf_locs_ok [OF assms] by (simp add: locs_ok_def)
  have "fine h ?s (bindE (loc_resume_all (state_changed h now) h now ?s) (\<lambda>s.
             bindE (check_isolated (state_changed h now) h now s) (\<lambda>(_, s). Inr s)))"
  proof (rule fine_bind [OF loc_resume_all_fine [OF ok]])
    fix s' assume ev: "evolves h ?s s'"
    have "locs_ok s'" using evolves_fields(3) [OF ev] ok by simp
    from check_isolated_good [OF state_changed_ok this order_refl]
    obtain b s2 where "check_isolated (state_changed h now) h now s' = Inr (b, s2)" "evolves h s' s2" by blast
    then show "fine h s' (bindE (check_isolated (state_changed h now) h now s') (\<lambda>(_, s). Inr s))"
      by (simp add: fineI)
  qed
  then show ?thesis using fine_from [OF evolves_state(1)] by (simp add: on_reconnected_def)
qed

lemma fire_call_fine:
  assumes "clerk_wf h s"
  shows "fine h s (fire_call h now i s)"
proof (cases "map_of (ck_delayed s) i")
  case None
  then show ?thesis by (simp add: fire_call_def)
next
  case (Some dc)
  obtain due call where dc: "dc = (due, call)" by (cases dc)
  let ?s = "cancel_delayed_call i s"
  have ok: "locs_ok ?s" using wf_locs_ok [OF assms] by (simp add: locs_ok_def)
  have "fine h ?s (case call of LiftLocation l \<Rightarrow> quarantine_lifted h now l ?s | LiftIsolation \<Rightarrow> iso_lift_quarantine h now ?s)"
  proof (cases call)
    case (LiftLocation l)
    have "(i, due, LiftLocation l) \<in> set (ck_delayed s)" using Some dc LiftLocation by (simp add: map_of_SomeD)
    then have "l < length (ck_locs s)" using assms unfolding clerk_wf_def lifts_ok_def by blast
    then show ?thesis using quarantine_lifted_fine [OF _ ok, of l h now] LiftLocation by simp
  next
    case LiftIsolation
    have "locs_ok (?s\<lparr>ck_state := MRecovering\<rparr>)" using ok by (simp add: locs_ok_def)
    from fine_from [OF evolves_state(1) loc_resume_all_fine [OF this]] LiftIsolation
    show ?thesis by (simp add: iso_lift_quarantine_def)
  qed
  then show ?thesis using Some dc fine_from [OF evolves_cancel(5) [of h s i]] by (simp add: fire_call_def Let_def)
qed


section \<open>Adding and removing patients\<close>

lemma wf_heap:
  assumes "clerk_wf h s"
    and "\<And>r. r < length h \<Longrightarrow> r < length h' \<and> pt_key (h' ! r) = pt_key (h ! r) \<and> pt_location (h' ! r) = pt_location (h ! r)"
  shows "clerk_wf h' s"
proof (rule wfI)
  fix l k r assume "l < length (ck_locs s)" "map_of (loc_patients (the_loc s l)) k = Some r"
  from wf_loc(3) [OF assms(1) this] assms(2) [of r]
  show "map_of (ck_patients s) k = Some l \<and> r < length h' \<and> pt_key (h' ! r) = k \<and>
      pt_location (h' ! r) = loc_name (the_loc s l)" by simp
qed (use wf_tables [OF assms(1)] wf_location [OF assms(1)] wf_patient [OF assms(1)] wf_loc(1,2) [OF assms(1)] in blast)+

definition add_location :: "string \<Rightarrow> clerk \<Rightarrow> clerk" where
  "add_location name s =
     s\<lparr>ck_locs := ck_locs s @ [mk_location name (ck_quarantine s)],
       ck_locations := AList.update name (length (ck_locs s)) (ck_locations s)\<rparr>"

lemma add_location_wf:
  assumes wf: "clerk_wf h s" and new: "map_of (ck_locations s) name = None"
  shows "clerk_wf h (add_location name s)"
proof -
  let ?s = "add_location name s" and ?n = "length (ck_locs s)"
  have loc: "the_loc ?s l = (if l < ?n then the_loc s l else mk_location name (ck_quarantine s))"
    if "l < Suc ?n" for l
    using that by (auto simp: add_location_def nth_append less_Suc_eq)
  have len: "length (ck_locs ?s) = Suc ?n" and pats: "ck_patients ?s = ck_patients s"
    and locs: "map_of (ck_locations ?s) = (map_of (ck_locations s))(name \<mapsto> ?n)"
    by (simp_all add: add_location_def dict_simps fun_eq_iff)
  show ?thesis
    unfolding clerk_wf_def len pats locs
  proof (intro conjI allI impI)
    show "dict_ok (ck_locations ?s)" using wf_tables(1) [OF wf] by (simp add: add_location_def distinct_update)
    show "lifts_ok ?s" using wf_tables(2) [OF wf] by (auto simp: add_location_def lifts_ok_def less_Suc_eq)
  next
    fix nm l assume "((map_of (ck_locations s))(name \<mapsto> ?n)) nm = Some l"
    then show "l < Suc ?n" "loc_name (the_loc ?s l) = nm"
      using wf_location [OF wf, of nm l] loc [of l] by (auto simp: mk_location_def split: if_splits)
  next
    fix k l assume "map_of (ck_patients s) k = Some l"
    from wf_patient [OF wf this] loc [of l] new
    show "l < Suc ?n" "((map_of (ck_locations s))(name \<mapsto> ?n)) (loc_name (the_loc ?s l)) = Some l"
      "dict_has (loc_patients (the_loc ?s l)) k" by auto
  next
    fix l assume l: "l < Suc ?n"
    show "dict_ok (loc_patients (the_loc ?s l))"
      "loc_dead (the_loc ?s l) \<subseteq> dom (map_of (loc_patients (the_loc ?s l)))"
      using loc [OF l] wf_loc(1,2) [OF wf, of l] by (simp_all add: mk_location_def)
    fix k r assume "map_of (loc_patients (the_loc ?s l)) k = Some r"
    then show "map_of (ck_patients s) k = Some l" "r < length h" "pt_key (h ! r) = k"
      "pt_location (h ! r) = loc_name (the_loc ?s l)"
      using loc [OF l] wf_loc(3) [OF wf, of l k r] by (auto simp: mk_location_def split: if_splits)
  qed
qed

definition check_in :: "lref \<Rightarrow> string \<Rightarrow> nat \<Rightarrow> clerk \<Rightarrow> clerk" where
  "check_in l key r s =
     (upd_loc l (\<lambda>loc. loc\<lparr>loc_patients := AList.update key r (loc_patients loc)\<rparr>) s)
       \<lparr>ck_patients := AList.update key l (ck_patients s)\<rparr>"

lemma check_in_wf:
  assumes wf: "clerk_wf h s" and r: "r < length h" and new: "map_of (ck_patients s) (pt_key (h ! r)) = None"
    and l: "map_of (ck_locations s) (pt_location (h ! r)) = Some l"
  shows "clerk_wf h (check_in l (pt_key (h ! r)) r s)"
proof -
  let ?k = "pt_key (h ! r)" and ?s = "check_in l (pt_key (h ! r)) r s"
  note ln = wf_location [OF wf l]
  have loc: "the_loc ?s l' = (if l' = l then (the_loc s l)\<lparr>loc_patients := AList.update ?k r (loc_patients (the_loc s l))\<rparr>
      else the_loc s l')" for l'
    using ln by (auto simp: check_in_def)
  have len: "length (ck_locs ?s) = length (ck_locs s)" and locs: "ck_locations ?s = ck_locations s"
    and pats: "map_of (ck_patients ?s) = (map_of (ck_patients s))(?k \<mapsto> l)"
    by (simp_all add: check_in_def dict_simps fun_eq_iff)
  show ?thesis
    unfolding clerk_wf_def len locs pats
  proof (intro conjI allI impI)
    show "dict_ok (ck_locations s)" "lifts_ok ?s"
      using wf_tables [OF wf] by (simp_all add: check_in_def lifts_ok_def)
  next
    fix nm l' assume "map_of (ck_locations s) nm = Some l'"
    then show "l' < length (ck_locs s)" "loc_name (the_loc ?s l') = nm"
      using wf_location [OF wf, of nm l'] loc [of l'] by auto
  next
    fix k l' assume "((map_of (ck_patients s))(?k \<mapsto> l)) k = Some l'"
    then show "l' < length (ck_locs s)" "map_of (ck_locations s) (loc_name (the_loc ?s l')) = Some l'"
      "dict_has (loc_patients (the_loc ?s l')) k"
      using wf_patient [OF wf, of k l'] loc [of l'] ln l by (auto simp: dict_simps split: if_splits)
  next
    fix l' assume l': "l' < length (ck_locs s)"
    show "dict_ok (loc_patients (the_loc ?s l'))"
      "loc_dead (the_loc ?s l') \<subseteq> dom (map_of (loc_patients (the_loc ?s l')))"
      using loc [of l'] wf_loc(1,2) [OF wf l'] by (auto simp: dict_simps distinct_update)
    fix k q assume "map_of (loc_patients (the_loc ?s l')) k = Some q"
    then have "l' = l \<and> k = ?k \<and> q = r \<or> map_of (loc_patients (the_loc s l')) k = Some q"
      using loc [of l'] by (auto simp: dict_simps split: if_splits)
    then show "((map_of (ck_patients s))(?k \<mapsto> l)) k = Some l'" "q < length h" "pt_key (h ! q) = k"
      "pt_location (h ! q) = loc_name (the_loc ?s l')"
      using wf_loc(3) [OF wf l', of k q] loc [of l'] new r ln by (auto split: if_splits)
  qed
qed

definition entered :: "patient list \<Rightarrow> nat \<Rightarrow> clerk \<Rightarrow> clerk" where
  "entered h r s =
     (case map_of (ck_locations s) (pt_location (h ! r)) of
        Some l \<Rightarrow> check_in l (pt_key (h ! r)) r s
      | None \<Rightarrow> check_in (length (ck_locs s)) (pt_key (h ! r)) r (add_location (pt_location (h ! r)) s))"

lemma clerk_added_total:
  assumes wf: "clerk_wf h s" and r: "r < length h" and new: "map_of (ck_patients s) (pt_key (h ! r)) = None"
  shows "clerk_patient_added h r s = Inr (entered h r s)" and "clerk_wf h (entered h r s)"
    and "ck_coroner (entered h r s) = ck_coroner s"
proof -
  show "ck_coroner (entered h r s) = ck_coroner s"
    by (simp add: entered_def check_in_def add_location_def split: option.split)
  have fresh: "map_of (loc_patients (the_loc s l)) (pt_key (h ! r)) = None" if "l < length (ck_locs s)" for l
    using wf_loc(3) [OF wf that] new by (metis not_Some_eq option.distinct(1))
  have "clerk_patient_added h r s = Inr (entered h r s) \<and> clerk_wf h (entered h r s)"
  proof (cases "map_of (ck_locations s) (pt_location (h ! r))")
    case (Some l)
    with fresh wf_location [OF wf Some] new check_in_wf [OF wf r new Some] show ?thesis
      by (simp add: clerk_patient_added_def entered_def check_in_def loc_add_patient_def Let_def upd_loc_def)
  next
    case None
    let ?s = "add_location (pt_location (h ! r)) s" and ?l = "length (ck_locs s)"
    have "clerk_wf h ?s" by (rule add_location_wf [OF wf None])
    moreover have "map_of (ck_patients ?s) (pt_key (h ! r)) = None"
      "map_of (ck_locations ?s) (pt_location (h ! r)) = Some ?l"
      using new by (simp_all add: add_location_def dict_simps)
    ultimately have "clerk_wf h (check_in ?l (pt_key (h ! r)) r ?s)" by (intro check_in_wf [OF _ r])
    with None new show ?thesis
      by (simp add: clerk_patient_added_def entered_def check_in_def loc_add_patient_def Let_def upd_loc_def
          add_location_def mk_location_def)
  qed
  then show "clerk_patient_added h r s = Inr (entered h r s)" "clerk_wf h (entered h r s)" by simp_all
qed

definition check_out :: "lref \<Rightarrow> string \<Rightarrow> clerk \<Rightarrow> clerk" where
  "check_out l key s =
     upd_loc l (\<lambda>loc. loc\<lparr>loc_patients := AList.delete key (loc_patients loc), loc_dead := loc_dead loc - {key}\<rparr>)
       (s\<lparr>ck_patients := AList.delete key (ck_patients s)\<rparr>)"

lemma check_out_wf:
  assumes wf: "clerk_wf h s" and l: "map_of (ck_patients s) key = Some l"
  shows "clerk_wf h (check_out l key s)"
proof -
  let ?s = "check_out l key s"
  note ln = wf_patient [OF wf l]
  have loc: "the_loc ?s l' = (if l' = l then (the_loc s l)\<lparr>loc_patients := AList.delete key (loc_patients (the_loc s l)),
      loc_dead := loc_dead (the_loc s l) - {key}\<rparr> else the_loc s l')" for l'
    using ln by (auto simp: check_out_def)
  have len: "length (ck_locs ?s) = length (ck_locs s)" and locs: "ck_locations ?s = ck_locations s"
    and pats: "map_of (ck_patients ?s) = (map_of (ck_patients s))(key := None)"
    by (simp_all add: check_out_def dict_simps fun_eq_iff)
  show ?thesis
    unfolding clerk_wf_def len locs pats
  proof (intro conjI allI impI)
    show "dict_ok (ck_locations s)" "lifts_ok ?s"
      using wf_tables [OF wf] by (simp_all add: check_out_def lifts_ok_def)
  next
    fix nm l' assume "map_of (ck_locations s) nm = Some l'"
    then show "l' < length (ck_locs s)" "loc_name (the_loc ?s l') = nm"
      using wf_location [OF wf, of nm l'] loc [of l'] by auto
  next
    fix k l' assume "((map_of (ck_patients s))(key := None)) k = Some l'"
    then show "l' < length (ck_locs s)" "map_of (ck_locations s) (loc_name (the_loc ?s l')) = Some l'"
      "dict_has (loc_patients (the_loc ?s l')) k"
      using wf_patient [OF wf, of k l'] loc [of l'] by (auto simp: dict_simps split: if_splits)
  next
    fix l' assume l': "l' < length (ck_locs s)"
    show "dict_ok (loc_patients (the_loc ?s l'))"
      "loc_dead (the_loc ?s l') \<subseteq> dom (map_of (loc_patients (the_loc ?s l')))"
      using loc [of l'] wf_loc(1,2) [OF wf l']
      by (cases "l' = l"; auto simp: distinct_delete delete_conv')+
    fix k q assume q: "map_of (loc_patients (the_loc ?s l')) k = Some q"
    then have old: "map_of (loc_patients (the_loc s l')) k = Some q" and "l' = l \<longrightarrow> k \<noteq> key"
      using loc [of l'] by (auto simp: dict_simps split: if_splits)
    moreover have "k = key \<longrightarrow> l' = l" using wf_loc(3) [OF wf l' old] l by auto
    ultimately show "((map_of (ck_patients s))(key := None)) k = Some l'" "q < length h" "pt_key (h ! q) = k"
      "pt_location (h ! q) = loc_name (the_loc ?s l')"
      using wf_loc(3) [OF wf l' old] loc [of l'] by (auto split: if_splits)
  qed
qed

lemma drop_location_wf:
  assumes wf: "clerk_wf h s" and l: "map_of (ck_locations s) (loc_name (the_loc s l)) = Some l"
    and empty: "loc_patients (the_loc s l) = []"
  shows "clerk_wf h (s\<lparr>ck_locations := AList.delete (loc_name (the_loc s l)) (ck_locations s)\<rparr>)"
proof -
  let ?s = "s\<lparr>ck_locations := AList.delete (loc_name (the_loc s l)) (ck_locations s)\<rparr>"
  have pat: "map_of (ck_locations ?s) (loc_name (the_loc s l')) = Some l'" if "map_of (ck_patients s) k = Some l'" for k l'
  proof -
    note p = wf_patient [OF wf that]
    have "loc_name (the_loc s l') \<noteq> loc_name (the_loc s l)" using p l empty by auto
    with p show ?thesis by (simp add: dict_simps)
  qed
  have d: "dict_ok (ck_locations ?s)" using wf_tables(1) [OF wf] by (simp add: distinct_delete)
  have names: "l' < length (ck_locs s) \<and> loc_name (the_loc s l') = nm" if "map_of (ck_locations ?s) nm = Some l'" for nm l'
    using that wf_location [OF wf, of nm l'] by (simp add: dict_simps split: if_splits)
  have lf: "lifts_ok ?s" using wf_tables(2) [OF wf] by (simp add: lifts_ok_def)
  show ?thesis
  proof (rule wfI [OF d lf])
    fix nm l' assume "map_of (ck_locations ?s) nm = Some l'"
    from names [OF this] show "l' < length (ck_locs ?s) \<and> loc_name (the_loc ?s l') = nm" by simp
  next
    fix k l' assume "map_of (ck_patients ?s) k = Some l'"
    then have "map_of (ck_patients s) k = Some l'" by simp
    from wf_patient [OF wf this] pat [OF this]
    show "l' < length (ck_locs ?s) \<and> map_of (ck_locations ?s) (loc_name (the_loc ?s l')) = Some l' \<and>
        dict_has (loc_patients (the_loc ?s l')) k" by simp
  next
    fix l' assume "l' < length (ck_locs ?s)"
    with wf_loc(1,2) [OF wf, of l'] show "dict_ok (loc_patients (the_loc ?s l')) \<and>
        loc_dead (the_loc ?s l') \<subseteq> dom (map_of (loc_patients (the_loc ?s l')))" by simp
  next
    fix l' k r assume "l' < length (ck_locs ?s)" "map_of (loc_patients (the_loc ?s l')) k = Some r"
    with wf_loc(3) [OF wf, of l' k r] show "map_of (ck_patients ?s) k = Some l' \<and> r < length h \<and>
        pt_key (h ! r) = k \<and> pt_location (h ! r) = loc_name (the_loc ?s l')" by simp
  qed
qed

lemma clerk_removed_total:
  assumes wf: "clerk_wf h s" and k: "known h s r l"
  obtains s1 s' where "clerk_patient_removed h now r s = Inr s'" "clerk_wf h s'"
    "evolves h (check_out l (pt_key (h ! r)) s) s1" "s' = s1\<lparr>ck_locations := ck_locations s'\<rparr>"
proof -
  let ?k = "pt_key (h ! r)"
  let ?o = "check_out l ?k s"
  have l: "map_of (ck_patients s) ?k = Some l" using k by (simp add: known_def)
  have wfo: "clerk_wf h ?o" by (rule check_out_wf [OF wf l])
  note kl = known_loc [OF wf k]
  have len: "l < length (ck_locs ?o)" using kl(1) by (simp add: check_out_def)
  have "fine h ?o (if loc_quarantine (the_loc ?o l) \<and> loc_state (the_loc ?o l) = LNormal \<and> pt_state (h ! r) \<noteq> Dead
      then check_quarantine h now l ?o else Inr ?o)"
    using check_quarantine_fine [OF len wf_locs_ok [OF wfo]] by simp
  then obtain s1 where s1: "(if loc_quarantine (the_loc ?o l) \<and> loc_state (the_loc ?o l) = LNormal \<and> pt_state (h ! r) \<noteq> Dead
      then check_quarantine h now l ?o else Inr ?o) = Inr s1" and ev: "evolves h ?o s1"
    by (auto simp: fine_def)
  let ?s' = "if loc_patients (the_loc s1 l) = []
    then s1\<lparr>ck_locations := AList.delete (loc_name (the_loc s1 l)) (ck_locations s1)\<rparr> else s1"
  have "loc_remove_patient h now l r (s\<lparr>ck_patients := AList.delete ?k (ck_patients s)\<rparr>) =
      Inr (loc_patients (the_loc s1 l) = [], s1)"
    unfolding loc_remove_patient_def Let_def check_out_def [symmetric] s1 by simp
  then have "clerk_patient_removed h now r s = Inr ?s'"
    using l kl(3) by (simp add: clerk_patient_removed_def Let_def)
  moreover have wf1: "clerk_wf h s1" by (rule wf_evolves [OF wfo ev])
  have "map_of (ck_locations s1) (loc_name (the_loc s1 l)) = Some l"
  proof -
    have "loc_name (the_loc s1 l) = loc_name (the_loc ?o l)"
      by (rule static_loc(1) [OF evolves_static [OF ev] len])
    also have "\<dots> = pt_location (h ! r)" using wf_location [OF wf kl(3)] kl(1) by (simp add: check_out_def)
    finally show ?thesis using kl(3) evolves_fields(1) [OF ev] by (simp add: check_out_def)
  qed
  then have "clerk_wf h ?s'" using wf1 drop_location_wf [OF wf1] by simp
  moreover have "?s' = s1\<lparr>ck_locations := ck_locations ?s'\<rparr>" by simp
  ultimately show thesis using that ev by blast
qed

end
