(* ===== verification/Monitor.thy ===== *)
theory Monitor
  imports Intensive ClerkSafety
begin

text \<open>
  The monitor agent: the intensive care with the clerk as its doctor
  (\<open>src/src/feat/agents/monitor/intensive_care.py\<close>, \<open>clerk.py\<close>).  The interpretation of
  \<open>doctor_laws\<close> gives that no event of the combined system raises; the other sections are
  about the reports to the coroner.
\<close>

section \<open>The clerk is a doctor\<close>

definition admitted :: "patient list \<Rightarrow> clerk \<Rightarrow> nat \<Rightarrow> bool" where
  "admitted h s r \<longleftrightarrow> (\<exists>l. known h s r l)"

lemma wf_people: "clerk_wf h s \<Longrightarrow> same_people h h' \<Longrightarrow> clerk_wf h' s"
  unfolding same_people_def using wf_heap by blast

lemma admitted_iff:
  assumes "clerk_wf h s"
  shows "admitted h s r \<longleftrightarrow> (\<exists>l < length (ck_locs s). \<exists>k. map_of (loc_patients (the_loc s l)) k = Some r)"
proof
  assume "admitted h s r"
  then obtain l where k: "known h s r l" by (auto simp: admitted_def)
  with known_loc(1) [OF assms k] show "\<exists>l < length (ck_locs s). \<exists>k. map_of (loc_patients (the_loc s l)) k = Some r"
    unfolding known_def by blast
next
  assume "\<exists>l < length (ck_locs s). \<exists>k. map_of (loc_patients (the_loc s l)) k = Some r"
  then obtain l k where l: "l < length (ck_locs s)" and k: "map_of (loc_patients (the_loc s l)) k = Some r" by blast
  from wf_loc(3) [OF assms l k] k have "known h s r l" by (simp add: known_def)
  then show "admitted h s r" by (auto simp: admitted_def)
qed

lemma admitted_evolves:
  assumes "clerk_wf h s" and "evolves h s s'"
  shows "admitted h s' r \<longleftrightarrow> admitted h s r"
  unfolding admitted_iff [OF assms(1)] admitted_iff [OF wf_evolves [OF assms]]
  using evolves_fields(2) [OF assms(2)] static_loc(3) [OF evolves_static [OF assms(2)]] by metis

lemma returns_fine:
  assumes "clerk_wf h s" and "fine h s (f s0)" and "\<And>q. admitted h s q \<longleftrightarrow> A q"
  shows "returns (as_callback f s0) (\<lambda>d'. clerk_wf h d' \<and> (\<forall>q. admitted h d' q \<longleftrightarrow> A q))"
proof -
  obtain s' where "f s0 = Inr s'" and ev: "evolves h s s'" using assms(2) by (auto simp: fine_def)
  then show ?thesis
    using wf_evolves [OF assms(1) ev] admitted_evolves [OF assms(1) ev] assms(3)
    by (simp add: as_callback_def returns_def)
qed

lemma undead_admitted: "admitted h (undead l k s) q \<longleftrightarrow> admitted h s q"
proof -
  have "loc_patients (the_loc (undead l k s) l') = loc_patients (the_loc s l')" for l'
    by (simp add: undead_def)
  then show ?thesis by (simp add: admitted_def known_def) (simp add: undead_def)
qed

lemma fresh_patient:
  assumes "clerk_wf h s" and "\<And>q. admitted h s q \<Longrightarrow> pt_key (h ! q) \<noteq> key"
  shows "map_of (ck_patients s) key = None"
proof (rule ccontr)
  assume "map_of (ck_patients s) key \<noteq> None"
  then obtain l where l: "map_of (ck_patients s) key = Some l" by blast
  then obtain r where r: "map_of (loc_patients (the_loc s l)) key = Some r" and len: "l < length (ck_locs s)"
    using wf_patient [OF assms(1) l] by blast
  from wf_loc(3) [OF assms(1) len r] r have "known h s r l" "pt_key (h ! r) = key" by (simp_all add: known_def)
  then show False using assms(2) by (auto simp: admitted_def)
qed

lemma entered_locs:
  assumes wf: "clerk_wf h s" and new: "map_of (ck_patients s) (pt_key (h ! r)) = None" and r: "r < length h"
  shows "admitted h (entered h r s) q \<longleftrightarrow> q = r \<or> admitted h s q"
proof -
  note wf' = clerk_added_total(2) [OF wf r new]
  let ?name = "pt_location (h ! r)" and ?key = "pt_key (h ! r)"
  let ?s0 = "if map_of (ck_locations s) ?name = None then add_location ?name s else s"
  let ?l = "case map_of (ck_locations s) ?name of Some l \<Rightarrow> l | None \<Rightarrow> length (ck_locs s)"
  have e: "entered h r s = check_in ?l ?key r ?s0"
    by (simp add: entered_def split: option.split)
  have wf0: "clerk_wf h ?s0" using wf add_location_wf [OF wf] by simp
  have len: "?l < length (ck_locs ?s0)"
    using wf_location [OF wf] by (auto simp: add_location_def split: option.split)
  have old: "admitted h ?s0 q \<longleftrightarrow> admitted h s q"
  proof (cases "map_of (ck_locations s) ?name")
    case None
    have "(the_loc (add_location ?name s) l = the_loc s l)" if "l < length (ck_locs s)" for l
      using that by (simp add: add_location_def nth_append)
    moreover have "loc_patients (the_loc (add_location ?name s) (length (ck_locs s))) = []"
      by (simp add: add_location_def mk_location_def)
    moreover have "length (ck_locs (add_location ?name s)) = Suc (length (ck_locs s))"
      by (simp add: add_location_def)
    ultimately show ?thesis
      unfolding admitted_iff [OF wf] admitted_iff [OF wf0] using None
      by (simp add: less_Suc_eq) (metis map_of.simps(1) option.distinct(1))
  qed simp
  have fresh: "map_of (loc_patients (the_loc ?s0 l)) ?key = None" if "l < length (ck_locs ?s0)" for l
  proof (rule ccontr)
    assume "map_of (loc_patients (the_loc ?s0 l)) ?key \<noteq> None"
    then obtain q where "map_of (loc_patients (the_loc ?s0 l)) ?key = Some q" by blast
    from wf_loc(3) [OF wf0 that this] new show False by (simp add: add_location_def split: if_splits)
  qed
  have look: "map_of (loc_patients (the_loc (entered h r s) l)) k = Some q \<longleftrightarrow>
      (l = ?l \<and> k = ?key \<and> q = r) \<or> map_of (loc_patients (the_loc ?s0 l)) k = Some q"
    if "l < length (ck_locs ?s0)" for l k
    using len fresh [OF that] unfolding e by (auto simp: check_in_def dict_simps simp del: if_split_eq1)
  have "length (ck_locs (entered h r s)) = length (ck_locs ?s0)" unfolding e by (simp add: check_in_def)
  then have "admitted h (entered h r s) q \<longleftrightarrow> q = r \<or> admitted h ?s0 q"
    unfolding admitted_iff [OF wf'] admitted_iff [OF wf0] using look len by metis
  then show ?thesis using old by simp
qed


lemma known_dead_stable:
  assumes "clerk_wf h s" "known h s r l"
  shows "admitted h s q \<longleftrightarrow> admitted h (undead l (pt_key (h ! r)) s) q"
  by (simp add: undead_admitted)

lemma check_out_admitted:
  assumes wf: "clerk_wf h s" and k: "known h s r l"
  shows "admitted h (check_out l (pt_key (h ! r)) s) q \<longleftrightarrow> q \<noteq> r \<and> admitted h s q"
proof -
  let ?key = "pt_key (h ! r)"
  have pk: "map_of (ck_patients s) ?key = Some l" using k by (simp add: known_def)
  note wf' = check_out_wf [OF wf pk]
  have len: "length (ck_locs (check_out l ?key s)) = length (ck_locs s)" by (simp add: check_out_def)
  have look: "map_of (loc_patients (the_loc (check_out l ?key s) l')) k = Some q \<longleftrightarrow>
      \<not> (l' = l \<and> k = ?key) \<and> map_of (loc_patients (the_loc s l')) k = Some q" if "l' < length (ck_locs s)" for l' k
    using that by (auto simp: check_out_def dict_simps)
  have uniq: "q = r \<longleftrightarrow> l' = l \<and> k = ?key"
    if l': "l' < length (ck_locs s)" and q: "map_of (loc_patients (the_loc s l')) k = Some q" for l' k
  proof
    assume "q = r"
    with wf_loc(3) [OF wf l' q] pk show "l' = l \<and> k = ?key" by auto
  next
    assume "l' = l \<and> k = ?key"
    with q k show "q = r" by (simp add: known_def)
  qed
  show ?thesis
    unfolding admitted_iff [OF wf] admitted_iff [OF wf'] len using look uniq by metis
qed

lemma removed_admitted:
  assumes wf: "clerk_wf h s" and k: "known h s r l"
  shows "returns (as_callback (clerk_patient_removed h now r) s)
    (\<lambda>d'. clerk_wf h d' \<and> (\<forall>q. admitted h d' q \<longleftrightarrow> q \<noteq> r \<and> admitted h s q))"
proof -
  have pk: "map_of (ck_patients s) (pt_key (h ! r)) = Some l" using k by (simp add: known_def)
  obtain s1 s' where call: "clerk_patient_removed h now r s = Inr s'" and wf': "clerk_wf h s'"
    and ev: "evolves h (check_out l (pt_key (h ! r)) s) s1" and s': "s' = s1\<lparr>ck_locations := ck_locations s'\<rparr>"
    by (rule clerk_removed_total [OF wf k])
  have "ck_patients s' = ck_patients s1" "ck_locs s' = ck_locs s1" by (subst s', simp)+
  then have "admitted h s' q \<longleftrightarrow> admitted h s1 q" for q by (simp add: admitted_def known_def)
  then show ?thesis
    using admitted_evolves [OF check_out_wf [OF wf pk] ev] check_out_admitted [OF wf k] wf' call
    by (simp add: as_callback_def returns_def)
qed

interpretation clerk: doctor_laws clerk_doctor clerk_wf admitted
proof unfold_locales
  fix h h' :: "patient list" and s r
  assume wf: "clerk_wf h s" and people: "same_people h h'"
  show wf': "clerk_wf h' s" by (rule wf_people [OF wf people])
  show "admitted h' s r \<longleftrightarrow> admitted h s r"
    unfolding admitted_iff [OF wf] admitted_iff [OF wf'] by simp
next
  fix h s r now
  assume wf: "clerk_wf h s" and r: "r < length h"
    and new: "\<And>q. admitted h s q \<Longrightarrow> pt_key (h ! q) \<noteq> pt_key (h ! r)"
  note fresh = fresh_patient [OF wf new]
  show "returns (on_added clerk_doctor now h r s) (\<lambda>d'. clerk_wf h d' \<and> (\<forall>q. admitted h d' q \<longleftrightarrow> q = r \<or> admitted h s q))"
    using clerk_added_total [OF wf r fresh] entered_locs [OF wf fresh r]
    by (simp add: clerk_doctor_def as_callback_def returns_def)
next
  fix h s r now
  assume wf: "clerk_wf h s" and adm: "admitted h s r"
  then obtain l where k: "known h s r l" by (auto simp: admitted_def)
  show "returns (on_removed clerk_doctor now h r s) (\<lambda>d'. clerk_wf h d' \<and> (\<forall>q. admitted h d' q \<longleftrightarrow> q \<noteq> r \<and> admitted h s q))"
    using removed_admitted [OF wf k, of now] by (simp add: clerk_doctor_def)
  show "returns (on_dying clerk_doctor now h r s) (\<lambda>d'. clerk_wf h d' \<and> (\<forall>q. admitted h d' q \<longleftrightarrow> admitted h s q))"
    using clerk_dying_total [OF wf k] wf by (simp add: clerk_doctor_def as_callback_def returns_def)
  show "returns (on_died clerk_doctor now h r s) (\<lambda>d'. clerk_wf h d' \<and> (\<forall>q. admitted h d' q \<longleftrightarrow> admitted h s q))"
    if "pt_state (h ! r) = Dead"
    using returns_fine [of h s "clerk_patient_died h now r" s "admitted h s", OF wf clerk_died_fine [OF wf k that, of now]] by (simp add: clerk_doctor_def)
  show "returns (on_resurrected clerk_doctor now h r s) (\<lambda>d'. clerk_wf h d' \<and> (\<forall>q. admitted h d' q \<longleftrightarrow> admitted h s q))"
    using returns_fine [of h "undead l (pt_key (h ! r)) s" "clerk_patient_resurrected h now r" s "admitted h s",
        OF undead_wf [OF wf] clerk_resurrected_fine [OF wf k, of now] undead_admitted]
    by (simp add: clerk_doctor_def)
qed

section \<open>The combined system\<close>

datatype monitor_event =
    AddPatient string string "rat option" "rat option" "rat option" "string option"
  | RemovePatient string
  | HeartBeat string
  | CheckPatients
  | Pause
  | Resume
  | Disconnected
  | Reconnected
  | CallFires nat

definition on_clerk :: "(clerk \<Rightarrow> exn + clerk) \<Rightarrow> clerk icare \<Rightarrow> (exn + unit) \<times> clerk icare" where
  "on_clerk f s = call_doctor (as_callback f) s"

fun monitor_step :: "time \<Rightarrow> monitor_event \<Rightarrow> clerk icare \<Rightarrow> (exn + unit) \<times> clerk icare" where
  "monitor_step now (AddPatient key loc period dying death ptype) s =
     ic_add_patient clerk_doctor now key loc period dying death ptype s"
| "monitor_step now (RemovePatient key) s = ic_remove_patient clerk_doctor now key s"
| "monitor_step now (HeartBeat key) s = (Inr (), ic_beat now key s)"
| "monitor_step now CheckPatients s = ic_check_patients clerk_doctor now s"
| "monitor_step now Pause s = (Inr (), ic_pause s)"
| "monitor_step now Resume s = (Inr (), ic_resume now s)"
| "monitor_step now Disconnected s = on_clerk (on_disconnected (ic_heap s) now) s"
| "monitor_step now Reconnected s = on_clerk (on_reconnected (ic_heap s) now) s"
| "monitor_step now (CallFires i) s = on_clerk (fire_call (ic_heap s) now i) s"

abbreviation monitor_inv :: "clerk icare \<Rightarrow> bool" where
  "monitor_inv \<equiv> care_inv clerk_wf admitted"

text \<open>The two assertions of \<open>add_patient\<close>: the agent is new, and it may die only after it may be
  dying.\<close>

fun acceptable :: "monitor_event \<Rightarrow> clerk icare \<Rightarrow> bool" where
  "acceptable (AddPatient key loc period dying death ptype) s \<longleftrightarrow>
     \<not> ic_has_patient key s \<and> num_or dying DEFAULT_DYING_SKIPS \<le> num_or death DEFAULT_DEATH_SKIPS"
| "acceptable _ s \<longleftrightarrow> True"

lemma on_clerk_keeps:
  assumes "monitor_inv s" and "fine (ic_heap s) (ic_doctor s) (f (ic_doctor s))"
  shows "fst (on_clerk f s) = Inr () \<and> monitor_inv (snd (on_clerk f s))"
proof -
  have wf: "clerk_wf (ic_heap s) (ic_doctor s)" using assms(1) by (simp add: care_inv_def)
  from clerk.call_doctor_keeps [of s "as_callback f", OF assms(1)
      returns_fine [of "ic_heap s" "ic_doctor s" f "ic_doctor s" "admitted (ic_heap s) (ic_doctor s)", OF wf assms(2)]]
  show ?thesis by (auto simp: on_clerk_def)
qed

lemma mk_patient_ok:
  "num_or dying DEFAULT_DYING_SKIPS \<le> num_or death DEFAULT_DEATH_SKIPS \<Longrightarrow>
   \<exists>p. mk_patient key loc now period dying death ptype = Inr p"
  by (simp add: mk_patient_def patient_reset_def Let_def)

lemma monitor_step_keeps:
  assumes inv: "monitor_inv s" and acc: "acceptable ev s"
  shows "fst (monitor_step now ev s) = Inr () \<and> monitor_inv (snd (monitor_step now ev s))"
proof -
  have wf: "clerk_wf (ic_heap s) (ic_doctor s)" using inv by (simp add: care_inv_def)
  show ?thesis
  proof (cases ev)
    case (AddPatient key loc period dying death ptype)
    with acc obtain p where "mk_patient key loc now period dying death ptype = Inr p"
      and "map_of (ic_patients s) key = None"
      using mk_patient_ok by (fastforce simp: ic_has_patient_def)
    from clerk.add_patient_keeps [OF inv this(2,1)] AddPatient show ?thesis by auto
  next
    case (RemovePatient key)
    from clerk.remove_patient_keeps [OF inv, of now key] RemovePatient show ?thesis by auto
  next
    case (HeartBeat key)
    then show ?thesis using clerk.beat_keeps [OF inv] by simp
  next
    case CheckPatients
    then show ?thesis using clerk.check_patients_keeps [OF inv, of now] by auto
  next
    case Pause
    then show ?thesis using clerk.pause_keeps [OF inv] by simp
  next
    case Resume
    then show ?thesis using clerk.resume_keeps [OF inv] by simp
  next
    case Disconnected
    then show ?thesis using on_clerk_keeps [of s "on_disconnected (ic_heap s) now", OF inv clerk_disconnected_fine [OF wf]] by simp
  next
    case Reconnected
    then show ?thesis using on_clerk_keeps [of s "on_reconnected (ic_heap s) now", OF inv clerk_reconnected_fine [OF wf]] by simp
  next
    case (CallFires i)
    then show ?thesis using on_clerk_keeps [of s "fire_call (ic_heap s) now i", OF inv fire_call_fine [OF wf]] by simp
  qed
qed

text \<open>A history of the monitor: every event happens at its time in the state the previous left.\<close>

inductive monitor_reaches :: "clerk icare \<Rightarrow> clerk icare \<Rightarrow> bool" for s0 where
  start: "monitor_reaches s0 s0"
| event: "monitor_reaches s0 s \<Longrightarrow> acceptable ev s \<Longrightarrow> monitor_reaches s0 (snd (monitor_step now ev s))"

definition monitor_start :: "time option \<Rightarrow> string \<Rightarrow> bool \<Rightarrow> time \<Rightarrow> time \<Rightarrow> clerk icare" where
  "monitor_start control_period location quarantine host_length self_length =
     ic_init control_period (clerk_init location quarantine host_length self_length)"

lemma monitor_start_inv: "monitor_inv (monitor_start cp location quarantine hl sl)"
proof -
  have "clerk_wf [] (clerk_init location quarantine hl sl)"
    by (simp add: clerk_wf_def clerk_init_def lifts_ok_def)
  then show ?thesis
    by (simp add: care_inv_def monitor_start_def ic_init_def admitted_def known_def clerk_init_def)
qed

lemma monitor_reaches_inv:
  "monitor_reaches s0 s \<Longrightarrow> monitor_inv s0 \<Longrightarrow> monitor_inv s"
  by (induction rule: monitor_reaches.induct) (simp_all add: monitor_step_keeps)

text \<open>C5: In every state a monitor can reach, whatever the order of patients coming and going, beats,
  checks, disconnections and delayed calls, no acceptable event raises: the mutual calls of the
  clerk and its locations come to an end, no agent is looked up in vain, and the clerk treats
  exactly the patients of the intensive care, each in the location the patient names.\<close>

theorem monitor_never_fails:
  assumes "monitor_reaches (monitor_start cp location quarantine hl sl) s" and "acceptable ev s"
  shows "fst (monitor_step now ev s) = Inr () \<and>
    (\<forall>key. (case map_of (ic_patients s) key of
        None \<Rightarrow> \<not> clerk_has_patient key (ic_doctor s)
      | Some r \<Rightarrow> clerk_get_patient key (ic_doctor s) = Some r \<and>
          map_of (ck_patients (ic_doctor s)) key =
            map_of (ck_locations (ic_doctor s)) (pt_location (ic_heap s ! r))))"
proof -
  have inv: "monitor_inv s" by (rule monitor_reaches_inv [OF assms(1) monitor_start_inv])
  note parts = care_inv_parts [OF inv]
  have "case map_of (ic_patients s) key of
        None \<Rightarrow> \<not> clerk_has_patient key (ic_doctor s)
      | Some r \<Rightarrow> clerk_get_patient key (ic_doctor s) = Some r \<and>
          map_of (ck_patients (ic_doctor s)) key =
            map_of (ck_locations (ic_doctor s)) (pt_location (ic_heap s ! r))" for key
  proof (cases "map_of (ic_patients s) key")
    case None
    have "pt_key (ic_heap s ! q) \<noteq> key" if "admitted (ic_heap s) (ic_doctor s) q" for q
      using that None parts(3,4) by (metis option.distinct(1))
    from fresh_patient [OF parts(2) this] None show ?thesis by (simp add: clerk_has_patient_def)
  next
    case (Some r)
    then have "pt_key (ic_heap s ! r) = key" "admitted (ic_heap s) (ic_doctor s) r" using parts(3,4) by blast+
    then obtain l where k: "known (ic_heap s) (ic_doctor s) r l" and key: "pt_key (ic_heap s ! r) = key"
      by (auto simp: admitted_def)
    from known_loc(3) [OF parts(2) k] k key Some show ?thesis by (simp add: known_def clerk_get_patient_def)
  qed
  then show ?thesis using monitor_step_keeps [OF inv assms(2)] by blast
qed


lemma monitor_never_fails_witness:
  "let s0 = monitor_start None ''here'' True 120 180;
       s1 = snd (monitor_step 0 (AddPatient ''a'' ''host'' None None None None) s0)
   in fst (monitor_step 100 CheckPatients s1) = Inr ()"
proof -
  let ?s0 = "monitor_start None ''here'' True 120 180"
  let ?ev = "AddPatient ''a'' ''host'' None None None None"
  have "acceptable ?ev ?s0"
    by (simp add: ic_has_patient_def monitor_start_def ic_init_def num_or_def DEFAULT_DYING_SKIPS_def
        DEFAULT_DEATH_SKIPS_def)
  from monitor_reaches.event [OF monitor_reaches.start this, of 0]
  have "monitor_reaches ?s0 (snd (monitor_step 0 ?ev ?s0))" .
  from monitor_never_fails [OF this, of CheckPatients 100] show ?thesis by (simp add: Let_def)
qed

end
