(* ===== verification/Coroner.thy ===== *)
theory Coroner
  imports Monitor
begin

text \<open>
  When the clerk calls the coroner: at most once for each death, never while the monitor is
  disconnected (as long as no patient is added meanwhile), and, after a quarantine, for every
  patient of the location that is still dead.
\<close>

section \<open>Events of the clerk\<close>

datatype clerk_event =
    PatientAdded nat
  | PatientRemoved nat
  | PatientDying nat
  | PatientDied nat
  | PatientResurrected nat
  | ClerkDisconnected
  | ClerkReconnected
  | ClerkCall nat

fun clerk_step :: "patient list \<Rightarrow> time \<Rightarrow> clerk_event \<Rightarrow> clerk \<Rightarrow> exn + clerk" where
  "clerk_step h now (PatientAdded r) s = clerk_patient_added h r s"
| "clerk_step h now (PatientRemoved r) s = clerk_patient_removed h now r s"
| "clerk_step h now (PatientDying r) s = clerk_patient_dying h r s"
| "clerk_step h now (PatientDied r) s = clerk_patient_died h now r s"
| "clerk_step h now (PatientResurrected r) s = clerk_patient_resurrected h now r s"
| "clerk_step h now ClerkDisconnected s = on_disconnected h now s"
| "clerk_step h now ClerkReconnected s = on_reconnected h now s"
| "clerk_step h now (ClerkCall i) s = fire_call h now i s"

fun clerk_may :: "patient list \<Rightarrow> clerk_event \<Rightarrow> clerk \<Rightarrow> bool" where
  "clerk_may h (PatientAdded r) s \<longleftrightarrow> r < length h \<and> \<not> clerk_has_patient (pt_key (h ! r)) s"
| "clerk_may h (PatientRemoved r) s \<longleftrightarrow> admitted h s r"
| "clerk_may h (PatientDying r) s \<longleftrightarrow> admitted h s r"
| "clerk_may h (PatientDied r) s \<longleftrightarrow> admitted h s r \<and> pt_state (h ! r) = Dead"
| "clerk_may h (PatientResurrected r) s \<longleftrightarrow> admitted h s r"
| "clerk_may h _ s \<longleftrightarrow> True"

text \<open>A run of the clerk; between events the heap may change the states of patients.\<close>

inductive clerk_run ::
  "(patient list \<times> clerk_event) list \<Rightarrow> patient list \<times> clerk \<Rightarrow> patient list \<times> clerk \<Rightarrow> bool" where
  run_nil: "clerk_run [] hs hs"
| run_step: "same_people h h' \<Longrightarrow> clerk_may h' ev s \<Longrightarrow> clerk_step h' now ev s = Inr s' \<Longrightarrow>
    clerk_run evs (h', s') hs \<Longrightarrow> clerk_run ((h', ev) # evs) (h, s) hs"

inductive_cases run_nilE: "clerk_run [] hs hs'"
inductive_cases run_stepE: "clerk_run ((h', ev) # evs) hs hs'"

lemma clerk_step_wf:
  assumes wf: "clerk_wf h s" and may: "clerk_may h ev s" and step: "clerk_step h now ev s = Inr s'"
  shows "clerk_wf h s'"
proof -
  have ret: "clerk_wf h s'" if "returns (as_callback f s) (\<lambda>d. clerk_wf h d \<and> P d)" "f s = Inr s'" for f P
    using that by (simp add: returns_def as_callback_def)
  have fin: "clerk_wf h s'" if "fine h s0 (Inr s')" "clerk_wf h s0" for s0
    using that wf_evolves by (auto simp: fine_def)
  show ?thesis
  proof (cases ev)
    case (PatientAdded r)
    with clerk_added_total [OF wf, of r] may step show ?thesis by (simp add: clerk_has_patient_def)
  next
    case (PatientRemoved r)
    with may obtain l where k: "known h s r l" by (auto simp: admitted_def)
    show ?thesis by (rule ret [OF removed_admitted [OF wf k]]) (use PatientRemoved step in simp)
  next
    case (PatientDying r)
    with may obtain l where k: "known h s r l" by (auto simp: admitted_def)
    with clerk_dying_total [OF wf k] step PatientDying wf show ?thesis by simp
  next
    case (PatientDied r)
    with may obtain l where k: "known h s r l" and "pt_state (h ! r) = Dead" by (auto simp: admitted_def)
    with clerk_died_fine [OF wf k, of now] step PatientDied show ?thesis by (intro fin [OF _ wf]) simp
  next
    case (PatientResurrected r)
    with may obtain l where k: "known h s r l" by (auto simp: admitted_def)
    with clerk_resurrected_fine [OF wf k, of now] step PatientResurrected
    show ?thesis by (intro fin [OF _ undead_wf [OF wf]]) simp
  next
    case ClerkDisconnected
    with clerk_disconnected_fine [OF wf, of now] step show ?thesis by (intro fin [OF _ wf]) simp
  next
    case ClerkReconnected
    with clerk_reconnected_fine [OF wf, of now] step show ?thesis by (intro fin [OF _ wf]) simp
  next
    case (ClerkCall i)
    with fire_call_fine [OF wf, of now i] step show ?thesis by (intro fin [OF _ wf]) simp
  qed
qed

section \<open>Once per death\<close>

definition reports :: "patient list \<Rightarrow> string \<Rightarrow> clerk \<Rightarrow> nat" where
  "reports h key s = length (filter (\<lambda>r. pt_key (h ! r) = key) (ck_coroner s))"

definition flagged :: "string \<Rightarrow> string set list \<Rightarrow> bool" where
  "flagged key D \<longleftrightarrow> (\<exists>l < length D. key \<in> D ! l)"

definition reported :: "string \<Rightarrow> clerk \<Rightarrow> bool" where
  "reported key s \<longleftrightarrow> flagged key (map loc_dead (ck_locs s))"

text \<open>What a key may still cost: one report unless it is flagged.\<close>

definition budget :: "patient list \<Rightarrow> string \<Rightarrow> string set list \<times> nat list \<Rightarrow> nat" where
  "budget h key v =
     length (filter (\<lambda>r. pt_key (h ! r) = key) (snd v)) + (if flagged key (fst v) then 0 else 1)"

lemma flagged_insert:
  "l < length D \<Longrightarrow> flagged key (D[l := insert k (D ! l)]) \<longleftrightarrow> k = key \<or> flagged key D"
  by (auto simp: flagged_def nth_list_update)

lemma report_budget:
  assumes "(report h P)\<^sup>*\<^sup>* v w"
    and "\<And>l. l < length (fst v) \<Longrightarrow> fst v ! l \<subseteq> K l \<and> (\<forall>r \<in> snd ` set (P ! l). pt_key (h ! r) \<in> K l)"
    and uniq: "\<And>l l'. l < length (fst v) \<Longrightarrow> l' < length (fst v) \<Longrightarrow> key \<in> K l \<Longrightarrow> key \<in> K l' \<Longrightarrow> l = l'"
  shows "budget h key w \<le> budget h key v \<and> (flagged key (fst v) \<longrightarrow> flagged key (fst w))"
  using assms(1)
proof (induction rule: rtranclp_induct)
  case base
  then show ?case by simp
next
  case (step w x)
  have flags: "length (fst w) = length (fst v) \<and> (\<forall>l < length (fst v). fst v ! l \<subseteq> fst w ! l \<and> fst w ! l \<subseteq> K l)"
    by (rule report_flags [OF step(1)]) (use assms(2) in blast)
  from step(2) show ?case
  proof (cases rule: report.cases)
    case (1 l D r out)
    have l: "l < length (fst v)" using 1 flags by simp
    have "\<not> flagged key D" if "pt_key (h ! r) = key"
    proof
      assume "flagged key D"
      then obtain l' where l': "l' < length D" "key \<in> D ! l'" by (auto simp: flagged_def)
      then have "key \<in> K l'" "l' < length (fst v)" using flags 1(1) by auto
      moreover have "key \<in> K l" using assms(2) [OF l] 1(4) that by blast
      ultimately have "l' = l" using uniq l by blast
      with l' 1(6) that show False by simp
    qed
    then have "budget h key x \<le> budget h key w"
      using 1 by (auto simp: budget_def flagged_insert)
    then show ?thesis using step.IH 1 by (auto simp: flagged_insert)
  qed
qed

lemma evolves_budget:
  assumes wf: "clerk_wf h s" and ev: "evolves h s s'"
  shows "budget h key (dview s') \<le> budget h key (dview s)"
proof -
  let ?K = "\<lambda>l. dom (map_of (loc_patients (the_loc s l)))"
  have run: "(report h (patients_of s))\<^sup>*\<^sup>* (dview s) (dview s')" using ev by (simp add: evolves_def)
  have sub: "fst (dview s) ! l \<subseteq> ?K l \<and> (\<forall>r \<in> snd ` set (patients_of s ! l). pt_key (h ! r) \<in> ?K l)"
    if "l < length (fst (dview s))" for l
  proof -
    have l: "l < length (ck_locs s)" using that by (simp add: dview_def)
    have "pt_key (h ! r) \<in> ?K l" if r: "r \<in> snd ` set (loc_patients (the_loc s l))" for r
    proof -
      obtain k where "(k, r) \<in> set (loc_patients (the_loc s l))" using r by auto
      then have "map_of (loc_patients (the_loc s l)) k = Some r" using wf_loc(1) [OF wf l] by simp
      with wf_loc(3) [OF wf l this] show ?thesis by auto
    qed
    then show ?thesis using wf_loc(2) [OF wf l] l by (simp add: dview_def patients_of_def)
  qed
  have "l = l'" if d: "l < length (fst (dview s))" "l' < length (fst (dview s))" and k: "key \<in> ?K l" "key \<in> ?K l'" for l l'
  proof -
    have len: "l < length (ck_locs s)" "l' < length (ck_locs s)" using d by (simp_all add: dview_def)
    obtain r r' where "map_of (loc_patients (the_loc s l)) key = Some r" "map_of (loc_patients (the_loc s l')) key = Some r'"
      using k by blast
    from wf_loc(3) [OF wf len(1) this(1)] wf_loc(3) [OF wf len(2) this(2)] show ?thesis by simp
  qed
  from report_budget [OF run sub this] show ?thesis by blast
qed

text \<open>Events that start a new life of an agent.\<close>

fun new_life :: "string \<Rightarrow> patient list \<times> clerk_event \<Rightarrow> bool" where
  "new_life key (h, PatientRemoved r) \<longleftrightarrow> pt_key (h ! r) = key"
| "new_life key (h, PatientResurrected r) \<longleftrightarrow> pt_key (h ! r) = key"
| "new_life key _ \<longleftrightarrow> False"

lemma flagged_iff:
  "flagged key (map loc_dead (ck_locs s)) \<longleftrightarrow> (\<exists>l < length (ck_locs s). key \<in> loc_dead (the_loc s l))"
  unfolding flagged_def by (metis length_map nth_map)

lemma flagged_map_upd:
  assumes "l < length (ck_locs s)" "\<And>x. loc_dead (f x) = loc_dead x - {k}" "k \<noteq> key"
  shows "flagged key (map loc_dead (ck_locs (upd_loc l f s))) \<longleftrightarrow> flagged key (map loc_dead (ck_locs s))"
  unfolding flagged_iff using assms(2,3) by (auto split: if_splits)

lemma undead_budget:
  assumes "l < length (ck_locs s)" "k \<noteq> key"
  shows "budget h key (dview (undead l k s)) = budget h key (dview s)"
  unfolding undead_def budget_def dview_def using flagged_map_upd [OF assms(1) _ assms(2)] by simp

lemma check_out_budget:
  assumes "l < length (ck_locs s)" "k \<noteq> key"
  shows "budget h key (dview (check_out l k s)) = budget h key (dview s)"
  unfolding check_out_def budget_def dview_def
  using flagged_map_upd [of l "s\<lparr>ck_patients := AList.delete k (ck_patients s)\<rparr>", OF _ _ assms(2)] assms(1) by simp

lemma check_in_budget: "budget h key (dview (check_in l k r s)) = budget h key (dview s)"
proof -
  have "map loc_dead (ck_locs (check_in l k r s)) = map loc_dead (ck_locs s)"
    unfolding check_in_def upd_loc_def by (simp add: map_upd_same)
  then show ?thesis by (simp add: budget_def dview_def) (simp add: check_in_def)
qed

lemma add_location_budget: "budget h key (dview (add_location n s)) = budget h key (dview s)"
proof -
  have "flagged key (D @ [{}]) \<longleftrightarrow> flagged key D" for D
    by (auto simp: flagged_def nth_append less_Suc_eq)
  then show ?thesis by (simp add: budget_def dview_def add_location_def mk_location_def)
qed

lemma entered_budget: "budget h key (dview (entered h r s)) = budget h key (dview s)"
  unfolding entered_def by (cases "map_of (ck_locations s) (pt_location (h ! r))")
    (simp_all only: option.case check_in_budget add_location_budget)

lemma clerk_step_budget:
  assumes wf: "clerk_wf h s" and may: "clerk_may h ev s" and step: "clerk_step h now ev s = Inr s'"
    and same: "\<not> new_life key (h, ev)"
  shows "budget h key (dview s') \<le> budget h key (dview s)"
proof -
  have fin: "budget h key (dview s') \<le> budget h key (dview s0)" if "fine h s0 (Inr s')" "clerk_wf h s0" for s0
    using that evolves_budget by (auto simp: fine_def)
  show ?thesis
  proof (cases ev)
    case (PatientAdded r)
    with clerk_added_total(1) [OF wf, of r] may step have "s' = entered h r s"
      by (simp add: clerk_has_patient_def)
    then show ?thesis by (simp only: entered_budget order_refl)
  next
    case (PatientRemoved r)
    with may obtain l where k: "known h s r l" by (auto simp: admitted_def)
    obtain s1 s2 where call: "clerk_patient_removed h now r s = Inr s2"
      and ev: "evolves h (check_out l (pt_key (h ! r)) s) s1" and s2: "s2 = s1\<lparr>ck_locations := ck_locations s2\<rparr>"
      by (rule clerk_removed_total [OF wf k])
    have pk: "map_of (ck_patients s) (pt_key (h ! r)) = Some l" using k by (simp add: known_def)
    have "s' = s2" using call step PatientRemoved by simp
    also have "dview s2 = dview s1" by (subst s2) (simp add: dview_def)
    finally have "dview s' = dview s1" .
    then show ?thesis
      using evolves_budget [OF check_out_wf [OF wf pk] ev, of key] check_out_budget [OF known_loc(1) [OF wf k]]
        same PatientRemoved by simp
  next
    case (PatientDying r)
    with may obtain l where k: "known h s r l" by (auto simp: admitted_def)
    with clerk_dying_total [OF wf k] step PatientDying show ?thesis by simp
  next
    case (PatientDied r)
    with may obtain l where k: "known h s r l" and "pt_state (h ! r) = Dead" by (auto simp: admitted_def)
    with clerk_died_fine [OF wf k, of now] step PatientDied show ?thesis by (intro fin [OF _ wf]) simp
  next
    case (PatientResurrected r)
    with may obtain l where k: "known h s r l" by (auto simp: admitted_def)
    with clerk_resurrected_fine [OF wf k, of now] step PatientResurrected
    have "budget h key (dview s') \<le> budget h key (dview (undead l (pt_key (h ! r)) s))"
      by (intro fin [OF _ undead_wf [OF wf]]) simp
    then show ?thesis using undead_budget [OF known_loc(1) [OF wf k]] same PatientResurrected by simp
  next
    case ClerkDisconnected
    with clerk_disconnected_fine [OF wf, of now] step show ?thesis by (intro fin [OF _ wf]) simp
  next
    case ClerkReconnected
    with clerk_reconnected_fine [OF wf, of now] step show ?thesis by (intro fin [OF _ wf]) simp
  next
    case (ClerkCall i)
    with fire_call_fine [OF wf, of now i] step show ?thesis by (intro fin [OF _ wf]) simp
  qed
qed


lemma budget_people:
  assumes "clerk_wf h s" "same_people h h'" "\<forall>r \<in> set (ck_coroner s). r < length h"
  shows "budget h' key (dview s) = budget h key (dview s)"
proof -
  have "filter (\<lambda>r. pt_key (h' ! r) = key) (ck_coroner s) = filter (\<lambda>r. pt_key (h ! r) = key) (ck_coroner s)"
    by (rule filter_cong) (use assms in \<open>auto simp: same_people_def\<close>)
  then show ?thesis by (simp add: budget_def dview_def)
qed

lemma report_refs:
  "(report h P)\<^sup>*\<^sup>* v w \<Longrightarrow> (\<And>l r. l < length (fst v) \<Longrightarrow> r \<in> snd ` set (P ! l) \<Longrightarrow> r < n) \<Longrightarrow>
   \<forall>r \<in> set (snd v). r < n \<Longrightarrow> \<forall>r \<in> set (snd w). r < n"
proof (induction rule: rtranclp_induct)
  case (step w x)
  have len: "length (fst w) = length (fst v)"
    using report_flags [OF step(1), of "\<lambda>_. UNIV"] by simp
  from step(2) show ?case
  proof (cases rule: report.cases)
    case (1 l D r out)
    with step.IH step.prems len show ?thesis by auto
  qed
qed simp

lemma evolves_refs:
  assumes wf: "clerk_wf h s" and ev: "evolves h s s'" and "\<forall>r \<in> set (ck_coroner s). r < length h"
  shows "\<forall>r \<in> set (ck_coroner s'). r < length h"
proof -
  have run: "(report h (patients_of s))\<^sup>*\<^sup>* (dview s) (dview s')" using ev by (simp add: evolves_def)
  have "r < length h" if l: "l < length (fst (dview s))" and r: "r \<in> snd ` set (patients_of s ! l)" for l r
  proof -
    have len: "l < length (ck_locs s)" using l by (simp add: dview_def)
    then obtain k where "(k, r) \<in> set (loc_patients (the_loc s l))" using r by (auto simp: patients_of_def)
    then have "map_of (loc_patients (the_loc s l)) k = Some r" using wf_loc(1) [OF wf len] by simp
    with wf_loc(3) [OF wf len this] show ?thesis by simp
  qed
  from report_refs [OF run this] assms(3) show ?thesis by (simp add: dview_def)
qed

lemma clerk_step_refs:
  assumes wf: "clerk_wf h s" and may: "clerk_may h ev s" and step: "clerk_step h now ev s = Inr s'"
    and refs: "\<forall>r \<in> set (ck_coroner s). r < length h"
  shows "\<forall>r \<in> set (ck_coroner s'). r < length h"
proof -
  have fin: "\<forall>r \<in> set (ck_coroner s'). r < length h"
    if "fine h s0 (Inr s')" "clerk_wf h s0" "ck_coroner s0 = ck_coroner s" for s0
    using that evolves_refs refs by (auto simp: fine_def)
  show ?thesis
  proof (cases ev)
    case (PatientAdded r)
    with clerk_added_total [OF wf, of r] may step refs show ?thesis by (auto simp: clerk_has_patient_def)
  next
    case (PatientRemoved r)
    with may obtain l where k: "known h s r l" by (auto simp: admitted_def)
    obtain s1 s2 where call: "clerk_patient_removed h now r s = Inr s2"
      and ev: "evolves h (check_out l (pt_key (h ! r)) s) s1" and s2: "s2 = s1\<lparr>ck_locations := ck_locations s2\<rparr>"
      by (rule clerk_removed_total [OF wf k])
    have pk: "map_of (ck_patients s) (pt_key (h ! r)) = Some l" using k by (simp add: known_def)
    have "ck_coroner s2 = ck_coroner s1" by (subst s2) simp
    moreover have "ck_coroner (check_out l (pt_key (h ! r)) s) = ck_coroner s" by (simp add: check_out_def)
    ultimately show ?thesis
      using evolves_refs [OF check_out_wf [OF wf pk] ev] refs call step PatientRemoved by simp
  next
    case (PatientDying r)
    with may obtain l where k: "known h s r l" by (auto simp: admitted_def)
    with clerk_dying_total [OF wf k] step PatientDying refs show ?thesis by simp
  next
    case (PatientDied r)
    with may obtain l where k: "known h s r l" and "pt_state (h ! r) = Dead" by (auto simp: admitted_def)
    with clerk_died_fine [OF wf k, of now] step PatientDied show ?thesis by (intro fin [OF _ wf]) simp_all
  next
    case (PatientResurrected r)
    with may obtain l where k: "known h s r l" by (auto simp: admitted_def)
    with clerk_resurrected_fine [OF wf k, of now] step PatientResurrected
    show ?thesis by (intro fin [OF _ undead_wf [OF wf]]) (simp_all add: undead_def)
  next
    case ClerkDisconnected
    with clerk_disconnected_fine [OF wf, of now] step show ?thesis by (intro fin [OF _ wf]) simp_all
  next
    case ClerkReconnected
    with clerk_reconnected_fine [OF wf, of now] step show ?thesis by (intro fin [OF _ wf]) simp_all
  next
    case (ClerkCall i)
    with fire_call_fine [OF wf, of now i] step show ?thesis by (intro fin [OF _ wf]) simp_all
  qed
qed

lemma clerk_run_budget:
  "clerk_run evs hs hs' \<Longrightarrow> clerk_wf (fst hs) (snd hs) \<Longrightarrow> \<forall>r \<in> set (ck_coroner (snd hs)). r < length (fst hs) \<Longrightarrow>
   \<forall>e \<in> set evs. \<not> new_life key e \<Longrightarrow>
   budget (fst hs') key (dview (snd hs')) \<le> budget (fst hs) key (dview (snd hs))"
proof (induction rule: clerk_run.induct)
  case (run_step h h' ev s now s' evs hs)
  have wf: "clerk_wf h' s" by (rule wf_people) (use run_step in auto)
  have "\<forall>r \<in> set (ck_coroner s). r < length h'" using run_step.prems(2) run_step.hyps(1) by (auto simp: same_people_def)
  from clerk_step_refs [OF wf run_step.hyps(2,3) this]
  have IH: "budget (fst hs) key (dview (snd hs)) \<le> budget h' key (dview s')"
    using run_step.IH run_step.prems(3) clerk_step_wf [OF wf run_step.hyps(2,3)] by simp
  also have "\<dots> \<le> budget h' key (dview s)"
    by (rule clerk_step_budget [OF wf run_step.hyps(2,3)]) (use run_step.prems(3) in simp)
  also have "\<dots> = budget h key (dview s)"
    by (rule budget_people [OF _ run_step.hyps(1)]) (use run_step.prems in simp_all)
  finally show ?case by simp
qed simp

text \<open>C6: Along any run of the clerk in which an agent is neither removed nor resurrected, the coroner
  is told of its death at most once, and not at all if it was already told before: not when the
  location goes into quarantine and out again, not when the monitor is isolated or reconnected.\<close>

theorem coroner_told_once:
  assumes "clerk_run evs (h, s) (h', s')" and "clerk_wf h s" and "\<forall>r \<in> set (ck_coroner s). r < length h"
    and "\<forall>e \<in> set evs. \<not> new_life key e"
  shows "reports h' key s' \<le> reports h key s + (if reported key s then 0 else 1)"
  using clerk_run_budget [OF assms(1), of key] assms(2-4)
  by (simp add: budget_def reports_def reported_def dview_def split: if_splits)

text \<open>A patient that dies where another is alive is reported, and not again when its death is
  announced a second time.\<close>

definition demo_patient :: "string \<Rightarrow> string \<Rightarrow> patient_state \<Rightarrow> patient" where
  "demo_patient key loc st =
     \<lparr>pt_key = key, pt_location = loc, pt_type = None, pt_period = 12, pt_dying_skips = 3 / 2,
      pt_death_skips = 3, pt_last_state = Alive, pt_state = st, pt_last_beat = 0, pt_counter = 0\<rparr>"

definition demo_heap :: "patient list" where
  "demo_heap = [demo_patient ''a'' ''host'' Dead, demo_patient ''b'' ''host'' Alive]"

definition demo_clerk :: clerk where
  "demo_clerk = (case clerk_patient_added demo_heap 0 (clerk_init ''here'' True 120 180) of
     Inl _ \<Rightarrow> clerk_init ''here'' True 120 180
   | Inr s \<Rightarrow> (case clerk_patient_added demo_heap 1 s of Inl _ \<Rightarrow> s | Inr s \<Rightarrow> s))"

lemma demo_wf: "clerk_wf demo_heap demo_clerk"
proof -
  let ?s = "clerk_init ''here'' True 120 180"
  have wf: "clerk_wf demo_heap ?s" by (simp add: clerk_wf_def clerk_init_def lifts_ok_def)
  have 0: "0 < length demo_heap" "1 < length demo_heap" by (simp_all add: demo_heap_def)
  have new: "map_of (ck_patients ?s) (pt_key (demo_heap ! 0)) = None" by (simp add: clerk_init_def)
  note add0 = clerk_added_total [OF wf 0(1) new]
  have new1: "map_of (ck_patients (entered demo_heap 0 ?s)) (pt_key (demo_heap ! 1)) = None"
    by (simp add: entered_def check_in_def clerk_init_def add_location_def demo_heap_def demo_patient_def)
  note add1 = clerk_added_total [OF add0(2) 0(2) new1]
  have "demo_clerk = entered demo_heap 1 (entered demo_heap 0 ?s)"
    unfolding demo_clerk_def add0(1) sum.case add1(1) by simp
  then show ?thesis using add1(2) by simp
qed

definition demo_died :: clerk where
  "demo_died = projr (clerk_step demo_heap 50 (PatientDied 0) demo_clerk)"

definition demo_died_twice :: clerk where
  "demo_died_twice = projr (clerk_step demo_heap 60 (PatientDied 0) demo_died)"

lemma coroner_told_once_witness:
  "reports demo_heap ''a'' demo_died = 1 \<and> reports demo_heap ''a'' demo_died_twice \<le> 1"
proof -
  have adm: "admitted demo_heap s 0" if "map_of (ck_patients s) ''a'' = Some 0"
    "map_of (loc_patients (the_loc s 0)) ''a'' = Some 0" for s
    using that by (simp add: admitted_def known_def demo_heap_def demo_patient_def)
  have dead: "pt_state (demo_heap ! 0) = Dead" by (simp add: demo_heap_def demo_patient_def)
  have 1: "isl (clerk_step demo_heap 50 (PatientDied 0) demo_clerk) = False"
    "map_of (ck_patients demo_clerk) ''a'' = Some 0" "map_of (loc_patients (the_loc demo_clerk 0)) ''a'' = Some 0"
    by code_simp+
  have 2: "isl (clerk_step demo_heap 60 (PatientDied 0) demo_died) = False"
    "map_of (ck_patients demo_died) ''a'' = Some 0" "map_of (loc_patients (the_loc demo_died 0)) ''a'' = Some 0"
    by code_simp+
  have may: "clerk_may demo_heap (PatientDied 0) demo_clerk" "clerk_may demo_heap (PatientDied 0) demo_died"
    using adm [OF 1(2,3)] adm [OF 2(2,3)] dead by simp_all
  have steps: "clerk_step demo_heap 50 (PatientDied 0) demo_clerk = Inr demo_died"
    "clerk_step demo_heap 60 (PatientDied 0) demo_died = Inr demo_died_twice"
    using 1(1) 2(1) unfolding demo_died_twice_def demo_died_def by (simp_all add: sum.expand split: sum.split)
  have same: "same_people demo_heap demo_heap" by simp
  have run: "clerk_run [(demo_heap, PatientDied 0), (demo_heap, PatientDied 0)] (demo_heap, demo_clerk) (demo_heap, demo_died_twice)"
    by (rule run_step [OF same may(1) steps(1) run_step [OF same may(2) steps(2) run_nil]])
  have none: "ck_coroner demo_clerk = []" by code_simp
  have "reports demo_heap ''a'' demo_died_twice \<le> reports demo_heap ''a'' demo_clerk + (if reported ''a'' demo_clerk then 0 else 1)"
    by (rule coroner_told_once [OF run demo_wf]) (simp_all add: none)
  moreover have "reports demo_heap ''a'' demo_clerk = 0" by (simp add: reports_def none)
  moreover have "reports demo_heap ''a'' demo_died = 1" by code_simp
  ultimately show ?thesis by (simp split: if_splits)
qed

end
