(* ===== verification/Offline.thy ===== *)
theory Offline
  imports Coroner
begin

text \<open>
  The clerk while the monitor is disconnected, and the quarantine of a location.
\<close>

section \<open>Disconnected\<close>

definition no_isolation_call :: "clerk \<Rightarrow> bool" where
  "no_isolation_call s \<longleftrightarrow> (\<forall>i due. (i, due, LiftIsolation) \<notin> set (ck_delayed s))"

definition offline :: "clerk \<Rightarrow> bool" where
  "offline s \<longleftrightarrow> ck_state s = MDisconnected \<and> no_isolation_call s \<and>
     (\<forall>l \<in> set (map snd (ck_locations s)). loc_paused (the_loc s l))"

text \<open>A quiet change: nothing is reported, no location is resumed.\<close>

definition quiet :: "clerk \<Rightarrow> clerk \<Rightarrow> bool" where
  "quiet s s' \<longleftrightarrow> ck_coroner s' = ck_coroner s \<and> ck_state s' = ck_state s \<and> ck_locations s' = ck_locations s \<and>
     length (ck_locs s') = length (ck_locs s) \<and> set (ck_delayed s') \<subseteq> set (ck_delayed s) \<and>
     (\<forall>l < length (ck_locs s). loc_paused (the_loc s l) \<longrightarrow> loc_paused (the_loc s' l))"

lemma quiet_refl [simp]: "quiet s s"
  by (simp add: quiet_def)

lemma quiet_trans: "quiet s s' \<Longrightarrow> quiet s' s'' \<Longrightarrow> quiet s s''"
  unfolding quiet_def by (metis subset_trans)

lemma quiet_upd: "(\<And>x. loc_paused x \<Longrightarrow> loc_paused (f x)) \<Longrightarrow> quiet s (upd_loc l f s)"
  by (simp add: quiet_def)

lemma quiet_cancel: "quiet s (loc_cancel_call l s)" "quiet s (cancel_delayed_call i s)"
  by (simp_all add: quiet_def)

lemma quiet_offline:
  assumes "quiet s s'" "offline s" "locs_ok s"
  shows "offline s'"
  using assms unfolding quiet_def offline_def no_isolation_call_def locs_ok_def by (metis subsetD)

lemma sc_disconnected:
  "ck_state s = MDisconnected \<Longrightarrow>
   state_changed h now l s = Inr (if loc_state (the_loc s l) = LNormal then loc_cancel_call l s else s)"
  by (simp add: state_changed_def state_changed_body_def Let_def)

lemma set_state_disconnected:
  assumes "ck_state s = MDisconnected"
  shows "\<exists>s'. set_state (state_changed h now) l st s = Inr s' \<and> quiet s s' \<and>
    (\<forall>l'. loc_paused (the_loc s' l') = loc_paused (the_loc s l') \<and> loc_patients (the_loc s' l') = loc_patients (the_loc s l'))"
proof -
  let ?s = "upd_loc l (loc_state_update (\<lambda>_. st)) s"
  have q: "quiet s ?s" by (rule quiet_upd) simp
  have "set_state (state_changed h now) l st s = Inr (if loc_state (the_loc ?s l) = LNormal then loc_cancel_call l ?s else ?s)"
    unfolding set_state_def using assms by (simp add: sc_disconnected)
  moreover have "quiet s (if loc_state (the_loc ?s l) = LNormal then loc_cancel_call l ?s else ?s)"
    using q quiet_trans [OF q quiet_cancel(1)] by simp
  moreover have "loc_paused (the_loc (if loc_state (the_loc ?s l) = LNormal then loc_cancel_call l ?s else ?s) l') =
        loc_paused (the_loc s l') \<and>
      loc_patients (the_loc (if loc_state (the_loc ?s l) = LNormal then loc_cancel_call l ?s else ?s) l') =
        loc_patients (the_loc s l')" for l'
    by (cases "loc_state (the_loc ?s l) = LNormal") simp_all
  ultimately show ?thesis by (intro exI [of _ "if loc_state (the_loc ?s l) = LNormal then loc_cancel_call l ?s else ?s"]) blast
qed

lemma check_quarantine_disconnected:
  assumes "ck_state s = MDisconnected" "loc_paused (the_loc s l)"
  shows "\<exists>s'. check_quarantine h now l s = Inr s' \<and> quiet s s' \<and> loc_patients (the_loc s' l) = loc_patients (the_loc s l)"
proof -
  obtain s' where s': "set_state (state_changed h now) l LIsolated s = Inr s'" "quiet s s'"
    "\<And>l'. loc_paused (the_loc s' l') = loc_paused (the_loc s l') \<and> loc_patients (the_loc s' l') = loc_patients (the_loc s l')"
    using set_state_disconnected [OF assms(1), of h now l LIsolated] by blast
  then have "loc_paused (the_loc s' l)" using assms(2) by simp
  with s' show ?thesis unfolding check_quarantine_def by simp
qed

lemma notify_paused: "loc_paused (the_loc s l) \<Longrightarrow> fold (notify_death h l) rs s = s"
  by (induction rs) (simp_all add: notify_death_def)

lemma offline_step:
  assumes wf: "clerk_wf h s" and off: "offline s" and may: "clerk_may h ev s"
    and step: "clerk_step h now ev s = Inr s'"
    and ev: "ev \<noteq> ClerkReconnected" "\<And>r. ev \<noteq> PatientAdded r"
  shows "offline s' \<and> ck_coroner s' = ck_coroner s"
proof -
  have st: "ck_state s = MDisconnected" using off by (simp add: offline_def)
  have ok: "locs_ok s" by (rule wf_locs_ok [OF wf])
  have stays: "offline s' \<and> ck_coroner s' = ck_coroner s" if "quiet s s'"
    using quiet_offline [OF that off ok] that by (simp add: quiet_def)
  have paused: "loc_paused (the_loc s l)" if "known h s r l" for r l
  proof -
    have "(pt_location (h ! r), l) \<in> set (ck_locations s)" using known_loc(3) [OF wf that] by (rule map_of_SomeD)
    then show ?thesis using off unfolding offline_def by force
  qed
  show ?thesis
  proof (cases ev)
    case (PatientRemoved r)
    with may obtain l where k: "known h s r l" by (auto simp: admitted_def)
    have pk: "map_of (ck_patients s) (pt_key (h ! r)) = Some l" using k by (simp add: known_def)
    let ?o = "check_out l (pt_key (h ! r)) s"
    have q: "quiet s ?o"
      unfolding check_out_def
      by (rule quiet_trans [of _ "s\<lparr>ck_patients := AList.delete (pt_key (h ! r)) (ck_patients s)\<rparr>"])
         (auto simp: quiet_def)
    have "ck_state ?o = MDisconnected" "loc_paused (the_loc ?o l)"
      using q st paused [OF k] known_loc(1) [OF wf k] by (simp_all add: quiet_def)
    from check_quarantine_disconnected [OF this, of h now]
    obtain s3 where s3: "check_quarantine h now l ?o = Inr s3" "quiet ?o s3" by blast
    let ?c = "loc_quarantine (the_loc ?o l) \<and> loc_state (the_loc ?o l) = LNormal \<and> pt_state (h ! r) \<noteq> Dead"
    obtain s1 where "s1 = (if ?c then s3 else ?o)" by blast
    then have s1: "(if ?c then check_quarantine h now l ?o else Inr ?o) = Inr s1" and q1: "quiet ?o s1"
      using s3 by simp_all
    have "loc_remove_patient h now l r (s\<lparr>ck_patients := AList.delete (pt_key (h ! r)) (ck_patients s)\<rparr>) =
        Inr (loc_patients (the_loc s1 l) = [], s1)"
      unfolding loc_remove_patient_def Let_def check_out_def [symmetric] s1 by simp
    then have "s' = (if loc_patients (the_loc s1 l) = []
        then s1\<lparr>ck_locations := AList.delete (loc_name (the_loc s1 l)) (ck_locations s1)\<rparr> else s1)"
      using step PatientRemoved pk known_loc(3) [OF wf k] by (simp add: clerk_patient_removed_def Let_def)
    moreover have "offline s1 \<and> ck_coroner s1 = ck_coroner s"
      using quiet_offline [OF quiet_trans [OF q q1] off ok] quiet_trans [OF q q1] by (simp add: quiet_def)
    moreover have "offline (s1\<lparr>ck_locations := AList.delete n (ck_locations s1)\<rparr>)" if "offline s1" for n
      using that delete_subset [of n "ck_locations s1"] by (auto simp: offline_def no_isolation_call_def)
    ultimately show ?thesis by auto
  next
    case (PatientDying r)
    with may obtain l where k: "known h s r l" by (auto simp: admitted_def)
    with clerk_dying_total [OF wf k] step PatientDying off show ?thesis by simp
  next
    case (PatientDied r)
    with may obtain l where k: "known h s r l" by (auto simp: admitted_def)
    obtain s1 where s1: "check_quarantine h now l s = Inr s1" "quiet s s1"
      using check_quarantine_disconnected [OF st paused [OF k], of h now] by blast
    have "notify_death h l r s = s" using paused [OF k] by (simp add: notify_death_def)
    then have "s' = s \<or> s' = s1"
      using step PatientDied k s1 by (auto simp: clerk_patient_died_def with_location_def known_def
          loc_patient_died_def split: if_splits)
    then show ?thesis using stays s1(2) quiet_refl by blast
  next
    case (PatientResurrected r)
    with may obtain l where k: "known h s r l" by (auto simp: admitted_def)
    let ?u = "undead l (pt_key (h ! r)) s"
    have q: "quiet s ?u" unfolding undead_def by (rule quiet_upd) simp
    have st': "ck_state ?u = MDisconnected" using q st by (simp add: quiet_def)
    have p: "loc_paused (the_loc ?u l)" using q paused [OF k] known_loc(1) [OF wf k] by (simp add: quiet_def)
    obtain s1 where s1: "set_state (state_changed h now) l LNormal ?u = Inr s1" "quiet ?u s1"
      using set_state_disconnected [OF st', of h now l LNormal] by blast
    obtain s2 where s2: "set_state (state_changed h now) l LRecovering ?u = Inr s2" "quiet ?u s2"
      "loc_paused (the_loc s2 l)"
      using set_state_disconnected [OF st', of h now l LRecovering] p by blast
    have "s' = ?u \<or> s' = s1 \<or> s' = s2"
      using step PatientResurrected k s1(1) s2(1,3)
      unfolding undead_def by (auto simp: clerk_patient_resurrected_def with_location_def known_def
          loc_patient_resurrected_def Let_def split: if_splits)
    then have "quiet s s'" using q quiet_trans [OF q s1(2)] quiet_trans [OF q s2(2)] by blast
    then show ?thesis by (rule stays)
  next
    case ClerkDisconnected
    with step st stays quiet_refl show ?thesis by (simp add: on_disconnected_def)
  next
    case (ClerkCall i)
    show ?thesis
    proof (cases "map_of (ck_delayed s) i")
      case None
      with ClerkCall step stays quiet_refl show ?thesis by (simp add: fire_call_def)
    next
      case (Some dc)
      obtain due call where dc: "dc = (due, call)" by (cases dc)
      have mem: "(i, due, call) \<in> set (ck_delayed s)" using Some dc by (simp add: map_of_SomeD)
      with off obtain l where call: "call = LiftLocation l"
        by (cases call) (auto simp: offline_def no_isolation_call_def)
      have l: "l < length (ck_locs s)" using wf_tables(2) [OF wf] mem call unfolding lifts_ok_def by blast
      let ?c = "cancel_delayed_call i s"
      have "ck_state ?c = MDisconnected" using st by simp
      from set_state_disconnected [OF this, of h now l LNormal]
      obtain s1 where s1: "set_state (state_changed h now) l LNormal ?c = Inr s1" "quiet ?c s1"
        "loc_paused (the_loc s1 l) = loc_paused (the_loc ?c l)" "loc_patients (the_loc s1 l) = loc_patients (the_loc ?c l)"
        by blast
      have "bring_out_your_dead h l s1 = s1"
      proof (cases "loc_paused (the_loc s l)")
        case True
        then show ?thesis using s1(3) by (simp add: bring_out_your_dead_def notify_paused)
      next
        case False
        have "loc_patients (the_loc s l) = []"
        proof (rule ccontr)
          assume "loc_patients (the_loc s l) \<noteq> []"
          then obtain k r where "(k, r) \<in> set (loc_patients (the_loc s l))" by (cases "loc_patients (the_loc s l)") auto
          then have q: "map_of (loc_patients (the_loc s l)) k = Some r" using wf_loc(1) [OF wf l] by simp
          have "known h s r l" using wf_loc(3) [OF wf l q] q by (simp add: known_def)
          with paused False show False by blast
        qed
        then show ?thesis using s1(4) by (simp add: bring_out_your_dead_def iter_patients_def)
      qed
      then have "s' = s1"
        using ClerkCall step Some dc call s1(1) by (simp add: fire_call_def quarantine_lifted_def Let_def)
      then show ?thesis using stays quiet_trans [OF quiet_cancel(2) s1(2)] by simp
    qed
  qed (use ev in auto)
qed


lemma pause_each:
  assumes "ck_state s = MDisconnected" "\<forall>l \<in> set xs. l < length (ck_locs s)"
  shows "\<exists>s'. each (\<lambda>l s. loc_pause (state_changed h now) l (loc_cancel_call l s)) xs s = Inr s' \<and> quiet s s' \<and>
    (\<forall>l \<in> set xs. loc_paused (the_loc s' l))"
  using assms
proof (induction xs arbitrary: s)
  case (Cons l xs)
  let ?c = "loc_cancel_call l s"
  let ?p = "upd_loc l (loc_paused_update (\<lambda>_. True)) ?c"
  have q: "quiet s ?p" by (rule quiet_trans [OF quiet_cancel(1) quiet_upd]) simp
  have st: "ck_state ?p = MDisconnected" using Cons.prems by simp
  have lp: "loc_paused (the_loc ?p l)" using Cons.prems by simp
  obtain s1 where s1: "loc_pause (state_changed h now) l ?c = Inr s1" "quiet ?p s1"
    using set_state_disconnected [OF st, of h now l LNormal] quiet_refl [of ?p]
    by (cases "loc_state (the_loc ?p l) = LRecovering") (auto simp: loc_pause_def Let_def)
  note q1 = quiet_trans [OF q s1(2)]
  have "ck_state s1 = MDisconnected" "\<forall>l \<in> set xs. l < length (ck_locs s1)"
    using q1 Cons.prems by (simp_all add: quiet_def)
  then obtain s2 where s2: "each (\<lambda>l s. loc_pause (state_changed h now) l (loc_cancel_call l s)) xs s1 = Inr s2"
    "quiet s1 s2" "\<forall>l \<in> set xs. loc_paused (the_loc s2 l)"
    using Cons.IH by blast
  have "loc_paused (the_loc s2 l)"
    using lp s1(2) s2(2) Cons.prems(2) by (simp add: quiet_def)
  with s1(1) s2 quiet_trans [OF q1 s2(2)] show ?case by simp
qed simp

lemma disconnect_offline:
  assumes wf: "clerk_wf h s" and "ck_state s \<noteq> MDisconnected" and step: "on_disconnected h now s = Inr s'"
  shows "offline s' \<and> ck_coroner s' = ck_coroner s"
proof -
  let ?s = "(iso_cancel_call s)\<lparr>ck_state := MDisconnected\<rparr>"
  have "\<forall>l \<in> set (map snd (ck_locations ?s)). l < length (ck_locs ?s)"
    using wf_locs_ok [OF wf] by (simp add: locs_ok_def)
  from pause_each [OF _ this, of h now]
  obtain s2 where s2: "each (\<lambda>l s. loc_pause (state_changed h now) l (loc_cancel_call l s))
      (map snd (ck_locations ?s)) ?s = Inr s2" "quiet ?s s2"
    "\<forall>l \<in> set (map snd (ck_locations ?s)). loc_paused (the_loc s2 l)"
    by auto
  have "s' = s2" using step assms(2) s2(1) by (simp add: on_disconnected_def loc_pause_all_def)
  moreover have "no_isolation_call ?s"
    using iso_cancel_delayed [OF wf_tables(2) [OF wf]] by (simp add: no_isolation_call_def)
  ultimately show ?thesis
    using s2(2,3) unfolding offline_def quiet_def no_isolation_call_def by (auto dest: subsetD)
qed

fun stays_offline :: "clerk_event \<Rightarrow> bool" where
  "stays_offline (PatientAdded r) \<longleftrightarrow> False"
| "stays_offline ClerkReconnected \<longleftrightarrow> False"
| "stays_offline _ \<longleftrightarrow> True"

lemma offline_run:
  "clerk_run evs hs hs' \<Longrightarrow> clerk_wf (fst hs) (snd hs) \<Longrightarrow> offline (snd hs) \<Longrightarrow> \<forall>e \<in> set evs. stays_offline (snd e) \<Longrightarrow>
   offline (snd hs') \<and> ck_coroner (snd hs') = ck_coroner (snd hs)"
proof (induction rule: clerk_run.induct)
  case (run_step h h' ev s now s' evs hs)
  have wf: "clerk_wf h' s" by (rule wf_people) (use run_step in auto)
  have "ev \<noteq> ClerkReconnected" "\<And>r. ev \<noteq> PatientAdded r" using run_step.prems(3) by auto
  from offline_step [OF wf _ run_step.hyps(2,3) this] run_step.prems(2)
  have "offline s' \<and> ck_coroner s' = ck_coroner s" by simp
  then show ?case using run_step.IH run_step.prems(3) clerk_step_wf [OF wf run_step.hyps(2,3)] by simp
qed simp

text \<open>C7: From the moment the monitor is disconnected until it is reconnected, as long as no patient
  is added, the coroner is told of no death: patients may die, come back or be removed, and
  delayed calls from before may fire.\<close>

theorem disconnected_clerk_is_silent:
  assumes "clerk_wf h s" and "ck_state s \<noteq> MDisconnected"
    and "on_disconnected h now s = Inr s1" and "clerk_run evs (h, s1) (h', s2)"
    and "\<forall>e \<in> set evs. stays_offline (snd e)"
  shows "ck_coroner s2 = ck_coroner s \<and> ck_state s2 = MDisconnected"
proof -
  have "clerk_wf h s1" using clerk_step_wf [OF assms(1), of ClerkDisconnected now s1] assms(3) by simp
  with disconnect_offline [OF assms(1-3)] offline_run [OF assms(4)] assms(5)
  show ?thesis by (simp add: offline_def)
qed

definition demo_offline :: clerk where
  "demo_offline = projr (on_disconnected demo_heap 10 demo_clerk)"

lemma disconnected_clerk_is_silent_witness:
  "ck_coroner (projr (clerk_step demo_heap 50 (PatientDied 0) demo_offline)) = []"
proof -
  have 1: "isl (on_disconnected demo_heap 10 demo_clerk) = False" "ck_state demo_clerk = MNormal"
    "ck_coroner demo_clerk = []" by code_simp+
  have 2: "isl (clerk_step demo_heap 50 (PatientDied 0) demo_offline) = False"
    "map_of (ck_patients demo_offline) ''a'' = Some 0" "map_of (loc_patients (the_loc demo_offline 0)) ''a'' = Some 0"
    by code_simp+
  have "admitted demo_heap demo_offline 0"
    using 2 by (simp add: admitted_def known_def demo_heap_def demo_patient_def)
  then have may: "clerk_may demo_heap (PatientDied 0) demo_offline" by (simp add: demo_heap_def demo_patient_def)
  have off: "on_disconnected demo_heap 10 demo_clerk = Inr demo_offline"
    using 1(1) unfolding demo_offline_def by (simp add: sum.expand split: sum.split)
  have step: "clerk_step demo_heap 50 (PatientDied 0) demo_offline =
      Inr (projr (clerk_step demo_heap 50 (PatientDied 0) demo_offline))"
    using 2(1) by (simp add: sum.expand split: sum.split)
  have "clerk_run [(demo_heap, PatientDied 0)] (demo_heap, demo_offline)
      (demo_heap, projr (clerk_step demo_heap 50 (PatientDied 0) demo_offline))"
    by (rule clerk_run.run_step [OF same_people_refl may step run_nil])
  from disconnected_clerk_is_silent [OF demo_wf _ off this] 1 show ?thesis by simp
qed

text \<open>The restriction is needed: a location that the clerk first hears of while the monitor is
  disconnected is not paused.  Two patients are added there after the disconnection; when one
  dies, the coroner is told although the monitor is still disconnected.\<close>

theorem new_location_not_paused:
  "let s0 = projr (on_disconnected demo_heap 10 (clerk_init ''here'' True 120 180));
       s1 = projr (clerk_patient_added demo_heap 0 s0);
       s2 = projr (clerk_patient_added demo_heap 1 s1);
       s3 = projr (clerk_patient_died demo_heap 50 0 s2)
   in ck_state s3 = MDisconnected \<and> ck_coroner s3 = [0]"
  by code_simp

section \<open>Quarantine\<close>

lemma bring_out_flags:
  assumes "l < length (ck_locs s)" "\<not> loc_paused (the_loc s l)"
    and "r \<in> snd ` set (loc_patients (the_loc s l))" "pt_state (h ! r) = Dead"
  shows "pt_key (h ! r) \<in> loc_dead (the_loc (bring_out_your_dead h l s) l)"
proof -
  have step: "l < length (ck_locs (notify_death h l q s)) \<and> \<not> loc_paused (the_loc (notify_death h l q s) l) \<and>
      insert (pt_key (h ! q)) (loc_dead (the_loc s l)) \<subseteq> loc_dead (the_loc (notify_death h l q s) l)"
    if "l < length (ck_locs s)" "\<not> loc_paused (the_loc s l)" for q s
    using that by (simp add: notify_death_def insert_absorb)
      (auto simp: upd_loc_def)
  have "pt_key (h ! q) \<in> loc_dead (the_loc (fold (notify_death h l) rs s) l)"
    if "q \<in> set rs \<or> pt_key (h ! q) \<in> loc_dead (the_loc s l)" "l < length (ck_locs s)" "\<not> loc_paused (the_loc s l)"
    for q rs s
    using that
  proof (induction rs arbitrary: s)
    case (Cons r rs)
    with step [of s r] show ?case by (auto simp: subset_iff)
  qed simp
  then show ?thesis
    unfolding bring_out_your_dead_def using assms by (simp add: iter_patients_def)
qed

lemma loc_schedule_delayed:
  "map_of (ck_delayed (loc_schedule_call now d c l s)) (ck_next_call (loc_cancel_call l s)) = Some (now + d, c)"
  "map_of (ck_location_calls (loc_schedule_call now d c l s)) (loc_name (the_loc s l)) =
     Some (ck_next_call (loc_cancel_call l s))"
  by (simp_all add: loc_schedule_call_def call_later_def Let_def dict_simps)


text \<open>A flag is set only together with a report.\<close>

lemma report_tells:
  "(report h P)\<^sup>*\<^sup>* v w \<Longrightarrow> \<exists>new. snd w = snd v @ new \<and>
     (flagged key (fst w) \<longrightarrow> flagged key (fst v) \<or> (\<exists>r \<in> set new. pt_key (h ! r) = key))"
proof (induction rule: rtranclp_induct)
  case base
  then show ?case by simp
next
  case (step w x)
  then obtain new where new: "snd w = snd v @ new"
    "flagged key (fst w) \<longrightarrow> flagged key (fst v) \<or> (\<exists>r \<in> set new. pt_key (h ! r) = key)" by blast
  from step.hyps(2) show ?case
  proof (cases rule: report.cases)
    case (1 l D r out)
    have "snd x = snd v @ (new @ [r])" using 1 new(1) by simp
    moreover have "flagged key (fst x) \<longrightarrow> flagged key (fst v) \<or> (\<exists>q \<in> set (new @ [r]). pt_key (h ! q) = key)"
      using 1 new(2) by (auto simp: flagged_insert)
    ultimately show ?thesis by blast
  qed
qed

lemma evolves_reports:
  assumes wf: "clerk_wf h s" and ev: "evolves h s s'" and f: "reported key s'"
  shows "reports h key s' = reports h key s + (if reported key s then 0 else 1)"
proof -
  have "(report h (patients_of s))\<^sup>*\<^sup>* (dview s) (dview s')" using ev by (simp add: evolves_def)
  from report_tells [OF this, of key] obtain new where new: "ck_coroner s' = ck_coroner s @ new"
    "reported key s' \<longrightarrow> reported key s \<or> (\<exists>r \<in> set new. pt_key (h ! r) = key)"
    by (auto simp: dview_def reported_def)
  have up: "reports h key s' \<le> reports h key s + (if reported key s then 0 else 1)"
    using evolves_budget [OF wf ev, of key] f by (simp add: budget_def reports_def reported_def dview_def split: if_splits)
  have "filter (\<lambda>r. pt_key (h ! r) = key) new \<noteq> []" if "\<not> reported key s"
    using new(2) f that by (auto simp: filter_empty_conv)
  then have "reports h key s + (if reported key s then 0 else 1) \<le> reports h key s'"
    using new(1) by (auto simp: reports_def Suc_le_eq)
  with up show ?thesis by simp
qed

text \<open>C32: When the quarantine of a location is lifted while the location is working, every patient of
  it that is dead by then is reported to the coroner exactly once, unless it carries the mark of having
  been reported in this life already, and then not again; after that it carries the mark.\<close>

theorem lifted_quarantine_reports_all:
  assumes wf: "clerk_wf h s" and l: "l < length (ck_locs s)"
    and lift: "quarantine_lifted h now l s = Inr s'" and working: "\<not> loc_paused (the_loc s' l)"
    and q: "q \<in> snd ` set (loc_patients (the_loc s l))" and dead: "pt_state (h ! q) = Dead"
  shows "reports h (pt_key (h ! q)) s' =
      reports h (pt_key (h ! q)) s + (if reported (pt_key (h ! q)) s then 0 else 1) \<and>
    pt_key (h ! q) \<in> loc_dead (the_loc s' l)"
proof -
  obtain s1 where s1: "set_state (state_changed h now) l LNormal s = Inr s1" and s': "s' = bring_out_your_dead h l s1"
    using lift by (auto simp: quarantine_lifted_def bindE_Inr_iff)
  have ev: "evolves h s s1" using set_state_fine [OF wf_locs_ok [OF wf], of h now l LNormal] s1 by (simp add: fine_def)
  have len: "l < length (ck_locs s1)" using evolves_fields(2) [OF ev] l by simp
  have pats: "loc_patients (the_loc s1 l) = loc_patients (the_loc s l)"
    by (rule static_loc(3) [OF evolves_static [OF ev] l])
  have one: "loc_paused (the_loc (notify_death h l q s) l) = loc_paused (the_loc s l)" for q s
    by (simp add: notify_death_def)
  have same: "loc_paused (the_loc (fold (notify_death h l) rs s) l) = loc_paused (the_loc s l)" for rs s
    by (induction rs arbitrary: s) (simp_all add: one)
  have "\<not> loc_paused (the_loc s1 l)" using working same unfolding s' bring_out_your_dead_def by simp
  from bring_out_flags [OF len this _ dead] q pats have flag: "pt_key (h ! q) \<in> loc_dead (the_loc s' l)"
    unfolding s' by simp
  have ev': "evolves h s s'" unfolding s' using evolves_trans [OF ev] evolves_bring_out [OF len] by blast
  have "l < length (ck_locs s')" using evolves_fields(2) [OF ev'] l by simp
  then have "reported (pt_key (h ! q)) s'" using flag unfolding reported_def flagged_iff by blast
  from evolves_reports [OF wf ev' this] flag show ?thesis by simp
qed


text \<open>Two locations with one patient each; the first dies, is isolated, and is reported when the
  quarantine ends.\<close>

definition two_heap :: "patient list" where
  "two_heap = [demo_patient ''a'' ''host'' Dead, demo_patient ''b'' ''other'' Alive]"

definition two_clerk :: clerk where
  "two_clerk = projr (clerk_patient_added two_heap 1 (projr (clerk_patient_added two_heap 0
     (clerk_init ''here'' True 120 180))))"

lemma two_wf: "clerk_wf two_heap two_clerk" and two_known: "known two_heap two_clerk 0 0"
proof -
  let ?s = "clerk_init ''here'' True 120 180"
  have wf: "clerk_wf two_heap ?s" by (simp add: clerk_wf_def clerk_init_def lifts_ok_def)
  have 0: "0 < length two_heap" "1 < length two_heap" by (simp_all add: two_heap_def)
  have new: "map_of (ck_patients ?s) (pt_key (two_heap ! 0)) = None" by (simp add: clerk_init_def)
  note add0 = clerk_added_total [OF wf 0(1) new]
  have new1: "map_of (ck_patients (entered two_heap 0 ?s)) (pt_key (two_heap ! 1)) = None"
    by (simp add: entered_def check_in_def clerk_init_def add_location_def two_heap_def demo_patient_def)
  note add1 = clerk_added_total [OF add0(2) 0(2) new1]
  have "two_clerk = entered two_heap 1 (entered two_heap 0 ?s)"
    unfolding two_clerk_def add0(1) sum.sel add1(1) by simp
  then show "clerk_wf two_heap two_clerk" using add1(2) by simp
  have "map_of (ck_patients two_clerk) ''a'' = Some 0" "map_of (loc_patients (the_loc two_clerk 0)) ''a'' = Some 0"
    by code_simp+
  then show "known two_heap two_clerk 0 0" by (simp add: known_def two_heap_def demo_patient_def)
qed


definition two_lifted :: clerk where
  "two_lifted = projr (quarantine_lifted two_heap 170 0 two_clerk)"

lemma lifted_quarantine_reports_all_witness:
  "reports two_heap ''a'' two_clerk = 0 \<and> reports two_heap ''a'' two_lifted = 1"
proof -
  have 1: "isl (quarantine_lifted two_heap 170 0 two_clerk) = False" "0 < length (ck_locs two_clerk)"
    "\<not> loc_paused (the_loc two_lifted 0)" "pt_state (two_heap ! 0) = Dead" "pt_key (two_heap ! 0) = ''a''"
    by code_simp+
  have lift: "quarantine_lifted two_heap 170 0 two_clerk = Inr two_lifted"
    using 1(1) unfolding two_lifted_def by (simp add: sum.expand split: sum.split)
  have "reports two_heap ''a'' two_clerk = 0" by code_simp
  moreover have "list_all (\<lambda>loc. ''a'' \<notin> loc_dead loc) (ck_locs two_clerk)" by code_simp
  then have "\<not> reported ''a'' two_clerk" by (auto simp: reported_def flagged_iff list_all_length)
  ultimately show ?thesis
    using lifted_quarantine_reports_all [OF two_wf 1(2) lift 1(3) known_loc(4) [OF two_wf two_known] 1(4)] 1(5) by simp
qed

end
