(* ===== verification/StateMachine.thy ===== *)
theory StateMachine
  imports Prelude
begin

text \<open>
  The building blocks of \<open>agencies/common.py\<close> and the notifier of \<open>common/defer.py\<close>: named
  counters, the table of deferreds waiting for a notification, the state machine mixin with its
  table driven event handler, the connection manager built on it and the staged procedure.

  A deferred is the number it was created with.  The callbacks the code passes to
  \<open>time.call_next\<close> are queued in the state and delivered by an operation of their own, as the
  reactor delivers them after the current handler has returned.  An operation that can raise
  after having changed the state returns both, \<open>(Some e, s)\<close> or \<open>(None, s)\<close>.
\<close>

section \<open>Operations that raise and keep their effects\<close>

type_synonym 's run = "exn option \<times> 's"

definition and_then :: "'s run \<Rightarrow> ('s \<Rightarrow> 's run) \<Rightarrow> 's run" where
  "and_then m f = (case m of (None, s) \<Rightarrow> f s | (Some e, s) \<Rightarrow> (Some e, s))"

lemma and_then_simps [simp]: "and_then (None, s) f = f s" "and_then (Some e, s) f = (Some e, s)"
  by (simp_all add: and_then_def)

text \<open>A property that both operations preserve is preserved by running one after the other.\<close>

lemma and_then_keeps:
  assumes "P (snd m)" and "\<And>s. P s \<Longrightarrow> P (snd (f s))"
  shows "P (snd (and_then m f))"
  using assms by (cases m; cases "fst m") (auto simp: and_then_def)

fun run_each :: "('k \<Rightarrow> 's \<Rightarrow> 's run) \<Rightarrow> 'k list \<Rightarrow> 's \<Rightarrow> 's run" where
  "run_each f [] s = (None, s)"
| "run_each f (k # ks) s = and_then (f k s) (run_each f ks)"

lemma each_keeps:
  assumes "P s" and "\<And>k s. k \<in> set ks \<Longrightarrow> P s \<Longrightarrow> P (snd (f k s))"
  shows "P (snd (run_each f ks s))"
  using assms
proof (induction ks arbitrary: s)
  case (Cons k ks)
  then show ?case by (simp add: and_then_keeps)
qed simp

section \<open>Statistics\<close>

type_synonym 'k statistics = "('k, int) dict"

definition increase_stat :: "'k \<Rightarrow> int \<Rightarrow> 'k statistics \<Rightarrow> 'k statistics" where
  "increase_stat k v stats =
     (let stats = (if dict_has stats k then stats else AList.update k 0 stats)
      in case map_of stats k of
           None \<Rightarrow> stats
         | Some old \<Rightarrow> AList.update k (old + v) stats)"

definition get_stats :: "'k statistics \<Rightarrow> ('k \<times> int) list" where
  "get_stats stats = stats"

definition stat :: "'k statistics \<Rightarrow> 'k \<Rightarrow> int" where
  "stat stats k = (case map_of stats k of None \<Rightarrow> 0 | Some v \<Rightarrow> v)"

lemma stat_increase: "stat (increase_stat k v s) x = stat s x + (if x = k then v else 0)"
  by (auto simp: stat_def increase_stat_def dict_simps Let_def split: option.split)

section \<open>Notifier\<close>

type_synonym 'k notifier = "('k, nat list) dict"

definition notifier_store :: "'k \<Rightarrow> nat \<Rightarrow> 'k notifier \<Rightarrow> 'k notifier" where
  "notifier_store k d n =
     (case map_of n k of
        None \<Rightarrow> AList.update k [d] n
      | Some ds \<Rightarrow> AList.update k (ds @ [d]) n)"

definition notifier_pop :: "'k \<Rightarrow> 'k notifier \<Rightarrow> nat list option \<times> 'k notifier" where
  "notifier_pop k n =
     (case map_of n k of None \<Rightarrow> (None, n) | Some ds \<Rightarrow> (Some ds, AList.delete k n))"

definition notifier_callback :: "'k \<Rightarrow> 'r \<Rightarrow> 'k notifier \<Rightarrow> (nat \<times> 'r) list \<times> 'k notifier" where
  "notifier_callback k r n =
     (case notifier_pop k n of
        (None, n') \<Rightarrow> ([], n')
      | (Some ds, n') \<Rightarrow> (map (\<lambda>d. (d, r)) ds, n'))"

definition notifier_remove :: "nat \<Rightarrow> 'k notifier \<Rightarrow> 'k notifier" where
  "notifier_remove d n = map (\<lambda>(k, ds). (k, remove1 d ds)) n"

definition waiters :: "'k notifier \<Rightarrow> 'k \<Rightarrow> nat set" where
  "waiters n k = (case map_of n k of None \<Rightarrow> {} | Some ds \<Rightarrow> set ds)"

lemma waiters_store: "waiters (notifier_store k d n) x = waiters n x \<union> (if x = k then {d} else {})"
  by (auto simp: waiters_def notifier_store_def dict_simps split: option.split)

lemma waiters_pop: "waiters (snd (notifier_pop k n)) x = (if x = k then {} else waiters n x)"
  by (auto simp: waiters_def notifier_pop_def dict_simps split: option.split)

lemma waiters_fold_store:
  "waiters (fold (\<lambda>k. notifier_store k d) ks n) x = waiters n x \<union> (if x \<in> set ks then {d} else {})"
  by (induction ks arbitrary: n) (auto simp: waiters_store)

lemma notifier_callback_calls: "fst ` set (fst (notifier_callback k r n)) = waiters n k"
  by (auto simp: notifier_callback_def notifier_pop_def waiters_def image_image split: option.split)

lemma notifier_callback_rest: "snd (notifier_callback k r n) = snd (notifier_pop k n)"
  by (simp add: notifier_callback_def notifier_pop_def split: option.split)

section \<open>The state machine\<close>

text \<open>
  \<open>state\<close> is None until the first change.  \<open>waits\<close> maps a state to the deferred lists waiting
  for it; \<open>due\<close> are the notifications \<open>_set_state\<close> has scheduled; \<open>fired\<close> are the deferred
  lists that have fired, each of them once, however many of its states are entered later.
\<close>

record 'st machine =
  state :: "'st option"
  waits :: "'st notifier"
  due :: "'st list"
  fired :: "nat list"
  next_wait :: nat

definition cmp_state :: "'st option \<Rightarrow> 'st list \<Rightarrow> bool" where
  "cmp_state st sts \<longleftrightarrow> (case st of None \<Rightarrow> False | Some x \<Rightarrow> x \<in> set sts)"

definition set_machine_state :: "'st \<Rightarrow> ('st, 'a) machine_scheme \<Rightarrow> ('st, 'a) machine_scheme" where
  "set_machine_state st m =
     (let m = (if state m = Some st then m else m\<lparr>state := Some st\<rparr>)
      in m\<lparr>due := due m @ [st]\<rparr>)"

definition wait_for_state ::
  "'st list \<Rightarrow> ('st, 'a) machine_scheme \<Rightarrow> nat option \<times> ('st, 'a) machine_scheme" where
  "wait_for_state sts m =
     (if cmp_state (state m) sts then (None, m)
      else (Some (next_wait m),
            m\<lparr>waits := fold (\<lambda>st. notifier_store st (next_wait m)) sts (waits m),
              next_wait := next_wait m + 1\<rparr>))"

definition deliver :: "('st, 'a) machine_scheme \<Rightarrow> ('st, 'a) machine_scheme" where
  "deliver m =
     (case due m of
        [] \<Rightarrow> m
      | st # rest \<Rightarrow>
          (case notifier_callback st () (waits m) of
             (calls, n) \<Rightarrow>
               m\<lparr>due := rest, waits := n,
                 fired := fired m @ filter (\<lambda>d. d \<notin> set (fired m)) (remdups (map fst calls))\<rparr>))"

text \<open>The handler table: one decision for an event, or several told apart by the state.\<close>

datatype ('st, 'h) decision =
    One "'st list" 'st 'h
  | Many "('st list \<times> 'st \<times> 'h) list"

definition event_handler ::
  "('c \<Rightarrow> ('st, 'h) decision option) \<Rightarrow> 'c \<Rightarrow> 'st option \<Rightarrow> ('st \<times> 'h) option" where
  "event_handler mapping event st =
     (case mapping event of
        None \<Rightarrow> None
      | Some (One before after h) \<Rightarrow> if cmp_state st before then Some (after, h) else None
      | Some (Many ds) \<Rightarrow>
          (case filter (\<lambda>(before, _, _). cmp_state st before) ds of
             [(_, after, h)] \<Rightarrow> Some (after, h)
           | _ \<Rightarrow> None))"

text \<open>A canceller is active while the machine stays in the state it was made in; once found
  inactive it forgets the machine for good.\<close>

record 'st canceller =
  can_state :: "'st option"
  can_holds :: bool

definition get_canceller :: "('st, 'a) machine_scheme \<Rightarrow> 'st canceller" where
  "get_canceller m = \<lparr>can_state = state m, can_holds = True\<rparr>"

definition canceller_active :: "('st, 'a) machine_scheme \<Rightarrow> 'st canceller \<Rightarrow> bool \<times> 'st canceller" where
  "canceller_active m c =
     (if can_holds c \<and> can_state c = state m then (True, c) else (False, c\<lparr>can_holds := False\<rparr>))"

section \<open>Waiting for a state\<close>

text \<open>
  A deferred list that waits for a state stays registered for it until it fires, and once the
  machine is set to the state the notification is on its way, until it is delivered.
\<close>

inductive machine_step :: "('st, 'a) machine_scheme \<Rightarrow> ('st, 'a) machine_scheme \<Rightarrow> bool" where
  enter: "machine_step m (set_machine_state st m)"
| wait: "machine_step m (snd (wait_for_state sts m))"
| notify: "machine_step m (deliver m)"

inductive_cases machine_stepE: "machine_step m m'"

lemma deliver_empty: "due m = [] \<Longrightarrow> deliver m = m"
  by (simp add: deliver_def)

lemma deliver_cons:
  assumes "due m = st # rest"
  shows "due (deliver m) = rest" "state (deliver m) = state m"
    "waiters (waits (deliver m)) x = (if x = st then {} else waiters (waits m) x)"
    "set (fired (deliver m)) = set (fired m) \<union> waiters (waits m) st"
proof -
  obtain calls n where c: "notifier_callback st () (waits m) = (calls, n)" by fastforce
  have n: "n = snd (notifier_pop st (waits m))" using notifier_callback_rest [of st "()" "waits m"] c by simp
  have calls: "fst ` set calls = waiters (waits m) st"
    using notifier_callback_calls [of st "()" "waits m"] c by simp
  show "due (deliver m) = rest" "state (deliver m) = state m"
    "waiters (waits (deliver m)) x = (if x = st then {} else waiters (waits m) x)"
    using assms c by (simp_all add: deliver_def n waiters_pop)
  show "set (fired (deliver m)) = set (fired m) \<union> waiters (waits m) st"
    using assms c calls by (auto simp: deliver_def)
qed

lemma enter_fields [simp]:
  "due (set_machine_state st m) = due m @ [st]" "waits (set_machine_state st m) = waits m"
  "fired (set_machine_state st m) = fired m" "next_wait (set_machine_state st m) = next_wait m"
  by (simp_all add: set_machine_state_def Let_def)

lemma wait_fields [simp]:
  "due (snd (wait_for_state sts m)) = due m" "fired (snd (wait_for_state sts m)) = fired m"
  by (simp_all add: wait_for_state_def)

lemma wait_keeps_waiters: "d \<in> waiters (waits m) x \<Longrightarrow> d \<in> waiters (waits (snd (wait_for_state sts m))) x"
  by (simp add: wait_for_state_def waiters_fold_store)

text \<open>The numbers of the deferred lists are given in order, and each fires once.\<close>

definition numbered :: "('st, 'a) machine_scheme \<Rightarrow> bool" where
  "numbered m \<longleftrightarrow> distinct (fired m) \<and> (\<forall>d \<in> set (fired m). d < next_wait m) \<and>
     (\<forall>st. \<forall>d \<in> waiters (waits m) st. d < next_wait m)"

lemma numbered_step: "machine_step m m' \<Longrightarrow> numbered m \<Longrightarrow> numbered m'"
proof (erule machine_stepE)
  fix sts assume "numbered m" and "m' = snd (wait_for_state sts m)"
  then show "numbered m'"
    by (fastforce simp: numbered_def wait_for_state_def waiters_fold_store)
next
  assume n: "numbered m" and m': "m' = deliver m"
  show "numbered m'"
  proof (cases "due m")
    case Nil
    then show ?thesis using n m' by (simp add: deliver_empty)
  next
    case (Cons st rest)
    have "distinct (fired (deliver m))" "next_wait (deliver m) = next_wait m"
      using Cons n by (auto simp: deliver_def numbered_def split: prod.split)
    then show ?thesis using n m' Cons by (auto simp: numbered_def deliver_cons)
  qed
qed (auto simp: numbered_def)

lemma numbered_steps: "machine_step\<^sup>*\<^sup>* m m' \<Longrightarrow> numbered m \<Longrightarrow> numbered m'"
  by (induction rule: rtranclp_induct) (auto intro: numbered_step)

text \<open>Who waits is registered or has fired.\<close>

lemma registered_steps:
  "machine_step\<^sup>*\<^sup>* m m' \<Longrightarrow> d \<in> set (fired m) \<or> d \<in> waiters (waits m) st \<Longrightarrow>
     d \<in> set (fired m') \<or> d \<in> waiters (waits m') st"
proof (induction rule: rtranclp_induct)
  case (step y z)
  have ih: "d \<in> set (fired y) \<or> d \<in> waiters (waits y) st" using step by blast
  from step.hyps(2) show ?case
  proof (rule machine_stepE)
    fix sts assume "z = snd (wait_for_state sts y)"
    then show ?thesis using ih by (auto intro: wait_keeps_waiters)
  next
    assume "z = deliver y"
    then show ?thesis using ih by (cases "due y") (auto simp: deliver_empty deliver_cons)
  qed (use ih in auto)
qed blast

text \<open>Once the state is entered, the notification is on its way until it is delivered.\<close>

lemma notified_steps:
  "machine_step\<^sup>*\<^sup>* m m' \<Longrightarrow> d \<in> set (fired m) \<or> d \<in> waiters (waits m) st \<and> st \<in> set (due m) \<Longrightarrow>
     d \<in> set (fired m') \<or> d \<in> waiters (waits m') st \<and> st \<in> set (due m')"
proof (induction rule: rtranclp_induct)
  case (step y z)
  have ih: "d \<in> set (fired y) \<or> d \<in> waiters (waits y) st \<and> st \<in> set (due y)" using step by blast
  from step.hyps(2) show ?case
  proof (rule machine_stepE)
    fix sts assume "z = snd (wait_for_state sts y)"
    then show ?thesis using ih by (auto intro: wait_keeps_waiters)
  next
    assume "z = deliver y"
    then show ?thesis using ih by (cases "due y") (auto simp: deliver_empty deliver_cons)
  qed (use ih in auto)
qed blast

text \<open>Delivering all that is scheduled fires every wait for a state that is scheduled.\<close>

definition deliver_all :: "('st, 'a) machine_scheme \<Rightarrow> ('st, 'a) machine_scheme" where
  "deliver_all m = (deliver ^^ length (due m)) m"

lemma fired_grows: "set (fired m) \<subseteq> set (fired (deliver m))"
  by (cases "due m") (auto simp: deliver_empty deliver_cons)

lemma fired_grows_pow: "set (fired m) \<subseteq> set (fired ((deliver ^^ n) m))"
proof (induction n)
  case (Suc n)
  then show ?case using fired_grows [of "(deliver ^^ n) m"] by simp
qed simp

lemma deliver_pow_fires:
  "length (due m) = n \<Longrightarrow> st \<in> set (due m) \<Longrightarrow> d \<in> waiters (waits m) st \<Longrightarrow>
     d \<in> set (fired ((deliver ^^ n) m))"
proof (induction n arbitrary: m)
  case (Suc n)
  then obtain s rest where due: "due m = s # rest" by (cases "due m") auto
  have "d \<in> set (fired ((deliver ^^ n) (deliver m)))"
  proof (cases "s = st")
    case True
    then have "d \<in> set (fired (deliver m))" using Suc.prems due by (simp add: deliver_cons)
    then show ?thesis using fired_grows_pow by blast
  next
    case False
    then show ?thesis using Suc due by (intro Suc.IH) (auto simp: deliver_cons)
  qed
  then show ?case by (simp add: funpow_swap1)
qed simp

lemma count_list_distinct: "distinct xs \<Longrightarrow> d \<in> set xs \<Longrightarrow> count_list xs d = 1"
  by (induction xs) auto

lemma deliver_pow_steps: "machine_step\<^sup>*\<^sup>* m ((deliver ^^ n) m)"
  by (induction n) (auto intro: rtranclp.rtrancl_into_rtrancl machine_step.notify)

text \<open>C30: Nobody who waits for a state misses it.  A call of \<open>wait_for_state\<close> that does not find the
  machine in one of the states returns a deferred list that has not fired; if the machine is set to one
  of the states at any time after that, then, whatever other changes of state, waits and deliveries come
  before and after, and even if the state has been left again, the deferred list has fired exactly once
  when the notifications scheduled by then have been delivered.\<close>

theorem waiters_are_fired:
  assumes "waits m0 = []" "fired m0 = []" "machine_step\<^sup>*\<^sup>* m0 m1"
    and "wait_for_state sts m1 = (Some d, m2)" "st \<in> set sts"
    and "machine_step\<^sup>*\<^sup>* m2 m3" "machine_step\<^sup>*\<^sup>* (set_machine_state st m3) m4"
  shows "d \<notin> set (fired m2) \<and> count_list (fired (deliver_all m4)) d = 1"
proof
  have n1: "numbered m1" by (rule numbered_steps [OF assms(3)]) (simp add: assms(1,2) numbered_def waiters_def)
  have d: "d = next_wait m1" and m2: "m2 = snd (wait_for_state sts m1)" and
    reg: "d \<in> waiters (waits m2) st"
    using assms(4,5) by (auto simp: wait_for_state_def waiters_fold_store split: if_splits)
  show "d \<notin> set (fired m2)" using n1 unfolding m2 d by (auto simp: numbered_def)
  have s2: "machine_step m1 m2" unfolding m2 by (rule machine_step.wait)
  have "d \<in> set (fired m3) \<or> d \<in> waiters (waits m3) st" using registered_steps [OF assms(6)] reg by blast
  then have "d \<in> set (fired m4) \<or> d \<in> waiters (waits m4) st \<and> st \<in> set (due m4)"
    by (intro notified_steps [OF assms(7)]) auto
  then have f: "d \<in> set (fired (deliver_all m4))"
    using fired_grows_pow [of m4 "length (due m4)"] deliver_pow_fires [of m4 "length (due m4)" st d]
    by (auto simp: deliver_all_def)
  have "numbered (deliver_all m4)"
    unfolding deliver_all_def
    by (intro numbered_steps [OF deliver_pow_steps] numbered_steps [OF assms(7)] numbered_step [OF machine_step.enter]
        numbered_steps [OF assms(6)] numbered_step [OF s2 n1])
  then show "count_list (fired (deliver_all m4)) d = 1"
    using f by (simp add: numbered_def count_list_distinct)
qed

definition demo_machine :: "nat machine" where
  "demo_machine = \<lparr>state = None, waits = [], due = [], fired = [], next_wait = 0\<rparr>"

text \<open>The state is entered and left again before any notification is delivered.\<close>

theorem waiters_are_fired_witness:
  "\<exists>d m2. wait_for_state [1, 2] demo_machine = (Some d, m2) \<and>
     count_list (fired (deliver_all (set_machine_state 3 (set_machine_state 2 m2)))) d = 1"
proof -
  obtain d m2 where w: "wait_for_state [1, 2] demo_machine = (Some d, m2)"
    by (simp add: wait_for_state_def demo_machine_def cmp_state_def)
  have "d \<notin> set (fired m2) \<and> count_list (fired (deliver_all (set_machine_state 3 (set_machine_state 2 m2)))) d = 1"
    by (rule waiters_are_fired [where st = 2, OF _ _ rtranclp.rtrancl_refl w _ rtranclp.rtrancl_refl r_into_rtranclp])
      (simp_all add: demo_machine_def machine_step.enter)
  with w show ?thesis by blast
qed

end
