(* ===== verification/Messages.thy ===== *)
theory Messages
  imports Prelude
begin

text \<open>
  Recipients and messages (\<open>agencies/recipient.py\<close>, \<open>agencies/message.py\<close>).  A message is a
  record whose \<open>m_kind\<close> is its class; fields a class does not declare are None.  Payloads map
  names to numbers, which is what \<open>Bid.pick_best\<close> reads of them.
\<close>

section \<open>Recipients\<close>

datatype recipient_type = RAgent | RBroadcast

record recipient =
  rc_type :: recipient_type
  rc_key :: string
  rc_route :: "string option"

definition recipient_eq :: "recipient \<Rightarrow> recipient \<Rightarrow> bool" where
  "recipient_eq a b \<longleftrightarrow> rc_type a = rc_type b \<and> rc_route a = rc_route b \<and> rc_key a = rc_key b"

definition agent_recipient :: "string \<Rightarrow> string option \<Rightarrow> recipient" where
  "agent_recipient key route = \<lparr>rc_type = RAgent, rc_key = key, rc_route = route\<rparr>"

definition broadcast_recipient :: "string \<Rightarrow> string option \<Rightarrow> recipient" where
  "broadcast_recipient protocol_id route = \<lparr>rc_type = RBroadcast, rc_key = protocol_id, rc_route = route\<rparr>"

text \<open>\<open>Recipients.remove\<close> is \<open>list.remove\<close>; equality of two lists zips them.\<close>

fun recipients_remove :: "recipient \<Rightarrow> recipient list \<Rightarrow> exn + recipient list" where
  "recipients_remove r [] = Inl ValueError"
| "recipients_remove r (x # xs) =
     (if recipient_eq x r then Inr xs else bindE (recipients_remove r xs) (\<lambda>ys. Inr (x # ys)))"

definition recipients_eq :: "recipient list \<Rightarrow> recipient list \<Rightarrow> bool" where
  "recipients_eq as bs \<longleftrightarrow> list_all (\<lambda>(a, b). recipient_eq a b) (zip as bs)"

lemma recipient_eq_iff: "recipient_eq a b \<longleftrightarrow> a = b"
  by (auto simp: recipient_eq_def)

lemma recipients_remove_iff:
  "recipients_remove r xs = (if r \<in> set xs then Inr (remove1 r xs) else Inl ValueError)"
  by (induction xs) (auto simp: recipient_eq_iff)

text \<open>Equality of two lists of recipients holds as soon as one is a prefix of the other.\<close>

lemma recipients_eq_is_prefix:
  "recipients_eq as bs \<longleftrightarrow> take (length bs) as = take (length as) bs"
proof (induction as arbitrary: bs)
  case (Cons a as)
  then show ?case by (cases bs) (auto simp: recipients_eq_def recipient_eq_iff)
qed (simp add: recipients_eq_def)

section \<open>Messages\<close>

datatype kind =
    Announcement | Rejection | Grant | Cancellation | Acknowledgement
  | Bid | Refusal | UpdateReport | FinalReport | Duplicate
  | RequestMessage | ResponseMessage | Notification

record message =
  m_kind :: kind
  m_id :: "string option"
  m_recipient :: "recipient option"
  m_protocol_id :: "string option"
  m_protocol_type :: "string option"
  m_expires :: "time option"
  m_payload :: "(string, int) dict"
  m_reply_to :: "recipient option"
  m_sender :: "string option"
  m_receiver :: "string option"
  m_traversal :: "string option"
  m_reason :: "string option"
  m_level :: int
  m_max_distance :: "int option"

definition protocol_type_of :: "kind \<Rightarrow> string option" where
  "protocol_type_of k =
     (case k of
        Duplicate \<Rightarrow> None
      | RequestMessage \<Rightarrow> Some ''Request''
      | ResponseMessage \<Rightarrow> Some ''Request''
      | Notification \<Rightarrow> Some ''Notification''
      | _ \<Rightarrow> Some ''Contract'')"

definition new_message :: "kind \<Rightarrow> message" where
  "new_message k =
     \<lparr>m_kind = k, m_id = None, m_recipient = None, m_protocol_id = None, m_protocol_type = protocol_type_of k,
      m_expires = None, m_payload = [], m_reply_to = None, m_sender = None, m_receiver = None,
      m_traversal = None, m_reason = None, m_level = 0, m_max_distance = None\<rparr>"

definition duplicate_base :: "message \<Rightarrow> message" where
  "duplicate_base m = m\<lparr>m_id := None\<rparr>"

definition duplicate :: "message \<Rightarrow> message" where
  "duplicate m = (duplicate_base m)\<lparr>m_reply_to := None\<rparr>"

lemma duplicate_kind [simp]: "m_kind (duplicate m) = m_kind m"
  by (simp add: duplicate_def duplicate_base_def)

definition duplication_recipient :: "message \<Rightarrow> recipient option" where
  "duplication_recipient m = (if m_kind m = Notification then None else m_reply_to m)"

definition duplication_message :: "message \<Rightarrow> message option" where
  "duplication_message m =
     (if m_kind m = Notification then None
      else Some ((new_message Duplicate)
             \<lparr>m_protocol_id := m_protocol_id m, m_protocol_type := m_protocol_type m,
              m_expires := m_expires m, m_receiver := m_sender m\<rparr>))"

text \<open>\<open>IRecipient\<close> of a message is the agent it asks to be answered at.\<close>

definition recipient_of :: "message \<Rightarrow> exn + recipient" where
  "recipient_of m =
     (case m_reply_to m of None \<Rightarrow> Inl AttributeError | Some r \<Rightarrow> Inr (agent_recipient (rc_key r) (rc_route r)))"

definition bid_cost :: "message \<Rightarrow> exn + int" where
  "bid_cost b = (case map_of (m_payload b) ''cost'' of None \<Rightarrow> Inl KeyError | Some c \<Rightarrow> Inr c)"

fun pair_costs :: "message list \<Rightarrow> exn + (int \<times> message) list" where
  "pair_costs [] = Inr []"
| "pair_costs (b # bs) =
     bindE (bid_cost b) (\<lambda>c. bindE (pair_costs bs) (\<lambda>rest. Inr ((c, b) # rest)))"

fun pick_loop :: "nat \<Rightarrow> (int \<times> message) list \<Rightarrow> message list" where
  "pick_loop 0 costs = []"
| "pick_loop (Suc n) costs = (case costs of [] \<Rightarrow> [] | (_, b) # rest \<Rightarrow> b # pick_loop n rest)"

definition pick_best :: "message list \<Rightarrow> int \<Rightarrow> exn + message list" where
  "pick_best bids number =
     (if \<exists>b \<in> set bids. m_kind b \<noteq> Bid then Inl AssertionError
      else bindE (pair_costs bids) (\<lambda>costs. Inr (pick_loop (nat number) (sort_key fst costs))))"

lemma pick_loop_take: "pick_loop n costs = map snd (take n costs)"
  by (induction n arbitrary: costs) (auto split: list.split)

lemma pair_costs_Inr: "pair_costs bs = Inr cs \<Longrightarrow> map snd cs = bs \<and> (\<forall>(c, b) \<in> set cs. bid_cost b = Inr c)"
  by (induction bs arbitrary: cs) (auto simp: bindE_Inr_iff)

lemma pair_costs_total: "(\<And>b. b \<in> set bs \<Longrightarrow> bid_cost b = Inr (f b)) \<Longrightarrow> pair_costs bs = Inr (map (\<lambda>b. (f b, b)) bs)"
  by (induction bs) auto

lemma insort_key_map: "insort_key fst (f b, b) (map (\<lambda>b. (f b, b)) bs) = map (\<lambda>b. (f b, b)) (insort_key f b bs)"
  by (induction bs) auto

lemma sort_key_map: "sort_key fst (map (\<lambda>b. (f b, b)) bs) = map (\<lambda>b. (f b, b)) (sort_key f bs)"
  by (induction bs) (auto simp: insort_key_map)

lemma pick_best_sorted:
  assumes "\<And>b. b \<in> set bids \<Longrightarrow> m_kind b = Bid \<and> bid_cost b = Inr (f b)"
  shows "pick_best bids n = Inr (take (nat n) (sort_key f bids))"
proof -
  have "pair_costs bids = Inr (map (\<lambda>b. (f b, b)) bids)" by (rule pair_costs_total) (use assms in blast)
  then show ?thesis
    using assms by (auto simp: pick_best_def sort_key_map pick_loop_take take_map o_def)
qed

lemma sorted_take_drop:
  "sorted (map f xs) \<Longrightarrow> x \<in> set (take n xs) \<Longrightarrow> y \<in> set (drop n xs) \<Longrightarrow> f x \<le> f y"
proof -
  assume s: "sorted (map f xs)" and x: "x \<in> set (take n xs)" and y: "y \<in> set (drop n xs)"
  have "sorted (map f (take n xs) @ map f (drop n xs))"
    using s by (metis append_take_drop_id map_append)
  then show "f x \<le> f y" using x y by (auto simp: sorted_append)
qed

text \<open>\<open>Bid.pick_best\<close> picks the cheapest bids.  Given bids that all name a cost it returns as many
  as asked for (fewer only if there are fewer, none for a negative number), and no bid it leaves is
  cheaper than one it picks.\<close>

theorem pick_best_cheapest:
  assumes "\<And>b. b \<in> set bids \<Longrightarrow> m_kind b = Bid \<and> bid_cost b = Inr (f b)"
  shows "\<exists>picked left. pick_best bids n = Inr picked \<and> mset bids = mset picked + mset left \<and>
    length picked = min (nat n) (length bids) \<and> (\<forall>p \<in> set picked. \<forall>b \<in> set left. f p \<le> f b)"
proof (intro exI conjI)
  let ?s = "sort_key f bids"
  show "pick_best bids n = Inr (take (nat n) ?s)" by (rule pick_best_sorted [OF assms])
  have "mset ?s = mset (take (nat n) ?s) + mset (drop (nat n) ?s)"
    by (metis append_take_drop_id mset_append)
  then show "mset bids = mset (take (nat n) ?s) + mset (drop (nat n) ?s)" by simp
  show "length (take (nat n) ?s) = min (nat n) (length bids)" by simp
  show "\<forall>p \<in> set (take (nat n) ?s). \<forall>b \<in> set (drop (nat n) ?s). f p \<le> f b"
    using sorted_take_drop [of f ?s] by simp
qed

definition costs_of :: "int list \<Rightarrow> message list" where
  "costs_of cs = map (\<lambda>c. (new_message Bid)\<lparr>m_payload := [(''cost'', c)]\<rparr>) cs"

definition cost :: "message \<Rightarrow> int" where
  "cost b = (case bid_cost b of Inr c \<Rightarrow> c | Inl _ \<Rightarrow> 0)"

theorem pick_best_cheapest_witness:
  "\<exists>picked left. pick_best (costs_of [3, 1, 2]) 2 = Inr picked \<and> mset (costs_of [3, 1, 2]) = mset picked + mset left \<and>
    length picked = min (nat 2) (length (costs_of [3, 1, 2])) \<and> (\<forall>p \<in> set picked. \<forall>b \<in> set left. cost p \<le> cost b)"
  by (rule pick_best_cheapest) (auto simp: costs_of_def cost_def bid_cost_def new_message_def)

end
