(* ===== verification/Middle.thy ===== *)
theory Middle
  imports StateMachine Messages
begin

text \<open>
  \<open>AgencyMiddleBase\<close> of \<open>agencies/common.py\<close>: what the mediums of all protocols share.  It
  sends messages, keeps one timeout, runs code of the agent in jobs and finalizes the protocol.

  A job is a deferred created by \<open>call_agent_side\<close>.  It is \<open>Queued\<close> until the reactor fires it
  (\<open>run_job\<close>), \<open>Executing\<close> while the method of the agent runs, \<open>Waiting\<close> when the method has
  returned a deferred, and \<open>Ended\<close> when its callbacks have run or it has been cancelled.
  \<open>job_return\<close> and \<open>job_finish\<close> are the ends of the method and of the job; the code of the agent
  may use the medium at any moment, which is any operation in between.
\<close>

section \<open>State\<close>

text \<open>The states of contracts, and those of requests (\<open>none\<close>, \<open>requested\<close>; \<open>closed\<close>, \<open>wtf\<close> and \<open>terminated\<close>
  are states of both).\<close>

datatype contract_state =
    Initiated | Announced | Closed | BidPut | Refused | Delegated | Rejected | Granted
  | Expired | Completed | Terminated | Defected | Cancelled | Acknowledged | Aborted | Wtf
  | NoRequest | Requested

text \<open>The result of a job or of the protocol.  \<open>NoneV\<close>, \<open>FalseV\<close> and \<open>Value\<close> are values;
  \<open>AgentFailure\<close> an exception of the agent's code, \<open>ProtocolExpired\<close> and \<open>CancelledError\<close> the
  exceptions of those names and \<open>ProtocolFailed r\<close> the exception wrapped around a result.\<close>

datatype outcome =
    NoneV | FalseV | Value nat | AgentFailure exn | ProtocolExpired | CancelledError | ProtocolFailed outcome

fun is_failure :: "outcome \<Rightarrow> bool" where
  "is_failure NoneV = False"
| "is_failure FalseV = False"
| "is_failure (Value _) = False"
| "is_failure _ = True"

datatype agent_call =
    CallInitiate | CallAnnounced message | CallAnnounceExpired | CallRejected message
  | CallGranted message | CallBidExpired | CallCancelled message | CallAcknowledged message | CallAborted
  | CallBid message | CallClosed | CallExpired | CallCompleted "message list"
  | CallRequested message | CallGotReply message

text \<open>What a job calls: a method of the agent, or one of the medium's own methods.\<close>

datatype target =
    Agent agent_call | RunAndTerminate agent_call | FinalizeWith outcome
  | AnnounceExpire | GrantExpire

fun is_agent :: "target \<Rightarrow> bool" where
  "is_agent (Agent _) = True"
| "is_agent _ = False"

datatype stage = Queued | Executing | Waiting | Ended

text \<open>What follows the job: nothing, \<open>addBoth(ProtocolFailed)\<close> and \<open>addCallback(finalize)\<close>, or
  \<open>addCallback(finalize)\<close> alone.\<close>

datatype tail = NoTail | FailAndFinalize | Finalize

record job =
  j_target :: target
  j_ensure :: "contract_state list"
  j_tail :: tail
  j_stage :: stage
  j_parent :: "nat option"

record timer =
  t_at :: time
  t_state :: "contract_state option"
  t_target :: target
  t_active :: bool

record middle = "contract_state machine" +
  jobs :: "job list"
  agent_jobs :: "nat list"
  timeout :: "timer option"
  finalize_called :: bool
  result :: "outcome option"
  finish_due :: "outcome list"
  guid :: string
  remote_id :: "string option"
  protocol_id :: "string option"
  recipients :: "recipient list"
  sent :: "(recipient list \<times> message) list"
  agent_log :: "agent_call list"

definition error_state :: contract_state where "error_state = Wtf"

section \<open>Timeout\<close>

definition timeout_active :: "'a middle_scheme \<Rightarrow> bool" where
  "timeout_active s \<longleftrightarrow> (case timeout s of None \<Rightarrow> False | Some t \<Rightarrow> t_active t)"

definition cancel_timeout :: "'a middle_scheme \<Rightarrow> 'a middle_scheme" where
  "cancel_timeout s = s\<lparr>timeout := None\<rparr>"

text \<open>\<open>time.left(None)\<close> raises; the old timeout is cancelled by then.\<close>

definition set_timeout ::
  "time \<Rightarrow> time option \<Rightarrow> contract_state option \<Rightarrow> target \<Rightarrow> 'a middle_scheme \<Rightarrow> 'a middle_scheme run" where
  "set_timeout now expiration st target s =
     (let s = cancel_timeout s
      in case expiration of
           None \<Rightarrow> (Some TypeError, s)
         | Some e \<Rightarrow>
             (None, s\<lparr>timeout := Some \<lparr>t_at = now + max 0 (e - now), t_state = st, t_target = target, t_active = True\<rparr>\<rparr>))"

definition get_expiration_time :: "'a middle_scheme \<Rightarrow> time option" where
  "get_expiration_time s = map_option t_at (timeout s)"

section \<open>Finalization and jobs\<close>

definition is_idle :: "'a middle_scheme \<Rightarrow> bool" where
  "is_idle s \<longleftrightarrow> agent_jobs s = [] \<and> \<not> timeout_active s"

definition ensure_state :: "contract_state list \<Rightarrow> 'a middle_scheme \<Rightarrow> bool" where
  "ensure_state sts s = cmp_state (state s) sts"

definition set_stage :: "nat \<Rightarrow> stage \<Rightarrow> 'a middle_scheme \<Rightarrow> 'a middle_scheme" where
  "set_stage i st s = s\<lparr>jobs := (jobs s)[i := (jobs s ! i)\<lparr>j_stage := st\<rparr>]\<rparr>"

definition stage_of :: "nat \<Rightarrow> 'a middle_scheme \<Rightarrow> stage" where
  "stage_of i s = j_stage (jobs s ! i)"

text \<open>
  \<open>d.cancel()\<close>: the deferred of a queued job fails with \<open>ProtocolExpired\<close>, the one its method
  waits for with \<open>CancelledError\<close>; the error handler swallows both.  A job whose method is on
  the stack is not stopped.
\<close>

definition cancellable :: "'a middle_scheme \<Rightarrow> nat \<Rightarrow> bool" where
  "cancellable s i \<longleftrightarrow> stage_of i s = Queued \<or> stage_of i s = Waiting"

definition cancel_quietly :: "nat \<Rightarrow> 'a middle_scheme \<Rightarrow> 'a middle_scheme" where
  "cancel_quietly i s = (if cancellable s i then set_stage i Ended s else s)"

text \<open>
  \<open>finalize\<close> and \<open>cleanup\<close> call each other.  Inside \<open>finalize\<close> the flag is set, so the
  callbacks of the jobs cancelled there find the protocol finalized and do nothing more:
  \<open>finalize_unfold\<close> states that the definition is the body of the code.
\<close>

definition finalize :: "outcome \<Rightarrow> 'a middle_scheme \<Rightarrow> 'a middle_scheme" where
  "finalize r s =
     (if finalize_called s then s
      else
        let s = s\<lparr>finalize_called := True, result := Some r, finish_due := finish_due s @ [r]\<rparr>;
            s = cancel_timeout s;
            is = agent_jobs s;
            s = s\<lparr>agent_jobs := []\<rparr>
        in fold cancel_quietly is s)"

definition run_tail :: "tail \<Rightarrow> outcome \<Rightarrow> 'a middle_scheme \<Rightarrow> 'a middle_scheme" where
  "run_tail t r s =
     (case t of
        NoTail \<Rightarrow> s
      | FailAndFinalize \<Rightarrow> finalize (ProtocolFailed r) s
      | Finalize \<Rightarrow> finalize r s)"

definition remove_agent_job :: "nat \<Rightarrow> 'a middle_scheme \<Rightarrow> 'a middle_scheme" where
  "remove_agent_job i s = s\<lparr>agent_jobs := remove1 i (agent_jobs s)\<rparr>"

definition cancel_job :: "nat \<Rightarrow> 'a middle_scheme \<Rightarrow> 'a middle_scheme" where
  "cancel_job i s =
     (if cancellable s i
      then run_tail (j_tail (jobs s ! i)) NoneV (remove_agent_job i (set_stage i Ended s))
      else s)"

definition cancel_agent_jobs :: "'a middle_scheme \<Rightarrow> 'a middle_scheme" where
  "cancel_agent_jobs s =
     (let is = agent_jobs s; s = s\<lparr>agent_jobs := []\<rparr> in fold cancel_job is s)"

definition cleanup :: "'a middle_scheme \<Rightarrow> 'a middle_scheme" where
  "cleanup s =
     (let s = cancel_timeout s;
          s = cancel_agent_jobs s
      in if finalize_called s then s else finalize ProtocolExpired s)"

definition notify_finish :: "'a middle_scheme \<Rightarrow> outcome option" where
  "notify_finish s = (if finalize_called s then result s else None)"

definition call_agent_side ::
  "target \<Rightarrow> contract_state list \<Rightarrow> tail \<Rightarrow> nat option \<Rightarrow> 'a middle_scheme \<Rightarrow> 'a middle_scheme run" where
  "call_agent_side target ensure t parent s =
     (if finalize_called s then (Some AssertionError, s)
      else (None, s\<lparr>jobs := jobs s @ [\<lparr>j_target = target, j_ensure = ensure, j_tail = t, j_stage = Queued, j_parent = parent\<rparr>],
                    agent_jobs := agent_jobs s @ [length (jobs s)]\<rparr>))"

definition run_and_terminate ::
  "agent_call \<Rightarrow> contract_state list \<Rightarrow> nat option \<Rightarrow> 'a middle_scheme \<Rightarrow> 'a middle_scheme run" where
  "run_and_terminate c ensure parent s = call_agent_side (Agent c) ensure FailAndFinalize parent s"

definition error_handler :: "outcome \<Rightarrow> 'a middle_scheme \<Rightarrow> 'a middle_scheme" where
  "error_handler r s =
     (if r = CancelledError \<or> r = ProtocolExpired then s
      else finalize r (set_machine_state error_state s))"

definition end_parent :: "nat option \<Rightarrow> 'a middle_scheme \<Rightarrow> 'a middle_scheme" where
  "end_parent p s = (case p of None \<Rightarrow> s | Some i \<Rightarrow> remove_agent_job i (set_stage i Ended s))"

definition job_finish :: "nat \<Rightarrow> outcome \<Rightarrow> 'a middle_scheme \<Rightarrow> 'a middle_scheme" where
  "job_finish i r s =
     (let j = jobs s ! i;
          s = (if is_failure r then error_handler r s else s);
          r = (if is_failure r then NoneV else r);
          s = remove_agent_job i (set_stage i Ended s)
      in end_parent (j_parent j) (run_tail (j_tail j) r s))"

text \<open>The deferred of a queued job fires.  \<open>own\<close> runs the methods of the medium that only some
  protocols have; it gets the number of the job.\<close>

definition run_job ::
  "(target \<Rightarrow> nat \<Rightarrow> 'a middle_scheme \<Rightarrow> 'a middle_scheme run) \<Rightarrow> nat \<Rightarrow> 'a middle_scheme \<Rightarrow> 'a middle_scheme" where
  "run_job own i s =
     (if i < length (jobs s) \<and> stage_of i s = Queued
      then
        let j = jobs s ! i
        in if j_ensure j \<noteq> [] \<and> \<not> ensure_state (j_ensure j) s then job_finish i FalseV s
           else
             case j_target j of
               Agent c \<Rightarrow> set_stage i Executing (s\<lparr>agent_log := agent_log s @ [c]\<rparr>)
             | RunAndTerminate c \<Rightarrow>
                 (case run_and_terminate c [] (Some i) (set_stage i Waiting s) of
                    (None, s) \<Rightarrow> s
                  | (Some e, s) \<Rightarrow> job_finish i (AgentFailure e) s)
             | FinalizeWith r \<Rightarrow> job_finish i NoneV (finalize r (set_stage i Executing s))
             | t \<Rightarrow>
                 (case own t i (set_stage i Executing s) of
                    (None, s) \<Rightarrow> s
                  | (Some e, s) \<Rightarrow> job_finish i (AgentFailure e) s)
      else s)"

text \<open>The method of the agent returns: a deferred (None) or an outcome.\<close>

definition job_return :: "nat \<Rightarrow> outcome option \<Rightarrow> 'a middle_scheme \<Rightarrow> 'a middle_scheme" where
  "job_return i r s =
     (if i < length (jobs s) \<and> stage_of i s = Executing
      then case r of None \<Rightarrow> set_stage i Waiting s | Some v \<Rightarrow> job_finish i v s
      else s)"

text \<open>The deferred the method has returned fires; a job waiting for another job ends with it.\<close>

definition job_fires :: "nat \<Rightarrow> outcome \<Rightarrow> 'a middle_scheme \<Rightarrow> 'a middle_scheme" where
  "job_fires i r s =
     (if i < length (jobs s) \<and> stage_of i s = Waiting \<and> is_agent (j_target (jobs s ! i))
      then job_finish i r s else s)"

definition timeout_target :: "contract_state option \<Rightarrow> target \<Rightarrow> 'a middle_scheme \<Rightarrow> 'a middle_scheme run" where
  "timeout_target st target s =
     (let s = (case st of None \<Rightarrow> s | Some x \<Rightarrow> set_machine_state x s)
      in call_agent_side target (case st of None \<Rightarrow> [] | Some x \<Rightarrow> [x]) NoTail None s)"

definition timeout_fires :: "time \<Rightarrow> 'a middle_scheme \<Rightarrow> 'a middle_scheme run" where
  "timeout_fires now s =
     (case timeout s of
        None \<Rightarrow> (None, s)
      | Some t \<Rightarrow>
          if t_active t \<and> t_at t \<le> now
          then timeout_target (t_state t) (t_target t) (s\<lparr>timeout := Some (t\<lparr>t_active := False\<rparr>)\<rparr>)
          else (None, s))"

section \<open>Messages\<close>

definition set_remote_id :: "string option \<Rightarrow> 'a middle_scheme \<Rightarrow> 'a middle_scheme" where
  "set_remote_id r s = s\<lparr>remote_id := r\<rparr>"

definition set_protocol_id :: "string option \<Rightarrow> 'a middle_scheme \<Rightarrow> 'a middle_scheme" where
  "set_protocol_id p s = s\<lparr>protocol_id := p\<rparr>"

definition or_remote :: "string option \<Rightarrow> 'a middle_scheme \<Rightarrow> string option" where
  "or_remote r s = (case r of None \<Rightarrow> remote_id s | Some x \<Rightarrow> if x = [] then remote_id s else Some x)"

definition send_message ::
  "time \<Rightarrow> message \<Rightarrow> time option \<Rightarrow> recipient list \<Rightarrow> string option \<Rightarrow> 'a middle_scheme \<Rightarrow> message \<times> 'a middle_scheme" where
  "send_message now m expiration recps remote s =
     (let m = m\<lparr>m_sender := Some (guid s),
                m_receiver := or_remote remote s,
                m_protocol_id := protocol_id s\<rparr>;
          m = (case m_expires m of
                 Some _ \<Rightarrow> m
               | None \<Rightarrow> m\<lparr>m_expires := Some (case expiration of None \<Rightarrow> now + 10 | Some e \<Rightarrow> e)\<rparr>);
          recps = (if recps = [] then recipients s else recps)
      in (m, s\<lparr>sent := sent s @ [(recps, m)]\<rparr>))"

text \<open>\<open>send_msg\<close> of the agent asserts that the message expires.\<close>

definition handover_message :: "message \<Rightarrow> string option \<Rightarrow> 'a middle_scheme \<Rightarrow> 'a middle_scheme run" where
  "handover_message m remote s =
     (let m = m\<lparr>m_receiver := or_remote remote s\<rparr>
      in if m_expires m = None then (Some AssertionError, s)
         else (None, s\<lparr>sent := sent s @ [(recipients s, m)]\<rparr>))"

section \<open>Finalization\<close>

lemma set_machine_state_middle [simp]:
  "jobs (set_machine_state st s) = jobs s"
  "agent_jobs (set_machine_state st s) = agent_jobs s"
  "timeout (set_machine_state st s) = timeout s"
  "finalize_called (set_machine_state st s) = finalize_called s"
  "result (set_machine_state st s) = result s"
  "finish_due (set_machine_state st s) = finish_due s"
  "guid (set_machine_state st s) = guid s"
  "remote_id (set_machine_state st s) = remote_id s"
  "protocol_id (set_machine_state st s) = protocol_id s"
  "recipients (set_machine_state st s) = recipients s"
  "sent (set_machine_state st s) = sent s"
  "agent_log (set_machine_state st s) = agent_log s"
  "middle.more (set_machine_state st s) = middle.more s"
  by (simp_all add: set_machine_state_def Let_def)

lemma set_machine_state_state [simp]: "state (set_machine_state st m) = Some st"
  by (simp add: set_machine_state_def Let_def)

text \<open>Everything but the jobs and what finalization writes.\<close>

definition same_core :: "'a middle_scheme \<Rightarrow> 'a middle_scheme \<Rightarrow> bool" where
  "same_core s s' \<longleftrightarrow>
     state s' = state s \<and> sent s' = sent s \<and> agent_log s' = agent_log s \<and> guid s' = guid s \<and>
     remote_id s' = remote_id s \<and> protocol_id s' = protocol_id s \<and> recipients s' = recipients s \<and>
     middle.more s' = middle.more s"

definition same_end :: "'a middle_scheme \<Rightarrow> 'a middle_scheme \<Rightarrow> bool" where
  "same_end s s' \<longleftrightarrow>
     timeout s' = timeout s \<and> finalize_called s' = finalize_called s \<and> result s' = result s \<and>
     finish_due s' = finish_due s"

lemma same_core_refl [simp]: "same_core s s" and same_end_refl [simp]: "same_end s s"
  by (simp_all add: same_core_def same_end_def)

lemma same_core_trans: "same_core s t \<Longrightarrow> same_core t u \<Longrightarrow> same_core s u"
  by (simp add: same_core_def)

lemma same_end_trans: "same_end s t \<Longrightarrow> same_end t u \<Longrightarrow> same_end s u"
  by (simp add: same_end_def)

lemma set_stage_same [simp]: "same_core s (set_stage i st s)" "same_end s (set_stage i st s)"
  by (simp_all add: same_core_def same_end_def set_stage_def)

lemma cancel_quietly_same: "same_core s (cancel_quietly i s)" "same_end s (cancel_quietly i s)"
  by (simp_all add: cancel_quietly_def)

lemma fold_cancel_same:
  "same_core s (fold cancel_quietly is s) \<and> same_end s (fold cancel_quietly is s)"
proof (induction "is" arbitrary: s)
  case (Cons i "is")
  then show ?case
    using cancel_quietly_same [of s i] by (auto intro: same_core_trans same_end_trans)
qed simp

lemma agent_jobs_stage [simp]: "agent_jobs (set_stage i st s) = agent_jobs s"
  by (simp add: set_stage_def)

lemma agent_jobs_cancel [simp]: "agent_jobs (cancel_quietly i s) = agent_jobs s"
  by (simp add: cancel_quietly_def)

lemma agent_jobs_fold_cancel [simp]: "agent_jobs (fold cancel_quietly is s) = agent_jobs s"
  by (induction "is" arbitrary: s) auto

lemma remove_agent_job_same [simp]: "same_core s (remove_agent_job i s)" "same_end s (remove_agent_job i s)"
  by (simp_all add: same_core_def same_end_def remove_agent_job_def)

lemma finalize_view: "same_core s (finalize r s)"
proof (cases "finalize_called s")
  case False
  let ?s = "(cancel_timeout (s\<lparr>finalize_called := True, result := Some r, finish_due := finish_due s @ [r]\<rparr>))\<lparr>agent_jobs := []\<rparr>"
  have "same_core s ?s" by (simp add: same_core_def cancel_timeout_def)
  moreover have "same_core ?s (fold cancel_quietly (agent_jobs s) ?s)" using fold_cancel_same by blast
  moreover have "finalize r s = fold cancel_quietly (agent_jobs s) ?s"
    using False by (simp add: finalize_def Let_def cancel_timeout_def)
  ultimately show ?thesis using same_core_trans by metis
qed (simp add: finalize_def)

lemma finalize_done [simp]: "finalize_called s \<Longrightarrow> finalize r s = s"
  by (simp add: finalize_def)

lemma finalize_fields:
  assumes "\<not> finalize_called s"
  shows "finalize_called (finalize r s)" "result (finalize r s) = Some r" "timeout (finalize r s) = None"
    "finish_due (finalize r s) = finish_due s @ [r]" "agent_jobs (finalize r s) = []"
  using assms fold_cancel_same [of "cancel_timeout (s\<lparr>finalize_called := True, result := Some r,
      finish_due := finish_due s @ [r]\<rparr>)\<lparr>agent_jobs := []\<rparr>" "agent_jobs s"]
  by (auto simp: finalize_def Let_def cancel_timeout_def same_end_def)

lemma finalize_called_finalize [simp]: "finalize_called (finalize r s)"
  by (cases "finalize_called s") (auto simp: finalize_fields)

text \<open>\<open>finalize\<close> as the code has it, with the call of \<open>cleanup\<close> at its end.\<close>

lemma cancel_job_finalized:
  "finalize_called s \<Longrightarrow> agent_jobs s = [] \<Longrightarrow> cancel_job i s = cancel_quietly i s"
proof -
  assume f: "finalize_called s" and j: "agent_jobs s = []"
  then have "finalize_called (remove_agent_job i (set_stage i Ended s))"
    using remove_agent_job_same(2) set_stage_same(2) by (metis same_end_def)
  moreover have "remove_agent_job i (set_stage i Ended s) = set_stage i Ended s"
    using j by (simp add: remove_agent_job_def set_stage_def)
  ultimately show ?thesis
    by (auto simp: cancel_job_def cancel_quietly_def run_tail_def split: tail.split)
qed

lemma fold_cancel_job_finalized:
  "finalize_called s \<Longrightarrow> agent_jobs s = [] \<Longrightarrow> fold cancel_job is s = fold cancel_quietly is s"
proof (induction "is" arbitrary: s)
  case (Cons i "is")
  have "finalize_called (cancel_quietly i s)"
    using cancel_quietly_same(2) [of s i] Cons.prems by (simp add: same_end_def)
  then show ?case using Cons by (simp add: cancel_job_finalized)
qed simp

lemma finalize_unfold:
  "finalize r s =
     (if finalize_called s then s
      else cleanup (s\<lparr>finalize_called := True, result := Some r, finish_due := finish_due s @ [r]\<rparr>))"
proof (cases "finalize_called s")
  case False
  let ?s = "(cancel_timeout (s\<lparr>finalize_called := True, result := Some r, finish_due := finish_due s @ [r]\<rparr>))\<lparr>agent_jobs := []\<rparr>"
  have "finalize_called ?s" "agent_jobs ?s = []" by (simp_all add: cancel_timeout_def)
  then have eq: "fold cancel_job is ?s = fold cancel_quietly is ?s" for "is"
    by (rule fold_cancel_job_finalized)
  have "finalize_called (fold cancel_quietly is ?s)" for "is"
    using fold_cancel_same [of ?s "is"] by (simp add: same_end_def cancel_timeout_def)
  with False eq show ?thesis
    by (simp add: finalize_def cleanup_def cancel_agent_jobs_def Let_def cancel_timeout_def)
qed simp

end
