(* ===== verification/MiddleProps.thy ===== *)
theory MiddleProps
  imports Middle
begin

text \<open>
  What the operations of \<open>AgencyMiddleBase\<close> do to the parts of the state that the protocols
  built on it reason about: \<open>ends\<close> bounds the effect of everything that happens when a job ends,
  and \<open>middle_inv\<close> is the invariant of the base class.  It makes finalization final: a finalized
  medium has one result, keeps it, and has no job left to run.
\<close>

section \<open>Invariant\<close>

definition queued :: "'a middle_scheme \<Rightarrow> nat set" where
  "queued s = {i. i < length (jobs s) \<and> stage_of i s = Queued}"

definition job_plan :: "'a middle_scheme \<Rightarrow> (target \<times> contract_state list \<times> tail \<times> nat option) list" where
  "job_plan s = map (\<lambda>j. (j_target j, j_ensure j, j_tail j, j_parent j)) (jobs s)"

definition middle_inv :: "'a middle_scheme \<Rightarrow> bool" where
  "middle_inv s \<longleftrightarrow>
     (finalize_called s \<longleftrightarrow> result s \<noteq> None) \<and>
     finish_due s = (case result s of None \<Rightarrow> [] | Some r \<Rightarrow> [r]) \<and>
     (finalize_called s \<longrightarrow> agent_jobs s = []) \<and>
     queued s \<subseteq> set (agent_jobs s)"

lemma queued_cong: "jobs s' = jobs s \<Longrightarrow> queued s' = queued s"
  and job_plan_cong: "jobs s' = jobs s \<Longrightarrow> job_plan s' = job_plan s"
  by (simp_all add: queued_def stage_of_def job_plan_def)

lemma middle_inv_queued: "middle_inv s \<Longrightarrow> finalize_called s \<Longrightarrow> queued s = {}"
  by (auto simp: middle_inv_def)

lemma length_set_stage [simp]: "length (jobs (set_stage i st s)) = length (jobs s)"
  by (simp add: set_stage_def)

lemma job_plan_set_stage [simp]: "job_plan (set_stage i st s) = job_plan s"
proof (cases "i < length (jobs s)")
  case True
  then show ?thesis by (auto simp: job_plan_def set_stage_def map_update intro!: nth_equalityI simp: nth_list_update)
qed (simp add: set_stage_def job_plan_def list_update_beyond)

lemma queued_set_stage: "st \<noteq> Queued \<Longrightarrow> queued (set_stage i st s) = queued s - {i}"
proof (cases "i < length (jobs s)")
  case True
  then show "st \<noteq> Queued \<Longrightarrow> ?thesis"
    by (auto simp: queued_def set_stage_def stage_of_def nth_list_update)
qed (auto simp: queued_def set_stage_def stage_of_def list_update_beyond)

lemma job_plan_cancel [simp]: "job_plan (fold cancel_quietly is s) = job_plan s"
  by (induction "is" arbitrary: s) (auto simp: cancel_quietly_def)

lemma queued_cancel: "queued (cancel_quietly i s) = queued s - {i}"
  by (auto simp: cancel_quietly_def cancellable_def queued_set_stage) (auto simp: queued_def)

lemma queued_updates [simp]:
  "queued (set_machine_state st s) = queued s" "queued (s\<lparr>agent_log := l\<rparr>) = queued s"
  "queued (s\<lparr>sent := m\<rparr>) = queued s" "queued (s\<lparr>timeout := t\<rparr>) = queued s"
  "queued (remove_agent_job i s) = queued s"
  by (rule queued_cong, simp add: remove_agent_job_def)+

lemma job_plan_updates [simp]:
  "job_plan (set_machine_state st s) = job_plan s" "job_plan (s\<lparr>agent_log := l\<rparr>) = job_plan s"
  "job_plan (s\<lparr>sent := m\<rparr>) = job_plan s" "job_plan (s\<lparr>timeout := t\<rparr>) = job_plan s"
  "job_plan (s\<lparr>recipients := rs\<rparr>) = job_plan s" "job_plan (s\<lparr>remote_id := ri\<rparr>) = job_plan s"
  "job_plan (remove_agent_job i s) = job_plan s"
  by (rule job_plan_cong, simp add: remove_agent_job_def)+

lemma queued_fold_cancel: "queued (fold cancel_quietly is s) = queued s - set is"
  by (induction "is" arbitrary: s) (auto simp: queued_cancel)

lemma finalize_jobs:
  "job_plan (finalize r s) = job_plan s"
  "queued (finalize r s) = (if finalize_called s then queued s else queued s - set (agent_jobs s))"
proof -
  let ?s = "(cancel_timeout (s\<lparr>finalize_called := True, result := Some r, finish_due := finish_due s @ [r]\<rparr>))\<lparr>agent_jobs := []\<rparr>"
  have "finalize r s = fold cancel_quietly (agent_jobs s) ?s" if "\<not> finalize_called s"
    using that by (simp add: finalize_def Let_def cancel_timeout_def)
  moreover have "job_plan ?s = job_plan s" by (rule job_plan_cong) (simp add: cancel_timeout_def)
  moreover have "queued ?s = queued s" by (rule queued_cong) (simp add: cancel_timeout_def)
  ultimately show "job_plan (finalize r s) = job_plan s"
    "queued (finalize r s) = (if finalize_called s then queued s else queued s - set (agent_jobs s))"
    by (cases "finalize_called s"; simp add: queued_fold_cancel)+
qed

lemma same_endD: "same_end s s' \<Longrightarrow> timeout s' = timeout s \<and> finalize_called s' = finalize_called s \<and>
    result s' = result s \<and> finish_due s' = finish_due s"
  by (simp add: same_end_def)

lemma same_coreD: "same_core s s' \<Longrightarrow> state s' = state s \<and> sent s' = sent s \<and> agent_log s' = agent_log s \<and>
    guid s' = guid s \<and> remote_id s' = remote_id s \<and> protocol_id s' = protocol_id s \<and>
    recipients s' = recipients s \<and> middle.more s' = middle.more s"
  by (simp add: same_core_def)

lemma stage_fields [simp]:
  "state (set_stage i st s) = state s" "finalize_called (set_stage i st s) = finalize_called s"
  "timeout (set_stage i st s) = timeout s" "sent (set_stage i st s) = sent s"
  "agent_log (set_stage i st s) = agent_log s" "result (set_stage i st s) = result s"
  by (simp_all add: set_stage_def)

lemma remove_fields [simp]:
  "state (remove_agent_job i s) = state s" "finalize_called (remove_agent_job i s) = finalize_called s"
  "timeout (remove_agent_job i s) = timeout s" "sent (remove_agent_job i s) = sent s"
  "agent_log (remove_agent_job i s) = agent_log s" "result (remove_agent_job i s) = result s"
  by (simp_all add: remove_agent_job_def)

section \<open>The end of a job\<close>

text \<open>Either nothing of what finalization writes has changed or the medium has been finalized.\<close>

definition ends :: "'a middle_scheme \<Rightarrow> 'a middle_scheme \<Rightarrow> bool" where
  "ends s s' \<longleftrightarrow>
     (state s' = state s \<or> state s' = Some Wtf \<and> finalize_called s') \<and>
     sent s' = sent s \<and> agent_log s' = agent_log s \<and> guid s' = guid s \<and> remote_id s' = remote_id s \<and>
     protocol_id s' = protocol_id s \<and> recipients s' = recipients s \<and> middle.more s' = middle.more s \<and>
     job_plan s' = job_plan s \<and>
     (same_end s s' \<or>
      \<not> finalize_called s \<and> finalize_called s' \<and> timeout s' = None)"

lemma ends_trans: "ends s t \<Longrightarrow> ends t u \<Longrightarrow> ends s u"
  by (auto simp: ends_def same_end_def)

lemma ends_same: "same_core s s' \<Longrightarrow> same_end s s' \<Longrightarrow> job_plan s' = job_plan s \<Longrightarrow> ends s s'"
  by (simp add: ends_def same_core_def)

lemma ends_set_stage: "ends s (set_stage i st s)"
  by (rule ends_same) simp_all

lemma ends_remove: "ends s (remove_agent_job i s)"
  by (rule ends_same) simp_all

lemma ends_finalize: "ends s (finalize r s)"
  using finalize_view [of s r] finalize_fields [of s r] finalize_jobs [of r s]
  by (cases "finalize_called s") (auto simp: ends_def same_core_def same_end_def)

lemma ends_error: "ends s (error_handler r s)"
proof -
  have "same_core (set_machine_state Wtf s) (finalize r (set_machine_state Wtf s))" by (rule finalize_view)
  moreover have "job_plan (finalize r (set_machine_state Wtf s)) = job_plan s"
    by (simp add: finalize_jobs)
  moreover have "ends s s" by (simp add: ends_def)
  ultimately show ?thesis
    using finalize_fields [of "set_machine_state Wtf s" r]
    by (cases "finalize_called s") (auto simp: ends_def error_handler_def error_state_def same_core_def same_end_def)
qed

lemma ends_tail: "ends s (run_tail t r s)"
  by (cases t) (simp_all add: run_tail_def ends_finalize, simp add: ends_def)

lemma ends_parent: "ends s (end_parent p s)"
  by (cases p) (simp add: end_parent_def ends_def, simp add: end_parent_def ends_trans [OF ends_set_stage ends_remove])

lemma ends_job_finish: "ends s (job_finish i r s)"
proof -
  let ?s1 = "if is_failure r then error_handler r s else s"
  have "ends s ?s1" by (cases "is_failure r") (simp add: ends_error, simp add: ends_def)
  from ends_trans [OF this ends_trans [OF ends_set_stage [of ?s1 i Ended] ends_remove]]
  show ?thesis unfolding job_finish_def Let_def
    by (meson ends_trans ends_tail ends_parent)
qed

section \<open>Preservation of the invariant\<close>

lemma middle_inv_finalize [inv_intros]: "middle_inv s \<Longrightarrow> middle_inv (finalize r s)"
  using finalize_fields [of s r] finalize_jobs(2) [of r s]
  by (cases "finalize_called s") (auto simp: middle_inv_def split: option.splits)

lemma middle_inv_cong:
  "same_end s s' \<Longrightarrow> agent_jobs s' = agent_jobs s \<Longrightarrow> queued s' \<subseteq> queued s \<Longrightarrow> middle_inv s \<Longrightarrow> middle_inv s'"
  by (auto simp: middle_inv_def same_end_def)

lemma middle_inv_stage [inv_intros]: "st \<noteq> Queued \<Longrightarrow> middle_inv s \<Longrightarrow> middle_inv (set_stage i st s)"
  by (rule middle_inv_cong [of s]) (auto simp: queued_set_stage)

lemma middle_inv_state [inv_intros]: "middle_inv s \<Longrightarrow> middle_inv (set_machine_state st s)"
  by (rule middle_inv_cong [of s]) (simp_all add: same_end_def)

lemma middle_inv_remove [inv_intros]:
  "middle_inv s \<Longrightarrow> middle_inv (remove_agent_job i (set_stage i Ended s))"
proof -
  assume inv: "middle_inv s"
  let ?s = "remove_agent_job i (set_stage i Ended s)"
  have q: "queued ?s = queued s - {i}" by (simp add: queued_set_stage)
  have a: "agent_jobs ?s = remove1 i (agent_jobs s)" by (simp add: remove_agent_job_def)
  have "queued s - {i} \<subseteq> set (remove1 i (agent_jobs s))"
  proof
    fix x assume "x \<in> queued s - {i}"
    then have "x \<in> set (agent_jobs s)" "x \<noteq> i" using inv by (auto simp: middle_inv_def)
    then show "x \<in> set (remove1 i (agent_jobs s))" by (simp add: in_set_remove1)
  qed
  moreover have "same_end s ?s" by (rule same_end_trans [OF set_stage_same(2) remove_agent_job_same(2)])
  ultimately show ?thesis
    using inv q a by (simp add: middle_inv_def same_end_def)
qed

lemma middle_inv_error [inv_intros]: "middle_inv s \<Longrightarrow> middle_inv (error_handler r s)"
  by (simp add: error_handler_def inv_intros)

lemma middle_inv_job_finish [inv_intros]: "middle_inv s \<Longrightarrow> middle_inv (job_finish i r s)"
  by (auto simp: job_finish_def Let_def end_parent_def run_tail_def intro!: inv_intros split: option.split tail.split)

lemma middle_inv_log [inv_intros]: "middle_inv s \<Longrightarrow> middle_inv (s\<lparr>agent_log := l\<rparr>)"
  by (rule middle_inv_cong [of s]) (simp_all add: same_end_def)

lemma middle_inv_sent [inv_intros]: "middle_inv s \<Longrightarrow> middle_inv (s\<lparr>sent := l\<rparr>)"
  by (rule middle_inv_cong [of s]) (simp_all add: same_end_def)

lemma middle_inv_timeout [inv_intros]: "middle_inv s \<Longrightarrow> middle_inv (s\<lparr>timeout := t\<rparr>)"
  using queued_cong [of "s\<lparr>timeout := t\<rparr>" s] by (simp add: middle_inv_def)

lemma middle_inv_set_timeout [inv_intros]: "middle_inv s \<Longrightarrow> middle_inv (snd (set_timeout now e st t s))"
  by (auto simp: set_timeout_def cancel_timeout_def Let_def intro: middle_inv_timeout split: option.split)

lemma middle_inv_call [inv_intros]:
  "middle_inv s \<Longrightarrow> middle_inv (snd (call_agent_side target ensure t p s))"
  by (auto simp: call_agent_side_def middle_inv_def queued_def stage_of_def nth_append less_Suc_eq
      split: if_splits)

lemma middle_inv_run_and_terminate [inv_intros]:
  "middle_inv s \<Longrightarrow> middle_inv (snd (run_and_terminate c e p s))"
  by (simp add: run_and_terminate_def inv_intros)

lemma middle_inv_timeout_fires [inv_intros]:
  "middle_inv s \<Longrightarrow> middle_inv (snd (timeout_fires now s))"
  by (auto simp: timeout_fires_def timeout_target_def Let_def intro!: inv_intros split: option.split)

lemma middle_inv_run_job [inv_intros]:
  assumes inv: "middle_inv s" and own: "\<And>t i s. middle_inv s \<Longrightarrow> middle_inv (snd (own t i s))"
  shows "middle_inv (run_job own i s)"
proof -
  have W: "middle_inv (set_stage i Waiting s)" and E: "middle_inv (set_stage i Executing s)"
    by (simp_all add: inv_intros inv)
  have finish: "middle_inv (case m of (None, s) \<Rightarrow> s | (Some e, s) \<Rightarrow> job_finish i (AgentFailure e) s)"
    if "middle_inv (snd m)" for m :: "'a middle_scheme run"
    using that by (cases m; cases "fst m") (auto intro: middle_inv_job_finish)
  have L: "middle_inv (set_stage i Executing (s\<lparr>agent_log := agent_log s @ [c]\<rparr>))" for c
    by (simp add: inv_intros inv)
  show ?thesis
  proof (cases "i < length (jobs s) \<and> stage_of i s = Queued \<and>
      (j_ensure (jobs s ! i) = [] \<or> ensure_state (j_ensure (jobs s ! i)) s)")
    case False
    then show ?thesis using inv by (auto simp: run_job_def Let_def intro: middle_inv_job_finish)
  next
    case True
    then show ?thesis
      using L finish [OF middle_inv_run_and_terminate [OF W]] finish [OF own [OF E]]
        middle_inv_job_finish [OF middle_inv_finalize [OF E]]
      middle_inv_job_finish [OF inv, of i FalseV]
      by (cases "j_target (jobs s ! i)") (simp_all add: run_job_def Let_def)
  qed
qed

lemma middle_inv_job_return [inv_intros]: "middle_inv s \<Longrightarrow> middle_inv (job_return i r s)"
  by (auto simp: job_return_def intro!: inv_intros split: option.split)

lemma middle_inv_job_fires [inv_intros]: "middle_inv s \<Longrightarrow> middle_inv (job_fires i r s)"
  by (auto simp: job_fires_def intro!: inv_intros)

section \<open>Finalization is final\<close>

definition stays :: "'a middle_scheme \<Rightarrow> 'a middle_scheme \<Rightarrow> bool" where
  "stays s s' \<longleftrightarrow> (finalize_called s \<longrightarrow> finalize_called s' \<and> result s' = result s)"

lemma stays_refl [simp]: "stays s s"
  by (simp add: stays_def)

lemma stays_trans [trans]: "stays s t \<Longrightarrow> stays t u \<Longrightarrow> stays s u"
  by (simp add: stays_def)

lemma stays_ends: "ends s s' \<Longrightarrow> stays s s'"
  by (auto simp: ends_def stays_def same_end_def)

lemma stays_and_then: "stays s (snd m) \<Longrightarrow> (\<And>t. stays s t \<Longrightarrow> stays s (snd (f t))) \<Longrightarrow> stays s (snd (and_then m f))"
  by (rule and_then_keeps)

lemma stays_updates [simp]:
  "stays s (set_machine_state st t) = stays s t" "stays s (t\<lparr>agent_log := l\<rparr>) = stays s t"
  "stays s (t\<lparr>sent := m\<rparr>) = stays s t" "stays s (t\<lparr>timeout := x\<rparr>) = stays s t"
  "stays s (t\<lparr>recipients := rs\<rparr>) = stays s t" "stays s (t\<lparr>remote_id := ri\<rparr>) = stays s t"
  by (simp_all add: stays_def)

lemma stays_set_timeout [simp]: "stays s (snd (set_timeout now e st t s')) = stays s s'"
  by (simp add: set_timeout_def cancel_timeout_def Let_def split: option.split)

lemma stays_call [simp]: "stays s (snd (call_agent_side t e tt p s')) = stays s s'"
  by (simp add: call_agent_side_def stays_def)

lemma stays_run_and_terminate [simp]: "stays s (snd (run_and_terminate c e p s')) = stays s s'"
  by (simp add: run_and_terminate_def)

lemma stays_timeout_fires: "stays s s' \<Longrightarrow> stays s (snd (timeout_fires now s'))"
  by (auto simp: timeout_fires_def timeout_target_def Let_def split: option.split)

lemma stays_finalize: "stays s s' \<Longrightarrow> stays s (finalize r s')"
  using stays_trans [OF _ stays_ends [OF ends_finalize]] .

lemma stays_job_return: "stays s (job_return i r s)"
  by (auto simp: job_return_def intro: stays_ends ends_set_stage ends_job_finish split: option.split)

lemma stays_job_fires: "stays s (job_fires i r s)"
  by (auto simp: job_fires_def intro: stays_ends ends_job_finish)

lemma run_job_finalized: "middle_inv s \<Longrightarrow> finalize_called s \<Longrightarrow> run_job own i s = s"
  using middle_inv_queued [of s] by (auto simp: run_job_def queued_def)

lemma stays_run_job: "middle_inv s \<Longrightarrow> stays s (run_job own i s)"
  by (simp add: stays_def run_job_finalized)

lemma cleanup_finalized: "middle_inv s \<Longrightarrow> finalize_called s \<Longrightarrow> cleanup s = cancel_timeout s"
  by (simp add: cleanup_def cancel_agent_jobs_def Let_def cancel_timeout_def middle_inv_def)

lemma middle_inv_cancel_job:
  assumes "middle_inv s"
  shows "middle_inv (cancel_job i s)"
  using assms by (auto simp: cancel_job_def run_tail_def intro!: inv_intros split: tail.split)

lemma cancel_job_queued: "queued (cancel_job i s) \<subseteq> queued s - {i}"
proof (cases "cancellable s i")
  case True
  then show ?thesis
    by (cases "j_tail (jobs s ! i)") (auto simp: cancel_job_def run_tail_def finalize_jobs queued_set_stage split: if_splits)
next
  case False
  then show ?thesis by (auto simp: cancel_job_def cancellable_def queued_def)
qed

text \<open>While the jobs are being cancelled the list is already empty; what is still queued is what
  is left to cancel.\<close>

definition cleaning :: "nat list \<Rightarrow> 'a middle_scheme \<Rightarrow> bool" where
  "cleaning is s \<longleftrightarrow>
     (finalize_called s \<longleftrightarrow> result s \<noteq> None) \<and>
     finish_due s = (case result s of None \<Rightarrow> [] | Some r \<Rightarrow> [r]) \<and>
     agent_jobs s = [] \<and> queued s \<subseteq> set is"

lemma cleaning_finalize: "cleaning is s \<Longrightarrow> cleaning is (finalize r s)"
  using finalize_fields [of s r] finalize_jobs(2) [of r s]
  by (cases "finalize_called s") (auto simp: cleaning_def split: option.splits)

lemma cleaning_cancel_job: "cleaning (i # is) s \<Longrightarrow> cleaning is (cancel_job i s)"
proof -
  assume c: "cleaning (i # is) s"
  let ?s = "remove_agent_job i (set_stage i Ended s)"
  have "same_end s ?s" by (rule same_end_trans [OF set_stage_same(2) remove_agent_job_same(2)])
  moreover have "agent_jobs ?s = []" using c by (simp add: cleaning_def remove_agent_job_def)
  moreover have "queued ?s = queued s - {i}" by (simp add: queued_set_stage)
  ultimately have "cleaning is ?s" using c by (auto simp: cleaning_def same_end_def)
  moreover have "cleaning is s" if "\<not> cancellable s i"
    using that c by (auto simp: cleaning_def cancellable_def queued_def)
  ultimately show ?thesis
    by (auto simp: cancel_job_def run_tail_def intro: cleaning_finalize split: tail.split)
qed

lemma cleaning_fold: "cleaning is s \<Longrightarrow> cleaning [] (fold cancel_job is s)"
  by (induction "is" arbitrary: s) (auto intro: cleaning_cancel_job)

lemma cleaning_Nil: "cleaning [] s \<Longrightarrow> middle_inv s"
  by (auto simp: cleaning_def middle_inv_def)

lemma middle_inv_cleanup [inv_intros]:
  assumes "middle_inv s"
  shows "middle_inv (cleanup s)"
proof -
  let ?s = "(cancel_timeout s)\<lparr>agent_jobs := []\<rparr>"
  have "queued ?s = queued s" by (rule queued_cong) (simp add: cancel_timeout_def)
  then have "cleaning (agent_jobs s) ?s"
    using assms by (auto simp: cleaning_def middle_inv_def cancel_timeout_def)
  then have "middle_inv (fold cancel_job (agent_jobs s) ?s)" by (rule cleaning_Nil [OF cleaning_fold])
  then show ?thesis
    by (auto simp: cleanup_def cancel_agent_jobs_def Let_def cancel_timeout_def intro: middle_inv_finalize)
qed

lemma finalize_called_cleanup: "finalize_called (cleanup s)"
  by (simp add: cleanup_def Let_def)

lemma stays_cleanup: "middle_inv s \<Longrightarrow> stays s (cleanup s)"
  by (auto simp: stays_def cleanup_finalized cancel_timeout_def)

text \<open>
  What a protocol promises about its events, and what follows for every history: the protocol
  ends at most once, its end is told once, and a result once there stays.
\<close>

locale medium_laws =
  fixes step :: "'e \<Rightarrow> 'a middle_scheme \<Rightarrow> 'a middle_scheme"
  assumes keeps: "middle_inv s \<Longrightarrow> middle_inv (step e s)"
    and final: "middle_inv s \<Longrightarrow> stays s (step e s)"
begin

lemma run_keeps: "middle_inv s \<Longrightarrow> middle_inv (fold step es s)"
  by (induction es arbitrary: s) (auto intro: keeps)

lemma run_stays: "middle_inv s \<Longrightarrow> stays s (fold step es s)"
proof (induction es arbitrary: s)
  case (Cons e es)
  then show ?case using stays_trans [OF final Cons.IH [OF keeps]] by simp
qed simp

lemma one_result:
  assumes "middle_inv s" and "result (fold step es s) = Some r"
  shows "result (fold step (es @ es') s) = Some r" and "finish_due (fold step (es @ es') s) = [r]"
proof -
  let ?s = "fold step es s" and ?t = "fold step (es @ es') s"
  have inv: "middle_inv ?s" "middle_inv ?t" by (simp_all only: run_keeps assms)
  have "finalize_called ?s" using inv(1) assms(2) by (simp add: middle_inv_def)
  then show r: "result ?t = Some r"
    using run_stays [OF inv(1), of es'] assms(2) by (simp add: stays_def)
  then show "finish_due ?t = [r]" using inv(2) by (simp add: middle_inv_def)
qed

end

end
