(* ===== verification/Contractor.thy ===== *)
theory Contractor
  imports MiddleProps
begin

text \<open>
  \<open>AgencyContractor\<close> of \<open>agencies/contracts.py\<close>: the medium of an agent that bids on a contract.
  \<open>contractor_event\<close> lists everything that can happen to it: messages of the manager, calls of
  the agent, the timeout, the steps of its jobs and the clean-up by the agency.
\<close>

section \<open>State and operations of the medium\<close>

record contractor = middle +
  c_announce :: message
  c_grant :: "message option"
  c_bid_timeout :: time

definition as_recipients :: "recipient option \<Rightarrow> recipient list" where
  "as_recipients r = (case r of None \<Rightarrow> [] | Some x \<Rightarrow> [x])"

definition contractor_new :: "string \<Rightarrow> time \<Rightarrow> message \<Rightarrow> exn + contractor" where
  "contractor_new gid bid_timeout a =
     (if m_kind a \<noteq> Announcement then Inl AssertionError
      else Inr \<lparr>state = None, waits = [], due = [], fired = [], next_wait = 0,
                jobs = [], agent_jobs = [], timeout = None, finalize_called = False, result = None,
                finish_due = [], guid = gid, remote_id = m_sender a, protocol_id = m_protocol_id a,
                recipients = as_recipients (m_reply_to a), sent = [], agent_log = [],
                c_announce = a, c_grant = None, c_bid_timeout = bid_timeout\<rparr>)"

definition contractor_initiate :: "contractor \<Rightarrow> contractor run" where
  "contractor_initiate s =
     call_agent_side (Agent CallInitiate) [Initiated] NoTail None (set_machine_state Initiated s)"

definition contractor_bid :: "time \<Rightarrow> message \<Rightarrow> contractor \<Rightarrow> contractor run" where
  "contractor_bid now b s =
     (if \<not> ensure_state [Announced] s then (None, s)
      else
        let s = set_machine_state BidPut s;
            expiration = now + c_bid_timeout s;
            (_, s) = send_message now (duplicate b) (Some expiration) [] None s
        in set_timeout now (Some expiration) (Some Expired) (RunAndTerminate CallBidExpired) s)"

definition finalizing :: "outcome \<Rightarrow> contractor run \<Rightarrow> contractor run" where
  "finalizing r m = and_then m (\<lambda>s. (None, finalize r s))"

definition contractor_handover :: "message \<Rightarrow> contractor \<Rightarrow> contractor run" where
  "contractor_handover b s =
     (if \<not> ensure_state [Announced] s then (None, s)
      else
        let new_bid = (duplicate b)\<lparr>m_reply_to := m_reply_to b\<rparr>
        in finalizing NoneV (handover_message new_bid None (set_machine_state Delegated s)))"

definition contractor_refuse :: "time \<Rightarrow> message \<Rightarrow> contractor \<Rightarrow> contractor run" where
  "contractor_refuse now m s =
     (if \<not> ensure_state [Announced] s then (None, s)
      else
        let (_, s) = send_message now (duplicate m) None [] None (set_machine_state Refused s)
        in (None, finalize NoneV s))"

definition contractor_defect :: "time \<Rightarrow> message \<Rightarrow> contractor \<Rightarrow> contractor run" where
  "contractor_defect now m s =
     (if \<not> ensure_state [Granted] s then (None, s)
      else
        let (_, s) = send_message now (duplicate m) None [] None (set_machine_state Defected s)
        in (None, finalize NoneV s))"

definition contractor_complete :: "time \<Rightarrow> message \<Rightarrow> contractor \<Rightarrow> contractor run" where
  "contractor_complete now m s =
     (if \<not> ensure_state [Granted] s then (None, s)
      else
        let s = set_machine_state Completed s;
            expiration = now + c_bid_timeout s;
            (_, s) = send_message now (duplicate m) (Some expiration) [] None s
        in set_timeout now (Some expiration) (Some Aborted) (RunAndTerminate CallAborted) s)"

definition update_manager_address :: "recipient option \<Rightarrow> contractor \<Rightarrow> contractor run" where
  "update_manager_address r s =
     (case r of
        None \<Rightarrow> (Some TypeError, s)
      | Some x \<Rightarrow> (None, if recipients s = [x] then s else s\<lparr>recipients := [x]\<rparr>))"

section \<open>Messages of the manager\<close>

datatype contractor_handler =
    OnAnnounce | OnReject | OnGrant | OnCancelInGranted | OnCancelInCompleted | OnAck

definition contractor_mapping :: "kind \<Rightarrow> (contract_state, contractor_handler) decision option" where
  "contractor_mapping k =
     (case k of
        Announcement \<Rightarrow> Some (One [Initiated] Announced OnAnnounce)
      | Rejection \<Rightarrow> Some (One [BidPut] Rejected OnReject)
      | Grant \<Rightarrow> Some (One [BidPut] Granted OnGrant)
      | Cancellation \<Rightarrow>
          Some (Many [([Granted], Cancelled, OnCancelInGranted), ([Completed], Aborted, OnCancelInCompleted)])
      | Acknowledgement \<Rightarrow> Some (One [Completed] Acknowledged OnAck)
      | _ \<Rightarrow> None)"

definition on_announce :: "time \<Rightarrow> message \<Rightarrow> contractor \<Rightarrow> contractor run" where
  "on_announce now a s =
     and_then (set_timeout now (m_expires a) (Some Closed) (RunAndTerminate CallAnnounceExpired) s)
       (call_agent_side (Agent (CallAnnounced a)) [Announced] NoTail None)"

definition on_grant :: "time \<Rightarrow> message \<Rightarrow> contractor \<Rightarrow> contractor run" where
  "on_grant now g s =
     and_then (set_timeout now (m_expires g) (Some Expired) (RunAndTerminate (CallCancelled g)) s) (\<lambda>s.
     and_then (update_manager_address (m_reply_to g) (set_remote_id (m_sender g) (s\<lparr>c_grant := Some g\<rparr>)))
       (call_agent_side (Agent (CallGranted g)) [Granted] NoTail None))"

definition on_ack :: "message \<Rightarrow> contractor \<Rightarrow> contractor run" where
  "on_ack m s = call_agent_side (Agent (CallAcknowledged m)) [Acknowledged] Finalize None s"

definition on_reject :: "message \<Rightarrow> contractor \<Rightarrow> contractor run" where
  "on_reject m s = run_and_terminate (CallRejected m) [Rejected] None s"

definition on_cancel_in_granted :: "message \<Rightarrow> contractor \<Rightarrow> contractor run" where
  "on_cancel_in_granted m s = run_and_terminate (CallCancelled m) [Cancelled] None s"

definition on_cancel_in_completed :: "message \<Rightarrow> contractor \<Rightarrow> contractor run" where
  "on_cancel_in_completed m s = run_and_terminate CallAborted [Aborted] None s"

definition contractor_handle :: "contractor_handler \<Rightarrow> time \<Rightarrow> message \<Rightarrow> contractor \<Rightarrow> contractor run" where
  "contractor_handle h now m s =
     (case h of
        OnAnnounce \<Rightarrow> on_announce now m s
      | OnReject \<Rightarrow> on_reject m s
      | OnGrant \<Rightarrow> on_grant now m s
      | OnCancelInGranted \<Rightarrow> on_cancel_in_granted m s
      | OnCancelInCompleted \<Rightarrow> on_cancel_in_completed m s
      | OnAck \<Rightarrow> on_ack m s)"

definition contractor_on_message :: "time \<Rightarrow> message \<Rightarrow> contractor \<Rightarrow> contractor run" where
  "contractor_on_message now m s =
     (case event_handler contractor_mapping (m_kind m) (state s) of
        None \<Rightarrow> (None, s)
      | Some (after, h) \<Rightarrow> contractor_handle h now m (set_machine_state after s))"

section \<open>Events\<close>

datatype contractor_event =
    CInitiate
  | CMessage time message
  | CBid time message
  | CHandover message
  | CRefuse time message
  | CDefect time message
  | CComplete time message
  | CUpdateAddress "recipient option"
  | CTimeout time
  | CRunJob nat
  | CReturn nat "outcome option"
  | CFires nat outcome
  | CNotify
  | CCleanup

text \<open>A contractor has no methods of its own that run as jobs.\<close>

definition no_own :: "target \<Rightarrow> nat \<Rightarrow> contractor \<Rightarrow> contractor run" where
  "no_own t i s = (None, s)"

fun contractor_exec :: "contractor_event \<Rightarrow> contractor \<Rightarrow> contractor run" where
  "contractor_exec CInitiate s = contractor_initiate s"
| "contractor_exec (CMessage now m) s = contractor_on_message now m s"
| "contractor_exec (CBid now m) s = contractor_bid now m s"
| "contractor_exec (CHandover m) s = contractor_handover m s"
| "contractor_exec (CRefuse now m) s = contractor_refuse now m s"
| "contractor_exec (CDefect now m) s = contractor_defect now m s"
| "contractor_exec (CComplete now m) s = contractor_complete now m s"
| "contractor_exec (CUpdateAddress r) s = update_manager_address r s"
| "contractor_exec (CTimeout now) s = timeout_fires now s"
| "contractor_exec (CRunJob i) s = (None, run_job no_own i s)"
| "contractor_exec (CReturn i r) s = (None, job_return i r s)"
| "contractor_exec (CFires i r) s = (None, job_fires i r s)"
| "contractor_exec CNotify s = (None, deliver s)"
| "contractor_exec CCleanup s = (None, cleanup s)"

definition contractor_step :: "contractor_event \<Rightarrow> contractor \<Rightarrow> contractor" where
  "contractor_step e s = snd (contractor_exec e s)"

section \<open>The contractor is a medium\<close>

lemma middle_inv_fields [inv_intros]:
  "middle_inv s \<Longrightarrow> middle_inv (s\<lparr>recipients := rs\<rparr>)"
  "middle_inv s \<Longrightarrow> middle_inv (s\<lparr>remote_id := r\<rparr>)"
  by (rule middle_inv_cong [of s]; simp add: same_end_def queued_def stage_of_def)+

lemma middle_inv_c_grant [inv_intros]: "middle_inv s \<Longrightarrow> middle_inv (s\<lparr>c_grant := g\<rparr>)"
  by (rule middle_inv_cong [of s]) (simp_all add: same_end_def queued_def stage_of_def)

lemma deliver_same: "same_end s (deliver s)" "agent_jobs (deliver s) = agent_jobs s" "jobs (deliver s) = jobs s"
    "sent (deliver s) = sent s" "agent_log (deliver s) = agent_log s" "state (deliver s) = state s"
  by (auto simp: deliver_def same_end_def split: list.split prod.split)

lemma middle_inv_deliver [inv_intros]: "middle_inv s \<Longrightarrow> middle_inv (deliver s)"
  using queued_cong [OF deliver_same(3), of s] by (auto intro!: middle_inv_cong [of s] simp: deliver_same)

lemma stays_same_end: "same_end s s' \<Longrightarrow> stays s s'"
  by (simp add: same_end_def stays_def)

lemma stays_c_grant [simp]: "stays s (t\<lparr>c_grant := g\<rparr>) = stays s t"
  by (simp add: stays_def)

lemmas contractor_ops =
  contractor_initiate_def contractor_bid_def contractor_handover_def contractor_refuse_def
  contractor_defect_def contractor_complete_def update_manager_address_def

lemmas contractor_hooks =
  on_announce_def on_grant_def on_ack_def on_reject_def on_cancel_in_granted_def on_cancel_in_completed_def
  set_remote_id_def

lemma middle_inv_and_then [inv_intros]:
  "middle_inv (snd m) \<Longrightarrow> (\<And>s. middle_inv s \<Longrightarrow> middle_inv (snd (f s))) \<Longrightarrow> middle_inv (snd (and_then m f))"
  by (rule and_then_keeps)

lemma contractor_handle_inv: "middle_inv s \<Longrightarrow> middle_inv (snd (contractor_handle h now m s))"
  by (cases h)
     (auto simp: contractor_handle_def contractor_hooks update_manager_address_def
       intro!: inv_intros split: option.split)

lemma contractor_handle_stays: "stays s s' \<Longrightarrow> stays s (snd (contractor_handle h now m s'))"
  by (cases h)
     (auto simp: contractor_handle_def contractor_hooks update_manager_address_def
       intro!: stays_and_then split: option.split)

lemma contractor_exec_inv: "middle_inv s \<Longrightarrow> middle_inv (snd (contractor_exec e s))"
proof (cases e)
  case (CMessage now m)
  then show "middle_inv s \<Longrightarrow> ?thesis"
    by (auto simp: contractor_on_message_def intro!: contractor_handle_inv inv_intros split: option.split)
qed (auto simp: contractor_ops finalizing_def send_message_def handover_message_def Let_def no_own_def
       intro!: inv_intros split: option.split)

lemma contractor_exec_stays: "middle_inv s \<Longrightarrow> stays s (snd (contractor_exec e s))"
proof (cases e)
  case (CMessage now m)
  then show ?thesis
    by (auto simp: contractor_on_message_def intro!: contractor_handle_stays split: option.split)
next
  case (CNotify)
  then show ?thesis by (simp add: stays_same_end deliver_same)
qed (auto simp: contractor_ops finalizing_def send_message_def handover_message_def Let_def
       intro!: stays_finalize stays_and_then stays_timeout_fires stays_run_job stays_job_return
         stays_job_fires stays_cleanup split: option.split)

interpretation contractor: medium_laws contractor_step
  by unfold_locales (simp_all only: contractor_step_def contractor_exec_inv contractor_exec_stays)

end
