(* ===== verification/Manager.thy ===== *)
theory Manager
  imports Contractor
begin

text \<open>
  \<open>AgencyManager\<close> of \<open>agencies/contracts.py\<close>: the medium of an agent that offers a contract,
  with the contractors it has heard of (\<open>ManagerContractor\<close>, \<open>ManagerContractors\<close>).

  Two methods of the agent are called directly and not in a job: \<open>bid\<close> for every bid and
  \<open>completed\<close> at the end.  What they do with the medium and what they return is given with the
  message that leads to the call, as a list of commands and a reply.
\<close>

section \<open>Contractors\<close>

datatype contractor_state =
    MBid | MRefused | MRejected | MElected | MGranted | MCompleted | MCancelled | MAcknowledged

record mcontractor =
  mc_state :: contractor_state
  mc_bid :: message
  mc_report :: "message option"
  mc_recipient :: recipient

datatype mc_handler = McSend | McReport

definition mc_mapping :: "kind \<Rightarrow> (contractor_state, mc_handler) decision option" where
  "mc_mapping k =
     (case k of
        Rejection \<Rightarrow> Some (One [MBid] MRejected McSend)
      | Grant \<Rightarrow> Some (One [MBid] MGranted McSend)
      | Cancellation \<Rightarrow> Some (One [MGranted, MCompleted] MCancelled McSend)
      | Acknowledgement \<Rightarrow> Some (One [MCompleted] MAcknowledged McSend)
      | FinalReport \<Rightarrow> Some (One [MGranted] MCompleted McReport)
      | _ \<Rightarrow> None)"

type_synonym contractors = "(string, mcontractor) dict"

definition with_state :: "contractor_state list \<Rightarrow> contractors \<Rightarrow> (string \<times> mcontractor) list" where
  "with_state sts cs = filter (\<lambda>(_, c). mc_state c \<in> set sts) cs"

definition message_key :: "message \<Rightarrow> exn + string" where
  "message_key m = (case m_reply_to m of None \<Rightarrow> Inl AttributeError | Some r \<Rightarrow> Inr (rc_key r))"

definition by_message :: "message \<Rightarrow> contractors \<Rightarrow> exn + (string \<times> mcontractor) option" where
  "by_message m cs = bindE (message_key m) (\<lambda>k. Inr (map_option (Pair k) (map_of cs k)))"

fun max_expiration :: "time option list \<Rightarrow> time option" where
  "max_expiration [] = None"
| "max_expiration (None # xs) = max_expiration xs"
| "max_expiration (Some t # xs) =
     (case max_expiration xs of None \<Rightarrow> Some t | Some u \<Rightarrow> Some (max t u))"

definition bids_expiration :: "contractors \<Rightarrow> time option" where
  "bids_expiration cs = max_expiration (map (\<lambda>(_, c). m_expires (mc_bid c)) (with_state [MBid] cs))"

section \<open>State of the medium\<close>

record manager = middle +
  contractors :: contractors
  expected_bids :: "nat option"
  initiate_timeout :: time
  announce_timeout :: time
  grant_timeout :: time
  bid_waits :: nat
  completed_waits :: nat

text \<open>None if a recipient is a broadcast: then nobody knows how many bids will come.\<close>

fun count_expected_bids :: "recipient list \<Rightarrow> nat option" where
  "count_expected_bids [] = Some 0"
| "count_expected_bids (r # rs) =
     (if rc_type r = RBroadcast then None else map_option Suc (count_expected_bids rs))"

definition manager_new :: "string \<Rightarrow> time \<Rightarrow> time \<Rightarrow> time \<Rightarrow> recipient list \<Rightarrow> manager" where
  "manager_new gid initiate announce grant recps =
     \<lparr>state = None, waits = [], due = [], fired = [], next_wait = 0,
      jobs = [], agent_jobs = [], timeout = None, finalize_called = False, result = None,
      finish_due = [], guid = gid, remote_id = None, protocol_id = None,
      recipients = recps, sent = [], agent_log = [],
      contractors = [], expected_bids = count_expected_bids recps, initiate_timeout = initiate,
      announce_timeout = announce, grant_timeout = grant, bid_waits = 0, completed_waits = 0\<rparr>"

definition manager_initiate :: "time \<Rightarrow> string option \<Rightarrow> manager \<Rightarrow> manager run" where
  "manager_initiate now protocol s =
     (let s = set_machine_state Initiated (set_protocol_id protocol s)
      in and_then (set_timeout now (Some (now + initiate_timeout s)) (Some Wtf) (FinalizeWith ProtocolExpired) s)
           (call_agent_side (Agent CallInitiate) [Initiated] NoTail None))"

section \<open>Messages to the contractors\<close>

definition mc_set_state :: "string \<Rightarrow> contractor_state \<Rightarrow> manager \<Rightarrow> manager" where
  "mc_set_state k st s =
     (case map_of (contractors s) k of
        None \<Rightarrow> s
      | Some c \<Rightarrow> s\<lparr>contractors := AList.update k (c\<lparr>mc_state := st\<rparr>) (contractors s)\<rparr>)"

definition mc_on_report :: "string \<Rightarrow> message \<Rightarrow> manager \<Rightarrow> manager" where
  "mc_on_report k m s =
     (case map_of (contractors s) k of
        None \<Rightarrow> s
      | Some c \<Rightarrow> s\<lparr>contractors := AList.update k (c\<lparr>mc_report := Some m\<rparr>) (contractors s)\<rparr>)"

definition mc_send_message :: "time \<Rightarrow> message \<Rightarrow> mcontractor \<Rightarrow> manager \<Rightarrow> message \<times> manager" where
  "mc_send_message now m c s = send_message now m None [mc_recipient c] (m_sender (mc_bid c)) s"

definition mc_on_event :: "time \<Rightarrow> message \<Rightarrow> string \<Rightarrow> manager \<Rightarrow> message \<times> manager" where
  "mc_on_event now m k s =
     (case map_of (contractors s) k of
        None \<Rightarrow> (m, s)
      | Some c \<Rightarrow>
          (case event_handler mc_mapping (m_kind m) (Some (mc_state c)) of
             None \<Rightarrow> (m, s)
           | Some (after, McSend) \<Rightarrow> mc_send_message now m c (mc_set_state k after s)
           | Some (after, McReport) \<Rightarrow> (m, mc_on_report k m (mc_set_state k after s))))"

definition tell :: "time \<Rightarrow> message \<Rightarrow> string \<Rightarrow> manager \<Rightarrow> manager" where
  "tell now m k s = snd (mc_on_event now m k s)"

definition reject_bids :: "time \<Rightarrow> manager \<Rightarrow> manager" where
  "reject_bids now s =
     fold (\<lambda>(k, _). tell now (new_message Rejection) k) (with_state [MBid] (contractors s)) s"

section \<open>Operations of the agent\<close>

definition manager_announce :: "time \<Rightarrow> string \<Rightarrow> message \<Rightarrow> manager \<Rightarrow> manager run" where
  "manager_announce now uuid a s =
     (if \<not> ensure_state [Initiated] s then (None, s)
      else if m_kind a \<noteq> Announcement then (Some AssertionError, s)
      else
        let a = duplicate a;
            a = (if m_traversal a = None then a\<lparr>m_traversal := Some uuid\<rparr> else a);
            s = set_machine_state Announced s;
            expiration = now + announce_timeout s;
            (_, s) = send_message now a (Some expiration) [] None s
        in set_timeout now (Some expiration) None AnnounceExpire s)"

definition manager_reject :: "time \<Rightarrow> message \<Rightarrow> message option \<Rightarrow> manager \<Rightarrow> manager run" where
  "manager_reject now bid rejection s =
     (if \<not> ensure_state [Announced, Granted, Closed] s then (None, s)
      else
        case by_message bid (contractors s) of
          Inl e \<Rightarrow> (Some e, s)
        | Inr None \<Rightarrow> (Some AttributeError, s)
        | Inr (Some (k, _)) \<Rightarrow>
            (None, tell now (case rejection of None \<Rightarrow> new_message Rejection | Some r \<Rightarrow> duplicate r) k s))"

definition send_grant :: "time \<Rightarrow> time \<Rightarrow> message \<times> message \<Rightarrow> manager \<Rightarrow> manager run" where
  "send_grant now expiration bg s =
     (case by_message (fst bg) (contractors s) of
        Inl e \<Rightarrow> (Some e, s)
      | Inr None \<Rightarrow> (Some AttributeError, s)
      | Inr (Some (k, _)) \<Rightarrow> (None, tell now ((snd bg)\<lparr>m_expires := Some expiration\<rparr>) k s))"

definition manager_grant :: "time \<Rightarrow> (message \<times> message) list \<Rightarrow> manager \<Rightarrow> manager run" where
  "manager_grant now grants s =
     (if \<not> ensure_state [Closed, Announced] s then (None, s)
      else
        let grants = map (\<lambda>(b, g). (b, duplicate g)) grants;
            s = set_machine_state Granted s;
            expiration = now + grant_timeout s
        in and_then (set_timeout now (Some expiration) (Some Aborted) GrantExpire s) (\<lambda>s.
           and_then (run_each (send_grant now expiration) grants s) (\<lambda>s.
             (None, reject_bids now s))))"

definition manager_elect :: "message \<Rightarrow> manager \<Rightarrow> manager run" where
  "manager_elect bid s =
     (case by_message bid (contractors s) of
        Inl e \<Rightarrow> (Some e, s)
      | Inr None \<Rightarrow> (None, s)
      | Inr (Some (k, _)) \<Rightarrow> (None, mc_set_state k MElected s))"

text \<open>After the loop the code uses the variable of the loop, which is unbound if nobody had a
  grant.\<close>

fun cancel_loop :: "time \<Rightarrow> message \<Rightarrow> string list \<Rightarrow> message option \<Rightarrow> manager \<Rightarrow> message option \<times> manager" where
  "cancel_loop now c [] prev s = (prev, s)"
| "cancel_loop now c (k # ks) prev s =
     (case mc_on_event now c k s of (m, s) \<Rightarrow> cancel_loop now c ks (Some m) s)"

definition manager_cancel :: "time \<Rightarrow> string option \<Rightarrow> manager \<Rightarrow> manager run" where
  "manager_cancel now reason s =
     (if \<not> ensure_state [Granted, Cancelled] s then (None, s)
      else
        let s = set_machine_state Cancelled s;
            ks = map fst (with_state [MGranted, MCompleted] (contractors s))
        in case cancel_loop now ((new_message Cancellation)\<lparr>m_reason := reason\<rparr>) ks None s of
             (None, s) \<Rightarrow> (Some UnboundLocalError, s)
           | (Some c, s) \<Rightarrow> run_and_terminate (CallCancelled c) [Cancelled] None s)"

definition manager_terminate :: "time \<Rightarrow> outcome \<Rightarrow> manager \<Rightarrow> manager run" where
  "manager_terminate now r s =
     (let s = reject_bids now s
      in (None,
          if cmp_state (state s) [Expired, Cancelled, Aborted, Wtf] then s
          else finalize r (set_machine_state Terminated s)))"

definition get_bids :: "manager \<Rightarrow> message list" where
  "get_bids s = map (\<lambda>(_, c). mc_bid c) (with_state [MBid] (contractors s))"

section \<open>Closing the announcement\<close>

definition close_announce_period :: "time \<Rightarrow> manager \<Rightarrow> manager run" where
  "close_announce_period now s =
     and_then (set_timeout now (bids_expiration (contractors s)) (Some Expired) (RunAndTerminate CallExpired) s) (\<lambda>s.
       call_agent_side (Agent CallClosed) [Closed] NoTail None (set_machine_state Closed s))"

definition goto_closed_or_expired :: "time \<Rightarrow> manager \<Rightarrow> manager run" where
  "goto_closed_or_expired now s =
     (if with_state [MBid] (contractors s) \<noteq> [] then close_announce_period now s
      else run_and_terminate CallExpired [Expired] None (set_machine_state Expired s))"

definition check_goto_close :: "time \<Rightarrow> manager \<Rightarrow> manager run" where
  "check_goto_close now s =
     (if cmp_state (state s) [Terminated] then (None, s)
      else
        case expected_bids s of
          None \<Rightarrow> (None, s)
        | Some n \<Rightarrow>
            if n \<noteq> 0 \<and> n \<le> length (contractors s)
            then goto_closed_or_expired now (cancel_timeout s)
            else (None, s))"

definition on_announce_expire :: "time \<Rightarrow> manager \<Rightarrow> manager run" where
  "on_announce_expire now s =
     (if \<not> ensure_state [Announced] s then (None, s) else goto_closed_or_expired now s)"

definition on_grant_expire :: "nat \<Rightarrow> manager \<Rightarrow> manager run" where
  "on_grant_expire i s = run_and_terminate CallAborted [Aborted] (Some i) (set_machine_state Aborted s)"

definition manager_own :: "time \<Rightarrow> target \<Rightarrow> nat \<Rightarrow> manager \<Rightarrow> manager run" where
  "manager_own now t i s =
     (case t of
        AnnounceExpire \<Rightarrow> and_then (on_announce_expire now s) (\<lambda>s. (None, job_finish i NoneV s))
      | GrantExpire \<Rightarrow> and_then (on_grant_expire i s) (\<lambda>s. (None, set_stage i Waiting s))
      | _ \<Rightarrow> (None, s))"

section \<open>Messages of the contractors\<close>

datatype command =
    DoGrant "(message \<times> message) list" | DoReject message "message option" | DoElect message
  | DoCancel "string option" | DoTerminate outcome

datatype agent_reply = Returns outcome | Raises exn | Defers

fun do_command :: "time \<Rightarrow> command \<Rightarrow> manager \<Rightarrow> manager run" where
  "do_command now (DoGrant gs) s = manager_grant now gs s"
| "do_command now (DoReject b r) s = manager_reject now b r s"
| "do_command now (DoElect b) s = manager_elect b s"
| "do_command now (DoCancel r) s = manager_cancel now r s"
| "do_command now (DoTerminate r) s = manager_terminate now r s"

definition register_contractor :: "message \<Rightarrow> contractor_state \<Rightarrow> manager \<Rightarrow> manager run" where
  "register_contractor m st s =
     (case recipient_of m of
        Inl e \<Rightarrow> (Some e, s)
      | Inr r \<Rightarrow>
          if dict_has (contractors s) (rc_key r) then (Some RuntimeError, s)
          else (None, s\<lparr>contractors := AList.update (rc_key r)
                   \<lparr>mc_state = st, mc_bid = m, mc_report = None, mc_recipient = r\<rparr> (contractors s)\<rparr>))"

definition on_bid :: "time \<Rightarrow> message \<Rightarrow> command list \<Rightarrow> agent_reply \<Rightarrow> manager \<Rightarrow> manager run" where
  "on_bid now b cmds reply s =
     and_then (register_contractor b MBid s) (\<lambda>s.
     and_then (run_each (do_command now) cmds (s\<lparr>agent_log := agent_log s @ [CallBid b]\<rparr>)) (\<lambda>s.
       case reply of
         Raises e \<Rightarrow> (Some e, s)
       | Defers \<Rightarrow> (None, s\<lparr>bid_waits := bid_waits s + 1\<rparr>)
       | Returns _ \<Rightarrow> check_goto_close now s))"

definition on_refusal :: "time \<Rightarrow> message \<Rightarrow> manager \<Rightarrow> manager run" where
  "on_refusal now m s = and_then (register_contractor m MRefused s) (check_goto_close now)"

definition on_duplicate :: "time \<Rightarrow> message \<Rightarrow> manager \<Rightarrow> manager run" where
  "on_duplicate now m s =
     (case by_message m (contractors s) of
        Inl e \<Rightarrow> (Some e, s)
      | Inr (Some _) \<Rightarrow> (None, s)
      | Inr None \<Rightarrow> on_refusal now m s)"

definition on_complete :: "time \<Rightarrow> command list \<Rightarrow> agent_reply \<Rightarrow> manager \<Rightarrow> manager run" where
  "on_complete now cmds reply s =
     (if \<not> ensure_state [Granted] s then (None, s)
      else
        let s = cancel_timeout (set_machine_state Completed s);
            cs = with_state [MCompleted] (contractors s);
            s = fold (\<lambda>(k, _). tell now (new_message Acknowledgement) k) cs s;
            s = s\<lparr>agent_log := agent_log s @ [CallCompleted (List.map_filter (\<lambda>(_, c). mc_report c) cs)]\<rparr>
        in and_then (run_each (do_command now) cmds s) (\<lambda>s.
             case reply of
               Raises e \<Rightarrow> (Some e, s)
             | Defers \<Rightarrow> (None, s\<lparr>completed_waits := completed_waits s + 1\<rparr>)
             | Returns r \<Rightarrow> (None, finalize r s)))"

definition on_report :: "time \<Rightarrow> message \<Rightarrow> command list \<Rightarrow> agent_reply \<Rightarrow> manager \<Rightarrow> manager run" where
  "on_report now m cmds reply s =
     (case by_message m (contractors s) of
        Inl e \<Rightarrow> (Some e, s)
      | Inr None \<Rightarrow> (None, s)
      | Inr (Some (k, _)) \<Rightarrow>
          let s = tell now m k s
          in if with_state [MGranted] (contractors s) = [] then on_complete now cmds reply s else (None, s))"

definition cancel_reason :: "message \<Rightarrow> string" where
  "cancel_reason m =
     ''Other contractor cancelled the job with reason: '' @ (case m_reason m of None \<Rightarrow> ''None'' | Some r \<Rightarrow> r)"

definition on_cancel :: "time \<Rightarrow> message \<Rightarrow> manager \<Rightarrow> manager run" where
  "on_cancel now m s =
     (case by_message m (contractors s) of
        Inl e \<Rightarrow> (Some e, s)
      | Inr None \<Rightarrow> (None, s)
      | Inr (Some _) \<Rightarrow> manager_cancel now (Some (cancel_reason m)) s)"

datatype manager_handler = MOnBid | MOnRefusal | MOnDuplicate | MOnReport | MOnCancel

definition manager_mapping :: "kind \<Rightarrow> (contract_state, manager_handler) decision option" where
  "manager_mapping k =
     (case k of
        Bid \<Rightarrow> Some (One [Announced] Announced MOnBid)
      | Refusal \<Rightarrow> Some (One [Announced] Announced MOnRefusal)
      | Duplicate \<Rightarrow> Some (One [Announced] Announced MOnDuplicate)
      | FinalReport \<Rightarrow> Some (One [Granted] Granted MOnReport)
      | Cancellation \<Rightarrow> Some (One [Granted] Cancelled MOnCancel)
      | _ \<Rightarrow> None)"

definition manager_handle ::
  "manager_handler \<Rightarrow> time \<Rightarrow> message \<Rightarrow> command list \<Rightarrow> agent_reply \<Rightarrow> manager \<Rightarrow> manager run" where
  "manager_handle h now m cmds reply s =
     (case h of
        MOnBid \<Rightarrow> on_bid now m cmds reply s
      | MOnRefusal \<Rightarrow> on_refusal now m s
      | MOnDuplicate \<Rightarrow> on_duplicate now m s
      | MOnReport \<Rightarrow> on_report now m cmds reply s
      | MOnCancel \<Rightarrow> on_cancel now m s)"

definition manager_on_message :: "time \<Rightarrow> message \<Rightarrow> command list \<Rightarrow> agent_reply \<Rightarrow> manager \<Rightarrow> manager run" where
  "manager_on_message now m cmds reply s =
     (case event_handler manager_mapping (m_kind m) (state s) of
        None \<Rightarrow> (None, s)
      | Some (after, h) \<Rightarrow> manager_handle h now m cmds reply (set_machine_state after s))"

section \<open>Events\<close>

datatype manager_event =
    MInitiate time "string option"
  | MAnnounce time string message
  | MCommand time command
  | MMessage time message "command list" agent_reply
  | MBidFires time
  | MCompletedFires outcome
  | MTimeout time
  | MRunJob time nat
  | MReturn nat "outcome option"
  | MFires nat outcome
  | MNotify
  | MCleanup

fun manager_exec :: "manager_event \<Rightarrow> manager \<Rightarrow> manager run" where
  "manager_exec (MInitiate now p) s = manager_initiate now p s"
| "manager_exec (MAnnounce now u m) s = manager_announce now u m s"
| "manager_exec (MCommand now c) s = do_command now c s"
| "manager_exec (MMessage now m cmds reply) s = manager_on_message now m cmds reply s"
| "manager_exec (MBidFires now) s =
     (if bid_waits s = 0 then (None, s) else check_goto_close now (s\<lparr>bid_waits := bid_waits s - 1\<rparr>))"
| "manager_exec (MCompletedFires r) s =
     (if completed_waits s = 0 then (None, s)
      else (None, finalize r (s\<lparr>completed_waits := completed_waits s - 1\<rparr>)))"
| "manager_exec (MTimeout now) s = timeout_fires now s"
| "manager_exec (MRunJob now i) s = (None, run_job (manager_own now) i s)"
| "manager_exec (MReturn i r) s = (None, job_return i r s)"
| "manager_exec (MFires i r) s = (None, job_fires i r s)"
| "manager_exec MNotify s = (None, deliver s)"
| "manager_exec MCleanup s = (None, cleanup s)"

definition manager_step :: "manager_event \<Rightarrow> manager \<Rightarrow> manager" where
  "manager_step e s = snd (manager_exec e s)"

section \<open>The manager is a medium\<close>

lemma set_machine_state_manager [simp]:
  "contractors (set_machine_state st s) = contractors s" "expected_bids (set_machine_state st s) = expected_bids s"
  "grant_timeout (set_machine_state st s) = grant_timeout s" "bid_waits (set_machine_state st s) = bid_waits s"
  "completed_waits (set_machine_state st s) = completed_waits s"
  by (simp_all add: set_machine_state_def Let_def)

lemma stays_manager [simp]:
  "stays s (t\<lparr>contractors := cs\<rparr>) = stays s t" "stays s (t\<lparr>bid_waits := n\<rparr>) = stays s t"
  "stays s (t\<lparr>completed_waits := n\<rparr>) = stays s t" "stays s (t\<lparr>protocol_id := p\<rparr>) = stays s t"
  by (simp_all add: stays_def)

lemma middle_inv_manager [inv_intros]:
  "middle_inv s \<Longrightarrow> middle_inv (s\<lparr>contractors := cs\<rparr>)" "middle_inv s \<Longrightarrow> middle_inv (s\<lparr>bid_waits := n\<rparr>)"
  "middle_inv s \<Longrightarrow> middle_inv (s\<lparr>completed_waits := n\<rparr>)" "middle_inv s \<Longrightarrow> middle_inv (s\<lparr>protocol_id := p\<rparr>)"
  by (rule middle_inv_cong [of s]; simp add: same_end_def queued_def stage_of_def)+

text \<open>The two facts go through the operations together.\<close>

definition good_from :: "manager \<Rightarrow> manager \<Rightarrow> bool" where
  "good_from s t \<longleftrightarrow> middle_inv t \<and> stays s t"

lemma good_and_then:
  "good_from s (snd m) \<Longrightarrow> (\<And>t. good_from s t \<Longrightarrow> good_from s (snd (f t))) \<Longrightarrow> good_from s (snd (and_then m f))"
  by (rule and_then_keeps)

lemma good_each_step:
  "good_from s t \<Longrightarrow> (\<And>k u. good_from s u \<Longrightarrow> good_from s (snd (f k u))) \<Longrightarrow> good_from s (snd (run_each f ks t))"
  by (rule each_keeps)

lemma good_fold: "good_from s t \<Longrightarrow> (\<And>k u. good_from s u \<Longrightarrow> good_from s (f k u)) \<Longrightarrow> good_from s (fold f ks t)"
  by (induction ks arbitrary: t) auto

lemma good_updates [intro]:
  "good_from s t \<Longrightarrow> good_from s (set_machine_state st t)" "good_from s t \<Longrightarrow> good_from s (t\<lparr>agent_log := l\<rparr>)"
  "good_from s t \<Longrightarrow> good_from s (t\<lparr>sent := m\<rparr>)" "good_from s t \<Longrightarrow> good_from s (cancel_timeout t)"
  "good_from s t \<Longrightarrow> good_from s (t\<lparr>contractors := cs\<rparr>)" "good_from s t \<Longrightarrow> good_from s (t\<lparr>bid_waits := n\<rparr>)"
  "good_from s t \<Longrightarrow> good_from s (t\<lparr>completed_waits := n\<rparr>)" "good_from s t \<Longrightarrow> good_from s (t\<lparr>protocol_id := p\<rparr>)"
  "good_from s t \<Longrightarrow> good_from s (snd (set_timeout now e sto tgt t))"
  "good_from s t \<Longrightarrow> good_from s (snd (call_agent_side tgt en tt pa t))"
  "good_from s t \<Longrightarrow> good_from s (snd (run_and_terminate c en pa t))"
  "good_from s t \<Longrightarrow> good_from s (finalize r t)"
  by (auto simp: good_from_def cancel_timeout_def intro: inv_intros stays_finalize)

lemma good_tell [intro]: "good_from s t \<Longrightarrow> good_from s (snd (mc_on_event now m k t))"
  by (auto simp: mc_on_event_def mc_send_message_def send_message_def Let_def mc_set_state_def mc_on_report_def
      split: option.split mc_handler.split)

lemma good_reject_bids [intro]: "good_from s t \<Longrightarrow> good_from s (reject_bids now t)"
  unfolding reject_bids_def tell_def by (rule good_fold) auto

lemma good_send_grant [intro]: "good_from s t \<Longrightarrow> good_from s (snd (send_grant now e bg t))"
  by (auto simp: send_grant_def tell_def split: sum.split option.split)

lemma good_cancel_loop: "good_from s t \<Longrightarrow> good_from s (snd (cancel_loop now c ks p t))"
proof (induction ks arbitrary: p t)
  case (Cons k ks)
  obtain m u where mu: "mc_on_event now c k t = (m, u)" by fastforce
  then have "good_from s u" using good_tell [OF Cons.prems, of now c k] by simp
  then show ?case using Cons.IH mu by simp
qed simp

lemma good_cancel [intro]:
  assumes "good_from s t"
  shows "good_from s (snd (manager_cancel now r t))"
proof -
  let ?t = "set_machine_state Cancelled t"
  obtain c u where cu: "cancel_loop now ((new_message Cancellation)\<lparr>m_reason := r\<rparr>)
      (map fst (with_state [MGranted, MCompleted] (contractors ?t))) None ?t = (c, u)" by fastforce
  have "good_from s ?t" using assms by auto
  from good_cancel_loop [OF this] have "good_from s u" using cu by (metis snd_conv)
  then show ?thesis using assms cu by (auto simp: manager_cancel_def Let_def split: option.split)
qed

lemma good_grant [intro]: "good_from s t \<Longrightarrow> good_from s (snd (manager_grant now gs t))"
  by (auto simp: manager_grant_def Let_def intro!: good_and_then good_each_step)

lemma good_command [intro]: "good_from s t \<Longrightarrow> good_from s (snd (do_command now c t))"
  by (cases c)
     (auto simp: manager_reject_def manager_elect_def manager_terminate_def mc_set_state_def tell_def Let_def
       split: sum.split option.split)

lemma good_check [intro]: "good_from s t \<Longrightarrow> good_from s (snd (check_goto_close now t))"
  by (auto simp: check_goto_close_def goto_closed_or_expired_def close_announce_period_def
      intro!: good_and_then split: option.split)

lemma good_register [intro]: "good_from s t \<Longrightarrow> good_from s (snd (register_contractor m st t))"
  by (auto simp: register_contractor_def split: sum.split)

lemma good_on_complete [intro]:
  assumes "good_from s t"
  shows "good_from s (snd (on_complete now cmds reply t))"
proof -
  have acks: "good_from s (fold (\<lambda>(k, _). tell now a k) cs u)" if "good_from s u" for a cs u
    using that by (auto simp: tell_def intro!: good_fold)
  show ?thesis
    using assms unfolding on_complete_def Let_def
    by (auto intro!: good_and_then good_each_step acks split: agent_reply.split)
qed

lemma good_handle [intro]: "good_from s t \<Longrightarrow> good_from s (snd (manager_handle h now m cmds reply t))"
  by (cases h)
     (auto simp: manager_handle_def on_bid_def on_refusal_def on_duplicate_def on_report_def on_cancel_def tell_def Let_def
       intro!: good_and_then good_each_step split: agent_reply.split sum.split option.split)

lemma good_job_finish: "good_from s t \<Longrightarrow> good_from s (job_finish i r t)"
  using stays_trans [OF _ stays_ends [OF ends_job_finish]] by (auto simp: good_from_def intro: inv_intros)

lemma good_stage: "st \<noteq> Queued \<Longrightarrow> good_from s t \<Longrightarrow> good_from s (set_stage i st t)"
  by (auto simp: good_from_def stays_def intro: inv_intros)

lemma middle_inv_own: "middle_inv s \<Longrightarrow> middle_inv (snd (manager_own now t i s))"
proof -
  assume "middle_inv s"
  then have "good_from s s" by (simp add: good_from_def)
  then have "good_from s (snd (manager_own now t i s))"
    by (cases t)
       (auto simp: manager_own_def on_announce_expire_def on_grant_expire_def goto_closed_or_expired_def
         close_announce_period_def intro!: good_and_then good_job_finish good_stage)
  then show ?thesis by (simp add: good_from_def)
qed

lemma manager_exec_good: "middle_inv s \<Longrightarrow> good_from s (snd (manager_exec e s))"
proof -
  assume inv: "middle_inv s"
  then have g: "good_from s s" by (simp add: good_from_def)
  show ?thesis
  proof (cases e)
    case (MMessage now m cmds reply)
    then show ?thesis using g by (auto simp: manager_on_message_def split: option.split)
  next
    case (MRunJob now i)
    then show ?thesis
      using inv by (auto simp: good_from_def intro: middle_inv_run_job middle_inv_own stays_run_job)
  next
    case (MNotify)
    then show ?thesis using inv by (auto simp: good_from_def intro: inv_intros stays_same_end deliver_same)
  next
    case (MInitiate now p)
    then show ?thesis using g by (auto simp: manager_initiate_def set_protocol_id_def Let_def intro!: good_and_then)
  next
    case (MAnnounce now u m)
    then show ?thesis using g by (auto simp: manager_announce_def send_message_def Let_def)
  next
    case (MTimeout now)
    then show ?thesis using inv by (auto simp: good_from_def intro: inv_intros stays_timeout_fires)
  next
    case (MReturn i r)
    then show ?thesis using inv by (auto simp: good_from_def intro: inv_intros stays_job_return)
  next
    case (MFires i r)
    then show ?thesis using inv by (auto simp: good_from_def intro: inv_intros stays_job_fires)
  next
    case MCleanup
    then show ?thesis using inv by (auto simp: good_from_def intro: inv_intros stays_cleanup)
  qed (use g in \<open>auto\<close>)
qed

interpretation manager: medium_laws manager_step
  using manager_exec_good by unfold_locales (auto simp: manager_step_def good_from_def)

end
