(* ===== verification/ManagerProps.thy ===== *)
theory ManagerProps
  imports Manager
begin

text \<open>
  What the manager does to its contractors.  \<open>tell_many\<close> is the workhorse: sending messages of
  one kind to several contractors marks them and sends each of them one message.
\<close>

section \<open>Telling contractors\<close>

definition mark :: "string set \<Rightarrow> contractor_state \<Rightarrow> contractors \<Rightarrow> contractors" where
  "mark ks st cs = map (\<lambda>(k, c). (k, if k \<in> ks then c\<lparr>mc_state := st\<rparr> else c)) cs"

definition sent_view :: "'a middle_scheme \<Rightarrow> (recipient list \<times> kind) list" where
  "sent_view s = map (\<lambda>(rs, m). (rs, m_kind m)) (sent s)"

lemma update_as_map:
  "dict_ok d \<Longrightarrow> map_of d k = Some c \<Longrightarrow> AList.update k v d = map (\<lambda>(x, y). (x, if x = k then v else y)) d"
proof (induction d)
  case (Cons p d)
  obtain x y where p: "p = (x, y)" by fastforce
  show ?case
  proof (cases "x = k")
    case True
    then have "map (\<lambda>(x, y). (x, if x = k then v else y)) d = d"
      using Cons.prems(1) p by (intro map_idI) force
    then show ?thesis using p True by simp
  qed (use Cons p in auto)
qed simp

lemma mark_fst [simp]: "map fst (mark ks st cs) = map fst cs"
  by (simp add: mark_def case_prod_unfold)

lemma map_of_mark: "map_of (mark ks st cs) k = map_option (\<lambda>c. if k \<in> ks then c\<lparr>mc_state := st\<rparr> else c) (map_of cs k)"
  by (induction cs) (auto simp: mark_def)

lemma map_of_map_key: "map_of (map (\<lambda>(k, c). (k, f k c)) d) x = map_option (f x) (map_of d x)"
  by (induction d) auto

lemma mark_mark: "mark ks st (mark ks' st cs) = mark (ks \<union> ks') st cs"
  by (auto simp: mark_def)

lemma mark_empty [simp]: "mark {} st cs = cs"
  by (auto simp: mark_def intro: map_idI)

lemma mark_length [simp]: "length (mark ks st cs) = length cs"
  by (simp add: mark_def)

lemma event_one:
  "mc_mapping K = Some (One before after h) \<Longrightarrow> st \<in> set before \<Longrightarrow> event_handler mc_mapping K (Some st) = Some (after, h)"
  by (simp add: event_handler_def cmp_state_def)

lemma tell_effect:
  assumes ok: "dict_ok (contractors s)" and c: "map_of (contractors s) k = Some c" and "mc_state c \<in> set before"
    and K: "mc_mapping (m_kind m) = Some (One before after McSend)"
  shows "\<exists>m'. m_kind m' = m_kind m \<and>
    mc_on_event now m k s = (m', s\<lparr>contractors := mark {k} after (contractors s), sent := sent s @ [([mc_recipient c], m')]\<rparr>)"
proof -
  have "b = c" if "(k, b) \<in> set (contractors s)" for b
    using that dict_in_set [OF ok, of k b] c by simp
  then have "AList.update k (c\<lparr>mc_state := after\<rparr>) (contractors s) = mark {k} after (contractors s)"
    unfolding mark_def update_as_map [OF ok c] by (auto intro!: map_cong)
  then show ?thesis
    using event_one [OF K assms(3)] c
    by (auto simp: mc_on_event_def mc_set_state_def mc_send_message_def send_message_def Let_def split: option.split)
qed

text \<open>The contractors in \<open>kms\<close> all accept a message of kind \<open>K\<close>.\<close>

definition all_accept :: "contractor_state list \<Rightarrow> kind \<Rightarrow> (string \<times> message) list \<Rightarrow> contractors \<Rightarrow> bool" where
  "all_accept before K kms cs \<longleftrightarrow>
     distinct (map fst kms) \<and>
     (\<forall>km \<in> set kms. m_kind (snd km) = K \<and> (\<exists>c. map_of cs (fst km) = Some c \<and> mc_state c \<in> set before))"

definition recipient_at :: "contractors \<Rightarrow> string \<Rightarrow> recipient" where
  "recipient_at cs k = mc_recipient (the (map_of cs k))"

lemma tell_many:
  assumes "dict_ok (contractors s)" and "all_accept before K kms (contractors s)"
    and K: "mc_mapping K = Some (One before after McSend)"
  shows "\<exists>l. fold (\<lambda>(k, m). tell now m k) kms s =
      s\<lparr>contractors := mark (fst ` set kms) after (contractors s), sent := sent s @ l\<rparr> \<and>
    map (\<lambda>(rs, m). (rs, m_kind m)) l = map (\<lambda>(k, _). ([recipient_at (contractors s) k], K)) kms"
  using assms(1, 2)
proof (induction kms arbitrary: s)
  case Nil
  then show ?case by simp
next
  case (Cons km kms)
  obtain k m where km: "km = (k, m)" by fastforce
  obtain c where c: "map_of (contractors s) k = Some c" "mc_state c \<in> set before" and mk: "m_kind m = K"
    using Cons.prems(2) km by (auto simp: all_accept_def)
  obtain m' where m': "m_kind m' = K"
    "tell now m k s = s\<lparr>contractors := mark {k} after (contractors s), sent := sent s @ [([mc_recipient c], m')]\<rparr>"
    using tell_effect [OF Cons.prems(1) c, of m after now] K mk by (auto simp: tell_def)
  let ?t = "tell now m k s"
  have t: "contractors ?t = mark {k} after (contractors s)" by (simp add: m')
  have acc: "all_accept before K kms (contractors ?t)"
    unfolding all_accept_def
  proof (intro conjI ballI)
    show "distinct (map fst kms)" using Cons.prems(2) by (simp add: all_accept_def)
    fix x assume x: "x \<in> set kms"
    then have "fst x \<noteq> k" using Cons.prems(2) km by (force simp: all_accept_def)
    moreover have "m_kind (snd x) = K" "\<exists>c. map_of (contractors s) (fst x) = Some c \<and> mc_state c \<in> set before"
      using Cons.prems(2) x by (simp_all add: all_accept_def)
    ultimately show "m_kind (snd x) = K" "\<exists>c. map_of (contractors ?t) (fst x) = Some c \<and> mc_state c \<in> set before"
      by (auto simp: t map_of_mark)
  qed
  obtain l where l: "fold (\<lambda>(k, m). tell now m k) kms ?t =
      ?t\<lparr>contractors := mark (fst ` set kms) after (contractors ?t), sent := sent ?t @ l\<rparr>"
    "map (\<lambda>(rs, m). (rs, m_kind m)) l = map (\<lambda>(k, _). ([recipient_at (contractors ?t) k], K)) kms"
    using Cons.IH [OF _ acc] Cons.prems(1) t by auto
  have r: "recipient_at (contractors ?t) (fst x) = recipient_at (contractors s) (fst x)" if x: "x \<in> set kms" for x
  proof -
    obtain y where "map_of (contractors s) (fst x) = Some y"
      using acc x unfolding all_accept_def t by (auto simp: map_of_mark)
    then show ?thesis by (simp add: recipient_at_def t map_of_mark)
  qed
  show ?case
  proof (intro exI conjI)
    show "fold (\<lambda>(k, m). tell now m k) (km # kms) s =
      s\<lparr>contractors := mark (fst ` set (km # kms)) after (contractors s), sent := sent s @ ([mc_recipient c], m') # l\<rparr>"
      using l(1) km m' t by (simp add: mark_mark)
    show "map (\<lambda>(rs, m). (rs, m_kind m)) (([mc_recipient c], m') # l) =
      map (\<lambda>(k, _). ([recipient_at (contractors s) k], K)) (km # kms)"
    proof -
      have "map (\<lambda>(k, _). ([recipient_at (contractors ?t) k], K)) kms = map (\<lambda>(k, _). ([recipient_at (contractors s) k], K)) kms"
        using r by (intro map_cong) (auto simp: case_prod_unfold)
      moreover have "recipient_at (contractors s) k = mc_recipient c" using c by (simp add: recipient_at_def)
      ultimately show ?thesis using l(2) km m'(1) by simp
    qed
  qed
qed

lemma with_state_keys:
  "dict_ok cs \<Longrightarrow> (k, c) \<in> set (with_state sts cs) \<longleftrightarrow> map_of cs k = Some c \<and> mc_state c \<in> set sts"
  by (auto simp: with_state_def)

lemma with_state_distinct: "dict_ok cs \<Longrightarrow> distinct (map fst (with_state sts cs))"
  unfolding with_state_def by (rule dict_ok_filter)

lemma with_state_accept:
  "dict_ok cs \<Longrightarrow> m_kind m = K \<Longrightarrow> set sts \<subseteq> set before \<Longrightarrow> all_accept before K (map (\<lambda>(k, _). (k, m)) (with_state sts cs)) cs"
proof -
  assume cs: "dict_ok cs" and K: "m_kind m = K" and b: "set sts \<subseteq> set before"
  have "map fst (map (\<lambda>(k, _). (k, m)) (with_state sts cs)) = map fst (with_state sts cs)" by auto
  then have "distinct (map fst (map (\<lambda>(k, _). (k, m)) (with_state sts cs)))"
    using with_state_distinct [OF cs] by metis
  moreover have "\<exists>c. map_of cs k = Some c \<and> mc_state c \<in> set before" if "(k, c) \<in> set (with_state sts cs)" for k c
    using that b with_state_keys [OF cs] by blast
  ultimately show ?thesis using K unfolding all_accept_def by auto
qed

lemma tell_with_state:
  assumes "dict_ok (contractors s)" and "mc_mapping (m_kind m) = Some (One before after McSend)" and "set sts \<subseteq> set before"
  shows "\<exists>l. fold (\<lambda>(k, _). tell now m k) (with_state sts (contractors s)) s =
      s\<lparr>contractors := mark (fst ` set (with_state sts (contractors s))) after (contractors s), sent := sent s @ l\<rparr> \<and>
    map (\<lambda>(rs, m). (rs, m_kind m)) l = map (\<lambda>(k, c). ([mc_recipient c], m_kind m)) (with_state sts (contractors s))"
proof -
  let ?cs = "with_state sts (contractors s)"
  let ?kms = "map (\<lambda>(k, _). (k, m)) ?cs"
  have "fold (\<lambda>(k, m). tell now m k) ?kms s = fold (\<lambda>(k, _). tell now m k) ?cs s"
    by (simp add: fold_map comp_def case_prod_unfold)
  moreover have "fst ` set ?kms = fst ` set ?cs" by force
  moreover have "map (\<lambda>(k, _). ([recipient_at (contractors s) k], m_kind m)) ?kms = map (\<lambda>(k, c). ([mc_recipient c], m_kind m)) ?cs"
    using with_state_keys [OF assms(1)] by (auto simp: recipient_at_def)
  ultimately show ?thesis
    using tell_many [OF assms(1) with_state_accept [OF assms(1) refl assms(3)] assms(2), where now = now] by metis
qed

section \<open>Granting\<close>

definition key_of :: "message \<Rightarrow> string" where
  "key_of m = (case m_reply_to m of None \<Rightarrow> [] | Some r \<Rightarrow> rc_key r)"

lemma by_message_known:
  assumes "m_reply_to m \<noteq> None"
  shows "by_message m cs = Inr (map_option (Pair (key_of m)) (map_of cs (key_of m)))"
  using assms by (auto simp: by_message_def message_key_def key_of_def)

lemma tell_keys: "map fst (contractors (tell now m k s)) = map fst (contractors s)"
proof -
  have "k \<in> set (map fst cs)" if "map_of cs k = Some c" for cs :: contractors and c
    using that by (metis domI dom_map_of_conv_image_fst list.set_map)
  then show ?thesis
    by (auto simp: tell_def mc_on_event_def mc_set_state_def mc_on_report_def mc_send_message_def send_message_def
        Let_def update_keys dict_simps split: option.split mc_handler.split)
qed

lemma tell_known: "map_of (contractors (tell now m k s)) x \<noteq> None \<longleftrightarrow> map_of (contractors s) x \<noteq> None"
  using tell_keys [of now m k s] by (metis map_of_eq_None_iff list.set_map)

lemma each_grants:
  "\<forall>bg \<in> set gs. m_reply_to (fst bg) \<noteq> None \<and> map_of (contractors s) (key_of (fst bg)) \<noteq> None \<Longrightarrow>
     run_each (send_grant now e) gs s =
       (None, fold (\<lambda>(k, m). tell now m k) (map (\<lambda>(b, g). (key_of b, g\<lparr>m_expires := Some e\<rparr>)) gs) s)"
proof (induction gs arbitrary: s)
  case (Cons bg gs)
  obtain b g where bg: "bg = (b, g)" by fastforce
  obtain c where c: "map_of (contractors s) (key_of b) = Some c" using Cons.prems bg by auto
  have "send_grant now e bg s = (None, tell now (g\<lparr>m_expires := Some e\<rparr>) (key_of b) s)"
    using Cons.prems bg c by (simp add: send_grant_def by_message_known)
  moreover have "\<forall>x \<in> set gs. m_reply_to (fst x) \<noteq> None \<and>
      map_of (contractors (tell now (g\<lparr>m_expires := Some e\<rparr>) (key_of b) s)) (key_of (fst x)) \<noteq> None"
    using Cons.prems by (simp only: tell_known) simp
  ultimately show ?case using Cons.IH bg by simp
qed simp

definition grantable :: "(message \<times> message) list \<Rightarrow> contractors \<Rightarrow> bool" where
  "grantable gs cs \<longleftrightarrow>
     distinct (map (key_of \<circ> fst) gs) \<and>
     (\<forall>(b, g) \<in> set gs. m_reply_to b \<noteq> None \<and> m_kind g = Grant \<and>
        map_option mc_state (map_of cs (key_of b)) = Some MBid)"

lemma mc_mapping_simps [simp]:
  "mc_mapping Rejection = Some (One [MBid] MRejected McSend)"
  "mc_mapping Grant = Some (One [MBid] MGranted McSend)"
  "mc_mapping Cancellation = Some (One [MGranted, MCompleted] MCancelled McSend)"
  "mc_mapping Acknowledgement = Some (One [MCompleted] MAcknowledged McSend)"
  "mc_mapping FinalReport = Some (One [MGranted] MCompleted McReport)"
  by (simp_all add: mc_mapping_def)

lemma new_message_kind [simp]: "m_kind (new_message k) = k"
  by (simp add: new_message_def)

lemma reject_bids_effect:
  assumes "dict_ok (contractors s)"
  shows "\<exists>l. reject_bids now s =
      s\<lparr>contractors := mark (fst ` set (with_state [MBid] (contractors s))) MRejected (contractors s), sent := sent s @ l\<rparr> \<and>
    map (\<lambda>(rs, m). (rs, m_kind m)) l = map (\<lambda>(k, c). ([mc_recipient c], Rejection)) (with_state [MBid] (contractors s))"
  using tell_with_state [OF assms, of "new_message Rejection" "[MBid]" MRejected "[MBid]" now]
  by (simp add: reject_bids_def)

text \<open>The state every contractor has after \<open>grant\<close>, and what it was told.\<close>

definition after_grant :: "string set \<Rightarrow> mcontractor \<Rightarrow> string \<Rightarrow> mcontractor" where
  "after_grant granted c k =
     (if k \<in> granted then c\<lparr>mc_state := MGranted\<rparr>
      else if mc_state c = MBid then c\<lparr>mc_state := MRejected\<rparr> else c)"

lemma with_state_mark:
  "dict_ok cs \<Longrightarrow> st' \<notin> set sts \<Longrightarrow> with_state sts (mark ks st' cs) = filter (\<lambda>(k, c). mc_state c \<in> set sts \<and> k \<notin> ks) cs"
  by (induction cs) (auto simp: with_state_def mark_def split: if_splits)

lemma grant_effect:
  assumes "state s \<in> {Some Closed, Some Announced}" and ok: "dict_ok (contractors s)"
    and g: "grantable gs (contractors s)" and "K = key_of ` fst ` set gs"
    and "manager_grant now gs s = (e, s')"
  shows "e = None" and "state s' = Some Granted"
    and "contractors s' = map (\<lambda>(k, c). (k, after_grant K c k)) (contractors s)"
    and "sent_view s' = sent_view s @ map (\<lambda>(b, _). ([recipient_at (contractors s) (key_of b)], Grant)) gs
        @ map (\<lambda>(k, c). ([mc_recipient c], Rejection)) (filter (\<lambda>(k, c). mc_state c = MBid \<and> k \<notin> K) (contractors s))"
    and "finalize_called s' = finalize_called s" and "expected_bids s' = expected_bids s"
proof -
  let ?gs = "map (\<lambda>(b, g). (b, duplicate g)) gs"
  let ?e = "now + grant_timeout s"
  define u where "u = snd (set_timeout now (Some ?e) (Some Aborted) GrantExpire (set_machine_state Granted s))"
  let ?kms = "map (\<lambda>(b, g). (key_of b, (duplicate g)\<lparr>m_expires := Some ?e\<rparr>)) gs"
  have t: "set_timeout now (Some ?e) (Some Aborted) GrantExpire (set_machine_state Granted s) = (None, u)"
    by (simp add: u_def set_timeout_def Let_def)
  have f: "contractors u = contractors s" "sent u = sent s" "state u = Some Granted"
    "finalize_called u = finalize_called s" "expected_bids u = expected_bids s"
    by (simp_all add: u_def set_timeout_def cancel_timeout_def Let_def set_machine_state_def)
  have gt: "grant_timeout (set_machine_state Granted s) = grant_timeout s"
    by (simp add: set_machine_state_def Let_def)
  have acc: "all_accept [MBid] Grant ?kms (contractors u)"
    using g by (auto simp: all_accept_def grantable_def f case_prod_unfold comp_def)
  obtain l where l: "fold (\<lambda>(k, m). tell now m k) ?kms u =
      u\<lparr>contractors := mark (fst ` set ?kms) MGranted (contractors u), sent := sent u @ l\<rparr>"
    "map (\<lambda>(rs, m). (rs, m_kind m)) l = map (\<lambda>(k, _). ([recipient_at (contractors u) k], Grant)) ?kms"
    using tell_many [OF _ acc, of MGranted now] ok f by auto
  have K: "fst ` set ?kms = K" by (simp add: assms(4) image_image case_prod_unfold)
  let ?t = "u\<lparr>contractors := mark K MGranted (contractors s), sent := sent s @ l\<rparr>"
  have each: "run_each (send_grant now ?e) ?gs u = (None, ?t)"
  proof -
    have "run_each (send_grant now ?e) ?gs u =
        (None, fold (\<lambda>(k, m). tell now m k) (map (\<lambda>(b, g). (key_of b, g\<lparr>m_expires := Some ?e\<rparr>)) ?gs) u)"
      using g by (intro each_grants) (auto simp: f grantable_def)
    moreover have "map (\<lambda>(b, g). (key_of b, g\<lparr>m_expires := Some ?e\<rparr>)) ?gs = ?kms" by auto
    ultimately show ?thesis using l(1) unfolding K f by (simp only:)
  qed
  obtain r where r: "reject_bids now ?t =
      ?t\<lparr>contractors := mark (fst ` set (with_state [MBid] (contractors ?t))) MRejected (contractors ?t), sent := sent ?t @ r\<rparr>"
    "map (\<lambda>(rs, m). (rs, m_kind m)) r = map (\<lambda>(k, c). ([mc_recipient c], Rejection)) (with_state [MBid] (contractors ?t))"
    using reject_bids_effect [of ?t now] ok by auto
  have res: "manager_grant now gs s = (None, reject_bids now ?t)"
    using assms(1) t each gt
    by (auto simp: manager_grant_def ensure_state_def cmp_state_def Let_def)
  then have e: "e = None" and s': "s' = reject_bids now ?t" using assms(5) by simp_all
  show "e = None" by (rule e)
  show "state s' = Some Granted" "finalize_called s' = finalize_called s" "expected_bids s' = expected_bids s"
    using r(1) s' f by simp_all
  have left: "with_state [MBid] (contractors ?t) = filter (\<lambda>(k, c). mc_state c = MBid \<and> k \<notin> K) (contractors s)"
    using with_state_mark [OF ok, of MGranted "[MBid]" K] by simp
  have "(k, c) \<in> set (contractors s) \<Longrightarrow> k \<in> fst ` set (with_state [MBid] (contractors ?t)) \<longleftrightarrow> mc_state c = MBid \<and> k \<notin> K" for k c
    unfolding left by (auto simp: image_iff dest: eq_key_imp_eq_value [OF ok])
  then show "contractors s' = map (\<lambda>(k, c). (k, after_grant K c k)) (contractors s)"
    using r(1) s' by (auto simp: mark_def after_grant_def)
  have "map (\<lambda>(k, _). ([recipient_at (contractors u) k], Grant)) ?kms =
      map (\<lambda>(b, _). ([recipient_at (contractors s) (key_of b)], Grant)) gs"
    using f by auto
  then show "sent_view s' = sent_view s @ map (\<lambda>(b, _). ([recipient_at (contractors s) (key_of b)], Grant)) gs
        @ map (\<lambda>(k, c). ([mc_recipient c], Rejection)) (filter (\<lambda>(k, c). mc_state c = MBid \<and> k \<notin> K) (contractors s))"
    using r s' l(2) left by (simp add: sent_view_def)
qed

section \<open>Completion\<close>

lemma update_twice: "AList.update k v (AList.update k w d) = AList.update k v d"
  by (induction d) auto

lemma on_report_tell:
  assumes ok: "dict_ok (contractors s)" and c: "map_of (contractors s) k = Some c" "mc_state c = MGranted"
    and m: "m_kind m = FinalReport"
  shows "tell now m k s = s\<lparr>contractors := AList.update k (c\<lparr>mc_state := MCompleted, mc_report := Some m\<rparr>) (contractors s)\<rparr>"
proof -
  have "event_handler mc_mapping (m_kind m) (Some (mc_state c)) = Some (MCompleted, McReport)"
    using m c(2) by (simp add: event_handler_def cmp_state_def)
  then show ?thesis
    using c(1)
    by (simp add: tell_def mc_on_event_def mc_set_state_def mc_on_report_def dict_simps update_twice)
qed

lemma finalize_state [simp]: "state (finalize r s) = state s" "sent (finalize r s) = sent s"
    "agent_log (finalize r s) = agent_log s"
  using same_coreD [OF finalize_view] by auto

lemma finalize_manager [simp]: "contractors (finalize r s) = contractors s"
proof -
  have "middle.more (finalize r s) = middle.more s" using same_coreD [OF finalize_view] by auto
  then show ?thesis by (cases s; cases "finalize r s") simp
qed

lemma report_effect:
  assumes "state s = Some Granted" and "\<not> finalize_called s" and ok: "dict_ok (contractors s)"
    and m: "m_kind m = FinalReport" "m_reply_to m \<noteq> None" "key_of m = k"
    and k: "map_of (contractors s) k = Some c" "mc_state c = MGranted"
    and only: "\<forall>(k', c') \<in> set (contractors s). mc_state c' = MGranted \<longrightarrow> k' = k"
    and cs: "cs = AList.update k (c\<lparr>mc_state := MCompleted, mc_report := Some m\<rparr>) (contractors s)"
    and run: "manager_on_message now m [] (Returns r) s = (e, s')"
  shows "e = None" and "state s' = Some Completed" and "result s' = Some r" and "\<not> timeout_active s'"
    and "contractors s' = mark (fst ` set (with_state [MCompleted] cs)) MAcknowledged cs"
    and "sent_view s' = sent_view s @ map (\<lambda>(_, c). ([mc_recipient c], Acknowledgement)) (with_state [MCompleted] cs)"
    and "agent_log s' = agent_log s @ [CallCompleted (List.map_filter (\<lambda>(_, c). mc_report c) (with_state [MCompleted] cs))]"
proof -
  let ?g = "set_machine_state Granted s"
  define t where "t = s\<lparr>contractors := cs\<rparr>"
  have g: "?g\<lparr>contractors := cs\<rparr> = set_machine_state Granted t"
    using assms(1) by (simp add: t_def set_machine_state_def Let_def)
  have tell: "tell now m k ?g = set_machine_state Granted t"
    using on_report_tell [of ?g k c m now] ok k m g cs by simp
  have okc: "dict_ok cs" using ok cs by simp
  have none: "with_state [MGranted] cs = []"
  proof -
    have "mc_state c' \<noteq> MGranted" if "(k', c') \<in> set cs" for k' c'
      using that only cs update_as_map [OF ok k(1)] by (auto split: if_splits)
    then show ?thesis by (auto simp: with_state_def filter_empty_conv)
  qed
  define u where "u = cancel_timeout (set_machine_state Completed (set_machine_state Granted t))"
  have u: "contractors u = cs" "sent u = sent s" "state u = Some Completed" "finalize_called u = finalize_called s"
    "agent_log u = agent_log s" "timeout u = None"
    by (simp_all add: u_def t_def cancel_timeout_def)
  obtain l where l: "fold (\<lambda>(k, _). tell now (new_message Acknowledgement) k) (with_state [MCompleted] cs) u =
      u\<lparr>contractors := mark (fst ` set (with_state [MCompleted] cs)) MAcknowledged cs, sent := sent u @ l\<rparr>"
    "map (\<lambda>(rs, m). (rs, m_kind m)) l = map (\<lambda>(k, c). ([mc_recipient c], Acknowledgement)) (with_state [MCompleted] cs)"
    using tell_with_state [of u "new_message Acknowledgement" "[MCompleted]" MAcknowledged "[MCompleted]" now] okc u by auto
  let ?v = "(u\<lparr>contractors := mark (fst ` set (with_state [MCompleted] cs)) MAcknowledged cs, sent := sent u @ l\<rparr>)
      \<lparr>agent_log := agent_log u @ [CallCompleted (List.map_filter (\<lambda>(_, c). mc_report c) (with_state [MCompleted] cs))]\<rparr>"
  have "event_handler manager_mapping (m_kind m) (state s) = Some (Granted, MOnReport)"
    using m assms(1) by (simp add: event_handler_def manager_mapping_def cmp_state_def)
  moreover have "by_message m (contractors ?g) = Inr (Some (k, c))"
    using m k by (simp add: by_message_known)
  moreover have "on_complete now [] (Returns r) (set_machine_state Granted t) = (None, finalize r ?v)"
    using l(1) u by (simp add: on_complete_def ensure_state_def cmp_state_def Let_def u_def t_def)
  ultimately have "manager_on_message now m [] (Returns r) s = (None, finalize r ?v)"
    using tell none by (simp add: manager_on_message_def manager_handle_def on_report_def Let_def t_def)
  then have e: "e = None" and s': "s' = finalize r ?v" using run by simp_all
  have nf: "\<not> finalize_called ?v" using u assms(2) by simp
  show "e = None" "state s' = Some Completed" "result s' = Some r" "\<not> timeout_active s'"
    "contractors s' = mark (fst ` set (with_state [MCompleted] cs)) MAcknowledged cs"
    "agent_log s' = agent_log s @ [CallCompleted (List.map_filter (\<lambda>(_, c). mc_report c) (with_state [MCompleted] cs))]"
    using e u finalize_fields [OF nf] by (simp_all add: s' timeout_active_def)
  show "sent_view s' = sent_view s @ map (\<lambda>(_, c). ([mc_recipient c], Acknowledgement)) (with_state [MCompleted] cs)"
    using l(2) u by (simp add: s' sent_view_def)
qed

section \<open>Cancelling\<close>

lemma cancel_loop_fold: "snd (cancel_loop now c ks p s) = fold (tell now c) ks s"
proof (induction ks arbitrary: p s)
  case (Cons k ks)
  then show ?case by (cases "mc_on_event now c k s") (simp add: tell_def)
qed simp

lemma cancel_loop_Nil: "fst (cancel_loop now c ks p s) = None \<longleftrightarrow> ks = [] \<and> p = None"
proof (induction ks arbitrary: p s)
  case (Cons k ks)
  then show ?case by (cases "mc_on_event now c k s") simp
qed simp

lemma with_state_mark_all:
  "dict_ok cs \<Longrightarrow> st \<notin> set sts \<Longrightarrow> with_state sts (mark (fst ` set (with_state sts cs)) st cs) = []"
proof -
  assume ok: "dict_ok cs" and st: "st \<notin> set sts"
  have "k \<in> fst ` set (with_state sts cs)" if "(k, c) \<in> set cs" "mc_state c \<in> set sts" for k c
    using that by (force simp: with_state_def)
  then show ?thesis unfolding with_state_mark [OF ok st] by (auto simp: filter_empty_conv)
qed

lemma manager_cancel_state:
  assumes ok: "dict_ok (contractors s)" and st: "state s \<in> {Some Granted, Some Cancelled}"
  shows "state (snd (manager_cancel now r s)) = Some Cancelled"
    and "with_state [MGranted, MCompleted] (contractors (snd (manager_cancel now r s))) = []"
    and "dict_ok (contractors (snd (manager_cancel now r s)))"
proof -
  let ?s = "set_machine_state Cancelled s"
  let ?m = "(new_message Cancellation)\<lparr>m_reason := r\<rparr>"
  let ?ks = "map fst (with_state [MGranted, MCompleted] (contractors s))"
  obtain l where l: "fold (\<lambda>(k, _). tell now ?m k) (with_state [MGranted, MCompleted] (contractors ?s)) ?s =
      ?s\<lparr>contractors := mark (fst ` set (with_state [MGranted, MCompleted] (contractors ?s))) MCancelled (contractors ?s), sent := sent ?s @ l\<rparr>"
    using tell_with_state [of ?s ?m "[MGranted, MCompleted]" MCancelled "[MGranted, MCompleted]" now] ok by auto
  define u where "u = fold (\<lambda>(k, _). tell now ?m k) (with_state [MGranted, MCompleted] (contractors s)) ?s"
  have u: "state u = Some Cancelled" "contractors u = mark (fst ` set (with_state [MGranted, MCompleted] (contractors s))) MCancelled (contractors s)"
    using l by (simp_all add: u_def)
  have f: "snd (cancel_loop now ?m ?ks None ?s) = u"
    unfolding cancel_loop_fold u_def by (simp add: fold_map comp_def case_prod_unfold)
  have "\<exists>e. manager_cancel now r s = (e, u) \<or> (\<exists>c. manager_cancel now r s = run_and_terminate (CallCancelled c) [Cancelled] None u)"
    using st f
    by (cases "cancel_loop now ?m ?ks None ?s")
       (auto simp: manager_cancel_def ensure_state_def cmp_state_def Let_def split: option.split)
  moreover have "contractors (snd (run_and_terminate c e p u)) = contractors u" "state (snd (run_and_terminate c e p u)) = state u" for c e p
    by (simp_all add: run_and_terminate_def call_agent_side_def)
  ultimately have "state (snd (manager_cancel now r s)) = state u" "contractors (snd (manager_cancel now r s)) = contractors u"
    by (metis snd_conv)+
  then show "state (snd (manager_cancel now r s)) = Some Cancelled"
    "with_state [MGranted, MCompleted] (contractors (snd (manager_cancel now r s))) = []"
    "dict_ok (contractors (snd (manager_cancel now r s)))"
    using u with_state_mark_all [OF ok, of MCancelled "[MGranted, MCompleted]"] ok by simp_all
qed

lemma cancel_nothing:
  "state s = Some Cancelled \<Longrightarrow> with_state [MGranted, MCompleted] (contractors s) = [] \<Longrightarrow>
     manager_cancel now r s = (Some UnboundLocalError, set_machine_state Cancelled s)"
  by (simp add: manager_cancel_def ensure_state_def cmp_state_def Let_def)

text \<open>Cancelling a contract a second time raises.  Whatever \<open>cancel\<close> did in state granted or
  cancelled, the next \<open>cancel\<close> finds nobody to cancel, uses the unbound variable of its loop and
  raises \<open>UnboundLocalError\<close> without sending or starting anything.\<close>

theorem second_cancel_raises:
  assumes "dict_ok (contractors s)" and "state s \<in> {Some Granted, Some Cancelled}"
    and "manager_cancel now r s = (e, s1)" and "manager_cancel now' r' s1 = (e', s2)"
  shows "e' = Some UnboundLocalError \<and> sent s2 = sent s1 \<and> jobs s2 = jobs s1"
proof -
  have s1: "s1 = snd (manager_cancel now r s)" using assms(3) by simp
  have "manager_cancel now' r' s1 = (Some UnboundLocalError, set_machine_state Cancelled s1)"
    unfolding s1 by (rule cancel_nothing) (rule manager_cancel_state [OF assms(1, 2)])+
  then show ?thesis using assms(4) by simp
qed

text \<open>A cancellation from somebody who never bid strands a granted contract.  The manager is cancelled
  before the sender is looked up: no contractor is told, no method of the agent runs, and the reports of the
  contractors that hold grants are ignored from then on.\<close>

theorem stray_cancellation_strands:
  assumes "state s = Some Granted" and "m_kind m = Cancellation" and "m_reply_to m \<noteq> None"
    and "map_of (contractors s) (key_of m) = None" and "m_kind report = FinalReport"
    and "manager_on_message now m cmds reply s = (e, s1)" and "manager_on_message later report cmds' reply' s1 = (e', s2)"
  shows "e = None \<and>
    s1 = set_machine_state Cancelled s \<and>
    e' = None \<and>
    s2 = s1"
proof (intro conjI)
  have "manager_on_message now m cmds reply s = (None, set_machine_state Cancelled s)"
    using assms(1-4)
    by (simp add: manager_on_message_def event_handler_def manager_mapping_def cmp_state_def manager_handle_def
        on_cancel_def by_message_known)
  then show s1: "e = None" "s1 = set_machine_state Cancelled s" using assms(6) by simp_all
  have "manager_on_message later report cmds' reply' s1 = (None, s1)"
    using assms(5) by (simp add: s1 manager_on_message_def event_handler_def manager_mapping_def cmp_state_def)
  then show "e' = None" "s2 = s1" using assms(7) by simp_all
qed

section \<open>The announcement\<close>

lemma recipient_of_some: "m_reply_to m \<noteq> None \<Longrightarrow> \<exists>r. recipient_of m = Inr r \<and> rc_key r = key_of m"
  by (auto simp: recipient_of_def key_of_def agent_recipient_def)

lemma update_new: "map_of d k = None \<Longrightarrow> AList.update k v d = d @ [(k, v)]"
  by (induction d) (auto split: if_splits)

lemma register_new:
  assumes "m_reply_to m \<noteq> None" and "map_of (contractors s) (key_of m) = None"
  shows "\<exists>c. mc_state c = st \<and> mc_bid c = m \<and>
    register_contractor m st s = (None, s\<lparr>contractors := contractors s @ [(key_of m, c)]\<rparr>)"
proof -
  obtain r where r: "recipient_of m = Inr r" "rc_key r = key_of m" using recipient_of_some [OF assms(1)] by blast
  show ?thesis
    by (rule exI [of _ "\<lparr>mc_state = st, mc_bid = m, mc_report = None, mc_recipient = r\<rparr>"])
       (simp add: register_contractor_def r assms(2) update_new)
qed

lemma max_expiration_some: "Some t \<in> set ts \<Longrightarrow> max_expiration ts \<noteq> None"
  by (induction ts rule: max_expiration.induct) (auto split: option.split)

lemma goto_state:
  assumes "\<not> finalize_called s" and exps: "\<forall>(k, c) \<in> set (contractors s). m_expires (mc_bid c) \<noteq> None"
  shows "fst (goto_closed_or_expired now s) = None"
    and "state (snd (goto_closed_or_expired now s)) = (if with_state [MBid] (contractors s) = [] then Some Expired else Some Closed)"
    and "contractors (snd (goto_closed_or_expired now s)) = contractors s"
    and "sent (snd (goto_closed_or_expired now s)) = sent s"
    and "with_state [MBid] (contractors s) = [] \<Longrightarrow> timeout (snd (goto_closed_or_expired now s)) = timeout s"
proof -
  have b: "bids_expiration (contractors s) \<noteq> None" if ne: "with_state [MBid] (contractors s) \<noteq> []"
  proof -
    obtain k c where kc: "(k, c) \<in> set (with_state [MBid] (contractors s))" using ne by (cases "with_state [MBid] (contractors s)") auto
    then obtain t where "m_expires (mc_bid c) = Some t" using exps by (auto simp: with_state_def)
    then have "Some t \<in> (\<lambda>(_, c). m_expires (mc_bid c)) ` set (with_state [MBid] (contractors s))" using kc by force
    then show ?thesis unfolding bids_expiration_def by (intro max_expiration_some) auto
  qed
  then have b': "with_state [MBid] (contractors s) = [] \<or> bids_expiration (contractors s) \<noteq> None" by blast
  show "fst (goto_closed_or_expired now s) = None"
    "state (snd (goto_closed_or_expired now s)) = (if with_state [MBid] (contractors s) = [] then Some Expired else Some Closed)"
    "contractors (snd (goto_closed_or_expired now s)) = contractors s"
    "sent (snd (goto_closed_or_expired now s)) = sent s"
    "with_state [MBid] (contractors s) = [] \<Longrightarrow> timeout (snd (goto_closed_or_expired now s)) = timeout s"
    using b' assms(1)
    by (auto simp: goto_closed_or_expired_def close_announce_period_def run_and_terminate_def call_agent_side_def
        set_timeout_def cancel_timeout_def Let_def split: option.split)
qed

lemma check_goto_waits:
  "state s = Some Announced \<Longrightarrow> expected_bids s = Some n \<Longrightarrow> n \<noteq> 0 \<Longrightarrow>
     check_goto_close now s =
       (if length (contractors s) < n then (None, s) else goto_closed_or_expired now (cancel_timeout s))"
  by (simp add: check_goto_close_def cmp_state_def)


end
