(* ===== verification/ContractorSafety.thy ===== *)
theory ContractorSafety
  imports Contractor
begin

text \<open>
  The protocol a contractor follows.  \<open>contractor_edge\<close> are the changes of state there are,
  \<open>script\<close> gives for every state the kinds of the messages sent on the way to it.  Both hold in
  every history in which the agency initiates the medium once and does not clean it up, and the
  agent hands bids to \<open>bid\<close>, refusals to \<open>refuse\<close> and so on; the manager may send anything at
  any time, and the jobs and the timeout may run in any order.
\<close>

section \<open>States\<close>

definition final_states :: "contract_state set" where
  "final_states = {Closed, Refused, Delegated, Rejected, Expired, Defected, Cancelled, Acknowledged, Aborted, Wtf}"

definition is_final :: "contract_state option \<Rightarrow> bool" where
  "is_final st \<longleftrightarrow> (case st of None \<Rightarrow> False | Some x \<Rightarrow> x \<in> final_states)"

lemma is_final_simps [simp]:
  "\<not> is_final None" "is_final (Some st) \<longleftrightarrow> st \<in> final_states"
  by (simp_all add: is_final_def)

text \<open>The last three edges but one are the timeout of the bid, the grant or the report firing
  while the agent is still handling the message that ended the contract.\<close>

inductive contractor_edge :: "contract_state option \<Rightarrow> contract_state \<Rightarrow> bool" where
  "contractor_edge None Initiated"
| "contractor_edge (Some Initiated) Announced"
| "st \<in> {BidPut, Delegated, Refused, Closed} \<Longrightarrow> contractor_edge (Some Announced) st"
| "st \<in> {Rejected, Granted, Expired} \<Longrightarrow> contractor_edge (Some BidPut) st"
| "st \<in> {Completed, Defected, Cancelled, Expired} \<Longrightarrow> contractor_edge (Some Granted) st"
| "st \<in> {Acknowledged, Aborted} \<Longrightarrow> contractor_edge (Some Completed) st"
| "contractor_edge (Some Rejected) Expired"
| "contractor_edge (Some Cancelled) Expired"
| "contractor_edge (Some Acknowledged) Aborted"
| "contractor_edge st Wtf"

inductive_simps contractor_edge_simps [simp]:
  "contractor_edge None st" "contractor_edge (Some Announced) st" "contractor_edge (Some BidPut) st"
  "contractor_edge (Some Granted) st" "contractor_edge (Some Completed) st" "contractor_edge (Some Initiated) st"
  "contractor_edge (Some Rejected) st" "contractor_edge (Some Cancelled) st" "contractor_edge (Some Acknowledged) st"
  "contractor_edge st' Wtf"

fun script :: "contract_state option \<Rightarrow> kind list list" where
  "script None = [[]]"
| "script (Some Initiated) = [[]]"
| "script (Some Announced) = [[]]"
| "script (Some Closed) = [[]]"
| "script (Some Refused) = [[Refusal]]"
| "script (Some Completed) = [[Bid, FinalReport]]"
| "script (Some Acknowledged) = [[Bid, FinalReport]]"
| "script (Some Aborted) = [[Bid, FinalReport]]"
| "script (Some Defected) = [[Bid, Cancellation]]"
| "script (Some Wtf) = [[], [Bid], [Refusal], [Bid, FinalReport], [Bid, Cancellation]]"
| "script (Some Terminated) = []"
| "script (Some NoRequest) = []"
| "script (Some Requested) = []"
| "script (Some _) = [[Bid]]"

lemma script_Wtf: "ks \<in> set (script st) \<Longrightarrow> ks \<in> set (script (Some Wtf))"
  by (cases "(st, ks)" rule: prod.exhaust, cases st rule: script.cases) auto

definition sent_kinds :: "'a middle_scheme \<Rightarrow> kind list" where
  "sent_kinds s = map (\<lambda>(_, m). m_kind m) (sent s)"

section \<open>Invariant\<close>

definition timer_fits :: "contract_state option \<Rightarrow> timer \<Rightarrow> bool" where
  "timer_fits st t \<longleftrightarrow>
     ((\<exists>c. t_target t = RunAndTerminate c) \<and>
      (case t_state t of
         Some Closed \<Rightarrow> st = Some Announced
       | Some Expired \<Rightarrow> st \<in> {Some BidPut, Some Rejected, Some Granted, Some Cancelled}
       | Some Aborted \<Rightarrow> st \<in> {Some Completed, Some Acknowledged, Some Aborted}
       | _ \<Rightarrow> False))"

definition plan_ok :: "contract_state option \<Rightarrow> target \<times> contract_state list \<times> tail \<times> nat option \<Rightarrow> bool" where
  "plan_ok st j \<longleftrightarrow>
     (case j of
        (Agent c, _, t, _) \<Rightarrow> t = NoTail \<or> is_final st
      | (RunAndTerminate c, _, _, _) \<Rightarrow> is_final st
      | _ \<Rightarrow> False)"

definition contractor_inv :: "contractor \<Rightarrow> bool" where
  "contractor_inv s \<longleftrightarrow>
     middle_inv s \<and>
     (\<forall>t. timeout s = Some t \<longrightarrow> t_active t \<longrightarrow> \<not> finalize_called s \<and> timer_fits (state s) t) \<and>
     (finalize_called s \<longrightarrow> is_final (state s)) \<and>
     (\<forall>j \<in> set (job_plan s). plan_ok (state s) j) \<and>
     sent_kinds s \<in> set (script (state s))"

lemma contractor_invD:
  assumes "contractor_inv s"
  shows "middle_inv s" and "timeout s = Some t \<Longrightarrow> t_active t \<Longrightarrow> \<not> finalize_called s \<and> timer_fits (state s) t"
    and "finalize_called s \<Longrightarrow> is_final (state s)" and "j \<in> set (job_plan s) \<Longrightarrow> plan_ok (state s) j"
    and "sent_kinds s \<in> set (script (state s))"
  using assms by (auto simp: contractor_inv_def)

lemma plan_ok_final: "plan_ok st j \<Longrightarrow> is_final st' \<Longrightarrow> plan_ok st' j"
  by (cases j; cases "fst j") (auto simp: plan_ok_def)

lemma plan_ok_moves: "plan_ok st j \<Longrightarrow> (is_final st \<Longrightarrow> is_final st') \<Longrightarrow> plan_ok st' j"
  by (cases j; cases "fst j") (auto simp: plan_ok_def)

text \<open>Everything an operation can do while the state stays or becomes \<open>Wtf\<close>.\<close>

lemma contractor_inv_ends:
  assumes inv: "contractor_inv s" and e: "ends s s'" and "middle_inv s'"
    and fin: "finalize_called s' \<Longrightarrow> finalize_called s \<or> is_final (state s')"
  shows "contractor_inv s'"
proof -
  have st: "state s' = state s \<or> state s' = Some Wtf \<and> finalize_called s'" using e by (simp add: ends_def)
  have fin': "is_final (state s')" if "finalize_called s'"
    using fin [OF that] contractor_invD(3) [OF inv] st by (auto simp: final_states_def)
  have tm: "\<not> finalize_called s' \<and> timer_fits (state s') t" if t: "timeout s' = Some t" "t_active t" for t
  proof -
    have same: "same_end s s'" using e t by (auto simp: ends_def)
    then have "timeout s = Some t" using t by (simp add: same_end_def)
    then have "\<not> finalize_called s" "timer_fits (state s) t" using contractor_invD(2) [OF inv] t(2) by blast+
    moreover have "\<not> finalize_called s'" using same calculation(1) by (simp add: same_end_def)
    ultimately show ?thesis using st by auto
  qed
  have plan: "plan_ok (state s') j" if "j \<in> set (job_plan s')" for j
  proof -
    have "plan_ok (state s) j" using contractor_invD(4) [OF inv] that e by (simp add: ends_def)
    then show ?thesis by (rule plan_ok_moves) (use st in \<open>auto simp: final_states_def\<close>)
  qed
  have "sent_kinds s' = sent_kinds s" using e by (simp add: ends_def sent_kinds_def)
  then have script: "sent_kinds s' \<in> set (script (state s'))"
    using contractor_invD(5) [OF inv] st script_Wtf by metis
  show ?thesis unfolding contractor_inv_def
    using assms(3) tm fin' plan script by blast
qed

lemma ends_edge: "ends s s' \<Longrightarrow> state s' = state s \<or> (\<exists>st. state s' = Some st \<and> contractor_edge (state s) st)"
  by (auto simp: ends_def)

lemma job_finish_finalizes:
  assumes "\<not> finalize_called s" and "finalize_called (job_finish i r s)"
  shows "state (job_finish i r s) = Some Wtf \<or> j_tail (jobs s ! i) \<noteq> NoTail"
proof (cases "is_failure r \<and> r \<noteq> CancelledError \<and> r \<noteq> ProtocolExpired")
  case True
  let ?s = "error_handler r s"
  have "state ?s = Some Wtf" 
    using True same_coreD [OF finalize_view [of "set_machine_state Wtf s" r]]
    by (simp add: error_handler_def error_state_def)
  moreover have "ends ?s (job_finish i r s)"
    unfolding job_finish_def Let_def using True
    by (simp add: ends_trans [OF ends_trans [OF ends_set_stage ends_remove] ends_trans [OF ends_tail ends_parent]])
  ultimately show ?thesis by (auto simp: ends_def)
next
  case False
  then have "\<not> finalize_called (remove_agent_job i (set_stage i Ended (if is_failure r then error_handler r s else s)))"
    using assms(1) by (auto simp: error_handler_def)
  then have "j_tail (jobs s ! i) \<noteq> NoTail"
    using assms(2) by (auto simp: job_finish_def Let_def run_tail_def end_parent_def split: option.splits)
  then show ?thesis ..
qed

lemma plan_of: "i < length (jobs s) \<Longrightarrow>
    (j_target (jobs s ! i), j_ensure (jobs s ! i), j_tail (jobs s ! i), j_parent (jobs s ! i)) \<in> set (job_plan s)"
  by (simp add: job_plan_def)

lemma contractor_inv_job_finish:
  assumes inv: "contractor_inv s" and i: "i < length (jobs s)"
  shows "contractor_inv (job_finish i r s)"
proof (rule contractor_inv_ends [OF inv ends_job_finish])
  show "middle_inv (job_finish i r s)" by (rule middle_inv_job_finish [OF contractor_invD(1) [OF inv]])
  assume fin: "finalize_called (job_finish i r s)"
  have "is_final (state s)" if "j_tail (jobs s ! i) \<noteq> NoTail"
    using contractor_invD(4) [OF inv plan_of [OF i]] that
    by (auto simp: plan_ok_def split: target.splits)
  moreover have "state (job_finish i r s) = state s \<or> state (job_finish i r s) = Some Wtf"
    using ends_job_finish [of s i r] by (auto simp: ends_def)
  moreover have "is_final (Some Wtf)" by (simp add: final_states_def)
  ultimately show "finalize_called s \<or> is_final (state (job_finish i r s))"
    using job_finish_finalizes [OF _ fin] by metis
qed

lemma contractor_inv_stage: "contractor_inv s \<Longrightarrow> st \<noteq> Queued \<Longrightarrow> contractor_inv (set_stage i st s)"
  using same_endD [OF set_stage_same(2) [of s i st]]
  by (intro contractor_inv_ends [OF _ ends_set_stage]) (auto intro: inv_intros dest: contractor_invD(1))

lemma contractor_inv_log: "contractor_inv s \<Longrightarrow> contractor_inv (s\<lparr>agent_log := l\<rparr>)"
  using middle_inv_log [of s l] by (simp add: contractor_inv_def job_plan_def sent_kinds_def)

lemma job_plan_call:
  "job_plan (snd (call_agent_side t e tt p s)) =
     (if finalize_called s then job_plan s else job_plan s @ [(t, e, tt, p)])"
  by (simp add: call_agent_side_def job_plan_def)

lemma call_fields [simp]:
  "state (snd (call_agent_side t e tt p s)) = state s"
  "timeout (snd (call_agent_side t e tt p s)) = timeout s"
  "finalize_called (snd (call_agent_side t e tt p s)) = finalize_called s"
  "sent (snd (call_agent_side t e tt p s)) = sent s"
  by (simp_all add: call_agent_side_def)

lemma contractor_inv_call:
  assumes "contractor_inv s" and "plan_ok (state s) (t, e, tt, p)"
  shows "contractor_inv (snd (call_agent_side t e tt p s))"
  using assms middle_inv_call [of s t e tt p]
  by (auto simp: contractor_inv_def job_plan_call sent_kinds_def)

lemma contractor_inv_run_job:
  assumes inv: "contractor_inv s"
  shows "contractor_inv (run_job no_own i s)"
proof (cases "i < length (jobs s) \<and> stage_of i s = Queued")
  case True
  have p: "plan_ok (state s) (j_target (jobs s ! i), j_ensure (jobs s ! i), j_tail (jobs s ! i), j_parent (jobs s ! i))"
    using contractor_invD(4) [OF inv plan_of] True by blast
  have fin: "contractor_inv (job_finish i r s)" for r using contractor_inv_job_finish [OF inv] True by blast
  show ?thesis
  proof (cases "j_target (jobs s ! i)")
    case (Agent c)
    then show ?thesis
      using True fin contractor_inv_stage [OF contractor_inv_log [OF inv]] by (simp add: run_job_def Let_def)
  next
    case (RunAndTerminate c)
    let ?w = "set_stage i Waiting s"
    have W: "contractor_inv ?w" by (simp add: contractor_inv_stage inv)
    have "is_final (state ?w)" using p RunAndTerminate same_coreD [OF set_stage_same(1) [of s i Waiting]] by (simp add: plan_ok_def)
    then have R: "contractor_inv (snd (run_and_terminate c [] (Some i) ?w))"
      unfolding run_and_terminate_def by (intro contractor_inv_call [OF W]) (simp add: plan_ok_def)
    obtain x t where xt: "run_and_terminate c [] (Some i) ?w = (x, t)" by fastforce
    have "i < length (jobs t)" using xt True by (auto simp: run_and_terminate_def call_agent_side_def split: if_splits)
    then have "contractor_inv (job_finish i r t)" for r using contractor_inv_job_finish R xt by auto
    then show ?thesis using True fin R xt RunAndTerminate by (simp add: run_job_def Let_def split: option.split)
  qed (use p in \<open>simp_all add: plan_ok_def\<close>)
next
  case False
  then show ?thesis using inv by (auto simp: run_job_def)
qed

text \<open>An operation that changes state, sends or sets the timeout.\<close>

lemma contractor_inv_enter:
  assumes inv: "contractor_inv s" and "middle_inv s'" "job_plan s' = job_plan s"
    and "finalize_called s' = finalize_called s" and "is_final (state s) \<Longrightarrow> is_final (state s')"
    and "\<And>t. timeout s' = Some t \<Longrightarrow> t_active t \<Longrightarrow> \<not> finalize_called s' \<and> timer_fits (state s') t"
    and "sent_kinds s' \<in> set (script (state s'))"
  shows "contractor_inv s'"
proof -
  have "plan_ok (state s') j" if "j \<in> set (job_plan s')" for j
    by (rule plan_ok_moves [OF contractor_invD(4) [OF inv]]) (use that assms(3, 5) in auto)
  moreover have "is_final (state s')" if "finalize_called s'"
    using that assms(4, 5) contractor_invD(3) [OF inv] by simp
  ultimately show ?thesis using assms(2, 6, 7) unfolding contractor_inv_def by blast
qed

lemma not_finalized: "contractor_inv s \<Longrightarrow> \<not> is_final (state s) \<Longrightarrow> \<not> finalize_called s"
  using contractor_invD(3) by blast

lemma contractor_inv_finalize:
  assumes inv: "contractor_inv s" and "is_final (state s)"
  shows "contractor_inv (finalize r s)"
  using assms(2) same_coreD [OF finalize_view [of s r]]
  by (intro contractor_inv_ends [OF inv ends_finalize] middle_inv_finalize contractor_invD(1) [OF inv]) simp

section \<open>Events of a well behaved agency and agent\<close>

fun contractor_allowed :: "contractor_event \<Rightarrow> contractor \<Rightarrow> bool" where
  "contractor_allowed CInitiate s = (state s = None)"
| "contractor_allowed (CBid _ m) s = (m_kind m = Bid)"
| "contractor_allowed (CHandover m) s = (m_kind m = Bid \<and> m_expires m \<noteq> None)"
| "contractor_allowed (CRefuse _ m) s = (m_kind m = Refusal)"
| "contractor_allowed (CDefect _ m) s = (m_kind m = Cancellation)"
| "contractor_allowed (CComplete _ m) s = (m_kind m = FinalReport)"
| "contractor_allowed CCleanup s = False"
| "contractor_allowed _ s = True"

inductive contractor_reaches :: "contractor \<Rightarrow> contractor \<Rightarrow> bool" where
  start: "contractor_reaches s s"
| step: "contractor_reaches s t \<Longrightarrow> contractor_allowed e t \<Longrightarrow> contractor_reaches s (contractor_step e t)"

definition moves :: "contractor \<Rightarrow> contractor \<Rightarrow> bool" where
  "moves s s' \<longleftrightarrow> state s' = state s \<or> (\<exists>st. state s' = Some st \<and> contractor_edge (state s) st)"

lemma ensure_Announced: "ensure_state [x] s \<longleftrightarrow> state s = Some x"
  by (auto simp: ensure_state_def cmp_state_def split: option.split)

lemma set_timeout_fields:
  "state (snd (set_timeout now e st t s)) = state s" "sent (snd (set_timeout now e st t s)) = sent s"
  "finalize_called (snd (set_timeout now e st t s)) = finalize_called s"
  "job_plan (snd (set_timeout now e st t s)) = job_plan s"
  "timeout (snd (set_timeout now e st t s)) =
     map_option (\<lambda>x. \<lparr>t_at = now + max 0 (x - now), t_state = st, t_target = t, t_active = True\<rparr>) e"
  by (simp_all add: set_timeout_def cancel_timeout_def Let_def split: option.split)

lemma contractor_inv_set_timeout:
  assumes "contractor_inv s" and "\<not> finalize_called s"
    and "\<And>x. timer_fits (state s) \<lparr>t_at = x, t_state = st, t_target = t, t_active = True\<rparr>"
  shows "contractor_inv (snd (set_timeout now e st t s))"
  using assms by (intro contractor_inv_enter [OF assms(1)])
    (auto simp: set_timeout_fields sent_kinds_def intro: inv_intros dest: contractor_invD(1, 5))

text \<open>Entering a state while no message is sent; the timeout that runs must fit the new state.\<close>

lemma contractor_inv_state:
  assumes inv: "contractor_inv s" and "is_final (state s) \<Longrightarrow> st \<in> final_states"
    and "set (script (state s)) \<subseteq> set (script (Some st))"
    and "\<And>t. timeout s = Some t \<Longrightarrow> t_active t \<Longrightarrow> timer_fits (state s) t \<Longrightarrow> timer_fits (Some st) t"
  shows "contractor_inv (set_machine_state st s)"
proof (rule contractor_inv_enter [OF inv])
  show "sent_kinds (set_machine_state st s) \<in> set (script (state (set_machine_state st s)))"
    using contractor_invD(5) [OF inv] assms(3) by (auto simp: sent_kinds_def)
  fix t assume "timeout (set_machine_state st s) = Some t" "t_active t"
  then show "\<not> finalize_called (set_machine_state st s) \<and> timer_fits (state (set_machine_state st s)) t"
    using contractor_invD(2) [OF inv] assms(4) by simp
qed (use assms in \<open>simp_all add: inv_intros contractor_invD(1)\<close>)

text \<open>A message the agent sends with a change of state that replaces or drops the timeout.\<close>

definition enter_and_send :: "contract_state \<Rightarrow> recipient list \<Rightarrow> message \<Rightarrow> contractor \<Rightarrow> contractor" where
  "enter_and_send st rs m s = (set_machine_state st s)\<lparr>sent := sent s @ [(rs, m)]\<rparr>"

lemma send_message_enter:
  "\<exists>rs m'. m_kind m' = m_kind m \<and>
     send_message now m e r remote (set_machine_state st s) = (m', enter_and_send st rs m' s)"
  by (auto simp: send_message_def Let_def enter_and_send_def split: option.split)

lemma enter_and_send_fields [simp]:
  "state (enter_and_send st rs m s) = Some st" "timeout (enter_and_send st rs m s) = timeout s"
  "finalize_called (enter_and_send st rs m s) = finalize_called s"
  "job_plan (enter_and_send st rs m s) = job_plan s"
  "sent_kinds (enter_and_send st rs m s) = sent_kinds s @ [m_kind m]"
  by (simp_all add: enter_and_send_def sent_kinds_def)

lemma middle_inv_enter_and_send: "middle_inv s \<Longrightarrow> middle_inv (enter_and_send st rs m s)"
  by (simp add: enter_and_send_def inv_intros)

lemma contractor_inv_send_finalize:
  assumes inv: "contractor_inv s" and "\<not> is_final (state s)" and "st \<in> final_states"
    and script: "\<And>ks. ks \<in> set (script (state s)) \<Longrightarrow> ks @ [m_kind m] \<in> set (script (Some st))"
  shows "contractor_inv (finalize r (enter_and_send st rs m s))"
proof -
  let ?s = "enter_and_send st rs m s" 
  let ?f = "finalize r ?s"
  have nf: "\<not> finalize_called ?s" using not_finalized [OF inv assms(2)] by simp
  have f: "state ?f = Some st" "sent_kinds ?f = sent_kinds s @ [m_kind m]" "timeout ?f = None"
    using same_coreD [OF finalize_view [of ?s r]] finalize_fields [OF nf]
      enter_and_send_fields(5) [of st rs m s] by (simp_all add: sent_kinds_def)
  have plan: "plan_ok (Some st) j" if "j \<in> set (job_plan ?f)" for j
    using contractor_invD(4) [OF inv, of j] that assms(3) by (auto simp: finalize_jobs intro: plan_ok_final)
  show ?thesis
    unfolding contractor_inv_def
    using f plan assms(3) script [OF contractor_invD(5) [OF inv]]
      middle_inv_finalize [OF middle_inv_enter_and_send [OF contractor_invD(1) [OF inv]]]
    by auto
qed

lemma contractor_inv_send_timeout:
  assumes inv: "contractor_inv s" and "\<not> is_final (state s)"
    and "\<And>ks. ks \<in> set (script (state s)) \<Longrightarrow> ks @ [m_kind m] \<in> set (script (Some st))"
    and "\<And>x. timer_fits (Some st) \<lparr>t_at = x, t_state = tst, t_target = t, t_active = True\<rparr>"
  shows "contractor_inv (snd (set_timeout now e tst t (enter_and_send st rs m s)))"
proof (rule contractor_inv_enter [OF inv])
  let ?s = "snd (set_timeout now e tst t (enter_and_send st rs m s))"
  show "middle_inv ?s" by (intro inv_intros middle_inv_enter_and_send contractor_invD(1) [OF inv])
  have "sent_kinds ?s = sent_kinds s @ [m_kind m]"
    using enter_and_send_fields(5) [of st rs m s] by (simp add: sent_kinds_def set_timeout_fields)
  then show "sent_kinds ?s \<in> set (script (state ?s))"
    using assms(3) [OF contractor_invD(5) [OF inv]] by (simp add: set_timeout_fields)
qed (use assms(2, 4) not_finalized [OF inv assms(2)] in \<open>auto simp: set_timeout_fields\<close>)

section \<open>Every event keeps to the protocol\<close>

lemma timer_fits_None: "timer_fits st \<lparr>t_at = x, t_state = None, t_target = t, t_active = True\<rparr> \<longleftrightarrow> False"
  by (simp add: timer_fits_def)

lemma timer_fits_simps [simp]:
  "timer_fits st \<lparr>t_at = x, t_state = Some Closed, t_target = RunAndTerminate c, t_active = True\<rparr> \<longleftrightarrow> st = Some Announced"
  "timer_fits st \<lparr>t_at = x, t_state = Some Expired, t_target = RunAndTerminate c, t_active = True\<rparr> \<longleftrightarrow>
     st \<in> {Some BidPut, Some Rejected, Some Granted, Some Cancelled}"
  "timer_fits st \<lparr>t_at = x, t_state = Some Aborted, t_target = RunAndTerminate c, t_active = True\<rparr> \<longleftrightarrow>
     st \<in> {Some Completed, Some Acknowledged, Some Aborted}"
  by (simp_all add: timer_fits_def)

lemma timer_fits_none:
  "\<not> timer_fits None t" "\<not> timer_fits (Some Initiated) t"
  by (auto simp: timer_fits_def split: option.splits contract_state.splits)

lemma timer_fits_move:
  "timer_fits (Some BidPut) t \<Longrightarrow> st \<in> {Rejected, Granted} \<Longrightarrow> timer_fits (Some st) t"
  "timer_fits (Some Granted) t \<Longrightarrow> timer_fits (Some Cancelled) t"
  "timer_fits (Some Completed) t \<Longrightarrow> st \<in> {Acknowledged, Aborted} \<Longrightarrow> timer_fits (Some st) t"
  by (auto simp: timer_fits_def split: option.splits contract_state.splits)

lemma safe_initiate:
  assumes inv: "contractor_inv s" and "state s = None"
  shows "contractor_inv (snd (contractor_initiate s)) \<and> moves s (snd (contractor_initiate s))"
proof -
  have "contractor_inv (set_machine_state Initiated s)"
    using assms(2) by (intro contractor_inv_state [OF inv]) (auto simp: timer_fits_none)
  then show ?thesis
    using assms(2) unfolding contractor_initiate_def
    by (auto intro!: contractor_inv_call simp: plan_ok_def moves_def)
qed

lemma safe_bid:
  assumes inv: "contractor_inv s" and k: "m_kind b = Bid"
  shows "contractor_inv (snd (contractor_bid now b s)) \<and> moves s (snd (contractor_bid now b s))"
proof (cases "state s = Some Announced")
  case True
  let ?e = "Some (now + c_bid_timeout (set_machine_state BidPut s))"
  obtain rs m where m: "m_kind m = Bid"
    "send_message now (duplicate b) ?e [] None (set_machine_state BidPut s) = (m, enter_and_send BidPut rs m s)"
    using send_message_enter [of "duplicate b" now ?e "[]" None BidPut s] k by auto
  then have "contractor_inv (snd (set_timeout now ?e (Some Expired) (RunAndTerminate CallBidExpired) (enter_and_send BidPut rs m s)))"
    using True by (intro contractor_inv_send_timeout [OF inv]) (auto simp: final_states_def)
  then show ?thesis
    using True m by (simp add: contractor_bid_def ensure_Announced Let_def moves_def set_timeout_fields)
qed (simp add: contractor_bid_def ensure_Announced moves_def inv)

lemma safe_complete:
  assumes inv: "contractor_inv s" and k: "m_kind b = FinalReport"
  shows "contractor_inv (snd (contractor_complete now b s)) \<and> moves s (snd (contractor_complete now b s))"
proof (cases "state s = Some Granted")
  case True
  let ?e = "Some (now + c_bid_timeout (set_machine_state Completed s))"
  obtain rs m where m: "m_kind m = FinalReport"
    "send_message now (duplicate b) ?e [] None (set_machine_state Completed s) = (m, enter_and_send Completed rs m s)"
    using send_message_enter [of "duplicate b" now ?e "[]" None Completed s] k by auto
  then have "contractor_inv (snd (set_timeout now ?e (Some Aborted) (RunAndTerminate CallAborted) (enter_and_send Completed rs m s)))"
    using True by (intro contractor_inv_send_timeout [OF inv]) (auto simp: final_states_def)
  then show ?thesis
    using True m by (simp add: contractor_complete_def ensure_Announced Let_def moves_def set_timeout_fields)
qed (simp add: contractor_complete_def ensure_Announced moves_def inv)

lemma moves_finalize: "moves s (finalize r (enter_and_send st rs m s)) \<longleftrightarrow> Some st = state s \<or> contractor_edge (state s) st"
  using same_coreD [OF finalize_view [of "enter_and_send st rs m s" r]] by (auto simp: moves_def)

lemma safe_refuse:
  assumes inv: "contractor_inv s" and k: "m_kind b = Refusal"
  shows "contractor_inv (snd (contractor_refuse now b s)) \<and> moves s (snd (contractor_refuse now b s))"
proof (cases "state s = Some Announced")
  case True
  obtain rs m where m: "m_kind m = Refusal"
    "send_message now (duplicate b) None [] None (set_machine_state Refused s) = (m, enter_and_send Refused rs m s)"
    using send_message_enter [of "duplicate b" now None "[]" None Refused s] k by auto
  then have "contractor_inv (finalize NoneV (enter_and_send Refused rs m s))"
    using True by (intro contractor_inv_send_finalize [OF inv]) (auto simp: final_states_def)
  then show ?thesis
    using True m by (simp add: contractor_refuse_def ensure_Announced Let_def moves_finalize)
qed (simp add: contractor_refuse_def ensure_Announced moves_def inv)

lemma safe_defect:
  assumes inv: "contractor_inv s" and k: "m_kind b = Cancellation"
  shows "contractor_inv (snd (contractor_defect now b s)) \<and> moves s (snd (contractor_defect now b s))"
proof (cases "state s = Some Granted")
  case True
  obtain rs m where m: "m_kind m = Cancellation"
    "send_message now (duplicate b) None [] None (set_machine_state Defected s) = (m, enter_and_send Defected rs m s)"
    using send_message_enter [of "duplicate b" now None "[]" None Defected s] k by auto
  then have "contractor_inv (finalize NoneV (enter_and_send Defected rs m s))"
    using True by (intro contractor_inv_send_finalize [OF inv]) (auto simp: final_states_def)
  then show ?thesis
    using True m by (simp add: contractor_defect_def ensure_Announced Let_def moves_finalize)
qed (simp add: contractor_defect_def ensure_Announced moves_def inv)

lemma safe_handover:
  assumes inv: "contractor_inv s" and k: "m_kind b = Bid" "m_expires b \<noteq> None"
  shows "contractor_inv (snd (contractor_handover b s)) \<and> moves s (snd (contractor_handover b s))"
proof (cases "state s = Some Announced")
  case True
  let ?b = "(duplicate b)\<lparr>m_reply_to := m_reply_to b\<rparr>"
  define m where "m = ?b\<lparr>m_receiver := or_remote None (set_machine_state Delegated s)\<rparr>"
  have m: "m_kind m = Bid"
    "handover_message ?b None (set_machine_state Delegated s) = (None, enter_and_send Delegated (recipients s) m s)"
    using k by (auto simp: m_def handover_message_def Let_def enter_and_send_def duplicate_def duplicate_base_def)
  then have "contractor_inv (finalize NoneV (enter_and_send Delegated (recipients s) m s))"
    using True by (intro contractor_inv_send_finalize [OF inv]) (auto simp: final_states_def)
  then show ?thesis
    using True m by (simp add: contractor_handover_def ensure_Announced Let_def moves_finalize finalizing_def)
qed (simp add: contractor_handover_def ensure_Announced moves_def inv)

lemma contractor_inv_update_fields:
  assumes "contractor_inv s"
  shows "contractor_inv (s\<lparr>c_grant := g\<rparr>)" "contractor_inv (s\<lparr>remote_id := r\<rparr>)" "contractor_inv (s\<lparr>recipients := rs\<rparr>)"
proof -
  have "job_plan (s\<lparr>c_grant := g\<rparr>) = job_plan s" by (rule job_plan_cong) simp
  then show "contractor_inv (s\<lparr>c_grant := g\<rparr>)" "contractor_inv (s\<lparr>remote_id := r\<rparr>)" "contractor_inv (s\<lparr>recipients := rs\<rparr>)"
    using assms contractor_invD(1) [OF assms]
    by (auto simp: contractor_inv_def sent_kinds_def inv_intros)
qed

lemma safe_update_address:
  "contractor_inv s \<Longrightarrow> contractor_inv (snd (update_manager_address r s)) \<and> state (snd (update_manager_address r s)) = state s"
  by (auto simp: update_manager_address_def intro: contractor_inv_update_fields split: option.split)

text \<open>The hooks run in the state their message has led to.\<close>

definition safe_in :: "contract_state \<Rightarrow> contractor run \<Rightarrow> bool" where
  "safe_in st m \<longleftrightarrow> contractor_inv (snd m) \<and> state (snd m) = Some st"

lemma safe_in_and_then:
  "safe_in st m \<Longrightarrow> (\<And>s. contractor_inv s \<Longrightarrow> state s = Some st \<Longrightarrow> safe_in st (f s)) \<Longrightarrow> safe_in st (and_then m f)"
  unfolding safe_in_def by (rule and_then_keeps [where P = "\<lambda>s. contractor_inv s \<and> state s = Some st"]) auto

lemma safe_in_call:
  "contractor_inv s \<Longrightarrow> state s = Some st \<Longrightarrow> plan_ok (Some st) (t, e, tt, p) \<Longrightarrow> safe_in st (call_agent_side t e tt p s)"
  by (simp add: safe_in_def contractor_inv_call)

lemma safe_in_run_and_terminate:
  "contractor_inv s \<Longrightarrow> state s = Some st \<Longrightarrow> st \<in> final_states \<Longrightarrow> safe_in st (run_and_terminate c e p s)"
  unfolding run_and_terminate_def by (rule safe_in_call) (auto simp: plan_ok_def)

lemma safe_in_set_timeout:
  "contractor_inv s \<Longrightarrow> state s = Some st \<Longrightarrow> st \<notin> final_states \<Longrightarrow>
     (\<And>x. timer_fits (Some st) \<lparr>t_at = x, t_state = tst, t_target = t, t_active = True\<rparr>) \<Longrightarrow>
     safe_in st (set_timeout now e tst t s)"
  unfolding safe_in_def using not_finalized [of s]
  by (simp add: set_timeout_fields contractor_inv_set_timeout)

lemma safe_on_announce:
  "contractor_inv s \<Longrightarrow> state s = Some Announced \<Longrightarrow> safe_in Announced (on_announce now m s)"
  unfolding on_announce_def
  by (intro safe_in_and_then safe_in_set_timeout safe_in_call) (auto simp: final_states_def plan_ok_def)

lemma safe_on_grant:
  "contractor_inv s \<Longrightarrow> state s = Some Granted \<Longrightarrow> safe_in Granted (on_grant now m s)"
  unfolding on_grant_def set_remote_id_def
proof (intro safe_in_and_then safe_in_set_timeout safe_in_call)
  fix t :: contractor
  assume "contractor_inv t" "state t = Some Granted"
  then show "safe_in Granted (update_manager_address (m_reply_to m) (t\<lparr>c_grant := Some m, remote_id := m_sender m\<rparr>))"
    using safe_update_address [of "t\<lparr>c_grant := Some m, remote_id := m_sender m\<rparr>" "m_reply_to m"]
    by (simp add: safe_in_def contractor_inv_update_fields)
qed (auto simp: final_states_def plan_ok_def)

lemma safe_message:
  assumes inv: "contractor_inv s"
  shows "contractor_inv (snd (contractor_on_message now m s)) \<and> moves s (snd (contractor_on_message now m s))"
proof (cases "event_handler contractor_mapping (m_kind m) (state s)")
  case None
  then show ?thesis by (simp add: contractor_on_message_def inv moves_def)
next
  case (Some ah)
  obtain st h where ah: "ah = (st, h)" by fastforce
  have edge: "contractor_edge (state s) st"
    and enter: "contractor_inv (set_machine_state st s)"
    and h: "safe_in st (contractor_handle h now m (set_machine_state st s))"
  proof -
    have ps: "(state s, st, h) \<in> {(Some Initiated, Announced, OnAnnounce), (Some BidPut, Rejected, OnReject),
        (Some BidPut, Granted, OnGrant), (Some Granted, Cancelled, OnCancelInGranted),
        (Some Completed, Aborted, OnCancelInCompleted), (Some Completed, Acknowledged, OnAck)}"
      using Some ah
      by (auto simp: event_handler_def contractor_mapping_def cmp_state_def
          split: kind.splits if_splits option.splits list.splits)
    then show "contractor_edge (state s) st" by auto
    show e: "contractor_inv (set_machine_state st s)"
      using ps by (intro contractor_inv_state [OF inv]) (auto simp: final_states_def timer_fits_none intro: timer_fits_move)
    show "safe_in st (contractor_handle h now m (set_machine_state st s))"
      using ps e
      by (auto simp: contractor_handle_def on_ack_def on_reject_def on_cancel_in_granted_def
          on_cancel_in_completed_def plan_ok_def final_states_def
          intro!: safe_on_announce safe_on_grant safe_in_call safe_in_run_and_terminate)
  qed
  then show ?thesis
    using Some ah by (auto simp: contractor_on_message_def safe_in_def moves_def)
qed

lemma safe_timeout:
  assumes inv: "contractor_inv s"
  shows "contractor_inv (snd (timeout_fires now s)) \<and> moves s (snd (timeout_fires now s))"
proof (cases "\<exists>t. timeout s = Some t \<and> t_active t \<and> t_at t \<le> now")
  case True
  then obtain t where t: "timeout s = Some t" "t_active t" "t_at t \<le> now" by blast
  then have fits: "timer_fits (state s) t" "\<not> finalize_called s" using contractor_invD(2) [OF inv] by blast+
  then obtain c st where c: "t_target t = RunAndTerminate c" "t_state t = Some st" "st \<in> {Closed, Expired, Aborted}"
    by (auto simp: timer_fits_def split: option.splits contract_state.splits)
  let ?s = "s\<lparr>timeout := Some (t\<lparr>t_active := False\<rparr>)\<rparr>"
  have s: "contractor_inv ?s"
    using inv by (auto simp: contractor_inv_def sent_kinds_def intro: inv_intros)
  have "contractor_inv (set_machine_state st ?s)"
    using fits c
    by (intro contractor_inv_state [OF s]) (auto simp: final_states_def timer_fits_def split: option.splits)
  moreover have "moves s (set_machine_state st ?s)"
    using fits c by (auto simp: moves_def timer_fits_def)
  moreover have "contractor_inv (snd (call_agent_side (RunAndTerminate c) [st] NoTail None (set_machine_state st ?s)))"
    by (rule contractor_inv_call [OF calculation(1)]) (use c(3) in \<open>auto simp: plan_ok_def final_states_def\<close>)
  ultimately show ?thesis
    using t c by (simp add: timeout_fires_def timeout_target_def moves_def)
next
  case False
  then have "timeout_fires now s = (None, s)" by (auto simp: timeout_fires_def split: option.split)
  then show ?thesis by (simp add: inv moves_def)
qed

lemma moves_ends: "ends s s' \<Longrightarrow> moves s s'"
  by (auto simp: ends_def moves_def)

lemma run_job_state: "run_job no_own i s = s \<or> state (run_job no_own i s) = state s \<or> state (run_job no_own i s) = Some Wtf"
proof -
  have fin: "state (job_finish i r t) = state t \<or> state (job_finish i r t) = Some Wtf" for r and t :: contractor
    using ends_job_finish [of t i r] by (auto simp: ends_def)
  have fz: "state (finalize r t) = state t" for r and t :: contractor
    using same_coreD [OF finalize_view] by blast
  have rt: "state t = state u" if "run_and_terminate c e p u = (x, t)" for c e p x and t u :: contractor
    using call_fields(1) that by (metis run_and_terminate_def snd_conv)
  show ?thesis
    using fin [of FalseV s] fin [of NoneV "finalize (case j_target (jobs s ! i) of FinalizeWith r \<Rightarrow> r | _ \<Rightarrow> NoneV) (set_stage i Executing s)"] fz
      fin [of "AgentFailure AssertionError"]
    by (auto simp: run_job_def Let_def no_own_def split: target.split prod.split option.split dest!: rt)
      (metis fin stage_fields(1))+
qed

lemma safe_deliver: "contractor_inv s \<Longrightarrow> contractor_inv (deliver s)"
  using deliver_same [of s] job_plan_cong [OF deliver_same(3), of s] same_endD [OF deliver_same(1), of s]
    middle_inv_deliver [of s]
  by (auto simp: contractor_inv_def sent_kinds_def)

lemma contractor_safe_step:
  assumes inv: "contractor_inv s" and ok: "contractor_allowed e s"
  shows "contractor_inv (contractor_step e s) \<and> moves s (contractor_step e s)"
proof (cases e)
  case CInitiate
  then show ?thesis using safe_initiate [OF inv] ok by (simp add: contractor_step_def)
next
  case (CMessage now m)
  then show ?thesis using safe_message [OF inv] by (simp add: contractor_step_def)
next
  case (CBid now m)
  then show ?thesis using safe_bid [OF inv] ok by (simp add: contractor_step_def)
next
  case (CHandover m)
  then show ?thesis using safe_handover [OF inv] ok by (simp add: contractor_step_def)
next
  case (CRefuse now m)
  then show ?thesis using safe_refuse [OF inv] ok by (simp add: contractor_step_def)
next
  case (CDefect now m)
  then show ?thesis using safe_defect [OF inv] ok by (simp add: contractor_step_def)
next
  case (CComplete now m)
  then show ?thesis using safe_complete [OF inv] ok by (simp add: contractor_step_def)
next
  case (CUpdateAddress r)
  then show ?thesis using safe_update_address [OF inv] by (simp add: contractor_step_def moves_def)
next
  case (CTimeout now)
  then show ?thesis using safe_timeout [OF inv] by (simp add: contractor_step_def)
next
  case (CRunJob i)
  then show ?thesis
    using contractor_inv_run_job [OF inv, of i] run_job_state [of i s]
    by (auto simp: contractor_step_def moves_def)
next
  case (CReturn i r)
  then show ?thesis
    using contractor_inv_job_finish [OF inv, of i] contractor_inv_stage [OF inv, of Waiting i] inv
      moves_ends [OF ends_job_finish, of s i]
    by (cases r) (auto simp: contractor_step_def job_return_def moves_def)
next
  case (CFires i r)
  then show ?thesis
    using contractor_inv_job_finish [OF inv, of i r] inv moves_ends [OF ends_job_finish, of s i r]
    by (auto simp: contractor_step_def job_fires_def moves_def)
next
  case CNotify
  then show ?thesis using safe_deliver [OF inv] deliver_same(6) [of s] by (simp add: contractor_step_def moves_def)
qed (use ok in simp)

section \<open>Histories\<close>

lemma contractor_inv_new: "contractor_new gid bt a = Inr s \<Longrightarrow> contractor_inv s"
  by (auto simp: contractor_new_def contractor_inv_def middle_inv_def queued_def job_plan_def sent_kinds_def
      split: if_splits)

lemma contractor_reaches_inv: "contractor_reaches s0 s \<Longrightarrow> contractor_inv s0 \<Longrightarrow> contractor_inv s"
  by (induction rule: contractor_reaches.induct) (auto dest: contractor_safe_step)

text \<open>A history the well behaved agency and agent can produce, None if an event is not allowed.\<close>

fun contractor_history :: "contractor_event list \<Rightarrow> contractor \<Rightarrow> contractor option" where
  "contractor_history [] s = Some s"
| "contractor_history (e # es) s =
     (if contractor_allowed e s then contractor_history es (contractor_step e s) else None)"

lemma reaches_trans: "contractor_reaches t u \<Longrightarrow> contractor_reaches s t \<Longrightarrow> contractor_reaches s u"
  by (induction rule: contractor_reaches.induct) (auto intro: contractor_reaches.step)

lemma history_reaches: "contractor_history es s = Some t \<Longrightarrow> contractor_reaches s t"
proof (induction es arbitrary: s)
  case (Cons e es)
  then have "contractor_reaches (contractor_step e s) t" "contractor_allowed e s" by (auto split: if_splits)
  then show ?case using reaches_trans contractor_reaches.intros by blast
qed (auto intro: contractor_reaches.start)

text \<open>C1: A contractor follows the contract protocol.  In every history of a medium that the agency
  initiates once and does not clean up, and whose agent passes messages of the right kind, the messages sent are
  those of the script of the current state (nothing, a bid, a refusal, a bid and a report, a bid and a
  cancellation), and every further event leaves the state alone or moves it along an edge of the protocol.\<close>

theorem contractor_follows_protocol:
  assumes "contractor_new gid bt a = Inr s0" and "contractor_history es s0 = Some s"
    and "contractor_allowed e s"
  shows "sent_kinds s \<in> set (script (state s)) \<and>
    (state (contractor_step e s) = state s \<or>
      (\<exists>st. state (contractor_step e s) = Some st \<and> contractor_edge (state s) st))"
proof (intro conjI)
  have inv: "contractor_inv s"
    by (rule contractor_reaches_inv [OF history_reaches [OF assms(2)] contractor_inv_new [OF assms(1)]])
  show "sent_kinds s \<in> set (script (state s))" by (rule contractor_invD(5) [OF inv])
  show "state (contractor_step e s) = state s \<or>
      (\<exists>st. state (contractor_step e s) = Some st \<and> contractor_edge (state s) st)"
    using contractor_safe_step [OF inv assms(3)] by (simp add: moves_def)
qed

definition demo_manager :: recipient where
  "demo_manager = agent_recipient ''manager'' (Some ''shard'')"

definition from_manager :: "kind \<Rightarrow> message" where
  "from_manager k = (new_message k)\<lparr>m_reply_to := Some demo_manager, m_sender := Some ''m'', m_expires := Some 50,
     m_protocol_id := Some ''contract''\<rparr>"

definition demo_contractor :: contractor where
  "demo_contractor = (case contractor_new ''c'' 10 (from_manager Announcement) of Inr s \<Rightarrow> s)"

definition demo_events :: "contractor_event list" where
  "demo_events =
     [CInitiate, CRunJob 0, CReturn 0 (Some NoneV), CMessage 0 (from_manager Announcement), CRunJob 1,
      CBid 1 (new_message Bid), CReturn 1 (Some NoneV), CMessage 2 (from_manager Grant), CRunJob 2,
      CReturn 2 None, CComplete 5 (new_message FinalReport), CFires 2 NoneV]"

lemma demo_contractor_new: "contractor_new ''c'' 10 (from_manager Announcement) = Inr demo_contractor"
  by code_simp

definition demo_completed :: contractor where
  "demo_completed = (case contractor_history demo_events demo_contractor of Some s \<Rightarrow> s)"

lemma demo_history: "contractor_history demo_events demo_contractor = Some demo_completed"
  by code_simp

theorem contractor_follows_protocol_witness:
  "sent_kinds demo_completed \<in> set (script (state demo_completed)) \<and>
   (let s' = contractor_step (CMessage 6 (from_manager Acknowledgement)) demo_completed
    in state s' = state demo_completed \<or> (\<exists>st. state s' = Some st \<and> contractor_edge (state demo_completed) st))"
  unfolding Let_def
  using contractor_follows_protocol [OF demo_contractor_new demo_history, of "CMessage 6 (from_manager Acknowledgement)"]
  by simp

text \<open>C28: A contract ends once for the contractor.  Once the medium has a result, no message, call of the
  agent, timeout, job or clean-up changes it, and who waits for the end is notified exactly once.\<close>

theorem contractor_ends_once:
  assumes "contractor_new gid bt a = Inr s0" and "result (fold contractor_step es s0) = Some r"
  shows "result (fold contractor_step (es @ es') s0) = Some r \<and>
    finish_due (fold contractor_step (es @ es') s0) = [r]"
  using contractor.one_result [OF contractor_invD(1) [OF contractor_inv_new [OF assms(1)]] assms(2)] by blast

theorem contractor_ends_once_witness:
  "result (fold contractor_step ([CInitiate, CCleanup] @ [CCleanup, CRunJob 0]) demo_contractor) = Some ProtocolExpired \<and>
   finish_due (fold contractor_step ([CInitiate, CCleanup] @ [CCleanup, CRunJob 0]) demo_contractor) = [ProtocolExpired]"
proof -
  have "result (fold contractor_step [CInitiate, CCleanup] demo_contractor) = Some ProtocolExpired" by code_simp
  note contractor_ends_once [OF demo_contractor_new this, of "[CCleanup, CRunJob 0]"]
  then show ?thesis by blast
qed

text \<open>The timeout of a bid that keeps running while the agent handles the rejection.\<close>

text \<open>The timeout of a bid survives its rejection.  If the agent answers \<open>rejected\<close> with a deferred
  and the time of the bid runs out meanwhile, the contractor moves from rejected to expired and calls
  \<open>bid_expired\<close> of the agent as well.\<close>

theorem rejected_bid_expires:
  assumes "state s = Some BidPut" and "\<not> finalize_called s" and "i = length (jobs s)"
    and "timeout s = Some \<lparr>t_at = expiry, t_state = Some Expired, t_target = RunAndTerminate CallBidExpired, t_active = True\<rparr>"
    and "expiry \<le> later" and "m_kind m = Rejection"
    and "s' = fold contractor_step
      [CMessage now m, CRunJob i, CReturn i None, CTimeout later, CRunJob (i + 1), CRunJob (i + 2)] s"
  shows "state s' = Some Expired \<and>
    agent_log s' = agent_log s @ [CallRejected m, CallBidExpired]"
proof (intro conjI)
  let ?late = "\<lparr>t_at = expiry, t_state = Some Expired, t_target = RunAndTerminate CallBidExpired, t_active = False\<rparr>"
  let ?job = "\<lambda>t e tt p st. \<lparr>j_target = t, j_ensure = e, j_tail = tt, j_stage = st, j_parent = p\<rparr>"
  let ?reject = "?job (Agent (CallRejected m)) [Rejected] FailAndFinalize None"
  let ?expire = "?job (RunAndTerminate CallBidExpired) [Expired] NoTail None"
  define s1 where "s1 = contractor_step (CMessage now m) s"
  define s2 where "s2 = contractor_step (CReturn i None) (contractor_step (CRunJob i) s1)"
  define s3 where "s3 = contractor_step (CTimeout later) s2"
  have s1: "state s1 = Some Rejected" "jobs s1 = jobs s @ [?reject Queued]" "timeout s1 = timeout s"
    "finalize_called s1 = finalize_called s" "agent_log s1 = agent_log s"
    using assms(1, 2, 6)
    by (simp_all add: s1_def contractor_step_def contractor_on_message_def event_handler_def contractor_mapping_def
        cmp_state_def contractor_handle_def on_reject_def run_and_terminate_def call_agent_side_def)
  have s2: "state s2 = Some Rejected" "jobs s2 = jobs s @ [?reject Waiting]" "timeout s2 = timeout s"
    "finalize_called s2 = finalize_called s" "agent_log s2 = agent_log s @ [CallRejected m]"
    using s1 assms(3)
    by (simp_all add: s2_def contractor_step_def run_job_def job_return_def stage_of_def set_stage_def
        ensure_state_def cmp_state_def nth_append Let_def)
  have s3: "state s3 = Some Expired" "jobs s3 = jobs s @ [?reject Waiting, ?expire Queued]"
    "finalize_called s3 = finalize_called s" "agent_log s3 = agent_log s @ [CallRejected m]"
    using s2 assms(2, 4, 5)
    by (simp_all add: s3_def contractor_step_def timeout_fires_def timeout_target_def call_agent_side_def Let_def)
  have s': "s' = contractor_step (CRunJob (i + 2)) (contractor_step (CRunJob (i + 1)) s3)"
    using assms(7) by (simp add: s1_def s2_def s3_def)
  show "state s' = Some Expired" "agent_log s' = agent_log s @ [CallRejected m, CallBidExpired]"
    using s3 assms(2, 3)
    by (simp_all add: s' contractor_step_def run_job_def stage_of_def set_stage_def run_and_terminate_def
        call_agent_side_def ensure_state_def cmp_state_def nth_append list_update_append Let_def)
qed

definition demo_bidding :: contractor where
  "demo_bidding = fold contractor_step (take 7 demo_events) demo_contractor"

theorem rejected_bid_expires_witness:
  "state (fold contractor_step
     [CMessage 3 (from_manager Rejection), CRunJob 2, CReturn 2 None, CTimeout 12, CRunJob (2 + 1), CRunJob (2 + 2)]
     demo_bidding) = Some Expired"
  by (rule rejected_bid_expires [where expiry = 11, THEN conjunct1, OF _ _ _ _ _ _ refl]) code_simp+

end
