(* ===== verification/Contracts.thy ===== *)
theory Contracts
  imports ManagerProps ContractorSafety
begin

text \<open>
  The properties of the manager of a contract: what a grant, the last report and the end of the
  protocol do, and the paths on which a contractor is left without an answer.
\<close>

section \<open>Grant and completion\<close>

text \<open>C3: Granting answers every bidder.  Granting known, open bids moves exactly these contractors to
  granted and all other open bids to rejected, changes nobody else, and sends each of them one message: the
  grants in the order given, then the rejections.\<close>

theorem grant_answers_every_bidder:
  assumes "state s \<in> {Some Closed, Some Announced}" and "dict_ok (contractors s)"
    and "grantable gs (contractors s)" and "K = key_of ` fst ` set gs"
    and "manager_grant now gs s = (e, s')"
  shows "e = None \<and> state s' = Some Granted \<and>
    contractors s' = map (\<lambda>(k, c). (k, after_grant K c k)) (contractors s) \<and>
    sent_view s' = sent_view s @ map (\<lambda>(b, _). ([recipient_at (contractors s) (key_of b)], Grant)) gs
        @ map (\<lambda>(k, c). ([mc_recipient c], Rejection)) (filter (\<lambda>(k, c). mc_state c = MBid \<and> k \<notin> K) (contractors s))"
  using grant_effect [OF assms] by blast

text \<open>C4: The last report completes the contract.  When the only contractor still holding a grant reports,
  the manager is completed, the timeout is off, every contractor that has reported is acknowledged by exactly one
  message, \<open>completed\<close> of the agent gets all reports, and its result is the result of the protocol.\<close>

theorem last_report_completes:
  assumes "state s = Some Granted" and "\<not> finalize_called s" and "dict_ok (contractors s)"
    and "m_kind m = FinalReport" "m_reply_to m \<noteq> None" "key_of m = k"
    and "map_of (contractors s) k = Some c" "mc_state c = MGranted"
    and "\<forall>(k', c') \<in> set (contractors s). mc_state c' = MGranted \<longrightarrow> k' = k"
    and "cs = AList.update k (c\<lparr>mc_state := MCompleted, mc_report := Some m\<rparr>) (contractors s)"
    and "manager_on_message now m [] (Returns r) s = (e, s')"
  shows "e = None \<and> state s' = Some Completed \<and> result s' = Some r \<and> \<not> timeout_active s' \<and>
    contractors s' = mark (fst ` set (with_state [MCompleted] cs)) MAcknowledged cs \<and>
    sent_view s' = sent_view s @ map (\<lambda>(_, c). ([mc_recipient c], Acknowledgement)) (with_state [MCompleted] cs) \<and>
    agent_log s' = agent_log s @ [CallCompleted (List.map_filter (\<lambda>(_, c). mc_report c) (with_state [MCompleted] cs))]"
  using report_effect [OF assms] by blast

section \<open>Granting from the bid handler\<close>

text \<open>C36: Granting from the bid handler fails on the last bid.  If the agent grants a bid inside \<open>bid\<close>, as
  the interface suggests, and it is the last answer expected, the check that follows cancels the timeout of the
  grant and expires the contract: the contractor keeps its grant and its report is ignored.\<close>

theorem grant_in_bid_handler_expires:
  assumes "state s = Some Announced" and "\<not> finalize_called s" and ok: "dict_ok (contractors s)"
    and "expected_bids s = Some (Suc (length (contractors s)))"
    and b: "m_kind b = Bid" "m_reply_to b \<noteq> None" "map_of (contractors s) (key_of b) = None"
    and g: "m_kind g = Grant" and report: "m_kind report = FinalReport"
    and run: "manager_on_message now b [DoGrant [(b, g)]] (Returns v) s = (e, s1)"
    and later: "manager_on_message later report cmds reply s1 = (e', s2)"
  shows "e = None \<and> state s1 = Some Expired \<and> timeout s1 = None \<and>
      map_option mc_state (map_of (contractors s1) (key_of b)) = Some MGranted \<and> s2 = s1"
proof -
  let ?s = "set_machine_state Announced s"
  obtain c where c: "mc_state c = MBid" "mc_bid c = b"
    "register_contractor b MBid ?s = (None, ?s\<lparr>contractors := contractors ?s @ [(key_of b, c)]\<rparr>)"
    using register_new [OF b(2), of ?s MBid] b(3) by auto
  define t where "t = (?s\<lparr>contractors := contractors s @ [(key_of b, c)]\<rparr>)\<lparr>agent_log := agent_log s @ [CallBid b]\<rparr>"
  have t: "state t = Some Announced" "contractors t = contractors s @ [(key_of b, c)]"
    "expected_bids t = Some (Suc (length (contractors s)))" "\<not> finalize_called t"
    using assms(2, 4) by (simp_all add: t_def)
  have fresh: "key_of b \<notin> fst ` set (contractors s)" using b(3) by (simp add: map_of_eq_None_iff)
  have okt: "dict_ok (contractors t)" using ok fresh t by auto
  have new: "map_of (contractors t) (key_of b) = Some c" using b(3) t by (simp add: map_add_def)
  obtain e1 u where u: "manager_grant now [(b, g)] t = (e1, u)" by fastforce
  have gr: "grantable [(b, g)] (contractors t)" using new c(1) b(2) g by (simp add: grantable_def)
  note eff = grant_effect [OF _ okt gr refl u]
  have cu: "contractors u = map (\<lambda>(k, c). (k, after_grant {key_of b} c k)) (contractors t)"
    using eff(3) t(1) by simp
  have eu: "e1 = None" "state u = Some Granted" using eff(1, 2) t(1) by simp_all
  have granted: "map_of (contractors u) (key_of b) = Some (c\<lparr>mc_state := MGranted\<rparr>)"
    unfolding cu map_of_map_key new by (simp add: after_grant_def)
  have nobids: "with_state [MBid] (contractors u) = []"
    by (auto simp: cu with_state_def filter_empty_conv after_grant_def split: if_splits)
  have fu: "\<not> finalize_called u" "expected_bids u = Some (Suc (length (contractors s)))"
    using eff(5, 6) t by simp_all
  have lu: "length (contractors u) = Suc (length (contractors s))" by (simp add: cu t)
  let ?u = "cancel_timeout u"
  have fu': "\<not> finalize_called ?u" "with_state [MBid] (contractors ?u) = []" "contractors ?u = contractors u" "timeout ?u = None"
    using fu nobids by (simp_all add: cancel_timeout_def)
  obtain x where x: "goto_closed_or_expired now ?u = (None, x)" "state x = Some Expired" "contractors x = contractors u" "timeout x = None"
    using fu' by (auto simp: goto_closed_or_expired_def run_and_terminate_def call_agent_side_def)
  have chk: "check_goto_close now u = (None, x)"
    using eu fu(2) lu x(1) by (simp add: check_goto_close_def cmp_state_def)
  have "manager_on_message now b [DoGrant [(b, g)]] (Returns v) s = (None, x)"
    using b(1) c(3) assms(1) u eu(1) chk
    by (simp add: manager_on_message_def event_handler_def manager_mapping_def cmp_state_def manager_handle_def
        on_bid_def t_def)
  then have e: "e = None" "s1 = x" using run by simp_all
  moreover have "manager_on_message later report cmds reply x = (None, x)"
    using report x(2) by (simp add: manager_on_message_def event_handler_def manager_mapping_def cmp_state_def)
  then have "s2 = x" using later e by simp
  ultimately show ?thesis using x granted by simp
qed

section \<open>Elected bids\<close>

text \<open>\<open>terminate\<close> leaves elected bids unanswered: only open bids are rejected, an elected contractor
  keeps its state and no message is sent to it.\<close>

theorem elected_bids_are_not_answered:
  assumes ok: "dict_ok (contractors s)" and "map_of (contractors s) k = Some c" and "mc_state c = MElected"
    and "manager_terminate now r s = (e, s')"
  shows "map_of (contractors s') k = Some c \<and>
    sent_view s' = sent_view s @ map (\<lambda>(_, c). ([mc_recipient c], Rejection)) (with_state [MBid] (contractors s))"
proof (intro conjI)
  obtain l where l: "reject_bids now s =
      s\<lparr>contractors := mark (fst ` set (with_state [MBid] (contractors s))) MRejected (contractors s), sent := sent s @ l\<rparr>"
    "map (\<lambda>(rs, m). (rs, m_kind m)) l = map (\<lambda>(k, c). ([mc_recipient c], Rejection)) (with_state [MBid] (contractors s))"
    using reject_bids_effect [OF ok] by blast
  let ?t = "reject_bids now s"
  have s': "contractors s' = contractors ?t" "sent s' = sent ?t"
    using assms(4) by (auto simp: manager_terminate_def Let_def split: if_splits)
  have "k \<notin> fst ` set (with_state [MBid] (contractors s))"
    using assms(2, 3) with_state_keys [OF ok, of k _ "[MBid]"] by force
  then show "map_of (contractors s') k = Some c"
    using assms(2) l(1) s' by (simp add: map_of_mark)
  show "sent_view s' = sent_view s @ map (\<lambda>(_, c). ([mc_recipient c], Rejection)) (with_state [MBid] (contractors s))"
    using l s' by (simp add: sent_view_def)
qed

section \<open>The end of the protocol\<close>

lemma manager_new_inv: "middle_inv (manager_new gid a b c rs)"
  by (simp add: manager_new_def middle_inv_def queued_def)

text \<open>C29: A contract ends once for the manager.  In every history from a new medium, once there is a result it
  never changes, and the end is notified exactly once.\<close>

theorem manager_ends_once:
  assumes "result (fold manager_step es (manager_new gid i a g rs)) = Some r"
  shows "result (fold manager_step (es @ es') (manager_new gid i a g rs)) = Some r \<and>
    finish_due (fold manager_step (es @ es') (manager_new gid i a g rs)) = [r]"
  using manager.one_result [OF manager_new_inv assms] by blast

section \<open>Witnesses\<close>

definition from_contractor :: "string \<Rightarrow> kind \<Rightarrow> message" where
  "from_contractor k kd = (new_message kd)\<lparr>m_reply_to := Some (agent_recipient k (Some ''shard'')), m_sender := Some k,
     m_expires := Some 40\<rparr>"

definition demo_recipients :: "recipient list" where
  "demo_recipients = map (\<lambda>k. agent_recipient k (Some ''shard'')) [''a'', ''b'', ''c'']"

definition announcing :: "manager_event list" where
  "announcing =
     [MInitiate 0 (Some ''contract''), MAnnounce 0 ''uuid'' (new_message Announcement),
      MMessage 1 (from_contractor ''a'' Bid) [] (Returns NoneV),
      MMessage 2 (from_contractor ''b'' Bid) [] (Returns NoneV)]"

definition granting :: "manager_event list" where
  "granting = announcing @
     [MMessage 3 (from_contractor ''c'' Bid) [] (Returns NoneV), MRunJob 3 1,
      MCommand 4 (DoGrant [(from_contractor ''a'' Bid, new_message Grant), (from_contractor ''b'' Bid, new_message Grant)]),
      MMessage 5 (from_contractor ''a'' FinalReport) [] (Returns NoneV)]"

definition demo_manager_after :: "manager_event list \<Rightarrow> manager" where
  "demo_manager_after es = fold manager_step es (manager_new ''m'' 10 10 10 demo_recipients)"

theorem grant_answers_every_bidder_witness:
  "let s = demo_manager_after announcing; s' = snd (manager_grant 3 [(from_contractor ''a'' Bid, new_message Grant)] s)
   in contractors s' = map (\<lambda>(k, c). (k, after_grant {''a''} c k)) (contractors s)"
proof -
  let ?s = "demo_manager_after announcing" and ?gs = "[(from_contractor ''a'' Bid, new_message Grant)]"
  have p: "state ?s \<in> {Some Closed, Some Announced}" "dict_ok (contractors ?s)" "grantable ?gs (contractors ?s)"
    "key_of ` fst ` set ?gs = {''a''}" by code_simp+
  show ?thesis
    using grant_answers_every_bidder [OF p(1-3) p(4) [symmetric], of 3 "fst (manager_grant 3 ?gs ?s)"
        "snd (manager_grant 3 ?gs ?s)"]
    by (simp add: Let_def)
qed

theorem last_report_completes_witness:
  "result (snd (manager_on_message 6 (from_contractor ''b'' FinalReport) [] (Returns (Value 7)) (demo_manager_after granting)))
     = Some (Value 7)"
proof -
  let ?s = "demo_manager_after granting" and ?m = "from_contractor ''b'' FinalReport"
  let ?c = "the (map_of (contractors ?s) ''b'')"
  let ?r = "manager_on_message 6 ?m [] (Returns (Value 7)) ?s"
  have p: "state ?s = Some Granted" "\<not> finalize_called ?s" "dict_ok (contractors ?s)" "m_kind ?m = FinalReport"
    "m_reply_to ?m \<noteq> None" "key_of ?m = ''b''" "map_of (contractors ?s) ''b'' = Some ?c" "mc_state ?c = MGranted"
    "\<forall>(k', c') \<in> set (contractors ?s). mc_state c' = MGranted \<longrightarrow> k' = ''b''"
    by code_simp+
  show ?thesis using last_report_completes [OF p refl, of 6 "Value 7" "fst ?r" "snd ?r"] by simp
qed

theorem grant_in_bid_handler_expires_witness:
  "state (snd (manager_on_message 3 (from_contractor ''c'' Bid)
      [DoGrant [(from_contractor ''c'' Bid, new_message Grant)]] (Returns NoneV) (demo_manager_after announcing))) = Some Expired"
proof -
  let ?s = "demo_manager_after announcing" and ?b = "from_contractor ''c'' Bid"
  let ?r = "manager_on_message 3 ?b [DoGrant [(?b, new_message Grant)]] (Returns NoneV) ?s"
  let ?q = "manager_on_message 5 (from_contractor ''c'' FinalReport) [] Defers (snd ?r)"
  have p: "state ?s = Some Announced" "\<not> finalize_called ?s" "dict_ok (contractors ?s)"
    "expected_bids ?s = Some (Suc (length (contractors ?s)))" "m_kind ?b = Bid" "m_reply_to ?b \<noteq> None"
    "map_of (contractors ?s) (key_of ?b) = None" "m_kind (new_message Grant) = Grant"
    "m_kind (from_contractor ''c'' FinalReport) = FinalReport"
    by code_simp+
  show ?thesis
    using grant_in_bid_handler_expires [OF p, of 3 NoneV "fst ?r" "snd ?r" 5 "[]" Defers "fst ?q" "snd ?q"] by simp
qed

theorem elected_bids_are_not_answered_witness:
  "\<exists>c. mc_state c = MElected \<and>
     map_of (contractors (snd (manager_terminate 5 NoneV
       (manager_step (MCommand 4 (DoElect (from_contractor ''a'' Bid))) (demo_manager_after announcing))))) ''a'' = Some c"
proof -
  let ?s = "manager_step (MCommand 4 (DoElect (from_contractor ''a'' Bid))) (demo_manager_after announcing)"
  let ?c = "the (map_of (contractors ?s) ''a'')" and ?r = "manager_terminate 5 NoneV ?s"
  have p: "dict_ok (contractors ?s)" "map_of (contractors ?s) ''a'' = Some ?c" "mc_state ?c = MElected" by code_simp+
  show ?thesis using elected_bids_are_not_answered [OF p, of 5 NoneV "fst ?r" "snd ?r"] p(3) by auto
qed

theorem manager_ends_once_witness:
  "result (fold manager_step ([MInitiate 0 None, MCleanup] @ [MCleanup, MRunJob 3 0]) (manager_new ''m'' 10 10 10 [])) = Some ProtocolExpired"
proof -
  have "result (fold manager_step [MInitiate 0 None, MCleanup] (manager_new ''m'' 10 10 10 [])) = Some ProtocolExpired"
    by code_simp
  from manager_ends_once [OF this, of "[MCleanup, MRunJob 3 0]"] show ?thesis by blast
qed

theorem second_cancel_raises_witness:
  "let s = demo_manager_after granting; (e, s1) = manager_cancel 6 None s; (e', s2) = manager_cancel 7 None s1
   in e = None \<and> e' = Some UnboundLocalError"
proof -
  let ?s = "demo_manager_after granting"
  let ?a = "manager_cancel 6 None ?s"
  let ?b = "manager_cancel 7 None (snd ?a)"
  have p: "dict_ok (contractors ?s)" "state ?s \<in> {Some Granted, Some Cancelled}" "fst ?a = None" by code_simp+
  have "fst ?b = Some UnboundLocalError"
    using second_cancel_raises [OF p(1, 2) surjective_pairing surjective_pairing, of 7 None 6 None] by blast
  then show ?thesis using p(3) by (simp add: Let_def case_prod_unfold)
qed

theorem stray_cancellation_strands_witness:
  "let s = demo_manager_after granting; s1 = snd (manager_on_message 6 (from_contractor ''x'' Cancellation) [] Defers s)
   in s1 = set_machine_state Cancelled s"
proof -
  let ?s = "demo_manager_after granting" and ?m = "from_contractor ''x'' Cancellation"
  let ?a = "manager_on_message 6 ?m [] Defers ?s"
  let ?b = "manager_on_message 7 (from_contractor ''b'' FinalReport) [] Defers (snd ?a)"
  have p: "state ?s = Some Granted" "m_kind ?m = Cancellation" "m_reply_to ?m \<noteq> None"
    "map_of (contractors ?s) (key_of ?m) = None" "m_kind (from_contractor ''b'' FinalReport) = FinalReport"
    by code_simp+
  show ?thesis
    using stray_cancellation_strands [OF p, of 6 "[]" Defers "fst ?a" "snd ?a" 7 "[]" Defers "fst ?b" "snd ?b"]
    by (simp add: Let_def)
qed


end
