(* ===== verification/Procedure.thy ===== *)
theory Procedure
  imports StateMachine
begin

text \<open>
  The users of the state machine mixin in \<open>agencies/common.py\<close>: the connection manager, which
  tells its callbacks about lost and regained connections, and the staged procedure with the
  observer (\<open>common/observer.py\<close>) that remembers its result.
\<close>

section \<open>Connection manager\<close>

datatype connection_state = Connected | Disconnected

text \<open>A callback is a number; \<open>called\<close> lists the callbacks in the order they were called.\<close>

record connection = "connection_state machine" +
  disconnected_cbs :: "nat list"
  reconnected_cbs :: "nat list"
  called :: "nat list"

definition connection_init :: connection where
  "connection_init =
     \<lparr>state = Some Disconnected, waits = [], due = [], fired = [], next_wait = 0,
      disconnected_cbs = [], reconnected_cbs = [], called = []\<rparr>"

definition add_disconnected_cb :: "nat \<Rightarrow> 'a connection_scheme \<Rightarrow> 'a connection_scheme" where
  "add_disconnected_cb cb m = m\<lparr>disconnected_cbs := disconnected_cbs m @ [cb]\<rparr>"

definition add_reconnected_cb :: "nat \<Rightarrow> 'a connection_scheme \<Rightarrow> 'a connection_scheme" where
  "add_reconnected_cb cb m = m\<lparr>reconnected_cbs := reconnected_cbs m @ [cb]\<rparr>"

definition wait_connected :: "'a connection_scheme \<Rightarrow> nat option \<times> 'a connection_scheme" where
  "wait_connected m = wait_for_state [Connected] m"

definition is_connected :: "'a connection_scheme \<Rightarrow> bool" where
  "is_connected m = cmp_state (state m) [Connected]"

definition notify_callbacks :: "nat list \<Rightarrow> 'a connection_scheme \<Rightarrow> 'a connection_scheme" where
  "notify_callbacks cbs m = m\<lparr>called := called m @ cbs\<rparr>"

definition conn_connected :: "'a connection_scheme \<Rightarrow> 'a connection_scheme" where
  "conn_connected m =
     (if cmp_state (state m) [Disconnected]
      then let m = set_machine_state Connected m in notify_callbacks (reconnected_cbs m) m
      else m)"

definition conn_disconnected :: "'a connection_scheme \<Rightarrow> 'a connection_scheme" where
  "conn_disconnected m =
     (if cmp_state (state m) [Connected]
      then let m = set_machine_state Disconnected m in notify_callbacks (disconnected_cbs m) m
      else m)"

text \<open>A history of what the transport reports: True for a connection, False for its loss.\<close>

definition conn_event :: "bool \<Rightarrow> 'a connection_scheme \<Rightarrow> 'a connection_scheme" where
  "conn_event up m = (if up then conn_connected m else conn_disconnected m)"

definition callbacks_of :: "'a connection_scheme \<Rightarrow> bool \<Rightarrow> nat list" where
  "callbacks_of m up = (if up then reconnected_cbs m else disconnected_cbs m)"

lemma set_machine_state_fields [simp]:
  "state (set_machine_state st m) = Some st"
  "waits (set_machine_state st m) = waits m"
  "fired (set_machine_state st m) = fired m"
  "next_wait (set_machine_state st m) = next_wait m"
  "due (set_machine_state st m) = due m @ [st]"
  "machine.more (set_machine_state st m) = machine.more m"
  by (simp_all add: set_machine_state_def Let_def)

lemma set_state_connection [simp]:
  "disconnected_cbs (set_machine_state st m) = disconnected_cbs m"
  "reconnected_cbs (set_machine_state st m) = reconnected_cbs m"
  "called (set_machine_state st m) = called m"
  by (simp_all add: set_machine_state_def Let_def)

definition conn_is :: "bool \<Rightarrow> 'a connection_scheme \<Rightarrow> bool" where
  "conn_is up m \<longleftrightarrow> state m = Some (if up then Connected else Disconnected)"

lemma conn_event_effect:
  assumes "conn_is u m"
  shows "conn_is up (conn_event up m)"
    and "callbacks_of (conn_event up m) b = callbacks_of m b"
    and "called (conn_event up m) = called m @ (if up = u then [] else callbacks_of m up)"
  using assms
  by (auto simp: conn_is_def conn_event_def conn_connected_def conn_disconnected_def cmp_state_def
      Let_def notify_callbacks_def callbacks_of_def split: if_splits)

lemma fold_conn_events:
  "conn_is u m \<Longrightarrow>
     called (fold conn_event evs m) = called m @ concat (map (callbacks_of m) (tl (remdups_adj (u # evs))))"
proof (induction evs arbitrary: u m)
  case (Cons e evs)
  have m': "conn_is e (conn_event e m)" by (rule conn_event_effect(1) [OF Cons.prems])
  have cb: "callbacks_of (conn_event e m) = callbacks_of m"
    by (rule ext) (rule conn_event_effect(2) [OF Cons.prems])
  show ?case
    using Cons.IH [OF m'] conn_event_effect(3) [OF Cons.prems, of e] cb
    hd_remdups_adj [of "e # evs"]
    by (cases "remdups_adj (e # evs)") auto
qed simp

text \<open>The connection manager tells its callbacks about changes only.  Whatever the transport reports
  (True: connected), reports that repeat the current state call nobody, and every change calls all
  callbacks registered for it once, in the order of their registration.\<close>

theorem connection_callbacks_alternate:
  "called (fold conn_event evs (fold add_reconnected_cb rs (fold add_disconnected_cb ds connection_init)))
     = concat (map (\<lambda>up. if up then rs else ds) (tl (remdups_adj (False # evs))))"
proof -
  have d: "fold add_disconnected_cb ds m = m\<lparr>disconnected_cbs := disconnected_cbs m @ ds\<rparr>" for m :: connection
    by (induction ds arbitrary: m) (auto simp: add_disconnected_cb_def)
  have r: "fold add_reconnected_cb rs m = m\<lparr>reconnected_cbs := reconnected_cbs m @ rs\<rparr>" for m :: connection
    by (induction rs arbitrary: m) (auto simp: add_reconnected_cb_def)
  let ?m = "fold add_reconnected_cb rs (fold add_disconnected_cb ds connection_init)"
  have "conn_is False ?m" "called ?m = []" "callbacks_of ?m = (\<lambda>up. if up then rs else ds)"
    by (auto simp: d r conn_is_def callbacks_of_def connection_init_def)
  then show ?thesis using fold_conn_events [of False ?m evs] by simp
qed

section \<open>Observer\<close>

datatype 'v finished = Succeeded 'v | Failed exn

text \<open>
  \<open>ob_told\<close> lists the deferreds \<open>notify_finish\<close> has handed out that have fired, with what they
  were fired with.
\<close>

record 'v observer =
  ob_result :: "'v finished option"
  ob_finished :: bool
  ob_failed :: bool
  ob_waits :: "unit notifier"
  ob_told :: "(nat \<times> 'v finished) list"
  ob_next :: nat

definition observer_init :: "'v observer" where
  "observer_init = \<lparr>ob_result = None, ob_finished = False, ob_failed = False, ob_waits = [], ob_told = [], ob_next = 0\<rparr>"

definition observer_finished_cb :: "'v \<Rightarrow> 'v observer \<Rightarrow> 'v observer" where
  "observer_finished_cb v ob =
     (case notifier_callback () (Succeeded v) (ob_waits ob) of
        (calls, n) \<Rightarrow>
          ob\<lparr>ob_finished := True, ob_result := Some (Succeeded v), ob_waits := n, ob_told := ob_told ob @ calls\<rparr>)"

definition observer_failed_cb :: "exn \<Rightarrow> 'v observer \<Rightarrow> 'v observer" where
  "observer_failed_cb e ob =
     (case notifier_callback () (Failed e) (ob_waits ob) of
        (calls, n) \<Rightarrow>
          ob\<lparr>ob_failed := True, ob_result := Some (Failed e), ob_waits := n, ob_told := ob_told ob @ calls\<rparr>)"

definition observer_done :: "'v finished \<Rightarrow> 'v observer \<Rightarrow> 'v observer" where
  "observer_done r = (case r of Succeeded v \<Rightarrow> observer_finished_cb v | Failed e \<Rightarrow> observer_failed_cb e)"

definition observer_active :: "'v observer \<Rightarrow> bool" where
  "observer_active ob \<longleftrightarrow> \<not> ob_failed ob \<and> \<not> ob_finished ob"

definition observer_get_result :: "'v observer \<Rightarrow> exn + 'v finished option" where
  "observer_get_result ob = (if observer_active ob then Inl RuntimeError else Inr (ob_result ob))"

definition observer_notify_finish :: "'v observer \<Rightarrow> nat \<times> 'v observer" where
  "observer_notify_finish ob =
     (let d = ob_next ob; ob = ob\<lparr>ob_next := d + 1\<rparr>
      in if ob_failed ob \<or> ob_finished ob
         then (d, ob\<lparr>ob_told := ob_told ob @ (case ob_result ob of None \<Rightarrow> [] | Some r \<Rightarrow> [(d, r)])\<rparr>)
         else (d, ob\<lparr>ob_waits := notifier_store () d (ob_waits ob)\<rparr>))"

text \<open>Everybody who asked before or asks after the end learns the result, each of them once.\<close>

definition ask :: "nat \<Rightarrow> 'v observer \<Rightarrow> 'v observer" where
  "ask n ob = ((\<lambda>ob. snd (observer_notify_finish ob)) ^^ n) ob"

lemma ask_before:
  "observer_active ob \<Longrightarrow> ob_waits ob = (if ob_next ob = 0 then [] else [((), [0..<ob_next ob])]) \<Longrightarrow>
     ask n ob = ob\<lparr>ob_next := ob_next ob + n, ob_waits := (if ob_next ob + n = 0 then [] else [((), [0..<ob_next ob + n])])\<rparr>"
proof (induction n)
  case (Suc n)
  then show ?case
    by (auto simp: ask_def observer_notify_finish_def observer_active_def Let_def notifier_store_def
        upt_conv_Cons split: if_splits)
qed (auto simp: ask_def)

lemma ask_after:
  "\<not> observer_active ob \<Longrightarrow> ob_result ob = Some r \<Longrightarrow>
     ask n ob = ob\<lparr>ob_next := ob_next ob + n, ob_told := ob_told ob @ map (\<lambda>d. (d, r)) [ob_next ob..<ob_next ob + n]\<rparr>"
proof (induction n)
  case (Suc n)
  then show ?case
    by (auto simp: ask_def observer_notify_finish_def observer_active_def Let_def)
qed (auto simp: ask_def)

text \<open>Whoever asks for the end of the observed call, before or after it, is told the result once.\<close>

lemma observer_tells_everybody:
  "ob_told (ask n (observer_done r (ask k observer_init))) = map (\<lambda>d. (d, r)) [0..<k + n]"
proof -
  have k: "ask k observer_init = observer_init\<lparr>ob_next := k, ob_waits := (if k = 0 then [] else [((), [0..<k])])\<rparr>"
    by (subst ask_before) (auto simp: observer_init_def observer_active_def)
  let ?ob = "observer_done r (ask k observer_init)"
  have "\<not> observer_active ?ob" "ob_result ?ob = Some r" "ob_next ?ob = k" "ob_told ?ob = map (\<lambda>d. (d, r)) [0..<k]"
    unfolding k
    by (auto simp: observer_done_def observer_finished_cb_def observer_failed_cb_def observer_active_def
        observer_init_def notifier_callback_def notifier_pop_def split: finished.split)
  then show ?thesis by (simp add: ask_after upt_add_eq_append [of 0 k n, simplified])
qed

section \<open>Procedure\<close>

text \<open>
  \<open>run st\<close> is what the method of stage \<open>st\<close>, together with the methods of the base classes that
  share its name, ends with.
\<close>

record 'st procedure = "'st machine" +
  pr_stages_run :: "'st list"
  pr_failures :: "exn list"

definition print_log :: "'v finished \<Rightarrow> ('st, 'a) procedure_scheme \<Rightarrow> ('st, 'a) procedure_scheme" where
  "print_log r p = (case r of Succeeded _ \<Rightarrow> p | Failed e \<Rightarrow> p\<lparr>pr_failures := pr_failures p @ [e]\<rparr>)"

definition run_stage ::
  "('st \<Rightarrow> 'v finished) \<Rightarrow> 'st \<Rightarrow> ('st, 'a) procedure_scheme \<Rightarrow> ('st, 'a) procedure_scheme" where
  "run_stage run st p =
     (let p = set_machine_state st p;
          p = p\<lparr>pr_stages_run := pr_stages_run p @ [st]\<rparr>
      in print_log (run st) p)"

definition format_result :: "('st, 'a) procedure_scheme \<Rightarrow> exn option" where
  "format_result p = (case pr_failures p of [] \<Rightarrow> None | e # _ \<Rightarrow> Some e)"

definition procedure_init :: "'st list option \<Rightarrow> exn + 'st procedure" where
  "procedure_init stages =
     (case stages of
        None \<Rightarrow> Inl NotImplementedError
      | Some sts \<Rightarrow>
          Inr \<lparr>state = (case sts of [] \<Rightarrow> None | st # _ \<Rightarrow> Some st), waits = [], due = [], fired = [],
               next_wait = 0, pr_stages_run = [], pr_failures = []\<rparr>)"

definition procedure_initiate ::
  "'st list \<Rightarrow> ('st \<Rightarrow> 'v finished) \<Rightarrow> ('st, 'a) procedure_scheme \<Rightarrow> exn option \<times> ('st, 'a) procedure_scheme" where
  "procedure_initiate stages run p = (let p = fold (run_stage run) stages p in (format_result p, p))"

definition failure_of :: "'v finished \<Rightarrow> exn option" where
  "failure_of r = (case r of Succeeded _ \<Rightarrow> None | Failed e \<Rightarrow> Some e)"

lemma run_stage_fields:
  "pr_stages_run (run_stage run st p) = pr_stages_run p @ [st]"
  "pr_failures (run_stage run st p) = pr_failures p @ (case failure_of (run st) of None \<Rightarrow> [] | Some e \<Rightarrow> [e])"
  "state (run_stage run st p) = Some st"
  by (auto simp: run_stage_def print_log_def failure_of_def set_machine_state_def Let_def split: finished.split)

lemma fold_run_stage:
  "pr_stages_run (fold (run_stage run) sts p) = pr_stages_run p @ sts"
  "pr_failures (fold (run_stage run) sts p) = pr_failures p @ List.map_filter (failure_of \<circ> run) sts"
  "state (fold (run_stage run) sts p) = (if sts = [] then state p else Some (last sts))"
  by (induction sts arbitrary: p) (auto simp: run_stage_fields map_filter_simps split: option.split)

text \<open>Every stage runs, in order, also after a failure, and the first failure is the result.\<close>

lemma procedure_runs_every_stage:
  assumes "procedure_init (Some stages) = Inr p" and "procedure_initiate stages run p = (r, p')"
  shows "pr_stages_run p' = stages" and "r = (case List.map_filter (failure_of \<circ> run) stages of [] \<Rightarrow> None | e # _ \<Rightarrow> Some e)"
proof -
  have p: "pr_stages_run p = []" "pr_failures p = []" using assms(1) by (auto simp: procedure_init_def)
  have p': "p' = fold (run_stage run) stages p" "r = format_result p'"
    using assms(2) by (auto simp: procedure_initiate_def Let_def)
  show "pr_stages_run p' = stages" using p p' by (simp add: fold_run_stage)
  show "r = (case List.map_filter (failure_of \<circ> run) stages of [] \<Rightarrow> None | e # _ \<Rightarrow> Some e)"
    using p p' by (simp add: fold_run_stage format_result_def)
qed

end
