(* ===== verification/ViewKey.thy ===== *)
theory ViewKey
  imports Strings "HOL-Library.Char_ord" "HOL-Library.List_Lexorder"
begin

text \<open>
  The keys of a view and their order in Python 2 (\<open>database/emu.py\<close>): None comes first, then
  numbers, the empty dictionary, strings and tuples, because objects of different types are
  ordered by the names of their types; \<open>KBiggest\<close> is the object of class \<open>Biggest\<close>, which the
  code substitutes for the empty dictionary at the end of a range.  The order is linear, so the
  library sorts rows by it.
\<close>

datatype vkey = KNone | KInt int | KDict | KStr string | KTuple "vkey list" | KBiggest

fun type_rank :: "vkey \<Rightarrow> nat" where
  "type_rank KNone = 0"
| "type_rank (KInt _) = 1"
| "type_rank KDict = 2"
| "type_rank (KStr _) = 3"
| "type_rank (KTuple _) = 4"
| "type_rank KBiggest = 5"

fun key_less :: "vkey \<Rightarrow> vkey \<Rightarrow> bool" and keys_less :: "vkey list \<Rightarrow> vkey list \<Rightarrow> bool" where
  "key_less (KInt a) y = (case y of KInt b \<Rightarrow> a < b | _ \<Rightarrow> 1 < type_rank y)"
| "key_less (KStr a) y = (case y of KStr b \<Rightarrow> a < b | _ \<Rightarrow> 3 < type_rank y)"
| "key_less (KTuple xs) y = (case y of KTuple ys \<Rightarrow> keys_less xs ys | _ \<Rightarrow> 4 < type_rank y)"
| "key_less KNone y = (0 < type_rank y)"
| "key_less KDict y = (2 < type_rank y)"
| "key_less KBiggest y = False"
| "keys_less [] ys = (ys \<noteq> [])"
| "keys_less (x # xs) ys = (case ys of [] \<Rightarrow> False | y # zs \<Rightarrow> key_less x y \<or> x = y \<and> keys_less xs zs)"

lemma key_less_rank: "key_less x y \<Longrightarrow> type_rank x \<le> type_rank y"
  by (cases x; cases y) auto

lemma rank_less: "type_rank x < type_rank y \<Longrightarrow> key_less x y"
  by (cases x; cases y) auto

lemma keys_less_irrefl: "(\<And>x. x \<in> set xs \<Longrightarrow> \<not> key_less x x) \<Longrightarrow> \<not> keys_less xs xs"
  by (induction xs) auto

lemma key_less_irrefl: "\<not> key_less x x"
  by (induction x) (auto simp: keys_less_irrefl)

lemma keys_less_trans:
  "(\<And>x y z. x \<in> set xs \<Longrightarrow> key_less x y \<Longrightarrow> key_less y z \<Longrightarrow> key_less x z) \<Longrightarrow>
     keys_less xs ys \<Longrightarrow> keys_less ys zs \<Longrightarrow> keys_less xs zs"
proof (induction xs arbitrary: ys zs)
  case Nil
  from Nil.prems(2, 3) show ?case by (cases ys; cases zs) auto
next
  case (Cons x xs)
  obtain y ys' z zs' where yz: "ys = y # ys'" "zs = z # zs'"
    using Cons.prems(2, 3) by (cases ys; cases zs) auto
  from Cons.prems(2, 3) yz consider "key_less x y" "key_less y z" | "key_less x y" "y = z" | "x = y" "key_less y z"
    | "x = y" "y = z" "keys_less xs ys'" "keys_less ys' zs'" by auto
  then show ?case
  proof cases
    case 1
    then have "key_less x z" using Cons.prems(1) [of x y z] by simp
    then show ?thesis by (simp add: yz)
  next
    case 4
    have "keys_less xs zs'" by (rule Cons.IH [OF _ 4(3, 4)]) (use Cons.prems(1) in auto)
    then show ?thesis using 4 by (simp add: yz)
  qed (simp_all add: yz)
qed

lemma key_less_trans: "key_less x y \<Longrightarrow> key_less y z \<Longrightarrow> key_less x z"
proof (induction x arbitrary: y z)
  case (KTuple xs)
  show ?case
  proof (cases "type_rank y = 4 \<and> type_rank z = 4")
    case True
    then obtain ys zs where "y = KTuple ys" "z = KTuple zs" by (cases y; cases z) auto
    then show ?thesis using KTuple keys_less_trans [of xs ys zs] by auto
  next
    case False
    then have "type_rank (KTuple xs) < type_rank z"
      using key_less_rank [OF KTuple.prems(1)] key_less_rank [OF KTuple.prems(2)] by auto
    then show ?thesis by (rule rank_less)
  qed
next
  case (KInt a)
  then show ?case by (cases y; cases z) auto
next
  case (KStr a)
  then show ?case by (cases y; cases z) auto
next
  case KNone
  then show ?case by (cases y; cases z) auto
next
  case KDict
  then show ?case by (cases y; cases z) auto
next
  case KBiggest
  then show ?case by (cases y; cases z) auto
qed

lemma keys_less_total:
  "(\<And>x y. x \<in> set xs \<Longrightarrow> key_less x y \<or> x = y \<or> key_less y x) \<Longrightarrow> keys_less xs ys \<or> xs = ys \<or> keys_less ys xs"
proof (induction xs arbitrary: ys)
  case Nil
  then show ?case by (cases ys) auto
next
  case (Cons x xs)
  show ?case
  proof (cases ys)
    case Nil
    then show ?thesis by simp
  next
    case (Cons y zs)
    have "key_less x y \<or> x = y \<or> key_less y x" by (rule Cons.prems) simp
    moreover have "keys_less xs zs \<or> xs = zs \<or> keys_less zs xs" by (rule Cons.IH) (simp add: Cons.prems)
    ultimately show ?thesis using Cons by auto
  qed
qed

lemma key_less_total: "key_less x y \<or> x = y \<or> key_less y x"
proof (induction x arbitrary: y)
  case (KTuple xs)
  then show ?case using keys_less_total [of xs] by (cases y) auto
next
  case (KInt a)
  then show ?case by (cases y) auto
next
  case (KStr a)
  then show ?case by (cases y) auto
next
  case KNone
  then show ?case by (cases y) auto
next
  case KDict
  then show ?case by (cases y) auto
next
  case KBiggest
  then show ?case by (cases y) auto
qed

instantiation vkey :: linorder
begin

definition less_vkey :: "vkey \<Rightarrow> vkey \<Rightarrow> bool" where
  "less_vkey = key_less"

definition less_eq_vkey :: "vkey \<Rightarrow> vkey \<Rightarrow> bool" where
  "less_eq_vkey x y = (key_less x y \<or> x = y)"

instance
proof
  fix x y z :: vkey
  show "x < y \<longleftrightarrow> x \<le> y \<and> \<not> y \<le> x"
    unfolding less_vkey_def less_eq_vkey_def using key_less_irrefl key_less_trans [of x y x] by blast
  show "x \<le> x" by (simp add: less_eq_vkey_def)
  show "x \<le> y \<Longrightarrow> y \<le> z \<Longrightarrow> x \<le> z"
    unfolding less_eq_vkey_def using key_less_trans [of x y z] by blast
  show "x \<le> y \<Longrightarrow> y \<le> x \<Longrightarrow> x = y"
    unfolding less_eq_vkey_def using key_less_trans [of x y x] key_less_irrefl by blast
  show "x \<le> y \<or> y \<le> x"
    unfolding less_eq_vkey_def using key_less_total [of x y] by blast
qed

end

end
