(* ===== verification/Database.thy ===== *)
theory Database
  imports ViewKey StateMachine
begin

text \<open>
  The emulated CouchDB of \<open>database/emu.py\<close> with the change listeners of \<open>database/client.py\<close>:
  documents with revisions, attachments, the log of changes, views with their cache, reduction
  and the options of a query.

  A document is a record of the keys the database reads; all others are in \<open>d_fields\<close>.  The
  bodies that arrive as JSON are given parsed, None standing for what \<open>json.loads\<close> rejects.
  \<open>uuid\<close> is the identifier a call draws.  The map and reduce functions of a view, its filter and
  the callbacks of the listeners are code of the applications and arguments of the model.
  An operation returns a deferred; \<open>Inl\<close> is its failure or an exception of the call itself.
\<close>

section \<open>Documents and state\<close>

record attachment =
  a_follows :: bool
  a_stub :: bool
  a_content_type :: string
  a_length :: int

record doc =
  d_id :: "string option"
  d_rev :: "string option"
  d_deleted :: bool
  d_atts :: "(string, attachment) dict option"
  d_type :: "string option"
  d_fields :: "(string, string) dict"

text \<open>A value of a view: a number, a dictionary with what it has under \<open>_id\<close>, or anything else.\<close>

datatype vval = VInt int | VDict "string option" | VOther string

record row =
  r_key :: vkey
  r_value :: vval
  r_id :: "string option"
  r_doc :: "doc option option"

datatype reducer = NoReduce | ReduceSum | ReduceCount | ReduceFun "vkey list \<Rightarrow> vval list \<Rightarrow> vval"

record view =
  v_name :: string
  v_map :: "doc \<Rightarrow> (vkey \<times> vval) list"
  v_filter :: "doc \<Rightarrow> string \<Rightarrow> bool"
  v_reduce :: reducer
  v_use_reduce :: bool

datatype db_filter =
    DocIdFilter "(string, (nat \<times> nat) list) dict"
  | ViewFilter view string "(nat, nat) dict"

record emudb =
  documents :: "(string, doc) dict"
  attachments :: "(string, (string, string) dict) dict"
  view_cache :: "(string, (string, row list) dict) dict"
  type_counters :: "(string, int) dict"
  changes :: "doc list"
  filters :: "(string, db_filter) dict"
  scheduled :: "(nat \<times> string \<times> string \<times> bool) list"
  db_stats :: "string statistics"

definition emudb_init :: emudb where
  "emudb_init =
     \<lparr>documents = [], attachments = [], view_cache = [], type_counters = [], changes = [],
      filters = [(''doc_ids'', DocIdFilter [])], scheduled = [], db_stats = []\<rparr>"

type_synonym 'a db_result = "(exn + 'a) \<times> emudb"

definition stat_up :: "string \<Rightarrow> emudb \<Rightarrow> emudb" where
  "stat_up k db = db\<lparr>db_stats := increase_stat k 1 (db_stats db)\<rparr>"

definition text_of :: "string option \<Rightarrow> string" where
  "text_of s = (case s of None \<Rightarrow> [] | Some x \<Rightarrow> x)"

section \<open>Filters of changes\<close>

definition filter_match :: "db_filter \<Rightarrow> doc \<Rightarrow> bool" where
  "filter_match f d =
     (case f of
        DocIdFilter ls \<Rightarrow> dict_has ls (text_of (d_id d))
      | ViewFilter v params _ \<Rightarrow> v_filter v d params)"

definition filter_notified :: "db_filter \<Rightarrow> string \<Rightarrow> string \<Rightarrow> bool \<Rightarrow> (nat \<times> string \<times> string \<times> bool) list" where
  "filter_notified f i r deleted =
     (case f of
        DocIdFilter ls \<Rightarrow> (case map_of ls i of None \<Rightarrow> [] | Some cbs \<Rightarrow> map (\<lambda>(cb, _). (cb, i, r, deleted)) cbs)
      | ViewFilter _ _ ls \<Rightarrow> map (\<lambda>(_, cb). (cb, i, r, deleted)) ls)"

definition docid_add_listener ::
  "nat \<Rightarrow> nat \<Rightarrow> string list \<Rightarrow> (string, (nat \<times> nat) list) dict \<Rightarrow> (string, (nat \<times> nat) list) dict" where
  "docid_add_listener cb l ids ls =
     fold (\<lambda>i ls. AList.update i ((case map_of ls i of None \<Rightarrow> [] | Some cur \<Rightarrow> cur) @ [(cb, l)]) ls) ids ls"

definition docid_cancel_listener ::
  "nat \<Rightarrow> (string, (nat \<times> nat) list) dict \<Rightarrow> bool \<times> (string, (nat \<times> nat) list) dict" where
  "docid_cancel_listener l ls =
     (\<exists>(_, values) \<in> set ls. l \<in> snd ` set values,
      filter (\<lambda>(_, values). values \<noteq> []) (map (\<lambda>(i, values). (i, remove_walking (\<lambda>x. snd x = l) 0 values)) ls))"

definition view_filter_name :: "view \<Rightarrow> string \<Rightarrow> string" where
  "view_filter_name v params = v_name v @ ''?'' @ params"

definition listen_doc_ids :: "string list \<Rightarrow> nat \<Rightarrow> nat \<Rightarrow> emudb \<Rightarrow> nat db_result" where
  "listen_doc_ids ids cb l db =
     (case map_of (filters db) ''doc_ids'' of
        Some (DocIdFilter ls) \<Rightarrow>
          (Inr l, db\<lparr>filters := AList.update ''doc_ids'' (DocIdFilter (docid_add_listener cb l ids ls)) (filters db)\<rparr>)
      | _ \<Rightarrow> (Inl KeyError, db))"

definition listen_view :: "view \<Rightarrow> string \<Rightarrow> nat \<Rightarrow> nat \<Rightarrow> emudb \<Rightarrow> nat db_result" where
  "listen_view v params cb l db =
     (let name = view_filter_name v params;
          f = (case map_of (filters db) name of
                 Some (ViewFilter v' p ls) \<Rightarrow> ViewFilter v' p (AList.update l cb ls)
               | _ \<Rightarrow> ViewFilter v params [(l, cb)])
      in (Inr l, db\<lparr>filters := AList.update name f (filters db)\<rparr>))"

definition cancel_listener :: "nat \<Rightarrow> emudb \<Rightarrow> emudb" where
  "cancel_listener l db =
     db\<lparr>filters := map (\<lambda>(n, f). (n, case f of
           DocIdFilter ls \<Rightarrow> DocIdFilter (snd (docid_cancel_listener l ls))
         | ViewFilter v p ls \<Rightarrow> ViewFilter v p (AList.delete l ls))) (filters db)\<rparr>"

definition analize_changes :: "doc \<Rightarrow> emudb \<Rightarrow> emudb" where
  "analize_changes d db =
     db\<lparr>scheduled := scheduled db @
          concat (map (\<lambda>(_, f). if filter_match f d
                        then filter_notified f (text_of (d_id d)) (text_of (d_rev d)) (d_deleted d) else [])
                    (filters db))\<rparr>"

section \<open>Identifiers and revisions\<close>

text \<open>A text that is empty counts as missing.\<close>

definition present :: "string option \<Rightarrow> string option" where
  "present s = (case s of Some (c # cs) \<Rightarrow> Some (c # cs) | _ \<Rightarrow> None)"

definition next_counter :: "string option \<Rightarrow> exn + int" where
  "next_counter r =
     (case present r of
        None \<Rightarrow> Inr 1
      | Some x \<Rightarrow>
          (case split_on CHR ''-'' x of
             [counter, _] \<Rightarrow> (case int_of_string counter of None \<Rightarrow> Inl ValueError | Some n \<Rightarrow> Inr (n + 1))
           | _ \<Rightarrow> Inl ValueError))"

definition make_rev :: "int \<Rightarrow> string \<Rightarrow> string" where
  "make_rev n uuid = show_int n @ CHR ''-'' # filter (\<lambda>c. c \<noteq> CHR ''-'') uuid"

definition update_rev :: "string \<Rightarrow> doc \<Rightarrow> emudb \<Rightarrow> doc db_result" where
  "update_rev uuid d db =
     (case next_counter (d_rev d) of
        Inl e \<Rightarrow> (Inl e, db)
      | Inr n \<Rightarrow>
          let d = d\<lparr>d_rev := Some (make_rev n uuid)\<rparr>
          in (Inr d, db\<lparr>changes := changes db @ [d]\<rparr>))"

definition generate_id :: "string \<Rightarrow> doc \<Rightarrow> emudb \<Rightarrow> string \<times> emudb" where
  "generate_id uuid d db =
     (case present (d_type d) of
        None \<Rightarrow> (uuid, db)
      | Some t \<Rightarrow>
          let n = (case map_of (type_counters db) t of None \<Rightarrow> 0 | Some n \<Rightarrow> n) + 1
          in (t @ CHR ''_'' # show_int n, db\<lparr>type_counters := AList.update t n (type_counters db)\<rparr>))"

definition revision_conflict :: "doc \<Rightarrow> doc option \<Rightarrow> bool" where
  "revision_conflict d old =
     (case old of
        None \<Rightarrow> False
      | Some cur \<Rightarrow> \<not> d_deleted cur \<and> (d_rev d = None \<or> d_rev cur \<noteq> d_rev d))"

definition set_id_and_revision :: "string \<Rightarrow> string \<Rightarrow> doc \<Rightarrow> string option \<Rightarrow> emudb \<Rightarrow> doc db_result" where
  "set_id_and_revision uuid uuid' d doc_id db =
     (case (case present doc_id of None \<Rightarrow> d_id d | Some i \<Rightarrow> Some i) of
        None \<Rightarrow> (case generate_id uuid d db of (i, db) \<Rightarrow> update_rev uuid' (d\<lparr>d_id := Some i\<rparr>) db)
      | Some i \<Rightarrow>
          if revision_conflict d (map_of (documents db) i) then (Inl ConflictError, db)
          else update_rev uuid' (d\<lparr>d_id := Some i\<rparr>) db)"

definition get_doc :: "string \<Rightarrow> emudb \<Rightarrow> exn + doc" where
  "get_doc i db = (case map_of (documents db) i of None \<Rightarrow> Inl NotFoundError | Some d \<Rightarrow> Inr d)"

definition expire_cache :: "string \<Rightarrow> emudb \<Rightarrow> emudb" where
  "expire_cache i db = db\<lparr>view_cache := AList.delete i (view_cache db)\<rparr>"

section \<open>Saving\<close>

definition doc_atts :: "doc \<Rightarrow> (string, attachment) dict" where
  "doc_atts d = (case d_atts d of None \<Rightarrow> [] | Some a \<Rightarrow> a)"

definition stored_bodies :: "string \<Rightarrow> emudb \<Rightarrow> (string, string) dict" where
  "stored_bodies i db = (case map_of (attachments db) i of None \<Rightarrow> [] | Some b \<Rightarrow> b)"

definition put_doc :: "string \<Rightarrow> doc \<Rightarrow> emudb \<Rightarrow> emudb" where
  "put_doc i d db = db\<lparr>documents := AList.update i d (documents db)\<rparr>"

definition put_body :: "string \<Rightarrow> string \<Rightarrow> string \<Rightarrow> emudb \<Rightarrow> emudb" where
  "put_body i name b db = db\<lparr>attachments := AList.update i (AList.update name b (stored_bodies i db)) (attachments db)\<rparr>"

text \<open>One attachment the document names; the loop changes the document that is already stored.\<close>

definition take_attachment ::
  "(string, string) dict option \<Rightarrow> string \<Rightarrow> string \<Rightarrow> doc \<Rightarrow> emudb \<Rightarrow> exn option \<times> doc \<times> emudb" where
  "take_attachment following i name d db =
     (case map_of (doc_atts d) name of
        None \<Rightarrow> (Some KeyError, d, db)
      | Some a \<Rightarrow>
          if a_follows a then
            (case following of
               None \<Rightarrow> (Some TypeError, d, db)
             | Some bodies \<Rightarrow>
                 (case map_of bodies name of
                    None \<Rightarrow> (Some ValueError, d, db)
                  | Some b \<Rightarrow>
                      let d = d\<lparr>d_atts := Some (AList.update name (a\<lparr>a_follows := False, a_stub := True\<rparr>) (doc_atts d))\<rparr>
                      in (None, d, put_body i name b (put_doc i d db))))
          else if \<not> dict_has (stored_bodies i db) name then (Some ValueError, d, db)
          else (None, d, db))"

fun take_attachments ::
  "(string, string) dict option \<Rightarrow> string \<Rightarrow> string list \<Rightarrow> doc \<Rightarrow> emudb \<Rightarrow> exn option \<times> doc \<times> emudb" where
  "take_attachments following i [] d db = (None, d, db)"
| "take_attachments following i (n # ns) d db =
     (case take_attachment following i n d db of
        (None, d, db) \<Rightarrow> take_attachments following i ns d db
      | r \<Rightarrow> r)"

definition drop_bodies :: "string \<Rightarrow> doc \<Rightarrow> emudb \<Rightarrow> emudb" where
  "drop_bodies i d db =
     db\<lparr>attachments := AList.update i (filter (\<lambda>(n, _). dict_has (doc_atts d) n) (stored_bodies i db)) (attachments db)\<rparr>"

definition save_doc ::
  "string \<Rightarrow> string \<Rightarrow> doc option \<Rightarrow> string option \<Rightarrow> (string, string) dict option \<Rightarrow> emudb \<Rightarrow> (string \<times> string) db_result" where
  "save_doc uuid uuid' body doc_id following db =
     (case body of
        None \<Rightarrow> (Inl ValueError, db)
      | Some d \<Rightarrow>
          (case set_id_and_revision uuid uuid' d doc_id db of
             (Inl e, db) \<Rightarrow> (Inl e, db)
           | (Inr d, db) \<Rightarrow>
               let i = text_of (d_id d);
                   db = put_doc i d (stat_up ''save_doc'' db);
                   db = (if dict_has (attachments db) i then db
                         else db\<lparr>attachments := AList.update i [] (attachments db)\<rparr>)
               in case take_attachments following i (map fst (doc_atts d)) d db of
                    (Some e, _, db) \<Rightarrow> (Inl e, db)
                  | (None, d, db) \<Rightarrow>
                      (Inr (i, text_of (d_rev d)), analize_changes d (expire_cache i (drop_bodies i d db)))))"

section \<open>Reading, copying and deleting\<close>

definition open_doc :: "string \<Rightarrow> emudb \<Rightarrow> doc db_result" where
  "open_doc i db =
     (bindE (get_doc i db) (\<lambda>d. if d_deleted d then Inl NotFoundError else Inr d), stat_up ''open_doc'' db)"

definition copy_doc :: "string \<Rightarrow> string \<Rightarrow> string \<Rightarrow> string \<Rightarrow> string option \<Rightarrow> emudb \<Rightarrow> (string \<times> string) db_result" where
  "copy_doc uuid uuid' i dest r db =
     (case open_doc i db of
        (Inl e, db) \<Rightarrow> (Inl e, db)
      | (Inr d, db) \<Rightarrow> save_doc uuid uuid' (Some (d\<lparr>d_id := Some dest, d_rev := r\<rparr>)) None None db)"

text \<open>The document is changed in place, and without a body the deletion of the attachments raises
  after that.\<close>

definition delete_doc :: "string \<Rightarrow> string \<Rightarrow> string option \<Rightarrow> emudb \<Rightarrow> (string \<times> string) db_result" where
  "delete_doc uuid i revision db =
     (let db = stat_up ''delete_doc'' db
      in case get_doc i db of
           Inl e \<Rightarrow> (Inl e, db)
         | Inr d \<Rightarrow>
             if d_rev d = None then (Inl KeyError, db)
             else if d_rev d \<noteq> revision then (Inl ConflictError, db)
             else if d_deleted d then (Inl NotFoundError, db)
             else
               let d = d\<lparr>d_deleted := True, d_atts := None, d_type := None, d_fields := []\<rparr>;
                   db = put_doc i d (expire_cache i db)
               in if \<not> dict_has (attachments db) i then (Inl KeyError, db)
                  else
                    let db = db\<lparr>attachments := AList.delete i (attachments db)\<rparr>
                    in case update_rev uuid d db of
                         (Inl e, db) \<Rightarrow> (Inl e, db)
                       | (Inr d, db) \<Rightarrow> (Inr (i, text_of (d_rev d)), analize_changes d (put_doc i d db)))"

definition save_attachment :: "string \<Rightarrow> string \<Rightarrow> string \<Rightarrow> string \<Rightarrow> string \<Rightarrow> int \<Rightarrow> string \<Rightarrow> emudb \<Rightarrow> (string \<times> string) db_result" where
  "save_attachment uuid i revision name ctype len body db =
     (case map_of (documents db) i of
        None \<Rightarrow> (Inl NotFoundError, db)
      | Some d \<Rightarrow>
          let d = d\<lparr>d_atts := Some (AList.update name
                     \<lparr>a_follows = False, a_stub = True, a_content_type = ctype, a_length = len\<rparr> (doc_atts d))\<rparr>;
              db = put_doc i d db
          in if \<not> dict_has (attachments db) i then (Inl KeyError, db)
             else
               let db = put_body i name body db
               in case set_id_and_revision [] uuid d (Some i) db of
                    (Inl e, db) \<Rightarrow> (Inl e, db)
                  | (Inr d, db) \<Rightarrow> (Inr (i, text_of (d_rev d)), put_doc i d db))"

definition get_attachment :: "string \<Rightarrow> string \<Rightarrow> emudb \<Rightarrow> exn + string" where
  "get_attachment i name db =
     (case map_of (attachments db) i of
        None \<Rightarrow> Inl NotFoundError
      | Some bs \<Rightarrow> (case map_of bs name of None \<Rightarrow> Inl NotFoundError | Some b \<Rightarrow> Inr b))"

definition get_update_seq :: "emudb \<Rightarrow> nat" where
  "get_update_seq db = length (changes db)"

fun change_rows :: "(doc \<Rightarrow> bool) option \<Rightarrow> nat \<Rightarrow> doc list \<Rightarrow> (nat \<times> string \<times> string) list" where
  "change_rows f s [] = []"
| "change_rows f s (d # ds) =
     (if (case f of None \<Rightarrow> False | Some p \<Rightarrow> \<not> p d) then change_rows f (s + 1) ds
      else (s, text_of (d_id d), text_of (d_rev d)) # change_rows f (s + 1) ds)"

definition get_changes :: "(doc \<Rightarrow> bool) option \<Rightarrow> nat \<Rightarrow> emudb \<Rightarrow> (nat \<times> string \<times> string) list \<times> nat" where
  "get_changes f since db = (change_rows f since (drop since (changes db)), length (changes db))"

definition bulk_row :: "string \<Rightarrow> emudb \<Rightarrow> (doc \<times> string \<times> bool) option" where
  "bulk_row i db =
     (case get_doc i db of Inl _ \<Rightarrow> None | Inr d \<Rightarrow> Some (d, text_of (d_rev d), d_deleted d))"

definition bulk_get :: "string list \<Rightarrow> emudb \<Rightarrow> (doc \<times> string \<times> bool) option list \<times> emudb" where
  "bulk_get is db = (map (\<lambda>i. bulk_row i db) is, fold (\<lambda>_. stat_up ''open_doc'') is db)"

definition load_fixture :: "doc \<Rightarrow> (string, string) dict \<Rightarrow> emudb \<Rightarrow> unit db_result" where
  "load_fixture d bodies db =
     (case d_id d of
        None \<Rightarrow> (Inl KeyError, db)
      | Some i \<Rightarrow>
          (Inr (), (put_doc i d db)\<lparr>attachments := AList.update i
             (map (\<lambda>(n, _). (n, case map_of bodies n of None \<Rightarrow> ''stub'' | Some b \<Rightarrow> b)) (doc_atts d)) (attachments db)\<rparr>))"

end
