(* ===== verification/Query.thy ===== *)
theory Query
  imports Database
begin

text \<open>
  Queries of views in the emulated CouchDB (\<open>query_view\<close> and its private methods in
  \<open>database/emu.py\<close>).  The map of a document comes from the cache when the cached list is not
  empty; the walk over the documents threads the cache through.  The options that are absent are
  None, the callback \<open>post_process\<close> is an argument.  Rows of a reduced view have no document id.
\<close>

section \<open>Options and the choice of rows\<close>

record query_options =
  q_key :: "vkey option"
  q_keys :: "vkey list option"
  q_startkey :: "vkey option"
  q_endkey :: "vkey option"
  q_descending :: bool
  q_skip :: int
  q_limit :: "int option"
  q_reduce :: bool
  q_group :: bool
  q_group_level :: "int option"
  q_include_docs :: bool
  q_post_process :: "(row list \<Rightarrow> string \<Rightarrow> row list) option"

definition biggest_for_dict :: "vkey option \<Rightarrow> vkey option" where
  "biggest_for_dict k =
     (case k of
        Some (KTuple xs) \<Rightarrow> Some (KTuple (map (\<lambda>x. if x = KDict then KBiggest else x) xs))
      | _ \<Rightarrow> k)"

definition range_options :: "query_options \<Rightarrow> query_options" where
  "range_options q = q\<lparr>q_startkey := biggest_for_dict (q_startkey q), q_endkey := biggest_for_dict (q_endkey q)\<rparr>"

definition past_start :: "bool \<Rightarrow> vkey option \<Rightarrow> vkey \<Rightarrow> bool" where
  "past_start descending start k =
     (case start of None \<Rightarrow> True | Some s \<Rightarrow> if descending then \<not> s < k else \<not> k < s)"

definition before_end :: "bool \<Rightarrow> vkey option \<Rightarrow> vkey \<Rightarrow> bool" where
  "before_end descending stop k = past_start (\<not> descending) stop k"

definition matches_filter :: "query_options \<Rightarrow> row \<Rightarrow> bool" where
  "matches_filter q r =
     ((case q_key q of None \<Rightarrow> True | Some k \<Rightarrow> k = r_key r) \<and>
      (case q_keys q of None \<Rightarrow> True | Some ks \<Rightarrow> r_key r \<in> set ks) \<and>
      past_start (q_descending q) (q_startkey q) (r_key r) \<and>
      before_end (q_descending q) (q_endkey q) (r_key r))"

section \<open>Mapping with the cache\<close>

definition get_cache :: "string \<Rightarrow> string \<Rightarrow> emudb \<Rightarrow> row list option" where
  "get_cache i name db = (case map_of (view_cache db) i of None \<Rightarrow> None | Some vs \<Rightarrow> map_of vs name)"

definition set_cache :: "string \<Rightarrow> string \<Rightarrow> row list \<Rightarrow> emudb \<Rightarrow> emudb" where
  "set_cache i name rows db =
     (let vs = (case map_of (view_cache db) i of None \<Rightarrow> [] | Some vs \<Rightarrow> vs)
      in db\<lparr>view_cache := AList.update i (AList.update name rows vs) (view_cache db)\<rparr>)"

definition map_rows :: "view \<Rightarrow> doc \<Rightarrow> row list" where
  "map_rows v d = map (\<lambda>(k, x). \<lparr>r_key = k, r_value = x, r_id = d_id d, r_doc = None\<rparr>) (v_map v d)"

definition perform_map :: "view \<Rightarrow> doc \<Rightarrow> emudb \<Rightarrow> row list \<times> emudb" where
  "perform_map v d db =
     (let i = text_of (d_id d)
      in case get_cache i (v_name v) db of
           Some (r # rs) \<Rightarrow> (r # rs, db)
         | _ \<Rightarrow> (map_rows v d, set_cache i (v_name v) (map_rows v d) db))"

definition iterdocs :: "emudb \<Rightarrow> doc list" where
  "iterdocs db = filter (\<lambda>d. \<not> d_deleted d) (map snd (documents db))"

fun flatten :: "query_options \<Rightarrow> view \<Rightarrow> doc list \<Rightarrow> emudb \<Rightarrow> row list \<times> emudb" where
  "flatten q v [] db = ([], db)"
| "flatten q v (d # ds) db =
     (case perform_map v d db of
        (rows, db) \<Rightarrow>
          (case flatten q v ds db of (rest, db) \<Rightarrow> (filter (matches_filter q) rows @ rest, db)))"

section \<open>Reducing\<close>

text \<open>\<open>xs[lo:hi]\<close>, where a negative bound counts from the end.\<close>

definition slice_bound :: "'a list \<Rightarrow> int \<Rightarrow> nat" where
  "slice_bound xs n = nat (if n < 0 then int (length xs) + n else n)"

definition slice :: "int \<Rightarrow> int \<Rightarrow> 'a list \<Rightarrow> 'a list" where
  "slice lo hi xs = drop (slice_bound xs lo) (take (slice_bound xs hi) xs)"

fun hashable :: "vkey \<Rightarrow> bool" where
  "hashable (KTuple xs) = (\<forall>x\<in>set xs. hashable x)"
| "hashable KDict = False"
| "hashable _ = True"

definition group_key :: "bool \<Rightarrow> int \<Rightarrow> vkey \<Rightarrow> exn + vkey" where
  "group_key whole level k =
     (if whole then Inr k
      else case k of
             KTuple xs \<Rightarrow> Inr (KTuple (slice 0 level xs))
           | KStr s \<Rightarrow> Inr (KStr (slice 0 level s))
           | _ \<Rightarrow> Inl TypeError)"

fun sum_values :: "int \<Rightarrow> vval list \<Rightarrow> exn + int" where
  "sum_values acc [] = Inr acc"
| "sum_values acc (VInt n # vs) = sum_values (acc + n) vs"
| "sum_values acc (_ # vs) = Inl TypeError"

definition reduce_values :: "view \<Rightarrow> vkey \<Rightarrow> (vkey \<times> vval) list \<Rightarrow> exn + row list" where
  "reduce_values v g kvs =
     (if kvs = [] then Inr []
      else
        bindE (case v_reduce v of
                 NoReduce \<Rightarrow> Inl UnboundLocalError
               | ReduceSum \<Rightarrow> bindE (sum_values 0 (map snd kvs)) (\<lambda>n. Inr (VInt n))
               | ReduceCount \<Rightarrow> Inr (VInt (int (length kvs)))
               | ReduceFun f \<Rightarrow> Inr (f (map fst kvs) (map snd kvs)))
          (\<lambda>x. Inr [\<lparr>r_key = g, r_value = x, r_id = None, r_doc = None\<rparr>]))"

fun group_rows ::
  "bool \<Rightarrow> int \<Rightarrow> row list \<Rightarrow> (vkey, (vkey \<times> vval) list) dict \<Rightarrow> exn + (vkey, (vkey \<times> vval) list) dict" where
  "group_rows whole level [] gs = Inr gs"
| "group_rows whole level (r # rs) gs =
     bindE (group_key whole level (r_key r)) (\<lambda>g.
       if \<not> hashable g then Inl TypeError
       else group_rows whole level rs
              (AList.update g ((case map_of gs g of None \<Rightarrow> [] | Some kvs \<Rightarrow> kvs) @ [(r_key r, r_value r)]) gs))"

fun reduce_groups :: "view \<Rightarrow> (vkey, (vkey \<times> vval) list) dict \<Rightarrow> exn + row list" where
  "reduce_groups v [] = Inr []"
| "reduce_groups v ((g, kvs) # gs) =
     bindE (reduce_values v g kvs) (\<lambda>rows. bindE (reduce_groups v gs) (\<lambda>rest. Inr (rows @ rest)))"

definition perform_reduce :: "view \<Rightarrow> bool \<Rightarrow> int option \<Rightarrow> row list \<Rightarrow> exn + row list" where
  "perform_reduce v whole level rows =
     (if \<not> whole \<and> level = None then reduce_values v KNone (map (\<lambda>r. (r_key r, r_value r)) rows)
      else bindE (group_rows whole (case level of None \<Rightarrow> 0 | Some n \<Rightarrow> n) rows []) (reduce_groups v))"

section \<open>The end of a query\<close>

definition include_doc :: "emudb \<Rightarrow> row \<Rightarrow> row" where
  "include_doc db r =
     (let i = (case r_value r of VDict (Some i) \<Rightarrow> i | _ \<Rightarrow> text_of (r_id r))
      in r\<lparr>r_doc := Some (case get_doc i db of
                            Inl _ \<Rightarrow> None
                          | Inr d \<Rightarrow> if d_deleted d then None else Some d)\<rparr>)"

definition apply_slice :: "int \<Rightarrow> int option \<Rightarrow> 'a list \<Rightarrow> 'a list" where
  "apply_slice skip limit rows =
     (if 0 < skip \<or> limit \<noteq> None then
        (case limit of None \<Rightarrow> slice skip (- 1) rows | Some n \<Rightarrow> slice skip (skip + n) rows)
      else rows)"

definition sort_by_key :: "bool \<Rightarrow> row list \<Rightarrow> row list" where
  "sort_by_key descending rows =
     (if descending then rev (sort_key r_key (rev rows)) else sort_key r_key rows)"

definition finish_query :: "query_options \<Rightarrow> view \<Rightarrow> bool \<Rightarrow> emudb \<Rightarrow> row list \<Rightarrow> exn + row list" where
  "finish_query q v use_reduce db rows =
     bindE (if use_reduce then perform_reduce v (q_group q) (q_group_level q) rows else Inr rows) (\<lambda>rows.
       let rows = (if q_include_docs q then map (include_doc db) rows else rows);
           rows = sort_by_key (q_descending q) (apply_slice (q_skip q) (q_limit q) rows)
       in Inr (case q_post_process q of None \<Rightarrow> rows | Some f \<Rightarrow> f rows (''query to '' @ v_name v)))"

definition query_view :: "view \<Rightarrow> query_options \<Rightarrow> emudb \<Rightarrow> row list db_result" where
  "query_view v q db =
     (let use_reduce = (v_use_reduce v \<and> q_reduce q)
      in if q_keys q \<noteq> None \<and> (case q_group_level q of None \<Rightarrow> False | Some n \<Rightarrow> n \<noteq> 0) then (Inl ValueError, db)
         else if use_reduce \<and> q_include_docs q then (Inl ValueError, db)
         else
           (case flatten (range_options q) v (iterdocs db) db of
              (rows, db) \<Rightarrow> (finish_query q v use_reduce db rows, db)))"

end
