(* ===== verification/DatabaseProps.thy ===== *)
theory DatabaseProps
  imports Query
begin

text \<open>
  What the emulated CouchDB guarantees: the effect of every writing operation on the documents,
  the log of changes and the view cache, the history of a database as a list of calls, the
  protection against lost updates and what the feed of changes tells.
\<close>

section \<open>Revisions\<close>

lemma show_nat_no_dash: "CHR ''-'' \<notin> set (show_nat n)"
  using show_nat_digits [of n] digit_chars by fastforce

lemma next_counter_make_rev: "0 \<le> n \<Longrightarrow> next_counter (Some (make_rev n u)) = Inr (n + 1)"
proof -
  assume n: "0 \<le> n"
  then have no: "CHR ''-'' \<notin> set (show_int n)" by (simp add: show_int_def show_nat_no_dash)
  have "present (Some (make_rev n u)) = Some (make_rev n u)"
    by (auto simp: make_rev_def present_def split: list.splits)
  moreover have "split_on CHR ''-'' (make_rev n u) = [show_int n, filter (\<lambda>c. c \<noteq> CHR ''-'') u]"
    using split_on_append [OF no] split_on_plain [of "CHR ''-''" "filter (\<lambda>c. c \<noteq> CHR ''-'') u"]
    by (simp add: make_rev_def)
  ultimately show ?thesis by (simp add: next_counter_def int_of_show_int)
qed

lemma make_rev_negative: "n < 0 \<Longrightarrow> next_counter (Some (make_rev n u)) = Inl ValueError"
proof -
  assume n: "n < 0"
  have "split_on CHR ''-'' (make_rev n u) =
      [[], show_nat (nat (- n)), filter (\<lambda>c. c \<noteq> CHR ''-'') u]"
    using n split_on_append [OF show_nat_no_dash [of "nat (- n)"]]
      split_on_plain [of "CHR ''-''" "filter (\<lambda>c. c \<noteq> CHR ''-'') u"]
    by (simp add: make_rev_def show_int_def)
  moreover have "present (Some (make_rev n u)) = Some (make_rev n u)"
    by (auto simp: make_rev_def present_def split: list.splits)
  ultimately show ?thesis by (simp add: next_counter_def)
qed

lemma revision_changes: "next_counter r = Inr n \<Longrightarrow> r \<noteq> Some (make_rev n u)"
  using next_counter_make_rev [of n u] make_rev_negative [of n u] by (cases "0 \<le> n") auto

section \<open>What an operation writes\<close>

text \<open>An operation that writes document \<open>d\<close> under \<open>i\<close> either logs the revision it gives it or keeps
  the revision that was there.\<close>

definition writes :: "string \<Rightarrow> doc \<Rightarrow> emudb \<Rightarrow> emudb \<Rightarrow> bool" where
  "writes i d db db' =
     (map_of (documents db') = (map_of (documents db))(i \<mapsto> d) \<and>
      (dict_ok (documents db) \<longrightarrow> dict_ok (documents db')) \<and> d_id d = Some i \<and>
      ((\<exists>c. changes db' = changes db @ [c] \<and> d_id c = Some i \<and> d_rev c = d_rev d) \<or>
       changes db' = changes db \<and> (\<exists>cur. map_of (documents db) i = Some cur \<and> d_rev cur = d_rev d)))"

lemma map_of_update_fun: "map_of (AList.update k v d) = (map_of d)(k \<mapsto> v)"
  by (rule ext) (simp add: dict_simps)

lemma take_attachments_effect:
  "take_attachments f i ns d db = (e, d', db') \<Longrightarrow> map_of (documents db) i = Some d \<Longrightarrow>
     map_of (documents db') = (map_of (documents db))(i \<mapsto> d') \<and>
     (dict_ok (documents db) \<longrightarrow> dict_ok (documents db')) \<and>
     view_cache db' = view_cache db \<and> changes db' = changes db \<and>
     d_id d' = d_id d \<and> d_rev d' = d_rev d \<and> d_deleted d' = d_deleted d"
proof (induction ns arbitrary: d db)
  case Nil
  then show ?case by (auto simp: fun_upd_idem)
next
  case (Cons n ns)
  obtain e1 d1 db1 where one: "take_attachment f i n d db = (e1, d1, db1)" by (cases "take_attachment f i n d db") auto
  have eff: "map_of (documents db1) = (map_of (documents db))(i \<mapsto> d1) \<and>
     (dict_ok (documents db) \<longrightarrow> dict_ok (documents db1)) \<and>
     view_cache db1 = view_cache db \<and> changes db1 = changes db \<and>
     d_id d1 = d_id d \<and> d_rev d1 = d_rev d \<and> d_deleted d1 = d_deleted d"
    using one Cons.prems(2)
    by (auto simp: take_attachment_def put_doc_def put_body_def map_of_update_fun fun_upd_idem Let_def
        split: option.splits if_splits)
  show ?case
  proof (cases e1)
    case None
    have "map_of (documents db1) i = Some d1" using eff by simp
    moreover have "take_attachments f i ns d1 db1 = (e, d', db')" using Cons.prems(1) one None by simp
    ultimately show ?thesis using Cons.IH [of d1 db1] eff by (auto simp: fun_eq_iff)
  next
    case (Some x)
    then show ?thesis using Cons.prems(1) one eff by auto
  qed
qed

lemma set_id_and_revision_effect:
  assumes "set_id_and_revision u u' d i db = (r, db1)"
  shows "documents db1 = documents db \<and> view_cache db1 = view_cache db \<and> attachments db1 = attachments db \<and>
    (case r of
       Inl _ \<Rightarrow> changes db1 = changes db
     | Inr d1 \<Rightarrow> changes db1 = changes db @ [d1] \<and> (\<exists>j. d_id d1 = Some j))"
  using assms
  by (auto simp: set_id_and_revision_def update_rev_def generate_id_def Let_def
      split: option.splits if_splits sum.splits)

lemma save_doc_effect:
  assumes "save_doc u u' body i f db = (r, db')"
  shows "(\<exists>e. r = Inl e \<and> documents db' = documents db \<and> view_cache db' = view_cache db \<and> changes db' = changes db) \<or>
    (\<exists>j d. writes j d db db' \<and>
       (r = Inr (j, text_of (d_rev d)) \<and> view_cache db' = AList.delete j (view_cache db) \<or>
        (\<exists>e. r = Inl e) \<and> view_cache db' = view_cache db))"
proof (cases body)
  case None
  then show ?thesis using assms by (auto simp: save_doc_def)
next
  case (Some d)
  obtain r1 db1 where s: "set_id_and_revision u u' d i db = (r1, db1)" by (cases "set_id_and_revision u u' d i db") auto
  note eff = set_id_and_revision_effect [OF s]
  show ?thesis
  proof (cases r1)
    case (Inl e)
    then show ?thesis using assms Some s eff by (auto simp: save_doc_def)
  next
    case (Inr d1)
    with eff obtain j where j: "d_id d1 = Some j" and c1: "changes db1 = changes db @ [d1]" by auto
    define db2 where "db2 = put_doc j d1 (stat_up ''save_doc'' db1)"
    define db3 where "db3 = (if dict_has (attachments db2) j then db2
                             else db2\<lparr>attachments := AList.update j [] (attachments db2)\<rparr>)"
    have doc3: "map_of (documents db3) = (map_of (documents db))(j \<mapsto> d1)"
      and ok3: "dict_ok (documents db) \<longrightarrow> dict_ok (documents db3)"
      and rest3: "changes db3 = changes db @ [d1]" "view_cache db3 = view_cache db"
      using eff c1 by (simp_all add: db3_def db2_def put_doc_def stat_up_def map_of_update_fun)
    obtain e d4 db4 where t: "take_attachments f j (map fst (doc_atts d1)) d1 db3 = (e, d4, db4)"
      by (cases "take_attachments f j (map fst (doc_atts d1)) d1 db3") auto
    have t': "map_of (documents db4) = (map_of (documents db3))(j \<mapsto> d4) \<and>
       (dict_ok (documents db3) \<longrightarrow> dict_ok (documents db4)) \<and>
       view_cache db4 = view_cache db3 \<and> changes db4 = changes db3 \<and>
       d_id d4 = d_id d1 \<and> d_rev d4 = d_rev d1 \<and> d_deleted d4 = d_deleted d1"
      by (rule take_attachments_effect [OF t]) (simp add: doc3)
    have w: "writes j d4 db db4"
      using t' doc3 ok3 rest3 j by (auto simp: writes_def)
    have res: "(r, db') = (case e of Some e \<Rightarrow> (Inl e, db4)
                 | None \<Rightarrow> (Inr (j, text_of (d_rev d4)), analize_changes d4 (expire_cache j (drop_bodies j d4 db4))))"
    proof -
      have "(r, db') = (case take_attachments f j (map fst (doc_atts d1)) d1 db3 of
                 (Some e, _, db) \<Rightarrow> (Inl e, db)
               | (None, d, db) \<Rightarrow> (Inr (j, text_of (d_rev d)), analize_changes d (expire_cache j (drop_bodies j d db))))"
        unfolding assms [symmetric] save_doc_def Some
        by (simp add: s Inr j Let_def db3_def db2_def text_of_def cong: if_cong split del: if_split)
      then show ?thesis unfolding t by (simp split: option.splits)
    qed
    show ?thesis
    proof (cases e)
      case None
      then have "db' = analize_changes d4 (expire_cache j (drop_bodies j d4 db4))" "r = Inr (j, text_of (d_rev d4))"
        using res by simp_all
      then have "writes j d4 db db'" "view_cache db' = AList.delete j (view_cache db)"
        using w t' rest3 by (simp_all add: writes_def analize_changes_def expire_cache_def drop_bodies_def)
      then show ?thesis using \<open>r = _\<close> by blast
    next
      case (Some x)
      then show ?thesis using res w t' rest3 by auto
    qed
  qed
qed

definition keeps :: "emudb \<Rightarrow> emudb \<Rightarrow> bool" where
  "keeps db db' = (documents db' = documents db \<and> changes db' = changes db \<and> view_cache db' = view_cache db)"

lemma delete_doc_effect:
  assumes "delete_doc u i rv db = (r, db')" and ids: "\<And>j d. map_of (documents db) j = Some d \<Longrightarrow> d_id d = Some j"
  shows "keeps db db' \<or> (\<exists>d. writes i d db db' \<and> view_cache db' = AList.delete i (view_cache db))"
proof (cases "map_of (documents db) i")
  case None
  then show ?thesis using assms(1)
    by (auto simp: delete_doc_def get_doc_def stat_up_def keeps_def)
next
  case (Some d)
  define d1 where "d1 = d\<lparr>d_deleted := True, d_atts := None, d_type := None, d_fields := []\<rparr>"
  define db1 where "db1 = put_doc i d1 (expire_cache i (stat_up ''delete_doc'' db))"
  have i: "d_id d = Some i" by (rule ids [OF Some])
  have get: "get_doc i (stat_up ''delete_doc'' db) = Inr d" using Some by (simp add: get_doc_def stat_up_def)
  have one: "map_of (documents db1) = (map_of (documents db))(i \<mapsto> d1)" "dict_ok (documents db) \<Longrightarrow> dict_ok (documents db1)"
    "changes db1 = changes db" "view_cache db1 = AList.delete i (view_cache db)"
    by (simp_all add: db1_def put_doc_def expire_cache_def stat_up_def map_of_update_fun)
  have w1: "writes i d1 db db1" using one Some i by (simp add: writes_def d1_def)
  show ?thesis
  proof (cases "d_rev d = None \<or> d_rev d \<noteq> rv \<or> d_deleted d")
    case True
    then have "keeps db db'"
      using assms(1) get by (auto simp: delete_doc_def Let_def keeps_def stat_up_def split: if_splits)
    then show ?thesis ..
  next
    case False
    then have cond: "d_rev d \<noteq> None" "rv = d_rev d" "\<not> d_deleted d" by simp_all
    have eq: "(r, db') =
      (if \<not> dict_has (attachments db1) i then (Inl KeyError, db1)
       else case update_rev u d1 (db1\<lparr>attachments := AList.delete i (attachments db1)\<rparr>) of
              (Inl e, db) \<Rightarrow> (Inl e, db)
            | (Inr d, db) \<Rightarrow> (Inr (i, text_of (d_rev d)), analize_changes d (put_doc i d db)))"
      unfolding assms(1) [symmetric] delete_doc_def
      by (simp add: get cond Let_def db1_def d1_def cong: if_cong split del: if_split)
    show ?thesis
    proof (cases "dict_has (attachments db1) i \<and> (\<exists>n. next_counter (d_rev d) = Inr n)")
      case True
      then obtain n where n: "next_counter (d_rev d) = Inr n" by blast
      define d2 where "d2 = d1\<lparr>d_rev := Some (make_rev n u)\<rparr>"
      have "documents db' = AList.update i d2 (documents db1)" "changes db' = changes db @ [d2]"
        "view_cache db' = AList.delete i (view_cache db)"
        using eq True n one
        by (simp_all add: update_rev_def d1_def d2_def Let_def put_doc_def analize_changes_def)
      then have "writes i d2 db db'"
        using one i by (simp add: writes_def map_of_update_fun d2_def d1_def fun_eq_iff)
      then show ?thesis using \<open>view_cache db' = _\<close> by blast
    next
      case False
      then have "documents db' = documents db1" "changes db' = changes db1" "view_cache db' = view_cache db1"
        using eq by (auto simp: update_rev_def d1_def split: if_splits sum.splits)
      then have "writes i d1 db db'" using w1 by (simp add: writes_def)
      then show ?thesis using \<open>view_cache db' = _\<close> one(4) by auto
    qed
  qed
qed

lemma save_attachment_effect:
  assumes "save_attachment u i rv name ct len b db = (r, db')"
    and ids: "\<And>j d. map_of (documents db) j = Some d \<Longrightarrow> d_id d = Some j"
  shows "keeps db db' \<or> (\<exists>d. writes i d db db' \<and> view_cache db' = view_cache db)"
proof (cases "map_of (documents db) i")
  case None
  then show ?thesis using assms(1) by (auto simp: save_attachment_def keeps_def)
next
  case (Some d)
  define d1 where "d1 = d\<lparr>d_atts := Some (AList.update name
                     \<lparr>a_follows = False, a_stub = True, a_content_type = ct, a_length = len\<rparr> (doc_atts d))\<rparr>"
  define db1 where "db1 = put_doc i d1 db"
  have i: "d_id d1 = Some i" using ids [OF Some] by (simp add: d1_def)
  have one: "map_of (documents db1) = (map_of (documents db))(i \<mapsto> d1)" "dict_ok (documents db) \<Longrightarrow> dict_ok (documents db1)"
    "changes db1 = changes db" "view_cache db1 = view_cache db"
    by (simp_all add: db1_def put_doc_def map_of_update_fun)
  have w1: "writes i d1 db db1" using one Some i by (simp add: writes_def d1_def)
  have eq: "(r, db') =
      (if \<not> dict_has (attachments db1) i then (Inl KeyError, db1)
       else case set_id_and_revision [] u d1 (Some i) (put_body i name b db1) of
              (Inl e, db) \<Rightarrow> (Inl e, db)
            | (Inr d, db) \<Rightarrow> (Inr (i, text_of (d_rev d)), put_doc i d db))"
    unfolding assms(1) [symmetric] save_attachment_def Some
    by (simp add: Let_def db1_def d1_def cong: if_cong split del: if_split)
  obtain r2 db2 where s: "set_id_and_revision [] u d1 (Some i) (put_body i name b db1) = (r2, db2)"
    by (cases "set_id_and_revision [] u d1 (Some i) (put_body i name b db1)") auto
  note eff = set_id_and_revision_effect [OF s]
  show ?thesis
  proof (cases "dict_has (attachments db1) i \<and> (\<exists>d2. r2 = Inr d2)")
    case True
    then obtain d2 where r2: "r2 = Inr d2" by blast
    have "d_id d2 = Some i"
      using s i unfolding r2
      by (cases i) (auto simp: set_id_and_revision_def update_rev_def present_def Let_def split: if_splits sum.splits)
    moreover have "documents db' = AList.update i d2 (documents db1)" "changes db' = changes db @ [d2]"
      "view_cache db' = view_cache db"
      using eq s True r2 eff one by (simp_all add: put_body_def put_doc_def)
    ultimately have "writes i d2 db db'"
      using one i by (simp add: writes_def map_of_update_fun fun_eq_iff)
    then show ?thesis using \<open>view_cache db' = _\<close> by blast
  next
    case False
    then have "documents db' = documents db1 \<and> changes db' = changes db1 \<and> view_cache db' = view_cache db1"
      using eq s eff by (auto simp: put_body_def split: if_splits sum.splits)
    then have "writes i d1 db db'" "view_cache db' = view_cache db" using w1 one(4) by (simp_all add: writes_def)
    then show ?thesis by blast
  qed
qed

lemma copy_doc_effect:
  assumes "copy_doc u u' i dest rv db = (r, db')"
  shows "keeps db db' \<or>
    (\<exists>j d. writes j d db db' \<and>
       ((\<exists>x. r = Inr x) \<and> view_cache db' = AList.delete j (view_cache db) \<or>
        (\<exists>e. r = Inl e) \<and> view_cache db' = view_cache db))"
proof -
  obtain r1 db1 where o1: "open_doc i db = (r1, db1)" by (cases "open_doc i db") auto
  then have db1: "db1 = stat_up ''open_doc'' db" by (simp add: open_doc_def)
  show ?thesis
  proof (cases r1)
    case (Inl e)
    then show ?thesis using assms o1 db1 by (auto simp: copy_doc_def keeps_def stat_up_def)
  next
    case (Inr d)
    have "save_doc u u' (Some (d\<lparr>d_id := Some dest, d_rev := rv\<rparr>)) None None db1 = (r, db')"
      using assms o1 Inr by (simp add: copy_doc_def)
    note eff = save_doc_effect [OF this]
    have w: "writes j d db1 db' = writes j d db db'" for j d by (simp add: db1 writes_def stat_up_def)
    have same: "documents db1 = documents db" "changes db1 = changes db" "view_cache db1 = view_cache db"
      by (simp_all add: db1 stat_up_def)
    show ?thesis using eff unfolding w same keeps_def by blast
  qed
qed

end
