(* ===== verification/QueryProps.thy ===== *)
theory QueryProps
  imports DatabaseProps
begin

text \<open>
  Histories of the emulated database and the theorems about them: the view cache is invisible, the
  feed of changes gives the current revisions, an update of an old revision is refused.  The cache
  is an interface with two laws, from which its coherence follows for any store that obeys them.
\<close>

section \<open>A cache of rows\<close>

locale row_cache =
  fixes get :: "'s \<Rightarrow> 'i \<times> 'n \<Rightarrow> 'r option"
    and put :: "'i \<Rightarrow> 'n \<Rightarrow> 'r \<Rightarrow> 's \<Rightarrow> 's"
    and expire :: "'i \<Rightarrow> 's \<Rightarrow> 's"
  assumes get_put: "get (put i n x s) k = (if k = (i, n) then Some x else get s k)"
    and get_expire: "get (expire i s) k = (if fst k = i then None else get s k)"
begin

lemma put_fresh: "get s \<subseteq>\<^sub>m rows \<Longrightarrow> rows (i, n) = Some x \<Longrightarrow> get (put i n x s) \<subseteq>\<^sub>m rows"
  by (auto simp: map_le_def dom_def get_put)

lemma expire_fresh:
  "get s \<subseteq>\<^sub>m rows \<Longrightarrow> (\<And>k. fst k \<noteq> i \<Longrightarrow> rows' k = rows k) \<Longrightarrow> get (expire i s) \<subseteq>\<^sub>m rows'"
  by (fastforce simp: map_le_def dom_def get_expire split: if_splits)

lemma get_fresh: "get s \<subseteq>\<^sub>m rows \<Longrightarrow> rows k = Some x \<Longrightarrow> get s k = Some y \<Longrightarrow> y = x"
  by (metis domI map_le_def option.inject)

end

definition cached_rows :: "emudb \<Rightarrow> string \<times> string \<Rightarrow> row list option" where
  "cached_rows db = (\<lambda>(i, n). get_cache i n db)"

interpretation rc: row_cache cached_rows set_cache expire_cache
  by unfold_locales
    (auto simp: cached_rows_def get_cache_def set_cache_def expire_cache_def Let_def dict_simps split: option.splits if_splits)

definition true_rows :: "(string \<Rightarrow> view) \<Rightarrow> emudb \<Rightarrow> string \<times> string \<Rightarrow> row list option" where
  "true_rows views db = (\<lambda>(i, n). map_option (map_rows (views n)) (map_of (documents db) i))"

definition named :: "(string \<Rightarrow> view) \<Rightarrow> string \<Rightarrow> view" where
  "named views n = (views n)\<lparr>v_name := n\<rparr>"

lemma named_simps [simp]: "v_name (named views n) = n" "map_rows (named views n) = map_rows (views n)"
  by (simp_all add: named_def map_rows_def fun_eq_iff)

section \<open>A query without the cache\<close>

definition reference_query :: "view \<Rightarrow> query_options \<Rightarrow> emudb \<Rightarrow> exn + row list" where
  "reference_query v q db =
     (let use_reduce = (v_use_reduce v \<and> q_reduce q)
      in if q_keys q \<noteq> None \<and> (case q_group_level q of None \<Rightarrow> False | Some n \<Rightarrow> n \<noteq> 0) then Inl ValueError
         else if use_reduce \<and> q_include_docs q then Inl ValueError
         else finish_query q v use_reduce db
                (filter (matches_filter (range_options q)) (concat (map (map_rows v) (iterdocs db)))))"

lemma set_cache_documents [simp]: "documents (set_cache i n x db) = documents db"
  "changes (set_cache i n x db) = changes db"
  by (simp_all add: set_cache_def Let_def)

lemma flatten_rows:
  "(\<And>d. d \<in> set ds \<Longrightarrow> d_id d \<noteq> None \<and> map_of docs (text_of (d_id d)) = Some d) \<Longrightarrow>
   documents db = docs \<Longrightarrow> cached_rows db \<subseteq>\<^sub>m true_rows views db \<Longrightarrow>
     fst (flatten q (named views n) ds db) = filter (matches_filter q) (concat (map (map_rows (views n)) ds)) \<and>
     documents (snd (flatten q (named views n) ds db)) = docs \<and>
     changes (snd (flatten q (named views n) ds db)) = changes db \<and>
     cached_rows (snd (flatten q (named views n) ds db)) \<subseteq>\<^sub>m true_rows views db"
proof (induction ds arbitrary: db)
  case Nil
  then show ?case by simp
next
  case (Cons d ds)
  define i where "i = text_of (d_id d)"
  have d: "map_of docs i = Some d" using Cons.prems(1) [of d] by (simp add: i_def)
  then have tr: "true_rows views db (i, n) = Some (map_rows (views n) d)"
    using Cons.prems(2) by (simp add: true_rows_def)
  obtain rows db1 where pm: "perform_map (named views n) d db = (rows, db1)" by (cases "perform_map (named views n) d db") auto
  have 1: "rows = map_rows (views n) d \<and> documents db1 = docs \<and> changes db1 = changes db \<and> cached_rows db1 \<subseteq>\<^sub>m true_rows views db"
  proof (cases "cached_rows db (i, n)")
    case None
    then have "rows = map_rows (views n) d \<and> db1 = set_cache i n rows db"
      using pm by (auto simp: perform_map_def cached_rows_def i_def)
    then show ?thesis using rc.put_fresh [OF Cons.prems(3) tr] Cons.prems(2) by simp
  next
    case (Some x)
    have x: "x = map_rows (views n) d" by (rule rc.get_fresh [OF Cons.prems(3) tr Some])
    show ?thesis
    proof (cases x)
      case Nil
      then have "rows = map_rows (views n) d \<and> db1 = set_cache i n rows db"
        using pm Some by (auto simp: perform_map_def cached_rows_def i_def)
      then show ?thesis using rc.put_fresh [OF Cons.prems(3) tr] Cons.prems(2) by simp
    next
      case (Cons y ys)
      then have "rows = x \<and> db1 = db" using pm Some by (simp add: perform_map_def cached_rows_def i_def)
      then show ?thesis using x Cons.prems(2, 3) \<open>documents db = docs\<close> \<open>cached_rows db \<subseteq>\<^sub>m true_rows views db\<close> by simp
    qed
  qed
  have tr1: "true_rows views db1 = true_rows views db" using 1 Cons.prems(2) by (simp add: true_rows_def)
  have "fst (flatten q (named views n) ds db1) = filter (matches_filter q) (concat (map (map_rows (views n)) ds)) \<and>
     documents (snd (flatten q (named views n) ds db1)) = docs \<and>
     changes (snd (flatten q (named views n) ds db1)) = changes db1 \<and>
     cached_rows (snd (flatten q (named views n) ds db1)) \<subseteq>\<^sub>m true_rows views db1"
    by (rule Cons.IH) (use Cons.prems(1) 1 tr1 in auto)
  then show ?case using 1 tr1 by (simp add: pm case_prod_beta)
qed


section \<open>Histories\<close>

datatype db_event =
    ESave string string "doc option" "string option" "(string, string) dict option"
  | ECopy string string string string "string option"
  | EDelete string string "string option"
  | EAttach string string string string string int string
  | EOpen string
  | EBulk "string list"
  | EListenDocs "string list" nat nat
  | EListenView string string nat nat
  | ECancelListener nat
  | EQuery string query_options
  | ELoadFixture doc "(string, string) dict"

fun db_effect :: "(string \<Rightarrow> view) \<Rightarrow> db_event \<Rightarrow> emudb \<Rightarrow> emudb" where
  "db_effect views (ESave u u' body i f) db = snd (save_doc u u' body i f db)"
| "db_effect views (ECopy u u' i dest r) db = snd (copy_doc u u' i dest r db)"
| "db_effect views (EDelete u i r) db = snd (delete_doc u i r db)"
| "db_effect views (EAttach u i r name ct len b) db = snd (save_attachment u i r name ct len b db)"
| "db_effect views (EOpen i) db = snd (open_doc i db)"
| "db_effect views (EBulk is) db = snd (bulk_get is db)"
| "db_effect views (EListenDocs is cb l) db = snd (listen_doc_ids is cb l db)"
| "db_effect views (EListenView n p cb l) db = snd (listen_view (named views n) p cb l db)"
| "db_effect views (ECancelListener l) db = cancel_listener l db"
| "db_effect views (EQuery n q) db = snd (query_view (named views n) q db)"
| "db_effect views (ELoadFixture d bodies) db = snd (load_fixture d bodies db)"

fun db_run :: "(string \<Rightarrow> view) \<Rightarrow> db_event list \<Rightarrow> emudb \<Rightarrow> emudb" where
  "db_run views [] db = db"
| "db_run views (e # es) db = db_run views es (db_effect views e db)"

text \<open>\<open>load_fixture\<close> stores a document behind the back of the log of changes and of the cache.\<close>

fun is_fixture :: "db_event \<Rightarrow> bool" where
  "is_fixture (ELoadFixture _ _) = True"
| "is_fixture _ = False"

definition no_fixture :: "db_event list \<Rightarrow> bool" where
  "no_fixture es = list_all (\<lambda>e. \<not> is_fixture e) es"

lemma no_fixture_simps [simp]: "no_fixture []" "no_fixture (e # es) = (\<not> is_fixture e \<and> no_fixture es)"
  "no_fixture (es @ es') = (no_fixture es \<and> no_fixture es')"
  by (simp_all add: no_fixture_def)

definition stored_ok :: "emudb \<Rightarrow> bool" where
  "stored_ok db = (dict_ok (documents db) \<and> (\<forall>i d. map_of (documents db) i = Some d \<longrightarrow> d_id d = Some i))"

lemma stored_ok_ids: "stored_ok db \<Longrightarrow> map_of (documents db) j = Some d \<Longrightarrow> d_id d = Some j"
  by (simp add: stored_ok_def)

text \<open>Every document is stored under its identifier, the last change logged for it has its
  revision, and changes are logged for stored documents only.\<close>

definition last_change :: "emudb \<Rightarrow> string \<Rightarrow> string option option" where
  "last_change db i = map_of (rev (map (\<lambda>c. (d_id c, d_rev c)) (changes db))) (Some i)"

definition log_ok :: "emudb \<Rightarrow> bool" where
  "log_ok db =
     (dict_ok (documents db) \<and>
      (\<forall>i d. map_of (documents db) i = Some d \<longrightarrow> d_id d = Some i \<and> last_change db i = Some (d_rev d)) \<and>
      (\<forall>c \<in> set (changes db). dict_has (documents db) (text_of (d_id c)) \<and> d_id c \<noteq> None))"

lemma log_ok_stored: "log_ok db \<Longrightarrow> stored_ok db"
  by (simp add: log_ok_def stored_ok_def)

lemma writes_stored_ok: "stored_ok db \<Longrightarrow> writes i d db db' \<Longrightarrow> stored_ok db'"
  by (auto simp: stored_ok_def writes_def)

lemma writes_log_ok: "log_ok db \<Longrightarrow> writes i d db db' \<Longrightarrow> log_ok db'"
  by (fastforce simp: log_ok_def writes_def last_change_def text_of_def)

lemma keeps_cache: "keeps db db' \<Longrightarrow> cached_rows db' = cached_rows db \<and> true_rows views db' = true_rows views db"
  by (simp add: keeps_def cached_rows_def get_cache_def true_rows_def)

lemma writes_cache:
  assumes "cached_rows db \<subseteq>\<^sub>m true_rows views db" "writes i d db db'" "view_cache db' = AList.delete i (view_cache db)"
  shows "cached_rows db' \<subseteq>\<^sub>m true_rows views db'"
proof -
  have "cached_rows db' = cached_rows (expire_cache i db)"
    by (simp add: cached_rows_def get_cache_def expire_cache_def assms(3))
  moreover have "cached_rows (expire_cache i db) \<subseteq>\<^sub>m true_rows views db'"
    by (rule rc.expire_fresh [OF assms(1)]) (use assms(2) in \<open>auto simp: true_rows_def writes_def\<close>)
  ultimately show ?thesis by simp
qed

lemma iterdocs_stored: "stored_ok db \<Longrightarrow> d \<in> set (iterdocs db) \<Longrightarrow> d_id d \<noteq> None \<and> map_of (documents db) (text_of (d_id d)) = Some d"
proof -
  assume ok: "stored_ok db" and "d \<in> set (iterdocs db)"
  then obtain i where "(i, d) \<in> set (documents db)" by (auto simp: iterdocs_def)
  with ok have i: "map_of (documents db) i = Some d" by (simp add: stored_ok_def)
  show ?thesis using stored_ok_ids [OF ok i] i by (simp add: text_of_def)
qed

lemma query_effect:
  assumes "stored_ok db" "cached_rows db \<subseteq>\<^sub>m true_rows views db" "query_view (named views n) q db = (r, db')"
  shows "r = reference_query (named views n) q db \<and> documents db' = documents db \<and> changes db' = changes db \<and>
    cached_rows db' \<subseteq>\<^sub>m true_rows views db'"
proof -
  obtain rows db1 where f: "flatten (range_options q) (named views n) (iterdocs db) db = (rows, db1)"
    by (cases "flatten (range_options q) (named views n) (iterdocs db) db") auto
  have fr: "rows = filter (matches_filter (range_options q)) (concat (map (map_rows (views n)) (iterdocs db))) \<and>
     documents db1 = documents db \<and> changes db1 = changes db \<and> cached_rows db1 \<subseteq>\<^sub>m true_rows views db"
    using flatten_rows [of "iterdocs db" "documents db" db views "range_options q" n]
      iterdocs_stored [OF assms(1)] assms(2) f by simp
  have "include_doc db1 = include_doc db" using fr by (simp add: include_doc_def get_doc_def fun_eq_iff)
  then have docs: "finish_query q v b db1 rows = finish_query q v b db rows" for v b by (simp add: finish_query_def)
  have tr: "true_rows views db1 = true_rows views db" using fr by (simp add: true_rows_def)
  show ?thesis
    using assms(2, 3) f fr tr docs by (auto simp: query_view_def reference_query_def Let_def split: if_splits)
qed


lemma quiet_effects:
  "keeps db (snd (open_doc i db))" "keeps db (snd (bulk_get is db))"
  "keeps db (snd (listen_doc_ids is cb l db))" "keeps db (snd (listen_view v p cb l db))"
  "keeps db (cancel_listener l db)"
proof -
  show "keeps db (snd (open_doc i db))" by (simp add: keeps_def open_doc_def stat_up_def)
  have "keeps db (fold (\<lambda>_. stat_up x) ys db)" for x and ys :: "string list"
    by (induction ys arbitrary: db) (simp_all add: keeps_def stat_up_def)
  then show "keeps db (snd (bulk_get is db))" by (simp add: bulk_get_def)
  show "keeps db (snd (listen_doc_ids is cb l db))"
    by (simp add: keeps_def listen_doc_ids_def split: option.splits db_filter.splits)
  show "keeps db (snd (listen_view v p cb l db))" by (simp add: keeps_def listen_view_def Let_def)
  show "keeps db (cancel_listener l db)" by (simp add: keeps_def cancel_listener_def)
qed

lemma query_documents:
  "documents (snd (query_view v q db)) = documents db \<and> changes (snd (query_view v q db)) = changes db"
proof -
  have pm: "documents (snd (perform_map v d db)) = documents db \<and> changes (snd (perform_map v d db)) = changes db" for d db
    by (simp add: perform_map_def Let_def split: option.splits list.splits)
  have "documents (snd (flatten p v ds db)) = documents db \<and> changes (snd (flatten p v ds db)) = changes db" for p ds db
  proof (induction ds arbitrary: db)
    case Nil
    then show ?case by simp
  next
    case (Cons d ds)
    show ?case using Cons.IH [of "snd (perform_map v d db)"] pm [of d db] by (simp add: case_prod_beta)
  qed
  then show ?thesis by (simp add: query_view_def Let_def case_prod_beta)
qed

definition same_data :: "emudb \<Rightarrow> emudb \<Rightarrow> bool" where
  "same_data db db' = (documents db' = documents db \<and> changes db' = changes db)"

lemma keeps_same_data: "keeps db db' \<Longrightarrow> same_data db db'"
  by (simp add: keeps_def same_data_def)

lemma effect_writes:
  "stored_ok db \<Longrightarrow> \<not> is_fixture e \<Longrightarrow>
     same_data db (db_effect views e db) \<or> (\<exists>i d. writes i d db (db_effect views e db))"
proof -
  assume ok: "stored_ok db" and e: "\<not> is_fixture e"
  show ?thesis
  proof (cases e)
    case (ESave u u' body i f)
    obtain r db' where s: "save_doc u u' body i f db = (r, db')" by (cases "save_doc u u' body i f db") auto
    show ?thesis using save_doc_effect [OF s] s ESave by (auto simp: same_data_def)
  next
    case (ECopy u u' i dest rv)
    obtain r db' where s: "copy_doc u u' i dest rv db = (r, db')" by (cases "copy_doc u u' i dest rv db") auto
    show ?thesis using copy_doc_effect [OF s] keeps_same_data [of db db'] s ECopy by auto
  next
    case (EDelete u i rv)
    obtain r db' where s: "delete_doc u i rv db = (r, db')" by (cases "delete_doc u i rv db") auto
    show ?thesis using delete_doc_effect [OF s stored_ok_ids [OF ok]] keeps_same_data [of db db'] s EDelete by auto
  next
    case (EAttach u i rv name ct len b)
    obtain r db' where s: "save_attachment u i rv name ct len b db = (r, db')"
      by (cases "save_attachment u i rv name ct len b db") auto
    show ?thesis using save_attachment_effect [OF s stored_ok_ids [OF ok]] keeps_same_data [of db db'] s EAttach by auto
  next
    case (EQuery n q)
    then show ?thesis using query_documents [of "named views n" q db] by (simp add: same_data_def)
  qed (use quiet_effects e in \<open>simp_all add: keeps_same_data\<close>)
qed

lemma load_fixture_effect:
  assumes "load_fixture d bodies db = (r, db')"
  shows "db' = db \<or> (\<exists>i. d_id d = Some i \<and> documents db' = AList.update i d (documents db) \<and>
    view_cache db' = view_cache db \<and> changes db' = changes db)"
  using assms by (auto simp: load_fixture_def put_doc_def split: option.splits)

lemma effect_stored_ok: "stored_ok db \<Longrightarrow> stored_ok (db_effect views e db)"
proof -
  assume ok: "stored_ok db"
  show ?thesis
  proof (cases "is_fixture e")
    case True
    then obtain d bodies where e: "e = ELoadFixture d bodies" by (cases e) auto
    obtain r db' where l: "load_fixture d bodies db = (r, db')" by (cases "load_fixture d bodies db") auto
    show ?thesis using load_fixture_effect [OF l] ok by (auto simp: e l stored_ok_def dict_simps split: if_splits)
  next
    case False
    show ?thesis
      using effect_writes [OF ok False, of views] writes_stored_ok [OF ok] ok
      by (auto simp: same_data_def stored_ok_def)
  qed
qed

lemma effect_log_ok: "log_ok db \<Longrightarrow> \<not> is_fixture e \<Longrightarrow> log_ok (db_effect views e db)"
proof -
  assume ok: "log_ok db" and e: "\<not> is_fixture e"
  from effect_writes [OF log_ok_stored [OF ok] e, of views] show ?thesis
  proof
    assume "same_data db (db_effect views e db)"
    then have same: "documents (db_effect views e db) = documents db" "changes (db_effect views e db) = changes db"
      by (simp_all add: same_data_def)
    then have lc: "last_change (db_effect views e db) = last_change db" by (simp add: fun_eq_iff last_change_def)
    show ?thesis using ok unfolding log_ok_def same lc .
  next
    assume "\<exists>i d. writes i d db (db_effect views e db)"
    then show ?thesis using writes_log_ok [OF ok] by blast
  qed
qed

lemma run_changes: "log_ok db \<Longrightarrow> no_fixture es \<Longrightarrow> \<exists>new. changes (db_run views es db) = changes db @ new"
proof (induction es arbitrary: db)
  case Nil
  then show ?case by simp
next
  case (Cons e es)
  have e: "\<not> is_fixture e" and es: "no_fixture es" using Cons.prems(2) by simp_all
  have "\<exists>new. changes (db_effect views e db) = changes db @ new"
    using effect_writes [OF log_ok_stored [OF Cons.prems(1)] e, of views] by (auto simp: same_data_def writes_def)
  then show ?case using Cons.IH [OF effect_log_ok [OF Cons.prems(1) e, of views] es] by auto
qed

lemma run_log_ok: "log_ok db \<Longrightarrow> no_fixture es \<Longrightarrow> log_ok (db_run views es db)"
  by (induction es arbitrary: db) (simp_all add: effect_log_ok)

lemma run_stored_ok: "stored_ok db \<Longrightarrow> stored_ok (db_run views es db)"
  by (induction es arbitrary: db) (simp_all add: effect_stored_ok)

lemma init_ok: "log_ok emudb_init" "cached_rows emudb_init \<subseteq>\<^sub>m true_rows views emudb_init"
  by (simp_all add: emudb_init_def log_ok_def cached_rows_def get_cache_def map_le_def dom_def case_prod_beta)

text \<open>The three ways to leave rows of an old document in the cache: an attachment that is saved by
  itself, a document that is stored before its attachments turn out to be missing, and a fixture
  loaded over a document that has cached rows.\<close>

fun leaves_cache_fresh :: "db_event \<Rightarrow> emudb \<Rightarrow> bool" where
  "leaves_cache_fresh (ESave u u' body i f) db =
     (case save_doc u u' body i f db of (Inl _, db') \<Rightarrow> documents db' = documents db | _ \<Rightarrow> True)"
| "leaves_cache_fresh (ECopy u u' i dest r) db =
     (case copy_doc u u' i dest r db of (Inl _, db') \<Rightarrow> documents db' = documents db | _ \<Rightarrow> True)"
| "leaves_cache_fresh (EAttach u i r name ct len b) db =
     (documents (snd (save_attachment u i r name ct len b db)) = documents db)"
| "leaves_cache_fresh (ELoadFixture d bodies) db =
     (case d_id d of None \<Rightarrow> True | Some i \<Rightarrow> \<not> dict_has (view_cache db) i)"
| "leaves_cache_fresh _ db = True"

fun keeps_cache_fresh :: "(string \<Rightarrow> view) \<Rightarrow> db_event list \<Rightarrow> emudb \<Rightarrow> bool" where
  "keeps_cache_fresh views [] db = True"
| "keeps_cache_fresh views (e # es) db =
     (leaves_cache_fresh e db \<and> keeps_cache_fresh views es (db_effect views e db))"

lemma same_documents_cache:
  "cached_rows db \<subseteq>\<^sub>m true_rows views db \<Longrightarrow> documents db' = documents db \<Longrightarrow> view_cache db' = view_cache db \<Longrightarrow>
     cached_rows db' \<subseteq>\<^sub>m true_rows views db'"
  by (simp add: cached_rows_def get_cache_def true_rows_def)

lemma effect_cache:
  assumes ok: "stored_ok db" and fresh: "cached_rows db \<subseteq>\<^sub>m true_rows views db" and e: "leaves_cache_fresh e db"
  shows "cached_rows (db_effect views e db) \<subseteq>\<^sub>m true_rows views (db_effect views e db)"
proof -
  have keep: "cached_rows db' \<subseteq>\<^sub>m true_rows views db'" if "keeps db db'" for db'
    using keeps_cache [OF that, of views] fresh by simp
  show ?thesis
  proof (cases e)
    case (ESave u u' body i f)
    obtain r db' where s: "save_doc u u' body i f db = (r, db')" by (cases "save_doc u u' body i f db") auto
    consider "documents db' = documents db" "view_cache db' = view_cache db"
      | j d where "writes j d db db'" "view_cache db' = AList.delete j (view_cache db)"
      using save_doc_effect [OF s] e s ESave by (cases r) auto
    then show ?thesis
      using same_documents_cache [OF fresh] writes_cache [OF fresh] s ESave by cases auto
  next
    case (ECopy u u' i dest rv)
    obtain r db' where s: "copy_doc u u' i dest rv db = (r, db')" by (cases "copy_doc u u' i dest rv db") auto
    consider "documents db' = documents db" "view_cache db' = view_cache db"
      | j d where "writes j d db db'" "view_cache db' = AList.delete j (view_cache db)"
      using copy_doc_effect [OF s] e s ECopy by (cases r) (auto simp: keeps_def)
    then show ?thesis
      using same_documents_cache [OF fresh] writes_cache [OF fresh] s ECopy by cases auto
  next
    case (EDelete u i rv)
    obtain r db' where s: "delete_doc u i rv db = (r, db')" by (cases "delete_doc u i rv db") auto
    show ?thesis
      using delete_doc_effect [OF s stored_ok_ids [OF ok]] keep [of db'] writes_cache [OF fresh] s EDelete by auto
  next
    case (EAttach u i rv name ct len b)
    obtain r db' where s: "save_attachment u i rv name ct len b db = (r, db')"
      by (cases "save_attachment u i rv name ct len b db") auto
    have "view_cache db' = view_cache db"
      using save_attachment_effect [OF s stored_ok_ids [OF ok]] by (auto simp: keeps_def)
    then show ?thesis using same_documents_cache [OF fresh] e s EAttach by simp
  next
    case (EQuery n q)
    obtain r db' where s: "query_view (named views n) q db = (r, db')" by (cases "query_view (named views n) q db") auto
    show ?thesis using query_effect [OF ok fresh s] s EQuery by simp
  next
    case (ELoadFixture d bodies)
    obtain r db' where l: "load_fixture d bodies db = (r, db')" by (cases "load_fixture d bodies db") auto
    from load_fixture_effect [OF l] consider "db' = db"
      | i where "d_id d = Some i" "documents db' = AList.update i d (documents db)" "view_cache db' = view_cache db"
      by blast
    then show ?thesis
    proof cases
      case 1
      then show ?thesis using fresh by (simp add: ELoadFixture l)
    next
      case 2
      have "cached_rows db (i, n) = None" for n
        using e 2(1) by (simp add: ELoadFixture cached_rows_def get_cache_def map_of_eq_None_iff [symmetric])
      then have "cached_rows db' \<subseteq>\<^sub>m true_rows views db'"
        using fresh 2(2,3)
        by (fastforce simp: map_le_def dom_def cached_rows_def get_cache_def true_rows_def dict_simps)
      then show ?thesis by (simp add: ELoadFixture l)
    qed
  qed (use keep quiet_effects in simp_all)
qed

lemma run_cache:
  "stored_ok db \<Longrightarrow> cached_rows db \<subseteq>\<^sub>m true_rows views db \<Longrightarrow> keeps_cache_fresh views es db \<Longrightarrow>
     cached_rows (db_run views es db) \<subseteq>\<^sub>m true_rows views (db_run views es db)"
  by (induction es arbitrary: db) (simp_all add: effect_stored_ok effect_cache)


lemma change_rows_None:
  "map snd (change_rows None s ds) = map (\<lambda>c. (text_of (d_id c), text_of (d_rev c))) ds"
  by (induction ds arbitrary: s) simp_all

lemma feed_look_up:
  "\<forall>c \<in> set cs. d_id c \<noteq> None \<Longrightarrow>
     map_of (rev (map (\<lambda>c. (text_of (d_id c), text_of (d_rev c))) cs)) i =
     map_option text_of (map_of (rev (map (\<lambda>c. (d_id c, d_rev c)) cs)) (Some i))"
  by (induction cs rule: rev_induct) (auto simp: text_of_def)

text \<open>C19: Who knows the documents of a database and reads its changes from the update sequence it
  had then, knows the current revisions after any history of saves, copies, deletions, attachments
  and queries that loads no fixture, refused and failed calls included: the last row of a document is its revision, and a
  document without a row has the revision it had.\<close>
theorem change_feed_tracks_revisions:
  assumes "db = db_run views es emudb_init" "db' = db_run views es' db" "no_fixture (es @ es')"
    "map_of (documents db') i = Some d"
  shows "(case map_of (rev (map snd (fst (get_changes None (get_update_seq db) db')))) i of
      Some r \<Rightarrow> r = text_of (d_rev d)
    | None \<Rightarrow> map_option d_rev (map_of (documents db) i) = Some (d_rev d))"
proof -
  have no: "no_fixture es" "no_fixture es'" using assms(3) by simp_all
  have ok: "log_ok db" using run_log_ok [OF init_ok(1) no(1)] assms(1) by simp
  have ok: "log_ok db" "log_ok db'" using run_log_ok [OF ok no(2)] ok assms(2) by simp_all
  obtain new where new: "changes db' = changes db @ new" using run_changes [OF ok(1) no(2)] assms(2) by blast
  have rows: "map snd (fst (get_changes None (get_update_seq db) db')) = map (\<lambda>c. (text_of (d_id c), text_of (d_rev c))) new"
    by (simp add: get_changes_def get_update_seq_def new change_rows_None)
  have ids: "\<forall>c \<in> set new. d_id c \<noteq> None" using ok(2) new by (auto simp: log_ok_def)
  have cur: "last_change db' i = Some (d_rev d)" using ok(2) assms(4) by (auto simp: log_ok_def)
  show ?thesis
  proof (cases "map_of (rev (map (\<lambda>c. (d_id c, d_rev c)) new)) (Some i)")
    case None
    then have "last_change db i = Some (d_rev d)" using cur by (simp add: last_change_def new map_add_def)
    then have "(Some i, d_rev d) \<in> set (map (\<lambda>c. (d_id c, d_rev c)) (changes db))"
      unfolding last_change_def by (metis map_of_SomeD set_rev)
    then obtain c where "c \<in> set (changes db)" "d_id c = Some i" by auto
    then obtain d0 where "map_of (documents db) i = Some d0" using ok(1) by (fastforce simp: log_ok_def text_of_def)
    then show ?thesis
      using rows feed_look_up [OF ids, of i] None ok(1) \<open>last_change db i = _\<close> by (auto simp: log_ok_def)
  next
    case (Some r)
    then have "r = d_rev d" using cur by (simp add: last_change_def new)
    then show ?thesis using rows feed_look_up [OF ids, of i] Some by simp
  qed
qed

text \<open>C20: Over any history of saves, copies, deletions, reads, listeners, queries and fixtures in which
  no save or copy fails half-way, no attachment is saved by itself and no fixture is loaded over a
  document with cached rows, a query of a view gives what mapping every document afresh gives, whatever
  the view cache holds.\<close>
theorem view_cache_is_invisible:
  assumes "keeps_cache_fresh views es emudb_init"
  shows "fst (query_view (named views n) q (db_run views es emudb_init)) =
    reference_query (named views n) q (db_run views es emudb_init)"
proof -
  let ?db = "db_run views es emudb_init"
  obtain r db' where q: "query_view (named views n) q ?db = (r, db')" by (cases "query_view (named views n) q ?db") auto
  show ?thesis
    using query_effect [OF run_stored_ok run_cache [OF _ init_ok(2) assms] q] log_ok_stored [OF init_ok(1)] q by simp
qed

section \<open>Revisions never come back\<close>

text \<open>The revision an operation logs for a stored document that is not deleted is the successor of
  the one the document has.\<close>

definition logs_successor :: "string \<Rightarrow> emudb \<Rightarrow> emudb \<Rightarrow> bool" where
  "logs_successor j db db' =
     (changes db' = changes db \<or>
      (\<exists>c. changes db' = changes db @ [c] \<and>
        (d_id c = Some j \<longrightarrow>
          (\<forall>cur. map_of (documents db) j = Some cur \<and> \<not> d_deleted cur \<longrightarrow>
            (\<exists>n u. next_counter (d_rev cur) = Inr n \<and> d_rev c = Some (make_rev n u))))))"

lemma keeps_logs: "keeps db db' \<Longrightarrow> logs_successor j db db'"
  by (simp add: keeps_def logs_successor_def)

lemma update_rev_cases:
  assumes "update_rev u d db = (r, db')"
  obtains e where "r = Inl e" "db' = db"
  | n where "next_counter (d_rev d) = Inr n" "r = Inr (d\<lparr>d_rev := Some (make_rev n u)\<rparr>)"
      "changes db' = changes db @ [d\<lparr>d_rev := Some (make_rev n u)\<rparr>]"
  using assms by (auto simp: update_rev_def Let_def split: sum.splits)

text \<open>An event says itself which document it is about: no fixture is loaded, no identifier generated.\<close>

fun names_document :: "db_event \<Rightarrow> bool" where
  "names_document (ESave u u' body i f) =
     (case body of None \<Rightarrow> True | Some d \<Rightarrow> present i \<noteq> None \<or> d_id d \<noteq> None)"
| "names_document (ELoadFixture d bodies) = False"
| "names_document _ = True"

definition save_target :: "doc \<Rightarrow> string option \<Rightarrow> string option" where
  "save_target d i = (case present i of None \<Rightarrow> d_id d | Some x \<Rightarrow> Some x)"

lemma set_id_and_revision_logs:
  assumes "set_id_and_revision u u' d i db = (r, db')" "save_target d i \<noteq> None"
  shows "logs_successor j db db'"
proof -
  obtain k where k: "save_target d i = Some k" using assms(2) by blast
  have s: "(r, db') = (if revision_conflict d (map_of (documents db) k) then (Inl ConflictError, db)
      else update_rev u' (d\<lparr>d_id := Some k\<rparr>) db)"
    using assms(1) k unfolding set_id_and_revision_def save_target_def by simp
  show ?thesis
  proof (cases "revision_conflict d (map_of (documents db) k)")
    case True
    then show ?thesis using s by (simp add: logs_successor_def)
  next
    case False
    then have "update_rev u' (d\<lparr>d_id := Some k\<rparr>) db = (r, db')" using s by simp
    then show ?thesis
      by (rule update_rev_cases) (use False in \<open>auto simp: logs_successor_def revision_conflict_def\<close>)
  qed
qed

lemma take_attachments_changes: "changes (snd (snd (take_attachments f i ns d db))) = changes db"
proof (induction ns arbitrary: d db)
  case Nil
  then show ?case by simp
next
  case (Cons n ns)
  obtain e1 d1 db1 where one: "take_attachment f i n d db = (e1, d1, db1)" by (cases "take_attachment f i n d db") auto
  have "changes db1 = changes db"
    using one by (auto simp: take_attachment_def put_doc_def put_body_def Let_def split: option.splits if_splits)
  then show ?case using Cons.IH [of d1 db1] one by (cases e1) simp_all
qed

lemma save_doc_changes:
  "changes (snd (save_doc u u' (Some d) i f db)) = changes (snd (set_id_and_revision u u' d i db))"
proof -
  obtain r1 db1 where s: "set_id_and_revision u u' d i db = (r1, db1)" by (cases "set_id_and_revision u u' d i db") auto
  show ?thesis
  proof (cases r1)
    case (Inl e)
    then show ?thesis using s by (simp add: save_doc_def)
  next
    case (Inr d1)
    define db2 where "db2 = put_doc (text_of (d_id d1)) d1 (stat_up ''save_doc'' db1)"
    define db3 where "db3 = (if dict_has (attachments db2) (text_of (d_id d1)) then db2
                             else db2\<lparr>attachments := AList.update (text_of (d_id d1)) [] (attachments db2)\<rparr>)"
    have c3: "changes db3 = changes db1" by (simp add: db3_def db2_def put_doc_def stat_up_def)
    obtain e d4 db4 where t: "take_attachments f (text_of (d_id d1)) (map fst (doc_atts d1)) d1 db3 = (e, d4, db4)"
      by (cases "take_attachments f (text_of (d_id d1)) (map fst (doc_atts d1)) d1 db3") auto
    have "changes db4 = changes db1"
      using take_attachments_changes [of f "text_of (d_id d1)" "map fst (doc_atts d1)" d1 db3] t c3 by simp
    moreover have "save_doc u u' (Some d) i f db = (case take_attachments f (text_of (d_id d1)) (map fst (doc_atts d1)) d1 db3 of
             (Some e, _, db) \<Rightarrow> (Inl e, db)
           | (None, d, db) \<Rightarrow> (Inr (text_of (d_id d1), text_of (d_rev d)),
               analize_changes d (expire_cache (text_of (d_id d1)) (drop_bodies (text_of (d_id d1)) d db))))"
      unfolding save_doc_def
      by (simp add: s Inr Let_def db3_def db2_def cong: if_cong split del: if_split)
    ultimately show ?thesis
      unfolding t s by (cases e) (simp_all add: analize_changes_def expire_cache_def drop_bodies_def)
  qed
qed

lemma save_doc_logs:
  assumes "save_target d i \<noteq> None"
  shows "logs_successor j db (snd (save_doc u u' (Some d) i f db))"
proof -
  obtain r1 db1 where s: "set_id_and_revision u u' d i db = (r1, db1)" by (cases "set_id_and_revision u u' d i db") auto
  from set_id_and_revision_logs [OF s assms] show ?thesis
    unfolding logs_successor_def save_doc_changes s by simp
qed

lemma delete_doc_logs: "stored_ok db \<Longrightarrow> logs_successor j db (snd (delete_doc u i rv db))"
proof (cases "map_of (documents db) i")
  case None
  then show ?thesis by (simp add: logs_successor_def delete_doc_def get_doc_def stat_up_def)
next
  assume ok: "stored_ok db"
  case (Some d)
  have i: "d_id d = Some i" by (rule stored_ok_ids [OF ok Some])
  have get: "get_doc i (stat_up ''delete_doc'' db) = Inr d" using Some by (simp add: get_doc_def stat_up_def)
  have [simp]: "changes (stat_up x db) = changes db" for x by (simp add: stat_up_def)
  show ?thesis
    using Some i
    by (auto simp: logs_successor_def delete_doc_def get Let_def update_rev_def put_doc_def expire_cache_def
        analize_changes_def split: sum.splits)
qed

lemma save_attachment_logs:
  "stored_ok db \<Longrightarrow> logs_successor j db (snd (save_attachment u i rv name ct len b db))"
proof (cases "map_of (documents db) i")
  case None
  then show ?thesis by (simp add: logs_successor_def save_attachment_def)
next
  assume ok: "stored_ok db"
  case (Some d)
  define d1 where "d1 = d\<lparr>d_atts := Some (AList.update name
                     \<lparr>a_follows = False, a_stub = True, a_content_type = ct, a_length = len\<rparr> (doc_atts d))\<rparr>"
  define db1 where "db1 = put_body i name b (put_doc i d1 db)"
  have d1: "d_id d1 = Some i" "d_rev d1 = d_rev d" "d_deleted d1 = d_deleted d"
    using stored_ok_ids [OF ok Some] by (simp_all add: d1_def)
  have c1: "changes db1 = changes db" by (simp add: db1_def put_body_def put_doc_def)
  obtain r2 db2 where s: "set_id_and_revision [] u d1 (Some i) db1 = (r2, db2)"
    by (cases "set_id_and_revision [] u d1 (Some i) db1") auto
  have "(case present (Some i) of None \<Rightarrow> d_id d1 | Some x \<Rightarrow> Some x) = Some i"
    using d1(1) by (cases i) (simp_all add: present_def)
  then have "(r2, db2) = (if revision_conflict d1 (map_of (documents db1) i) then (Inl ConflictError, db1)
      else update_rev u (d1\<lparr>d_id := Some i\<rparr>) db1)"
    using s by (simp add: set_id_and_revision_def)
  then have "changes db2 = changes db \<or>
      (\<exists>n. next_counter (d_rev d) = Inr n \<and> changes db2 = changes db @ [d1\<lparr>d_rev := Some (make_rev n u)\<rparr>])"
    using d1 c1 by (auto simp: update_rev_def Let_def split: if_splits sum.splits)
  then have "logs_successor j db db2"
    using Some d1(1) by (auto simp: logs_successor_def)
  moreover have "changes (snd (save_attachment u i rv name ct len b db)) =
      (if dict_has (attachments (put_doc i d1 db)) i then changes db2 else changes db)"
    unfolding save_attachment_def Some option.case Let_def d1_def [symmetric] db1_def [symmetric] s
    by (simp add: put_doc_def split: sum.split)
  ultimately show ?thesis by (simp add: logs_successor_def)
qed

lemma copy_doc_logs: "logs_successor j db (snd (copy_doc u u' i dest rv db))"
proof -
  obtain r1 db1 where o1: "open_doc i db = (r1, db1)" by (cases "open_doc i db") auto
  then have db1: "db1 = stat_up ''open_doc'' db" by (simp add: open_doc_def)
  have same: "documents db1 = documents db" "changes db1 = changes db" by (simp_all add: db1 stat_up_def)
  show ?thesis
  proof (cases r1)
    case (Inl e)
    then show ?thesis using o1 same by (simp add: copy_doc_def logs_successor_def)
  next
    case (Inr d)
    have "save_target (d\<lparr>d_id := Some dest, d_rev := rv\<rparr>) None \<noteq> None" by (simp add: save_target_def present_def)
    from save_doc_logs [OF this, of j db1 u u' None] show ?thesis
      using o1 Inr same by (simp add: copy_doc_def logs_successor_def)
  qed
qed

lemma effect_logs:
  assumes "stored_ok db" "names_document e"
  shows "logs_successor j db (db_effect views e db)"
proof (cases e)
  case (ESave u u' body i f)
  show ?thesis
  proof (cases body)
    case None
    then show ?thesis by (simp add: ESave save_doc_def logs_successor_def)
  next
    case (Some d)
    have "save_target d i \<noteq> None" using assms(2) by (auto simp: ESave Some save_target_def split: option.split)
    then show ?thesis by (simp add: ESave Some save_doc_logs)
  qed
next
  case (EQuery n q)
  then show ?thesis using query_documents [of "named views n" q db] by (simp add: logs_successor_def)
next
  case (ELoadFixture d bodies)
  then show ?thesis using assms(2) by simp
qed (simp_all add: copy_doc_logs delete_doc_logs save_attachment_logs assms(1) quiet_effects keeps_logs)

text \<open>A document that is stored and not deleted, at every moment of a history.\<close>

definition alive :: "string \<Rightarrow> emudb \<Rightarrow> bool" where
  "alive j db = (case map_of (documents db) j of None \<Rightarrow> False | Some d \<Rightarrow> \<not> d_deleted d)"

fun stays_alive :: "(string \<Rightarrow> view) \<Rightarrow> string \<Rightarrow> db_event list \<Rightarrow> emudb \<Rightarrow> bool" where
  "stays_alive views j [] db = alive j db"
| "stays_alive views j (e # es) db = (alive j db \<and> stays_alive views j es (db_effect views e db))"

definition rev_of :: "string \<Rightarrow> emudb \<Rightarrow> string option" where
  "rev_of j db = (case map_of (documents db) j of None \<Rightarrow> None | Some d \<Rightarrow> d_rev d)"

text \<open>A revision later than \<open>r\<close>: its counter is larger, or it has none and cannot be replaced.\<close>

definition later_rev :: "string option \<Rightarrow> string option \<Rightarrow> bool" where
  "later_rev r r' = (\<exists>k. next_counter r = Inr k \<and> (case next_counter r' of Inl _ \<Rightarrow> True | Inr k' \<Rightarrow> k < k'))"

lemma later_rev_irrefl: "\<not> later_rev r r"
  by (auto simp: later_rev_def split: sum.splits)

lemma later_rev_successor:
  "r' = r \<or> later_rev r r' \<Longrightarrow> next_counter r' = Inr n \<Longrightarrow> later_rev r (Some (make_rev n u))"
proof -
  assume r: "r' = r \<or> later_rev r r'" and n: "next_counter r' = Inr n"
  obtain k where k: "next_counter r = Inr k" "k \<le> n" using r n by (auto simp: later_rev_def)
  show ?thesis
    using k next_counter_make_rev [of n u] make_rev_negative [of n u]
    by (cases "0 \<le> n") (auto simp: later_rev_def)
qed

lemma effect_later:
  assumes ok: "stored_ok db" and e: "names_document e" and j: "alive j db"
  shows "rev_of j (db_effect views e db) = rev_of j db \<or> later_rev (rev_of j db) (rev_of j (db_effect views e db))"
proof -
  let ?db = "db_effect views e db"
  obtain cur where cur: "map_of (documents db) j = Some cur" "\<not> d_deleted cur"
    using j by (auto simp: alive_def split: option.splits)
  have "\<not> is_fixture e" using e by (cases e) simp_all
  from effect_writes [OF ok this, of views] show ?thesis
  proof
    assume "same_data db ?db"
    then show ?thesis by (simp add: same_data_def rev_of_def)
  next
    assume "\<exists>i d. writes i d db ?db"
    then obtain i d where w: "writes i d db ?db" by blast
    consider "i \<noteq> j" | "i = j" "changes ?db = changes db"
      | c where "i = j" "changes ?db = changes db @ [c]" "d_id c = Some i" "d_rev c = d_rev d"
      using w by (auto simp: writes_def)
    then show ?thesis
    proof cases
      case 1
      then show ?thesis using w by (simp add: writes_def rev_of_def)
    next
      case 2
      then show ?thesis using w by (auto simp: writes_def rev_of_def)
    next
      case 3
      then obtain n u where n: "next_counter (d_rev cur) = Inr n" "d_rev d = Some (make_rev n u)"
        using effect_logs [OF ok e, of j views] cur by (auto simp: logs_successor_def)
      have "rev_of j ?db = d_rev d" "rev_of j db = d_rev cur"
        using w 3(1) cur by (simp_all add: writes_def rev_of_def)
      then show ?thesis using later_rev_successor [of "d_rev cur" "d_rev cur" n u] n by simp
    qed
  qed
qed

lemma later_rev_step:
  assumes "stored_ok db" "names_document e" "alive j db" "later_rev r (rev_of j db)"
  shows "later_rev r (rev_of j (db_effect views e db))"
proof -
  have "later_rev r r'" if "later_rev (rev_of j db) r'" for r'
    using that assms(4) by (auto simp: later_rev_def split: sum.splits)
  then show ?thesis using effect_later [OF assms(1-3), of views] assms(4) by auto
qed

lemma run_later:
  "stored_ok db \<Longrightarrow> list_all names_document es \<Longrightarrow> stays_alive views j es db \<Longrightarrow>
     rev_of j db = r \<or> later_rev r (rev_of j db) \<Longrightarrow>
     rev_of j (db_run views es db) = r \<or> later_rev r (rev_of j (db_run views es db))"
proof (induction es arbitrary: db)
  case Nil
  then show ?case by simp
next
  case (Cons e es)
  have e: "names_document e" "alive j db" using Cons.prems(2,3) by simp_all
  have "rev_of j (db_effect views e db) = r \<or> later_rev r (rev_of j (db_effect views e db))"
    using Cons.prems(4) effect_later [OF Cons.prems(1) e] later_rev_step [OF Cons.prems(1) e] by metis
  with Cons.IH [OF effect_stored_ok [OF Cons.prems(1)]] Cons.prems(2,3) show ?case by simp
qed

lemma run_stays_later:
  "stored_ok db \<Longrightarrow> list_all names_document es \<Longrightarrow> stays_alive views j es db \<Longrightarrow> later_rev r (rev_of j db) \<Longrightarrow>
     later_rev r (rev_of j (db_run views es db))"
  by (induction es arbitrary: db) (simp_all add: later_rev_step effect_stored_ok)

lemma stays_alive_ends: "stays_alive views j es db \<Longrightarrow> alive j (db_run views es db)"
  by (induction es arbitrary: db) simp_all

lemma stays_alive_append:
  "stays_alive views j (es @ es') db = (stays_alive views j es db \<and> stays_alive views j es' (db_run views es db))"
  by (induction es arbitrary: db) (auto dest: stays_alive_ends, cases es', auto)

text \<open>C26: No update is lost: once the revision a document had has been replaced, a save under its
  identifier that is based on that revision is refused with \<open>ConflictError\<close> and changes nothing,
  whatever happened in between, as long as the document was not deleted on the way, no fixture was
  loaded and every document that was saved gave its identifier.\<close>
theorem stale_save_conflicts:
  assumes "db = db_run views es0 emudb_init" "db1 = db_run views es1 db" "db2 = db_run views es2 db1"
    "list_all names_document (es1 @ es2)" "stays_alive views j (es1 @ es2) db"
    "rev_of j db1 \<noteq> rev_of j db"
    "save_target d i = Some j" "d_rev d = rev_of j db"
  shows "save_doc u u' (Some d) i f db2 = (Inl ConflictError, db2)"
proof -
  have ok: "stored_ok db" using run_stored_ok log_ok_stored [OF init_ok(1)] assms(1) by simp
  have ok1: "stored_ok db1" using run_stored_ok [OF ok] assms(2) by simp
  have "later_rev (rev_of j db) (rev_of j db1)"
    using run_later [OF ok, of es1 views j "rev_of j db"] assms(2,4-6) by (simp add: stays_alive_append)
  then have "later_rev (rev_of j db) (rev_of j db2)"
    using run_stays_later [OF ok1, of es2 views j] assms(2-5) by (simp add: stays_alive_append)
  then have "rev_of j db2 \<noteq> d_rev d" using later_rev_irrefl assms(8) by metis
  moreover have "alive j db2"
    using assms(2,3,5) by (simp add: stays_alive_append stays_alive_ends)
  ultimately have "revision_conflict d (map_of (documents db2) j)"
    by (auto simp: revision_conflict_def alive_def rev_of_def split: option.splits)
  then show ?thesis
    using assms(7) unfolding save_target_def by (simp add: save_doc_def set_id_and_revision_def)
qed

section \<open>Concrete databases\<close>

definition by_field :: view where
  "by_field =
     \<lparr>v_name = ''by_field'',
      v_map = (\<lambda>d. [(KStr (text_of (map_of (d_fields d) ''x'')), VInt 1)]),
      v_filter = (\<lambda>_ _. True), v_reduce = NoReduce, v_use_reduce = False\<rparr>"

definition plain_query :: query_options where
  "plain_query =
     \<lparr>q_key = None, q_keys = None, q_startkey = None, q_endkey = None, q_descending = False, q_skip = 0,
      q_limit = None, q_reduce = True, q_group = False, q_group_level = None, q_include_docs = False,
      q_post_process = None\<rparr>"

definition plain_doc :: "string \<Rightarrow> string option \<Rightarrow> string \<Rightarrow> doc" where
  "plain_doc i r x =
     \<lparr>d_id = Some i, d_rev = r, d_deleted = False, d_atts = None, d_type = None, d_fields = [(''x'', x)]\<rparr>"

definition save_plain :: "string \<Rightarrow> string option \<Rightarrow> string \<Rightarrow> db_event" where
  "save_plain i r x = ESave [] ''u'' (Some (plain_doc i r x)) None None"

definition keys_of :: "exn + row list \<Rightarrow> exn + vkey list" where
  "keys_of r = (case r of Inl e \<Rightarrow> Inl e | Inr rows \<Rightarrow> Inr (map r_key rows))"

lemma view_cache_is_invisible_witness:
  "keys_of (fst (query_view (named (\<lambda>_. by_field) ''v'') plain_query
     (db_run (\<lambda>_. by_field)
        [save_plain ''a'' None ''old'', EQuery ''v'' plain_query, save_plain ''a'' (Some ''1-u'') ''new'',
         save_plain ''b'' None ''other''] emudb_init))) = Inr [KStr ''new'', KStr ''other'']"
proof -
  let ?es = "[save_plain ''a'' None ''old'', EQuery ''v'' plain_query, save_plain ''a'' (Some ''1-u'') ''new'',
              save_plain ''b'' None ''other'']"
  have h: "keeps_cache_fresh (\<lambda>_. by_field) ?es emudb_init" by code_simp
  show ?thesis unfolding view_cache_is_invisible [OF h] by code_simp
qed

lemma change_feed_tracks_revisions_witness:
  "\<exists>db db'. db = db_run (\<lambda>_. by_field) [save_plain ''a'' None ''old'', save_plain ''b'' None ''other''] emudb_init \<and>
     db' = db_run (\<lambda>_. by_field) [save_plain ''a'' (Some ''1-u'') ''new''] db \<and>
     map_of (rev (map snd (fst (get_changes None (get_update_seq db) db')))) ''a'' = Some ''2-u''"
proof -
  let ?db = "db_run (\<lambda>_. by_field) [save_plain ''a'' None ''old'', save_plain ''b'' None ''other''] emudb_init"
  let ?db' = "db_run (\<lambda>_. by_field) [save_plain ''a'' (Some ''1-u'') ''new''] ?db"
  have nf: "no_fixture ([save_plain ''a'' None ''old'', save_plain ''b'' None ''other''] @
      [save_plain ''a'' (Some ''1-u'') ''new''])" by (simp add: save_plain_def)
  have d: "map_of (documents ?db') ''a'' = Some (plain_doc ''a'' (Some ''2-u'') ''new'')" by code_simp
  have n: "map_of (rev (map snd (fst (get_changes None (get_update_seq ?db) ?db')))) ''a'' \<noteq> None" by code_simp
  show ?thesis
    using change_feed_tracks_revisions [OF refl refl nf d] n by (auto simp: plain_doc_def text_of_def)
qed

lemma stale_save_conflicts_witness:
  "\<exists>db2. db2 = db_run (\<lambda>_. by_field)
      [save_plain ''a'' None ''old'', save_plain ''a'' (Some ''1-u'') ''new'',
       EAttach ''w'' ''a'' ''2-u'' ''f'' [] 1 ''b''] emudb_init \<and>
     save_doc [] ''v'' (Some (plain_doc ''a'' (Some ''1-u'') ''yours'')) None None db2 = (Inl ConflictError, db2)"
proof -
  let ?es0 = "[save_plain ''a'' None ''old'']" and ?es1 = "[save_plain ''a'' (Some ''1-u'') ''new'']"
    and ?es2 = "[EAttach ''w'' ''a'' ''2-u'' ''f'' [] 1 ''b'']" and ?d = "plain_doc ''a'' (Some ''1-u'') ''yours''"
  let ?db = "db_run (\<lambda>_. by_field) ?es0 emudb_init"
  have n: "list_all names_document (?es1 @ ?es2)" by (simp add: save_plain_def plain_doc_def)
  have s: "stays_alive (\<lambda>_. by_field) ''a'' (?es1 @ ?es2) ?db" by code_simp
  have r: "rev_of ''a'' (db_run (\<lambda>_. by_field) ?es1 ?db) \<noteq> rev_of ''a'' ?db" by code_simp
  have t: "save_target ?d None = Some ''a''" by code_simp
  have b: "d_rev ?d = rev_of ''a'' ?db" by code_simp
  from stale_save_conflicts [OF refl refl refl n s r t b, of "[]" "''v''" None] show ?thesis by simp
qed

text \<open>A save that fails because an attachment was not passed has already stored the new document
  and logged its change, but leaves the cached rows of the view: queries keep answering for the old
  document.\<close>
theorem failed_save_leaves_stale_rows:
  "let views = \<lambda>_. by_field;
       db = db_run views [save_plain ''a'' None ''old'', EQuery ''v'' plain_query] emudb_init;
       broken = (plain_doc ''a'' (Some ''1-u'') ''new'')\<lparr>d_atts := Some [(''f'',
         \<lparr>a_follows = True, a_stub = False, a_content_type = [], a_length = 0\<rparr>)]\<rparr>;
       (r, db') = save_doc [] ''u'' (Some broken) None (Some []) db
   in r = Inl ValueError \<and>
      map_option d_rev (map_of (documents db') ''a'') = Some (Some ''2-u'') \<and>
      keys_of (fst (query_view (named views ''v'') plain_query db')) = Inr [KStr ''old''] \<and>
      keys_of (reference_query (named views ''v'') plain_query db') = Inr [KStr ''new'']"
  by code_simp

text \<open>A fixture loaded over a document that a query has mapped leaves its rows in the cache, and
  logs no change.\<close>

lemma fixture_leaves_stale_rows:
  "let views = \<lambda>_. by_field;
       db = db_run views [save_plain ''a'' None ''old'', EQuery ''v'' plain_query,
              ELoadFixture (plain_doc ''a'' (Some ''7-x'') ''new'') []] emudb_init
   in keys_of (fst (query_view (named views ''v'') plain_query db)) = Inr [KStr ''old''] \<and>
      keys_of (reference_query (named views ''v'') plain_query db) = Inr [KStr ''new''] \<and>
      map (text_of \<circ> d_rev) (changes db) = [''1-u'']"
  by code_simp

text \<open>The slice of a query is cut before the rows are sorted and a missing limit cuts the last row
  off: of three documents stored in the order c, a, b, one row in ascending order is c, and skipping
  one row leaves one.\<close>
theorem query_slices_before_sorting:
  "let views = \<lambda>_. by_field;
       db = db_run views [save_plain ''1'' None ''c'', save_plain ''2'' None ''a'', save_plain ''3'' None ''b''] emudb_init
   in keys_of (fst (query_view (named views ''v'') plain_query db)) = Inr [KStr ''a'', KStr ''b'', KStr ''c''] \<and>
      keys_of (fst (query_view (named views ''v'') (plain_query\<lparr>q_limit := Some 1\<rparr>) db)) = Inr [KStr ''c''] \<and>
      keys_of (fst (query_view (named views ''v'') (plain_query\<lparr>q_skip := 1\<rparr>) db)) = Inr [KStr ''a'']"
  by code_simp


text \<open>An identifier made from the type counter is not checked against the documents there are.\<close>

lemma generated_id_overwrites:
  "let db = db_run (\<lambda>_. by_field) [save_plain ''t_1'' None ''mine''] emudb_init;
       typed = (plain_doc [] None ''yours'')\<lparr>d_id := None, d_type := Some ''t''\<rparr>;
       (r, db') = save_doc [] ''v'' (Some typed) None None db
   in r = Inr (''t_1'', ''1-v'') \<and> map_option d_fields (map_of (documents db') ''t_1'') = Some [(''x'', ''yours'')]"
  by code_simp

text \<open>A listener registered twice for one document in one call survives its cancellation.\<close>

lemma cancel_keeps_second_registration:
  "let db = snd (listen_doc_ids [''a'', ''a''] 7 1 emudb_init)
   in map_option (\<lambda>f. filter_notified f ''a'' ''1-u'' False) (map_of (filters (cancel_listener 1 db)) ''doc_ids'') =
        Some [(7, ''a'', ''1-u'', False)]"
  by code_simp

end
