(* ===== verification/Routing.thy ===== *)
theory Routing
  imports Exp Messages
begin

text \<open>
  The routing table of a messaging object (\<open>agencies/messaging/routing.py\<close>): routes in order of
  priority, the messages that wait for a route, the sink everything unrouted goes to.

  A sink is a number; \<open>deliveries\<close> is the log of the messages given to \<open>on_message\<close> of a sink, in
  order.  A message is a value, so its copies need no definition.  \<open>t\<close> is the time a call sees,
  taken to stand still while a synchronous call runs.
\<close>

section \<open>Routes\<close>

record route =
  rt_owner :: nat
  rt_priority :: int
  rt_key :: "(string \<times> string option) option"
  rt_final :: bool

definition new_route :: "nat \<Rightarrow> (string \<times> string option) option \<Rightarrow> int \<Rightarrow> bool \<Rightarrow> route" where
  "new_route owner key priority final = \<lparr>rt_owner = owner, rt_priority = priority, rt_key = key, rt_final = final\<rparr>"

text \<open>\<open>copy(**params)\<close>: a parameter that is not given keeps its value.\<close>

definition route_copy ::
  "nat option \<Rightarrow> int option \<Rightarrow> (string \<times> string option) option option \<Rightarrow> bool option \<Rightarrow> route \<Rightarrow> route" where
  "route_copy owner priority key final r =
     new_route (case owner of None \<Rightarrow> rt_owner r | Some x \<Rightarrow> x) (case key of None \<Rightarrow> rt_key r | Some x \<Rightarrow> x)
       (case priority of None \<Rightarrow> rt_priority r | Some x \<Rightarrow> x) (case final of None \<Rightarrow> rt_final r | Some x \<Rightarrow> x)"

definition route_match :: "route \<Rightarrow> message \<Rightarrow> exn + bool" where
  "route_match r m =
     (case m_recipient m of
        None \<Rightarrow> Inl AttributeError
      | Some rc \<Rightarrow> Inr (rt_key r = Some (rc_key rc, rc_route rc)))"

definition route_eq :: "route \<Rightarrow> route \<Rightarrow> bool" where
  "route_eq a b = (rt_owner a = rt_owner b \<and> rt_priority a = rt_priority b \<and> rt_key a = rt_key b \<and> rt_final a = rt_final b)"

section \<open>The store of messages\<close>

type_synonym message_store = "(string option, message) xdict"

definition store_insert :: "time \<Rightarrow> message \<Rightarrow> message_store \<Rightarrow> message_store" where
  "store_insert t m s = (if m_expires m = None then s else xds_put t (m_id m) m (m_expires m) False s)"

definition store_remove :: "time \<Rightarrow> message \<Rightarrow> message_store \<Rightarrow> message_store" where
  "store_remove t m s = snd (xds_fetch t (m_id m) s)"

fun matching :: "route \<Rightarrow> message list \<Rightarrow> exn + message list" where
  "matching r [] = Inr []"
| "matching r (m # ms) =
     bindE (route_match r m) (\<lambda>b. bindE (matching r ms) (\<lambda>rest. Inr (if b then m # rest else rest)))"

definition match_to_route :: "time \<Rightarrow> route \<Rightarrow> message_store \<Rightarrow> (exn + message list) \<times> message_store" where
  "match_to_route t r s =
     (case xd_values (\<lambda>_. t) s of
        (values, s) \<Rightarrow>
          (case matching r values of
             Inl e \<Rightarrow> (Inl e, s)
           | Inr ms \<Rightarrow> (Inr ms, if rt_final r then fold (store_remove t) ms s else s)))"

section \<open>The table\<close>

record table =
  routes :: "route list"
  outgoing_sink :: "nat option"
  msg_store :: message_store
  deliveries :: "(nat \<times> message) list"

definition table_init :: table where
  "table_init = \<lparr>routes = [], outgoing_sink = None, msg_store = xd_init None, deliveries = []\<rparr>"

definition set_outgoing_sink :: "nat \<Rightarrow> table \<Rightarrow> exn option \<times> table" where
  "set_outgoing_sink sink tb =
     (if outgoing_sink tb \<noteq> None then (Some RuntimeError, tb) else (None, tb\<lparr>outgoing_sink := Some sink\<rparr>))"

definition send_to_route :: "message \<Rightarrow> route \<Rightarrow> table \<Rightarrow> table" where
  "send_to_route m r tb = tb\<lparr>deliveries := deliveries tb @ [(rt_owner r, m)]\<rparr>"

definition fix_order :: "table \<Rightarrow> table" where
  "fix_order tb = tb\<lparr>routes := sort_key rt_priority (routes tb)\<rparr>"

definition append_route :: "time \<Rightarrow> route \<Rightarrow> table \<Rightarrow> exn option \<times> table" where
  "append_route t r tb =
     (if rt_key r = None then (Some AttributeError, tb)
      else
        (case match_to_route t r (msg_store tb) of
           (Inl e, s) \<Rightarrow> (Some e, tb\<lparr>msg_store := s\<rparr>)
         | (Inr ms, s) \<Rightarrow>
             let tb = fold (\<lambda>m. send_to_route m r) ms (tb\<lparr>msg_store := s\<rparr>)
             in (None, fix_order (tb\<lparr>routes := routes tb @ [r]\<rparr>))))"

text \<open>\<open>list.remove\<close>; a route that is not there is only warned about.\<close>

definition remove_route :: "route \<Rightarrow> table \<Rightarrow> table" where
  "remove_route r tb = tb\<lparr>routes := remove1 r (routes tb)\<rparr>"

definition remove_sink :: "nat \<Rightarrow> table \<Rightarrow> table" where
  "remove_sink sink tb =
     (let tb = tb\<lparr>routes := remove_walking (\<lambda>r. rt_owner r = sink) 0 (routes tb)\<rparr>
      in if outgoing_sink tb = Some sink then tb\<lparr>outgoing_sink := None\<rparr> else tb)"

text \<open>The loop of \<open>dispatch\<close>: an exception, the end by a final route, or the end of the routes.\<close>

fun offer :: "message \<Rightarrow> route list \<Rightarrow> table \<Rightarrow> (exn + bool) \<times> table" where
  "offer m [] tb = (Inr False, tb)"
| "offer m (r # rs) tb =
     (case route_match r m of
        Inl e \<Rightarrow> (Inl e, tb)
      | Inr False \<Rightarrow> offer m rs tb
      | Inr True \<Rightarrow> (let tb = send_to_route m r tb in if rt_final r then (Inr True, tb) else offer m rs tb))"

definition dispatch :: "time \<Rightarrow> message \<Rightarrow> bool \<Rightarrow> table \<Rightarrow> exn option \<times> table" where
  "dispatch t m outgoing tb =
     (case offer m (routes tb) tb of
        (Inl e, tb) \<Rightarrow> (Some e, tb)
      | (Inr True, tb) \<Rightarrow> (None, tb)
      | (Inr False, tb) \<Rightarrow>
          let tb = tb\<lparr>msg_store := store_insert t m (msg_store tb)\<rparr>
          in (None, case outgoing_sink tb of
                      Some s \<Rightarrow> if outgoing then tb\<lparr>deliveries := deliveries tb @ [(s, m)]\<rparr> else tb
                    | None \<Rightarrow> tb))"

lemma route_eq_iff: "route_eq a b \<longleftrightarrow> a = b"
  by (auto simp: route_eq_def)

section \<open>Who gets a message\<close>

abbreviation takes :: "message \<Rightarrow> route \<Rightarrow> bool" where
  "takes m r \<equiv> route_match r m = Inr True"

text \<open>The routes that get a message: those that match up to the first final one.\<close>

fun receivers :: "message \<Rightarrow> route list \<Rightarrow> route list" where
  "receivers m [] = []"
| "receivers m (r # rs) =
     (if takes m r then r # (if rt_final r then [] else receivers m rs) else receivers m rs)"

abbreviation taken :: "message \<Rightarrow> route list \<Rightarrow> bool" where
  "taken m rs \<equiv> \<exists>r \<in> set rs. takes m r \<and> rt_final r"

lemma match_total: "m_recipient m \<noteq> None \<Longrightarrow> route_match r m \<noteq> Inl e"
  by (auto simp: route_match_def)

lemma match_cases:
  assumes "m_recipient m \<noteq> None"
  obtains "takes m r" | "route_match r m = Inr False"
  using assms by (cases "takes m r") (auto simp: route_match_def)

lemma offer_receivers:
  "m_recipient m \<noteq> None \<Longrightarrow>
     offer m rs tb = (Inr (taken m rs), tb\<lparr>deliveries := deliveries tb @ map (\<lambda>r. (rt_owner r, m)) (receivers m rs)\<rparr>)"
proof (induction rs arbitrary: tb)
  case Nil
  then show ?case by simp
next
  case (Cons r rs)
  show ?case
    by (rule match_cases [OF Cons.prems, of r]) (use Cons in \<open>simp_all add: send_to_route_def Let_def\<close>)
qed

lemma dispatch_eq:
  "m_recipient m \<noteq> None \<Longrightarrow>
     dispatch t m out tb =
       (None,
        if taken m (routes tb)
        then tb\<lparr>deliveries := deliveries tb @ map (\<lambda>r. (rt_owner r, m)) (receivers m (routes tb))\<rparr>
        else tb\<lparr>deliveries := deliveries tb @ map (\<lambda>r. (rt_owner r, m)) (receivers m (routes tb)) @
                  (case outgoing_sink tb of Some s \<Rightarrow> if out then [(s, m)] else [] | None \<Rightarrow> []),
                msg_store := store_insert t m (msg_store tb)\<rparr>)"
  by (simp add: dispatch_def offer_receivers Let_def del: bex_simps split: option.split bool.split)

end
