(* ===== verification/RoutingProps.thy ===== *)
theory RoutingProps
  imports Routing
begin

text \<open>
  Histories of a routing table and what they guarantee: who gets a message at once, and that a
  message nobody takes waits for its route until it expires.  The store is used through the laws
  of the interface \<open>exp_store\<close> only.
\<close>

section \<open>The store\<close>

text \<open>At time \<open>t\<close> every message in the store is under its identifier, with its expiration, and
  has a recipient.\<close>

definition store_ok :: "time \<Rightarrow> message_store \<Rightarrow> bool" where
  "store_ok t s \<longleftrightarrow> xd_ok s \<and>
     (\<forall>k i. xd_live t s k = Some i \<longrightarrow>
        m_id (item_value i) = k \<and> item_exp i = m_expires (item_value i) \<and> m_recipient (item_value i) \<noteq> None)"

lemma store_ok_later: "store_ok t s \<Longrightarrow> t \<le> t' \<Longrightarrow> store_ok t' s"
  unfolding store_ok_def by (metis xd_live_shrinks)

lemma store_insert_live:
  assumes "xd_ok s"
  shows "xd_ok (store_insert t m s) \<and>
    xd_live t (store_insert t m s) =
      (case m_expires m of
         Some e \<Rightarrow> if e \<le> t then xd_live t s else (xd_live t s)(m_id m \<mapsto> \<lparr>item_exp = Some e, item_value = m\<rparr>)
       | None \<Rightarrow> xd_live t s)"
proof (cases "m_expires m")
  case None
  then show ?thesis using assms by (simp add: store_insert_def)
next
  case (Some e)
  have "store_insert t m s = xds_put t (m_id m) m (Some e) False s" by (simp add: store_insert_def Some)
  then show ?thesis
    using xds.view_put [OF assms, of t "m_id m" m "Some e" False] xds.ok_put [OF assms, of t "m_id m" m "Some e" False]
    by (simp add: Some Let_def)
qed

lemma store_ok_insert: "store_ok t s \<Longrightarrow> m_recipient m \<noteq> None \<Longrightarrow> store_ok t (store_insert t m s)"
  using store_insert_live [of s t m] by (auto simp: store_ok_def split: option.splits if_splits)

lemma store_remove_live:
  assumes "xd_ok s"
  shows "xd_ok (store_remove t m s)" "xd_live t (store_remove t m s) = (xd_live t s)(m_id m := None)"
  using assms by (simp_all add: store_remove_def xds.ok_fetch xds.view_fetch)

lemma remove_all_live:
  "xd_ok s \<Longrightarrow> xd_ok (fold (store_remove t) ms s) \<and>
     xd_live t (fold (store_remove t) ms s) = (\<lambda>k. if k \<in> m_id ` set ms then None else xd_live t s k)"
  by (induction ms arbitrary: s) (auto simp: store_remove_live fun_eq_iff)

lemma matching_filter: "(\<forall>m \<in> set ms. m_recipient m \<noteq> None) \<Longrightarrow> matching r ms = Inr (filter (\<lambda>m. takes m r) ms)"
proof (induction ms)
  case Nil
  then show ?case by simp
next
  case (Cons m ms)
  have "m_recipient m \<noteq> None" using Cons.prems by simp
  then show ?case using Cons by (cases rule: match_cases [of m r]) simp_all
qed

lemma values_live:
  assumes "store_ok t s" "xd_values (\<lambda>_. t) s = (ms, s')"
  shows "store_ok t s'" "xd_live t s' = xd_live t s" "distinct ms"
    "set ms = {item_value i |k i. xd_live t s k = Some i}"
proof -
  have ok: "xd_ok s" using assms(1) by (simp add: store_ok_def)
  obtain kvs where it: "xd_iteritems (\<lambda>_. t) s = (kvs, s')" and ms: "ms = map snd kvs"
    using assms(2) by (auto simp: xd_values_def split: prod.splits)
  show live: "xd_live t s' = xd_live t s" using xds.view_entries [OF ok, of t] it by simp
  have "xd_ok s'" using xds.ok_entries [OF ok, of t] it by simp
  then show "store_ok t s'" using assms(1) live by (simp add: store_ok_def)
  have dk: "dict_ok kvs" using xds.entries_dict [OF ok, of t] it by simp
  have mp: "map_of kvs k = map_option item_value (xd_live t s k)" for k using xds.entries_map [OF ok, of t] it by simp
  have key: "m_id v = k" if "(k, v) \<in> set kvs" for k v
  proof -
    have "map_of kvs k = Some v" using that dk by simp
    then show ?thesis using mp [of k] assms(1) by (auto simp: store_ok_def)
  qed
  have "inj_on snd (set kvs)" using key by (auto simp: inj_on_def) (metis)+
  then show "distinct ms" using dk by (simp add: ms distinct_map distinct_map [of fst])
  show "set ms = {item_value i |k i. xd_live t s k = Some i}"
  proof (rule set_eqI)
    fix v
    have "v \<in> set ms \<longleftrightarrow> v \<in> snd ` set (fst (xd_iteritems (\<lambda>_. t) s))" by (simp add: ms it)
    also have "\<dots> \<longleftrightarrow> (\<exists>k i. xd_live t s k = Some i \<and> item_value i = v)" by (rule xds.in_entries_iff [OF ok])
    finally show "v \<in> set ms \<longleftrightarrow> v \<in> {item_value i |k i. xd_live t s k = Some i}" by auto
  qed
qed

text \<open>The messages a new route gets, and what is left in the store.\<close>

lemma match_to_route_live:
  assumes "store_ok t s"
  obtains ms s' where "match_to_route t r s = (Inr ms, s')" "store_ok t s'" "distinct ms"
    "set ms = {item_value i |k i. xd_live t s k = Some i \<and> takes (item_value i) r}"
    "xd_live t s' = (\<lambda>k. case xd_live t s k of
       Some i \<Rightarrow> if rt_final r \<and> takes (item_value i) r then None else Some i | None \<Rightarrow> None)"
proof -
  obtain vs s1 where v: "xd_values (\<lambda>_. t) s = (vs, s1)" by (cases "xd_values (\<lambda>_. t) s") auto
  note vl = values_live [OF assms v]
  define ms where "ms = filter (\<lambda>m. takes m r) vs"
  have "\<forall>m \<in> set vs. m_recipient m \<noteq> None" using vl(4) assms by (auto simp: store_ok_def)
  then have m: "matching r vs = Inr ms" by (simp add: matching_filter ms_def)
  define s' where "s' = (if rt_final r then fold (store_remove t) ms s1 else s1)"
  have ok1: "xd_ok s1" using vl(1) by (simp add: store_ok_def)
  have set: "set ms = {item_value i |k i. xd_live t s k = Some i \<and> takes (item_value i) r}"
    using vl(4) by (auto simp: ms_def)
  have gone: "k \<in> m_id ` set ms \<longleftrightarrow> takes (item_value i) r" if "xd_live t s k = Some i" for k i
  proof
    assume "takes (item_value i) r"
    then show "k \<in> m_id ` set ms" using assms that unfolding set store_ok_def by force
  next
    assume "k \<in> m_id ` set ms"
    then obtain k' i' where "xd_live t s k' = Some i'" "takes (item_value i') r" "m_id (item_value i') = k"
      unfolding set by auto
    moreover have "k' = k" using calculation assms by (auto simp: store_ok_def)
    ultimately show "takes (item_value i) r" using that by simp
  qed
  have live: "xd_live t s' = (\<lambda>k. case xd_live t s k of
       Some i \<Rightarrow> if rt_final r \<and> takes (item_value i) r then None else Some i | None \<Rightarrow> None)"
    using remove_all_live [OF ok1, of t ms] vl(2) gone by (auto simp: s'_def fun_eq_iff split: option.split)
  moreover have "xd_ok s'" using remove_all_live [OF ok1, of t ms] ok1 by (simp add: s'_def)
  ultimately have "store_ok t s'" using assms by (auto simp: store_ok_def split: option.splits if_splits)
  moreover have "match_to_route t r s = (Inr ms, s')" by (simp add: match_to_route_def v m s'_def)
  moreover have "distinct ms" using vl(3) by (simp add: ms_def)
  ultimately show ?thesis using that set live by blast
qed

section \<open>Histories\<close>

datatype table_event = TAppend route | TRemove route | TRemoveSink nat | TOutgoing nat | TDispatch message bool

fun table_step :: "time \<Rightarrow> table_event \<Rightarrow> table \<Rightarrow> table" where
  "table_step t (TAppend r) tb = snd (append_route t r tb)"
| "table_step t (TRemove r) tb = remove_route r tb"
| "table_step t (TRemoveSink s) tb = remove_sink s tb"
| "table_step t (TOutgoing s) tb = snd (set_outgoing_sink s tb)"
| "table_step t (TDispatch m out) tb = snd (dispatch t m out tb)"

fun table_run :: "(time \<times> table_event) list \<Rightarrow> table \<Rightarrow> table" where
  "table_run [] tb = tb"
| "table_run ((t, e) # es) tb = table_run es (table_step t e tb)"

fun addressed :: "table_event \<Rightarrow> bool" where
  "addressed (TDispatch m out) = (m_recipient m \<noteq> None)"
| "addressed _ = True"

lemma fold_send: "fold (\<lambda>m. send_to_route m r) ms tb = tb\<lparr>deliveries := deliveries tb @ map (\<lambda>m. (rt_owner r, m)) ms\<rparr>"
  by (induction ms arbitrary: tb) (simp_all add: send_to_route_def)

lemma append_route_effect:
  assumes "store_ok t (msg_store tb)" "rt_key r \<noteq> None"
  obtains ms where "distinct ms"
    "set ms = {item_value i |k i. xd_live t (msg_store tb) k = Some i \<and> takes (item_value i) r}"
    "deliveries (snd (append_route t r tb)) = deliveries tb @ map (\<lambda>m. (rt_owner r, m)) ms"
    "store_ok t (msg_store (snd (append_route t r tb)))"
    "xd_live t (msg_store (snd (append_route t r tb))) = (\<lambda>k. case xd_live t (msg_store tb) k of
       Some i \<Rightarrow> if rt_final r \<and> takes (item_value i) r then None else Some i | None \<Rightarrow> None)"
proof -
  obtain ms s' where m: "match_to_route t r (msg_store tb) = (Inr ms, s')" "store_ok t s'" "distinct ms"
    "set ms = {item_value i |k i. xd_live t (msg_store tb) k = Some i \<and> takes (item_value i) r}"
    "xd_live t s' = (\<lambda>k. case xd_live t (msg_store tb) k of
       Some i \<Rightarrow> if rt_final r \<and> takes (item_value i) r then None else Some i | None \<Rightarrow> None)"
    by (rule match_to_route_live [OF assms(1), of r])
  obtain k where k: "rt_key r = Some k" using assms(2) by auto
  show ?thesis
    by (rule that [of ms]) (use m k in \<open>simp_all add: append_route_def fold_send fix_order_def Let_def\<close>)
qed

lemma step_store_ok:
  assumes "store_ok t (msg_store tb)" "addressed e"
  shows "store_ok t (msg_store (table_step t e tb))"
proof (cases e)
  case (TAppend r)
  show ?thesis
  proof (cases "rt_key r")
    case None
    then show ?thesis using assms TAppend by (simp add: append_route_def)
  next
    case (Some k)
    then have "rt_key r \<noteq> None" by simp
    from append_route_effect [OF assms(1) this] show ?thesis using TAppend by auto
  qed
next
  case (TDispatch m out)
  then show ?thesis using assms store_ok_insert by (simp add: dispatch_eq)
qed (use assms in \<open>simp_all add: remove_route_def remove_sink_def set_outgoing_sink_def Let_def\<close>)

lemma run_store_ok:
  "store_ok t (msg_store tb) \<Longrightarrow> sorted (t # map fst es) \<Longrightarrow> \<forall>(_, e) \<in> set es. addressed e \<Longrightarrow>
     \<forall>t' \<ge> last (t # map fst es). store_ok t' (msg_store (table_run es tb))"
proof (induction es arbitrary: t tb)
  case Nil
  then show ?case using store_ok_later by simp
next
  case (Cons te es)
  obtain t1 e where te: "te = (t1, e)" by (cases te)
  have "store_ok t1 (msg_store (table_step t1 e tb))"
    using Cons.prems te by (intro step_store_ok) (auto intro: store_ok_later)
  from Cons.IH [OF this] show ?case using Cons.prems te by simp
qed


section \<open>A message waits for its route\<close>

definition waiting :: "time \<Rightarrow> message \<Rightarrow> table \<Rightarrow> bool" where
  "waiting t m tb =
     (store_ok t (msg_store tb) \<and> xd_live t (msg_store tb) (m_id m) = Some \<lparr>item_exp = m_expires m, item_value = m\<rparr>)"

lemma waiting_later:
  "waiting t m tb \<Longrightarrow> m_expires m = Some e \<Longrightarrow> t \<le> t' \<Longrightarrow> t' < e \<Longrightarrow> waiting t' m tb"
  using store_ok_later [of t "msg_store tb" t']
  by (auto simp: waiting_def xd_live_def live_view_def item_live_def split: option.splits if_splits)

text \<open>What ends the wait: a final route that takes the message, or a message with its identifier.\<close>

fun ends_wait :: "message \<Rightarrow> table_event \<Rightarrow> bool" where
  "ends_wait m (TAppend r) = (rt_final r \<and> takes m r)"
| "ends_wait m (TDispatch m' out) = (m_id m' = m_id m)"
| "ends_wait m _ = False"

lemma step_waiting:
  assumes "waiting t m tb" "addressed e" "\<not> ends_wait m e"
  shows "waiting t m (table_step t e tb)"
proof -
  have ok: "store_ok t (msg_store tb)" using assms(1) by (simp add: waiting_def)
  have "xd_live t (msg_store (table_step t e tb)) (m_id m) = Some \<lparr>item_exp = m_expires m, item_value = m\<rparr>"
  proof (cases e)
    case (TAppend r)
    show ?thesis
    proof (cases "rt_key r")
      case None
      then show ?thesis using assms TAppend by (simp add: append_route_def waiting_def)
    next
      case (Some k)
      then have "rt_key r \<noteq> None" by simp
      obtain ms where "xd_live t (msg_store (snd (append_route t r tb))) = (\<lambda>k. case xd_live t (msg_store tb) k of
         Some i \<Rightarrow> if rt_final r \<and> takes (item_value i) r then None else Some i | None \<Rightarrow> None)"
        by (rule append_route_effect [OF ok \<open>rt_key r \<noteq> None\<close>])
      then show ?thesis using assms(1, 3) TAppend by (simp add: waiting_def)
    qed
  next
    case (TDispatch m' out)
    have "xd_ok (msg_store tb)" using ok by (simp add: store_ok_def)
    then show ?thesis using assms TDispatch store_insert_live [of "msg_store tb" t m']
      by (simp add: dispatch_eq waiting_def split: option.splits)
  qed (use assms in \<open>simp_all add: remove_route_def remove_sink_def set_outgoing_sink_def Let_def waiting_def\<close>)
  then show ?thesis using step_store_ok [OF ok assms(2)] by (simp add: waiting_def)
qed

lemma run_waiting:
  "waiting t m tb \<Longrightarrow> m_expires m = Some e \<Longrightarrow> sorted (t # map fst es) \<Longrightarrow>
     \<forall>(t', ev) \<in> set es. addressed ev \<and> \<not> ends_wait m ev \<and> t' < e \<Longrightarrow>
     last (t # map fst es) \<le> t' \<Longrightarrow> t' < e \<Longrightarrow> waiting t' m (table_run es tb)"
proof (induction es arbitrary: t tb)
  case Nil
  then show ?case using waiting_later by simp
next
  case (Cons te es)
  obtain t1 ev where te: "te = (t1, ev)" by (cases te)
  have "waiting t1 m tb" using Cons.prems te by (intro waiting_later [OF Cons.prems(1, 2)]) auto
  then have "waiting t1 m (table_step t1 ev tb)" using Cons.prems(4) te by (intro step_waiting) auto
  from Cons.IH [OF this Cons.prems(2)] show ?case using Cons.prems te by simp
qed

lemma init_store_ok: "store_ok t (msg_store table_init)"
  by (simp add: store_ok_def table_init_def xd_ok_def xd_init_def xd_live_def live_view_def)

lemma dispatch_waits:
  assumes "store_ok t (msg_store tb)" "m_recipient m \<noteq> None" "m_expires m = Some e" "t < e" "\<not> taken m (routes tb)"
  shows "waiting t m (snd (dispatch t m out tb))"
proof -
  have "xd_ok (msg_store tb)" using assms(1) by (simp add: store_ok_def)
  then show ?thesis
    unfolding dispatch_eq [OF assms(2)] if_not_P [OF assms(5)]
    using assms(3, 4) store_insert_live [of "msg_store tb" t m] store_ok_insert [OF assms(1, 2)]
    by (simp add: waiting_def)
qed

lemma count_distinct: "distinct xs \<Longrightarrow> x \<in> set xs \<Longrightarrow> count_list xs x = 1"
  by (induction xs) auto

lemma append_delivers_waiting:
  assumes "waiting t m tb" "takes m r"
  shows "count_list (drop (length (deliveries tb)) (deliveries (snd (append_route t r tb)))) (rt_owner r, m) = 1"
proof -
  have ok: "store_ok t (msg_store tb)" using assms(1) by (simp add: waiting_def)
  have key: "rt_key r \<noteq> None" using assms(2) by (auto simp: route_match_def split: option.splits)
  obtain ms where ms: "distinct ms"
    "set ms = {item_value i |k i. xd_live t (msg_store tb) k = Some i \<and> takes (item_value i) r}"
    "deliveries (snd (append_route t r tb)) = deliveries tb @ map (\<lambda>m. (rt_owner r, m)) ms"
    by (rule append_route_effect [OF ok key])
  have "m \<in> set ms" using assms unfolding ms(2) waiting_def by force
  moreover have "distinct (map (\<lambda>m. (rt_owner r, m)) ms)" using ms(1) by (simp add: distinct_map inj_on_def)
  ultimately have "count_list (map (\<lambda>m. (rt_owner r, m)) ms) (rt_owner r, m) = 1"
    by (intro count_distinct) auto
  then show ?thesis by (simp add: ms(3))
qed




section \<open>The order of dispatching\<close>

lemma sorted_remove_walking: "sorted (map f xs) \<Longrightarrow> sorted (map f (remove_walking P pos xs))"
proof (induction P pos xs rule: remove_walking.induct)
  case (1 P pos xs)
  then show ?case by (simp add: remove_walking.simps [of P pos xs] sorted_map_remove1)
qed

lemma step_sorted: "sorted (map rt_priority (routes tb)) \<Longrightarrow> sorted (map rt_priority (routes (table_step t e tb)))"
proof (cases e)
  case (TDispatch m out)
  have "routes (snd (offer m rs tb)) = routes tb" for rs tb
    by (induction rs arbitrary: tb) (simp_all add: send_to_route_def Let_def split: sum.split bool.split)
  then have "routes (snd (dispatch t m out tb)) = routes tb"
    by (auto simp: dispatch_def Let_def split: prod.split sum.split bool.split option.split) (metis snd_conv)+
  then show "sorted (map rt_priority (routes tb)) \<Longrightarrow> ?thesis" using TDispatch by simp
qed (auto simp: append_route_def fold_send fix_order_def remove_route_def remove_sink_def set_outgoing_sink_def
      sorted_map_remove1 sorted_remove_walking Let_def split: prod.split sum.split)

lemma run_sorted: "sorted (map rt_priority (routes tb)) \<Longrightarrow> sorted (map rt_priority (routes (table_run es tb)))"
  by (induction es tb rule: table_run.induct) (simp_all add: step_sorted)

lemma receivers_subset: "r \<in> set (receivers m rs) \<Longrightarrow> r \<in> set rs \<and> takes m r"
  by (induction rs) (auto split: if_splits)

lemma receivers_spec:
  "sorted (map rt_priority rs) \<Longrightarrow>
     sorted (map rt_priority (receivers m rs)) \<and>
     (\<forall>r \<in> set (butlast (receivers m rs)). \<not> rt_final r) \<and>
     (\<forall>r \<in> set rs. takes m r \<longrightarrow> r \<in> set (receivers m rs) \<or>
        (\<exists>f \<in> set (receivers m rs). rt_final f \<and> rt_priority f \<le> rt_priority r))"
proof (induction rs)
  case Nil
  then show ?case by simp
next
  case (Cons r rs)
  then show ?case using receivers_subset [of _ m rs] by (auto split: if_splits)
qed

lemma receivers_prefix: "\<exists>rest. filter (takes m) rs = receivers m rs @ rest"
  by (induction rs) auto

lemma receivers_final: "(\<exists>r \<in> set (receivers m rs). rt_final r) \<longleftrightarrow> taken m rs"
  by (induction rs) auto

lemma receivers_none: "receivers m rs = [] \<Longrightarrow> filter (takes m) rs = []"
  by (induction rs) (auto split: if_splits)

lemma receivers_rest:
  "filter (takes m) rs = receivers m rs @ rest \<Longrightarrow> rest = [] \<or> receivers m rs \<noteq> [] \<and> rt_final (last (receivers m rs))"
  using receivers_none [of m] by (induction rs) (auto split: if_splits)

text \<open>C25: In any history of a table, a dispatched message is given to the routes that match it in
  the order of their priorities, up to the first final one; a matching route that is passed over comes
  after that one.  If a final route took the message nothing else happens; otherwise it is kept in
  the store until it expires and, when it is to be sent out, handed to the outgoing sink.\<close>
theorem dispatch_follows_priorities:
  assumes "tb = table_run es table_init" "m_recipient m \<noteq> None"
  shows "\<exists>rs rest. filter (takes m) (routes tb) = rs @ rest \<and> sorted (map rt_priority (rs @ rest)) \<and>
    (\<forall>r \<in> set (butlast rs). \<not> rt_final r) \<and> (rest = [] \<or> rs \<noteq> [] \<and> rt_final (last rs)) \<and>
    dispatch t m out tb =
      (None,
       if \<exists>r \<in> set rs. rt_final r
       then tb\<lparr>deliveries := deliveries tb @ map (\<lambda>r. (rt_owner r, m)) rs\<rparr>
       else tb\<lparr>deliveries := deliveries tb @ map (\<lambda>r. (rt_owner r, m)) rs @
                 (case outgoing_sink tb of None \<Rightarrow> [] | Some s \<Rightarrow> if out then [(s, m)] else []),
               msg_store := store_insert t m (msg_store tb)\<rparr>)"
proof -
  let ?rs = "receivers m (routes tb)"
  have s: "sorted (map rt_priority (routes tb))"
    using run_sorted [of table_init es] by (simp add: assms(1) table_init_def)
  obtain rest where rest: "filter (takes m) (routes tb) = ?rs @ rest" using receivers_prefix by blast
  have "sorted (map rt_priority (?rs @ rest))"
    unfolding rest [symmetric] by (rule sorted_filter [OF s])
  moreover have "\<forall>r \<in> set (butlast ?rs). \<not> rt_final r" using receivers_spec [OF s, of m] by simp
  moreover have "rest = [] \<or> ?rs \<noteq> [] \<and> rt_final (last ?rs)" using receivers_rest [OF rest] .
  moreover have "dispatch t m out tb =
      (None,
       if \<exists>r \<in> set ?rs. rt_final r
       then tb\<lparr>deliveries := deliveries tb @ map (\<lambda>r. (rt_owner r, m)) ?rs\<rparr>
       else tb\<lparr>deliveries := deliveries tb @ map (\<lambda>r. (rt_owner r, m)) ?rs @
                 (case outgoing_sink tb of None \<Rightarrow> [] | Some s \<Rightarrow> if out then [(s, m)] else []),
               msg_store := store_insert t m (msg_store tb)\<rparr>)"
    unfolding receivers_final by (simp add: dispatch_eq [OF assms(2)] split: option.split)
  ultimately show ?thesis using rest by blast
qed

lemma dispatch_follows_priorities_witness:
  "\<exists>tb. tb = table_run [(1, TAppend (new_route 1 (Some (''p'', None)) 2 True)),
       (2, TAppend (new_route 2 (Some (''p'', None)) 1 False)), (3, TAppend (new_route 3 (Some (''p'', None)) 3 False))] table_init \<and>
     length (deliveries (snd (dispatch 4 ((new_message Bid)\<lparr>m_recipient := Some (agent_recipient ''p'' None)\<rparr>) True tb))) \<le>
       length (deliveries tb) + 4"
proof -
  let ?m = "(new_message Bid)\<lparr>m_recipient := Some (agent_recipient ''p'' None)\<rparr>"
  let ?es = "[(1, TAppend (new_route 1 (Some (''p'', None)) 2 True)),
     (2, TAppend (new_route 2 (Some (''p'', None)) 1 False)), (3, TAppend (new_route 3 (Some (''p'', None)) 3 False))]"
  obtain tb where tb: "tb = table_run ?es table_init" by blast
  have r: "m_recipient ?m \<noteq> None" by simp
  obtain rs rest where f: "filter (takes ?m) (routes tb) = rs @ rest"
    and d: "dispatch 4 ?m True tb =
      (None,
       if \<exists>r \<in> set rs. rt_final r
       then tb\<lparr>deliveries := deliveries tb @ map (\<lambda>r. (rt_owner r, ?m)) rs\<rparr>
       else tb\<lparr>deliveries := deliveries tb @ map (\<lambda>r. (rt_owner r, ?m)) rs @
                 (case outgoing_sink tb of None \<Rightarrow> [] | Some s \<Rightarrow> if True then [(s, ?m)] else []),
               msg_store := store_insert 4 ?m (msg_store tb)\<rparr>)"
    using dispatch_follows_priorities [where t = 4 and out = True, OF tb r] by blast
  have "length (rs @ rest) \<le> length (routes tb)" unfolding f [symmetric] by (rule length_filter_le)
  moreover have "length (routes tb) = 3" unfolding tb by code_simp
  ultimately have "length rs \<le> 3" by simp
  then have "length (deliveries (snd (dispatch 4 ?m True tb))) \<le> length (deliveries tb) + 4"
    unfolding d by (auto split: option.split)
  with tb show ?thesis by blast
qed

end
