(* ===== verification/Interest.thy ===== *)
theory Interest
  imports ExpQueue Messages StateMachine
begin

text \<open>
  The interests of an agent (\<open>agencies/protocols.py\<close>, the collector's in
  \<open>agencies/notifications.py\<close>): which messages start a protocol, how many run at once, and the
  queue of those that have to wait.

  A protocol is started by \<open>_process_message\<close>; \<open>it_started\<close> is the list of the messages it was
  started for, \<open>it_processed\<close> counts the calls of \<open>_message_processed\<close>, which the end of a protocol
  makes.  \<open>it_initiator\<close> are the message classes the factory accepts.  The bindings are made and
  revoked by the agent: \<open>it_calls\<close> is the log of those calls, a new binding is an argument.
\<close>

section \<open>State\<close>

datatype binding_call =
    CreateBinding string "string option" bool
  | RevokeBinding "nat option"

record interest =
  it_public :: bool
  it_protocol_id :: string
  it_initiator :: "kind list"
  it_concurrency :: "nat option"
  it_queue :: "message xqueue option"
  it_active :: nat
  it_notifier :: "string notifier"
  it_next_wait :: nat
  it_binding :: "nat option"
  it_lobby :: "nat option"
  it_calls :: "binding_call list"
  it_started :: "message list"
  it_processed :: nat
  it_fired :: "nat list"

definition new_interest :: "bool \<Rightarrow> string \<Rightarrow> kind list \<Rightarrow> nat option \<Rightarrow> interest" where
  "new_interest public pid kinds concurrency =
     \<lparr>it_public = public, it_protocol_id = pid, it_initiator = kinds, it_concurrency = concurrency,
      it_queue = None, it_active = 0, it_notifier = [], it_next_wait = 0, it_binding = None, it_lobby = None,
      it_calls = [], it_started = [], it_processed = 0, it_fired = []\<rparr>"

section \<open>Bindings\<close>

definition interest_bind :: "string option \<Rightarrow> nat \<Rightarrow> interest \<Rightarrow> interest" where
  "interest_bind shard b i =
     (if it_public i
      then i\<lparr>it_binding := Some b, it_calls := it_calls i @ [CreateBinding (it_protocol_id i) shard False]\<rparr>
      else i)"

definition bind_to_lobby :: "nat \<Rightarrow> interest \<Rightarrow> interest" where
  "bind_to_lobby b i =
     (if it_lobby i \<noteq> None then i
      else i\<lparr>it_lobby := Some b, it_calls := it_calls i @ [CreateBinding (it_protocol_id i) (Some ''lobby'') True]\<rparr>)"

definition unbind_from_lobby :: "interest \<Rightarrow> interest" where
  "unbind_from_lobby i =
     (case it_lobby i of
        None \<Rightarrow> i
      | Some b \<Rightarrow> i\<lparr>it_calls := it_calls i @ [RevokeBinding (Some b)], it_lobby := None\<rparr>)"

definition clear_queue :: "interest \<Rightarrow> interest" where
  "clear_queue i = i\<lparr>it_queue := map_option xq_clear (it_queue i)\<rparr>"

definition interest_revoke :: "interest \<Rightarrow> interest" where
  "interest_revoke i =
     (let i = unbind_from_lobby (clear_queue i)
      in if it_public i then i\<lparr>it_calls := it_calls i @ [RevokeBinding (it_binding i)]\<rparr> else i)"

text \<open>\<open>__call__\<close>: the interest is made for an agent.\<close>

definition interest_call :: "nat \<Rightarrow> interest \<Rightarrow> interest" where
  "interest_call b i =
     interest_bind None b
       (if it_concurrency i \<noteq> None then i\<lparr>it_queue := Some (xq_init None False)\<rparr> else i)"

section \<open>Messages\<close>

definition interest_idle :: "interest \<Rightarrow> bool" where
  "interest_idle i = (it_active i = 0)"

text \<open>\<open>wait_finished\<close>: None is a deferred that has already fired.\<close>

definition wait_finished :: "interest \<Rightarrow> nat option \<times> interest" where
  "wait_finished i =
     (if interest_idle i then (None, i)
      else (Some (it_next_wait i),
            i\<lparr>it_notifier := notifier_store ''finished'' (it_next_wait i) (it_notifier i),
              it_next_wait := it_next_wait i + 1\<rparr>))"

definition process_message :: "message \<Rightarrow> interest \<Rightarrow> exn option \<times> interest" where
  "process_message m i =
     (case it_concurrency i of
        Some (Suc c) \<Rightarrow>
          if it_active i < Suc c
          then (None, i\<lparr>it_active := it_active i + 1, it_started := it_started i @ [m]\<rparr>)
          else (Some AssertionError, i)
      | _ \<Rightarrow> (None, i\<lparr>it_active := it_active i + 1, it_started := it_started i @ [m]\<rparr>))"

definition schedule_message :: "clock \<Rightarrow> message \<Rightarrow> interest \<Rightarrow> (exn + bool) \<times> interest" where
  "schedule_message clk m i =
     (if m_kind m \<notin> set (it_initiator i) then (Inr False, i)
      else
        (case (it_queue i, it_concurrency i) of
           (Some q, Some c) \<Rightarrow>
             if c \<le> it_active i then
               (case xq_add clk m (m_expires m) False q of
                  (Inl e, _, q) \<Rightarrow> (Inl e, i\<lparr>it_queue := Some q\<rparr>)
                | (Inr _, _, q) \<Rightarrow> (Inr True, i\<lparr>it_queue := Some q\<rparr>))
             else (case process_message m i of (Some e, i) \<Rightarrow> (Inl e, i) | (None, i) \<Rightarrow> (Inr True, i))
         | _ \<Rightarrow> (case process_message m i of (Some e, i) \<Rightarrow> (Inl e, i) | (None, i) \<Rightarrow> (Inr True, i))))"

definition interest_finished :: "interest \<Rightarrow> interest" where
  "interest_finished i =
     (if it_active i = 0 then
        (case notifier_callback ''finished'' () (it_notifier i) of
           (calls, n) \<Rightarrow> i\<lparr>it_notifier := n, it_fired := it_fired i @ map fst calls\<rparr>)
      else i)"

definition message_processed :: "clock \<Rightarrow> interest \<Rightarrow> exn option \<times> interest" where
  "message_processed clk i =
     (if it_active i = 0 then (Some AssertionError, i)
      else
        (let i = i\<lparr>it_active := it_active i - 1, it_processed := it_processed i + 1\<rparr>
         in case it_queue i of
              None \<Rightarrow> (None, interest_finished i)
            | Some q \<Rightarrow>
                (case xq_pop clk q of
                   (Inr m, _, q) \<Rightarrow> process_message m (i\<lparr>it_queue := Some q\<rparr>)
                 | (Inl Empty, _, q) \<Rightarrow> (None, interest_finished (i\<lparr>it_queue := Some q\<rparr>))
                 | (Inl e, _, q) \<Rightarrow> (Some e, i\<lparr>it_queue := Some q\<rparr>))))"

section \<open>Histories\<close>

datatype interest_event = IMessage message | IProcessed | IWait | IBind "string option" nat | IToLobby nat | IFromLobby | IRevoke

fun interest_step :: "clock \<Rightarrow> interest_event \<Rightarrow> interest \<Rightarrow> interest" where
  "interest_step clk (IMessage m) i = snd (schedule_message clk m i)"
| "interest_step clk IProcessed i = snd (message_processed clk i)"
| "interest_step clk IWait i = snd (wait_finished i)"
| "interest_step clk (IBind shard b) i = interest_bind shard b i"
| "interest_step clk (IToLobby b) i = bind_to_lobby b i"
| "interest_step clk IFromLobby i = unbind_from_lobby i"
| "interest_step clk IRevoke i = interest_revoke i"

fun interest_run :: "(clock \<times> interest_event) list \<Rightarrow> interest \<Rightarrow> interest" where
  "interest_run [] i = i"
| "interest_run ((clk, e) # es) i = interest_run es (interest_step clk e i)"

text \<open>The invariant: as many protocols run as were started and have not ended, never more than
  the concurrency, as many as that whenever a message is queued, and nobody waits for an idle
  interest.\<close>

definition interest_ok :: "interest \<Rightarrow> bool" where
  "interest_ok i \<longleftrightarrow>
     length (it_started i) = it_processed i + it_active i \<and>
     (it_queue i = None \<longleftrightarrow> it_concurrency i = None) \<and>
     (\<forall>q. it_queue i = Some q \<longrightarrow> xq_constructed q) \<and>
     (\<forall>c. it_concurrency i = Some c \<longrightarrow> 0 < c \<longrightarrow> it_active i \<le> c) \<and>
     (\<forall>c q. it_concurrency i = Some c \<longrightarrow> it_queue i = Some q \<longrightarrow> xq_heap q \<noteq> [] \<longrightarrow> c \<le> it_active i) \<and>
     (it_active i = 0 \<longrightarrow> waiters (it_notifier i) ''finished'' = {})"

lemma process_message_ok:
  assumes "\<And>c. it_concurrency i = Some c \<Longrightarrow> 0 < c \<Longrightarrow> it_active i < c"
  shows "process_message m i = (None, i\<lparr>it_active := it_active i + 1, it_started := it_started i @ [m]\<rparr>)"
  using assms by (auto simp: process_message_def split: option.split nat.split)

lemma xq_add_constructed:
  assumes "xq_constructed q"
  shows "fst (xq_add clk v e rel q) = Inr ()" "xq_constructed (snd (snd (xq_add clk v e rel q)))"
proof -
  obtain calls q' dead where "xq_lazy_pack (clk 0) q = (Inr (), calls, q')" "xq_accounts (clk 0) q dead calls q'"
    by (rule xq_lazy_pack_accounts [OF assms])
  moreover from this have "xq_constructed q'" by (simp add: xq_accounts_def)
  ultimately show "fst (xq_add clk v e rel q) = Inr ()" "xq_constructed (snd (snd (xq_add clk v e rel q)))"
    by (auto simp: xq_add_def xq_constructed_def Let_def split: option.splits)
qed

lemma schedule_ok:
  assumes "interest_ok i"
  shows "interest_ok (snd (schedule_message clk m i)) \<and> (\<forall>e. fst (schedule_message clk m i) \<noteq> Inl e)"
proof (cases "m_kind m \<in> set (it_initiator i)")
  case False
  then show ?thesis using assms by (simp add: schedule_message_def)
next
  case True
  show ?thesis
  proof (cases "it_concurrency i")
    case None
    then have "it_queue i = None" using assms by (simp add: interest_ok_def)
    moreover have "process_message m i = (None, i\<lparr>it_active := it_active i + 1, it_started := it_started i @ [m]\<rparr>)"
      by (rule process_message_ok) (simp add: None)
    ultimately show ?thesis using assms True None by (simp add: schedule_message_def interest_ok_def)
  next
    case (Some c)
    then obtain q where q: "it_queue i = Some q" "xq_constructed q" using assms by (auto simp: interest_ok_def)
    show ?thesis
    proof (cases "c \<le> it_active i")
      case busy: True
      obtain r calls q' where a: "xq_add clk m (m_expires m) False q = (r, calls, q')"
        by (cases "xq_add clk m (m_expires m) False q") auto
      then have "r = Inr ()" "xq_constructed q'" using xq_add_constructed [OF q(2), of clk m "m_expires m" False] by simp_all
      then show ?thesis using assms True Some q busy a by (simp add: schedule_message_def interest_ok_def)
    next
      case False
      then have "process_message m i = (None, i\<lparr>it_active := it_active i + 1, it_started := it_started i @ [m]\<rparr>)"
        by (intro process_message_ok) (simp add: Some)
      then show ?thesis using assms True Some q False by (auto simp: schedule_message_def interest_ok_def)
    qed
  qed
qed

lemma finished_ok:
  "interest_ok (interest_finished i) \<longleftrightarrow> interest_ok (i\<lparr>it_notifier := if it_active i = 0 then [] else it_notifier i\<rparr>)"
proof (cases "it_active i")
  case 0
  obtain calls n where c: "notifier_callback ''finished'' () (it_notifier i) = (calls, n)" by fastforce
  have "n = snd (notifier_pop ''finished'' (it_notifier i))" using notifier_callback_rest [of "''finished''" "()" "it_notifier i"] c by simp
  then have "waiters n ''finished'' = {}" by (simp add: waiters_pop)
  then show ?thesis using 0 c by (simp add: interest_finished_def interest_ok_def waiters_def)
qed (simp add: interest_finished_def)

lemma processed_ok:
  assumes ok: "interest_ok i" and clk: "clk 0 \<le> clk 1" and run: "0 < it_active i"
  shows "interest_ok (snd (message_processed clk i)) \<and> fst (message_processed clk i) = None"
proof (cases "it_queue i")
  case None
  then show ?thesis using ok run by (simp add: message_processed_def Let_def finished_ok) (auto simp: interest_ok_def waiters_def)
next
  case (Some q)
  obtain c where c: "it_concurrency i = Some c" using ok Some by (auto simp: interest_ok_def)
  have q: "xq_constructed q" using ok Some by (simp add: interest_ok_def)
  obtain r calls q' dead where pop: "xq_pop clk q = (r, calls, q')" and out: "xq_pop_outcome (clk 1) q r dead calls q'"
    using xq_pop_outcome_exists [OF q clk] by blast
  show ?thesis
  proof (cases r)
    case (Inl e)
    then have e: "e = Empty" "xq_heap q' = []" "xq_constructed q'" using out by (auto simp: xq_pop_outcome_def xq_accounts_def)
    then show ?thesis using ok run Some pop Inl c
      by (simp add: message_processed_def Let_def finished_ok) (auto simp: interest_ok_def waiters_def)
  next
    case (Inr m)
    then have "xq_constructed q'" and ne: "xq_heap q \<noteq> []"
      using out by (auto simp: xq_pop_outcome_def xq_accounts_def xq_constructed_def)
    let ?i = "i\<lparr>it_active := it_active i - 1, it_processed := it_processed i + 1, it_queue := Some q'\<rparr>"
    have p: "process_message m ?i = (None, ?i\<lparr>it_active := it_active ?i + 1, it_started := it_started ?i @ [m]\<rparr>)"
      by (rule process_message_ok) (use ok run c in \<open>auto simp: interest_ok_def\<close>)
    have "message_processed clk i = process_message m ?i"
      using run Some pop Inr by (simp add: message_processed_def Let_def)
    then show ?thesis
      using p ok run Some c \<open>xq_constructed q'\<close> ne by (auto simp: interest_ok_def)
  qed
qed


text \<open>A protocol reports its end only if one is running, and time does not go back.\<close>

fun interest_legal :: "(clock \<times> interest_event) list \<Rightarrow> interest \<Rightarrow> bool" where
  "interest_legal [] i = True"
| "interest_legal ((clk, e) # es) i =
     (clk 0 \<le> clk 1 \<and> (e = IProcessed \<longrightarrow> 0 < it_active i) \<and> interest_legal es (interest_step clk e i))"

lemma step_interest_ok:
  assumes "interest_ok i" "clk 0 \<le> clk 1" "e = IProcessed \<longrightarrow> 0 < it_active i"
  shows "interest_ok (interest_step clk e i)"
proof (cases e)
  case (IMessage m)
  then show ?thesis using schedule_ok [OF assms(1)] by simp
next
  case IProcessed
  then show ?thesis using processed_ok [OF assms(1, 2)] assms(3) by simp
next
  case IWait
  then show ?thesis
    using assms(1) by (auto simp: wait_finished_def interest_idle_def interest_ok_def)
next
  case IRevoke
  then show ?thesis using assms(1)
    by (auto simp: interest_revoke_def unbind_from_lobby_def clear_queue_def interest_ok_def xq_clear_def
        xq_constructed_def Let_def split: option.splits)
qed (use assms(1) in \<open>auto simp: interest_bind_def bind_to_lobby_def unbind_from_lobby_def interest_ok_def split: option.splits\<close>)

lemma run_interest_ok: "interest_ok i \<Longrightarrow> interest_legal es i \<Longrightarrow> interest_ok (interest_run es i)"
  by (induction es i rule: interest_run.induct) (simp_all add: step_interest_ok)

lemma call_interest_ok: "interest_ok (interest_call b (new_interest public pid kinds c))"
  by (auto simp: interest_call_def interest_bind_def new_interest_def interest_ok_def xq_init_def
      xq_constructed_def waiters_def)

lemma step_concurrency: "it_concurrency (interest_step clk e i) = it_concurrency i"
proof -
  have p: "it_concurrency (snd (process_message m i)) = it_concurrency i" for m i
    by (simp add: process_message_def split: option.split nat.split)
  have f: "it_concurrency (interest_finished i) = it_concurrency i" for i
    by (simp add: interest_finished_def split: prod.split)
  have p': "it_concurrency i' = it_concurrency i" if "process_message m i = (r, i')" for m i r i'
    using p [of m i] that by simp
  show ?thesis
    by (cases e) (auto simp: schedule_message_def message_processed_def wait_finished_def interest_bind_def
        bind_to_lobby_def unbind_from_lobby_def interest_revoke_def clear_queue_def Let_def f p
        split: option.splits prod.splits sum.splits exn.splits dest: p')
qed

lemma run_concurrency: "it_concurrency (interest_run es i) = it_concurrency i"
  by (induction es i rule: interest_run.induct) (simp_all add: step_concurrency)

text \<open>C23: An interest with a bound on its concurrency never runs more protocols than the bound, and it
  lets no message wait while it could run: whatever messages arrive and protocols end, a message is
  queued only while as many protocols run as are allowed.  Every protocol that was started runs or
  has ended, and an interest that has become idle has told everyone who waited for that.\<close>
theorem interest_bounded_and_busy:
  assumes "interest_legal es (interest_call b (new_interest public pid kinds (Some c)))" "0 < c"
    "i = interest_run es (interest_call b (new_interest public pid kinds (Some c)))"
  shows "it_active i \<le> c \<and> length (it_started i) = it_processed i + it_active i \<and>
    (case it_queue i of None \<Rightarrow> False | Some q \<Rightarrow> xq_heap q = [] \<or> it_active i = c) \<and>
    (it_active i = 0 \<longrightarrow> waiters (it_notifier i) ''finished'' = {})"
proof -
  have ok: "interest_ok i" unfolding assms(3) by (rule run_interest_ok [OF call_interest_ok assms(1)])
  have "it_concurrency i = Some c"
    by (simp add: assms(3) run_concurrency interest_call_def interest_bind_def new_interest_def)
  then show ?thesis using ok assms(2) by (fastforce simp: interest_ok_def split: option.split)
qed

definition request_at :: "string \<Rightarrow> time \<Rightarrow> message" where
  "request_at i e = (new_message RequestMessage)\<lparr>m_id := Some i, m_expires := Some e\<rparr>"

lemma interest_bounded_and_busy_witness:
  "let es = [(\<lambda>_. 1, IMessage (request_at ''a'' 9)), (\<lambda>_. 2, IMessage (request_at ''b'' 9)),
             (\<lambda>_. 3, IWait), (\<lambda>_. 4, IProcessed)];
       i = interest_run es (interest_call 0 (new_interest True ''p'' [RequestMessage] (Some 1)))
   in it_active i = 1 \<and> map m_id (it_started i) = [Some ''a'', Some ''b''] \<and>
      length (it_started i) = it_processed i + it_active i"
proof -
  let ?i = "interest_call 0 (new_interest True ''p'' [RequestMessage] (Some 1))"
  let ?es = "[(\<lambda>_. 1, IMessage (request_at ''a'' 9)), (\<lambda>_. 2, IMessage (request_at ''b'' 9)),
              (\<lambda>_. 3, IWait), (\<lambda>_. 4, IProcessed)] :: (clock \<times> interest_event) list"
  have legal: "interest_legal ?es ?i" by code_simp
  have "it_active (interest_run ?es ?i) = 1 \<and> map m_id (it_started (interest_run ?es ?i)) = [Some ''a'', Some ''b'']"
    by code_simp
  then show ?thesis using interest_bounded_and_busy [OF legal _ refl] by (simp add: Let_def)
qed

end
