(* ===== verification/Channel.thy ===== *)
theory Channel
  imports Routing Interest Procedure
begin

text \<open>
  The channel of an agent and the messaging object behind it (\<open>agencies/messaging/messaging.py\<close>):
  posting, bindings, the filters a message passes before it reaches a protocol or an interest, and
  the backends.

  \<open>ep_sink\<close> is the number of the channel as a sink of the routing table.  \<open>ep_protocols\<close> and
  \<open>ep_interests\<close> are the registries of the agent; \<open>ep_handed\<close> is the log of the messages given to
  \<open>on_message\<close> of a registered protocol.  \<open>mg_pending\<close> are the dispatches scheduled for the next
  turn of the reactor.  A backend is a number and whether it is connected, \<open>mg_told\<close> is the log of
  what the backends were told about bindings.  \<open>uuid\<close> is an identifier the call draws.
\<close>

section \<open>State\<close>

record binding =
  bd_id :: nat
  bd_recipient :: recipient
  bd_route :: route

datatype backend_call = BindingCreated nat nat | BindingRemoved nat nat

record messaging =
  mg_table :: table
  mg_pending :: "(message \<times> bool) list"
  mg_backends :: "(string, nat \<times> bool) dict"
  mg_told :: "backend_call list"
  mg_conn :: connection
  mg_notifier :: "string notifier"
  mg_next_wait :: nat

record endpoint =
  ep_sink :: nat
  ep_bindings :: "binding list"
  ep_traversal :: "(string, bool) xdict"
  ep_messages :: "(string option, bool) xdict"
  ep_protocols :: "string list"
  ep_interests :: "(string, (string, interest) dict) dict"
  ep_handed :: "(string \<times> message) list"

definition messaging_init :: messaging where
  "messaging_init =
     \<lparr>mg_table = table_init, mg_pending = [], mg_backends = [], mg_told = [],
      mg_conn = conn_connected connection_init, mg_notifier = [], mg_next_wait = 0\<rparr>"

definition new_channel :: "nat \<Rightarrow> endpoint" where
  "new_channel sink =
     \<lparr>ep_sink = sink, ep_bindings = [], ep_traversal = xd_init None, ep_messages = xd_init None,
      ep_protocols = [], ep_interests = [], ep_handed = []\<rparr>"

section \<open>Dispatching\<close>

definition messaging_dispatch :: "message \<Rightarrow> bool \<Rightarrow> messaging \<Rightarrow> messaging" where
  "messaging_dispatch m outgoing mg = mg\<lparr>mg_pending := mg_pending mg @ [(m, outgoing)]\<rparr>"

definition messaging_idle :: "messaging \<Rightarrow> bool" where
  "messaging_idle mg = (length (mg_pending mg) = 0)"

text \<open>\<open>_dispatch_internal\<close>, called by the reactor for the oldest scheduled dispatch.\<close>

definition dispatch_internal :: "time \<Rightarrow> messaging \<Rightarrow> exn option \<times> messaging" where
  "dispatch_internal t mg =
     (case mg_pending mg of
        [] \<Rightarrow> (None, mg)
      | (m, outgoing) # rest \<Rightarrow>
          (case dispatch t m outgoing (mg_table mg) of (e, tb) \<Rightarrow> (e, mg\<lparr>mg_pending := rest, mg_table := tb\<rparr>)))"

section \<open>Bindings\<close>

definition make_binding :: "nat \<Rightarrow> nat \<Rightarrow> recipient \<Rightarrow> binding" where
  "make_binding i sink rc =
     \<lparr>bd_id = i, bd_recipient = rc,
      bd_route = new_route sink (Some (rc_key rc, rc_route rc)) 0 (rc_type rc = RAgent)\<rparr>"

definition append_binding :: "time \<Rightarrow> binding \<Rightarrow> messaging \<Rightarrow> exn option \<times> messaging" where
  "append_binding t b mg =
     (case append_route t (bd_route b) (mg_table mg) of
        (Some e, tb) \<Rightarrow> (Some e, mg\<lparr>mg_table := tb\<rparr>)
      | (None, tb) \<Rightarrow>
          (None, mg\<lparr>mg_table := tb,
                    mg_told := mg_told mg @ map (\<lambda>(_, k, _). BindingCreated k (bd_id b)) (mg_backends mg)\<rparr>))"

definition remove_binding :: "binding \<Rightarrow> messaging \<Rightarrow> messaging" where
  "remove_binding b mg =
     mg\<lparr>mg_table := remove_route (bd_route b) (mg_table mg),
        mg_told := mg_told mg @ map (\<lambda>(_, k, _). BindingRemoved k (bd_id b)) (mg_backends mg)\<rparr>"

definition create_binding :: "time \<Rightarrow> nat \<Rightarrow> recipient \<Rightarrow> endpoint \<Rightarrow> messaging \<Rightarrow> (exn + binding) \<times> endpoint \<times> messaging" where
  "create_binding t i rc ep mg =
     (let b = make_binding i (ep_sink ep) rc;
          ep = ep\<lparr>ep_bindings := ep_bindings ep @ [b]\<rparr>
      in case append_binding t b mg of
           (Some e, mg) \<Rightarrow> (Inl e, ep, mg)
         | (None, mg) \<Rightarrow> (Inr b, ep, mg))"

definition revoke_binding :: "binding \<Rightarrow> endpoint \<Rightarrow> messaging \<Rightarrow> endpoint \<times> messaging" where
  "revoke_binding b ep mg = (ep\<lparr>ep_bindings := remove1 b (ep_bindings ep)\<rparr>, remove_binding b mg)"

definition get_bindings :: "string option \<Rightarrow> endpoint \<Rightarrow> binding list" where
  "get_bindings rt ep =
     (if rt = None then ep_bindings ep else filter (\<lambda>b. rc_route (bd_recipient b) = rt) (ep_bindings ep))"

text \<open>\<open>release\<close> revokes the bindings while it walks over the list they are removed from.\<close>

function chan_release_from :: "nat \<Rightarrow> endpoint \<Rightarrow> messaging \<Rightarrow> endpoint \<times> messaging" where
  "chan_release_from pos ep mg =
     (if pos < length (ep_bindings ep)
      then case revoke_binding (ep_bindings ep ! pos) ep mg of (ep, mg) \<Rightarrow> chan_release_from (pos + 1) ep mg
      else (ep, mg))"
  by pat_completeness auto

termination by (relation "measure (\<lambda>(pos, ep, mg). length (ep_bindings ep) - pos)")
    (auto simp: revoke_binding_def length_remove1)

declare chan_release_from.simps [simp del]

definition channel_release :: "endpoint \<Rightarrow> messaging \<Rightarrow> endpoint \<times> messaging" where
  "channel_release ep mg =
     (case chan_release_from 0 ep mg of (ep, mg) \<Rightarrow> (ep, mg\<lparr>mg_table := remove_sink (ep_sink ep) (mg_table mg)\<rparr>))"

section \<open>Posting\<close>

definition own_address :: "endpoint \<Rightarrow> exn + recipient" where
  "own_address ep =
     (case filter (\<lambda>b. rc_type (bd_recipient b) = RAgent) (ep_bindings ep) of
        [] \<Rightarrow> Inl ValueError
      | b # _ \<Rightarrow> Inr (bd_recipient b))"

definition is_dialog :: "message \<Rightarrow> bool" where
  "is_dialog m = (m_kind m \<noteq> Notification)"

definition is_first :: "message \<Rightarrow> bool" where
  "is_first m = (m_kind m \<in> {RequestMessage, Announcement, Notification})"

definition with_reply_to :: "endpoint \<Rightarrow> message \<Rightarrow> exn + message" where
  "with_reply_to ep m =
     (if is_dialog m \<and> m_reply_to m = None then bindE (own_address ep) (\<lambda>a. Inr (m\<lparr>m_reply_to := Some a\<rparr>)) else Inr m)"

definition post :: "string \<Rightarrow> recipient list \<Rightarrow> message \<Rightarrow> endpoint \<Rightarrow> messaging \<Rightarrow> (exn + message) \<times> messaging" where
  "post uuid rs m ep mg =
     (case with_reply_to ep (m\<lparr>m_id := Some uuid\<rparr>) of
        Inl e \<Rightarrow> (Inl e, mg)
      | Inr m \<Rightarrow> (Inr m, fold (\<lambda>r. messaging_dispatch (m\<lparr>m_recipient := Some r\<rparr>) True) rs mg))"

section \<open>Receiving\<close>

definition to_interest :: "time \<Rightarrow> message \<Rightarrow> endpoint \<Rightarrow> (exn + bool) \<times> endpoint" where
  "to_interest t m ep =
     (case (m_protocol_type m, m_protocol_id m) of
        (Some pt, Some pid) \<Rightarrow>
          (case map_of (ep_interests ep) pt of
             None \<Rightarrow> (Inr False, ep)
           | Some is \<Rightarrow>
               (case map_of is pid of
                  None \<Rightarrow> (Inr False, ep)
                | Some i \<Rightarrow>
                    (case schedule_message (\<lambda>_. t) m i of
                       (r, i) \<Rightarrow> (r, ep\<lparr>ep_interests := AList.update pt (AList.update pid i is) (ep_interests ep)\<rparr>))))
      | _ \<Rightarrow> (Inr False, ep))"

definition to_protocol :: "time \<Rightarrow> message \<Rightarrow> endpoint \<Rightarrow> (exn + bool) \<times> endpoint" where
  "to_protocol t m ep =
     (case m_receiver m of
        Some r \<Rightarrow>
          if is_dialog m \<and> r \<in> set (ep_protocols ep) then (Inr True, ep\<lparr>ep_handed := ep_handed ep @ [(r, m)]\<rparr>)
          else to_interest t m ep
      | None \<Rightarrow> to_interest t m ep)"

definition note_traversal :: "time \<Rightarrow> string \<Rightarrow> message \<Rightarrow> endpoint \<Rightarrow> bool \<times> endpoint" where
  "note_traversal t i m ep =
     (case xd_contains (\<lambda>_. t) i (ep_traversal ep) of
        (True, d) \<Rightarrow> (True, ep\<lparr>ep_traversal := d\<rparr>)
      | (False, d) \<Rightarrow> (False, ep\<lparr>ep_traversal := xd_set (\<lambda>_. t) i True (m_expires m) False d\<rparr>))"

definition answer_duplicate :: "string \<Rightarrow> message \<Rightarrow> endpoint \<Rightarrow> messaging \<Rightarrow> (exn + bool) \<times> messaging" where
  "answer_duplicate uuid m ep mg =
     (case (duplication_recipient m, duplication_message m) of
        (Some r, Some d) \<Rightarrow> (case post uuid [r] d ep mg of (Inl e, mg) \<Rightarrow> (Inl e, mg) | (Inr _, mg) \<Rightarrow> (Inr False, mg))
      | _ \<Rightarrow> (Inr False, mg))"

definition on_message :: "time \<Rightarrow> string \<Rightarrow> message \<Rightarrow> endpoint \<Rightarrow> messaging \<Rightarrow> (exn + bool) \<times> endpoint \<times> messaging" where
  "on_message t uuid m ep mg =
     (case m_expires m of
        None \<Rightarrow> (Inl TypeError, ep, mg)
      | Some e \<Rightarrow>
          if e - t < 0 then (Inr False, ep, mg)
          else
            (case xd_contains (\<lambda>_. t) (m_id m) (ep_messages ep) of
               (True, d) \<Rightarrow> (Inr False, ep\<lparr>ep_messages := d\<rparr>, mg)
             | (False, d) \<Rightarrow>
                 let ep = ep\<lparr>ep_messages := xd_set (\<lambda>_. t) (m_id m) True (m_expires m) False d\<rparr>
                 in if is_first m then
                      (case m_traversal m of
                         None \<Rightarrow> (Inr False, ep, mg)
                       | Some i \<Rightarrow>
                           (case note_traversal t i m ep of
                              (True, ep) \<Rightarrow> (case answer_duplicate uuid m ep mg of (r, mg) \<Rightarrow> (r, ep, mg))
                            | (False, ep) \<Rightarrow> (case to_protocol t m ep of (r, ep) \<Rightarrow> (r, ep, mg))))
                    else (case to_protocol t m ep of (r, ep) \<Rightarrow> (r, ep, mg))))"

section \<open>Backends\<close>

definition check_connections :: "messaging \<Rightarrow> messaging" where
  "check_connections mg =
     mg\<lparr>mg_conn := (if \<forall>(_, _, up) \<in> set (mg_backends mg). up then conn_connected (mg_conn mg)
                    else conn_disconnected (mg_conn mg))\<rparr>"

text \<open>\<open>add_backend\<close> for a backend whose \<open>initiate\<close> answers at once; \<open>ok\<close> is whether it succeeds.\<close>

definition add_backend :: "string \<Rightarrow> nat \<Rightarrow> bool \<Rightarrow> bool \<Rightarrow> bool \<Rightarrow> messaging \<Rightarrow> exn option \<times> (nat \<times> nat) list \<times> messaging" where
  "add_backend name k up ok can_become_outgoing mg =
     (let mg = mg\<lparr>mg_backends := AList.update name (k, up) (mg_backends mg)\<rparr>;
          mg = (if ok then mg else mg\<lparr>mg_backends := AList.delete name (mg_backends mg)\<rparr>);
          mg = check_connections mg
      in case (if can_become_outgoing \<and> length (mg_backends mg) = 1 then set_outgoing_sink k (mg_table mg)
               else (None, mg_table mg)) of
           (Some e, tb) \<Rightarrow> (Some e, [], mg\<lparr>mg_table := tb\<rparr>)
         | (None, tb) \<Rightarrow>
             (case notifier_callback name k (mg_notifier mg) of
                (calls, n) \<Rightarrow> (None, calls, mg\<lparr>mg_table := tb, mg_notifier := n\<rparr>)))"

definition remove_backend :: "string \<Rightarrow> messaging \<Rightarrow> messaging" where
  "remove_backend name mg =
     (case map_of (mg_backends mg) name of
        None \<Rightarrow> mg
      | Some (k, _) \<Rightarrow>
          mg\<lparr>mg_backends := AList.delete name (mg_backends mg), mg_table := remove_sink k (mg_table mg)\<rparr>)"

definition get_backend :: "string \<Rightarrow> messaging \<Rightarrow> (nat + nat) \<times> messaging" where
  "get_backend name mg =
     (case map_of (mg_backends mg) name of
        Some (k, _) \<Rightarrow> (Inr k, mg)
      | None \<Rightarrow>
          (Inl (mg_next_wait mg),
           mg\<lparr>mg_notifier := notifier_store name (mg_next_wait mg) (mg_notifier mg),
              mg_next_wait := mg_next_wait mg + 1\<rparr>))"

text \<open>A backend, one that was removed included, reports that its connection changed.\<close>

definition backend_changed :: "string \<Rightarrow> bool \<Rightarrow> messaging \<Rightarrow> messaging" where
  "backend_changed name up mg =
     (let mg = (case map_of (mg_backends mg) name of
                  None \<Rightarrow> mg
                | Some (k, _) \<Rightarrow> mg\<lparr>mg_backends := AList.update name (k, up) (mg_backends mg)\<rparr>)
      in if up then check_connections mg else mg\<lparr>mg_conn := conn_disconnected (mg_conn mg)\<rparr>)"

end
