(* ===== verification/ChannelProps.thy ===== *)
theory ChannelProps
  imports Channel
begin

text \<open>
  What a channel guarantees: a message is handled once, a traversal that is already known is answered
  with a duplicate and not handled; and what \<open>release\<close> leaves behind.
\<close>

section \<open>A message is handled once\<close>

text \<open>A history of received messages, with the time and the identifier each call draws.\<close>

fun receive_all :: "(time \<times> string \<times> message) list \<Rightarrow> endpoint \<times> messaging \<Rightarrow> endpoint \<times> messaging" where
  "receive_all [] s = s"
| "receive_all ((t, u, m) # ms) s = receive_all ms (snd (on_message t u m (fst s) (snd s)))"

definition knows :: "time \<Rightarrow> string option \<Rightarrow> time \<Rightarrow> endpoint \<Rightarrow> bool" where
  "knows t i e ep =
     (xd_ok (ep_messages ep) \<and> (\<exists>x. xd_live t (ep_messages ep) i = Some x \<and> item_exp x = Some e))"

lemma knows_later: "knows t i e ep \<Longrightarrow> t \<le> t' \<Longrightarrow> t' < e \<Longrightarrow> knows t' i e ep"
  by (auto simp: knows_def xd_live_def live_view_def item_live_def split: option.splits if_splits)

lemma contains_spec:
  assumes "xd_ok d" "xd_contains (\<lambda>_. t) k d = (b, d')"
  shows "b \<longleftrightarrow> xd_live t d k \<noteq> None" "xd_live t d' = xd_live t d" "xd_ok d'"
proof -
  obtain r where "xd_get_item (\<lambda>_. t) k d = (r, d')" "b \<longleftrightarrow> r \<noteq> None"
    using assms(2) by (auto simp: xd_contains_def split: prod.splits)
  with xd_get_item_const [OF assms(1)] show "b \<longleftrightarrow> xd_live t d k \<noteq> None" "xd_live t d' = xd_live t d" "xd_ok d'"
    by simp_all
qed

lemma to_protocol_messages: "ep_messages (snd (to_protocol t m ep)) = ep_messages ep"
  by (auto simp: to_protocol_def to_interest_def split: option.split prod.split)

lemma note_traversal_messages: "ep_messages (snd (note_traversal t i m ep)) = ep_messages ep"
  by (auto simp: note_traversal_def split: prod.split bool.split)

text \<open>After the filters the identifier is in the dictionary of identifiers, and nothing else touches it.\<close>

lemma on_message_messages:
  assumes "xd_ok (ep_messages ep)" "on_message t u m ep mg = (r, ep', mg')"
  shows "xd_ok (ep_messages ep') \<and>
    xd_live t (ep_messages ep') =
      (case m_expires m of
         None \<Rightarrow> xd_live t (ep_messages ep)
       | Some e \<Rightarrow> if e \<le> t \<or> xd_live t (ep_messages ep) (m_id m) \<noteq> None then xd_live t (ep_messages ep)
                  else (xd_live t (ep_messages ep))(m_id m \<mapsto> \<lparr>item_exp = Some e, item_value = True\<rparr>))"
proof (cases "m_expires m")
  case None
  then show ?thesis using assms by (auto simp: on_message_def)
next
  case (Some e)
  show ?thesis
  proof (cases "e - t < 0")
    case True
    then show ?thesis using assms Some by (auto simp: on_message_def)
  next
    case False
    obtain b d where c: "xd_contains (\<lambda>_. t) (m_id m) (ep_messages ep) = (b, d)" by fastforce
    note cs = contains_spec [OF assms(1) c]
    show ?thesis
    proof (cases b)
      case True
      then show ?thesis using assms(2) Some False c cs by (auto simp: on_message_def)
    next
      case fresh: False
      define d1 where "d1 = xd_set (\<lambda>_. t) (m_id m) True (m_expires m) False d"
      have live: "xd_ok d1 \<and> xd_live t d1 = (if e \<le> t then xd_live t d
          else (xd_live t d)(m_id m \<mapsto> \<lparr>item_exp = Some e, item_value = True\<rparr>))"
        using xds.view_put [OF cs(3), of t "m_id m" True "Some e" False] xds.ok_put [OF cs(3), of t "m_id m" True "Some e" False]
        by (simp add: d1_def Some xds_put_def Let_def)
      have tp: "ep_messages x = ep_messages y" if "to_protocol t m y = (q, x)" for q x y
        using to_protocol_messages [of t m y] that by simp
      have nt: "ep_messages x = ep_messages y" if "note_traversal t i m y = (q, x)" for q x y i
        using note_traversal_messages [of t i m y] that by simp
      have "ep_messages ep' = d1"
        using assms(2) Some False c fresh
        by (auto simp: on_message_def d1_def Let_def split: if_splits option.splits prod.splits bool.splits
            dest!: tp nt)
      then show ?thesis using live cs fresh Some by simp
    qed
  qed
qed

lemma on_message_knows:
  assumes "knows t i e ep" "on_message t u m ep mg = (r, ep', mg')"
  shows "knows t i e ep'"
  using on_message_messages [OF _ assms(2)] assms(1) by (auto simp: knows_def split: option.splits)

lemma receive_all_knows:
  "knows t i e (fst s) \<Longrightarrow> sorted (t # map fst ms) \<Longrightarrow> \<forall>(t1, _) \<in> set ms. t1 < e \<Longrightarrow>
     \<forall>(t1, _) \<in> set ms. t1 \<le> t' \<Longrightarrow> t \<le> t' \<Longrightarrow> t' < e \<Longrightarrow> knows t' i e (fst (receive_all ms s))"
proof (induction ms arbitrary: t s)
  case Nil
  then show ?case using knows_later by simp
next
  case (Cons x ms)
  obtain t1 u m where x: "x = (t1, u, m)" by (cases x)
  obtain r ep' mg' where o1: "on_message t1 u m (fst s) (snd s) = (r, ep', mg')"
    by (cases "on_message t1 u m (fst s) (snd s)") auto
  have "knows t1 i e (fst s)" using Cons.prems x by (intro knows_later [OF Cons.prems(1)]) auto
  then have "knows t1 i e (fst (ep', mg'))" using on_message_knows [OF _ o1] by simp
  then have "knows t' i e (fst (receive_all ms (ep', mg')))"
    using Cons.prems x by (intro Cons.IH) auto
  then show ?case by (simp add: x o1)
qed

text \<open>C22: A message is handled once.  Once a channel has received a message with a fresh identifier,
  a message with the same identifier that arrives before the first one expires is thrown away,
  whatever was received in between: it reaches no protocol and no interest and nothing is sent.\<close>
theorem message_is_handled_once:
  assumes "xd_ok (ep_messages ep)" "xd_live t (ep_messages ep) (m_id m) = None" "m_expires m = Some e"
    "sorted (t # map fst ms @ [t'])" "t' < e" "m_id m' = m_id m" "m_expires m' = Some e'"
    "(ep1, mg1) = receive_all ms (snd (on_message t u m ep mg))"
    "on_message t' u' m' ep1 mg1 = (r, ep2, mg2)"
  shows "r = Inr False \<and> mg2 = mg1 \<and> ep_handed ep2 = ep_handed ep1 \<and> ep_interests ep2 = ep_interests ep1"
proof -
  have times: "sorted (t # map fst ms)" "\<forall>x \<in> fst ` set ms. x \<le> t'" "t \<le> t'" "t < e"
    using assms(4, 5) by (auto simp: sorted_append)
  obtain r0 ep0 mg0 where o1: "on_message t u m ep mg = (r0, ep0, mg0)" by (cases "on_message t u m ep mg") auto
  have "knows t (m_id m) e ep0"
    using on_message_messages [OF assms(1) o1] assms(2, 3) times(4) by (simp add: knows_def)
  then have "knows t' (m_id m) e (fst (receive_all ms (ep0, mg0)))"
    using times assms(5) by (intro receive_all_knows) auto
  then have k: "knows t' (m_id m) e ep1" using assms(8) o1 by (metis fst_conv snd_conv)
  obtain b d where c: "xd_contains (\<lambda>_. t') (m_id m) (ep_messages ep1) = (b, d)" by fastforce
  have b using contains_spec(1) [OF _ c] k by (auto simp: knows_def)
  then show ?thesis using assms(6, 7, 9) c by (auto simp: on_message_def split: if_splits)
qed

section \<open>Releasing a channel\<close>

lemma release_from_bindings:
  "distinct (ys @ xs) \<Longrightarrow> ep_bindings ep = ys @ xs \<Longrightarrow>
     ep_bindings (fst (chan_release_from (length ys) ep mg)) = ys @ skip_removed (\<lambda>_. True) xs \<and>
     ep_sink (fst (chan_release_from (length ys) ep mg)) = ep_sink ep"
proof (induction "\<lambda>_::binding. True" xs arbitrary: ys ep mg rule: skip_removed.induct)
  case 1
  then show ?case by (simp add: chan_release_from.simps [of "length ys"])
next
  case (2 x)
  then show ?case
    by (simp add: chan_release_from.simps [of "length ys"] chan_release_from.simps [of "Suc (length ys)"]
        revoke_binding_def remove1_append)
next
  case (3 x y xs)
  let ?ep = "ep\<lparr>ep_bindings := (ys @ [y]) @ xs\<rparr>"
  have "chan_release_from (length ys) ep mg = chan_release_from (length (ys @ [y])) ?ep (remove_binding x mg)"
    using "3.prems" by (simp add: chan_release_from.simps [of "length ys"] revoke_binding_def remove1_append)
  then show ?case using "3.hyps"(1) [of "ys @ [y]" ?ep "remove_binding x mg"] "3.prems" by simp
qed

text \<open>Releasing a channel does not revoke its bindings: the loop removes from the list it walks
  over and skips every second one.\<close>
theorem release_skips_bindings:
  assumes "distinct (ep_bindings ep)"
  shows "ep_bindings (fst (channel_release ep mg)) = skip_removed (\<lambda>_. True) (ep_bindings ep)"
  using release_from_bindings [of "[]" "ep_bindings ep" ep mg] assms
  by (simp add: channel_release_def case_prod_beta)


lemma message_is_handled_once_witness:
  "let m = (new_message Bid)\<lparr>m_id := Some ''m'', m_expires := Some 9, m_receiver := Some ''p''\<rparr>;
       ep = (new_channel 0)\<lparr>ep_protocols := [''p'']\<rparr>;
       s1 = snd (on_message 1 [] m ep messaging_init);
       res = on_message 5 [] m (fst s1) (snd s1)
   in fst res = Inr False \<and> ep_handed (fst (snd res)) = ep_handed (fst s1)"
proof -
  let ?m = "(new_message Bid)\<lparr>m_id := Some ''m'', m_expires := Some 9, m_receiver := Some ''p''\<rparr>"
  let ?ep = "(new_channel 0)\<lparr>ep_protocols := [''p'']\<rparr>"
  let ?s1 = "snd (on_message 1 [] ?m ?ep messaging_init)"
  let ?res = "on_message 5 [] ?m (fst ?s1) (snd ?s1)"
  have h1: "xd_ok (ep_messages ?ep)" "xd_live 1 (ep_messages ?ep) (m_id ?m) = None"
    by (simp_all add: new_channel_def xd_init_def xd_ok_def xd_live_def live_view_def)
  have h2: "(fst ?s1, snd ?s1) = receive_all [] (snd (on_message 1 [] ?m ?ep messaging_init))" by simp
  have h3: "on_message 5 [] ?m (fst ?s1) (snd ?s1) = (fst ?res, fst (snd ?res), snd (snd ?res))" by simp
  show ?thesis
    using message_is_handled_once [OF h1 _ _ _ _ _ h2 h3, of 9 9] by (simp add: Let_def)
qed

definition four_bindings :: "endpoint \<times> messaging" where
  "four_bindings =
     fold (\<lambda>(i, rc) (ep, mg). snd (create_binding 0 i rc ep mg))
       [(0, agent_recipient ''a'' (Some ''s'')), (1, broadcast_recipient ''p'' (Some ''s'')),
        (2, broadcast_recipient ''q'' (Some ''s'')), (3, broadcast_recipient ''r'' (Some ''s''))]
       (new_channel 5, messaging_init)"

lemma release_skips_bindings_witness:
  "map bd_id (ep_bindings (fst (channel_release (fst four_bindings) (snd four_bindings)))) = [1, 3]"
proof -
  have d: "distinct (ep_bindings (fst four_bindings))" by code_simp
  show ?thesis unfolding release_skips_bindings [OF d] by code_simp
qed

text \<open>The route that \<open>remove_sink\<close> skips in turn still delivers to the released channel.\<close>

lemma released_channel_is_reached:
  "case four_bindings of (ep, mg) \<Rightarrow>
     (case channel_release ep mg of (ep, mg) \<Rightarrow>
        deliveries (snd (dispatch 1 ((new_message Bid)\<lparr>m_recipient := Some (broadcast_recipient ''r'' (Some ''s''))\<rparr>)
          False (mg_table mg))) = [(5, (new_message Bid)\<lparr>m_recipient := Some (broadcast_recipient ''r'' (Some ''s''))\<rparr>)])"
  by code_simp

end
