(* ===== verification/Rabbit.thy ===== *)
theory Rabbit
  imports Messages StateMachine "HOL-Library.Sublist"
begin

text \<open>
  The emulated RabbitMQ server (\<open>agencies/messaging/emu.py\<close>) and the client side that uses it
  (\<open>agencies/messaging/rabbitmq.py\<close>): exchanges, queues with their consumers, connections.

  A queue is known by its name; a consumer is the number of the deferred \<open>get\<close> returned, with
  whether it was called (by the release of its connection).  \<open>q_delivered\<close> is the log of the
  messages consumers were called with, \<open>q_sending\<close> says that \<open>_send_messages\<close> is scheduled.
\<close>

section \<open>Queues\<close>

record queue =
  q_messages :: "message list"
  q_consumers :: "(nat \<times> bool) list"
  q_sending :: bool
  q_delivered :: "(nat \<times> message) list"

definition new_queue :: queue where
  "new_queue = \<lparr>q_messages = [], q_consumers = [], q_sending = False, q_delivered = []\<rparr>"

definition schedule_sending :: "queue \<Rightarrow> queue" where
  "schedule_sending q = (if q_sending q then q else q\<lparr>q_sending := True\<rparr>)"

definition queue_get :: "nat \<Rightarrow> queue \<Rightarrow> queue" where
  "queue_get c q = schedule_sending (q\<lparr>q_consumers := q_consumers q @ [(c, False)]\<rparr>)"

definition enqueue :: "message \<Rightarrow> queue \<Rightarrow> queue" where
  "enqueue m q = schedule_sending (q\<lparr>q_messages := q_messages q @ [m]\<rparr>)"

definition waiting_consumers :: "queue \<Rightarrow> bool" where
  "waiting_consumers q = (\<exists>(_, called) \<in> set (q_consumers q). \<not> called)"

text \<open>\<open>not a or b and c\<close>, as Python groups it\<close>

definition queue_idle :: "queue \<Rightarrow> bool" where
  "queue_idle q = (\<not> waiting_consumers q \<or> length (q_messages q) = 0 \<and> \<not> q_sending q)"

text \<open>The loop of \<open>_send_messages\<close>: consumers that were called are dropped; running out of them in the
  inner loop raises \<open>IndexError\<close>, which ends the loop with the message still queued.\<close>

fun send_loop :: "message list \<Rightarrow> (nat \<times> bool) list \<Rightarrow> (nat \<times> message) list \<times> message list \<times> (nat \<times> bool) list" where
  "send_loop [] cs = ([], [], cs)"
| "send_loop (m # ms) [] = ([], m # ms, [])"
| "send_loop (m # ms) ((c, called) # cs) =
     (if called then send_loop (m # ms) cs
      else case send_loop ms cs of (sent, ms, cs) \<Rightarrow> ((c, m) # sent, ms, cs))"

definition send_messages :: "queue \<Rightarrow> queue" where
  "send_messages q =
     (case send_loop (q_messages q) (q_consumers q) of
        (sent, ms, cs) \<Rightarrow> q\<lparr>q_messages := ms, q_consumers := cs, q_sending := False, q_delivered := q_delivered q @ sent\<rparr>)"

text \<open>\<open>errback\<close> on the deferred of a consumer that still waits.\<close>

definition drop_consumer :: "nat \<Rightarrow> queue \<Rightarrow> queue" where
  "drop_consumer c q = q\<lparr>q_consumers := map (\<lambda>(x, called). (x, called \<or> x = c)) (q_consumers q)\<rparr>"

section \<open>Exchanges\<close>

datatype exchange = Direct "(string option, string list) dict" | Fanout "string list"

definition bound :: "string option \<Rightarrow> (string option, string list) dict \<Rightarrow> string list" where
  "bound key bs = (case map_of bs key of None \<Rightarrow> [] | Some qs \<Rightarrow> qs)"

definition direct_bind :: "string \<Rightarrow> string option \<Rightarrow> (string option, string list) dict \<Rightarrow> (string option, string list) dict" where
  "direct_bind q key bs =
     AList.update key (if q \<in> set (bound key bs) then bound key bs else bound key bs @ [q]) bs"

definition direct_unbind :: "string option \<Rightarrow> string option \<Rightarrow> (string option, string list) dict \<Rightarrow> (string option, string list) dict" where
  "direct_unbind q key bs =
     (case q of
        None \<Rightarrow> bs
      | Some q \<Rightarrow>
          if q \<in> set (bound key bs) then
            (let left = remove1 q (bound key bs)
             in if left = [] then AList.delete key bs else AList.update key left bs)
          else bs)"

text \<open>Without a queue \<open>bind\<close> fails its assertion; None is a key like any other for a direct exchange.\<close>

definition exchange_bind :: "string option \<Rightarrow> string option \<Rightarrow> exchange \<Rightarrow> exn + exchange" where
  "exchange_bind q key x =
     (case q of
        None \<Rightarrow> Inl AssertionError
      | Some q \<Rightarrow>
          (case (x, key) of
             (Direct bs, _) \<Rightarrow> Inr (Direct (direct_bind q key bs))
           | (Fanout qs, Some _) \<Rightarrow> Inl AttributeError
           | (Fanout qs, None) \<Rightarrow> Inr (Fanout (if q \<in> set qs then qs else qs @ [q]))))"

definition exchange_unbind :: "string option \<Rightarrow> string option \<Rightarrow> exchange \<Rightarrow> exn + exchange" where
  "exchange_unbind q key x =
     (case (x, key) of
        (Direct bs, _) \<Rightarrow> Inr (Direct (direct_unbind q key bs))
      | (Fanout qs, Some _) \<Rightarrow> Inl AttributeError
      | (Fanout qs, None) \<Rightarrow> Inr (Fanout (case q of None \<Rightarrow> qs | Some q \<Rightarrow> remove1 q qs)))"

definition exchange_targets :: "string option \<Rightarrow> exchange \<Rightarrow> exn + string list" where
  "exchange_targets key x =
     (case (x, key) of
        (Direct bs, _) \<Rightarrow> Inr (bound key bs)
      | (Fanout qs, Some _) \<Rightarrow> Inl AttributeError
      | (Fanout qs, None) \<Rightarrow> Inr qs)"

section \<open>The server\<close>

record server =
  sv_queues :: "(string, queue) dict"
  sv_exchanges :: "(string, exchange) dict"
  sv_enabled :: bool
  sv_stats :: "string statistics"

definition server_init :: server where
  "server_init = \<lparr>sv_queues = [], sv_exchanges = [], sv_enabled = True, sv_stats = []\<rparr>"

definition set_enabled :: "bool \<Rightarrow> server \<Rightarrow> server" where
  "set_enabled b sv = sv\<lparr>sv_enabled := b\<rparr>"

definition server_idle :: "server \<Rightarrow> bool" where
  "server_idle sv = (\<forall>(_, q) \<in> set (sv_queues sv). queue_idle q)"

definition server_stat :: "string \<Rightarrow> int \<Rightarrow> server \<Rightarrow> server" where
  "server_stat k n sv = sv\<lparr>sv_stats := increase_stat k n (sv_stats sv)\<rparr>"

text \<open>The type names of the factories; an unknown one is a \<open>KeyError\<close>.  An exchange that exists is
  returned whatever its type.\<close>

definition exchange_factory :: "string option \<Rightarrow> exn + exchange" where
  "exchange_factory kind =
     (if kind = Some ''fanout'' then Inr (Fanout []) else if kind = Some ''direct'' then Inr (Direct []) else Inl KeyError)"

definition define_exchange :: "string \<Rightarrow> string option \<Rightarrow> server \<Rightarrow> (exn + exchange) \<times> server" where
  "define_exchange name kind sv =
     (case exchange_factory kind of
        Inl e \<Rightarrow> (Inl e, sv)
      | Inr x \<Rightarrow>
          (case map_of (sv_exchanges sv) name of
             Some y \<Rightarrow> (Inr y, sv)
           | None \<Rightarrow>
               (Inr x, (server_stat ''exchanges declared'' 1 sv)\<lparr>sv_exchanges := AList.update name x (sv_exchanges sv)\<rparr>)))"

definition define_queue :: "string \<Rightarrow> server \<Rightarrow> server" where
  "define_queue name sv =
     (if dict_has (sv_queues sv) name then sv
      else (server_stat ''queues created'' 1 sv)\<lparr>sv_queues := AList.update name new_queue (sv_queues sv)\<rparr>)"

definition on_queue :: "(queue \<Rightarrow> queue) \<Rightarrow> string \<Rightarrow> server \<Rightarrow> server" where
  "on_queue f name sv =
     (case map_of (sv_queues sv) name of
        None \<Rightarrow> sv
      | Some q \<Rightarrow> sv\<lparr>sv_queues := AList.update name (f q) (sv_queues sv)\<rparr>)"

definition publish :: "string option \<Rightarrow> string \<Rightarrow> message \<Rightarrow> server \<Rightarrow> exn option \<times> server" where
  "publish key shard m sv =
     (if \<not> sv_enabled sv then (None, sv)
      else
        (case map_of (sv_exchanges sv) shard of
           None \<Rightarrow> (None, sv)
         | Some x \<Rightarrow>
             let sv = server_stat ''messages published'' 1 sv
             in case exchange_targets key x of
                  Inl e \<Rightarrow> (Some e, sv)
                | Inr qs \<Rightarrow> (None, fold (on_queue (enqueue m)) qs sv)))"

definition existing_queue :: "string option \<Rightarrow> server \<Rightarrow> string option" where
  "existing_queue name sv =
     (case name of None \<Rightarrow> None | Some n \<Rightarrow> if dict_has (sv_queues sv) n then Some n else None)"

definition server_create_binding :: "string \<Rightarrow> string option \<Rightarrow> string option \<Rightarrow> server \<Rightarrow> exn option \<times> server" where
  "server_create_binding ex q key sv =
     (case (case map_of (sv_exchanges sv) ex of
              Some x \<Rightarrow> (Inr x, sv)
            | None \<Rightarrow> define_exchange ex (Some (if key \<noteq> None then ''direct'' else ''fanout'')) sv) of
        (Inl e, sv) \<Rightarrow> (Some e, sv)
      | (Inr x, sv) \<Rightarrow>
          (case exchange_bind (existing_queue q sv) key x of
             Inl e \<Rightarrow> (Some e, sv)
           | Inr y \<Rightarrow> (None, sv\<lparr>sv_exchanges := AList.update ex y (sv_exchanges sv)\<rparr>)))"

definition server_delete_binding :: "string \<Rightarrow> string option \<Rightarrow> string option \<Rightarrow> server \<Rightarrow> exn option \<times> server" where
  "server_delete_binding ex q key sv =
     (case map_of (sv_exchanges sv) ex of
        None \<Rightarrow> (Some AttributeError, sv)
      | Some x \<Rightarrow>
          (case exchange_unbind (existing_queue q sv) key x of
             Inl e \<Rightarrow> (Some e, sv)
           | Inr y \<Rightarrow> (None, sv\<lparr>sv_exchanges := AList.update ex y (sv_exchanges sv)\<rparr>)))"

text \<open>The reactor runs the scheduled \<open>_send_messages\<close> of a queue; each delivery is counted.\<close>

definition server_send :: "string \<Rightarrow> server \<Rightarrow> server" where
  "server_send name sv =
     (case map_of (sv_queues sv) name of
        None \<Rightarrow> sv
      | Some q \<Rightarrow>
          if q_sending q then
            (let q' = send_messages q
             in server_stat ''messages delivered'' (int (length (q_delivered q')) - int (length (q_delivered q)))
                  (sv\<lparr>sv_queues := AList.update name q' (sv_queues sv)\<rparr>))
          else sv)"

section \<open>Connections\<close>

text \<open>\<open>cn_consumer\<close> is the deferred of the last \<open>get\<close> and \<open>cn_rebind\<close> says that the next one is
  scheduled.  \<open>cn_bindings\<close> are the recipients of the bindings with their reference counts.\<close>

record rabbit_conn =
  cn_queue :: "string option"
  cn_disconnected :: bool
  cn_consumer :: "nat option"
  cn_rebind :: bool
  cn_bindings :: "(nat, recipient \<times> int) dict"

definition new_conn :: "string option \<Rightarrow> rabbit_conn" where
  "new_conn q = \<lparr>cn_queue = q, cn_disconnected = False, cn_consumer = None, cn_rebind = False, cn_bindings = []\<rparr>"

definition consume :: "nat \<Rightarrow> rabbit_conn \<Rightarrow> server \<Rightarrow> rabbit_conn \<times> server" where
  "consume c cn sv =
     (case cn_queue cn of
        None \<Rightarrow> (cn, sv)
      | Some q \<Rightarrow>
          if cn_disconnected cn then (cn\<lparr>cn_rebind := False\<rparr>, sv)
          else (cn\<lparr>cn_consumer := Some c, cn_rebind := False\<rparr>, on_queue (queue_get c) q sv))"

definition conn_initiate :: "nat \<Rightarrow> rabbit_conn \<Rightarrow> server \<Rightarrow> rabbit_conn \<times> server" where
  "conn_initiate c cn sv =
     (case cn_queue cn of None \<Rightarrow> (cn, sv) | Some q \<Rightarrow> consume c cn (define_queue q sv))"

text \<open>The consumer was called with a message: the next one is made in another turn of the reactor.\<close>

definition consumed :: "rabbit_conn \<Rightarrow> rabbit_conn" where
  "consumed cn = cn\<lparr>cn_rebind := True\<rparr>"

definition conn_post :: "recipient list \<Rightarrow> message \<Rightarrow> server \<Rightarrow> exn option \<times> server" where
  "conn_post rs m sv =
     fold (\<lambda>r (e, sv). case e of
         Some _ \<Rightarrow> (e, sv)
       | None \<Rightarrow> (case rc_route r of None \<Rightarrow> (None, sv) | Some shard \<Rightarrow> publish (Some (rc_key r)) shard m sv)) rs (None, sv)"

definition conn_release :: "rabbit_conn \<Rightarrow> server \<Rightarrow> rabbit_conn \<times> server" where
  "conn_release cn sv =
     (let cn = cn\<lparr>cn_disconnected := True\<rparr>
      in case (cn_queue cn, cn_consumer cn) of
           (Some q, Some c) \<Rightarrow> (cn, on_queue (drop_consumer c) q sv)
         | _ \<Rightarrow> (cn, sv))"

text \<open>\<open>binding_created\<close> of the client: for a binding that is known the variable it counts on was never
  assigned.\<close>

definition binding_created :: "nat \<Rightarrow> recipient \<Rightarrow> rabbit_conn \<Rightarrow> server \<Rightarrow> exn option \<times> rabbit_conn \<times> server" where
  "binding_created i rc cn sv =
     (if dict_has (cn_bindings cn) i then (Some UnboundLocalError, cn, sv)
      else
        (let cn = cn\<lparr>cn_bindings := AList.update i (rc, 1) (cn_bindings cn)\<rparr>
         in case rc_route rc of
              Some ex \<Rightarrow> (None, cn, snd (server_create_binding ex (cn_queue cn) (Some (rc_key rc)) sv))
            | None \<Rightarrow> (None, cn, sv)))"

definition binding_removed :: "nat \<Rightarrow> rabbit_conn \<Rightarrow> server \<Rightarrow> rabbit_conn \<times> server" where
  "binding_removed i cn sv =
     (case map_of (cn_bindings cn) i of
        None \<Rightarrow> (cn, sv)
      | Some (rc, n) \<Rightarrow>
          let cn = cn\<lparr>cn_bindings := AList.update i (rc, n - 1) (cn_bindings cn)\<rparr>
          in if n - 1 = 0 then
               (case rc_route rc of
                  Some ex \<Rightarrow> (cn, snd (server_delete_binding ex (cn_queue cn) (Some (rc_key rc)) sv))
                | None \<Rightarrow> (cn, sv))
             else (cn, sv))"


section \<open>What a queue guarantees\<close>

datatype queue_event = QPut message | QGet nat | QDrop nat | QSend

fun queue_step :: "queue_event \<Rightarrow> queue \<Rightarrow> queue" where
  "queue_step (QPut m) q = enqueue m q"
| "queue_step (QGet c) q = queue_get c q"
| "queue_step (QDrop c) q = drop_consumer c q"
| "queue_step QSend q = (if q_sending q then send_messages q else q)"

fun put_in :: "queue_event list \<Rightarrow> message list" where
  "put_in [] = []"
| "put_in (QPut m # es) = m # put_in es"
| "put_in (_ # es) = put_in es"

fun consumers_of :: "queue_event list \<Rightarrow> nat list" where
  "consumers_of [] = []"
| "consumers_of (QGet c # es) = c # consumers_of es"
| "consumers_of (_ # es) = consumers_of es"

lemma send_loop_fifo:
  "send_loop ms cs = (sent, ms', cs') \<Longrightarrow>
     map snd sent @ ms' = ms \<and> subseq (map fst sent @ map fst cs') (map fst cs) \<and>
     (ms' = [] \<or> cs' = []) \<and> set cs' \<subseteq> set cs"
proof (induction ms cs arbitrary: sent ms' cs' rule: send_loop.induct)
  case (3 m ms c called cs)
  show ?case
  proof (cases called)
    case True
    then show ?thesis using "3.IH"(1) [OF True, of sent ms' cs'] "3.prems" by auto
  next
    case False
    obtain s1 ms1 cs1 where r: "send_loop ms cs = (s1, ms1, cs1)" by (cases "send_loop ms cs") auto
    then show ?thesis using "3.IH"(2) [OF False r] "3.prems" False by auto
  qed
qed auto

text \<open>While a message and a consumer wait for each other a delivery is scheduled.\<close>

definition queue_ok :: "queue \<Rightarrow> bool" where
  "queue_ok q \<longleftrightarrow> (q_messages q \<noteq> [] \<and> q_consumers q \<noteq> [] \<longrightarrow> q_sending q)"

lemma step_queue_ok: "queue_ok q \<Longrightarrow> queue_ok (queue_step e q)"
proof (cases e)
  case QSend
  obtain s ms cs where "send_loop (q_messages q) (q_consumers q) = (s, ms, cs)"
    by (cases "send_loop (q_messages q) (q_consumers q)") auto
  then show "queue_ok q \<Longrightarrow> ?thesis"
    using QSend send_loop_fifo [of "q_messages q" "q_consumers q" s ms cs] by (auto simp: queue_ok_def send_messages_def)
qed (auto simp: queue_ok_def enqueue_def queue_get_def schedule_sending_def drop_consumer_def)

lemma step_delivered:
  "map snd (q_delivered (queue_step e q)) @ q_messages (queue_step e q) =
     map snd (q_delivered q) @ q_messages q @ put_in [e] \<and>
   subseq (map fst (q_delivered (queue_step e q)) @ map fst (q_consumers (queue_step e q)))
     (map fst (q_delivered q) @ map fst (q_consumers q) @ consumers_of [e])"
proof (cases e)
  case QSend
  obtain s ms cs where l: "send_loop (q_messages q) (q_consumers q) = (s, ms, cs)"
    by (cases "send_loop (q_messages q) (q_consumers q)") auto
  then show ?thesis
    using QSend send_loop_fifo [OF l] by (auto simp: send_messages_def intro: list_emb_append_mono)
qed (simp_all add: enqueue_def queue_get_def schedule_sending_def drop_consumer_def case_prod_beta o_def)

lemma put_in_Cons: "put_in (e # es) = put_in [e] @ put_in es" "consumers_of (e # es) = consumers_of [e] @ consumers_of es"
  by (cases e; simp)+

lemma run_delivered:
  "map snd (q_delivered (fold queue_step es q)) @ q_messages (fold queue_step es q) =
     map snd (q_delivered q) @ q_messages q @ put_in es \<and>
   subseq (map fst (q_delivered (fold queue_step es q)) @ map fst (q_consumers (fold queue_step es q)))
     (map fst (q_delivered q) @ map fst (q_consumers q) @ consumers_of es)"
proof (induction es arbitrary: q)
  case Nil
  then show ?case by simp
next
  case (Cons e es)
  let ?q = "queue_step e q"
  note one = step_delivered [of e q] and rest = Cons.IH [of ?q]
  have "subseq ((map fst (q_delivered ?q) @ map fst (q_consumers ?q)) @ consumers_of es)
     ((map fst (q_delivered q) @ map fst (q_consumers q) @ consumers_of [e]) @ consumers_of es)"
    by (rule list_emb_append_mono [OF one [THEN conjunct2] subseq_order.refl])
  then have sub: "subseq (map fst (q_delivered (fold queue_step es ?q)) @ map fst (q_consumers (fold queue_step es ?q)))
     (map fst (q_delivered q) @ map fst (q_consumers q) @ consumers_of (e # es))"
    using rest [THEN conjunct2] unfolding put_in_Cons [of e es] append_assoc by (rule subseq_order.trans [rotated])
  have "map snd (q_delivered (fold queue_step es ?q)) @ q_messages (fold queue_step es ?q) =
     (map snd (q_delivered q) @ q_messages q @ put_in [e]) @ put_in es"
    unfolding one [THEN conjunct1, symmetric] using rest by simp
  then show ?case using sub by (simp add: put_in_Cons [of e es])
qed

lemma run_queue_ok: "queue_ok q \<Longrightarrow> queue_ok (fold queue_step es q)"
  by (induction es arbitrary: q) (simp_all add: step_queue_ok)

text \<open>C24: A queue loses, repeats and reorders nothing: in every history the messages delivered, in the
  order of delivery, followed by those still queued are the messages that were put in, in order; each
  consumer gets one message at most, in the order of the consumers; and as long as a message and a
  consumer are there a delivery is scheduled, after which one of them has run out.\<close>
theorem queue_is_fifo:
  assumes "q = fold queue_step es new_queue" "distinct (consumers_of es)"
  shows "map snd (q_delivered q) @ q_messages q = put_in es \<and>
    distinct (map fst (q_delivered q)) \<and> subseq (map fst (q_delivered q)) (consumers_of es) \<and>
    (q_messages q = [] \<or> q_consumers q = [] \<or>
       q_sending q \<and> (q_messages (send_messages q) = [] \<or> q_consumers (send_messages q) = []))"
proof -
  have d: "map snd (q_delivered q) @ q_messages q = put_in es"
    "subseq (map fst (q_delivered q) @ map fst (q_consumers q)) (consumers_of es)"
    using run_delivered [of es new_queue] by (simp_all add: assms(1) new_queue_def)
  have sub: "subseq (map fst (q_delivered q)) (consumers_of es)"
    using d(2) by (metis list_emb_append2 prefix_imp_subseq prefixI subseq_order.trans)
  have dist: "distinct (map fst (q_delivered q))"
    using sub assms(2) by (auto simp: subseq_conv_nths intro: distinct_nthsI)
  have "queue_ok q" unfolding assms(1) by (rule run_queue_ok) (simp add: queue_ok_def new_queue_def)
  obtain s ms cs where l: "send_loop (q_messages q) (q_consumers q) = (s, ms, cs)"
    by (cases "send_loop (q_messages q) (q_consumers q)") auto
  then have "q_messages (send_messages q) = [] \<or> q_consumers (send_messages q) = []"
    using send_loop_fifo [OF l] by (simp add: send_messages_def)
  then show ?thesis
    using d(1) sub \<open>queue_ok q\<close> dist by (auto simp: queue_ok_def)
qed


lemma queue_is_fifo_witness:
  "let m = new_message Bid; m' = new_message Grant;
       q = fold queue_step [QGet 0, QPut m, QDrop 0, QSend, QPut m', QGet 1, QSend] new_queue
   in map snd (q_delivered q) @ q_messages q = [m, m']"
  using queue_is_fifo [OF refl, of "[QGet 0, QPut (new_message Bid), QDrop 0, QSend, QPut (new_message Grant), QGet 1, QSend]"]
  by (simp add: Let_def)

text \<open>A binding the client already knows cannot be announced to it again, not even after it was
  removed.\<close>

lemma binding_created_twice:
  "fst (binding_created i rc cn sv) = None \<Longrightarrow>
     (case binding_created i rc cn sv of (_, cn, sv) \<Rightarrow>
        (case binding_removed i cn sv of (cn, sv) \<Rightarrow> fst (binding_created i rc cn sv))) = Some UnboundLocalError"
  by (auto simp: binding_created_def binding_removed_def Let_def dict_simps split: if_splits option.splits prod.splits)

section \<open>What a published message reaches\<close>

lemma on_queue_has: "existing_queue n (on_queue f q sv) = existing_queue n sv"
  by (auto simp: existing_queue_def on_queue_def dict_simps split: option.split)

lemma on_queue_look_up:
  "map_of (sv_queues (on_queue f q sv)) n = (if n = q then map_option f (map_of (sv_queues sv) q) else map_of (sv_queues sv) n)"
  by (auto simp: on_queue_def dict_simps split: option.split)

lemma fold_on_queue:
  "distinct qs \<Longrightarrow>
     map_of (sv_queues (fold (on_queue f) qs sv)) n =
     (if n \<in> set qs then map_option f (map_of (sv_queues sv) n) else map_of (sv_queues sv) n)"
  by (induction qs arbitrary: sv) (auto simp: on_queue_look_up)

end
