(* ===== verification/Serializer.thy ===== *)
theory Serializer
  imports Strings
begin

text \<open>
  The serializer of \<open>common/serialization/base.py\<close> with the packing functions of \<open>sexp.py\<close>.

  A Python value is an atom or the number of an object of a heap; objects have an identity, so
  values may be shared and structures may be circular.  The serializer works in two passes, as
  the code does.  \<open>flatten_value\<close> walks over the objects and makes a \<^emph>\<open>container\<close> (a Python list the
  code changes in place) for each; when it meets an object again, the container of the first visit is
  turned into a reference and a dereference is returned.  \<open>pack_value\<close> then turns containers into
  s-expressions, lists which again have an identity.

  Keys of dictionaries and elements of sets are atoms; \<open>int\<close> and \<open>long\<close> are one type and a
  unicode text is given by its UTF-8 bytes.  Enums, types, functions, external
  objects, versions and freezing are left out.
\<close>

section \<open>Sequencing\<close>

type_synonym ('a, 's) attempt = "(exn + 'a) \<times> 's"

definition bindS :: "('a, 's) attempt \<Rightarrow> ('a \<Rightarrow> 's \<Rightarrow> ('b, 's) attempt) \<Rightarrow> ('b, 's) attempt" where
  "bindS m f = (case m of (Inl e, s) \<Rightarrow> (Inl e, s) | (Inr x, s) \<Rightarrow> f x s)"

fun mapS :: "('a \<Rightarrow> 's \<Rightarrow> ('b, 's) attempt) \<Rightarrow> 'a list \<Rightarrow> 's \<Rightarrow> ('b list, 's) attempt" where
  "mapS f [] s = (Inr [], s)"
| "mapS f (x # xs) s = bindS (f x s) (\<lambda>y s. bindS (mapS f xs s) (\<lambda>ys s. (Inr (y # ys), s)))"

lemma bindS_simps [simp]: "bindS (Inl e, s) f = (Inl e, s)" "bindS (Inr x, s) f = f x s"
  by (simp_all add: bindS_def)

lemma bindS_Inr: "bindS m f = (Inr y, s') \<longleftrightarrow> (\<exists>x s. m = (Inr x, s) \<and> f x s = (Inr y, s'))"
  by (auto simp: bindS_def split: prod.splits sum.splits)

lemma bindS_cong [fundef_cong]:
  "m = m' \<Longrightarrow> (\<And>x s. m' = (Inr x, s) \<Longrightarrow> f x s = f' x s) \<Longrightarrow> bindS m f = bindS m' f'"
  by (auto simp: bindS_def split: prod.split sum.split)

lemma mapS_cong [fundef_cong]:
  "xs = ys \<Longrightarrow> s = t \<Longrightarrow> (\<And>x s. x \<in> set ys \<Longrightarrow> f x s = g x s) \<Longrightarrow> mapS f xs s = mapS g ys t"
  by (induction ys arbitrary: xs s t) (auto simp: bindS_def split: prod.split sum.split)

section \<open>Values, objects and classes\<close>

datatype atom = AInt int | AFloat rat | AStr string | AUnicode string | ABool bool | ANone

datatype pyv = Atom atom | Obj nat

datatype pobj =
    PTuple "pyv list" | PList "pyv list" | PSet "atom list" | PDict "(atom, pyv) dict"
  | PInst string "(atom, pyv) dict" | POther

text \<open>Data that has been packed; the number of a list is its identity.\<close>

datatype sexp = SInt int | SFloat rat | SStr string | SList nat "sexp list"

text \<open>A class is mutable when \<open>prepare\<close> gives a blank instance (\<open>Serializable\<close>) and immutable when it
  gives None (\<open>ImmutableSerializable\<close>).  \<open>restore_named\<close> finds the types and the members of enums by the name
  of their module, code outside of the serializer.\<close>

record class_info =
  c_referenceable :: bool
  c_mutable :: bool

datatype capability =
    IntValues | FloatValues | StrValues | UnicodeValues | BoolValues | NoneValues
  | TupleValues | ListValues | SetValues | DictValues | InstanceValues
  | IntKeys | FloatKeys | StrKeys | UnicodeKeys | BoolKeys | NoneKeys

record converter =
  classes :: "string \<Rightarrow> class_info"
  registered :: "string list"
  caps :: "capability list"
  restore_named :: "string \<Rightarrow> sexp list \<Rightarrow> exn + pyv"

definition default_converter_caps :: "capability list" where
  "default_converter_caps =
     [IntValues, FloatValues, StrValues, UnicodeValues, BoolValues, NoneValues,
      TupleValues, ListValues, SetValues, DictValues, InstanceValues,
      IntKeys, FloatKeys, StrKeys, UnicodeKeys, BoolKeys, NoneKeys]"

fun value_cap :: "atom \<Rightarrow> capability" where
  "value_cap (AInt _) = IntValues"
| "value_cap (AFloat _) = FloatValues"
| "value_cap (AStr _) = StrValues"
| "value_cap (AUnicode _) = UnicodeValues"
| "value_cap (ABool _) = BoolValues"
| "value_cap ANone = NoneValues"

fun key_cap :: "atom \<Rightarrow> capability" where
  "key_cap (AInt _) = IntKeys"
| "key_cap (AFloat _) = FloatKeys"
| "key_cap (AStr _) = StrKeys"
| "key_cap (AUnicode _) = UnicodeKeys"
| "key_cap (ABool _) = BoolKeys"
| "key_cap ANone = NoneKeys"

text \<open>\<open>Snapshotable.snapshot\<close>: the attributes whose name does not start with an underscore.\<close>

definition public :: "atom \<Rightarrow> bool" where
  "public k = (case k of AStr (c # _) \<Rightarrow> c \<noteq> CHR ''_'' | AStr [] \<Rightarrow> True | _ \<Rightarrow> False)"

definition snapshot :: "(atom, pyv) dict \<Rightarrow> (atom, pyv) dict" where
  "snapshot attrs = filter (\<lambda>(k, _). public k) attrs"

section \<open>The flattened structure\<close>

datatype packer = PackTuple | PackList | PackSet | PackDict | PackInstance

datatype flat_item =
    FAtom atom | FName string | FItem atom flat_item | FDeref nat | FCell nat | FPacked packer "flat_item list"

datatype cell = CEmpty | CPacked packer "flat_item list" | CReference nat nat

text \<open>Objects and containers are identified by numbers; \<open>fresh\<close> is the identity of the next
  dictionary a snapshot creates, larger than those of the heap.\<close>

record flattener =
  cells :: "cell list"
  preserved :: "(nat, nat) dict"
  refids :: "(nat, nat) dict"
  references :: "(nat, nat) dict"
  last_refid :: nat
  fresh :: nat

definition flattener_reset :: "nat \<Rightarrow> flattener" where
  "flattener_reset n = \<lparr>cells = [], preserved = [], refids = [], references = [], last_refid = 0, fresh = n\<rparr>"

definition prepare :: "nat \<Rightarrow> flattener \<Rightarrow> flat_item option \<times> flattener" where
  "prepare i s =
     (case map_of (preserved s) i of
        Some reference \<Rightarrow>
          (case map_of (refids s) i of
             Some r \<Rightarrow> (Some (FDeref r), s)
           | None \<Rightarrow>
               let new_value = length (cells s);
                   r = last_refid s + 1
               in (Some (FDeref r),
                   s\<lparr>cells := (cells s)[reference := CReference r new_value] @ [cells s ! reference],
                     last_refid := r,
                     refids := AList.update i r (refids s),
                     references := AList.update i reference (references s),
                     preserved := AList.update i new_value (preserved s)\<rparr>))
      | None \<Rightarrow>
          (None, s\<lparr>cells := cells s @ [CEmpty], preserved := AList.update i (length (cells s)) (preserved s)\<rparr>))"

definition preserve :: "nat \<Rightarrow> packer \<Rightarrow> flat_item list \<Rightarrow> flattener \<Rightarrow> (flat_item, flattener) attempt" where
  "preserve i p items s =
     (case map_of (preserved s) i of
        None \<Rightarrow> (Inl KeyError, s)
      | Some container \<Rightarrow>
          let s = s\<lparr>cells := (cells s)[container := CPacked p items]\<rparr>
          in (Inr (FCell (case map_of (references s) i of Some reference \<Rightarrow> reference | None \<Rightarrow> container)), s))"

definition check_capabilities :: "capability \<Rightarrow> converter \<Rightarrow> 's \<Rightarrow> (unit, 's) attempt" where
  "check_capabilities c C s = (if c \<in> set (caps C) then (Inr (), s) else (Inl ValueError, s))"

text \<open>The decorator \<open>@referenceable\<close> around a method that checks \<open>cap\<close> and flattens the elements.\<close>

definition flatten_referenceable ::
  "converter \<Rightarrow> nat \<Rightarrow> packer \<Rightarrow> capability \<Rightarrow> (flattener \<Rightarrow> (flat_item list, flattener) attempt) \<Rightarrow>
   flattener \<Rightarrow> (flat_item, flattener) attempt" where
  "flatten_referenceable C i p cap elements s =
     (case prepare i s of
        (Some deref, s) \<Rightarrow> (Inr deref, s)
      | (None, s) \<Rightarrow>
          bindS (check_capabilities cap C s) (\<lambda>_ s.
          bindS (elements s) (\<lambda>items s. preserve i p items s)))"

definition flatten_item ::
  "converter \<Rightarrow> (pyv \<Rightarrow> flattener \<Rightarrow> (flat_item, flattener) attempt) \<Rightarrow> atom \<times> pyv \<Rightarrow>
   flattener \<Rightarrow> (flat_item, flattener) attempt" where
  "flatten_item C flatten kv s =
     bindS (check_capabilities (key_cap (fst kv)) C s) (\<lambda>_ s.
     bindS (flatten (snd kv) s) (\<lambda>x s. (Inr (FItem (fst kv) x), s)))"

definition flatten_dict ::
  "converter \<Rightarrow> (pyv \<Rightarrow> flattener \<Rightarrow> (flat_item, flattener) attempt) \<Rightarrow> nat \<Rightarrow> (atom, pyv) dict \<Rightarrow>
   flattener \<Rightarrow> (flat_item, flattener) attempt" where
  "flatten_dict C flatten i items s =
     flatten_referenceable C i PackDict DictValues (mapS (flatten_item C flatten) items) s"

text \<open>The snapshot is a new dictionary, which is flattened like any other.\<close>

definition flatten_instance ::
  "converter \<Rightarrow> (pyv \<Rightarrow> flattener \<Rightarrow> (flat_item, flattener) attempt) \<Rightarrow> nat \<Rightarrow> string \<Rightarrow> (atom, pyv) dict \<Rightarrow>
   flattener \<Rightarrow> (flat_item, flattener) attempt" where
  "flatten_instance C flatten i type_name attrs s =
     (let content = (\<lambda>s.
            bindS (flatten_dict C flatten (fresh s) (snapshot attrs) (s\<lparr>fresh := fresh s + 1\<rparr>))
              (\<lambda>dump s. (Inr [FName type_name, dump], s)))
      in bindS (check_capabilities InstanceValues C s) (\<lambda>_ s.
         if c_referenceable (classes C type_name)
         then
           (case prepare i s of
              (Some deref, s) \<Rightarrow> (Inr deref, s)
            | (None, s) \<Rightarrow> bindS (content s) (\<lambda>items s. preserve i PackInstance items s))
         else bindS (content s) (\<lambda>items s. (Inr (FPacked PackInstance items), s))))"

text \<open>The first argument bounds the nesting of objects, as the recursion limit of the interpreter
  does, whose exception is \<open>RuntimeError\<close>.\<close>

primrec flatten_value :: "nat \<Rightarrow> converter \<Rightarrow> pobj list \<Rightarrow> pyv \<Rightarrow> flattener \<Rightarrow> (flat_item, flattener) attempt" where
  "flatten_value 0 C h v s = (Inl RuntimeError, s)"
| "flatten_value (Suc n) C h v s =
     (case v of
        Atom a \<Rightarrow> bindS (check_capabilities (value_cap a) C s) (\<lambda>_ s. (Inr (FAtom a), s))
      | Obj i \<Rightarrow>
          if \<not> i < length h then (Inl TypeError, s)
          else
            (case h ! i of
               PTuple vs \<Rightarrow> flatten_referenceable C i PackTuple TupleValues (mapS (flatten_value n C h) vs) s
             | PList vs \<Rightarrow> flatten_referenceable C i PackList ListValues (mapS (flatten_value n C h) vs) s
             | PSet as \<Rightarrow> flatten_referenceable C i PackSet SetValues (mapS (flatten_value n C h) (map Atom as)) s
             | PDict items \<Rightarrow> flatten_dict C (flatten_value n C h) i items s
             | PInst type_name attrs \<Rightarrow> flatten_instance C (flatten_value n C h) i type_name attrs s
             | POther \<Rightarrow> (Inl TypeError, s)))"

section \<open>Packing\<close>

definition new_list :: "sexp list \<Rightarrow> nat \<Rightarrow> (sexp, nat) attempt" where
  "new_list xs k = (Inr (SList k xs), k + 1)"

fun pack_atom :: "atom \<Rightarrow> nat \<Rightarrow> (sexp, nat) attempt" where
  "pack_atom (AInt n) k = (Inr (SInt n), k)"
| "pack_atom (AFloat x) k = (Inr (SFloat x), k)"
| "pack_atom (AStr s) k = (Inr (SStr s), k)"
| "pack_atom (AUnicode s) k = new_list [SStr ''unicode'', SStr s] k"
| "pack_atom (ABool b) k = new_list [SStr ''boolean'', SStr (if b then ''true'' else ''false'')] k"
| "pack_atom ANone k = new_list [SStr ''None''] k"

fun packer_atoms :: "packer \<Rightarrow> sexp list" where
  "packer_atoms PackTuple = [SStr ''tuple'']"
| "packer_atoms PackList = [SStr ''list'']"
| "packer_atoms PackSet = [SStr ''set'']"
| "packer_atoms PackDict = [SStr ''dictionary'']"
| "packer_atoms PackInstance = []"

primrec pack_value :: "nat \<Rightarrow> cell list \<Rightarrow> flat_item \<Rightarrow> nat \<Rightarrow> (sexp, nat) attempt" where
  "pack_value 0 cs it k = (Inl RuntimeError, k)"
| "pack_value (Suc n) cs it k =
     (case it of
        FAtom a \<Rightarrow> pack_atom a k
      | FName s \<Rightarrow> (Inr (SStr s), k)
      | FItem key v \<Rightarrow>
          bindS (pack_atom key k) (\<lambda>x k. bindS (pack_value n cs v k) (\<lambda>y k. new_list [x, y] k))
      | FDeref r \<Rightarrow> new_list [SStr ''dereference'', SInt (int r)] k
      | FPacked p items \<Rightarrow> bindS (mapS (pack_value n cs) items k) (\<lambda>xs k. new_list (packer_atoms p @ xs) k)
      | FCell c \<Rightarrow>
          (case cs ! c of
             CEmpty \<Rightarrow> (Inl ValueError, k)
           | CPacked p items \<Rightarrow> bindS (mapS (pack_value n cs) items k) (\<lambda>xs k. new_list (packer_atoms p @ xs) k)
           | CReference r c' \<Rightarrow>
               bindS (pack_value n cs (FCell c') k) (\<lambda>x k. new_list [SStr ''reference'', SInt (int r), x] k)))"

text \<open>\<open>convert\<close>\<close>

definition serialize :: "nat \<Rightarrow> converter \<Rightarrow> pobj list \<Rightarrow> pyv \<Rightarrow> exn + sexp" where
  "serialize n C h v =
     (case flatten_value n C h v (flattener_reset (length h)) of
        (Inl e, _) \<Rightarrow> Inl e
      | (Inr flattened, s) \<Rightarrow> fst (pack_value n (cells s) flattened 0))"

end
