(* ===== verification/Unserializer.thy ===== *)
theory Unserializer
  imports Serializer
begin

text \<open>
  The unserializer of \<open>common/serialization/base.py\<close> for the data of \<open>sexp.py\<close>.

  Lists, sets, dictionaries and instances of mutable classes are created blank and registered
  before their content is unpacked, so that the content can refer to them.  When the content needs a
  reference that is not known yet, \<open>DelayPacking\<close> is raised; the next mutable
  value around it keeps the rest of its unpacking in \<open>pending\<close> for later and goes on.
  \<open>finish_pending\<close> runs what was kept, then \<open>recover\<close> fills the instances and \<open>restored\<close> is called
  for each, last one first.
\<close>

section \<open>State\<close>

text \<open>\<open>(RESTORATOR, INSTANCE, SNAPSHOT, REFID)\<close>: the restorator is only given, and the snapshot only
  used, for an instance that is recovered at the end.\<close>

record restoring =
  i_recover :: bool
  i_instance :: nat
  i_snapshot :: pyv
  i_refid :: "atom option"

text \<open>The unpacking of a container, with its number and the rest of the data.\<close>

datatype continuation =
    UnpackList nat "sexp list" | UnpackSet nat "sexp list" | UnpackDict nat "sexp list"
  | RestoreInstance nat sexp "atom option"

text \<open>Identity of packed data.  Data that is not a list has none that matters.\<close>

type_synonym data_id = "nat + sexp"

fun data_id :: "sexp \<Rightarrow> data_id" where
  "data_id (SList i _) = Inl i"
| "data_id x = Inr x"

record unserializer =
  objs :: "pobj list"
  urefs :: "(atom, data_id \<times> pyv) dict"
  pending :: "continuation list"
  instances :: "restoring list"

definition unserializer_reset :: unserializer where
  "unserializer_reset = \<lparr>objs = [], urefs = [], pending = [], instances = []\<rparr>"

section \<open>Keys of dictionaries\<close>

text \<open>Equal keys have the same form: numbers and booleans compare by value and an ASCII text equals
  the string of its bytes.\<close>

definition is_ascii :: "string \<Rightarrow> bool" where
  "is_ascii s \<longleftrightarrow> list_all (\<lambda>c. (of_char c :: nat) < 128) s"

fun key_norm :: "atom \<Rightarrow> atom" where
  "key_norm (ABool b) = AInt (if b then 1 else 0)"
| "key_norm (AFloat x) = (if of_int \<lfloor>x\<rfloor> = x then AInt \<lfloor>x\<rfloor> else AFloat x)"
| "key_norm (AUnicode s) = (if is_ascii s then AStr s else AUnicode s)"
| "key_norm k = k"

definition py_update :: "atom \<Rightarrow> 'v \<Rightarrow> (atom, 'v) dict \<Rightarrow> (atom, 'v) dict" where
  "py_update k v d =
     (case find (\<lambda>(k', _). key_norm k' = key_norm k) d of
        Some (k', _) \<Rightarrow> AList.update k' v d
      | None \<Rightarrow> d @ [(k, v)])"

definition py_updates :: "(atom \<times> 'v) list \<Rightarrow> (atom, 'v) dict \<Rightarrow> (atom, 'v) dict" where
  "py_updates kvs d = fold (\<lambda>(k, v). py_update k v) kvs d"

definition py_add :: "atom \<Rightarrow> atom list \<Rightarrow> atom list" where
  "py_add a xs = (if key_norm a \<in> key_norm ` set xs then xs else xs @ [a])"

text \<open>What a dictionary or set takes as a key.  Lists, sets and dictionaries are unhashable.  Python hashes
  tuples and instances; keys of the model are atoms, so what follows is outside of it, which the
  outcome \<open>NotModelled\<close> says.\<close>

definition hashable :: "pyv \<Rightarrow> unserializer \<Rightarrow> exn + atom" where
  "hashable v s =
     (case v of
        Atom a \<Rightarrow> Inr a
      | Obj i \<Rightarrow>
          Inl (if i < length (objs s) \<and> (case objs s ! i of PList _ \<Rightarrow> True | PSet _ \<Rightarrow> True | PDict _ \<Rightarrow> True | _ \<Rightarrow> False)
               then TypeError else NotModelled))"

text \<open>A reference identifier is any hashable value: of the data, all but lists.  Equal identifiers
  have the same form.\<close>

definition refid_key :: "sexp \<Rightarrow> atom option" where
  "refid_key r =
     (case r of
        SInt n \<Rightarrow> Some (AInt n)
      | SFloat x \<Rightarrow> Some (key_norm (AFloat x))
      | SStr x \<Rightarrow> Some (AStr x)
      | SList _ _ \<Rightarrow> None)"

section \<open>Objects, references and delayed unpacking\<close>

definition new_object :: "pobj \<Rightarrow> unserializer \<Rightarrow> nat \<times> unserializer" where
  "new_object x s = (length (objs s), s\<lparr>objs := objs s @ [x]\<rparr>)"

definition register :: "(atom \<times> data_id) option \<Rightarrow> pyv \<Rightarrow> unserializer \<Rightarrow> unserializer" where
  "register ref v s =
     (case ref of None \<Rightarrow> s | Some (r, i) \<Rightarrow> s\<lparr>urefs := AList.update r (i, v) (urefs s)\<rparr>)"

definition set_object :: "nat \<Rightarrow> pobj \<Rightarrow> unserializer \<Rightarrow> unserializer" where
  "set_object a x s = s\<lparr>objs := (objs s)[a := x]\<rparr>"

definition extend_list :: "nat \<Rightarrow> pyv list \<Rightarrow> unserializer \<Rightarrow> (unit, unserializer) attempt" where
  "extend_list a vs s =
     (case objs s ! a of
        PList xs \<Rightarrow> (Inr (), set_object a (PList (xs @ vs)) s)
      | _ \<Rightarrow> (Inl AttributeError, s))"

definition extend_set :: "nat \<Rightarrow> pyv list \<Rightarrow> unserializer \<Rightarrow> (unit, unserializer) attempt" where
  "extend_set a vs s =
     bindS (mapS (\<lambda>v s. (hashable v s, s)) vs s) (\<lambda>ks s.
       case objs s ! a of
         PSet xs \<Rightarrow> (Inr (), set_object a (PSet (fold py_add ks xs)) s)
       | _ \<Rightarrow> (Inl AttributeError, s))"

definition extend_dict :: "nat \<Rightarrow> (pyv \<times> pyv) list \<Rightarrow> unserializer \<Rightarrow> (unit, unserializer) attempt" where
  "extend_dict a kvs s =
     bindS (mapS (\<lambda>(k, v) s. (bindE (hashable k s) (\<lambda>k. Inr (k, v)), s)) kvs s) (\<lambda>kvs s.
       case objs s ! a of
         PDict d \<Rightarrow> (Inr (), set_object a (PDict (py_updates kvs d)) s)
       | _ \<Rightarrow> (Inl AttributeError, s))"

text \<open>\<open>_begin\<close> starts with no instances; \<open>end_delayed\<close> is \<open>_commit\<close> or, after \<open>DelayPacking\<close>,
  \<open>_rollback\<close>, which keeps the instances that have been referenced.\<close>

definition begin_delayed :: "unserializer \<Rightarrow> unserializer" where
  "begin_delayed s = s\<lparr>instances := []\<rparr>"

definition end_delayed ::
  "restoring list \<Rightarrow> continuation \<Rightarrow> nat \<Rightarrow> (unit, unserializer) attempt \<Rightarrow> (pyv, unserializer) attempt" where
  "end_delayed blob continuation container m =
     (case m of
        (Inr _, s) \<Rightarrow> (Inr (Obj container), s\<lparr>instances := blob @ instances s\<rparr>)
      | (Inl e, s) \<Rightarrow>
          if e = DelayPacking
          then (Inr (Obj container),
                s\<lparr>instances := blob @ filter (\<lambda>r. i_refid r \<noteq> None) (instances s),
                  pending := pending s @ [continuation]\<rparr>)
          else (Inl e, s))"

definition note_instance :: "bool \<Rightarrow> nat \<Rightarrow> atom option \<Rightarrow> pyv \<Rightarrow> unserializer \<Rightarrow> (unit, unserializer) attempt" where
  "note_instance recover a refid snap s =
     (Inr (), s\<lparr>instances := instances s @
        [\<lparr>i_recover = recover, i_instance = a, i_snapshot = snap, i_refid = refid\<rparr>]\<rparr>)"

definition restore_dereference :: "bool \<Rightarrow> sexp \<Rightarrow> unserializer \<Rightarrow> (pyv, unserializer) attempt" where
  "restore_dereference delayed refid s =
     (case refid_key refid of
        None \<Rightarrow> (Inl TypeError, s)
      | Some r \<Rightarrow>
          (case map_of (urefs s) r of
             None \<Rightarrow> (Inl (if delayed then DelayPacking else ValueError), s)
           | Some (_, v) \<Rightarrow> (Inr v, s)))"

text \<open>\<open>recover\<close> of an instance, or of a blank one made for an immutable class: the attributes are
  updated from a dictionary.\<close>

definition recover :: "nat \<Rightarrow> pyv \<Rightarrow> unserializer \<Rightarrow> (unit, unserializer) attempt" where
  "recover a snap s =
     (case (objs s ! a, snap) of
        (PInst n attrs, Obj i) \<Rightarrow>
          (if i < length (objs s)
           then (case objs s ! i of
                   PDict d \<Rightarrow> (Inr (), set_object a (PInst n (py_updates d attrs)) s)
                 | _ \<Rightarrow> (Inl TypeError, s))
           else (Inl TypeError, s))
      | _ \<Rightarrow> (Inl TypeError, s))"

text \<open>\<open>restore\<close> of an immutable class and what follows it.\<close>

definition restore_immutable :: "string \<Rightarrow> pyv \<Rightarrow> unserializer \<Rightarrow> (pyv, unserializer) attempt" where
  "restore_immutable type_name snap s =
     (case new_object (PInst type_name []) s of
        (a, s) \<Rightarrow> bindS (recover a snap s) (\<lambda>_ s. bindS (note_instance False a None snap s) (\<lambda>_ s. (Inr (Obj a), s))))"

section \<open>Unpacking\<close>

definition unpack_unicode :: "sexp list \<Rightarrow> exn + pyv" where
  "unpack_unicode ds =
     (case ds of [SStr v] \<Rightarrow> Inr (Atom (AUnicode v)) | [_] \<Rightarrow> Inl TypeError | _ \<Rightarrow> Inl ValueError)"

definition unpack_bool :: "sexp list \<Rightarrow> exn + pyv" where
  "unpack_bool ds =
     (case ds of
        [SStr v] \<Rightarrow> if v = ''true'' then Inr (Atom (ABool True))
                   else if v = ''false'' then Inr (Atom (ABool False)) else Inl ValueError
      | _ \<Rightarrow> Inl ValueError)"

text \<open>\<open>for k, v in data[1:]\<close> when the pair is not a list of two: a string of two characters
  is taken apart too, and a number cannot be iterated.\<close>

definition unpack_odd_pair :: "sexp \<Rightarrow> exn + pyv \<times> pyv" where
  "unpack_odd_pair d =
     (case d of
        SStr [k, v] \<Rightarrow> Inr (Atom (AStr [k]), Atom (AStr [v]))
      | SInt _ \<Rightarrow> Inl TypeError
      | SFloat _ \<Rightarrow> Inl TypeError
      | _ \<Rightarrow> Inl ValueError)"

definition unpack_none :: "sexp list \<Rightarrow> exn + pyv" where
  "unpack_none ds = (if ds = [] then Inr (Atom ANone) else Inl ValueError)"

text \<open>The flag says whether unpacking happens inside of a mutable value, so that it can be delayed;
  \<open>ref\<close> is the reference the value is unpacked for.\<close>

fun unpack_data ::
  "converter \<Rightarrow> bool \<Rightarrow> (atom \<times> data_id) option \<Rightarrow> sexp \<Rightarrow> unserializer \<Rightarrow> (pyv, unserializer) attempt" where
  "unpack_data C dl ref (SInt n) s = (Inr (Atom (AInt n)), s)"
| "unpack_data C dl ref (SFloat x) s = (Inr (Atom (AFloat x)), s)"
| "unpack_data C dl ref (SStr x) s = (Inr (Atom (AStr x)), s)"
| "unpack_data C dl ref (SList i []) s = (Inl IndexError, s)"
| "unpack_data C dl ref (SList i (SInt _ # ds)) s = (Inl TypeError, s)"
| "unpack_data C dl ref (SList i (SFloat _ # ds)) s = (Inl TypeError, s)"
| "unpack_data C dl ref (SList i (SList _ _ # ds)) s = (Inl TypeError, s)"
| "unpack_data C dl ref (SList i (SStr t # ds)) s =
     (if t = ''unicode'' then (unpack_unicode ds, s)
      else if t = ''boolean'' then (unpack_bool ds, s)
      else if t = ''None'' then (unpack_none ds, s)
      else if t = ''tuple'' then
        bindS (mapS (unpack_data C dl None) ds s) (\<lambda>vs s.
        case new_object (PTuple vs) s of (a, s) \<Rightarrow> (Inr (Obj a), s))
      else if t = ''class'' \<or> t = ''enum'' then (restore_named C t ds, s)
      else if t = ''external'' then (Inl ValueError, s)
      else if t = ''reference'' then
        (case ds of
           [refid, d] \<Rightarrow>
             (case refid_key refid of
                None \<Rightarrow> (Inl TypeError, s)
              | Some r \<Rightarrow>
                  (case map_of (urefs s) r of
                     Some (did, v) \<Rightarrow> (if did = data_id d then Inr v else Inl ValueError, s)
                   | None \<Rightarrow>
                       bindS (unpack_data C dl (Some (r, data_id d)) d s) (\<lambda>v s.
                       (Inr v, if dict_has (urefs s) r then s
                               else register (Some (r, data_id d)) v s))))
         | _ \<Rightarrow> (Inl ValueError, s))
      else if t = ''dereference'' then
        (case ds of [r] \<Rightarrow> restore_dereference dl r s | _ \<Rightarrow> (Inl ValueError, s))
      else if t = ''list'' then
        (case new_object (PList []) s of
           (a, s) \<Rightarrow>
             let s = register ref (Obj a) s
             in end_delayed (instances s) (UnpackList a ds) a
                  (bindS (mapS (unpack_data C True None) ds (begin_delayed s)) (extend_list a)))
      else if t = ''set'' then
        (case new_object (PSet []) s of
           (a, s) \<Rightarrow>
             let s = register ref (Obj a) s
             in end_delayed (instances s) (UnpackSet a ds) a
                  (bindS (mapS (unpack_data C True None) ds (begin_delayed s)) (extend_set a)))
      else if t = ''dictionary'' then
        (case new_object (PDict []) s of
           (a, s) \<Rightarrow>
             let s = register ref (Obj a) s
             in end_delayed (instances s) (UnpackDict a ds) a
                  (bindS
                    (mapS (\<lambda>d s.
                       case d of
                         SList _ [k, v] \<Rightarrow>
                           bindS (unpack_data C True None k s) (\<lambda>k s.
                           bindS (unpack_data C True None v s) (\<lambda>v s. (Inr (k, v), s)))
                       | _ \<Rightarrow> (unpack_odd_pair d, s)) ds (begin_delayed s))
                    (extend_dict a)))
      else if t \<notin> set (registered C) then (Inl TypeError, s)
      else if c_mutable (classes C t) then
        (case new_object (PInst t []) s of
           (a, s) \<Rightarrow>
             let s = register ref (Obj a) s
             in (case ds of
                   [d] \<Rightarrow>
                     end_delayed (instances s) (RestoreInstance a d (map_option fst ref)) a
                       (bindS (unpack_data C True None d (begin_delayed s))
                         (note_instance True a (map_option fst ref)))
                 | _ \<Rightarrow> (Inl ValueError, s)))
      else
        (case ds of
           [d] \<Rightarrow> bindS (unpack_data C dl None d s) (restore_immutable t)
         | _ \<Rightarrow> (Inl ValueError, s)))"

declare unpack_data.simps(8) [simp del]

definition unpack_pair :: "converter \<Rightarrow> bool \<Rightarrow> sexp \<Rightarrow> unserializer \<Rightarrow> (pyv \<times> pyv, unserializer) attempt" where
  "unpack_pair C dl d s =
     (case d of
        SList _ [k, v] \<Rightarrow>
          bindS (unpack_data C dl None k s) (\<lambda>k s.
          bindS (unpack_data C dl None v s) (\<lambda>v s. (Inr (k, v), s)))
      | _ \<Rightarrow> (unpack_odd_pair d, s))"

text \<open>\<open>fun(*args, **kwargs)\<close> of a continuation, no longer inside of a mutable value.\<close>

fun run_continuation :: "converter \<Rightarrow> continuation \<Rightarrow> unserializer \<Rightarrow> (unit, unserializer) attempt" where
  "run_continuation C (UnpackList a ds) s = bindS (mapS (unpack_data C False None) ds s) (extend_list a)"
| "run_continuation C (UnpackSet a ds) s = bindS (mapS (unpack_data C False None) ds s) (extend_set a)"
| "run_continuation C (UnpackDict a ds) s = bindS (mapS (unpack_pair C False) ds s) (extend_dict a)"
| "run_continuation C (RestoreInstance a d refid) s =
     bindS (unpack_data C False None d s) (note_instance True a refid)"


section \<open>The pending continuations\<close>

text \<open>A bound on what unpacking adds to the pending continuations.  A list that is delayed may have left
  continuations for its elements too, hence the factor.\<close>

fun weight :: "sexp \<Rightarrow> nat" where
  "weight (SList i ds) = Suc (2 * sum_list (map weight ds))"
| "weight _ = 0"

fun continuation_weight :: "continuation \<Rightarrow> nat" where
  "continuation_weight (UnpackList a ds) = Suc (sum_list (map weight ds))"
| "continuation_weight (UnpackSet a ds) = Suc (sum_list (map weight ds))"
| "continuation_weight (UnpackDict a ds) = Suc (sum_list (map weight ds))"
| "continuation_weight (RestoreInstance a d r) = Suc (weight d)"

definition pending_weight :: "unserializer \<Rightarrow> nat" where
  "pending_weight s = sum_list (map continuation_weight (pending s))"

named_theorems pending_weights \<open>what an operation adds to the pending continuations\<close>

lemma pending_weight_update [pending_weights]:
  "pending_weight (s\<lparr>objs := x\<rparr>) = pending_weight s"
  "pending_weight (s\<lparr>urefs := u\<rparr>) = pending_weight s"
  "pending_weight (s\<lparr>instances := is\<rparr>) = pending_weight s"
  "pending_weight (register ref v s) = pending_weight s"
  "pending_weight (set_object a y s) = pending_weight s"
  "pending_weight (begin_delayed s) = pending_weight s"
  "pending_weight (snd (new_object y s)) = pending_weight s"
  "pending_weight (snd (note_instance b a r v s)) = pending_weight s"
  by (simp_all add: pending_weight_def register_def set_object_def begin_delayed_def new_object_def
      note_instance_def split: option.split prod.split)

lemma bindS_weight_add:
  assumes "pending_weight (snd m) \<le> b" and "\<And>x s. pending_weight (snd (f x s)) \<le> pending_weight s + c"
  shows "pending_weight (snd (bindS m f)) \<le> b + c"
proof (cases m)
  case (Pair r s)
  with assms(1) assms(2) [of _ s] show ?thesis
    by (cases r) (force simp: bindS_def intro: order_trans add_right_mono)+
qed

lemma bindS_weight:
  assumes "pending_weight (snd m) \<le> b" and "\<And>x s. pending_weight (snd (f x s)) \<le> pending_weight s"
  shows "pending_weight (snd (bindS m f)) \<le> b"
  using bindS_weight_add [of m b f 0] assms by simp

lemma bindS_weight_less:
  "pending_weight (snd m) \<le> n + b \<Longrightarrow> (\<And>x s. pending_weight (snd (f x s)) \<le> pending_weight s) \<Longrightarrow>
   pending_weight (snd (bindS m f)) < n + Suc b"
  using bindS_weight [of m "n + b" f] by simp

lemma mapS_weight:
  "(\<And>d s. d \<in> set ds \<Longrightarrow> pending_weight (snd (f d s)) \<le> pending_weight s + w d) \<Longrightarrow>
   pending_weight (snd (mapS f ds s)) \<le> pending_weight s + sum_list (map w ds)"
proof (induction ds arbitrary: s)
  case (Cons d ds)
  have "pending_weight (snd (mapS f (d # ds) s)) \<le> (pending_weight s + w d) + sum_list (map w ds)"
    unfolding mapS.simps
    by (rule bindS_weight_add, simp add: Cons.prems, rule bindS_weight, rule Cons.IH, simp_all add: Cons.prems)
  then show ?case by simp
qed simp

lemma mapS_weight_none:
  "(\<And>d s. pending_weight (snd (f d s)) \<le> pending_weight s) \<Longrightarrow> pending_weight (snd (mapS f ds s)) \<le> pending_weight s"
  using mapS_weight [of ds f "\<lambda>_. 0" s] by simp

lemma extend_weight [pending_weights]:
  "pending_weight (snd (extend_list a vs s)) \<le> pending_weight s"
  "pending_weight (snd (extend_set a vs s)) \<le> pending_weight s"
  "pending_weight (snd (extend_dict a kvs s)) \<le> pending_weight s"
  by (auto simp: extend_list_def extend_set_def extend_dict_def pending_weights
      split: pobj.split intro!: bindS_weight mapS_weight_none)

lemma recover_weight [pending_weights]:
  "pending_weight (snd (recover a v s)) \<le> pending_weight s"
  by (auto simp: recover_def pending_weights split: pobj.split pyv.split)

lemma restore_immutable_weight [pending_weights]:
  "pending_weight (snd (restore_immutable t v s)) \<le> pending_weight s"
proof -
  obtain a s' where n: "new_object (PInst t []) s = (a, s')" by fastforce
  then have "pending_weight s' = pending_weight s" by (metis pending_weight_update(7) snd_conv)
  then show ?thesis
    by (auto simp: restore_immutable_def n pending_weights intro!: bindS_weight order_trans [OF recover_weight])
qed

lemma restore_dereference_weight [pending_weights]:
  "pending_weight (snd (restore_dereference b d s)) = pending_weight s"
  by (auto simp: restore_dereference_def split: option.split)

lemma end_delayed_weight:
  "pending_weight (snd m) \<le> b \<Longrightarrow>
   pending_weight (snd (end_delayed blob c a m)) \<le> b + continuation_weight c"
  by (cases m) (auto simp: end_delayed_def pending_weights pending_weight_def split: sum.split)

text \<open>A delayed section: what its body adds, and the continuation.\<close>

lemma delayed_weight:
  assumes "pending_weight (snd m) \<le> pending_weight s + w" "continuation_weight c \<le> Suc w"
    and "\<And>x s. pending_weight (snd (f x s)) \<le> pending_weight s"
  shows "pending_weight (snd (end_delayed blob c a (bindS m f))) \<le> pending_weight s + Suc (2 * w)"
proof -
  have "pending_weight (snd (bindS m f)) \<le> pending_weight s + w"
    using assms(1,3) by (rule bindS_weight)
  from end_delayed_weight [OF this, of blob c a] assms(2) show ?thesis by simp
qed

lemma size_element: "d \<in> set ds \<Longrightarrow> size d < size (SList i (x # ds))"
  by (induction ds) auto

lemma weight_le_list: "sum_list (map weight ds) \<le> weight (SList i (x # ds))"
  by simp

lemma unpack_pair_weight:
  assumes "\<And>d' s. size d' < size d \<Longrightarrow> pending_weight (snd (unpack_data C dl None d' s)) \<le> pending_weight s + weight d'"
  shows "pending_weight (snd (unpack_pair C dl d s)) \<le> pending_weight s + weight d"
proof (cases "\<exists>i k v. d = SList i [k, v]")
  case True
  then obtain i k v where d: "d = SList i [k, v]" by blast
  have "pending_weight (snd (unpack_pair C dl d s)) \<le> (pending_weight s + weight k) + weight v"
    unfolding unpack_pair_def d sexp.case list.case
    by (rule bindS_weight_add, rule assms, simp add: d, rule bindS_weight, rule assms) (simp_all add: d)
  then show ?thesis by (simp add: d)
qed (auto simp: unpack_pair_def split: sexp.split list.split)

text \<open>What is left of \<open>unpack_data\<close> for each kind of data.\<close>

definition start_container :: "pobj \<Rightarrow> (atom \<times> data_id) option \<Rightarrow> unserializer \<Rightarrow> unserializer" where
  "start_container x ref s = register ref (Obj (length (objs s))) (snd (new_object x s))"

definition type_atoms :: "string list" where
  "type_atoms = [''unicode'', ''boolean'', ''None'', ''tuple'', ''list'', ''set'', ''dictionary'', ''class'', ''enum'',
     ''external'', ''reference'', ''dereference'']"

lemma start_container_fields [simp]: "instances (start_container x ref s) = instances s"
  "objs (start_container x ref s) = objs s @ [x]" "pending (start_container x ref s) = pending s"
  by (simp_all add: start_container_def register_def new_object_def split: option.split prod.split)

lemma unpack_tuple:
  "unpack_data C dl ref (SList i (SStr ''tuple'' # ds)) s =
     bindS (mapS (unpack_data C dl None) ds s) (\<lambda>vs s. (Inr (Obj (length (objs s))), snd (new_object (PTuple vs) s)))"
  by (simp add: unpack_data.simps(8) new_object_def)

lemma unpack_list:
  "unpack_data C dl ref (SList i (SStr ''list'' # ds)) s =
     end_delayed (instances s) (UnpackList (length (objs s)) ds) (length (objs s))
       (bindS (mapS (unpack_data C True None) ds (begin_delayed (start_container (PList []) ref s)))
         (extend_list (length (objs s))))"
  by (simp add: unpack_data.simps(8) new_object_def start_container_def register_def Let_def split: option.split prod.split)

lemma unpack_set:
  "unpack_data C dl ref (SList i (SStr ''set'' # ds)) s =
     end_delayed (instances s) (UnpackSet (length (objs s)) ds) (length (objs s))
       (bindS (mapS (unpack_data C True None) ds (begin_delayed (start_container (PSet []) ref s)))
         (extend_set (length (objs s))))"
  by (simp add: unpack_data.simps(8) new_object_def start_container_def register_def Let_def split: option.split prod.split)

lemma unpack_dictionary:
  "unpack_data C dl ref (SList i (SStr ''dictionary'' # ds)) s =
     end_delayed (instances s) (UnpackDict (length (objs s)) ds) (length (objs s))
       (bindS (mapS (unpack_pair C True) ds (begin_delayed (start_container (PDict []) ref s)))
         (extend_dict (length (objs s))))"
  by (simp add: unpack_data.simps(8) unpack_pair_def [abs_def] new_object_def start_container_def register_def Let_def split: option.split prod.split)

lemma unpack_mutable:
  "t \<in> set (registered C) \<Longrightarrow> t \<notin> set type_atoms \<Longrightarrow> c_mutable (classes C t) \<Longrightarrow>
   unpack_data C dl ref (SList i [SStr t, d]) s =
     end_delayed (instances s) (RestoreInstance (length (objs s)) d (map_option fst ref)) (length (objs s))
       (bindS (unpack_data C True None d (begin_delayed (start_container (PInst t []) ref s)))
         (note_instance True (length (objs s)) (map_option fst ref)))"
  by (simp add: unpack_data.simps(8) new_object_def start_container_def register_def Let_def type_atoms_def
      split: option.split prod.split)

lemma unpack_immutable:
  "t \<in> set (registered C) \<Longrightarrow> t \<notin> set type_atoms \<Longrightarrow> \<not> c_mutable (classes C t) \<Longrightarrow>
   unpack_data C dl ref (SList i [SStr t, d]) s = bindS (unpack_data C dl None d s) (restore_immutable t)"
  by (simp add: unpack_data.simps(8) type_atoms_def)

lemma unpack_unknown:
  "t \<notin> set (registered C) \<Longrightarrow> t \<notin> set type_atoms \<Longrightarrow>
   unpack_data C dl ref (SList i (SStr t # ds)) s = (Inl TypeError, s)"
  by (simp add: unpack_data.simps(8) type_atoms_def)

lemma unpack_reference:
  "refid_key refid = Some r \<Longrightarrow> unpack_data C dl ref (SList i [SStr ''reference'', refid, d]) s =
     (case map_of (urefs s) r of
        Some (did, v) \<Rightarrow> (if did = data_id d then Inr v else Inl ValueError, s)
      | None \<Rightarrow>
          bindS (unpack_data C dl (Some (r, data_id d)) d s) (\<lambda>v s.
          (Inr v, if dict_has (urefs s) r then s else register (Some (r, data_id d)) v s)))"
  by (simp add: unpack_data.simps(8))

lemma unpack_dereference:
  "unpack_data C dl ref (SList i [SStr ''dereference'', r]) s = restore_dereference dl r s"
  by (simp add: unpack_data.simps(8))

lemma start_container_weight [pending_weights]:
  "pending_weight (start_container x ref s) = pending_weight s"
  by (simp add: start_container_def pending_weights)

lemma unpack_data_weight:
  "pending_weight (snd (unpack_data C dl ref d s)) \<le> pending_weight s + weight d"
proof (induction "size d" arbitrary: d dl ref s rule: less_induct)
  case less
  show ?case
  proof (cases "\<exists>i t ds. d = SList i (SStr t # ds)")
    case False
    then show ?thesis
      by (cases "(C, dl, ref, d, s)" rule: unpack_data.cases) auto
  next
    case True
    then obtain i t ds where d: "d = SList i (SStr t # ds)" by blast
    have el: "pending_weight (snd (unpack_data C b r x s')) \<le> pending_weight s' + weight x" if "x \<in> set ds" for b r x s'
      using less size_element [OF that] d by blast
    have els: "pending_weight (snd (mapS (unpack_data C b None) ds s')) \<le> pending_weight s' + sum_list (map weight ds)" for b s'
      by (rule mapS_weight) (rule el)
    have pairs: "pending_weight (snd (mapS (unpack_pair C b) ds s')) \<le> pending_weight s' + sum_list (map weight ds)" for b s'
      by (rule mapS_weight, rule unpack_pair_weight, rule less) (use size_element d less_trans in blast)
    have wd: "weight d = Suc (2 * sum_list (map weight ds))" by (simp add: d)
    have delayed: "pending_weight (snd (end_delayed blob c a (bindS m f))) \<le> pending_weight s + Suc (2 * sum_list (map weight ds))"
      if "pending_weight (snd m) \<le> pending_weight (begin_delayed (start_container x ref s)) + sum_list (map weight ds)"
        "continuation_weight c \<le> Suc (sum_list (map weight ds))"
        "\<And>x s. pending_weight (snd (f x s)) \<le> pending_weight s"
      for blob c a x and m :: "('x, unserializer) attempt" and f
      by (rule delayed_weight) (use that in \<open>simp_all add: pending_weights\<close>)
    consider (plain) "t \<in> {''unicode'', ''boolean'', ''None'', ''class'', ''enum'', ''external'', ''dereference''}"
      | (tuple) "t = ''tuple''" | (reference) "t = ''reference''" | (list) "t = ''list''" | (set) "t = ''set''"
      | (dictionary) "t = ''dictionary''" | (other) "t \<notin> set type_atoms"
      by (auto simp: type_atoms_def)
    then show ?thesis
    proof cases
      case plain
      then show ?thesis unfolding d
        by (elim insertE emptyE; hypsubst) (simp_all add: unpack_data.simps(8) pending_weights split: list.split)
    next
      case tuple
      then show ?thesis unfolding wd
        by (simp only: d unpack_tuple, intro bindS_weight order_trans [OF els]) (simp_all add: pending_weights)
    next
      case reference
      show ?thesis
      proof (cases "\<exists>y r x. ds = [y, x] \<and> refid_key y = Some r")
        case True
        then obtain y r x where x: "ds = [y, x]" and r: "refid_key y = Some r" by blast
        show ?thesis
        proof (cases "map_of (urefs s) r")
          case None
          have "pending_weight (snd (unpack_data C dl ref d s)) \<le> pending_weight s + weight x"
            unfolding reference d x unpack_reference [OF r] using None
            by (simp only: option.case, intro bindS_weight el) (auto simp: x pending_weights)
          then show ?thesis by (simp add: wd x)
        qed (auto simp: reference d x unpack_reference [OF r])
      qed (auto simp: reference d unpack_data.simps(8) split: list.split option.split)
    next
      case list
      show ?thesis unfolding wd unfolding d list unpack_list
        by (rule delayed [OF els]) (simp_all add: pending_weights)
    next
      case set
      show ?thesis unfolding wd unfolding d set unpack_set
        by (rule delayed [OF els]) (simp_all add: pending_weights)
    next
      case dictionary
      show ?thesis unfolding wd unfolding d dictionary unpack_dictionary
        by (rule delayed [OF pairs]) (simp_all add: pending_weights)
    next
      case other
      show ?thesis
      proof (cases "t \<in> set (registered C) \<and> (\<exists>x. ds = [x])")
        case True
        then obtain x where x: "ds = [x]" by blast
        have one: "pending_weight (snd (unpack_data C b r x s')) \<le> pending_weight s' + sum_list (map weight ds)" for b r s'
          using el [of x] x by simp
        show ?thesis
        proof (cases "c_mutable (classes C t)")
          case True
          have t: "t \<in> set (registered C)" "t \<notin> set type_atoms" using \<open>t \<in> _ \<and> _\<close> other by simp_all
          show ?thesis unfolding wd unfolding d x unpack_mutable [OF t True]
            by (rule delayed [unfolded x, OF one [unfolded x]]) (simp_all add: pending_weights)
        next
          case False
          have t: "t \<in> set (registered C)" "t \<notin> set type_atoms" using \<open>t \<in> _ \<and> _\<close> other by simp_all
          show ?thesis unfolding wd unfolding d x unpack_immutable [OF t False]
            by (intro bindS_weight order_trans [OF one [unfolded x]]) (simp_all add: pending_weights)
        qed
      next
        case False
        with other show ?thesis
          by (auto simp: d unpack_data.simps(8) type_atoms_def new_object_def Let_def pending_weights split: list.split)
      qed
    qed
  qed
qed


lemma run_continuation_weight:
  "pending_weight (snd (run_continuation C c s)) < pending_weight s + continuation_weight c"
proof -
  have els: "pending_weight (snd (mapS (unpack_data C False None) ds s)) \<le> pending_weight s + sum_list (map weight ds)"
    and pairs: "pending_weight (snd (mapS (unpack_pair C False) ds s)) \<le> pending_weight s + sum_list (map weight ds)" for ds
    by (intro mapS_weight unpack_data_weight unpack_pair_weight)+
  show ?thesis
  proof (cases c)
    case (UnpackList a ds)
    show ?thesis unfolding UnpackList run_continuation.simps continuation_weight.simps
      by (rule bindS_weight_less, rule els, rule pending_weights)
  next
    case (UnpackSet a ds)
    show ?thesis unfolding UnpackSet run_continuation.simps continuation_weight.simps
      by (rule bindS_weight_less, rule els, rule pending_weights)
  next
    case (UnpackDict a ds)
    show ?thesis unfolding UnpackDict run_continuation.simps continuation_weight.simps
      by (rule bindS_weight_less, rule pairs, rule pending_weights)
  next
    case (RestoreInstance a d r)
    show ?thesis unfolding RestoreInstance run_continuation.simps continuation_weight.simps
      by (rule bindS_weight_less, rule unpack_data_weight) (simp add: pending_weights)
  qed
qed

text \<open>The loop of \<open>finish_unpacking\<close>; it ends because a continuation adds less than it takes away.\<close>

function finish_pending :: "converter \<Rightarrow> unserializer \<Rightarrow> (unit, unserializer) attempt" where
  "finish_pending C s =
     (case pending s of
        [] \<Rightarrow> (Inr (), s)
      | c # cs \<Rightarrow>
          (case run_continuation C c (s\<lparr>pending := cs\<rparr>) of
             (Inl e, s) \<Rightarrow> (Inl e, s)
           | (Inr _, s) \<Rightarrow> finish_pending C s))"
  by pat_completeness auto

termination
proof (relation "measure (\<lambda>(C, s). pending_weight s)")
  fix C s c cs r s' u
  assume "pending s = c # cs" "(r, s') = run_continuation C c (s\<lparr>pending := cs\<rparr>)" "r = Inr (u :: unit)"
  then have "pending_weight s' < pending_weight (s\<lparr>pending := cs\<rparr>) + continuation_weight c"
    using run_continuation_weight [of C c "s\<lparr>pending := cs\<rparr>"] by (metis snd_conv)
  with \<open>pending s = c # cs\<close> show "((C, s'), (C, s)) \<in> measure (\<lambda>(C, s). pending_weight s)"
    by (simp add: pending_weight_def)
qed simp

declare finish_pending.simps [simp del]

text \<open>The instances are recovered in order of their creation, and told in the reversed order.\<close>

definition recover_instances :: "restoring list \<Rightarrow> unserializer \<Rightarrow> (unit list, unserializer) attempt" where
  "recover_instances rs s =
     mapS (\<lambda>r s. if i_recover r then recover (i_instance r) (i_snapshot r) s else (Inr (), s)) rs s"

text \<open>\<open>convert\<close>: the value, the objects it is made of and the instances whose \<open>restored\<close> was called.\<close>

definition unserialize :: "converter \<Rightarrow> sexp \<Rightarrow> exn + pyv \<times> pobj list \<times> nat list" where
  "unserialize C d =
     (case bindS (unpack_data C False None d unserializer_reset) (\<lambda>v s.
           bindS (finish_pending C s) (\<lambda>_ s.
           bindS (recover_instances (instances s) s) (\<lambda>_ s. (Inr v, s)))) of
        (Inl e, _) \<Rightarrow> Inl e
      | (Inr v, s) \<Rightarrow> Inr (v, objs s, map i_instance (rev (instances s))))"

end
