(* ===== verification/ObjectGraph.thy ===== *)
theory ObjectGraph
  imports Unserializer
begin

text \<open>
  Objects as the nodes of a graph: reachability, copies of a graph, and what it takes for a graph
  to survive serialization.  \<open>flat_enc\<close> and \<open>sexp_enc\<close> say that flattened items, or s-expressions,
  encode a list of values when the objects of a set have been visited before.
\<close>

section \<open>The graph\<close>

fun kids :: "pobj \<Rightarrow> pyv list" where
  "kids (PTuple vs) = vs"
| "kids (PList vs) = vs"
| "kids (PSet as) = map Atom as"
| "kids (PDict d) = map snd d"
| "kids (PInst n attrs) = map snd (snapshot attrs)"
| "kids POther = []"

definition edges :: "pobj list \<Rightarrow> (nat \<times> nat) set" where
  "edges h = {(i, j). i < length h \<and> Obj j \<in> set (kids (h ! i))}"

definition reachable :: "pobj list \<Rightarrow> pyv \<Rightarrow> nat set" where
  "reachable h v = {j. \<exists>i. v = Obj i \<and> (i, j) \<in> (edges h)\<^sup>*}"

definition valid :: "pobj list \<Rightarrow> pyv \<Rightarrow> bool" where
  "valid h v = (case v of Atom _ \<Rightarrow> True | Obj i \<Rightarrow> i < length h)"

text \<open>A rigid object is only created when its content is there: a tuple or an immutable instance.\<close>

fun rigid :: "converter \<Rightarrow> pobj \<Rightarrow> bool" where
  "rigid C (PTuple _) = True"
| "rigid C (PInst n _) = (\<not> c_mutable (classes C n))"
| "rigid C _ = False"

fun is_instance :: "pobj \<Rightarrow> bool" where
  "is_instance (PInst _ _) = True"
| "is_instance _ = False"

text \<open>Real dictionaries and sets have no equal keys; the classes are known, keep the identity of their
  instances and do not have the name of a type.\<close>

fun obj_ok :: "converter \<Rightarrow> pobj \<Rightarrow> bool" where
  "obj_ok C (PSet as) = distinct (map key_norm as)"
| "obj_ok C (PDict d) = distinct (map (key_norm \<circ> fst) d)"
| "obj_ok C (PInst n attrs) =
     (distinct (map (key_norm \<circ> fst) attrs) \<and> n \<in> set (registered C) \<and> n \<notin> set type_atoms \<and>
      c_referenceable (classes C n))"
| "obj_ok C POther = False"
| "obj_ok C _ = True"

definition heap_ok :: "converter \<Rightarrow> pobj list \<Rightarrow> bool" where
  "heap_ok C h \<longleftrightarrow> list_all (\<lambda>x. obj_ok C x \<and> list_all (valid h) (kids x)) h"

definition no_rigid_cycle :: "converter \<Rightarrow> pobj list \<Rightarrow> bool" where
  "no_rigid_cycle C h \<longleftrightarrow> (\<forall>i < length h. rigid C (h ! i) \<longrightarrow> (i, i) \<notin> (edges h)\<^sup>+)"

lemma heap_okD:
  assumes "heap_ok C h" "i < length h"
  shows "obj_ok C (h ! i)" "list_all (valid h) (kids (h ! i))"
  using assms by (auto simp: heap_ok_def list_all_length)

section \<open>Copies\<close>

fun rename :: "(nat \<Rightarrow> nat) \<Rightarrow> pyv \<Rightarrow> pyv" where
  "rename f (Atom a) = Atom a"
| "rename f (Obj i) = Obj (f i)"

text \<open>The object with its content renamed; an instance keeps its public attributes.\<close>

fun rename_obj :: "(nat \<Rightarrow> nat) \<Rightarrow> pobj \<Rightarrow> pobj" where
  "rename_obj f (PTuple vs) = PTuple (map (rename f) vs)"
| "rename_obj f (PList vs) = PList (map (rename f) vs)"
| "rename_obj f (PSet as) = PSet as"
| "rename_obj f (PDict d) = PDict (map (\<lambda>(k, v). (k, rename f v)) d)"
| "rename_obj f (PInst n attrs) = PInst n (map (\<lambda>(k, v). (k, rename f v)) (snapshot attrs))"
| "rename_obj f POther = POther"

text \<open>\<open>w\<close> in the heap \<open>h'\<close> is a copy of \<open>v\<close> in \<open>h\<close>: \<open>f\<close> takes different objects to different objects,
  so sharing and cycles are as they were.\<close>

definition copies :: "(nat \<Rightarrow> nat) \<Rightarrow> pobj list \<Rightarrow> pyv \<Rightarrow> pobj list \<Rightarrow> pyv \<Rightarrow> bool" where
  "copies f h v h' w \<longleftrightarrow>
     inj_on f (reachable h v) \<and> w = rename f v \<and>
     (\<forall>i \<in> reachable h v. f i < length h' \<and> h' ! f i = rename_obj f (h ! i))"

lemma rename_cong: "(\<And>i. v = Obj i \<Longrightarrow> f i = g i) \<Longrightarrow> rename f v = rename g v"
  by (cases v) auto

lemma rename_obj_cong:
  assumes "\<And>i. Obj i \<in> set (kids x) \<Longrightarrow> f i = g i"
  shows "rename_obj f x = rename_obj g x"
  using assms by (cases x) (force intro!: rename_cong)+

section \<open>Flattened items\<close>

definition first_cell :: "flattener \<Rightarrow> nat \<Rightarrow> nat" where
  "first_cell st i = (case map_of (references st) i of Some t \<Rightarrow> t | None \<Rightarrow> (case map_of (preserved st) i of Some c \<Rightarrow> c | None \<Rightarrow> 0))"

text \<open>The content of the container of an object, once it is there.\<close>

definition node :: "flattener \<Rightarrow> nat \<Rightarrow> (packer \<times> flat_item list) option" where
  "node st i =
     (case map_of (preserved st) i of
        None \<Rightarrow> None
      | Some c \<Rightarrow> (case cells st ! c of CPacked p items \<Rightarrow> Some (p, items) | _ \<Rightarrow> None))"

text \<open>How the items of a container are made from those of the children.  The dictionary of a snapshot
  has a container of its own, under an identity outside of the heap.\<close>

fun node_items :: "flattener \<Rightarrow> pobj list \<Rightarrow> pobj \<Rightarrow> packer \<times> flat_item list \<Rightarrow> flat_item list \<Rightarrow> bool" where
  "node_items st h (PTuple _) x its = (x = (PackTuple, its))"
| "node_items st h (PList _) x its = (x = (PackList, its))"
| "node_items st h (PSet _) x its = (x = (PackSet, its))"
| "node_items st h (PDict d) x its = (x = (PackDict, map2 FItem (map fst d) its))"
| "node_items st h (PInst n attrs) x its =
     (\<exists>f \<ge> length h. x = (PackInstance, [FName n, FCell (first_cell st f)]) \<and> map_of (references st) f = None \<and>
        node st f = Some (PackDict, map2 FItem (map fst (snapshot attrs)) its))"
| "node_items st h POther x its = False"

inductive flat_enc :: "flattener \<Rightarrow> pobj list \<Rightarrow> nat set \<Rightarrow> pyv list \<Rightarrow> flat_item list \<Rightarrow> nat set \<Rightarrow> bool"
  for st h where
  Nil: "flat_enc st h V [] [] V"
| Atom: "flat_enc st h V vs its V' \<Longrightarrow> flat_enc st h V (Atom a # vs) (FAtom a # its) V'"
| Back: "i \<in> V \<Longrightarrow> map_of (refids st) i = Some r \<Longrightarrow> flat_enc st h V vs its V' \<Longrightarrow>
    flat_enc st h V (Obj i # vs) (FDeref r # its) V'"
| Node: "i \<notin> V \<Longrightarrow> i < length h \<Longrightarrow> node st i = Some x \<Longrightarrow> node_items st h (h ! i) x ks \<Longrightarrow>
    flat_enc st h (insert i V) (kids (h ! i)) ks V1 \<Longrightarrow> flat_enc st h V1 vs its V' \<Longrightarrow>
    flat_enc st h V (Obj i # vs) (FCell (first_cell st i) # its) V'"

section \<open>S-expressions\<close>

definition atom_sexp :: "atom \<Rightarrow> sexp \<Rightarrow> bool" where
  "atom_sexp a s \<longleftrightarrow> (\<exists>k k'. pack_atom a k = (Inr s, k'))"

definition pairs_sexp :: "atom list \<Rightarrow> sexp list \<Rightarrow> sexp list \<Rightarrow> bool" where
  "pairs_sexp ks ss es \<longleftrightarrow>
     length ks = length es \<and> length ss = length es \<and>
     (\<forall>j < length es. \<exists>k key. es ! j = SList k [key, ss ! j] \<and> atom_sexp (ks ! j) key)"

fun node_sexp :: "pobj \<Rightarrow> sexp \<Rightarrow> sexp list \<Rightarrow> bool" where
  "node_sexp (PTuple _) s ss = (\<exists>k. s = SList k (SStr ''tuple'' # ss))"
| "node_sexp (PList _) s ss = (\<exists>k. s = SList k (SStr ''list'' # ss))"
| "node_sexp (PSet _) s ss = (\<exists>k. s = SList k (SStr ''set'' # ss))"
| "node_sexp (PDict d) s ss = (\<exists>k es. s = SList k (SStr ''dictionary'' # es) \<and> pairs_sexp (map fst d) ss es)"
| "node_sexp (PInst n attrs) s ss =
     (\<exists>k k' es. s = SList k [SStr n, SList k' (SStr ''dictionary'' # es)] \<and>
        pairs_sexp (map fst (snapshot attrs)) ss es)"
| "node_sexp POther s ss = False"

definition wrapped :: "nat option \<Rightarrow> sexp \<Rightarrow> sexp \<Rightarrow> bool" where
  "wrapped r s0 s \<longleftrightarrow>
     (case r of None \<Rightarrow> s = s0 | Some r \<Rightarrow> \<exists>k. s = SList k [SStr ''reference'', SInt (int r), s0])"

inductive sexp_enc :: "(nat \<Rightarrow> nat option) \<Rightarrow> pobj list \<Rightarrow> nat set \<Rightarrow> pyv list \<Rightarrow> sexp list \<Rightarrow> nat set \<Rightarrow> bool"
  for F h where
  Nil: "sexp_enc F h V [] [] V"
| Atom: "atom_sexp a s \<Longrightarrow> sexp_enc F h V vs ss V' \<Longrightarrow> sexp_enc F h V (Atom a # vs) (s # ss) V'"
| Back: "i \<in> V \<Longrightarrow> F i = Some r \<Longrightarrow> sexp_enc F h V vs ss V' \<Longrightarrow>
    sexp_enc F h V (Obj i # vs) (SList k [SStr ''dereference'', SInt (int r)] # ss) V'"
| Node: "i \<notin> V \<Longrightarrow> i < length h \<Longrightarrow> node_sexp (h ! i) s0 ks \<Longrightarrow> wrapped (F i) s0 s \<Longrightarrow>
    sexp_enc F h (insert i V) (kids (h ! i)) ks V1 \<Longrightarrow> sexp_enc F h V1 vs ss V' \<Longrightarrow>
    sexp_enc F h V (Obj i # vs) (s # ss) V'"

lemma flat_enc_visited:
  "flat_enc st h V vs its V' \<Longrightarrow> V \<subseteq> V' \<and> (\<forall>i \<in> V' - V. i < length h) \<and> length its = length vs"
  by (induction rule: flat_enc.induct) auto

lemma sexp_enc_visited:
  "sexp_enc F h V vs ss V' \<Longrightarrow> V \<subseteq> V' \<and> (\<forall>i \<in> V' - V. i < length h) \<and> length ss = length vs"
  by (induction rule: sexp_enc.induct) auto

section \<open>Packing of what has been flattened\<close>

lemma pack_atom_total: "\<exists>s k'. pack_atom a k = (Inr s, k')"
  by (cases a) (simp_all add: new_list_def)

lemma atom_sexpI: "pack_atom a k = (Inr s, k') \<Longrightarrow> atom_sexp a s"
  by (auto simp: atom_sexp_def)


lemma mapS_results:
  "mapS f xs s = (Inr ys, s') \<Longrightarrow> list_all2 (\<lambda>x y. \<exists>s s'. f x s = (Inr y, s')) xs ys"
proof (induction xs arbitrary: s ys)
  case (Cons x xs)
  then obtain y s1 zs where "f x s = (Inr y, s1)" "mapS f xs s1 = (Inr zs, s')" "ys = y # zs"
    by (auto simp: bindS_Inr)
  with Cons.IH show ?case by auto
qed simp

lemma mapS_total:
  "(\<And>x s. x \<in> set xs \<Longrightarrow> \<exists>y s'. f x s = (Inr y, s')) \<Longrightarrow> \<exists>ys s'. mapS f xs s = (Inr ys, s')"
proof (induction xs arbitrary: s)
  case (Cons x xs)
  obtain y s1 where "f x s = (Inr y, s1)" using Cons.prems [of x s] by auto
  moreover obtain ys s' where "mapS f xs s1 = (Inr ys, s')" using Cons.IH [of s1] Cons.prems by auto
  ultimately show ?case by simp
qed simp

text \<open>The container of a first visit holds a reference exactly if the object has been met again.\<close>

definition linked :: "flattener \<Rightarrow> bool" where
  "linked st \<longleftrightarrow>
     (\<forall>i. case map_of (refids st) i of
            None \<Rightarrow> map_of (references st) i = None
          | Some r \<Rightarrow> \<exists>c. map_of (preserved st) i = Some c \<and> cells st ! first_cell st i = CReference r c)"

definition packs :: "nat \<Rightarrow> flattener \<Rightarrow> flat_item \<Rightarrow> sexp \<Rightarrow> bool" where
  "packs m st it s \<longleftrightarrow> (\<exists>k k'. pack_value m (cells st) it k = (Inr s, k'))"

definition pack_total :: "nat \<Rightarrow> flattener \<Rightarrow> flat_item \<Rightarrow> bool" where
  "pack_total m st it \<longleftrightarrow> (\<forall>k. \<exists>s k'. pack_value m (cells st) it k = (Inr s, k'))"

lemma packs_list:
  "list_all (pack_total m st) its \<Longrightarrow> \<exists>ss k'. mapS (pack_value m (cells st)) its k = (Inr ss, k')"
  by (rule mapS_total) (auto simp: pack_total_def list_all_iff)

lemma packs_results:
  "mapS (pack_value m (cells st)) its k = (Inr ss, k') \<Longrightarrow> list_all2 (packs m st) its ss"
  unfolding packs_def [abs_def] by (rule mapS_results)

lemma pack_total_item: "pack_total m st it \<Longrightarrow> pack_total (Suc m) st (FItem key it)"
  unfolding pack_total_def
proof
  fix k
  assume total: "\<forall>k. \<exists>s k'. pack_value m (cells st) it k = (Inr s, k')"
  obtain x k1 where "pack_atom key k = (Inr x, k1)" using pack_atom_total by blast
  moreover obtain s k2 where "pack_value m (cells st) it k1 = (Inr s, k2)" using total by blast
  ultimately show "\<exists>s k'. pack_value (Suc m) (cells st) (FItem key it) k = (Inr s, k')" by (simp add: new_list_def)
qed

lemma packs_item:
  "packs (Suc m) st (FItem key it) e \<Longrightarrow> \<exists>k x s. e = SList k [x, s] \<and> atom_sexp key x \<and> packs m st it s"
  by (force simp: packs_def new_list_def bindS_Inr atom_sexp_def)

lemma pack_total_items:
  "length ks = length its \<Longrightarrow> list_all (pack_total m st) its \<Longrightarrow> list_all (pack_total (Suc m) st) (map2 FItem ks its)"
  by (auto simp: list_all_iff set_zip pack_total_item)

lemma packs_items:
  assumes "length ks = length its" "list_all2 (packs (Suc m) st) (map2 FItem ks its) es"
  obtains ss where "list_all2 (packs m st) its ss" "pairs_sexp ks ss es"
proof -
  have len: "length es = length its" using assms list_all2_lengthD by fastforce
  have "\<exists>s. packs m st (its ! j) s \<and> (\<exists>k x. es ! j = SList k [x, s] \<and> atom_sexp (ks ! j) x)" if "j < length its" for j
    using assms that len packs_item [of m st "ks ! j" "its ! j" "es ! j"] by (auto simp: list_all2_conv_all_nth)
  then obtain g where g: "\<And>j. j < length its \<Longrightarrow>
      packs m st (its ! j) (g j) \<and> (\<exists>k x. es ! j = SList k [x, g j] \<and> atom_sexp (ks ! j) x)" by metis
  show ?thesis
    by (rule that [of "map g [0..<length its]"])
      (use g len assms(1) in \<open>auto simp: list_all2_conv_all_nth pairs_sexp_def\<close>)
qed

text \<open>A container, packed one level at a time.\<close>

lemma pack_total_cell:
  "cells st ! c = CPacked p items \<Longrightarrow> list_all (pack_total m st) items \<Longrightarrow> pack_total (Suc m) st (FCell c)"
  using packs_list by (fastforce simp: pack_total_def new_list_def bindS_Inr)

lemma packs_cell:
  assumes "cells st ! c = CPacked p items" "packs (Suc m) st (FCell c) s"
  obtains k xs where "s = SList k (packer_atoms p @ xs)" "list_all2 (packs m st) items xs"
  using assms by (auto simp: packs_def new_list_def bindS_Inr dest: packs_results)

lemma pack_total_reference:
  "cells st ! c = CReference r c' \<Longrightarrow> pack_total m st (FCell c') \<Longrightarrow> pack_total (Suc m) st (FCell c)"
  by (fastforce simp: pack_total_def new_list_def bindS_Inr)

lemma packs_reference:
  assumes "cells st ! c = CReference r c'" "packs (Suc m) st (FCell c) s"
  obtains k x where "s = SList k [SStr ''reference'', SInt (int r), x]" "packs m st (FCell c') x"
  using assms by (auto simp: packs_def new_list_def bindS_Inr)


lemma node_cell:
  assumes "node st i = Some (p, items)"
  obtains c where "map_of (preserved st) i = Some c" "cells st ! c = CPacked p items"
  using assms by (auto simp: node_def split: option.splits cell.splits)

lemma node_top:
  "node st f = Some (p, items) \<Longrightarrow> map_of (references st) f = None \<Longrightarrow> cells st ! first_cell st f = CPacked p items"
  by (auto simp: node_def first_cell_def split: option.splits cell.splits)

text \<open>The content of a node below its own container takes at most two levels.\<close>

lemma pack_total_content:
  assumes "node_items st h x (p, items) ks" "length ks = length (kids x)" "\<And>m. b < m \<Longrightarrow> list_all (pack_total m st) ks" "b + 2 < m"
  shows "list_all (pack_total m st) items"
proof -
  obtain m' where m: "m = Suc (Suc m')" "b < m'" using assms(4) by (cases m; cases "m - 1") auto
  show ?thesis
  proof (cases x)
    case (PInst n attrs)
    then obtain f where f: "items = [FName n, FCell (first_cell st f)]" "map_of (references st) f = None"
      "node st f = Some (PackDict, map2 FItem (map fst (snapshot attrs)) ks)"
      using assms(1) by auto
    have "list_all (pack_total m' st) ks" using assms(3) m by simp
    then have "list_all (pack_total (Suc m') st) (map2 FItem (map fst (snapshot attrs)) ks)"
      using assms(2) PInst by (intro pack_total_items) auto
    then have "pack_total m st (FCell (first_cell st f))"
      unfolding m(1) using node_top [OF f(3,2)] by (intro pack_total_cell)
    moreover have "pack_total m st (FName n)" by (simp add: m pack_total_def)
    ultimately show ?thesis by (simp add: f)
  next
    case (PDict d)
    have "list_all (pack_total (Suc m') st) ks" using assms(3) m by simp
    then show ?thesis using assms(1,2) PDict m by (auto intro: pack_total_items)
  qed (use assms m in auto)
qed

lemma packs_content:
  assumes "node_items st h x (p, items) ks" "length ks = length (kids x)" "list_all2 (packs m st) items xs" "b + 2 < m"
  shows "\<exists>m' ss. b < m' \<and> list_all2 (packs m' st) ks ss \<and> node_sexp x (SList k (packer_atoms p @ xs)) ss"
proof -
  obtain m' where m: "m = Suc (Suc m')" "b < m'" using assms(4) by (cases m; cases "m - 1") auto
  show ?thesis
  proof (cases x)
    case (PInst n attrs)
    then obtain f where f: "p = PackInstance" "items = [FName n, FCell (first_cell st f)]" "map_of (references st) f = None"
      "node st f = Some (PackDict, map2 FItem (map fst (snapshot attrs)) ks)"
      using assms(1) by auto
    with assms(3) obtain s1 s2 where xs: "xs = [s1, s2]" "packs m st (FName n) s1" "packs m st (FCell (first_cell st f)) s2"
      by (auto simp: list_all2_Cons1)
    have s1: "s1 = SStr n" using xs(2) by (auto simp: packs_def m)
    obtain k' es where s2: "s2 = SList k' (packer_atoms PackDict @ es)"
      "list_all2 (packs (Suc m') st) (map2 FItem (map fst (snapshot attrs)) ks) es"
      by (rule packs_cell [OF node_top [OF f(4,3)] xs(3) [unfolded m(1)]])
    obtain ss where "list_all2 (packs m' st) ks ss" "pairs_sexp (map fst (snapshot attrs)) ss es"
      by (rule packs_items [OF _ s2(2)]) (use assms(2) PInst in auto)
    then show ?thesis using m(2) s1 s2 xs f PInst by auto
  next
    case (PDict d)
    obtain ss where "list_all2 (packs (Suc m') st) ks ss" "pairs_sexp (map fst d) ss xs"
      by (rule packs_items [of "map fst d" ks "Suc m'" st xs]) (use assms m PDict in auto)
    then show ?thesis using m(2) assms(1) PDict by (intro exI [of _ "Suc m'"]) auto
  qed (use assms m in \<open>auto intro!: exI [of _ m]\<close>)
qed

lemma linked_top:
  assumes "linked st" "node st i = Some (p, items)"
  obtains c where "cells st ! c = CPacked p items"
    "case map_of (refids st) i of None \<Rightarrow> first_cell st i = c | Some r \<Rightarrow> cells st ! first_cell st i = CReference r c"
proof -
  obtain c where c: "map_of (preserved st) i = Some c" "cells st ! c = CPacked p items"
    using assms(2) by (rule node_cell)
  have "case map_of (refids st) i of None \<Rightarrow> first_cell st i = c | Some r \<Rightarrow> cells st ! first_cell st i = CReference r c"
  proof (cases "map_of (refids st) i")
    case None
    then have "map_of (references st) i = None" using assms(1) by (auto simp: linked_def split: option.splits dest!: spec [of _ i])
    with None c(1) show ?thesis by (simp add: first_cell_def)
  next
    case (Some r)
    have "case map_of (refids st) i of None \<Rightarrow> map_of (references st) i = None
      | Some r \<Rightarrow> \<exists>c. map_of (preserved st) i = Some c \<and> cells st ! first_cell st i = CReference r c"
      using assms(1) unfolding linked_def by blast
    with Some c(1) show ?thesis by simp
  qed
  with c that show ?thesis by blast
qed

lemma pack_total_node:
  assumes "linked st" "node st i = Some x" "node_items st h (h ! i) x ks" "length ks = length (kids (h ! i))"
    "\<And>m. b < m \<Longrightarrow> list_all (pack_total m st) ks" "b + 4 < m"
  shows "pack_total m st (FCell (first_cell st i))"
proof -
  obtain p items where x: "x = (p, items)" by (cases x)
  obtain m' where m: "m = Suc (Suc m')" "b + 2 < m'" using assms(6) by (cases m; cases "m - 1") auto
  obtain c where c: "cells st ! c = CPacked p items"
    "case map_of (refids st) i of None \<Rightarrow> first_cell st i = c | Some r \<Rightarrow> cells st ! first_cell st i = CReference r c"
    using linked_top assms(1,2) x by metis
  have content: "pack_total (Suc n) st (FCell c)" if "b + 2 < n" for n
    by (rule pack_total_cell [OF c(1)], rule pack_total_content [OF assms(3) [unfolded x] assms(4)]) (use assms(5) that in auto)
  show ?thesis
  proof (cases "map_of (refids st) i")
    case None
    with content [of "Suc m'"] m c(2) show ?thesis by simp
  next
    case (Some r)
    then have "cells st ! first_cell st i = CReference r c" using c(2) by simp
    then show ?thesis unfolding m(1) by (rule pack_total_reference) (use content m(2) in simp)
  qed
qed

lemma packs_node:
  assumes "linked st" "node st i = Some x" "node_items st h (h ! i) x ks" "length ks = length (kids (h ! i))"
    "packs m st (FCell (first_cell st i)) s" "b + 4 < m"
  shows "\<exists>m' s0 ss. b < m' \<and> wrapped (map_of (refids st) i) s0 s \<and> node_sexp (h ! i) s0 ss \<and> list_all2 (packs m' st) ks ss"
proof -
  obtain p items where x: "x = (p, items)" by (cases x)
  obtain m' where m: "m = Suc (Suc m')" "b + 2 < m'" using assms(6) by (cases m; cases "m - 1") auto
  obtain c where c: "cells st ! c = CPacked p items"
    "case map_of (refids st) i of None \<Rightarrow> first_cell st i = c | Some r \<Rightarrow> cells st ! first_cell st i = CReference r c"
    using linked_top assms(1,2) x by metis
  have content: "\<exists>m' ss. b < m' \<and> list_all2 (packs m' st) ks ss \<and> node_sexp (h ! i) s0 ss"
    if s0: "packs (Suc n) st (FCell c) s0" and n: "b + 2 < n" for n s0
  proof -
    obtain k xs where "s0 = SList k (packer_atoms p @ xs)" "list_all2 (packs n st) items xs"
      using c(1) s0 by (rule packs_cell)
    with packs_content [OF assms(3) [unfolded x] assms(4) _ n] show ?thesis by blast
  qed
  show ?thesis
  proof (cases "map_of (refids st) i")
    case None
    with content [of "Suc m'" s] m c(2) assms(5) show ?thesis by (auto simp: wrapped_def)
  next
    case (Some r)
    then have "cells st ! first_cell st i = CReference r c" using c(2) by simp
    then obtain k y where y: "s = SList k [SStr ''reference'', SInt (int r), y]" "packs (Suc m') st (FCell c) y"
      using assms(5) unfolding m(1) by (rule packs_reference)
    with content [OF y(2) m(2)] Some show ?thesis by (auto simp: wrapped_def)
  qed
qed

lemma pack_total_leaf: "0 < m \<Longrightarrow> pack_total m st (FAtom a)" "0 < m \<Longrightarrow> pack_total m st (FDeref r)"
  using pack_atom_total by (cases m; simp add: pack_total_def new_list_def)+

lemma packs_leaf:
  "packs m st (FAtom a) s \<Longrightarrow> atom_sexp a s"
  "packs m st (FDeref r) s \<Longrightarrow> \<exists>k. s = SList k [SStr ''dereference'', SInt (int r)]"
  by (cases m; auto simp: packs_def new_list_def intro: atom_sexpI)+

text \<open>Packing turns what has been flattened into s-expressions that encode the same values.\<close>

lemma pack_flattened:
  assumes "flat_enc st h V vs its V'" "linked st"
  shows "4 * card (V' - V) < m \<Longrightarrow> list_all (pack_total m st) its"
    and "4 * card (V' - V) < m \<Longrightarrow> list_all2 (packs m st) its ss \<Longrightarrow> sexp_enc (map_of (refids st)) h V vs ss V'"
  using assms(1)
proof (induction arbitrary: m ss rule: flat_enc.induct)
  case (Nil V)
  { case 1 then show ?case by simp next case 2 then show ?case by (auto intro: sexp_enc.Nil) }
next
  case (Atom V vs its V' a)
  { case 1 then show ?case using Atom.IH(1) by (simp add: pack_total_leaf)
  next case 2 then show ?case using Atom.IH(2) by (auto simp: list_all2_Cons1 intro!: sexp_enc.Atom dest: packs_leaf) }
next
  case (Back i V r vs its V')
  { case 1 then show ?case using Back by (simp add: pack_total_leaf)
  next case 2 then show ?case using Back by (auto simp: list_all2_Cons1 intro!: sexp_enc.Back dest!: packs_leaf(2)) }
next
  case (Node i V x ks V1 vs its V')
  have V: "insert i V \<subseteq> V1" "V1 \<subseteq> V'" "length ks = length (kids (h ! i))"
    "V1 - insert i V \<subseteq> {..<length h}" "V' - V1 \<subseteq> {..<length h}"
    using flat_enc_visited [OF Node.hyps(5)] flat_enc_visited [OF Node.hyps(6)] by auto
  then have "finite (V1 - insert i V)" "finite (V' - V1)" using finite_subset by blast+
  note V = V this
  have "V' - V = insert i ((V1 - insert i V) \<union> (V' - V1))" using V Node.hyps(1) by auto
  moreover have "card (insert i ((V1 - insert i V) \<union> (V' - V1))) = Suc (card (V1 - insert i V) + card (V' - V1))"
  proof -
    have "card ((V1 - insert i V) \<union> (V' - V1)) = card (V1 - insert i V) + card (V' - V1)"
      by (rule card_Un_disjoint) (use V in auto)
    moreover have "i \<notin> (V1 - insert i V) \<union> (V' - V1)" using V(1) by auto
    ultimately show ?thesis using V(6,7) by (simp del: Un_Diff_cancel Un_Diff_cancel2)
  qed
  ultimately have c: "card (V' - V) = Suc (card (V1 - insert i V) + card (V' - V1))" by simp
  { case 1
    have "pack_total m st (FCell (first_cell st i))"
      by (rule pack_total_node [OF assms(2) Node.hyps(3,4) V(3), where b = "4 * card (V1 - insert i V)"])
        (use Node.IH(1) 1 c in auto)
    then show ?case using Node.IH(3) 1 c by simp
  next
    case 2
    then obtain s ss' where ss: "ss = s # ss'" "packs m st (FCell (first_cell st i)) s" "list_all2 (packs m st) its ss'"
      by (auto simp: list_all2_Cons1)
    obtain m' s0 ks' where "4 * card (V1 - insert i V) < m'" "wrapped (map_of (refids st) i) s0 s"
      "node_sexp (h ! i) s0 ks'" "list_all2 (packs m' st) ks ks'"
      using packs_node [OF assms(2) Node.hyps(3,4) V(3) ss(2), of "4 * card (V1 - insert i V)"] 2 c by auto
    moreover have "sexp_enc (map_of (refids st)) h V1 vs ss' V'" using Node.IH(4) [of m ss'] ss(3) 2 c by simp
    ultimately show ?case using Node.IH(2) Node.hyps(1,2) unfolding ss(1) by (blast intro: sexp_enc.Node) }
qed

end
