(* ===== verification/Flattening.thy ===== *)
theory Flattening
  imports ObjectGraph
begin

text \<open>
  The containers of the serializer: what \<open>prepare\<close> and \<open>preserve\<close> do to the node of an object, to the
  container of its first visit and to its reference, and that \<open>flatten_value\<close> succeeds on
  every heap, circular or not, with items that encode the values.
\<close>

section \<open>The containers\<close>

definition cells_below :: "flattener \<Rightarrow> bool" where
  "cells_below st \<longleftrightarrow>
     (\<forall>i c. map_of (preserved st) i = Some c \<longrightarrow> c < length (cells st)) \<and>
     (\<forall>i c. map_of (references st) i = Some c \<longrightarrow> c < length (cells st))"

definition cells_apart :: "flattener \<Rightarrow> bool" where
  "cells_apart st \<longleftrightarrow>
     (\<forall>i j c. map_of (preserved st) i = Some c \<longrightarrow> map_of (preserved st) j = Some c \<longrightarrow> i = j) \<and>
     (\<forall>i j c. map_of (references st) i = Some c \<longrightarrow> map_of (references st) j = Some c \<longrightarrow> i = j) \<and>
     (\<forall>i j c. map_of (preserved st) i = Some c \<longrightarrow> map_of (references st) j \<noteq> Some c)"

definition refs_known :: "nat \<Rightarrow> flattener \<Rightarrow> bool" where
  "refs_known N st \<longleftrightarrow>
     (\<forall>i. map_of (references st) i = None \<longleftrightarrow> map_of (refids st) i = None) \<and>
     (\<forall>i r. map_of (refids st) i = Some r \<longrightarrow> i < N \<and> map_of (preserved st) i \<noteq> None \<and> r \<le> last_refid st) \<and>
     (\<forall>i j r. map_of (refids st) i = Some r \<longrightarrow> map_of (refids st) j = Some r \<longrightarrow> i = j)"

definition refs_placed :: "flattener \<Rightarrow> bool" where
  "refs_placed st \<longleftrightarrow>
     (\<forall>i t r c. map_of (references st) i = Some t \<longrightarrow> map_of (refids st) i = Some r \<longrightarrow>
        map_of (preserved st) i = Some c \<longrightarrow> cells st ! t = CReference r c)"

definition fresh_ok :: "nat \<Rightarrow> flattener \<Rightarrow> bool" where
  "fresh_ok N st \<longleftrightarrow> N \<le> fresh st \<and> (\<forall>i c. map_of (preserved st) i = Some c \<longrightarrow> i < fresh st)"

definition flat_ok :: "nat \<Rightarrow> flattener \<Rightarrow> bool" where
  "flat_ok N st \<longleftrightarrow> cells_below st \<and> cells_apart st \<and> refs_known N st \<and> refs_placed st \<and> fresh_ok N st"

lemmas flat_ok_defs = flat_ok_def cells_below_def cells_apart_def refs_known_def refs_placed_def fresh_ok_def

definition seen :: "flattener \<Rightarrow> nat \<Rightarrow> bool" where
  "seen st i \<longleftrightarrow> map_of (preserved st) i \<noteq> None"

text \<open>Later states: objects that have been seen keep their node and the container of their first visit.\<close>

definition later :: "flattener \<Rightarrow> flattener \<Rightarrow> bool" where
  "later st st' \<longleftrightarrow>
     (\<forall>i. seen st i \<longrightarrow> seen st' i \<and> node st' i = node st i \<and> first_cell st' i = first_cell st i) \<and>
     (\<forall>i r. map_of (refids st) i = Some r \<longrightarrow> map_of (refids st') i = Some r)"

lemma later_refl [simp]: "later st st" by (simp add: later_def)

lemma later_trans: "later s t \<Longrightarrow> later t u \<Longrightarrow> later s u" by (simp add: later_def)

lemma flat_ok_reset: "flat_ok n (flattener_reset n)"
  by (simp add: flat_ok_defs flattener_reset_def)

lemma flat_ok_fresh: "flat_ok N st \<Longrightarrow> flat_ok N (st\<lparr>fresh := fresh st + 1\<rparr>)"
proof -
  assume "flat_ok N st"
  then show ?thesis
    unfolding flat_ok_def by (auto simp: cells_below_def cells_apart_def refs_known_def refs_placed_def fresh_ok_def intro: less_SucI)
qed

lemma not_seen_fresh: "flat_ok N st \<Longrightarrow> \<not> seen st (fresh st)"
  by (auto simp: flat_ok_defs seen_def)

lemma flat_ok_linked: "flat_ok N st \<Longrightarrow> linked st"
  unfolding linked_def
proof
  fix i
  assume ok: "flat_ok N st"
  show "case map_of (refids st) i of None \<Rightarrow> map_of (references st) i = None
    | Some r \<Rightarrow> \<exists>c. map_of (preserved st) i = Some c \<and> cells st ! first_cell st i = CReference r c"
  proof (cases "map_of (refids st) i")
    case None
    then show ?thesis using ok by (simp add: flat_ok_def refs_known_def)
  next
    case (Some r)
    then obtain c t where "map_of (preserved st) i = Some c" "map_of (references st) i = Some t"
      using ok unfolding flat_ok_def refs_known_def by (metis not_Some_eq)
    moreover from this Some have "cells st ! t = CReference r c"
      using ok by (simp add: flat_ok_def refs_placed_def)
    ultimately show ?thesis using Some by (simp add: first_cell_def)
  qed
qed

lemma no_reference_outside: "flat_ok N st \<Longrightarrow> N \<le> f \<Longrightarrow> map_of (references st) f = None"
  unfolding flat_ok_def refs_known_def by (metis not_Some_eq not_le)

section \<open>Meeting an object\<close>

lemma prepare_new:
  assumes "flat_ok N st" "\<not> seen st i" "i < fresh st"
  obtains st' where "prepare i st = (None, st')" "flat_ok N st'" "later st st'" "node st' i = None"
    "seen st' = (seen st)(i := True)" "fresh st' = fresh st"
proof -
  define st' where "st' = st\<lparr>cells := cells st @ [CEmpty], preserved := AList.update i (length (cells st)) (preserved st)\<rparr>"
  have i: "map_of (preserved st) i = None" using assms(2) by (simp add: seen_def)
  have below: "cells_below st'" using assms(1) by (auto simp: flat_ok_defs st'_def dict_simps intro: less_SucI)
  have apart: "cells_apart st'" using assms(1) by (fastforce simp: flat_ok_defs st'_def dict_simps)
  have known: "refs_known N st'" using assms(1) by (auto simp: flat_ok_def refs_known_def st'_def dict_simps)
  have ri: "map_of (refids st) i = None" using assms(1) i unfolding flat_ok_def refs_known_def by (metis not_Some_eq)
  have placed: "refs_placed st'"
    using assms(1) ri by (auto simp: flat_ok_def refs_placed_def cells_below_def st'_def dict_simps nth_append)
  have fresh: "fresh_ok N st'" using assms(1,3) by (auto simp: flat_ok_def fresh_ok_def st'_def dict_simps)
  have ok: "flat_ok N st'" using below apart known placed fresh by (simp add: flat_ok_def)
  have "later st st'"
    using assms(1) i by (auto simp: later_def seen_def node_def first_cell_def flat_ok_def cells_below_def st'_def
        dict_simps nth_append split: option.splits)
  moreover have "node st' i = None" by (simp add: node_def st'_def dict_simps)
  moreover have "seen st' = (seen st)(i := True)" by (rule ext) (simp add: seen_def st'_def dict_simps)
  moreover have "prepare i st = (None, st')" using i by (simp add: prepare_def st'_def)
  moreover have "fresh st' = fresh st" by (simp add: st'_def)
  ultimately show ?thesis using ok that by blast
qed

lemma prepare_seen:
  assumes "flat_ok N st" "seen st i" "i < N"
  obtains r st' where "prepare i st = (Some (FDeref r), st')" "flat_ok N st'" "later st st'"
    "map_of (refids st') i = Some r" "seen st' = seen st" "fresh st' = fresh st"
proof -
  obtain c where c: "map_of (preserved st) i = Some c" using assms(2) by (auto simp: seen_def)
  show ?thesis
  proof (cases "map_of (refids st) i")
    case (Some r)
    then show ?thesis using that [of r st] assms c by (simp add: prepare_def)
  next
    case None
    define n where "n = length (cells st)"
    define r where "r = last_refid st + 1"
    define st' where "st' = st\<lparr>cells := (cells st)[c := CReference r n] @ [cells st ! c], last_refid := r,
      refids := AList.update i r (refids st), references := AList.update i c (references st),
      preserved := AList.update i n (preserved st)\<rparr>"
    have fields: "map_of (preserved st') = (map_of (preserved st))(i \<mapsto> n)" "map_of (refids st') = (map_of (refids st))(i \<mapsto> r)"
      "map_of (references st') = (map_of (references st))(i \<mapsto> c)"
      "cells st' = (cells st)[c := CReference r n] @ [cells st ! c]" "last_refid st' = r" "fresh st' = fresh st"
      by (auto simp: st'_def dict_simps)
    have cn: "c < n" using assms(1) c by (simp add: flat_ok_def cells_below_def n_def)
    have ni: "map_of (references st) i = None" using assms(1) None by (simp add: flat_ok_def refs_known_def)
    have other: "map_of (preserved st) j \<noteq> Some c" if "j \<noteq> i" for j
      using assms(1) c that by (auto simp: flat_ok_def cells_apart_def)
    have notref: "map_of (references st) j \<noteq> Some c" for j
      using assms(1) c by (auto simp: flat_ok_def cells_apart_def)
    have lt: "map_of (preserved st) j = Some x \<Longrightarrow> x < n" "map_of (references st) j = Some x \<Longrightarrow> x < n" for j x
      using assms(1) by (auto simp: flat_ok_def cells_below_def n_def)
    have below: "cells_below st'"
      using lt cn by (auto simp: cells_below_def fields n_def [symmetric] intro: less_SucI)
    have apart: "cells_apart st'"
      using assms(1) lt other notref cn unfolding flat_ok_def cells_apart_def fields
      by (auto simp: fun_upd_apply)
    have rlt: "x < r" if "map_of (refids st) j = Some x" for j x
      using assms(1) that by (auto simp: flat_ok_def refs_known_def r_def less_Suc_eq_le)
    have known: "refs_known N st'"
      using assms(1,3) c None rlt unfolding flat_ok_def refs_known_def fields
      by (auto simp: fun_upd_apply intro: less_imp_le)
    have placed: "refs_placed st'"
      using assms(1) lt notref ni None unfolding flat_ok_def refs_placed_def fields
      by (auto simp: fun_upd_apply nth_append n_def [symmetric] nth_list_update cn)
    have fresh: "fresh_ok N st'" using assms(1,3) c by (auto simp: flat_ok_def fresh_ok_def fields)
    have ok: "flat_ok N st'" using below apart known placed fresh by (simp add: flat_ok_def)
    have keep: "cells st' ! x = cells st ! x" if "map_of (preserved st) j = Some x" "j \<noteq> i" for j x
      using lt(1) [OF that(1)] other [OF that(2)] that(1) by (auto simp: fields nth_append n_def [symmetric])
    have last: "cells st' ! n = cells st ! c" by (simp add: fields nth_append n_def)
    have later: "later st st'"
      using None ni keep last c
      by (auto simp: later_def seen_def node_def first_cell_def fields(1-3) split: option.splits)
    have "seen st' = seen st" using c by (intro ext) (simp add: seen_def fields)
    moreover have "prepare i st = (Some (FDeref r), st')"
      using c None by (simp add: prepare_def st'_def n_def r_def Let_def)
    ultimately show ?thesis using ok later fields that by auto
  qed
qed

lemma preserve_node:
  assumes "flat_ok N st" "seen st i"
  obtains st' where "preserve i p items st = (Inr (FCell (first_cell st i)), st')" "flat_ok N st'"
    "node st' i = Some (p, items)" "\<And>j. j \<noteq> i \<Longrightarrow> node st' j = node st j"
    "first_cell st' = first_cell st" "seen st' = seen st" "refids st' = refids st" "fresh st' = fresh st"
proof -
  obtain c where c: "map_of (preserved st) i = Some c" using assms(2) by (auto simp: seen_def)
  define st' where "st' = st\<lparr>cells := (cells st)[c := CPacked p items]\<rparr>"
  have cn: "c < length (cells st)" using assms(1) c by (simp add: flat_ok_def cells_below_def)
  have "flat_ok N st'"
    using assms(1) c by (auto simp: flat_ok_defs st'_def nth_list_update)
  moreover have "node st' i = Some (p, items)" using c cn by (simp add: node_def st'_def)
  moreover have "node st' j = node st j" if "j \<noteq> i" for j
  proof (cases "map_of (preserved st) j")
    case (Some x)
    then have "x \<noteq> c" using assms(1) c that by (auto simp: flat_ok_def cells_apart_def)
    with Some show ?thesis by (simp add: node_def st'_def)
  qed (simp add: node_def st'_def)
  moreover have "first_cell st' = first_cell st" by (rule ext) (simp add: first_cell_def st'_def split: option.split)
  moreover have "preserve i p items st = (Inr (FCell (first_cell st i)), st')"
    using c by (simp add: preserve_def st'_def first_cell_def split: option.split)
  ultimately show ?thesis using that by (simp add: st'_def seen_def [abs_def])
qed

section \<open>Encodings survive\<close>

lemma node_seen: "node st i = Some x \<Longrightarrow> seen st i"
  by (auto simp: node_def seen_def split: option.splits)

lemma node_items_cong:
  assumes "node_items st h x y its" "flat_ok (length h) st'"
    and "\<And>f z. node st f = Some z \<Longrightarrow> node st' f = Some z \<and> first_cell st' f = first_cell st f"
  shows "node_items st' h x y its"
proof (cases x)
  case (PInst n attrs)
  then obtain f where f: "length h \<le> f" "y = (PackInstance, [FName n, FCell (first_cell st f)])"
    "node st f = Some (PackDict, map2 FItem (map fst (snapshot attrs)) its)"
    using assms(1) by auto
  with assms(3) [OF f(3)] no_reference_outside [OF assms(2) f(1)] PInst show ?thesis by auto
qed (use assms(1) in auto)

lemma node_items_later:
  "node_items st h x y its \<Longrightarrow> later st st' \<Longrightarrow> flat_ok (length h) st' \<Longrightarrow> node_items st' h x y its"
  by (rule node_items_cong, assumption+) (metis later_def node_seen)

text \<open>Nothing that has been encoded depends on a node that was still empty.\<close>

lemma node_items_fill:
  assumes "node_items s h x y its" "flat_ok (length h) st'" "node s i = None"
    "\<And>j. j \<noteq> i \<Longrightarrow> node st' j = node s j" "first_cell st' = first_cell s"
  shows "node_items st' h x y its"
  by (rule node_items_cong [OF assms(1,2)]) (metis assms(3-5) not_None_eq)

lemma flat_enc_fill:
  assumes "flat_enc s h V vs its V'" "flat_ok (length h) st'" "node s i = None"
    "\<And>j. j \<noteq> i \<Longrightarrow> node st' j = node s j" "first_cell st' = first_cell s" "refids st' = refids s"
  shows "flat_enc st' h V vs its V'"
  using assms(1)
proof (induction rule: flat_enc.induct)
  case (Node j V x ks V1 vs its V')
  then have "j \<noteq> i" using assms(3) by auto
  with Node node_items_fill [OF Node.hyps(4) assms(2-5)] show ?case
    using assms(4,5) by (metis flat_enc.Node)
qed (auto intro: flat_enc.intros simp: assms(6))

lemma flat_enc_later:
  assumes "flat_enc st h V vs its V'" "later st st'" "flat_ok (length h) st'"
  shows "flat_enc st' h V vs its V'"
  using assms(1)
proof (induction rule: flat_enc.induct)
  case (Back i V r vs its V')
  then show ?case using assms(2) by (auto simp: later_def intro: flat_enc.Back)
next
  case (Node i V x ks V1 vs its V')
  then have "node st' i = Some x" "first_cell st' i = first_cell st i"
    using assms(2) node_seen by (simp_all add: later_def)
  with Node node_items_later [OF _ assms(2,3)] show ?case by (metis flat_enc.Node)
qed (auto intro: flat_enc.intros)


section \<open>Flattening succeeds\<close>

definition all_caps :: "converter \<Rightarrow> bool" where
  "all_caps C \<longleftrightarrow> set default_converter_caps \<subseteq> set (caps C)"

lemma all_capsD: "all_caps C \<Longrightarrow> check_capabilities cap C s = (Inr (), s)"
  by (cases cap) (auto simp: all_caps_def default_converter_caps_def check_capabilities_def)

text \<open>The objects of the heap that have been seen.\<close>

definition visited :: "nat \<Rightarrow> flattener \<Rightarrow> nat set" where
  "visited N st = {i. i < N \<and> seen st i}"

text \<open>A list of values has been flattened: the items, the new state and what they encode.\<close>

definition flattened :: "pobj list \<Rightarrow> pyv list \<Rightarrow> flattener \<Rightarrow> (flat_item list, flattener) attempt \<Rightarrow> bool" where
  "flattened h vs st m \<longleftrightarrow>
     (\<exists>its st'. m = (Inr its, st') \<and> flat_ok (length h) st' \<and> later st st' \<and>
        flat_enc st' h (visited (length h) st) vs its (visited (length h) st'))"

lemma flat_enc_append:
  "flat_enc st h V vs its V1 \<Longrightarrow> flat_enc st h V1 ws jts V' \<Longrightarrow> flat_enc st h V (vs @ ws) (its @ jts) V'"
  by (induction rule: flat_enc.induct) (auto intro: flat_enc.intros)

lemma later_visited: "later st st' \<Longrightarrow> visited N st \<subseteq> visited N st'"
  by (auto simp: visited_def later_def)

text \<open>One value after the other.\<close>

lemma flattened_list:
  assumes "flat_ok (length h) st"
    and step: "\<And>v s. v \<in> set vs \<Longrightarrow> flat_ok (length h) s \<Longrightarrow> later st s \<Longrightarrow>
      \<exists>it s'. f v s = (Inr it, s') \<and> flattened h [v] s (Inr [it], s')"
  shows "flattened h vs st (mapS f vs st)"
  using assms
proof (induction vs arbitrary: st)
  case Nil
  then show ?case by (simp add: flattened_def flat_enc.Nil)
next
  case (Cons v vs)
  obtain it s1 where 1: "f v st = (Inr it, s1)" "flattened h [v] st (Inr [it], s1)"
    using Cons.prems(2) [of v st] Cons.prems(1) by auto
  then have ok: "flat_ok (length h) s1" "later st s1" by (auto simp: flattened_def)
  have "flattened h vs s1 (mapS f vs s1)"
  proof (rule Cons.IH [OF ok(1)])
    fix v s assume "v \<in> set vs" "flat_ok (length h) s" "later s1 s"
    then show "\<exists>it s'. f v s = (Inr it, s') \<and> flattened h [v] s (Inr [it], s')"
      using Cons.prems(2) later_trans [OF ok(2)] by simp
  qed
  then obtain its s2 where 2: "mapS f vs s1 = (Inr its, s2)" "flat_ok (length h) s2" "later s1 s2"
    "flat_enc s2 h (visited (length h) s1) vs its (visited (length h) s2)"
    by (auto simp: flattened_def)
  have "flat_enc s2 h (visited (length h) st) [v] [it] (visited (length h) s1)"
    using flat_enc_later 1(2) 2(2,3) by (fastforce simp: flattened_def)
  from flat_enc_append [OF this 2(4)] 1(1) 2 ok(2) later_trans show ?case
    by (auto simp: flattened_def)
qed

text \<open>A new object: its container is prepared, its content flattened, the container filled.\<close>

lemma flattened_node:
  assumes "flat_ok (length h) st" "\<not> seen st i" "i < length h"
    and content: "\<And>s. flat_ok (length h) s \<Longrightarrow> later st s \<Longrightarrow> seen s i \<Longrightarrow> visited (length h) s = insert i (visited (length h) st) \<Longrightarrow>
      \<exists>items ks s'. elements s = (Inr items, s') \<and> flat_ok (length h) s' \<and> later s s' \<and>
        node_items s' h (h ! i) (p, items) ks \<and>
        flat_enc s' h (visited (length h) s) (kids (h ! i)) ks (visited (length h) s')"
  obtains st1 items s1 st' where "prepare i st = (None, st1)" "elements st1 = (Inr items, s1)"
    "preserve i p items s1 = (Inr (FCell (first_cell st' i)), st')"
    "flattened h [Obj i] st (Inr [FCell (first_cell st' i)], st')"
proof -
  have "i < fresh st" using assms(1,3) by (simp add: flat_ok_def fresh_ok_def)
  then obtain st1 where 1: "prepare i st = (None, st1)" "flat_ok (length h) st1" "later st st1" "node st1 i = None"
    "seen st1 = (seen st)(i := True)"
    using prepare_new [OF assms(1,2)] by metis
  have v1: "visited (length h) st1 = insert i (visited (length h) st)"
    using 1(5) assms(3) by (auto simp: visited_def)
  obtain items ks s1 where 2: "elements st1 = (Inr items, s1)" "flat_ok (length h) s1" "later st1 s1"
    "node_items s1 h (h ! i) (p, items) ks"
    "flat_enc s1 h (visited (length h) st1) (kids (h ! i)) ks (visited (length h) s1)"
    using content [OF 1(2,3) _ v1] 1(5) by auto
  have s1: "seen s1 i" "node s1 i = None" using 2(3) 1(4,5) by (auto simp: later_def)
  obtain st' where 3: "preserve i p items s1 = (Inr (FCell (first_cell s1 i)), st')" "flat_ok (length h) st'"
    "node st' i = Some (p, items)" "\<And>j. j \<noteq> i \<Longrightarrow> node st' j = node s1 j" "first_cell st' = first_cell s1"
    "seen st' = seen s1" "refids st' = refids s1"
    using preserve_node [OF 2(2) s1(1)] by metis
  have l: "later st st'"
    using 1(3,5) 2(3) 3(4-7) assms(2) unfolding later_def by metis
  note fill = 3(2) s1(2) 3(4,5)
  have ni: "node_items st' h (h ! i) (p, items) ks" by (rule node_items_fill [OF 2(4) fill])
  note enc = flat_enc_fill [OF 2(5) fill 3(7)]
  have vis: "visited (length h) st' = visited (length h) s1" using 3(6) by (simp add: visited_def)
  have "i \<notin> visited (length h) st" using assms(2) by (simp add: visited_def)
  then have "flat_enc st' h (visited (length h) st) [Obj i] [FCell (first_cell st' i)] (visited (length h) st')"
    using enc ni 3(3) assms(3) v1 vis by (metis flat_enc.Node flat_enc.Nil)
  then have "flattened h [Obj i] st (Inr [FCell (first_cell st' i)], st')"
    using 3(2) l by (simp add: flattened_def)
  with that [OF 1(1) 2(1)] 3(1,5) show ?thesis by simp
qed

lemma flattened_seen:
  assumes "flat_ok (length h) st" "seen st i" "i < length h"
  obtains r st' where "prepare i st = (Some (FDeref r), st')" "flattened h [Obj i] st (Inr [FDeref r], st')"
proof -
  obtain r st' where p: "prepare i st = (Some (FDeref r), st')" "flat_ok (length h) st'" "later st st'"
    "map_of (refids st') i = Some r" "seen st' = seen st"
    using prepare_seen [OF assms] by metis
  have v: "visited (length h) st' = visited (length h) st" "i \<in> visited (length h) st"
    using p(5) assms(2,3) by (auto simp: visited_def)
  have "flat_enc st' h (visited (length h) st) [Obj i] [FDeref r] (visited (length h) st')"
    unfolding v(1) by (intro flat_enc.Back flat_enc.Nil v p)
  with p that show ?thesis by (simp add: flattened_def)
qed


lemma flattened_one:
  "flattened h [v] s (Inr [it], s') \<Longrightarrow> flat_ok (length h) s' \<and> later s s' \<and>
     flat_enc s' h (visited (length h) s) [v] [it] (visited (length h) s')"
  by (simp add: flattened_def)

text \<open>The items of a dictionary are those of its values, with the keys.\<close>

lemma mapS_items:
  assumes "all_caps C"
  shows "mapS (flatten_item C f) kvs s =
    (case mapS f (map snd kvs) s of
       (Inl e, s) \<Rightarrow> (Inl e, s)
     | (Inr its, s) \<Rightarrow> (Inr (map2 FItem (map fst kvs) its), s))"
proof (induction kvs arbitrary: s)
  case (Cons kv kvs)
  then show ?case
    by (auto simp: flatten_item_def all_capsD [OF assms] bindS_def split: prod.splits sum.splits)
qed simp

lemma flatten_referenceable_seen:
  assumes "flat_ok (length h) st" "seen st i" "i < length h"
  obtains it st' where "flatten_referenceable C i p cap elements st = (Inr it, st')" "flattened h [Obj i] st (Inr [it], st')"
proof -
  obtain r st' where "prepare i st = (Some (FDeref r), st')" "flattened h [Obj i] st (Inr [FDeref r], st')"
    using flattened_seen [OF assms] by metis
  then show ?thesis using that by (simp add: flatten_referenceable_def)
qed

lemma flatten_referenceable_new:
  assumes "all_caps C" "flat_ok (length h) st" "\<not> seen st i" "i < length h"
    and "\<And>s. flat_ok (length h) s \<Longrightarrow> later st s \<Longrightarrow> seen s i \<Longrightarrow> visited (length h) s = insert i (visited (length h) st) \<Longrightarrow>
      \<exists>items ks s'. elements s = (Inr items, s') \<and> flat_ok (length h) s' \<and> later s s' \<and>
        node_items s' h (h ! i) (p, items) ks \<and>
        flat_enc s' h (visited (length h) s) (kids (h ! i)) ks (visited (length h) s')"
  obtains it st' where "flatten_referenceable C i p cap elements st = (Inr it, st')" "flattened h [Obj i] st (Inr [it], st')"
proof -
  obtain st1 items s1 st' where *: "prepare i st = (None, st1)" "elements st1 = (Inr items, s1)"
    "preserve i p items s1 = (Inr (FCell (first_cell st' i)), st')"
    "flattened h [Obj i] st (Inr [FCell (first_cell st' i)], st')"
    by (rule flattened_node [where elements = elements and p = p, OF assms(2-4) assms(5)]) blast+
  then show ?thesis
    using that by (simp add: flatten_referenceable_def all_capsD [OF assms(1)])
qed

text \<open>The snapshot of an instance is a dictionary that has not been seen.\<close>

lemma flatten_snapshot:
  assumes "all_caps C" "flat_ok (length h) s"
    and kids: "\<And>s1. flat_ok (length h) s1 \<Longrightarrow> later s s1 \<Longrightarrow> visited (length h) s1 = visited (length h) s \<Longrightarrow>
      flattened h (map snd d) s1 (mapS f (map snd d) s1)"
  obtains dump s' ks where "flatten_dict C f (fresh s) d (s\<lparr>fresh := fresh s + 1\<rparr>) = (Inr dump, s')"
    "flat_ok (length h) s'" "later s s'"
    "\<exists>i \<ge> length h. dump = FCell (first_cell s' i) \<and> node s' i = Some (PackDict, map2 FItem (map fst d) ks)"
    "flat_enc s' h (visited (length h) s) (map snd d) ks (visited (length h) s')"
proof -
  let ?s0 = "s\<lparr>fresh := fresh s + 1\<rparr>" and ?i = "fresh s"
  have i: "length h \<le> ?i" using assms(2) by (simp add: flat_ok_def fresh_ok_def)
  have l0: "later s ?s0" by (simp add: later_def seen_def node_def first_cell_def split: option.split)
  have "\<not> seen ?s0 ?i" using not_seen_fresh [OF assms(2)] by (simp add: seen_def)
  then obtain s1 where 1: "prepare ?i ?s0 = (None, s1)" "flat_ok (length h) s1" "later ?s0 s1" "node s1 ?i = None"
    "seen s1 = (seen ?s0)(?i := True)"
    using prepare_new [OF flat_ok_fresh [OF assms(2)], of ?i] by auto
  have v1: "visited (length h) s1 = visited (length h) s"
    using 1(5) i by (auto simp: visited_def seen_def)
  obtain ks s2 where 2: "mapS f (map snd d) s1 = (Inr ks, s2)" "flat_ok (length h) s2" "later s1 s2"
    "flat_enc s2 h (visited (length h) s) (map snd d) ks (visited (length h) s2)"
    using kids [OF 1(2) later_trans [OF l0 1(3)] v1] v1 by (auto simp: flattened_def)
  have s2: "seen s2 ?i" "node s2 ?i = None" using 2(3) 1(4,5) by (auto simp: later_def)
  obtain s3 where 3: "preserve ?i PackDict (map2 FItem (map fst d) ks) s2 = (Inr (FCell (first_cell s2 ?i)), s3)"
    "flat_ok (length h) s3" "node s3 ?i = Some (PackDict, map2 FItem (map fst d) ks)"
    "\<And>j. j \<noteq> ?i \<Longrightarrow> node s3 j = node s2 j" "first_cell s3 = first_cell s2" "seen s3 = seen s2" "refids s3 = refids s2"
    using preserve_node [OF 2(2) s2(1)] by metis
  have ns: "\<not> seen s ?i" by (rule not_seen_fresh [OF assms(2)])
  have l: "later s s3"
    using later_trans [OF l0 later_trans [OF 1(3) 2(3)]] 3(4-7) ns unfolding later_def by metis
  note enc = flat_enc_fill [OF 2(4) 3(2) s2(2) 3(4,5,7)]
  have "visited (length h) s3 = visited (length h) s2" using 3(6) by (simp add: visited_def)
  then have e: "flat_enc s3 h (visited (length h) s) (map snd d) ks (visited (length h) s3)" using enc by simp
  have "flatten_dict C f ?i d ?s0 = (Inr (FCell (first_cell s3 ?i)), s3)"
    using 1(1) 2(1) 3(1,5) by (simp add: flatten_dict_def flatten_referenceable_def all_capsD [OF assms(1)] mapS_items [OF assms(1)])
  from that [OF this 3(2) l _ e] i 3(3) show ?thesis by blast
qed


definition unseen :: "nat \<Rightarrow> flattener \<Rightarrow> nat" where
  "unseen N st = card ({..<N} - visited N st)"

lemma unseen_later: "later st st' \<Longrightarrow> unseen N st' \<le> unseen N st"
  unfolding unseen_def by (intro card_mono) (use later_visited in auto)

lemma unseen_insert:
  "visited N s = insert i (visited N st) \<Longrightarrow> i < N \<Longrightarrow> \<not> seen st i \<Longrightarrow> unseen N s < unseen N st"
  unfolding unseen_def by (intro psubset_card_mono) (auto simp: visited_def)

lemma flatten_value_total:
  assumes "all_caps C" "heap_ok C h"
  shows "flat_ok (length h) st \<Longrightarrow> valid h v \<Longrightarrow> unseen (length h) st < n \<Longrightarrow>
    \<exists>it s'. flatten_value n C h v st = (Inr it, s') \<and> flattened h [v] st (Inr [it], s')"
proof (induction n arbitrary: st v)
  case (Suc n)
  show ?case
  proof (cases v)
    case (Atom a)
    then show ?thesis using Suc.prems(1)
      by (auto simp: all_capsD [OF assms(1)] flattened_def intro: flat_enc.intros)
  next
    case (Obj i)
    then have i: "i < length h" using Suc.prems(2) by (simp add: valid_def)
    note ok = heap_okD [OF assms(2) i]
    txt \<open>The content of a new object is flattened with one level less.\<close>
    have content: "flattened h (kids (h ! i)) s (mapS (flatten_value n C h) (kids (h ! i)) s)"
      if s: "flat_ok (length h) s" "visited (length h) s = insert i (visited (length h) st)" and new: "\<not> seen st i" for s
    proof (rule flattened_list [OF s(1)])
      fix w t assume w: "w \<in> set (kids (h ! i))" and t: "flat_ok (length h) t" "later s t"
      have "valid h w" using ok(2) w by (simp add: list_all_iff)
      moreover have "unseen (length h) t < n"
        using unseen_later [OF t(2), of "length h"] unseen_insert [OF s(2) i new] Suc.prems(3) by linarith
      ultimately show "\<exists>it s'. flatten_value n C h w t = (Inr it, s') \<and> flattened h [w] t (Inr [it], s')"
        using Suc.IH t(1) by blast
    qed
    have plain: "\<exists>it s'. flatten_referenceable C i p cap elements st = (Inr it, s') \<and> flattened h [v] st (Inr [it], s')"
      if el: "\<And>s ks s'. mapS (flatten_value n C h) (kids (h ! i)) s = (Inr ks, s') \<Longrightarrow>
            \<exists>items. elements s = (Inr items, s') \<and> node_items s' h (h ! i) (p, items) ks" for p cap elements
    proof (cases "seen st i")
      case True
      then show ?thesis
        using flatten_referenceable_seen [OF Suc.prems(1) True i, of C p cap elements] unfolding Obj by metis
    next
      case False
      have "\<exists>items ks s'. elements s = (Inr items, s') \<and> flat_ok (length h) s' \<and> later s s' \<and>
          node_items s' h (h ! i) (p, items) ks \<and> flat_enc s' h (visited (length h) s) (kids (h ! i)) ks (visited (length h) s')"
        if "flat_ok (length h) s" "visited (length h) s = insert i (visited (length h) st)" for s
        using content [OF that False] el unfolding flattened_def by metis
      then show ?thesis
        using flatten_referenceable_new [OF assms(1) Suc.prems(1) False i, of elements p cap] unfolding Obj by metis
    qed
    show ?thesis
    proof (cases "h ! i")
      case (PTuple vs)
      then show ?thesis using plain [of "mapS (flatten_value n C h) vs" PackTuple] i Obj by simp
    next
      case (PList vs)
      then show ?thesis using plain [of "mapS (flatten_value n C h) vs" PackList] i Obj by simp
    next
      case (PSet as)
      then show ?thesis using plain [of "mapS (flatten_value n C h) (map Atom as)" PackSet] i Obj by simp
    next
      case (PDict d)
      then show ?thesis
        using plain [of "mapS (flatten_item C (flatten_value n C h)) d" PackDict] i Obj
        by (simp add: flatten_dict_def mapS_items [OF assms(1)])
    next
      case (PInst t attrs)
      have ref: "c_referenceable (classes C t)" using ok(1) PInst by simp
      show ?thesis
      proof (cases "seen st i")
        case True
        obtain r s' where "prepare i st = (Some (FDeref r), s')" "flattened h [Obj i] st (Inr [FDeref r], s')"
          using flattened_seen [OF Suc.prems(1) True i] by metis
        then show ?thesis using i Obj PInst ref by (simp add: flatten_instance_def all_capsD [OF assms(1)])
      next
        case False
        define elements where "elements s = bindS (flatten_dict C (flatten_value n C h) (fresh s) (snapshot attrs)
          (s\<lparr>fresh := fresh s + 1\<rparr>)) (\<lambda>dump s. (Inr [FName t, dump], s))" for s
        have "\<exists>items ks s'. elements s = (Inr items, s') \<and> flat_ok (length h) s' \<and> later s s' \<and>
            node_items s' h (h ! i) (PackInstance, items) ks \<and>
            flat_enc s' h (visited (length h) s) (kids (h ! i)) ks (visited (length h) s')"
          if s: "flat_ok (length h) s" "visited (length h) s = insert i (visited (length h) st)" for s
        proof -
          have snap: "flattened h (map snd (snapshot attrs)) s1 (mapS (flatten_value n C h) (map snd (snapshot attrs)) s1)"
            if "flat_ok (length h) s1" "visited (length h) s1 = visited (length h) s" for s1
            using content [of s1] that s False PInst by simp
          obtain dump s' ks where d:
            "flatten_dict C (flatten_value n C h) (fresh s) (snapshot attrs) (s\<lparr>fresh := fresh s + 1\<rparr>) = (Inr dump, s')"
            "flat_ok (length h) s'" "later s s'"
            "\<exists>i \<ge> length h. dump = FCell (first_cell s' i) \<and> node s' i = Some (PackDict, map2 FItem (map fst (snapshot attrs)) ks)"
            "flat_enc s' h (visited (length h) s) (map snd (snapshot attrs)) ks (visited (length h) s')"
            by (rule flatten_snapshot [OF assms(1) s(1), of "snapshot attrs" "flatten_value n C h"]) (use snap in blast)+
          then have "node_items s' h (h ! i) (PackInstance, [FName t, dump]) ks"
            using no_reference_outside [OF d(2)] PInst by auto
          then show ?thesis using d PInst by (auto simp: elements_def)
        qed
        then obtain st1 items s1 st' where *: "prepare i st = (None, st1)" "elements st1 = (Inr items, s1)"
          "preserve i PackInstance items s1 = (Inr (FCell (first_cell st' i)), st')"
          "flattened h [Obj i] st (Inr [FCell (first_cell st' i)], st')"
          by (rule flattened_node [where elements = elements and p = PackInstance, OF Suc.prems(1) False i]) blast+
        then show ?thesis
          using i Obj PInst ref unfolding elements_def
          by (simp add: flatten_instance_def all_capsD [OF assms(1)] Let_def)
      qed
    next
      case POther
      then show ?thesis using ok(1) by simp
    qed
  qed
qed simp

text \<open>Serialization of any heap succeeds; the nesting never exceeds the number of objects.\<close>

lemma serialize_encodes:
  assumes "all_caps C" "heap_ok C h" "valid h v" "4 * length h < n"
  obtains F d V where "serialize n C h v = Inr d" "sexp_enc F h {} [v] [d] V" "\<And>i j r. F i = Some r \<Longrightarrow> F j = Some r \<Longrightarrow> i = j"
proof -
  let ?s = "flattener_reset (length h)"
  have "unseen (length h) ?s \<le> card {..<length h}" unfolding unseen_def by (rule card_mono) auto
  then have "unseen (length h) ?s < n" using assms(4) by simp
  then obtain it s where f: "flatten_value n C h v ?s = (Inr it, s)" "flattened h [v] ?s (Inr [it], s)"
    using flatten_value_total [OF assms(1,2) flat_ok_reset assms(3)] by blast
  have v0: "visited (length h) ?s = {}" by (simp add: visited_def seen_def flattener_reset_def)
  have ok: "flat_ok (length h) s" and enc: "flat_enc s h {} [v] [it] (visited (length h) s)"
    using f(2) v0 by (simp_all add: flattened_def)
  have "card (visited (length h) s - {}) \<le> card {..<length h}" by (rule card_mono) (auto simp: visited_def)
  then have m: "4 * card (visited (length h) s - {}) < n" using assms(4) by simp
  note packed = pack_flattened [OF enc flat_ok_linked [OF ok] m]
  have "pack_total n s it" using packed(1) by simp
  then obtain d k where d: "pack_value n (cells s) it 0 = (Inr d, k)" unfolding pack_total_def by blast
  then have "list_all2 (packs n s) [it] [d]" by (auto simp: packs_def)
  from packed(2) [OF this] have "sexp_enc (map_of (refids s)) h {} [v] [d] (visited (length h) s)" .
  moreover have "serialize n C h v = Inr d" using f(1) d by (simp add: serialize_def)
  moreover have "map_of (refids s) i = Some r \<Longrightarrow> map_of (refids s) j = Some r \<Longrightarrow> i = j" for i j r
    using ok by (auto simp: flat_ok_def refs_known_def)
  ultimately show ?thesis using that by blast
qed

end
