(* ===== verification/Unpacking.thy ===== *)
theory Unpacking
  imports ObjectGraph
begin

text \<open>
  What unpacking makes of data that encodes a graph in which no tuple and no immutable instance lies
  on a cycle: every reference is known when it is needed, nothing is delayed, and the new objects
  are those of the graph under a renaming of the identities.
\<close>

section \<open>The objects that have been made\<close>

text \<open>The known objects are those of \<open>R\<close>; \<open>m\<close> gives their new identity and \<open>F\<close> the number of their
  reference, where they have one.\<close>

definition refs_ok :: "(nat \<Rightarrow> nat option) \<Rightarrow> (nat \<Rightarrow> nat) \<Rightarrow> nat set \<Rightarrow> unserializer \<Rightarrow> bool" where
  "refs_ok F m R st \<longleftrightarrow>
     pending st = [] \<and> inj_on m R \<and> (\<forall>i \<in> R. m i < length (objs st)) \<and>
     (\<forall>i r. F i = Some r \<longrightarrow>
        (if i \<in> R then \<exists>did. map_of (urefs st) (AInt (int r)) = Some (did, Obj (m i))
         else map_of (urefs st) (AInt (int r)) = None))"

definition recovers :: "nat \<Rightarrow> nat \<Rightarrow> restoring \<Rightarrow> bool" where
  "recovers a d r \<longleftrightarrow> i_recover r \<and> i_instance r = a \<and> i_snapshot r = Obj d"

definition rename_items :: "(nat \<Rightarrow> nat) \<Rightarrow> (atom, pyv) dict \<Rightarrow> (atom, pyv) dict" where
  "rename_items m d = map (\<lambda>(k, v). (k, rename m v)) d"

text \<open>A mutable instance is still blank and will be recovered from the dictionary of its snapshot.\<close>

definition placed :: "converter \<Rightarrow> (nat \<Rightarrow> nat) \<Rightarrow> nat \<Rightarrow> pobj list \<Rightarrow> restoring list \<Rightarrow> pobj \<Rightarrow> nat \<Rightarrow> bool" where
  "placed C m b os new x a \<longleftrightarrow>
     b \<le> a \<and> a < length os \<and>
     (if is_instance x \<and> \<not> rigid C x
      then \<exists>n attrs d r. x = PInst n attrs \<and> os ! a = PInst n [] \<and> r \<in> set new \<and> recovers a d r \<and>
             b \<le> d \<and> d < length os \<and> os ! d = PDict (rename_items m (snapshot attrs))
      else os ! a = rename_obj m x)"

definition content :: "converter \<Rightarrow> pobj list \<Rightarrow> nat set \<Rightarrow> nat set \<Rightarrow> (nat \<Rightarrow> nat) \<Rightarrow> nat \<Rightarrow> pobj list \<Rightarrow> restoring list \<Rightarrow> bool" where
  "content C h R N m b os new \<longleftrightarrow>
     (\<forall>i \<in> N. placed C m b os new (h ! i) (m i) \<and> (\<forall>j. Obj j \<in> set (kids (h ! i)) \<longrightarrow> j \<in> R \<union> N)) \<and>
     distinct (map i_instance new) \<and>
     i_instance ` set new = m ` {i \<in> N. is_instance (h ! i)} \<and>
     (\<forall>r \<in> set new. i_recover r \<longrightarrow> (\<exists>i \<in> N. m i = i_instance r \<and> is_instance (h ! i) \<and> \<not> rigid C (h ! i)))"

definition frame :: "unserializer \<Rightarrow> unserializer \<Rightarrow> bool" where
  "frame st st' \<longleftrightarrow>
     length (objs st) \<le> length (objs st') \<and> (\<forall>a < length (objs st). objs st' ! a = objs st ! a)"

text \<open>The values \<open>vs\<close> have been unpacked to \<open>ws\<close>; the objects of \<open>N\<close> are new.\<close>

definition unpacked ::
  "converter \<Rightarrow> (nat \<Rightarrow> nat option) \<Rightarrow> pobj list \<Rightarrow> nat set \<Rightarrow> nat set \<Rightarrow> (nat \<Rightarrow> nat) \<Rightarrow> unserializer \<Rightarrow>
   pyv list \<Rightarrow> pyv list \<Rightarrow> unserializer \<Rightarrow> (nat \<Rightarrow> nat) \<Rightarrow> bool" where
  "unpacked C F h R N m st vs ws st' m' \<longleftrightarrow>
     ws = map (rename m') vs \<and> (\<forall>j. Obj j \<in> set vs \<longrightarrow> j \<in> R \<union> N) \<and> (\<forall>i \<in> R. m' i = m i) \<and>
     refs_ok F m' (R \<union> N) st' \<and> frame st st' \<and>
     (\<exists>new. instances st' = instances st @ new \<and> content C h R N m' (length (objs st)) (objs st') new)"

definition agree_from :: "nat \<Rightarrow> pobj list \<Rightarrow> pobj list \<Rightarrow> bool" where
  "agree_from b os os' \<longleftrightarrow> (\<forall>a. b \<le> a \<longrightarrow> a < length os \<longrightarrow> a < length os' \<and> os' ! a = os ! a)"

lemma rename_items_obj: "rename_obj m (PDict d) = PDict (rename_items m d)"
  "rename_obj m (PInst n attrs) = PInst n (rename_items m (snapshot attrs))"
  by (simp_all add: rename_items_def)

lemma rename_items_cong:
  "(\<And>j. Obj j \<in> snd ` set d \<Longrightarrow> m j = m' j) \<Longrightarrow> rename_items m d = rename_items m' d"
  by (force simp: rename_items_def intro!: rename_cong)

lemma placed_mono:
  assumes "placed C m b os new x a" "agree_from b os os'" "set new \<subseteq> set new'" "b' \<le> b"
    "\<And>j. Obj j \<in> set (kids x) \<Longrightarrow> m' j = m j"
  shows "placed C m' b' os' new' x a"
proof (cases "is_instance x \<and> \<not> rigid C x")
  case True
  then obtain n attrs d r where x: "x = PInst n attrs" "os ! a = PInst n []" "r \<in> set new" "recovers a d r"
    "b \<le> d" "d < length os" "os ! d = PDict (rename_items m (snapshot attrs))" "b \<le> a" "a < length os"
    using assms(1) by (auto simp: placed_def)
  have "rename_items m' (snapshot attrs) = rename_items m (snapshot attrs)"
    using assms(5) x(1) by (intro rename_items_cong) auto
  moreover have "b' \<le> a" "b' \<le> d" "r \<in> set new'" using x assms(3,4) by auto
  moreover have "a < length os'" "os' ! a = PInst n []" "d < length os'" "os' ! d = PDict (rename_items m (snapshot attrs))"
    using x assms(2) by (auto simp: agree_from_def)
  ultimately show ?thesis using True x(1,4) unfolding placed_def by auto
next
  case False
  have "rename_obj m' x = rename_obj m x" using assms(5) by (intro rename_obj_cong) simp
  with False assms show ?thesis by (auto simp: placed_def agree_from_def)
qed

lemma contentD:
  assumes "content C h R N m b os new"
  shows "i \<in> N \<Longrightarrow> placed C m b os new (h ! i) (m i)"
    and "i \<in> N \<Longrightarrow> Obj j \<in> set (kids (h ! i)) \<Longrightarrow> j \<in> R \<union> N"
    and "distinct (map i_instance new)"
    and "i_instance ` set new = m ` {i \<in> N. is_instance (h ! i)}"
    and "r \<in> set new \<Longrightarrow> i_recover r \<Longrightarrow> \<exists>i \<in> N. m i = i_instance r \<and> is_instance (h ! i) \<and> \<not> rigid C (h ! i)"
  using assms by (simp_all only: content_def)

lemma contentI:
  assumes "\<And>i. i \<in> N \<Longrightarrow> placed C m b os new (h ! i) (m i)"
    and "\<And>i j. i \<in> N \<Longrightarrow> Obj j \<in> set (kids (h ! i)) \<Longrightarrow> j \<in> R \<union> N"
    and "distinct (map i_instance new)"
    and "i_instance ` set new = m ` {i \<in> N. is_instance (h ! i)}"
    and "\<And>r. r \<in> set new \<Longrightarrow> i_recover r \<Longrightarrow> \<exists>i \<in> N. m i = i_instance r \<and> is_instance (h ! i) \<and> \<not> rigid C (h ! i)"
  shows "content C h R N m b os new"
  unfolding content_def by (intro conjI ballI allI impI) (fact assms)+

lemma content_mono:
  assumes "content C h R N m b os new" "agree_from b os os'" "b' \<le> b" "\<And>i. i \<in> R \<union> N \<Longrightarrow> m' i = m i"
  shows "content C h R N m' b' os' new"
proof (rule contentI)
  note c = contentD [OF assms(1)]
  show "distinct (map i_instance new)" by (rule c(3))
  show "i_instance ` set new = m' ` {i \<in> N. is_instance (h ! i)}"
    unfolding c(4) by (rule image_cong) (use assms(4) in auto)
  show "placed C m' b' os' new (h ! i) (m' i)" if "i \<in> N" for i
  proof -
    have "placed C m' b' os' new (h ! i) (m i)"
      by (rule placed_mono [OF c(1) [OF that] assms(2) _ assms(3)]) (use c(2) [OF that] assms(4) in auto)
    then show ?thesis using assms(4) that by simp
  qed
  show "j \<in> R \<union> N" if "i \<in> N" "Obj j \<in> set (kids (h ! i))" for i j by (rule c(2) [OF that])
  show "\<exists>i \<in> N. m' i = i_instance r \<and> is_instance (h ! i) \<and> \<not> rigid C (h ! i)"
    if "r \<in> set new" "i_recover r" for r using c(5) [OF that] assms(4) by (metis UnI2)
qed

lemma content_append:
  assumes "content C h R N1 m b os new1" "content C h (R \<union> N1) N2 m b os new2" "N1 \<inter> N2 = {}" "inj_on m (N1 \<union> N2)"
  shows "content C h R (N1 \<union> N2) m b os (new1 @ new2)"
proof (rule contentI)
  note c = contentD [OF assms(1)] and d = contentD [OF assms(2)]
  have "m ` {i \<in> N1. is_instance (h ! i)} \<inter> m ` {i \<in> N2. is_instance (h ! i)} = {}"
    using assms(3,4) by (auto simp: inj_on_def)
  then show "distinct (map i_instance (new1 @ new2))"
    using c(3,4) d(3,4) by simp
  show "i_instance ` set (new1 @ new2) = m ` {i \<in> N1 \<union> N2. is_instance (h ! i)}"
    unfolding set_append image_Un c(4) d(4) by blast
  have p: "placed C m b os (new1 @ new2) x a" if "placed C m b os new x a" "set new \<subseteq> set (new1 @ new2)" for new x a
    by (rule placed_mono [OF that(1) _ that(2)]) (simp_all add: agree_from_def)
  show "placed C m b os (new1 @ new2) (h ! i) (m i)" if "i \<in> N1 \<union> N2" for i
    using that by (rule UnE) (rule p, erule c(1) d(1), simp)+
  show "j \<in> R \<union> (N1 \<union> N2)" if "i \<in> N1 \<union> N2" "Obj j \<in> set (kids (h ! i))" for i j
    using that(1) by (rule UnE) (use c(2) [OF _ that(2)] d(2) [OF _ that(2)] in blast)+
  show "\<exists>i \<in> N1 \<union> N2. m i = i_instance r \<and> is_instance (h ! i) \<and> \<not> rigid C (h ! i)"
    if "r \<in> set (new1 @ new2)" "i_recover r" for r
    using that(1) unfolding set_append by (rule UnE) (use c(5) [OF _ that(2)] d(5) [OF _ that(2)] in blast)+
qed

lemma frame_refl [simp]: "frame st st" by (simp add: frame_def)

lemma frame_trans: "frame s t \<Longrightarrow> frame t u \<Longrightarrow> frame s u"
  by (auto simp: frame_def)

lemma frame_agree: "frame s t \<Longrightarrow> agree_from b (objs s) (objs t)"
  by (auto simp: frame_def agree_from_def)

lemma unpacked_append:
  assumes "unpacked C F h R N1 m s vs ws s1 m1" "unpacked C F h (R \<union> N1) N2 m1 s1 vs' ws' s2 m2" "N1 \<inter> N2 = {}"
  shows "unpacked C F h R (N1 \<union> N2) m s (vs @ vs') (ws @ ws') s2 m2"
proof -
  obtain new1 where 1: "instances s1 = instances s @ new1" "content C h R N1 m1 (length (objs s)) (objs s1) new1"
    using assms(1) by (auto simp: unpacked_def)
  obtain new2 where 2: "instances s2 = instances s1 @ new2" "content C h (R \<union> N1) N2 m2 (length (objs s1)) (objs s2) new2"
    using assms(2) by (auto simp: unpacked_def)
  have f: "frame s s1" "frame s1 s2" and agree: "\<And>i. i \<in> R \<union> N1 \<Longrightarrow> m2 i = m1 i"
    and inj: "inj_on m2 (R \<union> N1 \<union> N2)"
    using assms(1,2) by (auto simp: unpacked_def refs_ok_def)
  have "content C h R N1 m2 (length (objs s)) (objs s2) new1"
    by (rule content_mono [OF 1(2) frame_agree [OF f(2)]]) (use agree in auto)
  moreover have "content C h (R \<union> N1) N2 m2 (length (objs s)) (objs s2) new2"
    by (rule content_mono [OF 2(2)]) (use f in \<open>auto simp: agree_from_def frame_def\<close>)
  ultimately have c: "content C h R (N1 \<union> N2) m2 (length (objs s)) (objs s2) (new1 @ new2)"
    by (rule content_append) (use assms(3) inj in \<open>auto intro: inj_on_subset\<close>)
  have "map (rename m1) vs = map (rename m2) vs"
    using assms(1) agree by (auto simp: unpacked_def intro!: rename_cong)
  then have "ws @ ws' = map (rename m2) (vs @ vs')" using assms(1,2) by (simp add: unpacked_def)
  moreover have "refs_ok F m2 (R \<union> (N1 \<union> N2)) s2" using assms(2) by (simp add: unpacked_def Un_assoc)
  moreover have "\<forall>i \<in> R. m2 i = m i" using assms(1) agree by (simp add: unpacked_def)
  moreover have "\<forall>j. Obj j \<in> set (vs @ vs') \<longrightarrow> j \<in> R \<union> (N1 \<union> N2)" using assms(1,2) by (auto simp: unpacked_def)
  ultimately show ?thesis using 1(1) 2(1) c frame_trans [OF f] by (auto simp: unpacked_def)
qed

lemma unpacked_nothing:
  assumes "refs_ok F m R st" "\<And>j. v = Obj j \<Longrightarrow> j \<in> R"
  shows "unpacked C F h R {} m st [v] [rename m v] st m"
  using assms by (auto simp: unpacked_def content_def)

lemma unpacked_nil: "refs_ok F m R st \<Longrightarrow> unpacked C F h R {} m st [] [] st m"
  by (simp add: unpacked_def content_def)


section \<open>The contents of containers\<close>

lemma unpack_atom: "atom_sexp a s \<Longrightarrow> unpack_data C dl ref s st = (Inr (Atom a), st)"
  by (cases a) (auto simp: atom_sexp_def new_list_def unpack_data.simps(8) unpack_unicode_def unpack_bool_def unpack_none_def)

lemma fold_py_add: "distinct (map key_norm (xs @ as)) \<Longrightarrow> fold py_add as xs = xs @ as"
proof (induction "as" arbitrary: xs)
  case (Cons a "as")
  then have "py_add a xs = xs @ [a]" by (auto simp: py_add_def)
  with Cons.IH [of "xs @ [a]"] Cons.prems show ?case by simp
qed simp

lemma py_updates_distinct:
  "distinct (map (key_norm \<circ> fst) (d @ kvs)) \<Longrightarrow> py_updates kvs d = d @ kvs"
proof (induction kvs arbitrary: d)
  case (Cons kv kvs)
  obtain k v where kv: "kv = (k, v)" by (cases kv)
  have "find (\<lambda>(k', _). key_norm k' = key_norm k) d = None"
    using Cons.prems kv by (force simp: find_None_iff)
  then have "py_update k v d = d @ [(k, v)]" by (simp add: py_update_def)
  with Cons.IH [of "d @ [(k, v)]"] Cons.prems kv show ?case by (simp add: py_updates_def)
qed (simp add: py_updates_def)

lemma refid_key_int: "refid_key (SInt n) = Some (AInt n)"
  by (simp add: refid_key_def)

lemma mapS_hashable: "mapS (\<lambda>v s. (hashable v s, s)) (map Atom as) s = (Inr as, s)"
  by (induction "as") (simp_all add: hashable_def)

lemma mapS_hashable_pairs:
  "length ks = length ws \<Longrightarrow>
   mapS (\<lambda>(k, v) s. (bindE (hashable k s) (\<lambda>k. Inr (k, v)), s)) (zip (map Atom ks) ws) s = (Inr (zip ks ws), s)"
  by (induction ks ws rule: list_induct2) (simp_all add: hashable_def)

lemma pairs_sexp_Cons:
  "pairs_sexp ks ss (e # es) \<longleftrightarrow>
     (\<exists>k ks' x ss' n key. ks = k # ks' \<and> ss = x # ss' \<and> e = SList n [key, x] \<and> atom_sexp k key \<and> pairs_sexp ks' ss' es)"
proof
  assume p: "pairs_sexp ks ss (e # es)"
  then obtain k ks' x ss' where eq: "ks = k # ks'" "ss = x # ss'" by (cases ks; cases ss) (auto simp: pairs_sexp_def)
  moreover have "\<exists>n key. e = SList n [key, x] \<and> atom_sexp k key" using p eq by (fastforce simp: pairs_sexp_def)
  moreover have "pairs_sexp ks' ss' es" using p eq by (fastforce simp: pairs_sexp_def)
  ultimately show "\<exists>k ks' x ss' n key. ks = k # ks' \<and> ss = x # ss' \<and> e = SList n [key, x] \<and> atom_sexp k key \<and> pairs_sexp ks' ss' es"
    by blast
next
  assume "\<exists>k ks' x ss' n key. ks = k # ks' \<and> ss = x # ss' \<and> e = SList n [key, x] \<and> atom_sexp k key \<and> pairs_sexp ks' ss' es"
  then show "pairs_sexp ks ss (e # es)" by (auto simp: pairs_sexp_def nth_Cons split: nat.split)
qed

lemma unpack_pairs:
  "pairs_sexp ks ss es \<Longrightarrow> mapS (unpack_data C dl None) ss st = (Inr ws, s) \<Longrightarrow>
   mapS (unpack_pair C dl) es st = (Inr (zip (map Atom ks) ws), s)"
proof (induction es arbitrary: ks ss st ws)
  case Nil
  then show ?case by (simp add: pairs_sexp_def)
next
  case (Cons e es)
  obtain k ks' x ss' n key where p: "ks = k # ks'" "ss = x # ss'" "e = SList n [key, x]" "atom_sexp k key"
    "pairs_sexp ks' ss' es" using Cons.prems(1) unfolding pairs_sexp_Cons by blast
  obtain w s1 ws' where u: "unpack_data C dl None x st = (Inr w, s1)"
    "mapS (unpack_data C dl None) ss' s1 = (Inr ws', s)" "ws = w # ws'"
    using Cons.prems(2) by (auto simp: p(2) bindS_Inr simp del: unpack_data.simps)
  have "unpack_pair C dl e st = (Inr (Atom k, w), s1)"
    using u(1) unpack_atom [OF p(4)] by (simp add: p(3) unpack_pair_def)
  with Cons.IH [OF p(5) u(2)] u(3) p(1) show ?case by simp
qed

lemma mapS_length: "mapS f xs s = (Inr ys, s') \<Longrightarrow> length ys = length xs"
  by (drule mapS_results, drule list_all2_lengthD) simp

text \<open>The end of a delayed section that was not delayed.\<close>

definition close_container :: "unserializer \<Rightarrow> pobj \<Rightarrow> unserializer \<Rightarrow> unserializer" where
  "close_container st y s = (set_object (length (objs st)) y s)\<lparr>instances := instances st @ instances s\<rparr>"

lemma unpack_list_done:
  assumes "mapS (unpack_data C True None) ks (begin_delayed (start_container (PList []) ref st)) = (Inr ws, s)"
    "objs s ! length (objs st) = PList []"
  shows "unpack_data C dl ref (SList k (SStr ''list'' # ks)) st =
    (Inr (Obj (length (objs st))), close_container st (PList ws) s)"
  using assms by (simp add: unpack_list extend_list_def end_delayed_def close_container_def set_object_def)

lemma unpack_set_done:
  assumes "mapS (unpack_data C True None) ks (begin_delayed (start_container (PSet []) ref st)) = (Inr (map Atom as), s)"
    "objs s ! length (objs st) = PSet []" "distinct (map key_norm as)"
  shows "unpack_data C dl ref (SList k (SStr ''set'' # ks)) st =
    (Inr (Obj (length (objs st))), close_container st (PSet as) s)"
  using assms fold_py_add [of "[]" "as"]
  by (simp add: unpack_set extend_set_def mapS_hashable end_delayed_def close_container_def set_object_def)

lemma unpack_dict_done:
  assumes "pairs_sexp keys ks es"
    "mapS (unpack_data C True None) ks (begin_delayed (start_container (PDict []) ref st)) = (Inr ws, s)"
    "objs s ! length (objs st) = PDict []" "distinct (map key_norm keys)"
  shows "unpack_data C dl ref (SList k (SStr ''dictionary'' # es)) st =
    (Inr (Obj (length (objs st))), close_container st (PDict (zip keys ws)) s)"
proof -
  have len: "length keys = length ws"
    using assms(1) mapS_length [OF assms(2)] by (simp add: pairs_sexp_def)
  have "map (key_norm \<circ> fst) (zip keys ws) = map key_norm keys"
    using len by (metis map_fst_zip map_map)
  then have "py_updates (zip keys ws) [] = zip keys ws"
    using py_updates_distinct [of "[]" "zip keys ws"] assms(4) by simp
  then have "extend_dict (length (objs st)) (zip (map Atom keys) ws) s =
      (Inr (), set_object (length (objs st)) (PDict (zip keys ws)) s)"
    unfolding extend_dict_def mapS_hashable_pairs [OF len] using assms(3) by simp
  then show ?thesis
    using unpack_pairs [OF assms(1,2)]
    by (simp add: unpack_dictionary end_delayed_def close_container_def set_object_def)
qed


section \<open>One object more\<close>

lemma content_weaken: "content C h R N m b os new \<Longrightarrow> R \<subseteq> R' \<Longrightarrow> content C h R' N m b os new"
  unfolding content_def by (elim conjE, intro conjI) (auto dest: subsetD)

text \<open>What an object adds to the list of instances.\<close>

definition restoring_of :: "converter \<Rightarrow> pobj \<Rightarrow> nat \<Rightarrow> restoring list \<Rightarrow> bool" where
  "restoring_of C x a rs \<longleftrightarrow>
     (if is_instance x then \<exists>r. rs = [r] \<and> i_instance r = a \<and> (i_recover r \<longrightarrow> \<not> rigid C x) else rs = [])"

lemma content_insert:
  assumes "content C h (insert i R) N m b os new" "placed C m b' os (new @ rs) (h ! i) (m i)" "b' \<le> b"
    and "\<And>j. Obj j \<in> set (kids (h ! i)) \<Longrightarrow> j \<in> insert i R \<union> N"
    and "restoring_of C (h ! i) (m i) rs" "i \<notin> N" "inj_on m (insert i N)"
  shows "content C h R (insert i N) m b' os (new @ rs)"
proof (rule contentI)
  note c = contentD [OF assms(1)]
  have mi: "m i \<notin> m ` N" using assms(6,7) by (auto simp: inj_on_def)
  have "m i \<notin> i_instance ` set new" using mi unfolding c(4) by blast
  then have new: "i_instance r \<noteq> m i" if "r \<in> set new" for r using that by (metis image_eqI)
  show "placed C m b' os (new @ rs) (h ! j) (m j)" if "j \<in> insert i N" for j
    using that
  proof (rule insertE)
    assume "j \<in> N"
    show ?thesis by (rule placed_mono [OF c(1) [OF \<open>j \<in> N\<close>] _ _ assms(3)]) (simp_all add: agree_from_def)
  qed (use assms(2) in simp)
  show "k \<in> R \<union> insert i N" if "j \<in> insert i N" "Obj k \<in> set (kids (h ! j))" for j k
    using that(1) by (rule insertE) (use c(2) [OF _ that(2)] assms(4) that(2) in blast)+
  show "distinct (map i_instance (new @ rs))"
    using c(3) new assms(5) by (auto simp: restoring_of_def split: if_splits)
  have "i_instance ` set rs = (if is_instance (h ! i) then {m i} else {})"
    using assms(5) by (auto simp: restoring_of_def)
  then show "i_instance ` set (new @ rs) = m ` {j \<in> insert i N. is_instance (h ! j)}"
    unfolding set_append image_Un c(4) by auto
  show "\<exists>j \<in> insert i N. m j = i_instance r \<and> is_instance (h ! j) \<and> \<not> rigid C (h ! j)"
    if "r \<in> set (new @ rs)" "i_recover r" for r
  proof (cases "r \<in> set new")
    case True
    with c(5) [OF True that(2)] show ?thesis by blast
  next
    case False
    with that assms(5) show ?thesis by (auto simp: restoring_of_def split: if_splits)
  qed
qed

text \<open>The reference an object is unpacked for; no two objects have the same.\<close>

definition inj_refs :: "(nat \<Rightarrow> nat option) \<Rightarrow> bool" where
  "inj_refs F \<longleftrightarrow> (\<forall>i j r. F i = Some r \<longrightarrow> F j = Some r \<longrightarrow> i = j)"

definition ref_for :: "nat option \<Rightarrow> data_id \<Rightarrow> (atom \<times> data_id) option" where
  "ref_for r did = map_option (\<lambda>r. (AInt (int r), did)) r"

lemma refs_ok_fields:
  "refs_ok F m R st \<Longrightarrow> urefs st' = urefs st \<Longrightarrow> pending st' = pending st \<Longrightarrow>
   length (objs st) \<le> length (objs st') \<Longrightarrow> refs_ok F m R st'"
  by (auto simp: refs_ok_def)

lemma refs_okD:
  assumes "refs_ok F m R st"
  shows "inj_on m R" "i \<in> R \<Longrightarrow> m i < length (objs st)" "pending st = []"
    "i \<in> R \<Longrightarrow> F i = Some r \<Longrightarrow> \<exists>did. map_of (urefs st) (AInt (int r)) = Some (did, Obj (m i))"
  using assms by (simp_all add: refs_ok_def)

lemma inj_on_new:
  assumes "refs_ok F m R st" "length (objs st) \<le> a"
  shows "inj_on (m(i := a)) (insert i R)"
proof -
  have "a \<noteq> m j" if "j \<in> R" for j using refs_okD(2) [OF assms(1) that] assms(2) by simp
  moreover have "m j = m k \<Longrightarrow> j = k" if "j \<in> R" "k \<in> R" for j k
    using inj_onD [OF refs_okD(1) [OF assms(1)]] that by blast
  ultimately show ?thesis by (intro inj_onI) (metis fun_upd_apply insertE)
qed

lemma refs_ok_start:
  assumes "refs_ok F m R st" "i \<notin> R" "inj_refs F"
  shows "refs_ok F (m(i := length (objs st))) (insert i R) (begin_delayed (start_container x (ref_for (F i) did) st))"
proof -
  have "inj_on (m(i := length (objs st))) (insert i R)"
    using inj_on_new [OF assms(1)] by simp
  moreover have "urefs (begin_delayed (start_container x (ref_for (F i) did) st)) =
      (case F i of None \<Rightarrow> urefs st | Some r \<Rightarrow> AList.update (AInt (int r)) (did, Obj (length (objs st))) (urefs st))"
    by (simp add: begin_delayed_def start_container_def new_object_def register_def ref_for_def split: option.split)
  moreover have "if j \<in> insert i R then \<exists>e. map_of (urefs (begin_delayed (start_container x (ref_for (F i) did) st))) (AInt (int r)) =
        Some (e, Obj ((m(i := length (objs st))) j))
      else map_of (urefs (begin_delayed (start_container x (ref_for (F i) did) st))) (AInt (int r)) = None"
    if "F j = Some r" for j r
  proof (cases "j = i")
    case True
    with that have "map_of (urefs (begin_delayed (start_container x (ref_for (F i) did) st))) (AInt (int r)) =
        Some (did, Obj (length (objs st)))"
      unfolding calculation(2) by (simp add: dict_simps)
    with True show ?thesis by simp
  next
    case False
    then have "F i \<noteq> Some r" using assms(3) that by (auto simp: inj_refs_def)
    then have "map_of (urefs (begin_delayed (start_container x (ref_for (F i) did) st))) (AInt (int r)) = map_of (urefs st) (AInt (int r))"
      using calculation(2) by (auto simp: dict_simps split: option.split)
    with False assms(1) that show ?thesis by (auto simp: refs_ok_def)
  qed
  moreover have "\<forall>j \<in> insert i R. (m(i := length (objs st))) j < length (objs (begin_delayed (start_container x (ref_for (F i) did) st)))"
    using assms(1) by (auto simp: refs_ok_def begin_delayed_def less_SucI)
  moreover have "pending (begin_delayed (start_container x (ref_for (F i) did) st)) = []"
    using assms(1) by (simp add: refs_ok_def begin_delayed_def)
  ultimately show ?thesis unfolding refs_ok_def by blast
qed

lemma refs_ok_start_anonymous:
  "refs_ok F m R st \<Longrightarrow> refs_ok F m R (begin_delayed (start_container x None st))"
  by (erule refs_ok_fields) (simp_all add: begin_delayed_def start_container_def new_object_def register_def)

lemma begin_container_fields [simp]:
  "objs (begin_delayed (start_container x ref st)) = objs st @ [x]"
  "instances (begin_delayed (start_container x ref st)) = []"
  by (simp_all add: begin_delayed_def)

lemma close_container_fields [simp]:
  "objs (close_container st y s) = (objs s)[length (objs st) := y]"
  "urefs (close_container st y s) = urefs s" "pending (close_container st y s) = pending s"
  "instances (close_container st y s) = instances st @ instances s"
  by (simp_all add: close_container_def set_object_def)

text \<open>The container is as it was created when its content has been unpacked.\<close>

lemma unpacked_started:
  assumes "unpacked C F h R N m (begin_delayed (start_container x ref st)) vs ws s m'"
  shows "objs s ! length (objs st) = x" "length (objs st) < length (objs s)" "frame st (close_container st y s)"
    "content C h R N m' (Suc (length (objs st))) (objs s) (instances s)"
    "ws = map (rename m') vs" "refs_ok F m' (R \<union> N) s" "\<And>i. i \<in> R \<Longrightarrow> m' i = m i"
    "\<And>j. Obj j \<in> set vs \<Longrightarrow> j \<in> R \<union> N"
  using assms by (auto simp: unpacked_def frame_def nth_append)

lemma unpacked_container:
  assumes "unpacked C F h (insert i R) N (m(i := length (objs st))) (begin_delayed (start_container x ref st)) (kids (h ! i)) ws s m'"
    and "i \<notin> R" "i \<notin> N" "\<not> is_instance (h ! i)" "y = rename_obj m' (h ! i)"
  shows "unpacked C F h R (insert i N) m st [Obj i] [Obj (length (objs st))] (close_container st y s) m'"
proof -
  note u = unpacked_started [OF assms(1)]
  have mi: "m' i = length (objs st)" using u(7) [of i] by simp
  have "refs_ok F m' (R \<union> insert i N) (close_container st y s)"
    using refs_ok_fields [OF u(6)] by simp
  moreover have "content C h R (insert i N) m' (length (objs st)) (objs (close_container st y s)) (instances s @ [])"
  proof (rule content_insert [where b = "Suc (length (objs st))"])
    show "content C h (insert i R) N m' (Suc (length (objs st))) (objs (close_container st y s)) (instances s)"
      by (rule content_mono [OF u(4)]) (auto simp: agree_from_def)
    show "placed C m' (length (objs st)) (objs (close_container st y s)) (instances s @ []) (h ! i) (m' i)"
      using u(2) assms(4,5) mi by (simp add: placed_def)
    show "restoring_of C (h ! i) (m' i) []" using assms(4) by (simp add: restoring_of_def)
    show "inj_on m' (insert i N)" using u(6) by (auto simp: refs_ok_def intro: inj_on_subset)
  qed (use u(8) assms(3) in auto)
  moreover have "\<forall>j \<in> R. m' j = m j" using u(7) assms(2) by auto
  ultimately show ?thesis using u(3) [of y] mi by (simp add: unpacked_def)
qed


lemma zip_rename: "zip (map fst d) (map (rename m) (map snd d)) = rename_items m d"
  by (induction d) (auto simp: rename_items_def)

text \<open>A mutable instance: its snapshot is a dictionary of its own.\<close>

lemma unpacked_instance:
  assumes "unpacked C F h (insert i R) N (m(i := length (objs st)))
      (begin_delayed (start_container (PDict []) None (begin_delayed (start_container (PInst n []) ref st)))) (kids (h ! i)) ws s m'"
    and "i \<notin> R" "i \<notin> N" "h ! i = PInst n attrs" "c_mutable (classes C n)"
    and s': "objs s' = (objs s)[Suc (length (objs st)) := PDict (rename_items m' (snapshot attrs))]" "urefs s' = urefs s"
      "pending s' = pending s" "instances s' = instances st @ instances s @ [r]"
      "recovers (length (objs st)) (Suc (length (objs st))) r"
  shows "unpacked C F h R (insert i N) m st [Obj i] [Obj (length (objs st))] s' m'"
proof -
  let ?a = "length (objs st)"
  note u = unpacked_started [OF assms(1)]
  have len: "length (objs (begin_delayed (start_container (PInst n []) ref st))) = Suc ?a" by simp
  have mi: "m' i = ?a" using u(7) [of i] by simp
  have d: "Suc ?a < length (objs s)" using u(2) by simp
  have fr: "objs s ! x = (objs st @ [PInst n []]) ! x" if "x < Suc ?a" for x
    using assms(1) that by (simp add: unpacked_def frame_def nth_append)
  have "refs_ok F m' (R \<union> insert i N) s'"
    using refs_ok_fields [OF u(6) s'(2,3)] s'(1) by simp
  moreover have "content C h R (insert i N) m' ?a (objs s') (instances s @ [r])"
  proof (rule content_insert [where b = "Suc (Suc ?a)"])
    show "content C h (insert i R) N m' (Suc (Suc ?a)) (objs s') (instances s)"
      by (rule content_mono [OF u(4)]) (auto simp: agree_from_def s'(1))
    have "objs s' ! ?a = PInst n []" using fr [of ?a] d by (simp add: s'(1) nth_append)
    moreover have "objs s' ! Suc ?a = PDict (rename_items m' (snapshot attrs))" using d by (simp add: s'(1))
    ultimately show "placed C m' ?a (objs s') (instances s @ [r]) (h ! i) (m' i)"
      unfolding placed_def mi assms(4) using d s'(5) assms(5)
      by (simp add: s'(1)) (intro exI [of _ "Suc ?a"] exI [of _ r], simp)
    show "restoring_of C (h ! i) (m' i) [r]" using assms(4,5) s'(5) mi by (auto simp: restoring_of_def recovers_def)
    show "inj_on m' (insert i N)" using u(6) by (auto simp: refs_ok_def intro: inj_on_subset)
  qed (use u(8) assms(3) in auto)
  moreover have "frame st s'"
    using d fr by (auto simp: frame_def s'(1) nth_append less_SucI)
  moreover have "\<forall>j \<in> R. m' j = m j" using u(7) assms(2) by auto
  ultimately show ?thesis using mi s'(4) by (simp add: unpacked_def)
qed

text \<open>A tuple or an immutable instance, made when its content is there.\<close>

lemma unpacked_rigid:
  assumes "frame st s" "content C h R N m' (length (objs st)) (objs s) new" "instances s = instances st @ new"
    and "refs_ok F m' (R \<union> N) s" "\<And>j. j \<in> R \<Longrightarrow> m' j = m j" "\<And>j. Obj j \<in> set (kids (h ! i)) \<Longrightarrow> j \<in> R \<union> N"
    and "i \<notin> R" "i \<notin> N" "rigid C (h ! i)" "inj_refs F"
    and s': "objs s' = objs s @ [rename_obj m' (h ! i)]" "instances s' = instances s @ rs" "urefs s' = urefs s"
      "pending s' = pending s" "restoring_of C (h ! i) (length (objs s)) rs"
  shows "unpacked C F h R (insert i N) m st [Obj i] [Obj (length (objs s))]
    (register (ref_for (F i) did) (Obj (length (objs s))) s') (m'(i := length (objs s)))"
proof -
  let ?a = "length (objs s)" and ?m = "m'(i := length (objs s))"
  let ?s = "register (ref_for (F i) did) (Obj ?a) s'"
  have fields: "objs ?s = objs s'" "instances ?s = instances s'" "pending ?s = pending s'"
    by (simp_all add: register_def split: option.split prod.split)
  have i: "i \<notin> R \<union> N" using assms(7,8) by simp
  have "refs_ok F ?m (insert i (R \<union> N)) ?s"
    by (rule refs_ok_fields [OF refs_ok_start [OF assms(4) i assms(10), where x = POther and did = did]])
      (simp_all add: begin_delayed_def start_container_def new_object_def register_def s' split: option.split prod.split)
  moreover have k: "rename_obj m' (h ! i) = rename_obj ?m (h ! i)"
    using assms(6) i by (intro rename_obj_cong) auto
  have "content C h R (insert i N) ?m (length (objs st)) (objs s') (new @ rs)"
  proof (rule content_insert)
    have "content C h R N ?m (length (objs st)) (objs s') new"
      by (rule content_mono [OF assms(2)]) (use i in \<open>auto simp: agree_from_def s'(1) nth_append\<close>)
    then show "content C h (insert i R) N ?m (length (objs st)) (objs s') new" by (rule content_weaken) auto
    show "placed C ?m (length (objs st)) (objs s') (new @ rs) (h ! i) (?m i)"
      using assms(1,9) k by (simp add: placed_def s'(1) frame_def)
    show "inj_on ?m (insert i N)"
      using inj_on_new [OF assms(4), of ?a i] by (auto intro: inj_on_subset)
    show "restoring_of C (h ! i) (?m i) rs" using s'(5) by simp
  qed (use assms(6,8) in auto)
  moreover have "frame st ?s" using assms(1) by (auto simp: frame_def fields s'(1) nth_append)
  ultimately show ?thesis using assms(3,5,7) by (auto simp: unpacked_def fields s'(2))
qed


section \<open>Unpacking an encoded object\<close>

text \<open>The content of a node, for any way in which it is unpacked.\<close>

definition kids_unpack ::
  "converter \<Rightarrow> (nat \<Rightarrow> nat option) \<Rightarrow> pobj list \<Rightarrow> nat set \<Rightarrow> nat set \<Rightarrow> pyv list \<Rightarrow> sexp list \<Rightarrow> bool" where
  "kids_unpack C F h R N vs ss \<longleftrightarrow>
     (\<forall>dl st m. refs_ok F m R st \<longrightarrow>
        (\<exists>ws s m'. mapS (unpack_data C dl None) ss st = (Inr ws, s) \<and> unpacked C F h R N m st vs ws s m'))"

lemma kids_unpackE:
  assumes "kids_unpack C F h R N vs ss" "refs_ok F m R st"
  obtains ws s m' where "mapS (unpack_data C dl None) ss st = (Inr ws, s)" "unpacked C F h R N m st vs ws s m'"
  using assms unfolding kids_unpack_def by blast

lemma length_pairs: "pairs_sexp ks ss es \<Longrightarrow> length ks = length ss"
  by (simp add: pairs_sexp_def)

lemma distinct_snapshot:
  "distinct (map (key_norm \<circ> fst) attrs) \<Longrightarrow> distinct (map key_norm (map fst (snapshot attrs)))"
  by (simp add: snapshot_def distinct_map_filter)

text \<open>An object that is registered before its content is unpacked.\<close>

lemma unpack_soft:
  assumes "kids_unpack C F h (insert i R) N (kids (h ! i)) ss" "node_sexp (h ! i) s0 ss" "obj_ok C (h ! i)"
    and "refs_ok F m R st" "i \<notin> R" "i \<notin> N" "\<not> rigid C (h ! i)" "inj_refs F"
  shows "\<exists>s m'. unpack_data C dl (ref_for (F i) did) s0 st = (Inr (Obj (length (objs st))), s) \<and>
    unpacked C F h R (insert i N) m st [Obj i] [Obj (length (objs st))] s m'"
proof -
  let ?a = "length (objs st)" and ?ref = "ref_for (F i) did"
  have start: "refs_ok F (m(i := ?a)) (insert i R) (begin_delayed (start_container x ?ref st))" for x
    by (rule refs_ok_start [OF assms(4,5,8)])
  show ?thesis
  proof (cases "h ! i")
    case (PList vs)
    then obtain k where s0: "s0 = SList k (SStr ''list'' # ss)" using assms(2) by auto
    obtain ws s m' where u: "mapS (unpack_data C True None) ss (begin_delayed (start_container (PList []) ?ref st)) = (Inr ws, s)"
      "unpacked C F h (insert i R) N (m(i := ?a)) (begin_delayed (start_container (PList []) ?ref st)) (kids (h ! i)) ws s m'"
      by (rule kids_unpackE [OF assms(1) start])
    have "unpack_data C dl ?ref s0 st = (Inr (Obj ?a), close_container st (PList ws) s)"
      unfolding s0 by (rule unpack_list_done [OF u(1) unpacked_started(1) [OF u(2)]])
    moreover have "unpacked C F h R (insert i N) m st [Obj i] [Obj ?a] (close_container st (PList ws) s) m'"
      by (rule unpacked_container [OF u(2) assms(5,6)]) (use PList unpacked_started(5) [OF u(2)] in simp_all)
    ultimately show ?thesis by blast
  next
    case (PSet as)
    then obtain k where s0: "s0 = SList k (SStr ''set'' # ss)" using assms(2) by auto
    obtain ws s m' where u: "mapS (unpack_data C True None) ss (begin_delayed (start_container (PSet []) ?ref st)) = (Inr ws, s)"
      "unpacked C F h (insert i R) N (m(i := ?a)) (begin_delayed (start_container (PSet []) ?ref st)) (kids (h ! i)) ws s m'"
      by (rule kids_unpackE [OF assms(1) start])
    have ws: "ws = map Atom as" using unpacked_started(5) [OF u(2)] PSet by simp
    have "unpack_data C dl ?ref s0 st = (Inr (Obj ?a), close_container st (PSet as) s)"
      unfolding s0 by (rule unpack_set_done [OF u(1) [unfolded ws] unpacked_started(1) [OF u(2)]]) (use assms(3) PSet in simp)
    moreover have "unpacked C F h R (insert i N) m st [Obj i] [Obj ?a] (close_container st (PSet as) s) m'"
      by (rule unpacked_container [OF u(2) assms(5,6)]) (use PSet in simp_all)
    ultimately show ?thesis by blast
  next
    case (PDict d)
    then obtain k es where s0: "s0 = SList k (SStr ''dictionary'' # es)" "pairs_sexp (map fst d) ss es" using assms(2) by auto
    obtain ws s m' where u: "mapS (unpack_data C True None) ss (begin_delayed (start_container (PDict []) ?ref st)) = (Inr ws, s)"
      "unpacked C F h (insert i R) N (m(i := ?a)) (begin_delayed (start_container (PDict []) ?ref st)) (kids (h ! i)) ws s m'"
      by (rule kids_unpackE [OF assms(1) start])
    have "unpack_data C dl ?ref s0 st = (Inr (Obj ?a), close_container st (PDict (zip (map fst d) ws)) s)"
      unfolding s0(1) by (rule unpack_dict_done [OF s0(2) u(1) unpacked_started(1) [OF u(2)]]) (use assms(3) PDict in simp)
    moreover have "unpacked C F h R (insert i N) m st [Obj i] [Obj ?a] (close_container st (PDict (zip (map fst d) ws)) s) m'"
      by (rule unpacked_container [OF u(2) assms(5,6)])
        (use PDict unpacked_started(5) [OF u(2)] zip_rename [of d m'] in \<open>simp_all add: rename_items_def\<close>)
    ultimately show ?thesis by blast
  next
    case (PInst n attrs)
    then obtain k k' es where s0: "s0 = SList k [SStr n, SList k' (SStr ''dictionary'' # es)]"
      "pairs_sexp (map fst (snapshot attrs)) ss es" using assms(2) by auto
    have n: "n \<in> set (registered C)" "n \<notin> set type_atoms" "c_mutable (classes C n)"
      "distinct (map (key_norm \<circ> fst) attrs)"
      using assms(3,7) PInst by auto
    let ?s1 = "begin_delayed (start_container (PInst n []) ?ref st)"
    obtain ws s m' where u: "mapS (unpack_data C True None) ss (begin_delayed (start_container (PDict []) None ?s1)) = (Inr ws, s)"
      "unpacked C F h (insert i R) N (m(i := ?a)) (begin_delayed (start_container (PDict []) None ?s1)) (kids (h ! i)) ws s m'"
      by (rule kids_unpackE [OF assms(1) refs_ok_start_anonymous [OF start]])
    have ws: "zip (map fst (snapshot attrs)) ws = rename_items m' (snapshot attrs)"
      using unpacked_started(5) [OF u(2)] zip_rename [of "snapshot attrs" m'] PInst by simp
    let ?s3 = "close_container ?s1 (PDict (rename_items m' (snapshot attrs))) s"
    have d: "unpack_data C True None (SList k' (SStr ''dictionary'' # es)) ?s1 = (Inr (Obj (length (objs ?s1))), ?s3)"
      using unpack_dict_done [OF s0(2) u(1) unpacked_started(1) [OF u(2)]] distinct_snapshot [OF n(4)] ws by metis
    define r where "r = \<lparr>i_recover = True, i_instance = ?a, i_snapshot = Obj (Suc ?a), i_refid = map_option fst ?ref\<rparr>"
    define s5 where "s5 = ?s3\<lparr>instances := instances st @ instances ?s3 @ [r]\<rparr>"
    have "unpack_data C dl ?ref s0 st = (Inr (Obj ?a), s5)"
      unfolding s0(1) unpack_mutable [OF n(1-3)] d s5_def r_def
      by (simp add: note_instance_def end_delayed_def)
    moreover have "unpacked C F h R (insert i N) m st [Obj i] [Obj ?a] s5 m'"
      by (rule unpacked_instance [OF u(2) assms(5,6) PInst n(3), where r = r]) (simp_all add: s5_def r_def recovers_def)
    ultimately show ?thesis by blast
  qed (use assms(3,7) in auto)
qed


lemma rename_items_keys: "map (key_norm \<circ> fst) (rename_items m d) = map (key_norm \<circ> fst) d"
  by (induction d) (auto simp: rename_items_def)

lemma restore_immutable_done:
  assumes "d < length (objs s)" "objs s ! d = PDict items" "distinct (map (key_norm \<circ> fst) items)"
  shows "\<exists>r s'. restore_immutable t (Obj d) s = (Inr (Obj (length (objs s))), s') \<and>
    objs s' = objs s @ [PInst t items] \<and> urefs s' = urefs s \<and> pending s' = pending s \<and>
    instances s' = instances s @ [r] \<and> i_instance r = length (objs s) \<and> \<not> i_recover r"
proof -
  have "py_updates items [] = items" using py_updates_distinct [of "[]" items] assms(3) by simp
  with assms(1,2) show ?thesis
    by (simp add: restore_immutable_def new_object_def recover_def nth_append set_object_def note_instance_def)
qed

text \<open>An object that is made after its content: it can only be registered then.\<close>

lemma unpack_rigid:
  assumes "kids_unpack C F h R N (kids (h ! i)) ss" "node_sexp (h ! i) s0 ss" "obj_ok C (h ! i)"
    and "refs_ok F m R st" "i \<notin> R" "i \<notin> N" "rigid C (h ! i)" "inj_refs F"
  shows "\<exists>a s m'. unpack_data C dl ref s0 st = (Inr (Obj a), s) \<and>
    (\<forall>r. F i = Some r \<longrightarrow> map_of (urefs s) (AInt (int r)) = None) \<and>
    unpacked C F h R (insert i N) m st [Obj i] [Obj a] (register (ref_for (F i) did) (Obj a) s) m'"
proof -
  have none: "map_of (urefs s) (AInt (int r)) = None" if "refs_ok F m' (R \<union> N) s" "F i = Some r" for m' s r
    using that assms(5,6) by (auto simp: refs_ok_def)
  show ?thesis
  proof (cases "h ! i")
    case (PTuple vs)
    then obtain k where s0: "s0 = SList k (SStr ''tuple'' # ss)" using assms(2) by auto
    obtain ws s m' where u: "mapS (unpack_data C dl None) ss st = (Inr ws, s)" "unpacked C F h R N m st (kids (h ! i)) ws s m'"
      by (rule kids_unpackE [OF assms(1,4)])
    obtain new where n: "instances s = instances st @ new" "content C h R N m' (length (objs st)) (objs s) new"
      using u(2) by (auto simp: unpacked_def)
    let ?s = "snd (new_object (PTuple ws) s)"
    have "unpack_data C dl ref s0 st = (Inr (Obj (length (objs s))), ?s)"
      unfolding s0 unpack_tuple u(1) by simp
    moreover have "unpacked C F h R (insert i N) m st [Obj i] [Obj (length (objs s))]
        (register (ref_for (F i) did) (Obj (length (objs s))) ?s) (m'(i := length (objs s)))"
      by (rule unpacked_rigid [OF _ n(2,1) _ _ _ assms(5-8), where rs = "[]"])
        (use u(2) PTuple in \<open>auto simp: unpacked_def new_object_def restoring_of_def\<close>)
    moreover have "refs_ok F m' (R \<union> N) s" "urefs ?s = urefs s" using u(2) by (auto simp: unpacked_def new_object_def)
    ultimately show ?thesis using none by metis
  next
    case (PInst n attrs)
    then obtain k k' es where s0: "s0 = SList k [SStr n, SList k' (SStr ''dictionary'' # es)]"
      "pairs_sexp (map fst (snapshot attrs)) ss es" using assms(2) by auto
    have t: "n \<in> set (registered C)" "n \<notin> set type_atoms" "\<not> c_mutable (classes C n)"
      "distinct (map (key_norm \<circ> fst) attrs)"
      using assms(3,7) PInst by auto
    obtain ws s m' where u: "mapS (unpack_data C True None) ss (begin_delayed (start_container (PDict []) None st)) = (Inr ws, s)"
      "unpacked C F h R N m (begin_delayed (start_container (PDict []) None st)) (kids (h ! i)) ws s m'"
      by (rule kids_unpackE [OF assms(1) refs_ok_start_anonymous [OF assms(4)]])
    note v = unpacked_started [OF u(2)]
    let ?items = "rename_items m' (snapshot attrs)"
    let ?s3 = "close_container st (PDict ?items) s"
    have ws: "zip (map fst (snapshot attrs)) ws = ?items"
      using v(5) zip_rename [of "snapshot attrs" m'] PInst by simp
    have d: "unpack_data C dl None (SList k' (SStr ''dictionary'' # es)) st = (Inr (Obj (length (objs st))), ?s3)"
      using unpack_dict_done [OF s0(2) u(1) v(1)] distinct_snapshot [OF t(4)] ws by metis
    have "distinct (map (key_norm \<circ> fst) ?items)" using distinct_snapshot [OF t(4)] by (simp add: rename_items_keys)
    then obtain r s' where r: "restore_immutable n (Obj (length (objs st))) ?s3 = (Inr (Obj (length (objs ?s3))), s')"
      "objs s' = objs ?s3 @ [PInst n ?items]" "urefs s' = urefs ?s3" "pending s' = pending ?s3"
      "instances s' = instances ?s3 @ [r]" "i_instance r = length (objs ?s3)" "\<not> i_recover r"
      using restore_immutable_done [of "length (objs st)" ?s3 ?items n] v(2) by auto
    have "unpack_data C dl ref s0 st = (Inr (Obj (length (objs ?s3))), s')"
      unfolding s0(1) unpack_immutable [OF t(1-3)] d using r(1) by simp
    moreover have "unpacked C F h R (insert i N) m st [Obj i] [Obj (length (objs ?s3))]
        (register (ref_for (F i) did) (Obj (length (objs ?s3))) s') (m'(i := length (objs ?s3)))"
    proof (rule unpacked_rigid [OF v(3) _ _ _ v(7,8) assms(5-8), where rs = "[r]" and new = "instances s"])
      show "content C h R N m' (length (objs st)) (objs ?s3) (instances s)"
        by (rule content_mono [OF v(4)]) (auto simp: agree_from_def)
      show "refs_ok F m' (R \<union> N) ?s3" by (rule refs_ok_fields [OF v(6)]) simp_all
      show "objs s' = objs ?s3 @ [rename_obj m' (h ! i)]" using r(2) PInst by (simp add: rename_items_def)
      show "restoring_of C (h ! i) (length (objs ?s3)) [r]" using r(6,7) PInst by (simp add: restoring_of_def)
    qed (use r in simp_all)
    moreover have "refs_ok F m' (R \<union> N) s" "urefs s' = urefs s" using v(6) r(3) by simp_all
    ultimately show ?thesis using none by metis
  qed (use assms(7) in auto)
qed

text \<open>An object, inside of its reference if it has one.\<close>

lemma unpack_object:
  assumes "kids_unpack C F h (if rigid C (h ! i) then R else insert i R) N (kids (h ! i)) ss" "node_sexp (h ! i) s0 ss"
    "wrapped (F i) s0 sx" "obj_ok C (h ! i)" "refs_ok F m R st" "i \<notin> R" "i \<notin> N"
    "inj_refs F"
  shows "\<exists>a s m'. unpack_data C dl None sx st = (Inr (Obj a), s) \<and> unpacked C F h R (insert i N) m st [Obj i] [Obj a] s m'"
proof -
  let ?ref = "ref_for (F i) (data_id s0)"
  obtain a s m' where u: "unpack_data C dl ?ref s0 st = (Inr (Obj a), s)"
    "unpacked C F h R (insert i N) m st [Obj i] [Obj a]
       (if rigid C (h ! i) then register ?ref (Obj a) s else s) m'"
    "\<And>r. F i = Some r \<Longrightarrow> dict_has (urefs s) (AInt (int r)) \<longleftrightarrow> \<not> rigid C (h ! i)"
  proof (cases "rigid C (h ! i)")
    case True
    then show ?thesis
      using that unpack_rigid [OF _ assms(2,4-7) True assms(8), where dl = dl and ref = ?ref and did = "data_id s0"] assms(1) by fastforce
  next
    case False
    obtain s m' where s: "unpack_data C dl ?ref s0 st = (Inr (Obj (length (objs st))), s)"
      "unpacked C F h R (insert i N) m st [Obj i] [Obj (length (objs st))] s m'"
      using unpack_soft [OF _ assms(2,4-7) False assms(8), where dl = dl and did = "data_id s0"] assms(1) False by auto
    have "dict_has (urefs s) (AInt (int r))" if "F i = Some r" for r
    proof -
      have "refs_ok F m' (R \<union> insert i N) s" using s(2) by (simp add: unpacked_def)
      from refs_okD(4) [OF this _ that] show ?thesis by auto
    qed
    with s False that show ?thesis by simp
  qed
  show ?thesis
  proof (cases "F i")
    case None
    with u assms(3) show ?thesis by (auto simp: wrapped_def ref_for_def register_def split: if_splits)
  next
    case (Some r)
    then obtain k where sx: "sx = SList k [SStr ''reference'', SInt (int r), s0]" using assms(3) by (auto simp: wrapped_def)
    have "map_of (urefs st) (AInt (int r)) = None" using assms(5,6) Some by (auto simp: refs_ok_def)
    then have "unpack_data C dl None sx st =
        (Inr (Obj a), if rigid C (h ! i) then register ?ref (Obj a) s else s)"
      using u(1) u(3) [OF Some] Some unfolding sx unpack_reference [OF refid_key_int] by (simp add: ref_for_def)
    with u(2) show ?thesis by blast
  qed
qed


section \<open>Unpacking an encoded list of values\<close>

text \<open>From every rigid object that is being unpacked a path leads to the values, so on a graph without rigid
  cycles they never refer to it.\<close>

definition above :: "converter \<Rightarrow> pobj list \<Rightarrow> nat set \<Rightarrow> pyv list \<Rightarrow> bool" where
  "above C h P vs \<longleftrightarrow>
     (\<forall>p \<in> P. p < length h \<and> rigid C (h ! p) \<and> (\<forall>j. Obj j \<in> set vs \<longrightarrow> (p, j) \<in> (edges h)\<^sup>+))"

lemma above_not_in: "no_rigid_cycle C h \<Longrightarrow> above C h P vs \<Longrightarrow> Obj j \<in> set vs \<Longrightarrow> j \<notin> P"
  unfolding no_rigid_cycle_def above_def by blast

lemma above_kids:
  assumes "above C h P vs" "Obj i \<in> set vs" "i < length h"
  shows "above C h (if rigid C (h ! i) then insert i P else P) (kids (h ! i))"
proof -
  have e: "(i, j) \<in> edges h" if "Obj j \<in> set (kids (h ! i))" for j using that assms(3) by (simp add: edges_def)
  have "(p, j) \<in> (edges h)\<^sup>+" if "p \<in> P" "Obj j \<in> set (kids (h ! i))" for p j
    using assms(1,2) that e [OF that(2)] by (auto simp: above_def intro: trancl_into_trancl)
  with assms e show ?thesis by (auto simp: above_def)
qed

lemma mapS_Cons:
  "f x s = (Inr y, s1) \<Longrightarrow> mapS f xs s1 = (Inr ys, s2) \<Longrightarrow> mapS f (x # xs) s = (Inr (y # ys), s2)"
  by simp

lemma unpack_encoded:
  assumes "sexp_enc F h V vs ss V'" "heap_ok C h" "no_rigid_cycle C h" "inj_refs F"
  shows "R \<subseteq> V \<Longrightarrow> above C h (V - R) vs \<Longrightarrow> kids_unpack C F h R (V' - V) vs ss"
  using assms(1)
proof (induction arbitrary: R rule: sexp_enc.induct)
  case (Nil V)
  then show ?case unfolding kids_unpack_def using unpacked_nil by (metis Diff_cancel mapS.simps(1))
next
  case (Atom a s V vs ss V')
  have "above C h (V - R) vs" using Atom.prems(2) by (auto simp: above_def)
  note IH = Atom.IH [OF Atom.prems(1) this]
  show ?case unfolding kids_unpack_def
  proof (intro allI impI)
    fix dl st m assume r: "refs_ok F m R st"
    obtain ws s' m' where u: "mapS (unpack_data C dl None) ss st = (Inr ws, s')" "unpacked C F h R (V' - V) m st vs ws s' m'"
      by (rule kids_unpackE [OF IH r])
    have n: "unpacked C F h R {} m st [Atom a] [rename m (Atom a)] st m" by (rule unpacked_nothing [OF r]) simp
    from unpacked_append [OF n, of "V' - V"] u(2)
    have "unpacked C F h R (V' - V) m st (Atom a # vs) (Atom a # ws) s' m'" by simp
    moreover have "mapS (unpack_data C dl None) (s # ss) st = (Inr (Atom a # ws), s')"
      by (rule mapS_Cons [OF unpack_atom [OF Atom.hyps(1)] u(1)])
    ultimately show "\<exists>ws s' m'. mapS (unpack_data C dl None) (s # ss) st = (Inr ws, s') \<and>
        unpacked C F h R (V' - V) m st (Atom a # vs) ws s' m'" by blast
  qed
next
  case (Back i V r vs ss V' k)
  have "above C h (V - R) vs" using Back.prems(2) by (auto simp: above_def)
  note IH = Back.IH [OF Back.prems(1) this]
  have i: "i \<in> R" using above_not_in [OF assms(3) Back.prems(2), of i] Back.hyps(1) by auto
  show ?case unfolding kids_unpack_def
  proof (intro allI impI)
    fix dl st m assume ok: "refs_ok F m R st"
    obtain ws s' m' where u: "mapS (unpack_data C dl None) ss st = (Inr ws, s')" "unpacked C F h R (V' - V) m st vs ws s' m'"
      by (rule kids_unpackE [OF IH ok])
    have n: "unpacked C F h R {} m st [Obj i] [rename m (Obj i)] st m" by (rule unpacked_nothing [OF ok]) (use i in simp)
    have "unpack_data C dl None (SList k [SStr ''dereference'', SInt (int r)]) st = (Inr (Obj (m i)), st)"
      using refs_okD(4) [OF ok i Back.hyps(2)] by (auto simp: unpack_dereference restore_dereference_def refid_key_def)
    from mapS_Cons [of "unpack_data C dl None", OF this u(1)] unpacked_append [OF n, of "V' - V"] u(2)
    show "\<exists>ws s' m'. mapS (unpack_data C dl None) (SList k [SStr ''dereference'', SInt (int r)] # ss) st = (Inr ws, s') \<and>
        unpacked C F h R (V' - V) m st (Obj i # vs) ws s' m'" by force
  qed
next
  case (Node i V s0 ks sx V1 vs ss V')
  have V: "insert i V \<subseteq> V1" "V1 \<subseteq> V'" using sexp_enc_visited [OF Node.hyps(5)] sexp_enc_visited [OF Node.hyps(6)] by auto
  have iR: "i \<notin> R" using Node.hyps(1) Node.prems(1) by blast
  let ?R = "if rigid C (h ! i) then R else insert i R"
  have "insert i V - ?R = (if rigid C (h ! i) then insert i (V - R) else V - R)"
    using iR Node.hyps(1) by auto
  moreover have "above C h (if rigid C (h ! i) then insert i (V - R) else V - R) (kids (h ! i))"
    by (rule above_kids [OF Node.prems(2)]) (use Node.hyps(2) in simp_all)
  ultimately have inner: "kids_unpack C F h ?R (V1 - insert i V) (kids (h ! i)) ks"
    by (intro Node.IH(1)) (use Node.prems(1) in auto)
  have "V1 - (R \<union> (V1 - V)) = V - R" using V by auto
  moreover have "above C h (V - R) vs" using Node.prems(2) by (auto simp: above_def)
  ultimately have rest: "kids_unpack C F h (R \<union> (V1 - V)) (V' - V1) vs ss"
    by (intro Node.IH(2)) (use Node.prems(1) V in auto)
  have new: "insert i (V1 - insert i V) = V1 - V" "(V1 - V) \<union> (V' - V1) = V' - V" "(V1 - V) \<inter> (V' - V1) = {}"
    using V Node.hyps(1) by auto
  show ?case unfolding kids_unpack_def
  proof (intro allI impI)
    fix dl st m assume ok: "refs_ok F m R st"
    obtain a s m1 where u: "unpack_data C dl None sx st = (Inr (Obj a), s)"
      "unpacked C F h R (V1 - V) m st [Obj i] [Obj a] s m1"
      using unpack_object [OF inner Node.hyps(3,4) heap_okD(1) [OF assms(2) Node.hyps(2)] ok iR _ assms(4), of dl] new(1) by auto
    have "refs_ok F m1 (R \<union> (V1 - V)) s" using u(2) by (simp add: unpacked_def)
    then obtain ws s' m' where v: "mapS (unpack_data C dl None) ss s = (Inr ws, s')"
      "unpacked C F h (R \<union> (V1 - V)) (V' - V1) m1 s vs ws s' m'"
      by (rule kids_unpackE [OF rest])
    from unpacked_append [OF u(2) v(2) new(3)] mapS_Cons [of "unpack_data C dl None", OF u(1) v(1)]
    show "\<exists>ws s' m'. mapS (unpack_data C dl None) (sx # ss) st = (Inr ws, s') \<and>
        unpacked C F h R (V' - V) m st (Obj i # vs) ws s' m'" unfolding new(2) by force
  qed
qed

end
