(* ===== verification/RoundTrip.thy ===== *)
theory RoundTrip
  imports Flattening Unpacking
begin

text \<open>
  Serializing a graph of objects and unserializing the data gives a copy of the graph with its
  sharing and its cycles, as long as no tuple or immutable instance lies on a cycle.  Where one
  does, the data may be impossible to read, or instances may silently stay blank.
\<close>

section \<open>Recovering the instances\<close>

definition recoverable :: "unserializer \<Rightarrow> restoring \<Rightarrow> bool" where
  "recoverable s r \<longleftrightarrow>
     (\<exists>n d items. i_instance r < length (objs s) \<and> objs s ! i_instance r = PInst n [] \<and> i_snapshot r = Obj d \<and>
        d < length (objs s) \<and> objs s ! d = PDict items \<and> distinct (map (key_norm \<circ> fst) items))"

lemma recover_recoverable:
  assumes "recoverable s r"
  obtains n d items where "objs s ! i_instance r = PInst n []" "i_snapshot r = Obj d" "objs s ! d = PDict items"
    "d < length (objs s)" "i_instance r < length (objs s)"
    "recover (i_instance r) (i_snapshot r) s = (Inr (), set_object (i_instance r) (PInst n items) s)"
proof -
  obtain n d items where r: "i_instance r < length (objs s)" "objs s ! i_instance r = PInst n []" "i_snapshot r = Obj d"
    "d < length (objs s)" "objs s ! d = PDict items" "distinct (map (key_norm \<circ> fst) items)"
    using assms unfolding recoverable_def by blast
  moreover have "py_updates items [] = items" using py_updates_distinct [of "[]" items] r(6) by simp
  ultimately show ?thesis using that by (simp add: recover_def)
qed

lemma recover_instances:
  assumes "\<And>r. r \<in> set rs \<Longrightarrow> i_recover r \<Longrightarrow> recoverable s r" "distinct (map i_instance rs)"
  shows "\<exists>us s'. recover_instances rs s = (Inr us, s') \<and> length (objs s') = length (objs s) \<and> instances s' = instances s \<and>
    (\<forall>x. x \<notin> i_instance ` {r \<in> set rs. i_recover r} \<longrightarrow> objs s' ! x = objs s ! x) \<and>
    (\<forall>r \<in> set rs. i_recover r \<longrightarrow> (\<exists>n d items. objs s ! i_instance r = PInst n [] \<and> i_snapshot r = Obj d \<and>
        objs s ! d = PDict items \<and> objs s' ! i_instance r = PInst n items))"
  using assms
proof (induction rs arbitrary: s)
  case Nil
  then show ?case by (simp add: recover_instances_def)
next
  case (Cons r rs)
  show ?case
  proof (cases "i_recover r")
    case False
    then have eq: "{q \<in> set (r # rs). i_recover q} = {q \<in> set rs. i_recover q}" by auto
    obtain us s' where "recover_instances rs s = (Inr us, s') \<and> length (objs s') = length (objs s) \<and> instances s' = instances s \<and>
      (\<forall>x. x \<notin> i_instance ` {r \<in> set rs. i_recover r} \<longrightarrow> objs s' ! x = objs s ! x) \<and>
      (\<forall>r \<in> set rs. i_recover r \<longrightarrow> (\<exists>n d items. objs s ! i_instance r = PInst n [] \<and> i_snapshot r = Obj d \<and>
        objs s ! d = PDict items \<and> objs s' ! i_instance r = PInst n items))"
      using Cons.IH [of s] Cons.prems by auto
    moreover from this have "recover_instances (r # rs) s = (Inr (() # us), s')"
      using False by (simp add: recover_instances_def)
    ultimately show ?thesis unfolding eq using False by auto
  next
    case True
    obtain n d items where r: "objs s ! i_instance r = PInst n []" "i_snapshot r = Obj d" "objs s ! d = PDict items"
      "d < length (objs s)" "i_instance r < length (objs s)"
      "recover (i_instance r) (i_snapshot r) s = (Inr (), set_object (i_instance r) (PInst n items) s)"
      by (rule recover_recoverable [of s r]) (use Cons.prems(1) True in auto)
    let ?s = "set_object (i_instance r) (PInst n items) s"
    have other: "i_instance q \<noteq> i_instance r" if "q \<in> set rs" for q using Cons.prems(2) that by (auto simp: image_iff)
    have same: "objs ?s ! x = objs s ! x" if "x \<noteq> i_instance r" for x using that by (simp add: set_object_def)
    have dict: "x \<noteq> i_instance r" if "objs s ! x = PDict e" for x e using that r(1) by auto
    have q: "recoverable ?s q" if "q \<in> set rs" "i_recover q" for q
      using Cons.prems(1) [of q] that same [OF other [OF that(1)]] same [OF dict]
      by (auto simp: recoverable_def set_object_def)
    obtain us s' where s': "recover_instances rs ?s = (Inr us, s')" "length (objs s') = length (objs ?s)" "instances s' = instances ?s"
      "\<forall>x. x \<notin> i_instance ` {r \<in> set rs. i_recover r} \<longrightarrow> objs s' ! x = objs ?s ! x"
      "\<forall>q \<in> set rs. i_recover q \<longrightarrow> (\<exists>n d items. objs ?s ! i_instance q = PInst n [] \<and> i_snapshot q = Obj d \<and>
        objs ?s ! d = PDict items \<and> objs s' ! i_instance q = PInst n items)"
      using Cons.IH [OF q] Cons.prems(2) by auto
    have "recover_instances (r # rs) s = (Inr (() # us), s')"
      using s'(1) r(6) True by (simp add: recover_instances_def)
    moreover have "objs s' ! x = objs s ! x" if "x \<notin> i_instance ` {q \<in> set (r # rs). i_recover q}" for x
    proof -
      have "x \<noteq> i_instance r" "x \<notin> i_instance ` {q \<in> set rs. i_recover q}" using that True by auto
      with s'(4) same show ?thesis by simp
    qed
    moreover have "\<exists>n d items. objs s ! i_instance q = PInst n [] \<and> i_snapshot q = Obj d \<and>
        objs s ! d = PDict items \<and> objs s' ! i_instance q = PInst n items" if q: "q \<in> set (r # rs)" "i_recover q" for q
    proof (cases "q \<in> set rs")
      case True
      then obtain n' d' items' where q': "objs ?s ! i_instance q = PInst n' []" "i_snapshot q = Obj d'"
        "objs ?s ! d' = PDict items'" "objs s' ! i_instance q = PInst n' items'" using s'(5) q(2) by blast
      moreover have "d' \<noteq> i_instance r" using q'(3) r(5) by (auto simp: set_object_def)
      ultimately show ?thesis using same other [OF True] by auto
    next
      case False
      then have "q = r" using q(1) by simp
      moreover have "objs s' ! i_instance r = objs ?s ! i_instance r" proof -
        have "i_instance r \<notin> i_instance ` {q \<in> set rs. i_recover q}" using other by force
        with s'(4) show ?thesis by simp
      qed
      ultimately show ?thesis using r by (auto simp: set_object_def)
    qed
    ultimately show ?thesis using s'(2,3) by (auto simp: set_object_def)
  qed
qed

section \<open>The objects that are unpacked are those that can be reached\<close>

lemma reachable_kid:
  "i < length h \<Longrightarrow> v \<in> set (kids (h ! i)) \<Longrightarrow> j \<in> reachable h v \<Longrightarrow> j \<in> reachable h (Obj i)"
  by (auto simp: reachable_def edges_def intro: converse_rtrancl_into_rtrancl)

lemma sexp_enc_reachable:
  "sexp_enc F h V vs ss V' \<Longrightarrow> j \<in> V' - V \<Longrightarrow> \<exists>v \<in> set vs. j \<in> reachable h v"
proof (induction arbitrary: j rule: sexp_enc.induct)
  case (Node i V s0 ks sx V1 vs ss V')
  consider "j = i" | "j \<in> V1 - insert i V" | "j \<in> V' - V1" using Node.prems by blast
  then show ?case
  proof cases
    case 1
    then show ?thesis by (auto simp: reachable_def)
  next
    case 2
    then obtain v where "v \<in> set (kids (h ! i))" "j \<in> reachable h v" using Node.IH(1) by blast
    then show ?thesis using reachable_kid [OF Node.hyps(2)] by auto
  next
    case 3
    then show ?thesis using Node.IH(2) by auto
  qed
qed auto

lemma reachable_closed:
  assumes "\<And>i j. i \<in> N \<Longrightarrow> Obj j \<in> set (kids (h ! i)) \<Longrightarrow> j \<in> N" "\<And>i. v = Obj i \<Longrightarrow> i \<in> N"
  shows "reachable h v \<subseteq> N"
proof
  fix j assume "j \<in> reachable h v"
  then obtain i where i: "v = Obj i" "(i, j) \<in> (edges h)\<^sup>*" by (auto simp: reachable_def)
  from i(2) show "j \<in> N"
    by (induction rule: rtrancl_induct) (use assms i(1) in \<open>auto simp: edges_def\<close>)
qed

section \<open>The round trip\<close>

lemma round_trip:
  assumes "sexp_enc F h {} [v] [d] N" "heap_ok C h" "no_rigid_cycle C h" "inj_refs F"
  obtains w h' log f where "unserialize C d = Inr (w, h', log)" "copies f h v h' w"
    "distinct log" "set log = f ` {i \<in> reachable h v. is_instance (h ! i)}"
proof -
  have "above C h ({} - {}) [v]" by (simp add: above_def)
  then have "kids_unpack C F h {} (N - {}) [v] [d]" by (intro unpack_encoded [OF assms]) simp_all
  moreover have "refs_ok F id {} unserializer_reset" by (simp add: refs_ok_def unserializer_reset_def)
  ultimately obtain ws s f where u: "mapS (unpack_data C False None) [d] unserializer_reset = (Inr ws, s)"
    "unpacked C F h {} N id unserializer_reset [v] ws s f"
    by (rule kids_unpackE [of C F h "{}" "N - {}" "[v]" "[d]" id unserializer_reset False]) simp
  then obtain w where w: "ws = [w]" "unpack_data C False None d unserializer_reset = (Inr w, s)"
    by (auto simp: bindS_Inr)
  have f: "w = rename f v" "\<And>j. v = Obj j \<Longrightarrow> j \<in> N" "refs_ok F f N s"
    using u(2) w(1) by (auto simp: unpacked_def)
  have c: "content C h {} N f 0 (objs s) (instances s)"
    using u(2) by (auto simp: unpacked_def unserializer_reset_def)
  note c' = contentD [OF c]
  have N: "N = reachable h v"
  proof
    show "N \<subseteq> reachable h v" using sexp_enc_reachable [OF assms(1)] by auto
    show "reachable h v \<subseteq> N" by (rule reachable_closed) (use c'(2) f(2) in auto)
  qed
  have bound: "i < length h" if "i \<in> N" for i using sexp_enc_visited [OF assms(1)] that by auto
  have inst: "recoverable s r" if r: "r \<in> set (instances s)" "i_recover r" for r
  proof -
    obtain i where i: "i \<in> N" "f i = i_instance r" "is_instance (h ! i)" "\<not> rigid C (h ! i)" using c'(5) [OF r] by blast
    then obtain n attrs d q where q: "h ! i = PInst n attrs" "objs s ! f i = PInst n []" "q \<in> set (instances s)" "recovers (f i) d q"
      "d < length (objs s)" "objs s ! d = PDict (rename_items f (snapshot attrs))" "f i < length (objs s)"
      using c'(1) [OF i(1)] by (auto simp: placed_def)
    have "q = r" using c'(3) q(3,4) r(1) i(2) by (auto simp: recovers_def distinct_map inj_on_def)
    moreover have "distinct (map (key_norm \<circ> fst) attrs)" using heap_okD(1) [OF assms(2) bound [OF i(1)]] q(1) by simp
    then have "distinct (map (key_norm \<circ> fst) (rename_items f (snapshot attrs)))"
      using distinct_snapshot by (simp add: rename_items_keys)
    ultimately show ?thesis using q i(2) by (auto simp: recoverable_def recovers_def)
  qed
  obtain us s' where s': "recover_instances (instances s) s = (Inr us, s')" "length (objs s') = length (objs s)"
    "instances s' = instances s" "\<forall>x. x \<notin> i_instance ` {r \<in> set (instances s). i_recover r} \<longrightarrow> objs s' ! x = objs s ! x"
    "\<forall>r \<in> set (instances s). i_recover r \<longrightarrow> (\<exists>n d items. objs s ! i_instance r = PInst n [] \<and> i_snapshot r = Obj d \<and>
        objs s ! d = PDict items \<and> objs s' ! i_instance r = PInst n items)"
    using recover_instances [OF inst c'(3)] by blast
  have "objs s' ! f i = rename_obj f (h ! i)" if i: "i \<in> N" for i
  proof (cases "is_instance (h ! i) \<and> \<not> rigid C (h ! i)")
    case True
    then obtain n attrs d q where q: "h ! i = PInst n attrs" "objs s ! f i = PInst n []" "q \<in> set (instances s)" "recovers (f i) d q"
      "objs s ! d = PDict (rename_items f (snapshot attrs))" using c'(1) [OF i] by (auto simp: placed_def)
    then show ?thesis using s'(5) by (fastforce simp: recovers_def rename_items_def)
  next
    case False
    have "f i \<notin> i_instance ` {r \<in> set (instances s). i_recover r}"
    proof
      assume "f i \<in> i_instance ` {r \<in> set (instances s). i_recover r}"
      then obtain r where "r \<in> set (instances s)" "i_recover r" "i_instance r = f i" by auto
      then obtain j where "j \<in> N" "f j = f i" "is_instance (h ! j) \<and> \<not> rigid C (h ! j)" using c'(5) by metis
      with False inj_onD [OF refs_okD(1) [OF f(3)]] i show False by metis
    qed
    then show ?thesis using s'(4) c'(1) [OF i] False by (auto simp: placed_def)
  qed
  moreover have "f i < length (objs s')" if "i \<in> N" for i using c'(1) [OF that] s'(2) by (simp add: placed_def)
  ultimately have "copies f h v (objs s') w"
    using f(1) refs_okD(1) [OF f(3)] unfolding copies_def N by simp
  moreover have "unserialize C d = Inr (w, objs s', map i_instance (rev (instances s)))"
    using w(2) s'(1,3) refs_okD(3) [OF f(3)] by (simp add: unserialize_def finish_pending.simps)
  moreover have "distinct (map i_instance (rev (instances s)))" using c'(3) by (simp add: rev_map [symmetric])
  moreover have "set (map i_instance (rev (instances s))) = f ` {i \<in> reachable h v. is_instance (h ! i)}"
    using c'(4) unfolding N by simp
  ultimately show ?thesis using that by blast
qed


section \<open>Delays stay inside\<close>

definition undelayed :: "('a, 's) attempt \<Rightarrow> bool" where
  "undelayed m \<longleftrightarrow> fst m \<noteq> Inl DelayPacking"

named_theorems undelayed_intros \<open>operations that do not raise DelayPacking\<close>

lemma undelayed_Inr [undelayed_intros]: "undelayed (Inr x, s)"
  by (simp add: undelayed_def)

lemma undelayed_bindS [undelayed_intros]:
  "undelayed m \<Longrightarrow> (\<And>x s. undelayed (f x s)) \<Longrightarrow> undelayed (bindS m f)"
  by (cases m; cases "fst m") (auto simp: undelayed_def bindS_def)

lemma undelayed_mapS [undelayed_intros]:
  "(\<And>x s. x \<in> set xs \<Longrightarrow> undelayed (f x s)) \<Longrightarrow> undelayed (mapS f xs s)"
  by (induction xs arbitrary: s) (auto intro!: undelayed_intros)

lemma undelayed_end [undelayed_intros]: "undelayed (end_delayed blob c a m)"
  by (cases m) (auto simp: undelayed_def end_delayed_def split: sum.split)

lemma undelayed_hashable [undelayed_intros]: "undelayed (hashable v s', s)"
  by (simp add: undelayed_def hashable_def split: pyv.split)

lemma undelayed_Inl: "undelayed (Inl e, s) \<longleftrightarrow> e \<noteq> DelayPacking"
  by (simp add: undelayed_def)

lemma undelayed_extend [undelayed_intros]:
  "undelayed (extend_list a vs s)" "undelayed (extend_set a vs s)" "undelayed (extend_dict a kvs s)"
proof -
  show "undelayed (extend_list a vs s)" by (simp add: extend_list_def undelayed_def split: pobj.split)
  show "undelayed (extend_set a vs s)"
    unfolding extend_set_def
    by (intro undelayed_bindS undelayed_mapS undelayed_hashable) (simp add: undelayed_def split: pobj.split)
  show "undelayed (extend_dict a kvs s)"
    unfolding extend_dict_def
  proof (intro undelayed_bindS undelayed_mapS)
    show "undelayed ((\<lambda>(k, v) s. (bindE (hashable k s) (\<lambda>k. Inr (k, v)), s)) kv s')" for kv s'
      by (cases kv) (simp add: undelayed_def hashable_def split: pyv.split)
  qed (simp add: undelayed_def split: pobj.split)
qed

lemma undelayed_recover [undelayed_intros]: "undelayed (recover a v s)"
  by (auto simp: recover_def undelayed_def split: pobj.split pyv.split)

lemma undelayed_note [undelayed_intros]: "undelayed (note_instance b a r v s)"
  by (simp add: note_instance_def undelayed_def)

lemma undelayed_immutable [undelayed_intros]: "undelayed (restore_immutable t v s)"
  by (auto simp: restore_immutable_def split: prod.split intro!: undelayed_intros)

lemma undelayed_dereference [undelayed_intros]: "undelayed (restore_dereference False r s)"
  by (auto simp: restore_dereference_def undelayed_def split: option.split)

lemma undelayed_unpack [undelayed_intros]:
  assumes named: "\<And>t ds. restore_named C t ds \<noteq> Inl DelayPacking"
  shows "undelayed (unpack_data C False ref d s)"
proof (induction "size d" arbitrary: d ref s rule: less_induct)
  case less
  show ?case
  proof (cases "\<exists>i t ds. d = SList i (SStr t # ds)")
    case False
    then show ?thesis by (cases "(C, False, ref, d, s)" rule: unpack_data.cases) (auto simp: undelayed_def)
  next
    case True
    then obtain i t ds where d: "d = SList i (SStr t # ds)" by blast
    have el: "undelayed (unpack_data C False r x s')" if "x \<in> set ds" for r x s'
      using less size_element [OF that] d by blast
    consider (plain) "t \<in> {''unicode'', ''boolean'', ''None'', ''class'', ''enum'', ''external''}"
      | (dereference) "t = ''dereference''" | (tuple) "t = ''tuple''" | (reference) "t = ''reference''" | (list) "t = ''list''"
      | (set) "t = ''set''" | (dictionary) "t = ''dictionary''" | (other) "t \<notin> set type_atoms"
      by (auto simp: type_atoms_def)
    then show ?thesis
    proof cases
      case plain
      then show ?thesis unfolding d
        by (elim insertE emptyE; hypsubst)
          (auto simp: unpack_data.simps(8) undelayed_def named unpack_unicode_def unpack_bool_def unpack_none_def
            split: list.split sexp.split)
    next
      case dereference
      then show ?thesis using undelayed_dereference by (auto simp: d unpack_data.simps(8) undelayed_def split: list.split)
    next
      case tuple
      show ?thesis unfolding d tuple unpack_tuple by (intro undelayed_intros el)
    next
      case reference
      show ?thesis
      proof (cases "\<exists>y r x. ds = [y, x] \<and> refid_key y = Some r")
        case True
        then obtain y r x where x: "ds = [y, x]" and r: "refid_key y = Some r" by blast
        have "undelayed (bindS (unpack_data C False (Some (r, data_id x)) x s) f)" if "\<And>v s. undelayed (f v s)"
          for f :: "pyv \<Rightarrow> unserializer \<Rightarrow> (pyv, unserializer) attempt"
          by (intro undelayed_bindS el that) (simp add: x)
        then show ?thesis unfolding d reference x unpack_reference [OF r]
          by (auto simp: undelayed_Inr undelayed_def split: option.split)
      qed (auto simp: reference d unpack_data.simps(8) undelayed_def split: list.split option.split)
    next
      case list
      show ?thesis unfolding d list unpack_list by (rule undelayed_end)
    next
      case set
      show ?thesis unfolding d set unpack_set by (rule undelayed_end)
    next
      case dictionary
      show ?thesis unfolding d dictionary unpack_dictionary by (rule undelayed_end)
    next
      case other
      show ?thesis
      proof (cases "t \<in> set (registered C) \<and> (\<exists>x. ds = [x])")
        case True
        then obtain x where x: "ds = [x]" and t: "t \<in> set (registered C)" by blast
        show ?thesis
        proof (cases "c_mutable (classes C t)")
          case True
          show ?thesis unfolding d x unpack_mutable [OF t other True] by (rule undelayed_end)
        next
          case False
          show ?thesis unfolding d x unpack_immutable [OF t other False]
            by (intro undelayed_bindS undelayed_immutable el) (simp add: x)
        qed
      next
        case False
        with other show ?thesis
          by (auto simp: d unpack_data.simps(8) type_atoms_def new_object_def Let_def undelayed_def split: list.split)
      qed
    qed
  qed
qed

lemma undelayed_odd_pair [undelayed_intros]: "undelayed (unpack_odd_pair d, s)"
  by (simp add: undelayed_def unpack_odd_pair_def split: sexp.split list.split)

lemma undelayed_continuation:
  assumes "\<And>t ds. restore_named C t ds \<noteq> Inl DelayPacking"
  shows "undelayed (run_continuation C c s)"
proof -
  have p: "undelayed (unpack_pair C False d s)" for d s
    by (auto simp: unpack_pair_def undelayed_def [of "(Inl _, _)"] split: sexp.split list.split
        intro!: undelayed_intros undelayed_unpack assms)
  show ?thesis by (cases c) (auto intro!: undelayed_intros undelayed_unpack assms p)
qed

lemma undelayed_finish:
  assumes "\<And>t ds. restore_named C t ds \<noteq> Inl DelayPacking"
  shows "undelayed (finish_pending C s)"
  using assms
proof (induction C s rule: finish_pending.induct)
  case (1 C s)
  show ?case
  proof (cases "pending s")
    case Nil
    then show ?thesis by (simp add: finish_pending.simps undelayed_def)
  next
    case (Cons c cs)
    obtain r s' where r: "run_continuation C c (s\<lparr>pending := cs\<rparr>) = (r, s')" by fastforce
    then have "r \<noteq> Inl DelayPacking"
      using undelayed_continuation [OF 1(2), of c "s\<lparr>pending := cs\<rparr>"] unfolding undelayed_def r by simp
    moreover have "undelayed (finish_pending C s')" if "r = Inr u" for u
      using 1(1) [OF Cons r [symmetric] that 1(2)] .
    ultimately show ?thesis using Cons r by (subst finish_pending.simps) (auto simp: undelayed_def split: sum.split)
  qed
qed


section \<open>Properties\<close>

text \<open>A converter for the examples: two mutable classes, and one whose instances are immutable.\<close>

definition sample_converter :: converter where
  "sample_converter =
     \<lparr>classes = (\<lambda>n. \<lparr>c_referenceable = True, c_mutable = (n \<noteq> ''Pair'')\<rparr>),
      registered = [''Node'', ''Leaf'', ''Pair''], caps = default_converter_caps, restore_named = (\<lambda>_ _. Inl TypeError)\<rparr>"

text \<open>A circular list with a dictionary it holds twice and an instance that refers back to the list.\<close>

definition sample_heap :: "pobj list" where
  "sample_heap =
     [PList [Obj 0, Obj 1, Obj 1, Obj 2], PDict [(AStr ''a'', Atom (AInt 3)), (AInt 1, Obj 3)],
      PInst ''Node'' [(AStr ''owner'', Obj 0), (AStr ''_cache'', Obj 1)], PTuple [Atom ANone, Atom (AUnicode ''x'')]]"

lemma sample_ok:
  "all_caps sample_converter" "heap_ok sample_converter sample_heap" "valid sample_heap (Obj 0)"
  "no_rigid_cycle sample_converter sample_heap"
proof -
  show "all_caps sample_converter" by (simp add: all_caps_def sample_converter_def)
  show "heap_ok sample_converter sample_heap" by code_simp
  show "valid sample_heap (Obj 0)" by code_simp
  show "no_rigid_cycle sample_converter sample_heap"
    unfolding no_rigid_cycle_def
  proof (intro allI impI notI)
    fix i assume i: "i < length sample_heap" "rigid sample_converter (sample_heap ! i)" "(i, i) \<in> (edges sample_heap)\<^sup>+"
    then have "i \<in> {0, 1, 2, 3}" by (auto simp: sample_heap_def)
    with i(2) have "i = 3" by (auto simp: sample_heap_def sample_converter_def)
    then obtain j where "(3, j) \<in> edges sample_heap" using tranclD [OF i(3)] by blast
    then show False by (auto simp: edges_def sample_heap_def)
  qed
qed

text \<open>C2: Unserializing what the s-expression serializer made of a graph of objects gives a copy of the
  graph: every object that can be reached has exactly one counterpart, with the same content (of instances the
  public attributes) and the same sharing and cycles, and \<open>restored\<close> is called once for every instance.
  It holds when no tuple or immutable instance lies on a cycle.\<close>

theorem serialization_copies_graph:
  assumes "all_caps C" "heap_ok C h" "valid h v" "no_rigid_cycle C h" "4 * length h < n"
  shows "\<exists>d w h' log f. serialize n C h v = Inr d \<and> unserialize C d = Inr (w, h', log) \<and> copies f h v h' w \<and>
    distinct log \<and> set log = f ` {i \<in> reachable h v. is_instance (h ! i)}"
proof -
  obtain F d N where s: "serialize n C h v = Inr d" "sexp_enc F h {} [v] [d] N" "\<And>i j r. F i = Some r \<Longrightarrow> F j = Some r \<Longrightarrow> i = j"
    by (rule serialize_encodes [OF assms(1-3,5)]) blast
  then have "inj_refs F" unfolding inj_refs_def by blast
  from round_trip [OF s(2) assms(2,4) this] s(1) show ?thesis by metis
qed

theorem serialization_copies_graph_witness:
  "\<exists>d w h' log f. serialize 17 sample_converter sample_heap (Obj 0) = Inr d \<and> unserialize sample_converter d = Inr (w, h', log) \<and>
    copies f sample_heap (Obj 0) h' w \<and> distinct log \<and>
    set log = f ` {i \<in> reachable sample_heap (Obj 0). is_instance (sample_heap ! i)}"
  by (rule serialization_copies_graph [OF sample_ok]) (simp add: sample_heap_def)

text \<open>C13: The serializer answers on every heap, with any cycles: its recursion is never deeper
  than four levels for each object.\<close>

theorem serialization_succeeds:
  assumes "all_caps C" "heap_ok C h" "valid h v" "4 * length h < n"
  shows "\<exists>d. serialize n C h v = Inr d"
  using serialize_encodes [OF assms] by metis

theorem serialization_succeeds_witness: "\<exists>d. serialize 17 sample_converter sample_heap (Obj 0) = Inr d"
  by (rule serialization_succeeds [OF sample_ok(1-3)]) (simp add: sample_heap_def)

text \<open>C18: The exception that delays unpacking never leaves the unserializer, whatever data of integers,
  floats, byte strings and lists it is given, and whatever references the data makes: an unknown
  reference, whether its identifier is a number or a string, ends in a value or in another exception.
  Where an element of a set or a key of a dictionary is a tuple or an instance the outcome is
  \<open>NotModelled\<close>, and nothing is claimed of the code.  Finding the types and enums a name stands for does
  not raise \<open>DelayPacking\<close>.\<close>

theorem delay_stays_inside:
  assumes "\<And>t ds. restore_named C t ds \<noteq> Inl DelayPacking"
  shows "unserialize C d \<noteq> Inl DelayPacking"
proof -
  have i: "undelayed (recover_instances rs s)" for rs s
    unfolding recover_instances_def by (intro undelayed_mapS) (auto intro: undelayed_intros)
  have "undelayed (bindS (unpack_data C False None d unserializer_reset) (\<lambda>v s.
      bindS (finish_pending C s) (\<lambda>_ s. bindS (recover_instances (instances s) s) (\<lambda>_ s. (Inr v, s)))))"
    by (intro undelayed_bindS undelayed_unpack undelayed_finish undelayed_Inr assms i)
  then show ?thesis unfolding unserialize_def undelayed_def by (auto split: prod.splits sum.splits)
qed

theorem delay_stays_inside_witness:
  "unserialize sample_converter (SList 0 [SStr ''list'', SList 1 [SStr ''dereference'', SStr ''x'']]) \<noteq> Inl DelayPacking"
  by (rule delay_stays_inside) (simp add: sample_converter_def)

text \<open>A tuple \<open>t = (l, x)\<close> with \<open>l = [t, x]\<close> is serialized, but the data cannot be unserialized: the
  first visit of \<open>x\<close> is inside of the list, which waits for the tuple, and the tuple needs \<open>x\<close>.\<close>

theorem cyclic_tuple_unreadable:
  shows "\<exists>d. serialize 13 sample_converter [PTuple [Obj 1, Obj 2], PList [Obj 0, Obj 2], PList []] (Obj 0) = Inr d \<and>
    unserialize sample_converter d = Inl ValueError"
proof -
  let ?h = "[PTuple [Obj 1, Obj 2], PList [Obj 0, Obj 2], PList []]"
  have "bindE (serialize 13 sample_converter ?h (Obj 0)) (unserialize sample_converter) = Inl ValueError" by code_simp
  moreover have "\<exists>d. serialize 13 sample_converter ?h (Obj 0) = Inr d"
    by (rule serialize_encodes [of sample_converter ?h "Obj 0" 13, OF sample_ok(1)])
      (code_simp, code_simp, simp, blast)
  ultimately show ?thesis by auto
qed

text \<open>A delay can lose an instance without an error: when the list \<open>[a, t]\<close> inside of the tuple \<open>t\<close> waits for the
  tuple, the instance of \<open>b\<close> that \<open>a\<close> holds is taken off the instances to recover although \<open>a\<close> is kept; the copy of
  \<open>b\<close> has no attributes and \<open>restored\<close> is never called for it.\<close>

theorem delayed_instance_stays_blank:
  shows "\<exists>d h' log. serialize 21 sample_converter
      [PList [Obj 1, Obj 3], PTuple [Obj 2], PList [Obj 3, Obj 1], PInst ''Node'' [(AStr ''b'', Obj 4)],
       PInst ''Leaf'' [(AStr ''n'', Atom (AInt 7))]] (Obj 0) = Inr d \<and>
    unserialize sample_converter d = Inr (Obj 0, h', log) \<and>
    h' ! 0 = PList [Obj 6, Obj 2] \<and> h' ! 2 = PInst ''Node'' [(AStr ''b'', Obj 4)] \<and> h' ! 4 = PInst ''Leaf'' [] \<and> log = [2]"
proof -
  let ?h = "[PList [Obj 1, Obj 3], PTuple [Obj 2], PList [Obj 3, Obj 1], PInst ''Node'' [(AStr ''b'', Obj 4)],
    PInst ''Leaf'' [(AStr ''n'', Atom (AInt 7))]]"
  have "bindE (serialize 21 sample_converter ?h (Obj 0)) (unserialize sample_converter) =
      Inr (Obj 0,
        [PList [Obj 6, Obj 2], PList [Obj 2, Obj 6], PInst ''Node'' [(AStr ''b'', Obj 4)], PDict [(AStr ''b'', Obj 4)],
         PInst ''Leaf'' [], PDict [(AStr ''n'', Atom (AInt 7))], PTuple [Obj 1]], [2])"
    by code_simp
  moreover have "\<exists>d. serialize 21 sample_converter ?h (Obj 0) = Inr d"
    by (rule serialize_encodes [of sample_converter ?h "Obj 0" 21, OF sample_ok(1)])
      (code_simp, code_simp, simp, blast)
  ultimately show ?thesis by auto
qed

end
