(* ===== verification/Requests.thy ===== *)
theory Requests
  imports Contractor
begin

text \<open>
  The mediums of the request protocol, \<open>agencies/requests.py\<close>: \<open>AgencyRequester\<close>, which sends a
  request and waits for replies until its time is over, and \<open>AgencyReplier\<close>, which an interest
  makes for a request that arrives.  Both are mediums like those of contracts.
\<close>

section \<open>The requester\<close>

record requester = middle +
  re_timeout :: time
  re_expiration :: "time option"

definition requester_new :: "string \<Rightarrow> time \<Rightarrow> recipient list \<Rightarrow> requester" where
  "requester_new gid t rs =
     \<lparr>state = None, waits = [], due = [], fired = [], next_wait = 0,
      jobs = [], agent_jobs = [], timeout = None, finalize_called = False, result = None,
      finish_due = [], guid = gid, remote_id = None, protocol_id = None,
      recipients = rs, sent = [], agent_log = [], re_timeout = t, re_expiration = None\<rparr>"

definition requester_initiate :: "time \<Rightarrow> string \<Rightarrow> requester \<Rightarrow> requester run" where
  "requester_initiate now proto s =
     (let s = set_machine_state Requested (set_protocol_id (Some proto) s);
          s = s\<lparr>re_expiration := Some (now + re_timeout s)\<rparr>
      in and_then (set_timeout now (re_expiration s) (Some Closed) (RunAndTerminate CallClosed) s)
           (call_agent_side (Agent CallInitiate) [Requested] NoTail None))"

text \<open>\<open>uid\<close> is what \<open>uuid1\<close> gives.\<close>

definition requester_request :: "time \<Rightarrow> string \<Rightarrow> message \<Rightarrow> requester \<Rightarrow> requester run" where
  "requester_request now uid q s =
     (let q = duplicate q in
      if \<not> ensure_state [Requested] s then (None, s)
      else
        let q = (if m_traversal q = None then q\<lparr>m_traversal := Some uid\<rparr> else q)
        in (None, snd (send_message now q (re_expiration s) [] None s)))"

definition requester_mapping :: "kind \<Rightarrow> (contract_state, unit) decision option" where
  "requester_mapping k = (case k of ResponseMessage \<Rightarrow> Some (One [Requested] Requested ()) | _ \<Rightarrow> None)"

definition on_reply :: "message \<Rightarrow> requester \<Rightarrow> requester run" where
  "on_reply m s = call_agent_side (Agent (CallGotReply m)) [Requested] Finalize None (cancel_timeout s)"

definition requester_on_message :: "message \<Rightarrow> requester \<Rightarrow> requester run" where
  "requester_on_message m s =
     (case event_handler requester_mapping (m_kind m) (state s) of
        None \<Rightarrow> (None, s)
      | Some (after, _) \<Rightarrow> on_reply m (set_machine_state after s))"

section \<open>The replier\<close>

record replier = middle +
  rp_request :: message

definition replier_new :: "string \<Rightarrow> message \<Rightarrow> replier" where
  "replier_new gid m =
     set_machine_state NoRequest
       \<lparr>state = None, waits = [], due = [], fired = [], next_wait = 0,
        jobs = [], agent_jobs = [], timeout = None, finalize_called = False, result = None,
        finish_due = [], guid = gid, remote_id = m_sender m, protocol_id = m_protocol_id m,
        recipients = as_recipients (m_reply_to m), sent = [], agent_log = [], rp_request = m\<rparr>"

definition replier_initiate :: "replier \<Rightarrow> replier run" where
  "replier_initiate s = (None, set_machine_state Requested s)"

definition replier_reply :: "time \<Rightarrow> message \<Rightarrow> replier \<Rightarrow> replier run" where
  "replier_reply now r s =
     (let s = snd (send_message now (duplicate r) (m_expires (rp_request s)) [] None s);
          s = set_machine_state Closed (cancel_timeout s)
      in (None, finalize NoneV s))"

definition replier_mapping :: "kind \<Rightarrow> (contract_state, unit) decision option" where
  "replier_mapping k = (case k of RequestMessage \<Rightarrow> Some (One [Requested] Requested ()) | _ \<Rightarrow> None)"

definition on_request :: "time \<Rightarrow> message \<Rightarrow> replier \<Rightarrow> replier run" where
  "on_request now m s =
     and_then (set_timeout now (m_expires m) (Some Closed) (FinalizeWith NoneV) s)
       (call_agent_side (Agent (CallRequested m)) [Requested] NoTail None)"

definition replier_on_message :: "time \<Rightarrow> message \<Rightarrow> replier \<Rightarrow> replier run" where
  "replier_on_message now m s =
     (case event_handler replier_mapping (m_kind m) (state s) of
        None \<Rightarrow> (None, s)
      | Some (after, _) \<Rightarrow> on_request now m (set_machine_state after s))"

section \<open>Events\<close>

datatype requester_event =
    QInitiate time string | QRequest time string message | QMessage message | QTimeout time
  | QRunJob nat | QReturn nat "outcome option" | QFires nat outcome | QNotify | QCleanup

datatype replier_event =
    PInitiate | PReply time message | PMessage time message | PTimeout time
  | PRunJob nat | PReturn nat "outcome option" | PFires nat outcome | PNotify | PCleanup

text \<open>Neither has methods of its own that run as jobs.\<close>

definition no_method :: "target \<Rightarrow> nat \<Rightarrow> 'a middle_scheme \<Rightarrow> 'a middle_scheme run" where
  "no_method t i s = (None, s)"

fun requester_exec :: "requester_event \<Rightarrow> requester \<Rightarrow> requester run" where
  "requester_exec (QInitiate now p) s = requester_initiate now p s"
| "requester_exec (QRequest now uid m) s = requester_request now uid m s"
| "requester_exec (QMessage m) s = requester_on_message m s"
| "requester_exec (QTimeout now) s = timeout_fires now s"
| "requester_exec (QRunJob i) s = (None, run_job no_method i s)"
| "requester_exec (QReturn i r) s = (None, job_return i r s)"
| "requester_exec (QFires i r) s = (None, job_fires i r s)"
| "requester_exec QNotify s = (None, deliver s)"
| "requester_exec QCleanup s = (None, cleanup s)"

fun replier_exec :: "replier_event \<Rightarrow> replier \<Rightarrow> replier run" where
  "replier_exec PInitiate s = replier_initiate s"
| "replier_exec (PReply now m) s = replier_reply now m s"
| "replier_exec (PMessage now m) s = replier_on_message now m s"
| "replier_exec (PTimeout now) s = timeout_fires now s"
| "replier_exec (PRunJob i) s = (None, run_job no_method i s)"
| "replier_exec (PReturn i r) s = (None, job_return i r s)"
| "replier_exec (PFires i r) s = (None, job_fires i r s)"
| "replier_exec PNotify s = (None, deliver s)"
| "replier_exec PCleanup s = (None, cleanup s)"

definition requester_step :: "requester_event \<Rightarrow> requester \<Rightarrow> requester" where
  "requester_step e s = snd (requester_exec e s)"

definition replier_step :: "replier_event \<Rightarrow> replier \<Rightarrow> replier" where
  "replier_step e s = snd (replier_exec e s)"

section \<open>Both are mediums\<close>

lemma middle_inv_expiration [inv_intros]: "middle_inv s \<Longrightarrow> middle_inv (s\<lparr>re_expiration := e\<rparr>)"
  by (rule middle_inv_cong [of s]) (simp_all add: same_end_def queued_def stage_of_def)

lemma middle_inv_protocol [inv_intros]: "middle_inv s \<Longrightarrow> middle_inv (s\<lparr>protocol_id := p\<rparr>)"
  by (rule middle_inv_cong [of s]) (simp_all add: same_end_def queued_def stage_of_def)

lemma stays_protocol [simp]:
  "stays s (t\<lparr>re_expiration := e\<rparr>) = stays s t" "stays u (v\<lparr>protocol_id := p\<rparr>) = stays u v"
  by (simp_all add: stays_def)

lemmas request_ops =
  requester_initiate_def requester_request_def requester_on_message_def on_reply_def set_protocol_id_def
  replier_initiate_def replier_reply_def replier_on_message_def on_request_def
  send_message_def no_method_def cancel_timeout_def Let_def

lemma requester_inv: "middle_inv s \<Longrightarrow> middle_inv (snd (requester_exec e s))"
  by (cases e) (auto simp: request_ops intro!: inv_intros split: option.split)

lemma replier_inv: "middle_inv s \<Longrightarrow> middle_inv (snd (replier_exec e s))"
  by (cases e) (auto simp: request_ops intro!: inv_intros split: option.split)

lemma stays_deliver: "stays s (deliver s)"
  by (simp add: stays_same_end deliver_same)

lemmas stays_events =
  stays_finalize stays_and_then stays_timeout_fires stays_run_job stays_job_return stays_job_fires stays_cleanup
  stays_deliver

lemma requester_stays: "middle_inv s \<Longrightarrow> stays s (snd (requester_exec e s))"
  by (cases e) (auto simp: request_ops intro!: stays_events split: option.split)

lemma replier_stays: "middle_inv s \<Longrightarrow> stays s (snd (replier_exec e s))"
  by (cases e) (auto simp: request_ops intro!: stays_events split: option.split)

interpretation requester: medium_laws requester_step
  by unfold_locales (simp_all only: requester_step_def requester_inv requester_stays)

interpretation replier: medium_laws replier_step
  by unfold_locales (simp_all only: replier_step_def replier_inv replier_stays)

end
