(* ===== verification/RequestProps.thy ===== *)
theory RequestProps
  imports Requests ContractorSafety
begin

text \<open>
  What the request protocol promises.  A requester is told either of replies or that its time is
  over, never of both; a request that is answered in time is answered to the requester who sent it,
  and ends both mediums.  A replier that answers twice, or late, is not stopped.
\<close>

section \<open>Replies or the end of the time\<close>

definition targets :: "'a middle_scheme \<Rightarrow> target set" where
  "targets s = (\<lambda>(t, _). t) ` set (job_plan s)"

definition replied :: "'a middle_scheme \<Rightarrow> bool" where
  "replied s \<longleftrightarrow> (\<exists>m. Agent (CallGotReply m) \<in> targets s)"

definition closing :: "'a middle_scheme \<Rightarrow> bool" where
  "closing s \<longleftrightarrow> RunAndTerminate CallClosed \<in> targets s \<or> Agent CallClosed \<in> targets s"

definition requester_target :: "target \<Rightarrow> bool" where
  "requester_target t \<longleftrightarrow>
     (case t of
        Agent c \<Rightarrow> c = CallInitiate \<or> c = CallClosed \<or> (\<exists>m. c = CallGotReply m)
      | RunAndTerminate c \<Rightarrow> c = CallClosed
      | _ \<Rightarrow> False)"

definition requester_ok :: "requester \<Rightarrow> bool" where
  "requester_ok s \<longleftrightarrow>
     (\<forall>c \<in> set (agent_log s). Agent c \<in> targets s) \<and>
     (\<forall>t \<in> targets s. requester_target t) \<and>
     (replied s \<longrightarrow> state s = Some Requested \<or> state s = Some Wtf) \<and>
     (closing s \<longrightarrow> state s = Some Closed \<or> state s = Some Wtf) \<and>
     \<not> (replied s \<and> closing s) \<and>
     (\<forall>t. timeout s = Some t \<longrightarrow> t_active t \<longrightarrow>
        \<not> replied s \<and> t_target t = RunAndTerminate CallClosed \<and> t_state t = Some Closed)"

lemma requester_ok_cong:
  assumes "requester_ok s" and "job_plan s' = job_plan s" and "agent_log s' = agent_log s"
    and "state s' = state s \<or> state s' = Some Wtf" and "timeout s' = timeout s \<or> timeout s' = None"
  shows "requester_ok s'"
proof -
  have "targets s' = targets s" "replied s' = replied s" "closing s' = closing s"
    by (simp_all add: targets_def replied_def closing_def assms(2))
  then show ?thesis using assms unfolding requester_ok_def by (elim disjE) auto
qed

lemma requester_ok_ends: "requester_ok s \<Longrightarrow> ends s s' \<Longrightarrow> requester_ok s'"
  by (erule requester_ok_cong) (auto simp: ends_def same_end_def)

lemma targets_call:
  "targets (snd (call_agent_side t e tt p s)) = (if finalize_called s then targets s else insert t (targets s))"
  by (simp add: targets_def job_plan_call)

lemma call_log [simp]: "agent_log (snd (call_agent_side t e tt p s)) = agent_log s"
  by (simp add: call_agent_side_def)

lemma requester_ok_call_closed:
  assumes "requester_ok s" and "\<not> replied s" and "state s = Some Closed \<or> state s = Some Wtf"
    and "t = RunAndTerminate CallClosed \<or> t = Agent CallClosed"
  shows "requester_ok (snd (call_agent_side t e tt p s))"
  using assms unfolding requester_ok_def
  by (auto simp: targets_call replied_def closing_def requester_target_def)

lemma requester_ok_timeout:
  assumes ok: "requester_ok s"
  shows "requester_ok (snd (timeout_fires now s))"
proof (cases "timeout s")
  case (Some t)
  show ?thesis
  proof (cases "t_active t \<and> t_at t \<le> now")
    case True
    then have t: "\<not> replied s" "t_target t = RunAndTerminate CallClosed" "t_state t = Some Closed"
      using ok Some unfolding requester_ok_def by blast+
    let ?s = "set_machine_state Closed (s\<lparr>timeout := Some (t\<lparr>t_active := False\<rparr>)\<rparr>)"
    have plan: "targets ?s = targets s" "replied ?s = replied s" "closing ?s = closing s"
      by (simp_all add: targets_def replied_def closing_def)
    then have "requester_ok ?s" using ok t(1) unfolding requester_ok_def by (auto simp: plan)
    then have "requester_ok (snd (call_agent_side (RunAndTerminate CallClosed) [Closed] NoTail None ?s))"
      by (rule requester_ok_call_closed) (use t(1) plan in simp_all)
    then show ?thesis using Some True t by (simp add: timeout_fires_def timeout_target_def)
  qed (use ok Some in \<open>auto simp: timeout_fires_def\<close>)
qed (use ok in \<open>simp add: timeout_fires_def\<close>)

lemma requester_ok_message:
  assumes ok: "requester_ok s"
  shows "requester_ok (snd (requester_on_message m s))"
proof (cases "event_handler requester_mapping (m_kind m) (state s)")
  case (Some d)
  then have "state s = Some Requested" "d = (Requested, ())"
    by (auto simp: event_handler_def requester_mapping_def cmp_state_def split: kind.splits if_splits option.splits)
  moreover from this have "\<not> closing s" using ok unfolding requester_ok_def by auto
  ultimately show ?thesis
    using ok Some unfolding requester_ok_def
    by (auto simp: requester_on_message_def on_reply_def cancel_timeout_def targets_call requester_target_def
        replied_def closing_def)
      (auto simp: targets_def)
qed (use ok in \<open>simp add: requester_on_message_def\<close>)

lemma plan_target: "i < length (jobs s) \<Longrightarrow> j_target (jobs s ! i) \<in> targets s"
  using plan_of [of i s] by (force simp: targets_def)

lemma targets_stage [simp]: "targets (set_stage i st s) = targets s"
  by (simp add: targets_def)

lemma requester_ok_run_job:
  assumes ok: "requester_ok s"
  shows "requester_ok (run_job no_method i s)"
proof (cases "i < length (jobs s) \<and> stage_of i s = Queued")
  case True
  let ?t = "j_target (jobs s ! i)" and ?e = "j_ensure (jobs s ! i)"
  have t: "?t \<in> targets s" using True plan_target by blast
  then have rt: "requester_target ?t" using ok unfolding requester_ok_def by blast
  have fin: "requester_ok u \<Longrightarrow> requester_ok (job_finish i r u)" for u r
    using requester_ok_ends [OF _ ends_job_finish] .
  show ?thesis
  proof (cases ?t)
    case (Agent c)
    let ?u = "set_stage i Executing (s\<lparr>agent_log := agent_log s @ [c]\<rparr>)"
    have same: "targets ?u = targets s" "state ?u = state s" "timeout ?u = timeout s" "agent_log ?u = agent_log s @ [c]"
      by (simp_all add: targets_def)
    have same': "replied ?u = replied s" "closing ?u = closing s" by (simp_all only: replied_def closing_def same)
    have "Agent c \<in> targets s" using t Agent by simp
    then have "requester_ok ?u" using ok unfolding requester_ok_def same same' by simp
    then show ?thesis using True Agent fin [OF ok] by (simp add: run_job_def Let_def)
  next
    case (RunAndTerminate c)
    then have c: "c = CallClosed" "closing s" using rt t by (auto simp: requester_target_def closing_def)
    let ?w = "set_stage i Waiting s"
    have w: "requester_ok ?w" by (rule requester_ok_ends [OF ok ends_set_stage])
    have "\<not> replied ?w" "state ?w = Some Closed \<or> state ?w = Some Wtf"
      using ok c(2) unfolding requester_ok_def by (auto simp: replied_def)
    then have "requester_ok (snd (run_and_terminate CallClosed [] (Some i) ?w))"
      unfolding run_and_terminate_def by (intro requester_ok_call_closed [OF w]) simp_all
    then have r: "requester_ok (case run_and_terminate CallClosed [] (Some i) ?w of (None, u) \<Rightarrow> u
        | (Some e, u) \<Rightarrow> job_finish i (AgentFailure e) u)"
      using fin by (auto split: prod.split option.split)
    have "run_job no_method i s = (if ?e \<noteq> [] \<and> \<not> ensure_state ?e s then job_finish i FalseV s
      else case run_and_terminate CallClosed [] (Some i) ?w of (None, u) \<Rightarrow> u
        | (Some e, u) \<Rightarrow> job_finish i (AgentFailure e) u)"
      unfolding run_job_def Let_def RunAndTerminate c(1) target.case if_P [OF True] ..
    then show ?thesis using r fin [OF ok, of FalseV] by presburger
  qed (use rt in \<open>simp_all add: requester_target_def\<close>)
qed (use ok in \<open>auto simp: run_job_def\<close>)

lemma ends_cancel_job: "ends s (cancel_job i s)"
proof (cases "cancellable s i")
  case True
  then show ?thesis
    using ends_trans [OF ends_trans [OF ends_set_stage ends_remove] ends_tail] by (simp add: cancel_job_def)
qed (simp add: cancel_job_def ends_def)

lemma requester_ok_cancel: "requester_ok s \<Longrightarrow> requester_ok (fold cancel_job is s)"
  by (induction "is" arbitrary: s) (auto intro: requester_ok_ends ends_cancel_job)

lemma requester_ok_cleanup:
  assumes "requester_ok s"
  shows "requester_ok (cleanup s)"
proof -
  have "requester_ok ((cancel_timeout s)\<lparr>agent_jobs := []\<rparr>)"
    by (rule requester_ok_cong [OF assms]) (simp_all add: job_plan_def cancel_timeout_def)
  then have "requester_ok (cancel_agent_jobs (cancel_timeout s))"
    using requester_ok_cancel by (simp add: cancel_agent_jobs_def cancel_timeout_def Let_def)
  then show ?thesis by (auto simp: cleanup_def Let_def intro: requester_ok_ends ends_finalize)
qed

definition starts_again :: "requester_event \<Rightarrow> bool" where
  "starts_again e \<longleftrightarrow> (case e of QInitiate _ _ \<Rightarrow> True | _ \<Rightarrow> False)"

lemma requester_ok_step: "requester_ok s \<Longrightarrow> \<not> starts_again e \<Longrightarrow> requester_ok (requester_step e s)"
proof (cases e)
  case (QRequest now uid m)
  then show "requester_ok s \<Longrightarrow> ?thesis"
    by (elim requester_ok_cong) (simp_all add: requester_step_def requester_request_def send_message_def Let_def)
next
  case QNotify
  then show "requester_ok s \<Longrightarrow> ?thesis"
    by (elim requester_ok_cong)
      (use same_endD [OF deliver_same(1) [of s]] in \<open>simp_all add: requester_step_def deliver_same job_plan_def\<close>)
qed (auto simp: requester_step_def starts_again_def requester_ok_message requester_ok_timeout requester_ok_run_job
    requester_ok_cleanup job_return_def job_fires_def intro: requester_ok_ends ends_set_stage ends_job_finish split: option.split)

lemma requester_ok_start: "requester_ok (requester_step (QInitiate now p) (requester_new gid t rs))"
  by (simp add: requester_ok_def requester_step_def requester_initiate_def requester_new_def set_timeout_def
      cancel_timeout_def set_protocol_id_def set_machine_state_def call_agent_side_def targets_def job_plan_def
      replied_def closing_def requester_target_def Let_def)

text \<open>C40: Whatever replies arrive and however late jobs and timeouts run, the agent that made a request, whose
  medium was initiated once, is told of replies or that the request is closed, never of both.\<close>

theorem replies_exclude_closing:
  assumes "filter starts_again es = []"
  shows "CallClosed \<notin> set (agent_log (fold requester_step es (requester_step (QInitiate now p) (requester_new gid t rs))))
    \<or> CallGotReply m \<notin> set (agent_log (fold requester_step es (requester_step (QInitiate now p) (requester_new gid t rs))))"
proof -
  have "requester_ok s \<Longrightarrow> filter starts_again es = [] \<Longrightarrow> requester_ok (fold requester_step es s)" for s es
    by (induction es arbitrary: s) (auto simp: requester_ok_step split: if_splits)
  from this [OF requester_ok_start assms]
  show ?thesis unfolding requester_ok_def replied_def closing_def by blast
qed

section \<open>A request that is answered\<close>

text \<open>The last message sent.\<close>

definition last_sent :: "'a middle_scheme \<Rightarrow> message" where
  "last_sent s = snd (last (sent s))"

lemma request_sent:
  assumes "state s = Some Requested"
  shows "requester_step (QRequest now uid q) s =
      s\<lparr>sent := sent s @ [(recipients s, last_sent (requester_step (QRequest now uid q) s))]\<rparr>"
    and "m_kind (last_sent (requester_step (QRequest now uid q) s)) = m_kind q"
    and "m_sender (last_sent (requester_step (QRequest now uid q) s)) = Some (guid s)"
    and "m_protocol_id (last_sent (requester_step (QRequest now uid q) s)) = protocol_id s"
    and "\<exists>e. m_expires (last_sent (requester_step (QRequest now uid q) s)) = Some e"
  using assms
  by (auto simp: requester_step_def requester_request_def send_message_def ensure_state_def cmp_state_def Let_def last_sent_def
      split: option.split)

lemma replier_answers:
  assumes "m_kind rq = RequestMessage" and "m_expires rq = Some e" and "m_reply_to rq = Some addr"
    and "m_kind a = ResponseMessage" and "m_expires a = None" and "m_sender rq = Some g" and "g \<noteq> []"
    and "p = fold replier_step [PInitiate, PMessage now2 rq, PRunJob 0, PReply now3 a] (replier_new gid rq)"
  shows "sent p = [([addr], last_sent p)] \<and> m_kind (last_sent p) = ResponseMessage \<and> m_receiver (last_sent p) = Some g \<and>
    m_protocol_id (last_sent p) = m_protocol_id rq \<and> m_expires (last_sent p) = Some e \<and> result p = Some NoneV \<and>
    agent_log p = [CallRequested rq]"
  using assms
  by (simp add: replier_step_def replier_initiate_def replier_on_message_def event_handler_def replier_mapping_def
      cmp_state_def on_request_def set_timeout_def replier_new_def set_machine_state_def call_agent_side_def
      cancel_timeout_def run_job_def stage_of_def ensure_state_def set_stage_def replier_reply_def send_message_def
      as_recipients_def or_remote_def finalize_def cancel_quietly_def cancellable_def last_sent_def duplicate_def
      duplicate_base_def Let_def)

text \<open>\<open>reply\<close> asks for no state: every call sends a message, after the end of the replier too.\<close>

lemma sent_finalize: "sent (finalize r s) = sent s"
  using ends_finalize [of s r] by (simp add: ends_def)

lemma every_reply_is_sent:
  "map (m_kind \<circ> snd) (sent (replier_step (PReply now a) s)) = map (m_kind \<circ> snd) (sent s) @ [m_kind a]"
  by (simp add: replier_step_def replier_reply_def send_message_def duplicate_def duplicate_base_def
      cancel_timeout_def sent_finalize Let_def split: option.split)

text \<open>The reply reaches the requester, whose agent handles it.\<close>

lemma finalize_open:
  assumes "\<not> finalize_called s"
  shows "agent_log (finalize r s) = agent_log s" "result (finalize r s) = Some r" "timeout (finalize r s) = None"
    "finalize_called (finalize r s)"
proof -
  have "agent_log (fold cancel_quietly is s) = agent_log s \<and> result (fold cancel_quietly is s) = result s \<and>
      timeout (fold cancel_quietly is s) = timeout s \<and> finalize_called (fold cancel_quietly is s) = finalize_called s"
    for "is" and s :: "'a middle_scheme"
    by (induction "is" arbitrary: s) (simp_all add: cancel_quietly_def set_stage_def)
  then show "agent_log (finalize r s) = agent_log s" "result (finalize r s) = Some r" "timeout (finalize r s) = None"
    "finalize_called (finalize r s)"
    using assms by (simp_all add: finalize_def cancel_timeout_def Let_def)
qed

lemma reply_is_handled:
  assumes "\<not> is_failure v" and "state s = Some Requested" and "\<not> finalize_called s" and "m_kind r = ResponseMessage" and "i = length (jobs s)"
    and "s' = fold requester_step [QMessage r, QRunJob i, QReturn i (Some v)] s"
  shows "agent_log s' = agent_log s @ [CallGotReply r] \<and> result s' = Some v \<and> timeout s' = None \<and> finalize_called s'"
  using assms
  by (simp add: requester_step_def requester_on_message_def event_handler_def requester_mapping_def cmp_state_def
      on_reply_def cancel_timeout_def call_agent_side_def set_machine_state_def run_job_def stage_of_def ensure_state_def
      set_stage_def job_return_def job_finish_def run_tail_def finalize_open remove_agent_job_def end_parent_def
      Let_def nth_append)


section \<open>Concrete requests\<close>

definition asked :: requester where
  "asked = requester_step (QInitiate 0 ''p'') (requester_new ''me'' 10 [agent_recipient ''you'' None])"

theorem replies_exclude_closing_witness:
  "CallClosed \<notin> set (agent_log (fold requester_step [QRunJob 0, QMessage (new_message ResponseMessage), QTimeout 20, QRunJob 1] asked))"
proof -
  let ?es = "[QRunJob 0, QMessage (new_message ResponseMessage), QTimeout 20, QRunJob 1]"
  have "filter starts_again ?es = []" by (simp add: starts_again_def)
  from replies_exclude_closing [OF this, of 0 "''p''" "''me''" 10 "[agent_recipient ''you'' None]" "new_message ResponseMessage"]
  have "CallClosed \<notin> set (agent_log (fold requester_step ?es asked)) \<or>
      CallGotReply (new_message ResponseMessage) \<notin> set (agent_log (fold requester_step ?es asked))"
    by (simp only: asked_def)
  moreover have "agent_log (fold requester_step ?es asked) = [CallInitiate, CallGotReply (new_message ResponseMessage)]"
    by code_simp
  ultimately show ?thesis by simp
qed

definition asking :: requester where
  "asking = requester_step (QRequest 1 ''u'' (new_message RequestMessage)) asked"

definition arrived :: message where
  "arrived = (last_sent asking)\<lparr>m_reply_to := Some (agent_recipient ''me'' None)\<rparr>"

definition answering :: replier where
  "answering = fold replier_step [PInitiate, PMessage 2 arrived, PRunJob 0, PReply 3 (new_message ResponseMessage)]
     (replier_new ''r'' arrived)"

definition answered :: requester where
  "answered = fold requester_step
     [QMessage (last_sent answering), QRunJob (length (jobs asked)), QReturn (length (jobs asked)) (Some NoneV)] asking"


end
