(* ===== verification/WebStrings.thy ===== *)
theory WebStrings
  imports Strings
begin

text \<open>
  More of Python's byte strings, for the modules that speak HTTP: case, \<open>strip\<close>, \<open>split\<close> with a limit
  and at white space, \<open>join\<close>, and the quoting of \<open>urllib\<close>.  Splitting and joining are inverse to each
  other, and so are quoting and unquoting.
\<close>

section \<open>Characters\<close>

definition char_code :: "char \<Rightarrow> int" where
  "char_code c = of_char c"

definition in_range :: "int \<Rightarrow> int \<Rightarrow> char \<Rightarrow> bool" where
  "in_range a b c \<longleftrightarrow> a \<le> char_code c \<and> char_code c \<le> b"

definition is_upper :: "char \<Rightarrow> bool" where "is_upper c = in_range 65 90 c"
definition is_lower :: "char \<Rightarrow> bool" where "is_lower c = in_range 97 122 c"
definition is_digit :: "char \<Rightarrow> bool" where "is_digit c = in_range 48 57 c"

definition to_lower :: "char \<Rightarrow> char" where
  "to_lower c = (if is_upper c then char_of (char_code c + 32) else c)"

definition to_upper :: "char \<Rightarrow> char" where
  "to_upper c = (if is_lower c then char_of (char_code c - 32) else c)"

definition lower :: "string \<Rightarrow> string" where
  "lower s = map to_lower s"

definition capitalize :: "string \<Rightarrow> string" where
  "capitalize s = (case s of [] \<Rightarrow> [] | c # cs \<Rightarrow> to_upper c # lower cs)"

definition lstrip :: "string \<Rightarrow> string" where
  "lstrip s = dropWhile is_space s"

definition strip :: "string \<Rightarrow> string" where
  "strip s = rev (lstrip (rev (lstrip s)))"

abbreviation all_bools :: "(bool \<Rightarrow> bool) \<Rightarrow> bool" where
  "all_bools P \<equiv> list_all P [True, False]"

lemma all_bools_iff: "all_bools P \<longleftrightarrow> (\<forall>b. P b)"
  by (simp add: all_bool_eq)

text \<open>A statement about all bytes is checked for each.\<close>

lemma all_chars:
  "all_bools (\<lambda>b0. all_bools (\<lambda>b1. all_bools (\<lambda>b2. all_bools (\<lambda>b3. all_bools (\<lambda>b4. all_bools (\<lambda>b5.
     all_bools (\<lambda>b6. all_bools (\<lambda>b7. P (Char b0 b1 b2 b3 b4 b5 b6 b7))))))))) \<Longrightarrow> P c"
  unfolding all_bools_iff by (cases c) blast

lemma lower_facts: "to_lower (to_upper c) = to_lower c \<and> to_lower (to_lower c) = to_lower c"
  by (rule all_chars [where P = "\<lambda>c. to_lower (to_upper c) = to_lower c \<and> to_lower (to_lower c) = to_lower c"])
    code_simp

lemma lower_capitalize: "lower (capitalize s) = lower s"
  by (cases s) (simp_all add: lower_def capitalize_def lower_facts)

lemma lower_append [simp]: "lower (a @ b) = lower a @ lower b"
  by (simp add: lower_def)

section \<open>Splitting and joining\<close>

text \<open>\<open>s.split(c, 1)\<close>: the part before the first separator and, if there is one, the rest.\<close>

definition split_once :: "char \<Rightarrow> string \<Rightarrow> string \<times> string option" where
  "split_once c s =
     (takeWhile (\<lambda>x. x \<noteq> c) s,
      case dropWhile (\<lambda>x. x \<noteq> c) s of [] \<Rightarrow> None | _ # rest \<Rightarrow> Some rest)"

text \<open>\<open>s.rsplit(c, 1)\<close>: the part before the last separator and the rest.\<close>

definition rsplit_once :: "char \<Rightarrow> string \<Rightarrow> string \<times> string option" where
  "rsplit_once c s =
     (case split_once c (rev s) of
        (_, None) \<Rightarrow> (s, None)
      | (a, Some b) \<Rightarrow> (rev b, Some (rev a)))"

text \<open>\<open>s.split(c, n)\<close>\<close>

fun split_limit :: "char \<Rightarrow> nat \<Rightarrow> string \<Rightarrow> string list" where
  "split_limit c 0 s = [s]"
| "split_limit c (Suc n) s =
     (case split_once c s of (a, None) \<Rightarrow> [a] | (a, Some rest) \<Rightarrow> a # split_limit c n rest)"

text \<open>\<open>s.split()\<close>\<close>

fun words_from :: "string \<Rightarrow> string \<Rightarrow> string list" where
  "words_from w [] = (if w = [] then [] else [rev w])"
| "words_from w (c # cs) =
     (if is_space c then (if w = [] then words_from [] cs else rev w # words_from [] cs)
      else words_from (c # w) cs)"

definition split_words :: "string \<Rightarrow> string list" where
  "split_words s = words_from [] s"

fun join :: "string \<Rightarrow> string list \<Rightarrow> string" where
  "join sep [] = []"
| "join sep [s] = s"
| "join sep (s # t # ts) = s @ sep @ join sep (t # ts)"

lemma split_on_no_sep: "p \<in> set (split_on c s) \<Longrightarrow> c \<notin> set p"
  by (induction s arbitrary: p) (auto split: list.splits if_splits)

lemma join_split: "join [c] (split_on c s) = s"
proof (induction s)
  case (Cons x xs)
  obtain p ps where ps: "split_on c xs = p # ps" by (cases "split_on c xs") auto
  show ?case using Cons ps by (cases ps) auto
qed simp

lemma split_join:
  "ps \<noteq> [] \<Longrightarrow> \<forall>p \<in> set ps. c \<notin> set p \<Longrightarrow> split_on c (join [c] ps) = ps"
proof (induction ps rule: induct_list012)
  case (3 p q ps)
  then show ?case by (simp add: split_on_append)
qed (simp_all add: split_on_plain)

lemma split_once_plain:
  assumes "c \<notin> set s"
  shows "split_once c s = (s, None)"
proof -
  have "\<forall>x \<in> set s. x \<noteq> c" using assms by auto
  then have "takeWhile (\<lambda>x. x \<noteq> c) s = s" and "dropWhile (\<lambda>x. x \<noteq> c) s = []" by simp_all
  then show ?thesis by (simp only: split_once_def list.case)
qed

lemma split_once_at: "c \<notin> set a \<Longrightarrow> split_once c (a @ c # b) = (a, Some b)"
proof -
  assume "c \<notin> set a"
  then have "\<forall>x \<in> set a. x \<noteq> c" by auto
  then show ?thesis by (simp add: split_once_def takeWhile_append2 dropWhile_append2)
qed

lemma rsplit_once_plain: "c \<notin> set s \<Longrightarrow> rsplit_once c s = (s, None)"
  by (simp add: rsplit_once_def split_once_plain)

lemma rsplit_once_at: "c \<notin> set b \<Longrightarrow> rsplit_once c (a @ c # b) = (a, Some b)"
  by (simp add: rsplit_once_def split_once_at)

text \<open>Text that neither starts nor ends with white space is not changed by \<open>strip\<close>, and white space
  around it is removed.\<close>

definition stripped :: "string \<Rightarrow> bool" where
  "stripped s \<longleftrightarrow> s = [] \<or> (\<not> is_space (hd s) \<and> \<not> is_space (last s))"

lemma lstrip_id: "s = [] \<or> \<not> is_space (hd s) \<Longrightarrow> lstrip s = s"
  by (cases s) (auto simp: lstrip_def)

lemma strip_stripped: "stripped s \<Longrightarrow> strip s = s"
  by (auto simp: strip_def stripped_def lstrip_id hd_rev)

lemma strip_space: "is_space c \<Longrightarrow> strip (c # s) = strip s"
  by (simp add: strip_def lstrip_def)

lemma words_from_word: "\<forall>c \<in> set a. \<not> is_space c \<Longrightarrow> words_from w (a @ s) = words_from (rev a @ w) s"
  by (induction a arbitrary: w) auto

lemma split_words_join:
  assumes "\<forall>p \<in> set ps. p \<noteq> [] \<and> (\<forall>c \<in> set p. \<not> is_space c)"
  shows "split_words (join '' '' ps) = ps"
  using assms
proof (induction ps rule: induct_list012)
  case (2 p)
  then have "words_from [] (p @ []) = [p]" by (subst words_from_word) auto
  then show ?case by (simp add: split_words_def)
next
  case (3 p q ps)
  then have "words_from [] (p @ '' '' @ join '' '' (q # ps)) = p # words_from [] (join '' '' (q # ps))"
    by (subst words_from_word) auto
  then show ?case using 3 by (simp add: split_words_def)
qed (simp add: split_words_def)

section \<open>Quoting\<close>

text \<open>\<open>urllib.quote_plus(s, safe='')\<close> and \<open>urllib.unquote_plus\<close>.\<close>

definition always_safe :: "char \<Rightarrow> bool" where
  "always_safe c \<longleftrightarrow> is_upper c \<or> is_lower c \<or> is_digit c \<or> c \<in> {CHR ''_'', CHR ''.'', CHR ''-''}"

definition hex_digit :: "int \<Rightarrow> char" where
  "hex_digit n = char_of (if n < 10 then 48 + n else 55 + n)"

definition hex_val :: "char \<Rightarrow> int option" where
  "hex_val c =
     (if is_digit c then Some (char_code c - 48)
      else if in_range 65 70 c then Some (char_code c - 55)
      else if in_range 97 102 c then Some (char_code c - 87)
      else None)"

definition quote_char :: "char \<Rightarrow> string" where
  "quote_char c =
     (if always_safe c then [c]
      else if c = CHR '' '' then [CHR ''+'']
      else [CHR 0x25, hex_digit (char_code c div 16), hex_digit (char_code c mod 16)])"

definition quote_plus :: "string \<Rightarrow> string" where
  "quote_plus s = concat (map quote_char s)"

text \<open>\<open>unquote\<close> leaves a percent sign that two hexadecimal digits do not follow.\<close>

fun unquote :: "string \<Rightarrow> string" where
  "unquote (p # a # b # cs) =
     (if p = CHR 0x25 then
        (case (hex_val a, hex_val b) of
           (Some x, Some y) \<Rightarrow> char_of (16 * x + y) # unquote cs
         | _ \<Rightarrow> p # unquote (a # b # cs))
      else p # unquote (a # b # cs))"
| "unquote (p # cs) = p # unquote cs"
| "unquote [] = []"

definition unquote_plus :: "string \<Rightarrow> string" where
  "unquote_plus s = unquote (map (\<lambda>c. if c = CHR ''+'' then CHR '' '' else c) s)"

definition quote_ok :: "char \<Rightarrow> bool" where
  "quote_ok c \<longleftrightarrow>
     (case quote_char c of
        [d] \<Rightarrow> d \<noteq> CHR 0x25 \<and> d \<noteq> CHR ''/'' \<and> (if d = CHR ''+'' then c = CHR '' '' else c = d)
      | [p, a, b] \<Rightarrow>
          p = CHR 0x25 \<and> a \<notin> {CHR ''+'', CHR ''/''} \<and> b \<notin> {CHR ''+'', CHR ''/''} \<and>
          (case (hex_val a, hex_val b) of (Some x, Some y) \<Rightarrow> char_of (16 * x + y) = c | _ \<Rightarrow> False)
      | _ \<Rightarrow> False)"

lemma quote_ok_all: "quote_ok c"
  by (rule all_chars [where P = quote_ok]) code_simp

lemma unquote_safe: "p \<noteq> CHR 0x25 \<Longrightarrow> unquote (p # cs) = p # unquote cs"
  by (cases cs; cases "tl cs") auto

lemma unquote_quote: "unquote_plus (quote_plus s) = s"
proof (induction s)
  case Nil
  then show ?case by (simp add: unquote_plus_def quote_plus_def)
next
  case (Cons c s)
  let ?plus = "\<lambda>c. if c = CHR ''+'' then CHR '' '' else c"
  have IH: "unquote (map ?plus (quote_plus s)) = s" using Cons by (simp add: unquote_plus_def)
  have q: "quote_plus (c # s) = quote_char c @ quote_plus s" by (simp add: quote_plus_def)
  note ok = quote_ok_all [of c, unfolded quote_ok_def]
  from ok consider d where "quote_char c = [d]" | p a b where "quote_char c = [p, a, b]"
    by (auto split: list.splits)
  then show ?case
  proof cases
    case 1
    with ok have "?plus d = c" "?plus d \<noteq> CHR 0x25" by (auto split: if_splits)
    then show ?thesis using 1 IH by (simp add: unquote_plus_def q unquote_safe)
  next
    case 2
    with ok have "p = CHR 0x25" "?plus a = a" "?plus b = b" by (auto split: option.splits)
    moreover from ok 2 obtain x y where "hex_val a = Some x" "hex_val b = Some y" "char_of (16 * x + y) = c"
      by (auto split: option.splits)
    ultimately show ?thesis using 2 IH by (simp add: unquote_plus_def q)
  qed
qed

lemma quote_no_slash: "CHR ''/'' \<notin> set (quote_plus s)"
proof -
  have "CHR ''/'' \<notin> set (quote_char c)" for c
    using quote_ok_all [of c] unfolding quote_ok_def by (auto split: list.splits)
  then show ?thesis by (auto simp: quote_plus_def)
qed

end
