(* ===== verification/Enums.thy ===== *)
theory Enums
  imports Prelude
begin

text \<open>
  Enumerations (\<open>common/enum.py\<close>).  An item is its number; a class keeps the name of every item and
  the item of every name.
\<close>

record enum_class =
  enum_values :: "(int, string) dict"
  enum_names :: "(string, int) dict"

definition no_items :: enum_class where
  "no_items = \<lparr>enum_values = [], enum_names = []\<rparr>"

text \<open>What is assigned in the body of a class: nothing, a number, or a number and a name.\<close>

datatype enum_value = Next | Number int | Named int string | NotInt

definition enum_add :: "string \<Rightarrow> enum_value \<Rightarrow> enum_class \<Rightarrow> exn + enum_class" where
  "enum_add attr v e =
     (let store = (\<lambda>n name.
        if dict_has (enum_values e) n then Inl ValueError
        else Inr \<lparr>enum_values = AList.update n name (enum_values e),
                  enum_names = AList.update name n (enum_names e)\<rparr>)
      in case v of
           Next \<Rightarrow> if enum_values e = [] then Inl ValueError
                   else store (Max (set (map fst (enum_values e))) + 1) attr
         | Number n \<Rightarrow> store n attr
         | Named n name \<Rightarrow> store n name
         | NotInt \<Rightarrow> Inl TypeError)"

text \<open>A key to look up: a number, a text, an item of another class, or something else.\<close>

datatype enum_key = KeyInt int | KeyStr string | KeyForeign | KeyOther

definition enum_get :: "enum_class \<Rightarrow> enum_key \<Rightarrow> exn + int" where
  "enum_get e k =
     (case k of
        KeyForeign \<Rightarrow> Inl TypeError
      | KeyInt n \<Rightarrow> if dict_has (enum_values e) n then Inr n else Inl KeyError
      | KeyStr s \<Rightarrow> (case map_of (enum_names e) s of None \<Rightarrow> Inl KeyError | Some n \<Rightarrow> Inr n)
      | KeyOther \<Rightarrow> Inl TypeError)"

text \<open>\<open>key in cls\<close>; \<open>int(key)\<close> of something else is taken to raise.\<close>

definition enum_contains :: "enum_class \<Rightarrow> enum_key \<Rightarrow> exn + bool" where
  "enum_contains e k =
     (case k of
        KeyStr s \<Rightarrow> Inr (dict_has (enum_names e) s)
      | KeyForeign \<Rightarrow> Inl TypeError
      | KeyInt n \<Rightarrow> Inr (dict_has (enum_values e) n)
      | KeyOther \<Rightarrow> Inl TypeError)"

definition enum_name :: "enum_class \<Rightarrow> int \<Rightarrow> string" where
  "enum_name e n = (case map_of (enum_values e) n of None \<Rightarrow> [] | Some s \<Rightarrow> s)"

definition enum_len :: "enum_class \<Rightarrow> nat" where
  "enum_len e = length (enum_values e)"

text \<open>The body of a class: the items are added in the order of its dictionary.\<close>

fun mk_enum :: "(string \<times> enum_value) list \<Rightarrow> enum_class \<Rightarrow> exn + enum_class" where
  "mk_enum [] e = Inr e"
| "mk_enum ((a, v) # body) e = bindE (enum_add a v e) (mk_enum body)"

text \<open>Items and names refer to each other.\<close>

definition enum_ok :: "enum_class \<Rightarrow> bool" where
  "enum_ok e \<longleftrightarrow> dict_ok (enum_values e) \<and> dict_ok (enum_names e) \<and>
     (\<forall>s n. map_of (enum_names e) s = Some n \<longrightarrow> map_of (enum_values e) n = Some s)"

lemma enum_ok_store:
  assumes "enum_ok e" and "map_of (enum_values e) n = None"
  shows "enum_ok \<lparr>enum_values = AList.update n s (enum_values e), enum_names = AList.update s n (enum_names e)\<rparr>"
  using assms unfolding enum_ok_def
  by (auto simp: map_of_update simp del: map_of_eq_Some_iff map_of_eq_None_iff)

lemma enum_ok_add: "enum_ok e \<Longrightarrow> enum_add a v e = Inr e' \<Longrightarrow> enum_ok e'"
  by (cases v) (auto simp: enum_add_def Let_def intro: enum_ok_store split: if_splits option.splits
      simp del: map_of_eq_Some_iff map_of_eq_None_iff)

lemma enum_ok_mk: "enum_ok e \<Longrightarrow> mk_enum body e = Inr e' \<Longrightarrow> enum_ok e'"
  by (induction body e rule: mk_enum.induct) (auto simp: bindE_Inr_iff dest: enum_ok_add)

lemma enum_ok_none: "enum_ok no_items"
  by (simp add: enum_ok_def no_items_def)

lemma enum_get_name:
  "enum_ok e \<Longrightarrow> enum_get e (KeyStr s) = Inr n \<Longrightarrow> enum_name e n = s \<and> enum_get e (KeyInt n) = Inr n"
  unfolding enum_ok_def enum_get_def enum_name_def
  by (auto split: option.splits simp del: map_of_eq_Some_iff map_of_eq_None_iff)

text \<open>A class as it was made, or none if its body raises.\<close>

definition enum_of :: "(string \<times> enum_value) list \<Rightarrow> enum_class" where
  "enum_of body = (case mk_enum body no_items of Inl _ \<Rightarrow> no_items | Inr e \<Rightarrow> e)"

lemma enum_ok_of: "enum_ok (enum_of body)"
  by (auto simp: enum_of_def enum_ok_none split: sum.split dest: enum_ok_mk [OF enum_ok_none])

end
