(* ===== verification/Http.thy ===== *)
theory Http
  imports WebStrings Enums
begin

text \<open>
  The functions of \<open>web/http.py\<close> (and the names of character sets of \<open>web/compat.py\<close>) that compose and
  parse request lines, status lines, headers, locations and MIME types.  Texts are byte strings; those
  in unicode are given by their UTF-8 encoding.

  Left out: \<open>compose_datetime\<close>, \<open>parse_qs\<close> and \<open>urlencode\<close>, which only call libraries, and the headers with
  priorities, whose floats are written with \<open>%f\<close>.
\<close>

section \<open>Enumerations and constants\<close>

definition DEFAULT_URL_HTTP_PORT :: int where "DEFAULT_URL_HTTP_PORT = 80"
definition DEFAULT_URL_HTTPS_PORT :: int where "DEFAULT_URL_HTTPS_PORT = 443"

definition DEFAULT_ENCODING :: string where "DEFAULT_ENCODING = ''iso-8859-1''"
definition DEFAULT_MIMETYPE :: string where "DEFAULT_MIMETYPE = ''text/plain''"

definition MULTIFIELD_HEADERS :: "string list" where
  "MULTIFIELD_HEADERS =
     [''accept'', ''accept-charset'', ''accept-encoding'', ''accept-language'', ''accept-ranges'', ''allow'',
      ''cache-control'', ''connection'', ''content-encoding'', ''content-language'', ''expect'', ''pragma'',
      ''proxy-authenticate'', ''te'', ''trailer'', ''transfer-encoding'', ''upgrade'', ''via'', ''warning'',
      ''www-authenticate'', ''x-accept-authentication'', ''supported'']"

definition is_header_multifield :: "string \<Rightarrow> bool" where
  "is_header_multifield name = (name \<in> set MULTIFIELD_HEADERS)"

definition Schemes :: enum_class where
  "Schemes = enum_of [(''HTTP'', Named 0 ''http''), (''HTTPS'', Named 1 ''https'')]"

definition Protocols :: enum_class where
  "Protocols = enum_of [(''HTTP10'', Named 0 ''HTTP/1.0''), (''HTTP11'', Named 1 ''HTTP/1.1'')]"

definition Methods :: enum_class where
  "Methods = enum_of
     [(''HEAD'', Number 0), (''GET'', Number 1), (''POST'', Number 2), (''PUT'', Number 3), (''DELETE'', Number 4)]"

definition Status :: enum_class where
  "Status = enum_of
     [(''OK'', Number 200), (''CREATED'', Number 201), (''ACCEPTED'', Number 202),
      (''NON_AUTHORITATIVE_INFORMATION'', Number 203), (''NO_CONTENT'', Number 204),
      (''RESET_CONTENT'', Number 205), (''PARTIAL_CONTENT'', Number 206), (''MULTI_STATUS'', Number 207),
      (''MULTIPLE_CHOICE'', Number 300), (''MOVED_PERMANENTLY'', Number 301), (''FOUND'', Number 302),
      (''SEE_OTHER'', Number 303), (''NOT_MODIFIED'', Number 304), (''USE_PROXY'', Number 305),
      (''TEMPORARY_REDIRECT'', Number 307),
      (''BAD_REQUEST'', Number 400), (''UNAUTHORIZED'', Number 401), (''PAYMENT_REQUIRED'', Number 402),
      (''FORBIDDEN'', Number 403), (''NOT_FOUND'', Number 404), (''NOT_ALLOWED'', Number 405),
      (''NOT_ACCEPTABLE'', Number 406), (''PROXY_AUTH_REQUIRED'', Number 407), (''REQUEST_TIMEOUT'', Number 408),
      (''CONFLICT'', Number 409), (''GONE'', Number 410), (''LENGTH_REQUIRED'', Number 411),
      (''PRECONDITION_FAILED'', Number 412), (''REQUEST_ENTITY_TOO_LARGE'', Number 413),
      (''REQUEST_URI_TOO_LONG'', Number 414), (''UNSUPPORTED_MEDIA_TYPE'', Number 415),
      (''REQUESTED_RANGE_NOT_SATISFIABLE'', Number 416), (''EXPECTATION_FAILED'', Number 417),
      (''UNPROCESSABLE_ENTITY'', Number 422),
      (''INTERNAL_SERVER_ERROR'', Number 500), (''NOT_IMPLEMENTED'', Number 501), (''BAD_GATEWAY'', Number 502),
      (''SERVICE_UNAVAILABLE'', Number 503), (''GATEWAY_TIMEOUT'', Number 504),
      (''HTTP_VERSION_NOT_SUPPORTED'', Number 505), (''INSUFFICIENT_STORAGE_SPACE'', Number 507),
      (''NOT_EXTENDED'', Number 510)]"

definition is_error :: "int \<Rightarrow> bool" where
  "is_error status = (400 \<le> status)"

section \<open>Names of character sets\<close>

definition http2python :: "string \<Rightarrow> string" where
  "http2python charset =
     (let name = lower charset in
      if name = ''unicode-1-1-utf-7'' then ''utf7''
      else if name = ''unicode-1-1-utf-8'' then ''utf8''
      else if name = ''unicode-1-1'' then ''utf''
      else name)"

text \<open>The table \<open>_python2http\<close> is an argument.\<close>

definition python2http :: "(string, string) dict \<Rightarrow> string \<Rightarrow> string" where
  "python2http table encoding =
     (let name = lower encoding in case map_of table name of None \<Rightarrow> name | Some h \<Rightarrow> h)"

section \<open>Status lines and request lines\<close>

text \<open>\<open>http.RESPONSES\<close> of twisted is an argument.\<close>

definition get_status_message :: "(int, string) dict \<Rightarrow> int \<Rightarrow> string \<Rightarrow> string" where
  "get_status_message responses status def = (case map_of responses status of None \<Rightarrow> def | Some m \<Rightarrow> m)"

definition compose_response ::
  "(int, string) dict \<Rightarrow> int \<Rightarrow> int option \<Rightarrow> string option \<Rightarrow> string list \<Rightarrow> string list" where
  "compose_response responses status protocol message buf =
     (let protocol = (case protocol of None \<Rightarrow> 1 | Some p \<Rightarrow> p);
          message = (case message of None \<Rightarrow> get_status_message responses status ''Unknown'' | Some m \<Rightarrow> m)
      in buf @ [enum_name Protocols protocol @ '' '' @ show_int status @ '' '' @ message])"

definition compose_request :: "int \<Rightarrow> string \<Rightarrow> int option \<Rightarrow> string list \<Rightarrow> string list" where
  "compose_request method uri protocol buf =
     (let protocol = (case protocol of None \<Rightarrow> 1 | Some p \<Rightarrow> p)
      in buf @ [enum_name Methods method @ '' '' @ uri @ '' '' @ enum_name Protocols protocol])"

definition parse_response_status :: "string \<Rightarrow> (int \<times> int) option" where
  "parse_response_status line =
     (case split_limit (CHR '' '') 2 line of
        [proto, number, _] \<Rightarrow>
          (case int_of_string number of
             None \<Rightarrow> None
           | Some n \<Rightarrow>
               (case (enum_get Status (KeyInt n), enum_get Protocols (KeyStr proto)) of
                  (Inr status, Inr protocol) \<Rightarrow> Some (protocol, status)
                | _ \<Rightarrow> None))
      | _ \<Rightarrow> None)"

section \<open>Headers\<close>

text \<open>The value of a header: a text, or a list of texts.\<close>

datatype header_value = HText string | HTexts "string list"

definition capname :: "string \<Rightarrow> string" where
  "capname name =
     (if list_ex is_upper name then name else join ''-'' (map capitalize (split_on (CHR ''-'') name)))"

text \<open>\<open>"%s" % value\<close> of a list is its representation, printed by the argument \<open>repr\<close>.\<close>

definition compose_header :: "(string list \<Rightarrow> string) \<Rightarrow> string \<Rightarrow> header_value \<Rightarrow> string" where
  "compose_header repr name v =
     (let printed =
        (if is_header_multifield name
         then join '', '' (case v of HText s \<Rightarrow> [s] | HTexts ss \<Rightarrow> ss)
         else (case v of HText s \<Rightarrow> s | HTexts ss \<Rightarrow> repr ss))
      in capname name @ '': '' @ printed)"

definition compose_headers ::
  "(string list \<Rightarrow> string) \<Rightarrow> (string, header_value) dict \<Rightarrow> string list \<Rightarrow> string list" where
  "compose_headers repr headers buf = buf @ map (\<lambda>(n, v). compose_header repr n v) headers"

definition compose_cookies :: "(string, string) dict \<Rightarrow> string list \<Rightarrow> string list" where
  "compose_cookies cookies buf = buf @ map (\<lambda>(n, p). ''Set-Cookie: '' @ n @ ''='' @ p) cookies"

definition parse_header_value :: "string \<Rightarrow> string \<times> string option" where
  "parse_header_value v = (case split_once (CHR ''='') v of (n, rest) \<Rightarrow> (lower n, rest))"

definition parse_header_values :: "string \<Rightarrow> (string, string option) dict" where
  "parse_header_values header =
     fold (\<lambda>p d. case parse_header_value p of (n, v) \<Rightarrow> AList.update n v d) (split_on (CHR '','') header) []"

text \<open>\<open>_split_http_definition\<close>; a parameter without a value makes the assignment raise.\<close>

fun definition_params :: "string list \<Rightarrow> (string, string) dict \<Rightarrow> exn + (string, string) dict" where
  "definition_params [] params = Inr params"
| "definition_params (p # ps) params =
     (case split_once (CHR ''='') p of
        (_, None) \<Rightarrow> Inl ValueError
      | (n, Some v) \<Rightarrow> definition_params ps (AList.update (strip n) (strip v) params))"

definition split_http_definition :: "string \<Rightarrow> exn + string option \<times> (string, string) dict" where
  "split_http_definition v =
     (if v = [] then Inr (None, [])
      else bindE (definition_params (tl (split_on (CHR '';'') v)) [])
             (\<lambda>params. Inr (Some (strip (hd (split_on (CHR '';'') v))), params)))"

definition parse_content_type :: "string \<Rightarrow> exn + string \<times> string" where
  "parse_content_type v =
     bindE (split_http_definition v) (\<lambda>(type, params).
       Inr (case type of Some (c # cs) \<Rightarrow> c # cs | _ \<Rightarrow> DEFAULT_MIMETYPE,
            http2python (case map_of params ''charset'' of None \<Rightarrow> DEFAULT_ENCODING | Some c \<Rightarrow> c)))"

definition compose_content_type :: "(string, string) dict \<Rightarrow> string \<Rightarrow> string option \<Rightarrow> string" where
  "compose_content_type table type charset =
     (case charset of
        None \<Rightarrow> type
      | Some c \<Rightarrow>
          let c = python2http table c in
          if c \<in> {''iso-8859-1'', ''us-ascii''} then type else type @ ''; charset='' @ c)"

text \<open>\<open>scheme\<close> is an item of \<open>Schemes\<close>.  The result is the host and its port.\<close>

definition parse_host :: "string \<Rightarrow> int \<Rightarrow> (string \<times> int) option" where
  "parse_host host_header scheme =
     (case rsplit_once (CHR '':'') host_header of
        (host, Some port) \<Rightarrow> (case int_of_string port of Some n \<Rightarrow> Some (host, n) | None \<Rightarrow> None)
      | (host, None) \<Rightarrow>
          if scheme = 0 then Some (host, DEFAULT_URL_HTTP_PORT) else Some (host, DEFAULT_URL_HTTP_PORT))"

text \<open>A part of a version is a number where it can be read as one.\<close>

datatype version_part = VNumber int | VText string

definition try2convert :: "string \<Rightarrow> version_part" where
  "try2convert s = (case int_of_string s of Some n \<Rightarrow> VNumber n | None \<Rightarrow> VText s)"

definition parse_user_agent :: "string \<Rightarrow> exn + string \<times> version_part list" where
  "parse_user_agent agent_header =
     (case split_once (CHR ''/'') (fst (split_once (CHR '','') (fst (split_once (CHR '' '') agent_header)))) of
        (_, None) \<Rightarrow> Inl ValueError
      | (name, Some version) \<Rightarrow> Inr (name, map try2convert (split_on (CHR ''.'') version)))"

definition show_part :: "version_part \<Rightarrow> string" where
  "show_part p = (case p of VNumber n \<Rightarrow> show_int n | VText s \<Rightarrow> s)"

definition compose_user_agent :: "string \<Rightarrow> version_part list option \<Rightarrow> string" where
  "compose_user_agent name version =
     (case version of None \<Rightarrow> name | Some v \<Rightarrow> name @ ''/'' @ join ''.'' (map show_part v))"

section \<open>MIME types\<close>

definition mime2tuple :: "string \<Rightarrow> string \<times> string" where
  "mime2tuple mime =
     (case split_once (CHR ''/'') mime of
        (a, None) \<Rightarrow> (if a = [] then ''*'' else lower a, ''*'')
      | (a, Some b) \<Rightarrow> (lower a, lower b))"

definition tuple2mime :: "string list \<Rightarrow> string" where
  "tuple2mime v =
     (case v of
        [] \<Rightarrow> ''*/*''
      | [a] \<Rightarrow> lower a @ ''/*''
      | _ \<Rightarrow> join ''/'' (map lower v))"

type_synonym mime_tree = "(string, (string, rat) dict) dict"

definition add_mime :: "string \<Rightarrow> string \<Rightarrow> rat \<Rightarrow> mime_tree \<Rightarrow> mime_tree" where
  "add_mime type sub priority tree =
     AList.update type (AList.update sub priority (case map_of tree type of None \<Rightarrow> [] | Some d \<Rightarrow> d)) tree"

definition build_mime_tree :: "(string, rat) dict \<Rightarrow> bool \<Rightarrow> mime_tree" where
  "build_mime_tree mime_types stars =
     (let tree = fold (\<lambda>(n, p) t. case mime2tuple n of (type, sub) \<Rightarrow> add_mime type sub (min 1 p) t) mime_types []
      in if stars then
           let tree = (if dict_has tree ''*'' then tree else AList.update ''*'' [(''*'', 1 / 100)] tree)
           in map (\<lambda>(type, d). (type, if dict_has d ''*'' then d else AList.update ''*'' (1 / 100) d)) tree
         else tree)"

definition does_accept_mime_type :: "string \<Rightarrow> mime_tree \<Rightarrow> bool" where
  "does_accept_mime_type mime_type tree =
     (case mime2tuple mime_type of (type, sub) \<Rightarrow>
        list_ex (\<lambda>t. case map_of tree t of
            None \<Rightarrow> False | Some d \<Rightarrow> d \<noteq> [] \<and> (dict_has d sub \<or> dict_has d ''*'')) [type, ''*''])"

section \<open>Locations\<close>

definition tuple2path :: "string list \<Rightarrow> string" where
  "tuple2path location = join ''/'' (map quote_plus location)"

definition path2tuple :: "string \<Rightarrow> string list" where
  "path2tuple path = map unquote_plus (split_on (CHR ''/'') path)"

fun join_from :: "string \<Rightarrow> string list \<Rightarrow> string" where
  "join_from prev [] = []"
| "join_from prev (loc # locs) =
     (if loc = [] then join_from prev locs
      else
        let new = (if prev \<noteq> [] \<and> last prev = CHR ''/''
                   then (if hd loc = CHR ''/'' then tl loc else loc)
                   else (if hd loc = CHR ''/'' then loc else CHR ''/'' # loc))
        in if new = [] then join_from prev locs else new @ join_from new locs)"

definition join_locations :: "string list \<Rightarrow> string option" where
  "join_locations locations =
     (case locations of [] \<Rightarrow> None | loc # locs \<Rightarrow> Some (loc @ join_from loc locs))"

text \<open>\<open>urlparse.urlsplit\<close> and the host and port of its result (Python 2.7).\<close>

definition scheme_char :: "char \<Rightarrow> bool" where
  "scheme_char c \<longleftrightarrow> is_upper c \<or> is_lower c \<or> is_digit c \<or> c \<in> {CHR ''+'', CHR ''-'', CHR ''.''}"

definition split_scheme :: "string \<Rightarrow> string \<times> string" where
  "split_scheme url =
     (case split_once (CHR '':'') url of
        (_, None) \<Rightarrow> ([], url)
      | (a, Some rest) \<Rightarrow>
          if a = ''http'' then (a, rest)
          else if a \<noteq> [] \<and> list_all scheme_char a \<and> (rest = [] \<or> list_ex (\<lambda>c. \<not> is_digit c) rest) then (lower a, rest)
          else ([], url))"

definition netloc_end :: "char \<Rightarrow> bool" where
  "netloc_end c \<longleftrightarrow> c \<in> {CHR ''/'', CHR ''?'', CHR ''#''}"

record split_url =
  su_scheme :: string
  su_netloc :: string
  su_path :: string
  su_query :: string

definition urlsplit :: "string \<Rightarrow> exn + split_url" where
  "urlsplit url =
     (let (scheme, url) = split_scheme url;
          (netloc, url) = (if take 2 url = ''//''
             then (takeWhile (\<lambda>c. \<not> netloc_end c) (drop 2 url), dropWhile (\<lambda>c. \<not> netloc_end c) (drop 2 url))
             else ([], url))
      in if (CHR ''['' \<in> set netloc) \<noteq> (CHR '']'' \<in> set netloc) then Inl ValueError
         else let (path, query) = split_once (CHR ''?'') (fst (split_once (CHR ''#'') url))
              in Inr \<lparr>su_scheme = scheme, su_netloc = netloc, su_path = path,
                      su_query = (case query of None \<Rightarrow> [] | Some q \<Rightarrow> q)\<rparr>)"

definition hostname :: "split_url \<Rightarrow> string option" where
  "hostname u =
     (let netloc = last (split_on (CHR ''@'') (su_netloc u)) in
      if CHR ''['' \<in> set netloc \<and> CHR '']'' \<in> set netloc
      then Some (lower (drop 1 (hd (split_on (CHR '']'') netloc))))
      else if CHR '':'' \<in> set netloc then Some (lower (hd (split_on (CHR '':'') netloc)))
      else if netloc = [] then None else Some (lower netloc))"

definition url_port :: "split_url \<Rightarrow> exn + int option" where
  "url_port u =
     (let netloc = last (split_on (CHR '']'') (last (split_on (CHR ''@'') (su_netloc u)))) in
      case split_on (CHR '':'') netloc of
        _ # port # _ \<Rightarrow>
          if port = [] then Inr None
          else (case int_of_string port of
                  None \<Rightarrow> Inl ValueError
                | Some n \<Rightarrow> Inr (if 0 \<le> n \<and> n \<le> 65535 then Some n else None))
      | _ \<Rightarrow> Inr None)"

text \<open>\<open>a or b\<close>: an absent number and zero are false.\<close>

definition or_port :: "int option \<Rightarrow> int option \<Rightarrow> int option" where
  "or_port a b = (case a of None \<Rightarrow> b | Some n \<Rightarrow> if n = 0 then b else a)"

record parsed_url =
  pu_scheme :: int
  pu_host :: "string option"
  pu_port :: int
  pu_path :: string
  pu_query :: string

definition parse_url :: "string \<Rightarrow> int option \<Rightarrow> int option \<Rightarrow> exn + parsed_url" where
  "parse_url url default_port default_https_port =
     bindE (urlsplit (strip url)) (\<lambda>u.
     bindE (url_port u) (\<lambda>port.
       let port = (if su_scheme u = ''https''
             then or_port port (or_port default_https_port (or_port default_port (Some DEFAULT_URL_HTTPS_PORT)))
             else or_port port (or_port default_port (Some DEFAULT_URL_HTTP_PORT)));
           path = (if su_path u = [] then ''/'' else su_path u)
       in bindE (enum_get Schemes (KeyStr (su_scheme u))) (\<lambda>s.
            Inr \<lparr>pu_scheme = s, pu_host = hostname u, pu_port = (case port of Some p \<Rightarrow> p | None \<Rightarrow> 0),
                 pu_path = path, pu_query = su_query u\<rparr>)))"

definition compose_url ::
  "string option \<Rightarrow> string option \<Rightarrow> string option \<Rightarrow> int option \<Rightarrow> int option \<Rightarrow> string" where
  "compose_url path query host port scheme =
     (let tail = (case query of Some (c # cs) \<Rightarrow> CHR ''?'' # c # cs | _ \<Rightarrow> [])
      in case host of
           None \<Rightarrow> (case path of None \<Rightarrow> [] | Some p \<Rightarrow> p) @ tail
         | Some h \<Rightarrow>
             (case scheme of None \<Rightarrow> ''http'' | Some s \<Rightarrow> enum_name Schemes s) @ ''://'' @ h @
             (case port of None \<Rightarrow> [] | Some p \<Rightarrow> if p \<noteq> 0 \<and> p \<noteq> 80 then CHR '':'' # show_int p else []) @
             (case path of None \<Rightarrow> ''/'' | Some p \<Rightarrow> p) @ tail)"

definition append_location :: "string \<Rightarrow> string \<Rightarrow> exn + string" where
  "append_location url location =
     bindE (parse_url url None None) (\<lambda>u.
       Inr (compose_url (join_locations [pu_path u, location]) (Some (pu_query u)) (pu_host u) (Some (pu_port u))
              (Some (pu_scheme u))))"

end
