(* ===== verification/HttpProtocol.thy ===== *)
theory HttpProtocol
  imports Http StateMachine
begin

text \<open>
  The common part of the two ends of an HTTP connection: \<open>BaseProtocol\<close> of \<open>web/http.py\<close> and the
  timeouts of \<open>common/timeout.py\<close>.  It is driven by the line receiver of twisted, which calls
  \<open>lineReceived\<close> with every line and, in raw mode, \<open>rawDataReceived\<close> with the data as they come.

  The virtual methods (\<open>process_request_line\<close> and so on) are one function \<open>hooks\<close> of a class, which
  changes the state of the subclass and may raise.  The decoders of bodies belong to twisted and are
  parameters: feeding one gives the pieces it passes on, and how it ends.
\<close>

section \<open>State\<close>

datatype http_call =
    Setup | RequestLine string | BodyLength int | ExtendHeader string "string list" | SetHeader string string
  | BodyStart | BodyData string | BodyFinished | ResetCall | Cleanup | TimedOut | ProcessError exn
  | MadeConnection | LostConnection

datatype http_timer = FirstlineTimer | HeadersTimer | IdleTimer | InactivityTimer

datatype line_state = ReqLine | InHeaders | InBody

datatype decoded = More | Finished string | Broken exn

record ('c, 'd) http_class =
  hooks :: "http_call \<Rightarrow> 'c \<Rightarrow> 'c run"
  periods :: "http_timer \<Rightarrow> time"
  max_headers :: nat
  new_identity :: "int \<Rightarrow> 'd"
  new_chunked :: 'd
  feed :: "'d \<Rightarrow> string \<Rightarrow> string list \<times> decoded \<times> 'd"
  no_more_data :: "'d \<Rightarrow> exn option"

record ('c, 'd) http_connection =
  hs_state :: line_state
  hs_header :: string
  hs_count :: nat
  hs_length :: int
  hs_remaining :: int
  hs_no_content :: bool
  hs_decoder :: "'d option"
  hs_raw :: bool
  hs_extra :: string
  hs_timers :: "(http_timer, time) dict"
  hs_sub :: 'c

definition hs_reset :: "('c, 'd) http_connection \<Rightarrow> ('c, 'd) http_connection" where
  "hs_reset s = s\<lparr>hs_state := ReqLine, hs_header := [], hs_count := 0, hs_length := 0, hs_remaining := 0,
                 hs_no_content := False, hs_decoder := None\<rparr>"

definition new_connection :: "'c \<Rightarrow> ('c, 'd) http_connection" where
  "new_connection c =
     \<lparr>hs_state = ReqLine, hs_header = [], hs_count = 0, hs_length = 0, hs_remaining = 0, hs_no_content = False,
      hs_decoder = None, hs_raw = False, hs_extra = [], hs_timers = [], hs_sub = c\<rparr>"

definition http_is_idle :: "('c, 'd) http_connection \<Rightarrow> bool" where
  "http_is_idle s = (hs_state s = ReqLine)"

definition call_hook :: "('c, 'd) http_class \<Rightarrow> http_call \<Rightarrow> ('c, 'd) http_connection \<Rightarrow> ('c, 'd) http_connection run" where
  "call_hook K c s = (case hooks K c (hs_sub s) of (e, x) \<Rightarrow> (e, s\<lparr>hs_sub := x\<rparr>))"

section \<open>Timeouts\<close>

definition stop_timer :: "http_timer \<Rightarrow> ('c, 'd) http_connection \<Rightarrow> ('c, 'd) http_connection" where
  "stop_timer n s = s\<lparr>hs_timers := AList.delete n (hs_timers s)\<rparr>"

definition reset_timer :: "('c, 'd) http_class \<Rightarrow> time \<Rightarrow> http_timer \<Rightarrow> ('c, 'd) http_connection \<Rightarrow> ('c, 'd) http_connection" where
  "reset_timer K now n s =
     (let s = stop_timer n s in s\<lparr>hs_timers := AList.update n (now + periods K n) (hs_timers s)\<rparr>)"

definition stop_all_timers :: "('c, 'd) http_connection \<Rightarrow> ('c, 'd) http_connection" where
  "stop_all_timers s = s\<lparr>hs_timers := []\<rparr>"

section \<open>Bodies\<close>

definition raise_error :: "('c, 'd) http_class \<Rightarrow> exn \<Rightarrow> ('c, 'd) http_connection \<Rightarrow> ('c, 'd) http_connection run" where
  "raise_error K e s = call_hook K (ProcessError e) (s\<lparr>hs_decoder := None\<rparr>)"

text \<open>\<open>setLineMode(extra)\<close> gives the text back to the line receiver.\<close>

definition got_all_content ::
  "('c, 'd) http_class \<Rightarrow> time \<Rightarrow> string \<Rightarrow> ('c, 'd) http_connection \<Rightarrow> ('c, 'd) http_connection run" where
  "got_all_content K now extra s =
     (let s = reset_timer K now InactivityTimer (stop_timer IdleTimer s) in
      and_then (call_hook K BodyFinished s) (\<lambda>s.
      and_then (call_hook K ResetCall (hs_reset s)) (\<lambda>s.
        (None, s\<lparr>hs_raw := False, hs_extra := extra\<rparr>))))"

definition handle_received ::
  "('c, 'd) http_class \<Rightarrow> time \<Rightarrow> string \<Rightarrow> ('c, 'd) http_connection \<Rightarrow> ('c, 'd) http_connection run" where
  "handle_received K now data s =
     (case hs_decoder s of
        None \<Rightarrow> (Some AttributeError, s)
      | Some d \<Rightarrow>
          (case feed K d data of
             (pieces, ending, d) \<Rightarrow>
               and_then (run_each (\<lambda>p. call_hook K (BodyData p)) pieces (s\<lparr>hs_decoder := Some d\<rparr>)) (\<lambda>s.
                 case ending of
                   More \<Rightarrow> (None, s)
                 | Finished extra \<Rightarrow> got_all_content K now extra s
                 | Broken e \<Rightarrow> (Some e, s))))"

definition setup_identity_decoding ::
  "('c, 'd) http_class \<Rightarrow> int \<Rightarrow> ('c, 'd) http_connection \<Rightarrow> ('c, 'd) http_connection" where
  "setup_identity_decoding K n s =
     (if n = 0 then s\<lparr>hs_no_content := True\<rparr> else s\<lparr>hs_decoder := Some (new_identity K n)\<rparr>)"

section \<open>Lines\<close>

definition got_request_line ::
  "('c, 'd) http_class \<Rightarrow> time \<Rightarrow> string \<Rightarrow> ('c, 'd) http_connection \<Rightarrow> ('c, 'd) http_connection run" where
  "got_request_line K now line s =
     and_then (call_hook K (RequestLine line) (reset_timer K now HeadersTimer (stop_timer InactivityTimer s)))
       (\<lambda>s. (None, s\<lparr>hs_state := InHeaders\<rparr>))"

text \<open>The end of \<open>_got_header_entry\<close>: the header is passed on.\<close>

definition pass_header ::
  "('c, 'd) http_class \<Rightarrow> string \<Rightarrow> string \<Rightarrow> ('c, 'd) http_connection \<Rightarrow> ('c, 'd) http_connection run" where
  "pass_header K header data =
     (if is_header_multifield header
      then call_hook K (ExtendHeader header (map strip (split_on (CHR '','') data)))
      else if header = ''set-cookie'' then call_hook K (ExtendHeader header [data])
      else call_hook K (SetHeader header data))"

definition got_header_entry ::
  "('c, 'd) http_class \<Rightarrow> string \<Rightarrow> ('c, 'd) http_connection \<Rightarrow> ('c, 'd) http_connection run" where
  "got_header_entry K line s =
     (let s = s\<lparr>hs_count := hs_count s + 1\<rparr> in
      if max_headers K < hs_count s then raise_error K ParseError s
      else case split_once (CHR '':'') line of
             (_, None) \<Rightarrow> (Some ValueError, s)
           | (header, Some data) \<Rightarrow>
               let header = lower header; data = strip data in
               if header = ''content-length'' then
                 (case int_of_string data of
                    None \<Rightarrow> (Some ValueError, s)
                  | Some n \<Rightarrow>
                      and_then (call_hook K (BodyLength n) s) (\<lambda>s.
                        pass_header K header data
                          (setup_identity_decoding K n (s\<lparr>hs_length := n, hs_remaining := n\<rparr>))))
               else if header = ''transfer-encoding'' then
                 (if lower data \<noteq> ''chunked'' then raise_error K ParseError s
                  else pass_header K header data (s\<lparr>hs_decoder := Some (new_chunked K)\<rparr>))
               else pass_header K header data s)"

definition got_all_headers ::
  "('c, 'd) http_class \<Rightarrow> time \<Rightarrow> ('c, 'd) http_connection \<Rightarrow> ('c, 'd) http_connection run" where
  "got_all_headers K now s =
     (let s = (stop_timer HeadersTimer s)\<lparr>hs_state := InBody\<rparr> in
      and_then (call_hook K BodyStart s) (\<lambda>s.
        if hs_decoder s = None then got_all_content K now [] s
        else if hs_no_content s then got_all_content K now [] s
        else (None, s\<lparr>hs_raw := True\<rparr>)))"

definition end_header_entry :: "('c, 'd) http_class \<Rightarrow> ('c, 'd) http_connection \<Rightarrow> ('c, 'd) http_connection run" where
  "end_header_entry K s = (if hs_header s \<noteq> [] then got_header_entry K (hs_header s) s else (None, s))"

definition got_header_line ::
  "('c, 'd) http_class \<Rightarrow> time \<Rightarrow> string \<Rightarrow> ('c, 'd) http_connection \<Rightarrow> ('c, 'd) http_connection run" where
  "got_header_line K now line s =
     (case line of
        [] \<Rightarrow> and_then (end_header_entry K s) (\<lambda>s. got_all_headers K now (s\<lparr>hs_header := []\<rparr>))
      | c # _ \<Rightarrow>
          if c \<in> {CHR '' '', CHR 0x09}
          then (None, s\<lparr>hs_header := hs_header s @ CHR 0x0A # line\<rparr>)
          else and_then (end_header_entry K s) (\<lambda>s. (None, s\<lparr>hs_header := line\<rparr>)))"

definition line_received ::
  "('c, 'd) http_class \<Rightarrow> time \<Rightarrow> string \<Rightarrow> ('c, 'd) http_connection \<Rightarrow> ('c, 'd) http_connection run" where
  "line_received K now line s =
     (let s = reset_timer K now IdleTimer (stop_timer FirstlineTimer s) in
      case hs_state s of
        ReqLine \<Rightarrow> got_request_line K now line s
      | InHeaders \<Rightarrow> got_header_line K now line s
      | InBody \<Rightarrow> handle_received K now line s)"

definition raw_data_received ::
  "('c, 'd) http_class \<Rightarrow> time \<Rightarrow> string \<Rightarrow> ('c, 'd) http_connection \<Rightarrow> ('c, 'd) http_connection run" where
  "raw_data_received K now data s =
     (let s = (if hs_length s \<noteq> 0 then s\<lparr>hs_remaining := hs_remaining s - int (length data)\<rparr> else s)
      in handle_received K now data (reset_timer K now IdleTimer s))"

section \<open>The connection\<close>

definition connection_made :: "('c, 'd) http_class \<Rightarrow> time \<Rightarrow> ('c, 'd) http_connection \<Rightarrow> ('c, 'd) http_connection run" where
  "connection_made K now s =
     and_then (call_hook K Setup s) (\<lambda>s. call_hook K MadeConnection (reset_timer K now FirstlineTimer s))"

definition connection_lost :: "('c, 'd) http_class \<Rightarrow> ('c, 'd) http_connection \<Rightarrow> ('c, 'd) http_connection run" where
  "connection_lost K s =
     (let s = stop_all_timers s in
      and_then
        (case hs_decoder s of
           None \<Rightarrow> (None, s)
         | Some d \<Rightarrow>
             (case no_more_data K d of
                Some e \<Rightarrow> raise_error K e s
              | None \<Rightarrow> call_hook K BodyFinished s)) (\<lambda>s.
      and_then (call_hook K Cleanup (hs_reset s)) (\<lambda>s. call_hook K LostConnection (stop_all_timers s))))"

definition timer_fires ::
  "('c, 'd) http_class \<Rightarrow> http_timer \<Rightarrow> ('c, 'd) http_connection \<Rightarrow> ('c, 'd) http_connection run" where
  "timer_fires K n s =
     (if dict_has (hs_timers s) n then
        (let s = stop_timer n s in
         case n of
           FirstlineTimer \<Rightarrow> call_hook K TimedOut (s\<lparr>hs_decoder := None\<rparr>)
         | _ \<Rightarrow> call_hook K TimedOut s)
      else (None, s))"

datatype http_event = MadeEvent | LineIn string | RawIn string | TimerEvent http_timer | LostEvent

definition http_step ::
  "('c, 'd) http_class \<Rightarrow> time \<times> http_event \<Rightarrow> ('c, 'd) http_connection \<Rightarrow> ('c, 'd) http_connection run" where
  "http_step K te s =
     (case te of (now, ev) \<Rightarrow>
        (case ev of
           MadeEvent \<Rightarrow> connection_made K now s
         | LineIn line \<Rightarrow> line_received K now line s
         | RawIn data \<Rightarrow> raw_data_received K now data s
         | TimerEvent n \<Rightarrow> timer_fires K n s
         | LostEvent \<Rightarrow> connection_lost K s))"

text \<open>A history: what an event raises is logged by the reactor and does not end it.\<close>

definition http_run ::
  "('c, 'd) http_class \<Rightarrow> (time \<times> http_event) list \<Rightarrow> ('c, 'd) http_connection \<Rightarrow> ('c, 'd) http_connection" where
  "http_run K evs s = fold (\<lambda>ev s. snd (http_step K ev s)) evs s"

section \<open>A live connection is watched\<close>

text \<open>A timeout other than the one for headers is pending.\<close>

definition has_timer :: "http_timer \<Rightarrow> ('c, 'd) http_connection \<Rightarrow> bool" where
  "has_timer n s = dict_has (hs_timers s) n"

definition watched :: "('c, 'd) http_connection \<Rightarrow> bool" where
  "watched s \<longleftrightarrow> (\<exists>n \<in> {FirstlineTimer, IdleTimer, InactivityTimer}. has_timer n s)"

abbreviation idle_pending :: "('c, 'd) http_connection \<Rightarrow> bool" where
  "idle_pending s \<equiv> has_timer IdleTimer s"

lemma has_timer_cong: "hs_timers s = hs_timers s' \<Longrightarrow> has_timer n s = has_timer n s'"
  by (simp add: has_timer_def)

lemma has_timer_updates [simp]:
  "has_timer n (s\<lparr>hs_state := a\<rparr>) = has_timer n s" "has_timer n (s\<lparr>hs_header := b\<rparr>) = has_timer n s"
  "has_timer n (s\<lparr>hs_count := c\<rparr>) = has_timer n s" "has_timer n (s\<lparr>hs_length := d\<rparr>) = has_timer n s"
  "has_timer n (s\<lparr>hs_remaining := e\<rparr>) = has_timer n s" "has_timer n (s\<lparr>hs_decoder := f\<rparr>) = has_timer n s"
  "has_timer n (s\<lparr>hs_raw := g\<rparr>) = has_timer n s" "has_timer n (s\<lparr>hs_extra := h\<rparr>) = has_timer n s"
  "has_timer n (s\<lparr>hs_no_content := i\<rparr>) = has_timer n s"
  by (simp_all add: has_timer_def)

lemma hook_fields [simp]:
  "has_timer n (snd (call_hook K c s)) = has_timer n s"
  by (simp add: call_hook_def has_timer_def split: prod.split)

lemma timers_after:
  "has_timer m (stop_timer n s) \<longleftrightarrow> m \<noteq> n \<and> has_timer m s"
  "has_timer m (reset_timer K now n s) \<longleftrightarrow> m = n \<or> has_timer m s"
  unfolding has_timer_def stop_timer_def reset_timer_def Let_def
  by (simp_all add: map_of_update map_of_delete del: map_of_eq_None_iff)

lemma idle_watched: "idle_pending s \<Longrightarrow> watched s"
  by (auto simp: watched_def)

lemma watched_hook: "watched s \<Longrightarrow> watched (snd (call_hook K c s))"
  by (simp add: watched_def)

lemma watched_timers: "watched s \<Longrightarrow> hs_timers s' = hs_timers s \<Longrightarrow> watched s'"
  by (simp add: watched_def has_timer_def)

lemma idle_pass_header: "idle_pending s \<Longrightarrow> idle_pending (snd (pass_header K h d s))"
  by (simp add: pass_header_def)

lemma idle_identity [simp]: "has_timer m (setup_identity_decoding K n s) = has_timer m s"
  by (simp add: setup_identity_decoding_def)

lemma idle_error: "idle_pending s \<Longrightarrow> idle_pending (snd (raise_error K e s))"
  by (simp add: raise_error_def)

lemma idle_header_entry:
  assumes "idle_pending s"
  shows "idle_pending (snd (got_header_entry K line s))"
proof -
  have k: "idle_pending (snd (and_then (call_hook K (BodyLength n) u)
      (\<lambda>s. pass_header K h d (setup_identity_decoding K n (s\<lparr>hs_length := n, hs_remaining := n\<rparr>)))))"
    if "idle_pending u" for n h d and u :: "('a, 'b) http_connection"
    using that by (intro and_then_keeps [of idle_pending] idle_pass_header) simp_all
  show ?thesis
    unfolding got_header_entry_def Let_def
    using assms by (auto split: prod.split option.split intro!: k idle_pass_header idle_error)
qed

lemma watched_all_content: "watched (snd (got_all_content K now extra s))"
proof -
  have "watched (reset_timer K now InactivityTimer (stop_timer IdleTimer s))"
    by (simp add: watched_def timers_after)
  then show ?thesis
    unfolding got_all_content_def Let_def
    by (intro and_then_keeps [of watched] watched_hook) (auto elim: watched_timers simp: hs_reset_def)
qed

lemma watched_received: "watched s \<Longrightarrow> watched (snd (handle_received K now data s))"
  unfolding handle_received_def
  by (auto split: option.split prod.split decoded.split
      intro!: and_then_keeps [of watched] each_keeps [of watched] watched_hook watched_all_content
      elim: watched_timers)

lemma watched_header_line:
  assumes "idle_pending s"
  shows "watched (snd (got_header_line K now line s))"
proof -
  have e: "idle_pending (snd (end_header_entry K s))"
    using assms by (simp add: end_header_entry_def idle_header_entry)
  have a: "watched (snd (got_all_headers K now (u\<lparr>hs_header := []\<rparr>)))" if "idle_pending u" for u :: "('a, 'b) http_connection"
  proof -
    have "watched ((stop_timer HeadersTimer (u\<lparr>hs_header := []\<rparr>))\<lparr>hs_state := InBody\<rparr>)"
      using that by (auto simp: timers_after intro!: idle_watched)
    then show ?thesis
      unfolding got_all_headers_def Let_def
      by (intro and_then_keeps [of watched] watched_hook) (auto intro: watched_all_content elim: watched_timers)
  qed
  have "watched (snd (and_then (end_header_entry K s) (\<lambda>s. got_all_headers K now (s\<lparr>hs_header := []\<rparr>))))"
    using e a by (cases "end_header_entry K s"; cases "fst (end_header_entry K s)") (auto intro: idle_watched)
  moreover have "watched (snd (and_then (end_header_entry K s) (\<lambda>s. (None, s\<lparr>hs_header := line\<rparr>))))"
    using idle_watched [OF e] by (intro and_then_keeps [of watched]) (auto elim: watched_timers)
  ultimately show ?thesis
    using assms by (auto simp: got_header_line_def intro!: idle_watched split: list.split)
qed

text \<open>Every received line or piece of data leaves the connection watched.\<close>

lemma watched_line: "watched (snd (line_received K now line s))"
proof -
  let ?s = "reset_timer K now IdleTimer (stop_timer FirstlineTimer s)"
  have i: "idle_pending ?s" by (simp add: timers_after)
  have "watched (reset_timer K now HeadersTimer (stop_timer InactivityTimer ?s))"
    by (rule idle_watched) (use i in \<open>simp add: timers_after\<close>)
  then have "watched (snd (got_request_line K now line ?s))"
    unfolding got_request_line_def
    by (intro and_then_keeps [of watched] watched_hook) (auto elim: watched_timers)
  then show ?thesis
    unfolding line_received_def Let_def
    using watched_header_line [OF i] watched_received [OF idle_watched [OF i]] by (cases "hs_state s") (simp_all split: line_state.split)
qed

lemma watched_raw: "watched (snd (raw_data_received K now data s))"
  unfolding raw_data_received_def Let_def
  by (intro watched_received idle_watched) (simp add: timers_after)

definition quiet_event :: "http_event \<Rightarrow> bool" where
  "quiet_event ev \<longleftrightarrow> (case ev of LineIn _ \<Rightarrow> True | RawIn _ \<Rightarrow> True | _ \<Rightarrow> False)"

text \<open>C17: As long as a connection is neither lost nor has timed out, some timeout is pending, whatever lines
  and data arrive, whatever the decoders do and whatever the methods of the subclass raise after
  \<open>process_setup\<close>, which has returned: no silent peer keeps a connection open for ever.  A
  \<open>process_setup\<close> that raises leaves the connection without a timeout.\<close>

theorem connection_is_watched:
  assumes "fst (hooks K Setup (hs_sub s)) = None"
    and "\<forall>(t, ev) \<in> set evs. quiet_event ev"
  shows "hs_timers (http_run K ((t0, MadeEvent) # evs) s) \<noteq> []"
proof -
  have made: "watched (snd (http_step K (t0, MadeEvent) s))"
  proof -
    obtain x where x: "call_hook K Setup s = (None, s\<lparr>hs_sub := x\<rparr>)"
      using assms(1) by (cases "hooks K Setup (hs_sub s)") (auto simp: call_hook_def)
    show ?thesis
      by (auto simp: http_step_def connection_made_def x watched_def timers_after intro!: watched_hook)
  qed
  have "watched (http_run K evs u)" if "watched u" for u
    using that assms(2)
  proof (induction evs arbitrary: u)
    case (Cons ev evs)
    have "watched (snd (http_step K ev u))"
      using Cons.prems by (auto simp: http_step_def quiet_event_def watched_line watched_raw split: prod.splits http_event.splits)
    with Cons show ?case by (simp add: http_run_def)
  qed (simp add: http_run_def)
  from this [OF made] have "watched (http_run K ((t0, MadeEvent) # evs) s)" by (simp add: http_run_def)
  then show ?thesis by (auto simp: watched_def has_timer_def)
qed

text \<open>A subclass that does nothing, and decoders that never end\<close>

definition idle_class :: "(unit, unit) http_class" where
  "idle_class = \<lparr>hooks = (\<lambda>_ c. (None, c)), periods = (\<lambda>_. 30), max_headers = 2, new_identity = (\<lambda>_. ()),
     new_chunked = (), feed = (\<lambda>d _. ([], More, d)), no_more_data = (\<lambda>_. None)\<rparr>"

theorem connection_is_watched_witness:
  "hs_timers (http_run idle_class ((0, MadeEvent) # [(1, LineIn ''GET / HTTP/1.1''), (2, LineIn [])]) (new_connection ())) \<noteq> []"
  by (rule connection_is_watched) (simp_all add: idle_class_def quiet_event_def)

end
