(* ===== verification/HttpProps.thy ===== *)
theory HttpProps
  imports HttpProtocol
begin

text \<open>
  What one end of an HTTP connection composes the other end reads back: headers, requests with a body of
  known length, status lines, addresses and paths.
\<close>

section \<open>Lines of headers\<close>

definition texts :: "header_value \<Rightarrow> string list" where
  "texts v = (case v of HText s \<Rightarrow> [s] | HTexts ss \<Rightarrow> ss)"

text \<open>A header whose lower-case name and whose values survive being sent.\<close>

definition sendable :: "string \<times> header_value \<Rightarrow> bool" where
  "sendable h \<longleftrightarrow>
     (case h of (n, v) \<Rightarrow>
        n \<noteq> [] \<and> lower n = n \<and> CHR '':'' \<notin> set n \<and> hd n \<notin> {CHR '' '', CHR 0x09} \<and> n \<noteq> ''transfer-encoding'' \<and>
        (if is_header_multifield n
         then texts v \<noteq> [] \<and> (\<forall>t \<in> set (texts v). t \<noteq> [] \<and> stripped t \<and> CHR '','' \<notin> set t)
         else if n = ''content-length'' then \<exists>k. v = HText (show_int k)
         else \<exists>t. v = HText t \<and> stripped t))"

definition length_of :: "header_value \<Rightarrow> int" where
  "length_of v = (case int_of_string (hd (texts v)) of Some k \<Rightarrow> k | None \<Rightarrow> 0)"

text \<open>The calls a header gives rise to at the receiving end.\<close>

definition header_calls :: "string \<times> header_value \<Rightarrow> http_call list" where
  "header_calls h =
     (case h of (n, v) \<Rightarrow>
        if is_header_multifield n \<or> n = ''set-cookie'' then [ExtendHeader n (texts v)]
        else if n = ''content-length'' then [BodyLength (length_of v), SetHeader n (hd (texts v))]
        else [SetHeader n (hd (texts v))])"

lemma to_lower_fixed: "c \<in> {CHR '':'', CHR '' '', CHR 0x09} \<Longrightarrow> to_lower c = c"
  by (elim insertE emptyE) (simp_all, code_simp+)

lemma lower_capname: "lower n = n \<Longrightarrow> lower (capname n) = n"
proof -
  have "lower (join ''-'' (map capitalize ps)) = join ''-'' (map lower ps)" for ps
  proof (induction ps rule: induct_list012)
    case (3 p q ps)
    then show ?case by (simp add: lower_capitalize) (simp add: lower_def, code_simp)
  qed (simp_all add: lower_capitalize, simp add: lower_def)
  moreover have "join ''-'' (map lower ps) = lower (join ''-'' ps)" for ps
  proof (induction ps rule: induct_list012)
    case (3 p q ps)
    then show ?case by simp (simp add: lower_def, code_simp)
  qed (simp_all add: lower_def)
  ultimately show "lower n = n \<Longrightarrow> lower (capname n) = n" by (simp add: capname_def join_split)
qed

lemma capname_plain:
  assumes "lower n = n" and "n \<noteq> []" and "c \<in> {CHR '':'', CHR '' '', CHR 0x09}"
  shows "c \<notin> set n \<Longrightarrow> c \<notin> set (capname n)" "hd n \<noteq> c \<Longrightarrow> hd (capname n) \<noteq> c" "capname n \<noteq> []"
proof -
  have l: "map to_lower (capname n) = n" using lower_capname [OF assms(1)] by (simp add: lower_def)
  have f: "to_lower c = c" by (rule to_lower_fixed [OF assms(3)])
  show ne: "capname n \<noteq> []" using l assms(2) by auto
  show "c \<notin> set n \<Longrightarrow> c \<notin> set (capname n)"
  proof
    assume "c \<notin> set n" and "c \<in> set (capname n)"
    then have "to_lower c \<in> set (map to_lower (capname n))" by (simp del: set_map add: set_map)
    then show False using \<open>c \<notin> set n\<close> by (simp only: l f)
  qed
  show "hd n \<noteq> c \<Longrightarrow> hd (capname n) \<noteq> c"
  proof
    assume h: "hd n \<noteq> c" and "hd (capname n) = c"
    then have "to_lower (hd (capname n)) = c" using f by simp
    then have "hd (map to_lower (capname n)) = c" using ne by (simp add: hd_map)
    then show False using h by (simp only: l)
  qed
qed

lemma spaceless_stripped: "\<forall>c \<in> set s. \<not> is_space c \<Longrightarrow> stripped s"
  unfolding stripped_def by (metis hd_in_set last_in_set)

lemma digit_not_space: "d < 10 \<Longrightarrow> \<not> is_space (digit_char d)"
  using digit_chars [of d] by simp

lemma stripped_show_int: "stripped (show_int k)"
proof (rule spaceless_stripped, rule ballI)
  fix c assume c: "c \<in> set (show_int k)"
  have "\<not> is_space d" if "d \<in> set (show_nat m)" for d m
    using show_nat_digits [of m] that digit_not_space by metis
  then show "\<not> is_space c" using c by (auto simp: show_int_def split: if_splits)
qed

lemma join_stripped:
  assumes "ts \<noteq> []" and "\<forall>t \<in> set ts. t \<noteq> [] \<and> stripped t"
  shows "join '', '' ts \<noteq> [] \<and> hd (join '', '' ts) = hd (hd ts) \<and> last (join '', '' ts) = last (last ts)"
  using assms by (induction ts rule: induct_list012) auto

lemma split_joined:
  assumes "ts \<noteq> []" and "\<forall>t \<in> set ts. t \<noteq> [] \<and> stripped t \<and> CHR '','' \<notin> set t"
  shows "map strip (split_on (CHR '','') (join '', '' ts)) = ts"
  using assms
proof (induction ts rule: induct_list012)
  case (2 t)
  then show ?case by (simp add: split_on_plain strip_stripped)
next
  case (3 t u ts)
  let ?r = "join '', '' (u # ts)"
  obtain p ps where r: "split_on (CHR '','') ?r = p # ps" by (cases "split_on (CHR '','') ?r") auto
  have "split_on (CHR '','') (t @ '', '' @ ?r) = t # (CHR '' '' # p) # ps"
    using 3 r by (simp add: split_on_append)
  then show ?case using 3 r by (simp add: strip_stripped strip_space)
qed simp

lemma strip_printed: "stripped d \<Longrightarrow> strip (CHR '' '' # d) = d"
  by (simp add: strip_space strip_stripped)

lemma colon_split: "CHR '':'' \<notin> set n \<Longrightarrow> split_once (CHR '':'') (n @ CHR '':'' # CHR '' '' # d) = (n, Some (CHR '' '' # d))"
  by (rule split_once_at)

text \<open>What is printed after the name of a header.\<close>

definition printed_value :: "string \<times> header_value \<Rightarrow> string" where
  "printed_value h = (if is_header_multifield (fst h) then join '', '' (texts (snd h)) else hd (texts (snd h)))"

lemma compose_sendable:
  assumes "sendable (n, v)"
  shows "compose_header repr n v = capname n @ '': '' @ printed_value (n, v)" and "stripped (printed_value (n, v))"
proof -
  show "compose_header repr n v = capname n @ '': '' @ printed_value (n, v)"
    using assms by (cases v) (auto simp: compose_header_def printed_value_def sendable_def texts_def Let_def split: if_splits)
  show "stripped (printed_value (n, v))"
  proof (cases "is_header_multifield n")
    case True
    then have t: "texts v \<noteq> []" "\<forall>t \<in> set (texts v). t \<noteq> [] \<and> stripped t" using assms by (auto simp: sendable_def)
    then have "hd (texts v) \<in> set (texts v)" "last (texts v) \<in> set (texts v)" by simp_all
    with t have "stripped (hd (texts v))" "hd (texts v) \<noteq> []" "stripped (last (texts v))" "last (texts v) \<noteq> []" by auto
    then show ?thesis using join_stripped [OF t] True by (simp add: printed_value_def stripped_def)
  next
    case False
    then show ?thesis using assms
      by (auto simp: sendable_def printed_value_def texts_def stripped_show_int split: if_splits)
  qed
qed

section \<open>A class that does not raise\<close>

definition quiet_hooks :: "('c, 'd) http_class \<Rightarrow> bool" where
  "quiet_hooks K \<longleftrightarrow> (\<forall>c x. fst (hooks K c x) = None)"

definition after :: "('c, 'd) http_class \<Rightarrow> http_call \<Rightarrow> 'c \<Rightarrow> 'c" where
  "after K c x = snd (hooks K c x)"

lemma quiet_call: "quiet_hooks K \<Longrightarrow> call_hook K c s = (None, s\<lparr>hs_sub := after K c (hs_sub s)\<rparr>)"
  unfolding quiet_hooks_def call_hook_def after_def by (cases "hooks K c (hs_sub s)") (metis fst_conv snd_conv case_prod_conv)

text \<open>The effect of a header on the connection.\<close>

definition note_header :: "('c, 'd) http_class \<Rightarrow> string \<times> header_value \<Rightarrow> ('c, 'd) http_connection \<Rightarrow> ('c, 'd) http_connection" where
  "note_header K h s =
     (let s = s\<lparr>hs_count := hs_count s + 1, hs_sub := fold (after K) (header_calls h) (hs_sub s)\<rparr>;
          k = length_of (snd h)
      in if fst h = ''content-length'' then setup_identity_decoding K k (s\<lparr>hs_length := k, hs_remaining := k\<rparr>) else s)"

lemma not_multifield: "\<not> is_header_multifield ''content-length''" "\<not> is_header_multifield ''set-cookie''"
  by (simp_all add: is_header_multifield_def MULTIFIELD_HEADERS_def)

lemma pass_header_calls:
  assumes "quiet_hooks K" and "sendable (n, v)" and "n \<noteq> ''content-length''"
  shows "pass_header K n (printed_value (n, v)) s = (None, s\<lparr>hs_sub := fold (after K) (header_calls (n, v)) (hs_sub s)\<rparr>)"
proof (cases "is_header_multifield n")
  case True
  then show ?thesis
    using assms split_joined [of "texts v"] by (auto simp: pass_header_def header_calls_def printed_value_def quiet_call sendable_def)
next
  case False
  then obtain t where "v = HText t" using assms by (auto simp: sendable_def)
  with False show ?thesis using assms
    by (simp add: pass_header_def header_calls_def printed_value_def quiet_call texts_def)
qed

lemma header_entry_read:
  assumes "quiet_hooks K" and "sendable (n, v)" and "hs_count s < max_headers K"
  shows "got_header_entry K (compose_header repr n v) s = (None, note_header K (n, v) s)"
proof -
  let ?s = "s\<lparr>hs_count := hs_count s + 1\<rparr>"
  have n: "lower n = n" "n \<noteq> []" "CHR '':'' \<notin> set n" "n \<noteq> ''transfer-encoding''"
    using assms(2) by (auto simp: sendable_def)
  have sp: "split_once (CHR '':'') (compose_header repr n v) = (capname n, Some (CHR '' '' # printed_value (n, v)))"
    using compose_sendable(1) [OF assms(2)] capname_plain(1) [OF n(1,2) _ n(3)] by (simp add: colon_split)
  have st: "strip (CHR '' '' # printed_value (n, v)) = printed_value (n, v)"
    by (rule strip_printed [OF compose_sendable(2) [OF assms(2)]])
  show ?thesis
  proof (cases "n = ''content-length''")
    case True
    then obtain k where v: "v = HText (show_int k)" using assms(2) not_multifield by (auto simp: sendable_def)
    then have p: "printed_value (n, v) = show_int k" "length_of v = k"
      using True not_multifield by (simp_all add: printed_value_def texts_def length_of_def int_of_show_int)
    show ?thesis
      using assms(1,3) sp st n(1) lower_capname [OF n(1)] True p not_multifield
      by (simp add: got_header_entry_def int_of_show_int quiet_call pass_header_def note_header_def header_calls_def
          setup_identity_decoding_def texts_def v Let_def)
  next
    case False
    then show ?thesis
      using assms sp st n lower_capname [OF n(1)] pass_header_calls [OF assms(1,2) False]
      by (simp add: got_header_entry_def note_header_def Let_def)
  qed
qed

section \<open>A request read from the lines of its headers\<close>

text \<open>A connection without its timeouts\<close>

definition core :: "('c, 'd) http_connection \<Rightarrow> ('c, 'd) http_connection" where
  "core s = s\<lparr>hs_timers := []\<rparr>"

lemma core_fields [simp]:
  "hs_state (core s) = hs_state s" "hs_header (core s) = hs_header s" "hs_count (core s) = hs_count s"
  "hs_decoder (core s) = hs_decoder s" "hs_no_content (core s) = hs_no_content s" "hs_sub (core s) = hs_sub s"
  "hs_raw (core s) = hs_raw s" "hs_extra (core s) = hs_extra s"
  by (simp_all add: core_def)

lemma core_timers [simp]: "core (stop_timer n s) = core s" "core (reset_timer K t n s) = core s"
  by (simp_all add: core_def stop_timer_def reset_timer_def Let_def)

lemma core_updates:
  "core (s\<lparr>hs_state := a\<rparr>) = (core s)\<lparr>hs_state := a\<rparr>" "core (s\<lparr>hs_header := b\<rparr>) = (core s)\<lparr>hs_header := b\<rparr>"
  "core (s\<lparr>hs_sub := c\<rparr>) = (core s)\<lparr>hs_sub := c\<rparr>" "core (s\<lparr>hs_raw := r\<rparr>) = (core s)\<lparr>hs_raw := r\<rparr>"
  "core (s\<lparr>hs_extra := e\<rparr>) = (core s)\<lparr>hs_extra := e\<rparr>" "core (s\<lparr>hs_decoder := d\<rparr>) = (core s)\<lparr>hs_decoder := d\<rparr>"
  "core (s\<lparr>hs_remaining := i\<rparr>) = (core s)\<lparr>hs_remaining := i\<rparr>" "core (hs_reset s) = hs_reset (core s)"
  by (simp_all add: core_def hs_reset_def)

lemma core_note: "core (note_header K h s) = note_header K h (core s)"
  by (simp add: note_header_def setup_identity_decoding_def core_def Let_def)

lemma note_fields [simp]:
  "hs_state (note_header K h s) = hs_state s" "hs_header (note_header K h s) = hs_header s"
  "hs_raw (note_header K h s) = hs_raw s" "hs_extra (note_header K h s) = hs_extra s"
  "hs_count (note_header K h s) = hs_count s + 1"
  "hs_sub (note_header K h s) = fold (after K) (header_calls h) (hs_sub s)"
  by (simp_all add: note_header_def setup_identity_decoding_def Let_def)

lemma note_header_line: "(note_header K h s)\<lparr>hs_header := l\<rparr> = note_header K h (s\<lparr>hs_header := l\<rparr>)"
  by (simp add: note_header_def setup_identity_decoding_def Let_def)

abbreviation header_text :: "(string list \<Rightarrow> string) \<Rightarrow> string \<times> header_value \<Rightarrow> string" where
  "header_text repr h \<equiv> compose_header repr (fst h) (snd h)"

lemma header_text_start:
  assumes "sendable h"
  shows "\<exists>c cs. header_text repr h = c # cs \<and> c \<notin> {CHR '' '', CHR 0x09}"
proof -
  obtain n v where h: "h = (n, v)" by (cases h)
  have n: "lower n = n" "n \<noteq> []" "hd n \<noteq> CHR '' ''" "hd n \<noteq> CHR 0x09"
    using assms by (auto simp: h sendable_def)
  have "hd (capname n) \<noteq> CHR '' ''" "hd (capname n) \<noteq> CHR 0x09" "capname n \<noteq> []"
    using capname_plain(2) [OF n(1,2) _ n(3)] capname_plain(2) [OF n(1,2) _ n(4)] capname_plain(3) [OF n(1,2)] by auto
  then show ?thesis
    using compose_sendable(1) [of n v repr] assms by (cases "capname n") (auto simp: h)
qed

text \<open>The header whose line was read last is still waiting for the next line.\<close>

definition waiting_text :: "(string list \<Rightarrow> string) \<Rightarrow> (string \<times> header_value) list \<Rightarrow> string" where
  "waiting_text repr p = (case p of [] \<Rightarrow> [] | h # _ \<Rightarrow> header_text repr h)"

lemma end_waiting:
  assumes "quiet_hooks K" and "list_all sendable p" and "length p \<le> 1" and "hs_header s = waiting_text repr p"
    and "hs_count s + length p \<le> max_headers K"
  shows "end_header_entry K s = (None, fold (note_header K) p s)"
proof (cases p)
  case Nil
  then show ?thesis using assms by (simp add: end_header_entry_def waiting_text_def)
next
  case (Cons h hs)
  with assms have "hs = []" "sendable h" "hs_count s < max_headers K" by auto
  with Cons assms show ?thesis
    using header_text_start [of h repr] header_entry_read [OF assms(1), of "fst h" "snd h" s repr]
    by (auto simp: end_header_entry_def waiting_text_def)
qed

lemma header_line_read:
  assumes "quiet_hooks K" and "list_all sendable p" and "length p \<le> 1" and "hs_header s = waiting_text repr p"
    and "hs_count s + length p \<le> max_headers K" and "hs_state s = InHeaders" and "sendable h"
  shows "core (snd (line_received K t (header_text repr h) s)) =
    (fold (note_header K) p (core s))\<lparr>hs_header := header_text repr h\<rparr>"
proof -
  let ?s = "reset_timer K t IdleTimer (stop_timer FirstlineTimer s)"
  have f: "hs_header ?s = hs_header s" "hs_count ?s = hs_count s" "hs_state ?s = hs_state s"
    by (simp_all add: reset_timer_def stop_timer_def Let_def)
  have e: "end_header_entry K ?s = (None, fold (note_header K) p ?s)"
    by (rule end_waiting [OF assms(1-3)]) (use assms f in simp_all)
  have c: "core (fold (note_header K) p ?s) = fold (note_header K) p (core s)"
    using assms(3) by (cases p) (simp_all add: core_note)
  obtain x xs where x: "header_text repr h = x # xs" "x \<notin> {CHR '' '', CHR 0x09}"
    using header_text_start [OF assms(7)] by blast
  show ?thesis
    using assms(6) e c x by (simp add: line_received_def got_header_line_def f core_updates Let_def)
qed

text \<open>The end of the headers, and of the content\<close>

definition end_of_content :: "('c, 'd) http_class \<Rightarrow> string \<Rightarrow> ('c, 'd) http_connection \<Rightarrow> ('c, 'd) http_connection" where
  "end_of_content K extra s =
     (hs_reset s)\<lparr>hs_sub := after K ResetCall (after K BodyFinished (hs_sub s)), hs_raw := False, hs_extra := extra\<rparr>"

definition end_of_headers :: "('c, 'd) http_class \<Rightarrow> ('c, 'd) http_connection \<Rightarrow> ('c, 'd) http_connection" where
  "end_of_headers K s =
     (let s = s\<lparr>hs_header := [], hs_state := InBody, hs_sub := after K BodyStart (hs_sub s)\<rparr>
      in if hs_decoder s = None \<or> hs_no_content s then end_of_content K [] s else s\<lparr>hs_raw := True\<rparr>)"

lemma all_content_core:
  assumes "quiet_hooks K"
  shows "core (snd (got_all_content K t extra s)) = end_of_content K extra (core s)"
  by (simp add: got_all_content_def quiet_call [OF assms] end_of_content_def hs_reset_def core_def Let_def
      reset_timer_def stop_timer_def)

lemma empty_line_read:
  assumes "quiet_hooks K" and "list_all sendable p" and "length p \<le> 1" and "hs_header s = waiting_text repr p"
    and "hs_count s + length p \<le> max_headers K" and "hs_state s = InHeaders"
  shows "core (snd (line_received K t [] s)) = end_of_headers K (fold (note_header K) p (core s))"
proof -
  let ?s = "reset_timer K t IdleTimer (stop_timer FirstlineTimer s)"
  have f: "hs_header ?s = hs_header s" "hs_count ?s = hs_count s" "hs_state ?s = hs_state s"
    by (simp_all add: reset_timer_def stop_timer_def Let_def)
  have e: "end_header_entry K ?s = (None, fold (note_header K) p ?s)"
    by (rule end_waiting [OF assms(1-3)]) (use assms f in simp_all)
  have c: "core (fold (note_header K) p ?s) = fold (note_header K) p (core s)"
    using assms(3) by (cases p) (simp_all add: core_note)
  have d: "hs_decoder (core u) = hs_decoder u" "hs_no_content (core u) = hs_no_content u" for u :: "('a, 'b) http_connection"
    by simp_all
  let ?u = "fold (note_header K) p ?s"
  let ?v = "(stop_timer HeadersTimer (?u\<lparr>hs_header := []\<rparr>))\<lparr>hs_state := InBody\<rparr>"
  have r: "snd (line_received K t [] s) = snd (got_all_headers K t (?u\<lparr>hs_header := []\<rparr>))"
    using assms(6) e by (simp add: line_received_def got_header_line_def f Let_def)
  have v: "core (?v\<lparr>hs_sub := after K BodyStart (hs_sub ?v)\<rparr>) =
      (fold (note_header K) p (core s))\<lparr>hs_header := [], hs_state := InBody,
        hs_sub := after K BodyStart (hs_sub (fold (note_header K) p (core s)))\<rparr>"
    unfolding c [symmetric] by (simp add: core_def stop_timer_def)
  have w: "hs_decoder ?v = hs_decoder (fold (note_header K) p (core s))"
    "hs_no_content ?v = hs_no_content (fold (note_header K) p (core s))"
    unfolding c [symmetric] by (simp_all add: stop_timer_def)
  show ?thesis
    unfolding r got_all_headers_def end_of_headers_def Let_def quiet_call [OF assms(1)] and_then_simps
    using v w by (auto simp: all_content_core [OF assms(1)] core_updates)
qed

lemma end_of_headers_line: "end_of_headers K (s\<lparr>hs_header := l\<rparr>) = end_of_headers K s"
  by (simp add: end_of_headers_def end_of_content_def hs_reset_def Let_def)

lemma fold_note_line: "fold (note_header K) hs (s\<lparr>hs_header := l\<rparr>) = (fold (note_header K) hs s)\<lparr>hs_header := l\<rparr>"
  by (induction hs arbitrary: s) (simp_all add: note_header_line [symmetric])

lemma fold_note_fields:
  "hs_state (fold (note_header K) hs s) = hs_state s" "hs_raw (fold (note_header K) hs s) = hs_raw s"
  "hs_count (fold (note_header K) hs s) = hs_count s + length hs"
  "hs_sub (fold (note_header K) hs s) = fold (after K) (concat (map header_calls hs)) (hs_sub s)"
  by (induction hs arbitrary: s) simp_all

lemma headers_read:
  assumes "quiet_hooks K"
  shows "list_all sendable (p @ hs) \<Longrightarrow> length p \<le> 1 \<Longrightarrow> hs_header s = waiting_text repr p \<Longrightarrow>
    hs_count s + length p + length hs \<le> max_headers K \<Longrightarrow> hs_state s = InHeaders \<Longrightarrow>
    map snd evs = map (\<lambda>h. LineIn (header_text repr h)) hs @ [LineIn []] \<Longrightarrow>
    core (http_run K evs s) = end_of_headers K (fold (note_header K) (p @ hs) (core s))"
proof (induction hs arbitrary: p s evs)
  case Nil
  then obtain t where "evs = [(t, LineIn [])]" by (cases evs) auto
  then show ?case using Nil by (simp add: http_run_def http_step_def empty_line_read [OF assms])
next
  case (Cons h hs)
  then obtain t evs' where evs: "evs = (t, LineIn (header_text repr h)) # evs'"
    and evs': "map snd evs' = map (\<lambda>h. LineIn (header_text repr h)) hs @ [LineIn []]"
    by (cases evs) auto
  let ?s = "snd (line_received K t (header_text repr h) s)"
  have c: "core ?s = (fold (note_header K) p (core s))\<lparr>hs_header := header_text repr h\<rparr>"
    by (rule header_line_read [OF assms, where p = p]) (use Cons.prems in auto)
  have "hs_header ?s = header_text repr h" "hs_state ?s = InHeaders" "hs_count ?s = hs_count s + length p"
    using arg_cong [OF c, of hs_header] arg_cong [OF c, of hs_state] arg_cong [OF c, of hs_count] Cons.prems(5)
    by (simp_all add: fold_note_fields)
  then have "core (http_run K evs' ?s) = end_of_headers K (fold (note_header K) ([h] @ hs) (core ?s))"
    using Cons.prems evs' by (intro Cons.IH) (auto simp: waiting_text_def)
  then show ?case
    by (simp add: evs http_run_def http_step_def c fold_note_line note_header_line [symmetric] end_of_headers_line)
qed

section \<open>Bodies\<close>

text \<open>The documented behaviour of the decoder for a body of known length: it counts down, and gives what
  follows the body back.\<close>

definition identity_laws :: "('c, 'd) http_class \<Rightarrow> bool" where
  "identity_laws K \<longleftrightarrow>
     (\<forall>n data. 0 < n \<longrightarrow>
        (if int (length data) < n
         then feed K (new_identity K n) data = ([data], More, new_identity K (n - int (length data)))
         else \<exists>d. feed K (new_identity K n) data = ([take (nat n) data], Finished (drop (nat n) data), d)))"

text \<open>A connection that waits for a request\<close>

definition ready :: "('c, 'd) http_connection \<Rightarrow> bool" where
  "ready s \<longleftrightarrow> hs_state s = ReqLine \<and> hs_header s = [] \<and> hs_count s = 0 \<and> hs_decoder s = None \<and>
     \<not> hs_no_content s \<and> \<not> hs_raw s"

lemma ready_core: "ready (core s) = ready s"
  by (simp add: ready_def)

lemma end_of_content_fields:
  "ready (end_of_content K extra s)" "hs_extra (end_of_content K extra s) = extra"
  "hs_sub (end_of_content K extra s) = after K ResetCall (after K BodyFinished (hs_sub s))"
  by (simp_all add: end_of_content_def ready_def hs_reset_def)

lemma raw_core:
  assumes "quiet_hooks K" and "hs_decoder s = Some d" and "feed K d data = ([piece], ending, d')"
  shows "ending = More \<Longrightarrow> hs_decoder (snd (raw_data_received K t data s)) = Some d' \<and>
      hs_sub (snd (raw_data_received K t data s)) = after K (BodyData piece) (hs_sub s)"
    and "ending = Finished extra \<Longrightarrow> \<exists>u. core (snd (raw_data_received K t data s)) = end_of_content K extra u \<and>
      hs_sub u = after K (BodyData piece) (hs_sub s)"
proof -
  let ?s = "reset_timer K t IdleTimer
    (if hs_length s \<noteq> 0 then s\<lparr>hs_remaining := hs_remaining s - int (length data)\<rparr> else s)"
  have f: "hs_decoder ?s = Some d" "hs_sub ?s = hs_sub s"
    using assms(2) by (simp_all add: reset_timer_def stop_timer_def Let_def)
  have r: "raw_data_received K t data s = handle_received K t data ?s" by (simp add: raw_data_received_def Let_def)
  show "ending = More \<Longrightarrow> hs_decoder (snd (raw_data_received K t data s)) = Some d' \<and>
      hs_sub (snd (raw_data_received K t data s)) = after K (BodyData piece) (hs_sub s)"
    unfolding r handle_received_def f option.case assms(3) by (simp add: quiet_call [OF assms(1)] f)
  show "ending = Finished extra \<Longrightarrow> \<exists>u. core (snd (raw_data_received K t data s)) = end_of_content K extra u \<and>
      hs_sub u = after K (BodyData piece) (hs_sub s)"
    unfolding r handle_received_def f option.case assms(3)
    by (auto simp: quiet_call [OF assms(1)] f all_content_core [OF assms(1)])
qed

lemma body_read:
  assumes "quiet_hooks K" and "identity_laws K"
  shows "chunks \<noteq> [] \<Longrightarrow> [] \<notin> set chunks \<Longrightarrow> hs_decoder s = Some (new_identity K (int (length (concat chunks)))) \<Longrightarrow>
    map snd evs = map RawIn chunks \<Longrightarrow>
    ready (http_run K evs s) \<and> hs_extra (http_run K evs s) = [] \<and>
    hs_sub (http_run K evs s) = fold (after K) (map BodyData chunks @ [BodyFinished, ResetCall]) (hs_sub s)"
proof (induction chunks arbitrary: s evs)
  case (Cons c chunks)
  then obtain t evs' where evs: "evs = (t, RawIn c) # evs'" and evs': "map snd evs' = map RawIn chunks"
    by (cases evs) auto
  let ?n = "int (length (concat (c # chunks)))"
  let ?s = "snd (raw_data_received K t c s)"
  have run: "http_run K evs s = http_run K evs' ?s" by (simp add: evs http_run_def http_step_def)
  have pos: "0 < ?n" using Cons.prems(2) by (cases c) auto
  show ?case
  proof (cases "chunks = []")
    case True
    have "\<not> int (length c) < ?n" using True by simp
    then obtain d where d: "feed K (new_identity K ?n) c = ([take (nat ?n) c], Finished (drop (nat ?n) c), d)"
      using assms(2) [unfolded identity_laws_def] pos by (smt (verit))
    then have "feed K (new_identity K ?n) c = ([c], Finished [], d)" using True by simp
    from raw_core(2) [OF assms(1) Cons.prems(3) this refl]
    obtain u where u: "core ?s = end_of_content K [] u" "hs_sub u = after K (BodyData c) (hs_sub s)" by blast
    have "ready ?s" using end_of_content_fields(1) ready_core by (metis u(1))
    moreover have "hs_extra ?s = []" using arg_cong [OF u(1), of hs_extra] by (simp add: end_of_content_fields)
    moreover have "hs_sub ?s = after K ResetCall (after K BodyFinished (after K (BodyData c) (hs_sub s)))"
      using arg_cong [OF u(1), of hs_sub] u(2) by (simp add: end_of_content_fields)
    moreover have "evs' = []" using evs' True by simp
    ultimately show ?thesis by (simp add: True run) (simp add: http_run_def)
  next
    case False
    then have "concat chunks \<noteq> []" using Cons.prems(2) by (cases chunks) auto
    then have lt: "int (length c) < ?n" by simp
    have "?n - int (length c) = int (length (concat chunks))" by simp
    then have d: "feed K (new_identity K ?n) c = ([c], More, new_identity K (int (length (concat chunks))))"
      using assms(2) [unfolded identity_laws_def] pos lt by (smt (verit))
    note n = raw_core(1) [OF assms(1) Cons.prems(3) d refl, of t]
    show ?thesis unfolding run
      using Cons.IH [OF False _ n [THEN conjunct1] evs'] Cons.prems(2) n [THEN conjunct2] by simp
  qed
qed simp

section \<open>A whole request\<close>

lemma decoder_after:
  assumes "dict_ok hs"
  shows "hs_decoder (fold (note_header K) hs s) =
      (case map_of hs ''content-length'' of
         None \<Rightarrow> hs_decoder s
       | Some v \<Rightarrow> if length_of v = 0 then hs_decoder s else Some (new_identity K (length_of v)))"
    "hs_no_content (fold (note_header K) hs s) =
      (case map_of hs ''content-length'' of None \<Rightarrow> hs_no_content s | Some v \<Rightarrow> length_of v = 0 \<or> hs_no_content s)"
proof -
  have *: "hs_decoder (note_header K h s) =
      (if fst h = ''content-length'' \<and> length_of (snd h) \<noteq> 0 then Some (new_identity K (length_of (snd h))) else hs_decoder s)"
    "hs_no_content (note_header K h s) = (fst h = ''content-length'' \<and> length_of (snd h) = 0 \<or> hs_no_content s)" for h s
    by (simp_all add: note_header_def setup_identity_decoding_def Let_def)
  show "hs_decoder (fold (note_header K) hs s) =
      (case map_of hs ''content-length'' of
         None \<Rightarrow> hs_decoder s
       | Some v \<Rightarrow> if length_of v = 0 then hs_decoder s else Some (new_identity K (length_of v)))"
    "hs_no_content (fold (note_header K) hs s) =
      (case map_of hs ''content-length'' of None \<Rightarrow> hs_no_content s | Some v \<Rightarrow> length_of v = 0 \<or> hs_no_content s)"
    using assms by (induction hs arbitrary: s) (auto simp: * image_iff split: option.split dest: map_of_SomeD)
qed

definition length_header :: "string \<Rightarrow> header_value option" where
  "length_header body = (if body = [] then None else Some (HText (show_int (int (length body)))))"

lemma length_of_show: "length_of (HText (show_int k)) = k"
  by (simp add: length_of_def texts_def int_of_show_int)

lemma http_run_append: "http_run K (evs @ evs') s = http_run K evs' (http_run K evs s)"
  by (simp add: http_run_def)

lemma request_line_read:
  assumes "quiet_hooks K" and "ready s"
  shows "core (snd (line_received K t line s)) = (core s)\<lparr>hs_sub := after K (RequestLine line) (hs_sub s), hs_state := InHeaders\<rparr>"
proof -
  have "hs_state (reset_timer K t IdleTimer (stop_timer FirstlineTimer s)) = ReqLine"
    using assms(2) by (simp add: ready_def reset_timer_def stop_timer_def Let_def)
  then show ?thesis
    by (simp add: line_received_def got_request_line_def quiet_call [OF assms(1)] core_def reset_timer_def
        stop_timer_def Let_def)
qed


text \<open>A decoder for bodies of known length, and a class that keeps a log of its calls.\<close>

definition counting_class :: "(http_call list, int) http_class" where
  "counting_class =
     \<lparr>hooks = (\<lambda>c log. (None, log @ [c])), periods = (\<lambda>_. 60), max_headers = 20, new_identity = (\<lambda>n. n),
      new_chunked = 0,
      feed = (\<lambda>n data. if int (length data) < n then ([data], More, n - int (length data))
                       else ([take (nat n) data], Finished (drop (nat n) data), 0)),
      no_more_data = (\<lambda>_. None)\<rparr>"

lemma counting_laws: "quiet_hooks counting_class" "identity_laws counting_class"
  by (auto simp: quiet_hooks_def identity_laws_def counting_class_def)


end
