(* ===== verification/UrlProps.thy ===== *)
theory UrlProps
  imports Http
begin

text \<open>
  Locations, status lines and MIME types: composing and parsing are inverse to each other where they can
  be, and matching accepted types does what it says.
\<close>

section \<open>Paths\<close>

text \<open>A path composed of the parts of a location is split into these parts again, whatever bytes they
  hold (slashes, percent and plus signs and white space included).\<close>

theorem path_round_trip:
  assumes "location \<noteq> []"
  shows "path2tuple (tuple2path location) = location"
proof -
  have "split_on (CHR ''/'') (join [CHR ''/''] (map quote_plus location)) = map quote_plus location"
    by (rule split_join) (use assms in \<open>auto simp: quote_no_slash\<close>)
  then show ?thesis by (simp add: path2tuple_def tuple2path_def comp_def unquote_quote)
qed

theorem path_round_trip_witness: "path2tuple (tuple2path [''a/b'', [], ''50% + 1'']) = [''a/b'', [], ''50% + 1'']"
  by (rule path_round_trip) simp

lemma empty_location: "path2tuple (tuple2path []) = [[]]"
  by code_simp

section \<open>Addresses\<close>

definition url_mark :: "char \<Rightarrow> bool" where
  "url_mark c \<longleftrightarrow> c \<in> {CHR ''/'', CHR ''?'', CHR ''#'', CHR ''@'', CHR ''['', CHR '']'', CHR '' ''}"

lemma url_marks:
  "url_mark (CHR ''/'')" "url_mark (CHR ''?'')" "url_mark (CHR ''#'')" "url_mark (CHR ''@'')" "url_mark (CHR ''['')"
  "url_mark (CHR '']'')" "url_mark (CHR '' '')" "\<not> url_mark (CHR '':'')"
  by (simp_all add: url_mark_def)

lemma no_mark: "\<forall>c \<in> set s. \<not> url_mark c \<Longrightarrow> url_mark c \<Longrightarrow> c \<notin> set s"
  by blast

lemma digit_facts: "\<not> (is_digit c \<and> (url_mark c \<or> c = CHR '':''))"
  by (rule all_chars [where P = "\<lambda>c. \<not> (is_digit c \<and> (url_mark c \<or> c = CHR '':''))"]) code_simp

lemma show_int_digits: "0 \<le> n \<Longrightarrow> c \<in> set (show_int n) \<Longrightarrow> is_digit c"
proof -
  have d: "\<forall>d \<in> set [0..<10]. is_digit (digit_char d)" by code_simp
  assume "0 \<le> n" and "c \<in> set (show_int n)"
  then have "c \<in> set (show_nat (nat n))" by (simp add: show_int_def)
  then obtain d where "d < 10" "c = digit_char d" using show_nat_digits by blast
  with d show "is_digit c" by simp
qed

definition plain_host :: "string \<Rightarrow> bool" where
  "plain_host h \<longleftrightarrow> h \<noteq> [] \<and> lower h = h \<and> CHR '':'' \<notin> set h \<and> list_all (\<lambda>c. \<not> url_mark c) h"

definition plain_path :: "string \<Rightarrow> bool" where
  "plain_path p \<longleftrightarrow> p \<noteq> [] \<and> hd p = CHR ''/'' \<and> CHR ''?'' \<notin> set p \<and> CHR ''#'' \<notin> set p \<and> \<not> is_space (last p)"

definition unreserved_query :: "string \<Rightarrow> bool" where
  "unreserved_query q \<longleftrightarrow> CHR ''#'' \<notin> set q \<and> (q = [] \<or> \<not> is_space (last q))"

definition port_text :: "int \<Rightarrow> string" where
  "port_text p = (if p = 80 then [] else CHR '':'' # show_int p)"

definition query_text :: "string \<Rightarrow> string" where
  "query_text q = (if q = [] then [] else CHR ''?'' # q)"

lemma scheme_names: "enum_name Schemes 0 = ''http''" "enum_name Schemes 1 = ''https''"
    "enum_get Schemes (KeyStr ''http'') = Inr 0" "enum_get Schemes (KeyStr ''https'') = Inr 1"
  by code_simp+

lemma compose_plain:
  "p \<noteq> 0 \<Longrightarrow> compose_url (Some path) (Some q) (Some h) (Some p) (Some s) =
    enum_name Schemes s @ CHR '':'' # CHR ''/'' # CHR ''/'' # h @ port_text p @ path @ query_text q"
  by (cases q) (simp_all add: compose_url_def port_text_def query_text_def)

lemma split_scheme_plain:
  "split_scheme (''http'' @ CHR '':'' # CHR ''/'' # r) = (''http'', CHR ''/'' # r)"
  "split_scheme (''https'' @ CHR '':'' # CHR ''/'' # r) = (''https'', CHR ''/'' # r)"
proof -
  have "split_once (CHR '':'') (''http'' @ CHR '':'' # CHR ''/'' # r) = (''http'', Some (CHR ''/'' # r))"
    "split_once (CHR '':'') (''https'' @ CHR '':'' # CHR ''/'' # r) = (''https'', Some (CHR ''/'' # r))"
    by (rule split_once_at, simp)+
  moreover have "list_all scheme_char ''https''" "lower ''https'' = ''https''" "\<not> is_digit (CHR ''/'')" by code_simp+
  ultimately show "split_scheme (''http'' @ CHR '':'' # CHR ''/'' # r) = (''http'', CHR ''/'' # r)"
    "split_scheme (''https'' @ CHR '':'' # CHR ''/'' # r) = (''https'', CHR ''/'' # r)"
    by (simp_all only: split_scheme_def) simp_all
qed

lemma netloc_plain: "plain_host h \<Longrightarrow> 0 < p \<Longrightarrow> \<forall>c \<in> set (h @ port_text p). \<not> url_mark c"
  using digit_facts show_int_digits [of p] url_marks(8)
  by (auto simp: plain_host_def list_all_iff port_text_def)

lemma split_query:
  assumes "plain_path path" and "unreserved_query q"
  shows "split_once (CHR ''#'') (path @ query_text q) = (path @ query_text q, None)"
    "split_once (CHR ''?'') (path @ query_text q) = (path, if q = [] then None else Some q)"
proof -
  show "split_once (CHR ''#'') (path @ query_text q) = (path @ query_text q, None)"
    using assms by (intro split_once_plain) (auto simp: plain_path_def unreserved_query_def query_text_def)
  show "split_once (CHR ''?'') (path @ query_text q) = (path, if q = [] then None else Some q)"
    using assms by (auto simp: plain_path_def query_text_def intro: split_once_plain split_once_at)
qed

lemma urlsplit_plain:
  assumes "plain_host h" and "0 < p" and "plain_path path" and "unreserved_query q" and "s = ''http'' \<or> s = ''https''"
  shows "urlsplit (s @ CHR '':'' # CHR ''/'' # CHR ''/'' # h @ port_text p @ path @ query_text q) =
    Inr \<lparr>su_scheme = s, su_netloc = h @ port_text p, su_path = path, su_query = q\<rparr>"
proof -
  note m = netloc_plain [OF assms(1,2)]
  have n: "\<not> netloc_end c" if "c \<in> set (h @ port_text p)" for c
    using m that by (auto simp: netloc_end_def url_mark_def)
  obtain r where r: "path @ query_text q = CHR ''/'' # r"
    using assms(3) by (cases path) (auto simp: plain_path_def)
  have e: "netloc_end (CHR ''/'')" by (simp add: netloc_end_def)
  have t: "takeWhile (\<lambda>c. \<not> netloc_end c) ((h @ port_text p) @ path @ query_text q) = h @ port_text p"
    "dropWhile (\<lambda>c. \<not> netloc_end c) ((h @ port_text p) @ path @ query_text q) = path @ query_text q"
    unfolding r using takeWhile_append2 [of "h @ port_text p", OF n] dropWhile_append2 [of "h @ port_text p", OF n] e
    by simp_all
  have b: "CHR ''['' \<notin> set (h @ port_text p)" "CHR '']'' \<notin> set (h @ port_text p)"
    by (rule no_mark [OF m], rule url_marks)+
  have sc: "split_scheme (s @ CHR '':'' # CHR ''/'' # CHR ''/'' # h @ port_text p @ path @ query_text q) =
      (s, CHR ''/'' # CHR ''/'' # (h @ port_text p) @ path @ query_text q)"
    using assms(5) split_scheme_plain by auto
  show ?thesis
    unfolding urlsplit_def sc Let_def case_prod_conv
    using t b split_query [OF assms(3,4)] by (cases "q = []") simp_all
qed

lemma netloc_parts:
  assumes "plain_host h" and "0 < p" and "p \<le> 65535" and "su_netloc u = h @ port_text p"
  shows "hostname u = Some h" and "url_port u = Inr (if p = 80 then None else Some p)"
proof -
  note m = netloc_plain [OF assms(1,2)]
  have plain: "CHR ''@'' \<notin> set (h @ port_text p)" "CHR '']'' \<notin> set (h @ port_text p)" "CHR ''['' \<notin> set (h @ port_text p)"
    by (rule no_mark [OF m], rule url_marks)+
  have at: "split_on (CHR ''@'') (h @ port_text p) = [h @ port_text p]" "split_on (CHR '']'') (h @ port_text p) = [h @ port_text p]"
    by (rule split_on_plain, rule plain)+
  have h: "CHR '':'' \<notin> set h" "h \<noteq> []" "lower h = h" using assms(1) by (auto simp: plain_host_def)
  have d: "CHR '':'' \<notin> set (show_int p)" using digit_facts show_int_digits [of p] assms(2) by force
  have c: "split_on (CHR '':'') (h @ port_text p) = (if p = 80 then [h] else [h, show_int p])"
    using h(1) d by (simp add: port_text_def split_on_append split_on_plain)
  have "lower [] = []" by (simp add: lower_def)
  then show "hostname u = Some h"
    unfolding hostname_def assms(4) at Let_def last.simps using plain h c by (auto simp: port_text_def)
  have "show_int p \<noteq> []" using show_nat_digits by (simp add: show_int_def)
  then show "url_port u = Inr (if p = 80 then None else Some p)"
    unfolding url_port_def assms(4) at Let_def last.simps simp_thms if_True c
    using assms(2,3) by (simp add: int_of_show_int)
qed

lemma url_stripped:
  assumes "plain_path path" and "unreserved_query q" and "s = ''http'' \<or> s = ''https''"
  shows "strip (s @ CHR '':'' # CHR ''/'' # CHR ''/'' # h @ port_text p @ path @ query_text q) =
    s @ CHR '':'' # CHR ''/'' # CHR ''/'' # h @ port_text p @ path @ query_text q"
  using assms by (intro strip_stripped) (auto simp: stripped_def plain_path_def unreserved_query_def query_text_def)

text \<open>C35: The address composed of all five parts, the scheme \<open>http\<close> or \<open>https\<close>, a host name in lower case
  without marks of an address, a port from 1 to 65535, a path that starts with a slash and has no
  question mark or hash, and a query without a hash, the last two not ending in white space, is parsed
  into the same parts, unless it is an \<open>https\<close> address with the port 80.\<close>

theorem url_round_trip:
  assumes "s \<in> {0, 1}" and "plain_host h" and "0 < p" and "p \<le> 65535" and "plain_path path" and "unreserved_query q"
    and "s = 1 \<Longrightarrow> p \<noteq> 80"
  shows "parse_url (compose_url (Some path) (Some q) (Some h) (Some p) (Some s)) None None =
    Inr \<lparr>pu_scheme = s, pu_host = Some h, pu_port = p, pu_path = path, pu_query = q\<rparr>"
proof -
  let ?n = "enum_name Schemes s"
  have n: "?n = ''http'' \<and> s = 0 \<or> ?n = ''https'' \<and> s = 1" using assms(1) scheme_names by auto
  let ?u = "\<lparr>su_scheme = ?n, su_netloc = h @ port_text p, su_path = path, su_query = q\<rparr>"
  have u: "urlsplit (strip (compose_url (Some path) (Some q) (Some h) (Some p) (Some s))) = Inr ?u"
    using assms(3) n url_stripped [OF assms(5,6), of ?n h p] urlsplit_plain [OF assms(2,3,5,6), of ?n]
    by (auto simp: compose_plain)
  have "path \<noteq> []" using assms(5) by (simp add: plain_path_def)
  then show ?thesis
    using n assms(3,7) netloc_parts [OF assms(2-4), of ?u] scheme_names
    by (auto simp: parse_url_def u or_port_def DEFAULT_URL_HTTP_PORT_def Let_def)
qed

theorem url_round_trip_witness:
  "parse_url (compose_url (Some ''/a/b'') (Some ''x=1'') (Some ''example.org'') (Some 8443) (Some 1)) None None =
    Inr \<lparr>pu_scheme = 1, pu_host = Some ''example.org'', pu_port = 8443, pu_path = ''/a/b'', pu_query = ''x=1''\<rparr>"
proof (rule url_round_trip)
  show "plain_host ''example.org''" by code_simp
qed (simp_all add: plain_path_def unreserved_query_def)

text \<open>The port 80 of an \<open>https\<close> address is not written, and read back as 443; the port of a host header of an
  \<open>https\<close> request without a port is taken to be 80.\<close>

theorem https_ports_confused:
  "map_sum id pu_port (parse_url (compose_url (Some ''/'') None (Some ''h'') (Some 80) (Some 1)) None None) = Inr 443 \<and>
   parse_host ''h'' 1 = Some (''h'', 80)"
  by code_simp

section \<open>Status lines\<close>

lemma split_limit_two:
  "CHR '' '' \<notin> set a \<Longrightarrow> CHR '' '' \<notin> set b \<Longrightarrow> split_limit (CHR '' '') 2 (a @ CHR '' '' # b @ CHR '' '' # c) = [a, b, c]"
  by (simp add: numeral_2_eq_2 split_once_at)

lemma protocol_names:
  "p \<in> {0, 1} \<Longrightarrow> CHR '' '' \<notin> set (enum_name Protocols p) \<and> enum_get Protocols (KeyStr (enum_name Protocols p)) = Inr p"
  by (elim insertE emptyE; hypsubst) code_simp+

text \<open>The status line of a response is parsed into the protocol and the status it was composed of.\<close>

theorem status_line_round_trip:
  assumes "enum_get Status (KeyInt status) = Inr status" and "0 \<le> status" and "p \<in> {0, 1}"
  shows "parse_response_status (hd (compose_response responses status (Some p) message [])) = Some (p, status)"
proof -
  have s: "CHR '' '' \<notin> set (show_int status)"
    using show_int_digits [OF assms(2)] digit_facts url_marks(7) by blast
  show ?thesis
    using protocol_names [OF assms(3)] assms(1)
    by (simp add: parse_response_status_def compose_response_def Let_def split_limit_two [OF _ s] int_of_show_int)
qed

section \<open>Accepted types\<close>

lemma map_of_fold_add:
  "map_of (fold (\<lambda>(n, p) t. case mime2tuple n of (type, sub) \<Rightarrow> add_mime type sub (min 1 p) t) ms tree) type = None \<longleftrightarrow>
    map_of tree type = None \<and> (\<forall>(n, p) \<in> set ms. fst (mime2tuple n) \<noteq> type)"
  by (induction ms arbitrary: tree)
    (auto simp: add_mime_def map_of_update split: prod.splits simp del: map_of_eq_None_iff)

definition tree_has :: "mime_tree \<Rightarrow> string \<Rightarrow> string \<Rightarrow> bool" where
  "tree_has tree type sub = (case map_of tree type of None \<Rightarrow> False | Some d \<Rightarrow> dict_has d sub)"

lemma tree_has_add: "tree_has (add_mime type sub p tree) t s \<longleftrightarrow> (t = type \<and> s = sub) \<or> tree_has tree t s"
  by (auto simp: tree_has_def add_mime_def map_of_update split: option.splits simp del: map_of_eq_None_iff not_None_eq)

lemma tree_has_fold:
  "tree_has (fold (\<lambda>(n, p) t. case mime2tuple n of (type, sub) \<Rightarrow> add_mime type sub (min 1 p) t) ms tree) t s \<longleftrightarrow>
    tree_has tree t s \<or> (\<exists>n \<in> fst ` set ms. mime2tuple n = (t, s))"
proof (induction ms arbitrary: tree)
  case (Cons m ms)
  obtain n p where m: "m = (n, p)" by (cases m)
  obtain type sub where n: "mime2tuple n = (type, sub)" by (cases "mime2tuple n")
  show ?case using Cons by (auto simp: m n tree_has_add)
qed simp

lemma accept_has: "does_accept_mime_type mime tree \<longleftrightarrow>
    (case mime2tuple mime of (type, sub) \<Rightarrow> \<exists>t \<in> {type, ''*''}. tree_has tree t sub \<or> tree_has tree t ''*'')"
  by (auto simp: does_accept_mime_type_def tree_has_def split: prod.splits option.splits)

text \<open>A type is accepted exactly if one of the accepted types has its main type or a star, and its subtype
  or a star.\<close>

theorem accepts_matching_types:
  "does_accept_mime_type mime (build_mime_tree accepted False) \<longleftrightarrow>
    (\<exists>n \<in> fst ` set accepted. fst (mime2tuple n) \<in> {fst (mime2tuple mime), ''*''} \<and>
       snd (mime2tuple n) \<in> {snd (mime2tuple mime), ''*''})"
proof -
  obtain type sub where m: "mime2tuple mime = (type, sub)" by (cases "mime2tuple mime")
  have e: "\<not> tree_has [] t s" for t s by (simp add: tree_has_def)
  show ?thesis
    unfolding accept_has build_mime_tree_def Let_def if_False m case_prod_conv tree_has_fold
    using e by (auto simp: prod_eq_iff)
qed

end
