(* ===== verification/HttpServer.thy ===== *)
theory HttpServer
  imports HttpProtocol
begin

text \<open>
  The server end of an HTTP connection, \<open>web/httpserver.py\<close>: the channel, which implements the virtual
  methods of \<open>HttpProtocol\<close>, and its requests.

  A request is the number it was built with; \<open>ch_table\<close> holds all of them, \<open>ch_requests\<close> the pipeline.
  The methods a subclass of \<open>Request\<close> overrides are the function \<open>app\<close>: given the request and what it
  is told, it answers with the calls it makes on the request and the exception it raises at the end.
  Everything written to the transport is kept with its writer.  A cleanup that was scheduled
  (\<open>call_later(0, self._cleanup)\<close>) is run by an event.

  \<open>http.RESPONSES\<close> of twisted and the printing of lists are parameters.  Left out: the authentication
  flag, the factory and \<open>ErrorRequest\<close>, which nothing builds.
\<close>

section \<open>State\<close>

datatype req_event = OnInitiate | OnActivate | OnData string | OnAllContent | OnConnectionLost

datatype req_cmd =
    CmdWrite string | CmdFinish | CmdSetHeader string header_value | CmdClearHeaders | CmdRemoveHeader string
  | CmdSetLength int | CmdSetCode int "string option" | CmdAddCookie string string | CmdHttpError int "string option"

text \<open>Where a request writes: nowhere yet, to a buffer, or to the connection.\<close>

datatype req_transport = NoTransport | Buffered string | Direct

record http_request =
  rq_protocol :: int
  rq_method :: int
  rq_uri :: string
  rq_body_length :: "int option"
  rq_received_headers :: "(string, header_value) dict"
  rq_received_cookies :: "(string, string) dict"
  rq_received_length :: "int option"
  rq_received_bytes :: nat
  rq_headers :: "(string, header_value) dict"
  rq_cookies :: "(string, string) dict"
  rq_length :: "int option"
  rq_bytes_sent :: int
  rq_initiated :: bool
  rq_activated :: bool
  rq_writing :: bool
  rq_finished :: bool
  rq_persistent :: bool
  rq_received :: bool
  rq_status :: int
  rq_message :: string
  rq_transport :: req_transport
  rq_transport_activated :: bool
  rq_detached :: bool

record request_info =
  ri_protocol :: int
  ri_method :: int
  ri_uri :: string
  ri_length :: "int option"
  ri_headers :: "(string, header_value) dict"

text \<open>A piece of output: the request that wrote it, if any, whether that request was active and still in the
  pipeline, and the text.\<close>

type_synonym written = "nat option \<times> bool \<times> string"

record channel =
  ch_table :: "http_request list"
  ch_requests :: "nat list option"
  ch_protocol :: "int option"
  ch_reqinfo :: "request_info option"
  ch_written :: "written list"
  ch_closing :: bool
  ch_scheduled :: "nat list"

record http_server =
  sv_app :: "nat \<Rightarrow> req_event \<Rightarrow> http_request \<Rightarrow> req_cmd list \<times> exn option"
  sv_force :: "int option"
  sv_responses :: "(int, string) dict"
  sv_repr :: "string list \<Rightarrow> string"

definition fresh_channel :: channel where
  "fresh_channel = \<lparr>ch_table = [], ch_requests = Some [], ch_protocol = None, ch_reqinfo = None, ch_written = [],
                 ch_closing = False, ch_scheduled = []\<rparr>"

definition ch_output :: "channel \<Rightarrow> string" where
  "ch_output ch = concat (map (snd \<circ> snd) (ch_written ch))"

abbreviation the_req :: "channel \<Rightarrow> nat \<Rightarrow> http_request" where
  "the_req ch i \<equiv> ch_table ch ! i"

definition upd_req :: "nat \<Rightarrow> (http_request \<Rightarrow> http_request) \<Rightarrow> channel \<Rightarrow> channel" where
  "upd_req i f ch = ch\<lparr>ch_table := (ch_table ch)[i := f (the_req ch i)]\<rparr>"

definition lose_connection :: "channel \<Rightarrow> channel" where
  "lose_connection ch = ch\<lparr>ch_closing := True\<rparr>"

definition is_current :: "nat \<Rightarrow> channel \<Rightarrow> bool" where
  "is_current i ch \<longleftrightarrow>
     rq_activated (the_req ch i) \<and> (case ch_requests ch of None \<Rightarrow> False | Some rs \<Rightarrow> i \<in> set rs)"

definition put_out :: "nat \<Rightarrow> string \<Rightarrow> channel \<Rightarrow> channel" where
  "put_out i s ch = ch\<lparr>ch_written := ch_written ch @ [(Some i, is_current i ch, s)]\<rparr>"

section \<open>A request\<close>

definition check_headers_open :: "nat \<Rightarrow> (channel \<Rightarrow> channel run) \<Rightarrow> channel \<Rightarrow> channel run" where
  "check_headers_open i f ch = (if rq_writing (the_req ch i) then (Some AssertionError, ch) else f ch)"

text \<open>The value of a multiple header is a list, to which values are added.\<close>

definition add_header :: "string \<Rightarrow> header_value \<Rightarrow> http_request \<Rightarrow> http_request" where
  "add_header name v r =
     (let header = lower name in
      if is_header_multifield header then
        (let old = (case map_of (rq_headers r) header of Some (HTexts ts) \<Rightarrow> ts | _ \<Rightarrow> []);
             new = (case v of HTexts ts \<Rightarrow> ts | HText s \<Rightarrow> map strip (split_on (CHR '','') s))
         in r\<lparr>rq_headers := AList.update header (HTexts (old @ new)) (rq_headers r)\<rparr>)
      else r\<lparr>rq_headers := AList.update header v (rq_headers r)\<rparr>)"

definition set_header :: "nat \<Rightarrow> string \<Rightarrow> header_value \<Rightarrow> channel \<Rightarrow> channel run" where
  "set_header i name v = check_headers_open i (\<lambda>ch. (None, upd_req i (add_header name v) ch))"

definition clear_headers :: "nat \<Rightarrow> channel \<Rightarrow> channel run" where
  "clear_headers i = check_headers_open i (\<lambda>ch. (None, upd_req i (\<lambda>r. r\<lparr>rq_headers := []\<rparr>) ch))"

definition remove_header :: "nat \<Rightarrow> string \<Rightarrow> channel \<Rightarrow> channel run" where
  "remove_header i name = check_headers_open i (\<lambda>ch.
     if dict_has (rq_headers (the_req ch i)) (lower name)
     then (None, upd_req i (\<lambda>r. r\<lparr>rq_headers := AList.delete (lower name) (rq_headers r)\<rparr>) ch)
     else (Some KeyError, ch))"

definition set_length :: "nat \<Rightarrow> int \<Rightarrow> channel \<Rightarrow> channel run" where
  "set_length i n = check_headers_open i (\<lambda>ch.
     set_header i ''content-length'' (HText (show_int n)) (upd_req i (\<lambda>r. r\<lparr>rq_length := Some n\<rparr>) ch))"

definition set_response_code :: "http_server \<Rightarrow> nat \<Rightarrow> int \<Rightarrow> string option \<Rightarrow> channel \<Rightarrow> channel run" where
  "set_response_code S i code message = check_headers_open i (\<lambda>ch.
     (None, upd_req i (\<lambda>r. r\<lparr>rq_status := code,
        rq_message := (case message of Some (c # cs) \<Rightarrow> c # cs
          | _ \<Rightarrow> get_status_message (sv_responses S) code ''Unknown'')\<rparr>) ch))"

definition add_cookie :: "nat \<Rightarrow> string \<Rightarrow> string \<Rightarrow> channel \<Rightarrow> channel run" where
  "add_cookie i name payload = check_headers_open i (\<lambda>ch.
     (None, upd_req i (\<lambda>r. r\<lparr>rq_cookies := AList.update name payload (rq_cookies r)\<rparr>) ch))"

definition activate_transport :: "nat \<Rightarrow> channel \<Rightarrow> channel" where
  "activate_transport i ch =
     (if rq_transport_activated (the_req ch i) then ch
      else
        (let old = rq_transport (the_req ch i);
             ch = (case old of Buffered s \<Rightarrow> if s = [] then ch else put_out i s ch | _ \<Rightarrow> ch)
         in upd_req i (\<lambda>r. r\<lparr>rq_transport := Direct, rq_transport_activated := True\<rparr>) ch))"

text \<open>\<open>self.transport.write\<close>\<close>

definition transport_write :: "nat \<Rightarrow> string \<Rightarrow> channel \<Rightarrow> channel run" where
  "transport_write i s ch =
     (case rq_transport (the_req ch i) of
        NoTransport \<Rightarrow> (Some AttributeError, ch)
      | Buffered b \<Rightarrow> (None, upd_req i (\<lambda>r. r\<lparr>rq_transport := Buffered (b @ s)\<rparr>) ch)
      | Direct \<Rightarrow> (None, put_out i s ch))"

definition response_head :: "http_server \<Rightarrow> http_request \<Rightarrow> string" where
  "response_head S r =
     concat (map (\<lambda>line. line @ [CHR 0x0D, CHR 0x0A])
       (compose_cookies (rq_cookies r)
         (compose_headers (sv_repr S) (rq_headers r)
           (compose_response (sv_responses S) (rq_status r) (Some (rq_protocol r)) (Some (rq_message r)) []))))
     @ [CHR 0x0D, CHR 0x0A]"

text \<open>The last changes of the headers: the connection is kept only if the length is known.\<close>

definition persistence :: "http_request \<Rightarrow> http_request" where
  "persistence r =
     (let r = (if rq_length r = None then r\<lparr>rq_persistent := False\<rparr> else r) in
      if rq_protocol r = 1 then
        (if rq_persistent r then r else add_header ''connection'' (HText ''close'') r)
      else if rq_protocol r = 0 then
        (if rq_persistent r then add_header ''connection'' (HText ''Keep-Alive'') r else r)
      else r\<lparr>rq_persistent := False\<rparr>)"

definition write_headers :: "http_server \<Rightarrow> nat \<Rightarrow> channel \<Rightarrow> channel run" where
  "write_headers S i ch =
     (if rq_writing (the_req ch i) then (None, ch)
      else
        (let ch = upd_req i persistence ch;
             ch = upd_req i (\<lambda>r. r\<lparr>rq_writing := True\<rparr>) ch;
             ch = activate_transport i ch
         in transport_write i (response_head S (the_req ch i)) ch))"

definition schedule_cleanup :: "nat \<Rightarrow> channel \<Rightarrow> channel" where
  "schedule_cleanup i ch = ch\<lparr>ch_scheduled := ch_scheduled ch @ [i]\<rparr>"

definition has_body :: "http_request \<Rightarrow> bool" where
  "has_body r \<longleftrightarrow> (case rq_body_length r of None \<Rightarrow> False | Some n \<Rightarrow> n \<noteq> 0)"

definition finish :: "http_server \<Rightarrow> nat \<Rightarrow> channel \<Rightarrow> channel run" where
  "finish S i ch =
     (if rq_finished (the_req ch i) then (Some AssertionError, ch)
      else
        (let ch = upd_req i (\<lambda>r. r\<lparr>rq_finished := True,
               rq_persistent := (if has_body r \<and> \<not> rq_received r then False else rq_persistent r)\<rparr>) ch
         in and_then (write_headers S i ch) (\<lambda>ch.
              (None, if rq_activated (the_req ch i) then schedule_cleanup i ch else ch))))"

definition make_error :: "http_server \<Rightarrow> nat \<Rightarrow> int \<Rightarrow> string option \<Rightarrow> channel \<Rightarrow> channel run" where
  "make_error S i code message ch =
     (let ch = upd_req i (\<lambda>r. r\<lparr>rq_persistent := False\<rparr>) ch in
      if rq_finished (the_req ch i) then (None, ch)
      else and_then
        (if rq_writing (the_req ch i) then (None, ch)
         else and_then (set_response_code S i code message ch) (clear_headers i))
        (finish S i))"

definition write_body :: "http_server \<Rightarrow> nat \<Rightarrow> string \<Rightarrow> channel \<Rightarrow> channel run" where
  "write_body S i data ch =
     (if data = [] then (None, ch)
      else and_then (write_headers S i ch) (\<lambda>ch.
        let r = the_req ch i; total = int (length data) + rq_bytes_sent r in
        if (case rq_length r of None \<Rightarrow> False | Some n \<Rightarrow> n < total) then (Some HTTPError, ch)
        else transport_write i data
               (upd_req i (\<lambda>r. r\<lparr>rq_bytes_sent := rq_bytes_sent r + int (length data)\<rparr>) ch)))"

definition http_error :: "http_server \<Rightarrow> nat \<Rightarrow> int \<Rightarrow> string option \<Rightarrow> channel \<Rightarrow> channel run" where
  "http_error S i code message = check_headers_open i (\<lambda>ch.
     and_then (make_error S i code message ch) (\<lambda>ch. (Some HTTPError, ch)))"

definition run_cmd :: "http_server \<Rightarrow> nat \<Rightarrow> req_cmd \<Rightarrow> channel \<Rightarrow> channel run" where
  "run_cmd S i c =
     (case c of
        CmdWrite data \<Rightarrow> write_body S i data
      | CmdFinish \<Rightarrow> finish S i
      | CmdSetHeader n v \<Rightarrow> set_header i n v
      | CmdClearHeaders \<Rightarrow> clear_headers i
      | CmdRemoveHeader n \<Rightarrow> remove_header i n
      | CmdSetLength n \<Rightarrow> set_length i n
      | CmdSetCode code m \<Rightarrow> set_response_code S i code m
      | CmdAddCookie n p \<Rightarrow> add_cookie i n p
      | CmdHttpError code m \<Rightarrow> http_error S i code m)"

text \<open>A method of the subclass runs its calls and may raise.\<close>

definition handler :: "http_server \<Rightarrow> nat \<Rightarrow> req_event \<Rightarrow> channel \<Rightarrow> channel run" where
  "handler S i ev ch =
     (case sv_app S i ev (the_req ch i) of (cmds, e) \<Rightarrow> and_then (run_each (run_cmd S i) cmds ch) (\<lambda>ch. (e, ch)))"

text \<open>What the code does with an exception of a handler.  For an \<open>HTTPError\<close> it reads \<open>e.status_message\<close>,
  which that class does not have.\<close>

definition guarded :: "http_server \<Rightarrow> nat \<Rightarrow> req_event \<Rightarrow> channel \<Rightarrow> channel run" where
  "guarded S i ev ch =
     (case handler S i ev ch of
        (None, ch) \<Rightarrow> (None, ch)
      | (Some HTTPError, ch) \<Rightarrow> (Some AttributeError, ch)
      | (Some e, ch) \<Rightarrow> and_then (make_error S i 500 None ch) (\<lambda>ch. (Some e, ch)))"

definition activate :: "http_server \<Rightarrow> nat \<Rightarrow> channel \<Rightarrow> channel run" where
  "activate S i ch =
     (if rq_activated (the_req ch i) then (Some AssertionError, ch)
      else
        (let ch = activate_transport i (upd_req i (\<lambda>r. r\<lparr>rq_activated := True\<rparr>) ch) in
         if rq_finished (the_req ch i) then (None, schedule_cleanup i ch)
         else guarded S i OnActivate ch))"

definition initiate :: "http_server \<Rightarrow> nat \<Rightarrow> channel \<Rightarrow> channel run" where
  "initiate S i ch =
     (if rq_initiated (the_req ch i) then (Some AssertionError, ch)
      else and_then (guarded S i OnInitiate (upd_req i (\<lambda>r. r\<lparr>rq_initiated := True\<rparr>) ch)) (\<lambda>ch.
        if rq_transport (the_req ch i) = NoTransport then activate S i ch else (None, ch)))"

definition data_received :: "http_server \<Rightarrow> nat \<Rightarrow> string \<Rightarrow> channel \<Rightarrow> channel run" where
  "data_received S i data ch =
     (let ch = upd_req i (\<lambda>r. r\<lparr>rq_received_bytes := rq_received_bytes r + length data\<rparr>) ch in
      if rq_finished (the_req ch i) then (None, ch) else guarded S i (OnData data) ch)"

definition all_content_received :: "http_server \<Rightarrow> nat \<Rightarrow> channel \<Rightarrow> channel run" where
  "all_content_received S i ch =
     (if rq_received (the_req ch i) then (Some AssertionError, ch)
      else if rq_finished (the_req ch i) then (None, ch)
      else guarded S i OnAllContent (upd_req i (\<lambda>r. r\<lparr>rq_received := True\<rparr>) ch))"

definition request_connection_lost :: "http_server \<Rightarrow> nat \<Rightarrow> channel \<Rightarrow> channel run" where
  "request_connection_lost S i ch =
     (case handler S i OnConnectionLost ch of (Some HTTPError, ch) \<Rightarrow> (None, ch) | m \<Rightarrow> m)"

section \<open>Building a request\<close>

text \<open>\<open>map(str.lower, value)\<close>: a text is a sequence of characters.\<close>

definition tokens :: "header_value \<Rightarrow> string list" where
  "tokens v = (case v of HTexts ts \<Rightarrow> map lower ts | HText s \<Rightarrow> map (\<lambda>c. lower [c]) s)"

definition note_cookie :: "string \<Rightarrow> http_request \<Rightarrow> http_request" where
  "note_cookie cook r =
     (case split_once (CHR ''='') (lstrip cook) of
        (_, None) \<Rightarrow> r
      | (k, Some v) \<Rightarrow> r\<lparr>rq_received_cookies := AList.update k v (rq_received_cookies r)\<rparr>)"

definition parse_header :: "string \<times> header_value \<Rightarrow> http_request \<Rightarrow> exn + http_request" where
  "parse_header h r =
     (case h of (name, v) \<Rightarrow>
        let key = lower name; r = r\<lparr>rq_received_headers := AList.update key v (rq_received_headers r)\<rparr> in
        if key = ''content-length'' then
          (case v of
             HTexts _ \<Rightarrow> Inl TypeError
           | HText s \<Rightarrow> (case int_of_string s of None \<Rightarrow> Inl ValueError | Some n \<Rightarrow> Inr (r\<lparr>rq_received_length := Some n\<rparr>)))
        else if key = ''connection'' then
          Inr (r\<lparr>rq_persistent := (if rq_protocol r = 1 then ''close'' \<notin> set (tokens v)
                                  else ''keep-alive'' \<in> set (tokens v))\<rparr>)
        else if key = ''cookie'' then
          (case v of HTexts _ \<Rightarrow> Inl AttributeError | HText s \<Rightarrow> Inr (fold note_cookie (split_on (CHR '';'') s) r))
        else Inr r)"

fun parse_headers :: "(string \<times> header_value) list \<Rightarrow> http_request \<Rightarrow> exn + http_request" where
  "parse_headers [] r = Inr r"
| "parse_headers (h # hs) r = bindE (parse_header h r) (parse_headers hs)"

definition new_request :: "http_server \<Rightarrow> request_info \<Rightarrow> bool \<Rightarrow> exn + http_request" where
  "new_request S info active =
     bindE (parse_headers (ri_headers info)
       \<lparr>rq_protocol = ri_protocol info, rq_method = ri_method info, rq_uri = ri_uri info,
        rq_body_length = ri_length info, rq_received_headers = [], rq_received_cookies = [], rq_received_length = None,
        rq_received_bytes = 0, rq_headers = [], rq_cookies = [], rq_length = None, rq_bytes_sent = 0,
        rq_initiated = False, rq_activated = False, rq_writing = False, rq_finished = False, rq_persistent = True,
        rq_received = False, rq_status = 200, rq_message = get_status_message (sv_responses S) 200 ''Unknown'',
        rq_transport = NoTransport, rq_transport_activated = False, rq_detached = False\<rparr>)
       (\<lambda>r. Inr (if active then r else r\<lparr>rq_transport := Buffered []\<rparr>))"

section \<open>The channel\<close>

definition ch_http_error :: "http_server \<Rightarrow> int \<Rightarrow> string option \<Rightarrow> channel \<Rightarrow> channel" where
  "ch_http_error S code message ch =
     (let msg = (case message of Some (c # cs) \<Rightarrow> c # cs | _ \<Rightarrow> get_status_message (sv_responses S) code ''Unknown'');
          protocol = (case ch_protocol ch of None \<Rightarrow> 0 | Some p \<Rightarrow> p);
          resp = enum_name Protocols protocol @ '' '' @ show_int code @ '' '' @ msg @ [CHR 0x0D, CHR 0x0A, CHR 0x0D, CHR 0x0A];
          ch = (case ch_requests ch of
                  Some (i # _) \<Rightarrow> if rq_writing (the_req ch i) then ch
                                  else ch\<lparr>ch_written := ch_written ch @ [(None, True, resp)]\<rparr>
                | _ \<Rightarrow> ch)
      in lose_connection ch)"

text \<open>A line that does not have three parts makes the code call \<open>self.http_bad_request\<close>, which does not exist; an
  unknown method or protocol leaves \<open>protocol\<close> unbound.\<close>

definition process_request_line :: "http_server \<Rightarrow> string \<Rightarrow> channel \<Rightarrow> channel run" where
  "process_request_line S line ch =
     (if ch_reqinfo ch \<noteq> None then (Some AssertionError, ch)
      else case split_words line of
             [method_name, uri, protocol_name] \<Rightarrow>
               (case (enum_get Methods (KeyStr method_name), enum_get Protocols (KeyStr protocol_name)) of
                  (Inr m, Inr protocol) \<Rightarrow>
                    if sv_force S \<noteq> None \<and> sv_force S \<noteq> Some protocol then (None, ch_http_error S 505 None ch)
                    else (None, ch\<lparr>ch_protocol := Some protocol,
                           ch_reqinfo := Some \<lparr>ri_protocol = protocol, ri_method = m, ri_uri = uri, ri_length = None,
                             ri_headers = []\<rparr>\<rparr>)
                | _ \<Rightarrow> (Some UnboundLocalError, ch_http_error S 400 None ch))
           | _ \<Rightarrow> (Some AttributeError, ch))"

text \<open>The handlers of headers need the information of a request.\<close>

definition with_info :: "(request_info \<Rightarrow> exn + request_info) \<Rightarrow> channel \<Rightarrow> channel run" where
  "with_info f ch =
     (case ch_reqinfo ch of
        None \<Rightarrow> (Some AssertionError, ch)
      | Some info \<Rightarrow> (case f info of Inl e \<Rightarrow> (Some e, ch) | Inr info \<Rightarrow> (None, ch\<lparr>ch_reqinfo := Some info\<rparr>)))"

definition process_length :: "int \<Rightarrow> channel \<Rightarrow> channel run" where
  "process_length n = with_info (\<lambda>info. Inr (info\<lparr>ri_length := Some n\<rparr>))"

definition process_extend_header :: "string \<Rightarrow> string list \<Rightarrow> channel \<Rightarrow> channel run" where
  "process_extend_header name values = with_info (\<lambda>info.
     case map_of (ri_headers info) name of
       Some (HText _) \<Rightarrow> Inl AttributeError
     | Some (HTexts ts) \<Rightarrow> Inr (info\<lparr>ri_headers := AList.update name (HTexts (ts @ values)) (ri_headers info)\<rparr>)
     | None \<Rightarrow> Inr (info\<lparr>ri_headers := AList.update name (HTexts values) (ri_headers info)\<rparr>))"

definition process_set_header :: "string \<Rightarrow> string \<Rightarrow> channel \<Rightarrow> channel run" where
  "process_set_header name v = with_info (\<lambda>info. Inr (info\<lparr>ri_headers := AList.update name (HText v) (ri_headers info)\<rparr>))"

text \<open>After \<open>process_cleanup\<close> there is no list of requests, and using it raises.\<close>

definition process_body_start :: "http_server \<Rightarrow> channel \<Rightarrow> channel run" where
  "process_body_start S ch =
     (case (ch_reqinfo ch, ch_requests ch) of
        (None, _) \<Rightarrow> (Some AssertionError, ch)
      | (Some _, None) \<Rightarrow> (Some TypeError, ch)
      | (Some info, Some rs) \<Rightarrow>
          (case new_request S info (rs = []) of
             Inl e \<Rightarrow> (Some e, ch)
           | Inr r \<Rightarrow>
               let i = length (ch_table ch) in
               initiate S i (ch\<lparr>ch_table := ch_table ch @ [r], ch_requests := Some (rs @ [i])\<rparr>)))"

text \<open>The request whose content is being received is the last one.\<close>

definition with_last :: "(nat \<Rightarrow> channel \<Rightarrow> channel run) \<Rightarrow> channel \<Rightarrow> channel run" where
  "with_last f ch =
     (case ch_requests ch of
        Some (i # is) \<Rightarrow> f (last (i # is)) ch
      | _ \<Rightarrow> (Some AssertionError, ch))"

definition process_cleanup :: "http_server \<Rightarrow> channel \<Rightarrow> channel run" where
  "process_cleanup S ch =
     (case ch_requests ch of
        None \<Rightarrow> (Some TypeError, ch)
      | Some rs \<Rightarrow> and_then (run_each (request_connection_lost S) rs ch) (\<lambda>ch. (None, ch\<lparr>ch_requests := None\<rparr>)))"

definition process_reset :: "channel \<Rightarrow> channel run" where
  "process_reset ch = (None, ch\<lparr>ch_protocol := None, ch_reqinfo := None\<rparr>)"

text \<open>The virtual methods; \<open>process_setup\<close> and \<open>process_error\<close> are inherited and do nothing.\<close>

definition server_hooks :: "http_server \<Rightarrow> http_call \<Rightarrow> channel \<Rightarrow> channel run" where
  "server_hooks S c ch =
     (case c of
        RequestLine line \<Rightarrow> process_request_line S line ch
      | BodyLength n \<Rightarrow> process_length n ch
      | ExtendHeader n vs \<Rightarrow> process_extend_header n vs ch
      | SetHeader n v \<Rightarrow> process_set_header n v ch
      | BodyStart \<Rightarrow> process_body_start S ch
      | BodyData data \<Rightarrow> with_last (\<lambda>i. data_received S i data) ch
      | BodyFinished \<Rightarrow> with_last (all_content_received S) ch
      | ResetCall \<Rightarrow> process_reset ch
      | Cleanup \<Rightarrow> process_cleanup S ch
      | TimedOut \<Rightarrow> (None, ch_http_error S 408 None ch)
      | Setup \<Rightarrow> (None, ch)
      | ProcessError _ \<Rightarrow> (None, ch)
      | MadeConnection \<Rightarrow> (None, ch)
      | LostConnection \<Rightarrow> (None, ch))"

definition server_is_idle :: "(channel, 'd) http_connection \<Rightarrow> bool" where
  "server_is_idle s \<longleftrightarrow> http_is_idle s \<and> (ch_requests (hs_sub s) = None \<or> ch_requests (hs_sub s) = Some [])"

definition request_done :: "http_server \<Rightarrow> nat \<Rightarrow> channel \<Rightarrow> channel run" where
  "request_done S i ch =
     (case ch_requests ch of
        None \<Rightarrow> (None, ch)
      | Some [] \<Rightarrow> (Some IndexError, ch)
      | Some (j # rs) \<Rightarrow>
          if i \<noteq> j then (Some AssertionError, ch)
          else
            (let ch = ch\<lparr>ch_requests := Some rs\<rparr> in
             if rq_persistent (the_req ch i) then (case rs of [] \<Rightarrow> (None, ch) | k # _ \<Rightarrow> activate S k ch)
             else (None, lose_connection ch)))"

text \<open>The scheduled call of \<open>_cleanup\<close>\<close>

definition run_cleanup :: "http_server \<Rightarrow> channel \<Rightarrow> channel run" where
  "run_cleanup S ch =
     (case ch_scheduled ch of
        [] \<Rightarrow> (None, ch)
      | i # is \<Rightarrow>
          and_then (request_done S i (ch\<lparr>ch_scheduled := is\<rparr>)) (\<lambda>ch.
            (None, upd_req i (\<lambda>r. r\<lparr>rq_detached := True\<rparr>) ch)))"

definition close_channel :: "http_server \<Rightarrow> channel \<Rightarrow> channel run" where
  "close_channel S ch =
     (case ch_requests ch of
        None \<Rightarrow> (Some TypeError, ch)
      | Some rs \<Rightarrow> and_then (run_each (finish S) rs ch) (\<lambda>ch. (None, lose_connection ch)))"

section \<open>Histories\<close>

text \<open>What happens to a channel: a call of one of its methods by the protocol, a call the application makes
  on a request later, a scheduled cleanup, \<open>close\<close>.\<close>

datatype server_event = Hook http_call | AppCall nat req_cmd | CleanupRuns | CloseCalled

definition server_step :: "http_server \<Rightarrow> server_event \<Rightarrow> channel \<Rightarrow> channel run" where
  "server_step S ev ch =
     (case ev of
        Hook c \<Rightarrow> server_hooks S c ch
      | AppCall i c \<Rightarrow> if i < length (ch_table ch) then run_cmd S i c ch else (None, ch)
      | CleanupRuns \<Rightarrow> run_cleanup S ch
      | CloseCalled \<Rightarrow> close_channel S ch)"

definition server_run :: "http_server \<Rightarrow> server_event list \<Rightarrow> channel \<Rightarrow> channel" where
  "server_run S evs ch = fold (\<lambda>ev ch. snd (server_step S ev ch)) evs ch"

text \<open>The class of the server end, given periods and decoders.\<close>

definition server_class :: "http_server \<Rightarrow> (channel, 'd) http_class \<Rightarrow> (channel, 'd) http_class" where
  "server_class S K = K\<lparr>hooks := server_hooks S\<rparr>"

end
