(* ===== verification/ServerProps.thy ===== *)
theory ServerProps
  imports HttpServer
begin

text \<open>
  What the pipeline of an HTTP server guarantees: requests are active one after the other in the order of
  their arrival, and so are their writes; and where it fails: a request may write before it is active, an
  answer given too early strands the connection, and errors are not answered.
\<close>

section \<open>What a request may do to its channel\<close>

definition current_writers :: "written list \<Rightarrow> nat list" where
  "current_writers ws = List.map_filter (\<lambda>(w, b, _). if b then w else None) ws"

lemma current_writers_append: "current_writers (xs @ ys) = current_writers xs @ current_writers ys"
  by (simp add: current_writers_def map_filter_def)

lemma current_writers_simps [simp]:
  "current_writers [] = []"
  "current_writers ((w, b, s) # ws) = (case w of Some i \<Rightarrow> if b then i # current_writers ws else current_writers ws
     | None \<Rightarrow> current_writers ws)"
  by (simp_all add: current_writers_def List.map_filter_simps split: option.split)

text \<open>The calls made on request \<open>i\<close>: it stays where it is in the pipeline, writes for itself, and its cleanup is
  scheduled when it finishes while active.\<close>

definition keeps_pipeline :: "channel \<Rightarrow> channel \<Rightarrow> bool" where
  "keeps_pipeline ch ch' \<longleftrightarrow>
     ch_requests ch' = ch_requests ch \<and> length (ch_table ch') = length (ch_table ch) \<and>
     (\<forall>j. rq_activated (the_req ch' j) = rq_activated (the_req ch j)) \<and>
     (\<forall>j. rq_finished (the_req ch j) \<longrightarrow> rq_finished (the_req ch' j)) \<and>
     (\<forall>j. rq_transport (the_req ch' j) = NoTransport \<longrightarrow> rq_transport (the_req ch j) = NoTransport)"

definition schedules :: "nat \<Rightarrow> channel \<Rightarrow> channel \<Rightarrow> bool" where
  "schedules i ch ch' \<longleftrightarrow>
     ch_scheduled ch' = ch_scheduled ch \<or>
     ch_scheduled ch' = ch_scheduled ch @ [i] \<and> \<not> rq_finished (the_req ch i) \<and> rq_finished (the_req ch' i) \<and>
     rq_activated (the_req ch i)"

definition writes_for :: "nat \<Rightarrow> channel \<Rightarrow> channel \<Rightarrow> bool" where
  "writes_for i ch ch' \<longleftrightarrow>
     (\<exists>ws. ch_written ch' = ch_written ch @ ws \<and> (\<forall>w \<in> set ws. fst w = Some i \<and> fst (snd w) = is_current i ch))"

definition works :: "nat \<Rightarrow> channel \<Rightarrow> channel \<Rightarrow> bool" where
  "works i ch ch' \<longleftrightarrow>
     (i < length (ch_table ch) \<longrightarrow> keeps_pipeline ch ch' \<and> schedules i ch ch' \<and> writes_for i ch ch')"

lemma keeps_current: "keeps_pipeline ch ch' \<Longrightarrow> is_current j ch' = is_current j ch"
  by (simp add: keeps_pipeline_def is_current_def)

lemma works_refl [simp]: "works i ch ch"
  by (simp add: works_def keeps_pipeline_def schedules_def writes_for_def)

lemma works_trans:
  assumes "works i ch ch'" and "works i ch' ch''"
  shows "works i ch ch''"
  unfolding works_def
proof (rule impI)
  assume i: "i < length (ch_table ch)"
  with assms(1) have 1: "keeps_pipeline ch ch'" "schedules i ch ch'" "writes_for i ch ch'" by (simp_all add: works_def)
  then have "i < length (ch_table ch')" using i by (simp add: keeps_pipeline_def)
  with assms(2) have 2: "keeps_pipeline ch' ch''" "schedules i ch' ch''" "writes_for i ch' ch''" by (simp_all add: works_def)
  have "keeps_pipeline ch ch''" using 1(1) 2(1) by (simp add: keeps_pipeline_def)
  moreover have "schedules i ch ch''"
    using 1(1,2) 2(1,2) unfolding schedules_def keeps_pipeline_def by metis
  moreover have "writes_for i ch ch''"
  proof -
    obtain ws where ws: "ch_written ch' = ch_written ch @ ws" "\<forall>w \<in> set ws. fst w = Some i \<and> fst (snd w) = is_current i ch"
      using 1(3) by (auto simp: writes_for_def)
    obtain vs where "ch_written ch'' = ch_written ch' @ vs" "\<forall>w \<in> set vs. fst w = Some i \<and> fst (snd w) = is_current i ch'"
      using 2(3) by (auto simp: writes_for_def)
    with ws keeps_current [OF 1(1)] show ?thesis
      unfolding writes_for_def by (intro exI [of _ "ws @ vs"]) auto
  qed
  ultimately show "keeps_pipeline ch ch'' \<and> schedules i ch ch'' \<and> writes_for i ch ch''" by blast
qed

text \<open>A change of a request that neither activates nor finishes it, nor takes its transport away\<close>

definition harmless :: "(http_request \<Rightarrow> http_request) \<Rightarrow> bool" where
  "harmless f \<longleftrightarrow> (\<forall>r. rq_activated (f r) = rq_activated r \<and> (rq_finished r \<longrightarrow> rq_finished (f r)) \<and>
     (rq_transport (f r) = NoTransport \<longrightarrow> rq_transport r = NoTransport))"

lemma upd_fields [simp]:
  "ch_requests (upd_req i f ch) = ch_requests ch" "ch_scheduled (upd_req i f ch) = ch_scheduled ch"
  "ch_written (upd_req i f ch) = ch_written ch" "length (ch_table (upd_req i f ch)) = length (ch_table ch)"
  by (simp_all add: upd_req_def)

lemma the_upd: "the_req (upd_req i f ch) j = (if j = i \<and> i < length (ch_table ch) then f (the_req ch i) else the_req ch j)"
  by (cases "i < length (ch_table ch)") (auto simp: upd_req_def nth_list_update not_less list_update_beyond)

lemma works_upd: "harmless f \<Longrightarrow> works i ch (upd_req i f ch)"
  by (simp add: works_def keeps_pipeline_def schedules_def writes_for_def harmless_def the_upd)

lemma works_put: "works i ch (put_out i s ch)"
  by (simp add: works_def keeps_pipeline_def schedules_def writes_for_def put_out_def)

lemma add_header_fields [simp]:
  "rq_activated (add_header n v r) = rq_activated r" "rq_finished (add_header n v r) = rq_finished r"
  "rq_transport (add_header n v r) = rq_transport r"
  by (simp_all add: add_header_def Let_def)

lemma harmless_add_header: "harmless (add_header n v)"
  by (simp add: harmless_def)

lemma persistence_fields:
  "rq_activated (persistence r) = rq_activated r" "rq_finished (persistence r) = rq_finished r"
  "rq_transport (persistence r) = rq_transport r"
  by (simp_all add: persistence_def Let_def)

lemma persistence_transport: "rq_transport_activated (persistence r) = rq_transport_activated r"
  by (simp add: persistence_def add_header_def Let_def)

lemma harmless_persistence: "harmless persistence"
  by (simp add: harmless_def persistence_fields)

lemma works_checked:
  assumes "works i ch (snd (f ch))"
  shows "works i ch (snd (check_headers_open i f ch))"
  using assms by (simp add: check_headers_open_def)

lemma works_then:
  assumes "works i ch (snd m)" and "\<And>s. works i ch s \<Longrightarrow> works i s (snd (f s))"
  shows "works i ch (snd (and_then m f))"
proof (cases "fst m")
  case None
  then have "and_then m f = f (snd m)" by (cases m) simp
  then show ?thesis using assms by (metis works_trans)
next
  case (Some e)
  then have "and_then m f = m" by (cases m) simp
  then show ?thesis using assms by simp
qed

lemma works_set_header: "works i ch (snd (set_header i n v ch))"
  unfolding set_header_def by (rule works_checked) (simp add: works_upd harmless_add_header)

lemma works_transport: "works i ch (activate_transport i ch)"
proof -
  have "works i ch (case rq_transport (the_req ch i) of Buffered s \<Rightarrow> if s = [] then ch else put_out i s ch | _ \<Rightarrow> ch)"
    by (simp add: works_put split: req_transport.split)
  moreover have "harmless (\<lambda>r. r\<lparr>rq_transport := Direct, rq_transport_activated := True\<rparr>)" by (simp add: harmless_def)
  ultimately show ?thesis
    unfolding activate_transport_def Let_def by (auto intro: works_trans works_upd)
qed

lemma works_transport_write: "works i ch (snd (transport_write i s ch))"
proof -
  have "harmless (\<lambda>r. r\<lparr>rq_transport := Buffered b\<rparr>)" for b by (simp add: harmless_def)
  then show ?thesis by (auto simp: transport_write_def works_put intro: works_upd split: req_transport.split)
qed

lemma works_write_headers: "works i ch (snd (write_headers S i ch))"
proof -
  have h: "harmless (\<lambda>r. r\<lparr>rq_writing := True\<rparr>)" by (simp add: harmless_def)
  let ?a = "upd_req i persistence ch"
  let ?b = "upd_req i (\<lambda>r. r\<lparr>rq_writing := True\<rparr>) ?a"
  have "works i ch (activate_transport i ?b)"
    by (rule works_trans [OF works_upd [OF harmless_persistence] works_trans [OF works_upd [OF h] works_transport]])
  then show ?thesis
    unfolding write_headers_def Let_def by (auto intro: works_trans works_transport_write)
qed

lemma works_finish: "works i ch (snd (finish S i ch))"
proof (cases "rq_finished (the_req ch i) \<or> \<not> i < length (ch_table ch)")
  case True
  then show ?thesis by (auto simp: finish_def works_def keeps_pipeline_def schedules_def writes_for_def)
next
  case False
  let ?f = "\<lambda>r. r\<lparr>rq_finished := True, rq_persistent := (if has_body r \<and> \<not> rq_received r then False else rq_persistent r)\<rparr>"
  let ?a = "upd_req i ?f ch"
  let ?m = "write_headers S i ?a"
  have "harmless ?f" by (simp add: harmless_def)
  then have w: "works i ch (snd ?m)" by (rule works_trans [OF works_upd works_write_headers])
  have "works i ?a (snd ?m)" by (rule works_write_headers)
  moreover have i: "i < length (ch_table ?a)" "rq_finished (the_req ?a i)" using False by (simp_all add: the_upd)
  ultimately have s: "ch_scheduled (snd ?m) = ch_scheduled ch" "rq_finished (the_req (snd ?m) i)"
    by (auto simp: works_def schedules_def keeps_pipeline_def)
  have act: "rq_activated (the_req (snd ?m) i) = rq_activated (the_req ch i)"
    using w False by (simp add: works_def keeps_pipeline_def)
  have "works i ch (schedule_cleanup i (snd ?m))" if "rq_activated (the_req ch i)"
    using w s that False unfolding works_def
    by (simp add: schedule_cleanup_def keeps_pipeline_def schedules_def writes_for_def)
  then have "works i ch (snd (and_then ?m (\<lambda>ch. (None, if rq_activated (the_req ch i) then schedule_cleanup i ch else ch))))"
    using w act by (cases ?m; cases "fst ?m") auto
  then show ?thesis using False by (simp add: finish_def Let_def)
qed

lemmas works_simple = works_upd works_checked works_set_header

lemma works_set_code: "works i ch (snd (set_response_code S i code m ch))"
  unfolding set_response_code_def by (rule works_checked) (simp add: works_upd harmless_def)

lemma works_clear: "works i ch (snd (clear_headers i ch))"
  unfolding clear_headers_def by (rule works_checked) (simp add: works_upd harmless_def)

lemma works_make_error: "works i ch (snd (make_error S i code m ch))"
proof -
  have h: "harmless (\<lambda>r. r\<lparr>rq_persistent := False\<rparr>)" by (simp add: harmless_def)
  show ?thesis
    unfolding make_error_def Let_def
    by (rule works_trans [OF works_upd [OF h]])
      (auto intro!: works_then works_set_code works_clear works_finish)
qed

lemma works_write: "works i ch (snd (write_body S i data ch))"
proof -
  have h: "harmless (\<lambda>r. r\<lparr>rq_bytes_sent := rq_bytes_sent r + n\<rparr>)" for n by (simp add: harmless_def)
  show ?thesis
    unfolding write_body_def Let_def
    by (auto intro!: works_then works_write_headers intro: works_trans [OF works_upd [OF h] works_transport_write])
qed

lemma works_cmd: "works i ch (snd (run_cmd S i c ch))"
proof (cases c)
  case (CmdRemoveHeader n)
  then show ?thesis
    by (auto simp: run_cmd_def remove_header_def harmless_def intro!: works_checked works_upd)
next
  case (CmdSetLength n)
  have h: "harmless (\<lambda>r. r\<lparr>rq_length := Some n\<rparr>)" by (simp add: harmless_def)
  show ?thesis
    using works_trans [OF works_upd [OF h] works_set_header]
    by (auto simp: CmdSetLength run_cmd_def set_length_def intro!: works_checked)
next
  case (CmdAddCookie n p)
  then show ?thesis by (auto simp: run_cmd_def add_cookie_def harmless_def intro!: works_checked works_upd)
next
  case (CmdHttpError code m)
  then show ?thesis by (auto simp: run_cmd_def http_error_def intro!: works_checked works_then works_make_error)
qed (simp_all add: run_cmd_def works_write works_finish works_set_header works_clear works_set_code)

lemma works_handler: "works i ch (snd (handler S i ev ch))"
proof -
  have "works i ch (snd (run_each (run_cmd S i) cmds ch))" for cmds
    by (rule each_keeps [of "works i ch"]) (auto intro: works_trans works_cmd)
  then show ?thesis
    unfolding handler_def by (cases "sv_app S i ev (the_req ch i)") (auto intro!: works_then)
qed

lemma works_guarded: "works i ch (snd (guarded S i ev ch))"
proof (cases "handler S i ev ch")
  case (Pair e ch')
  then have w: "works i ch ch'" using works_handler [of i ch S ev] by simp
  have "works i ch (snd (and_then (make_error S i 500 None ch') (\<lambda>ch. (e', ch))))" for e'
    by (rule works_trans [OF w]) (intro works_then works_make_error, simp)
  then show ?thesis using w Pair by (auto simp: guarded_def split: option.split exn.split)
qed

section \<open>The invariant of the pipeline\<close>

definition pipeline_ok :: "channel \<Rightarrow> bool" where
  "pipeline_ok ch \<longleftrightarrow>
     (case ch_requests ch of
        None \<Rightarrow> True
      | Some rs \<Rightarrow>
          sorted_wrt (<) rs \<and> (\<forall>i \<in> set rs. i < length (ch_table ch)) \<and>
          (\<forall>i \<in> set rs. rq_activated (the_req ch i) \<or> rq_transport (the_req ch i) = NoTransport \<longrightarrow> i = hd rs) \<and>
          (\<forall>i < length (ch_table ch). rq_activated (the_req ch i) \<and> i \<notin> set rs \<longrightarrow> rq_finished (the_req ch i)) \<and>
          (\<forall>i \<in> set (ch_scheduled ch). i \<in> set rs) \<and>
          (\<forall>w \<in> set (current_writers (ch_written ch)). \<forall>i \<in> set rs. w \<le> i))"

definition channel_ok :: "channel \<Rightarrow> bool" where
  "channel_ok ch \<longleftrightarrow>
     pipeline_ok ch \<and> sorted (current_writers (ch_written ch)) \<and> distinct (ch_scheduled ch) \<and>
     (\<forall>w \<in> set (current_writers (ch_written ch)). w < length (ch_table ch)) \<and>
     (\<forall>i \<in> set (ch_scheduled ch). i < length (ch_table ch) \<and> rq_activated (the_req ch i) \<and> rq_finished (the_req ch i))"

lemma hd_smallest: "sorted_wrt (<) rs \<Longrightarrow> i \<in> set rs \<Longrightarrow> hd rs \<le> (i :: nat)"
  by (cases rs) auto

lemma current_writers_of:
  "\<forall>w \<in> set ws. fst w = Some i \<and> fst (snd w) = b \<Longrightarrow> set (current_writers ws) \<subseteq> (if b then {i} else {}) \<and> sorted (current_writers ws)"
  by (induction ws) (auto split: prod.splits)

lemma channel_ok_works:
  assumes "channel_ok ch" and "works i ch ch'" and "i < length (ch_table ch)"
  shows "channel_ok ch'"
proof -
  have k: "keeps_pipeline ch ch'" "schedules i ch ch'" "writes_for i ch ch'" using assms(2,3) by (simp_all add: works_def)
  obtain ws where ws: "ch_written ch' = ch_written ch @ ws" "\<forall>w \<in> set ws. fst w = Some i \<and> fst (snd w) = is_current i ch"
    using k(3) by (auto simp: writes_for_def)
  note cw = current_writers_of [OF ws(2)]
  have req: "ch_requests ch' = ch_requests ch" "length (ch_table ch') = length (ch_table ch)"
    and act: "\<And>j. rq_activated (the_req ch' j) = rq_activated (the_req ch j)"
    and fin: "\<And>j. rq_finished (the_req ch j) \<Longrightarrow> rq_finished (the_req ch' j)"
    and tr: "\<And>j. rq_transport (the_req ch' j) = NoTransport \<Longrightarrow> rq_transport (the_req ch j) = NoTransport"
    using k(1) by (auto simp: keeps_pipeline_def)
  have old: "pipeline_ok ch" "sorted (current_writers (ch_written ch))" "distinct (ch_scheduled ch)"
    "\<forall>w \<in> set (current_writers (ch_written ch)). w < length (ch_table ch)"
    "\<forall>i \<in> set (ch_scheduled ch). i < length (ch_table ch) \<and> rq_activated (the_req ch i) \<and> rq_finished (the_req ch i)"
    using assms(1) by (simp_all add: channel_ok_def)
  have last: "w \<le> i" if "is_current i ch" "w \<in> set (current_writers (ch_written ch))" for w
    using that old(1) by (auto simp: is_current_def pipeline_ok_def split: option.splits)
  have s: "sorted (current_writers (ch_written ch'))"
    using cw old(2) last by (auto simp: ws(1) current_writers_append sorted_append split: if_splits)
  have p: "pipeline_ok ch'"
  proof (cases "ch_requests ch")
    case None
    then show ?thesis by (simp add: pipeline_ok_def req)
  next
    case (Some rs)
    have o: "sorted_wrt (<) rs" "\<forall>i \<in> set rs. i < length (ch_table ch)"
      "\<forall>i \<in> set rs. rq_activated (the_req ch i) \<or> rq_transport (the_req ch i) = NoTransport \<longrightarrow> i = hd rs"
      "\<forall>i < length (ch_table ch). rq_activated (the_req ch i) \<and> i \<notin> set rs \<longrightarrow> rq_finished (the_req ch i)"
      "\<forall>i \<in> set (ch_scheduled ch). i \<in> set rs"
      "\<forall>w \<in> set (current_writers (ch_written ch)). \<forall>i \<in> set rs. w \<le> i"
      using old(1) by (simp_all add: pipeline_ok_def Some)
    have sch: "\<forall>j \<in> set (ch_scheduled ch'). j \<in> set rs"
      using k(2) o(4,5) assms(3) by (auto simp: schedules_def)
    have "w \<le> j" if "w \<in> set (current_writers (ch_written ch'))" "j \<in> set rs" for w j
    proof (cases "w \<in> set (current_writers (ch_written ch))")
      case False
      then have "w = i \<and> is_current i ch" using that(1) cw by (auto simp: ws(1) current_writers_append split: if_splits)
      then have "w = hd rs" using o(3) by (auto simp: is_current_def Some)
      then show ?thesis using hd_smallest [OF o(1) that(2)] by simp
    qed (use o(6) that in blast)
    moreover have "\<forall>i \<in> set rs. rq_activated (the_req ch' i) \<or> rq_transport (the_req ch' i) = NoTransport \<longrightarrow> i = hd rs"
      using o(3) act tr by blast
    moreover have "\<forall>i < length (ch_table ch). rq_activated (the_req ch' i) \<and> i \<notin> set rs \<longrightarrow> rq_finished (the_req ch' i)"
      using o(4) act fin by blast
    ultimately show ?thesis using o(1,2) sch by (simp add: pipeline_ok_def req Some)
  qed
  have "distinct (ch_scheduled ch')" using k(2) old(3,5) by (auto simp: schedules_def)
  moreover have "\<forall>w \<in> set (current_writers (ch_written ch')). w < length (ch_table ch')"
    using old(4) cw assms(3) by (auto simp: ws(1) current_writers_append req split: if_splits)
  moreover have "\<forall>j \<in> set (ch_scheduled ch'). j < length (ch_table ch') \<and> rq_activated (the_req ch' j) \<and> rq_finished (the_req ch' j)"
    using k(2) old(5) assms(3) act fin by (auto simp: schedules_def req)
  ultimately show ?thesis using p s by (simp add: channel_ok_def)
qed

lemma channel_ok_cong:
  "channel_ok ch \<Longrightarrow> ch_table ch' = ch_table ch \<Longrightarrow> ch_requests ch' = ch_requests ch \<Longrightarrow>
   current_writers (ch_written ch') = current_writers (ch_written ch) \<Longrightarrow> ch_scheduled ch' = ch_scheduled ch \<Longrightarrow> channel_ok ch'"
  by (cases "ch_requests ch") (simp_all add: channel_ok_def pipeline_ok_def)

lemma channel_ok_some:
  "ch_requests ch = Some rs \<Longrightarrow> channel_ok ch \<longleftrightarrow>
     sorted_wrt (<) rs \<and> (\<forall>i \<in> set rs. i < length (ch_table ch)) \<and>
     (\<forall>i \<in> set rs. rq_activated (the_req ch i) \<or> rq_transport (the_req ch i) = NoTransport \<longrightarrow> i = hd rs) \<and>
     (\<forall>i < length (ch_table ch). rq_activated (the_req ch i) \<and> i \<notin> set rs \<longrightarrow> rq_finished (the_req ch i)) \<and>
     (\<forall>i \<in> set (ch_scheduled ch). i \<in> set rs) \<and>
     (\<forall>w \<in> set (current_writers (ch_written ch)). \<forall>i \<in> set rs. w \<le> i) \<and>
     sorted (current_writers (ch_written ch)) \<and> distinct (ch_scheduled ch) \<and>
     (\<forall>w \<in> set (current_writers (ch_written ch)). w < length (ch_table ch)) \<and>
     (\<forall>i \<in> set (ch_scheduled ch). rq_activated (the_req ch i) \<and> rq_finished (the_req ch i))"
  by (auto simp: channel_ok_def pipeline_ok_def)

lemma pipeline_mem: "channel_ok ch \<Longrightarrow> ch_requests ch = Some rs \<Longrightarrow> i \<in> set rs \<Longrightarrow> i < length (ch_table ch)"
  by (simp add: channel_ok_def pipeline_ok_def)

lemma channel_ok_activate:
  assumes "channel_ok ch" and "ch_requests ch = Some (i # rs)"
  shows "channel_ok (snd (activate S i ch))"
proof (cases "rq_activated (the_req ch i)")
  case True
  then show ?thesis using assms(1) by (simp add: activate_def)
next
  case False
  have i: "i < length (ch_table ch)" using pipeline_mem [OF assms] by simp
  let ?a = "upd_req i (\<lambda>r. r\<lparr>rq_activated := True\<rparr>) ch"
  let ?b = "activate_transport i ?a"
  have ns: "i \<notin> set (ch_scheduled ch)" using assms(1) False by (auto simp: channel_ok_def)
  have ra: "ch_requests ?a = Some (i # rs)" using assms(2) by simp
  note o = assms(1) [unfolded channel_ok_some [OF assms(2)]]
  have a: "channel_ok ?a"
    unfolding channel_ok_some [OF ra]
  proof (intro conjI ballI allI impI)
    fix j
    assume "j \<in> set (i # rs)" "rq_activated (the_req ?a j) \<or> rq_transport (the_req ?a j) = NoTransport"
    then show "j = hd (i # rs)" using o by (cases "j = i") (auto simp: the_upd)
  next
    fix j
    assume "j < length (ch_table ?a)" "rq_activated (the_req ?a j) \<and> j \<notin> set (i # rs)"
    then show "rq_finished (the_req ?a j)" using o by (cases "j = i") (auto simp: the_upd)
  next
    fix j
    assume "j \<in> set (ch_scheduled ?a)"
    then have "j \<in> set (ch_scheduled ch)" "j \<noteq> i" using ns by auto
    then show "rq_activated (the_req ?a j)" "rq_finished (the_req ?a j)" using o by (auto simp: the_upd)
  qed (use o in \<open>simp_all only: upd_fields\<close>)
  have ia: "i < length (ch_table ?a)" using i by simp
  have b: "channel_ok ?b" by (rule channel_ok_works [OF a works_transport ia])
  have k: "keeps_pipeline ?a ?b" using works_transport [of i ?a] ia by (simp add: works_def)
  have ib: "i < length (ch_table ?b)" "ch_requests ?b = Some (i # rs)" "rq_activated (the_req ?b i)"
    using k i assms(2) by (simp_all add: keeps_pipeline_def the_upd)
  have nb: "i \<notin> set (ch_scheduled ?b)"
  proof -
    have "ch_scheduled ?b = ch_scheduled ?a"
      by (simp add: activate_transport_def put_out_def Let_def split: req_transport.split)
    then show ?thesis using ns by simp
  qed
  have "channel_ok (schedule_cleanup i ?b)" if "rq_finished (the_req ?b i)"
  proof -
    have rb: "ch_requests (schedule_cleanup i ?b) = Some (i # rs)" using ib(2) by (simp add: schedule_cleanup_def)
    show ?thesis
      using b ib nb that unfolding channel_ok_some [OF ib(2)] channel_ok_some [OF rb] by (simp add: schedule_cleanup_def)
  qed
  moreover have "channel_ok (snd (guarded S i OnActivate ?b))"
    by (rule channel_ok_works [OF b works_guarded ib(1)])
  ultimately show ?thesis using False by (simp add: activate_def Let_def)
qed

lemma channel_ok_initiate:
  assumes "channel_ok ch" and "ch_requests ch = Some rs" and "i \<in> set rs"
  shows "channel_ok (snd (initiate S i ch))"
proof (cases "rq_initiated (the_req ch i)")
  case True
  then show ?thesis using assms(1) by (simp add: initiate_def)
next
  case False
  let ?a = "upd_req i (\<lambda>r. r\<lparr>rq_initiated := True\<rparr>) ch"
  let ?m = "guarded S i OnInitiate ?a"
  have i: "i < length (ch_table ch)" using pipeline_mem [OF assms] .
  have "harmless (\<lambda>r. r\<lparr>rq_initiated := True\<rparr>)" by (simp add: harmless_def)
  then have w: "works i ch (snd ?m)" by (rule works_trans [OF works_upd works_guarded])
  have ok: "channel_ok (snd ?m)" by (rule channel_ok_works [OF assms(1) w i])
  have req: "ch_requests (snd ?m) = Some rs" using w i assms(2) by (simp add: works_def keeps_pipeline_def)
  have "channel_ok (snd (activate S i (snd ?m)))" if "rq_transport (the_req (snd ?m) i) = NoTransport"
  proof -
    have "i = hd rs" using ok that assms(3) by (auto simp: channel_ok_def pipeline_ok_def req)
    then obtain rs' where "rs = i # rs'" using assms(3) by (cases rs) auto
    then show ?thesis using channel_ok_activate [OF ok] req by simp
  qed
  then have "channel_ok (snd (and_then ?m (\<lambda>ch. if rq_transport (the_req ch i) = NoTransport then activate S i ch else (None, ch))))"
    using ok by (cases ?m; cases "fst ?m") auto
  then show ?thesis using False by (simp add: initiate_def)
qed

lemma parse_header_fields:
  "parse_header h r = Inr r' \<Longrightarrow> rq_activated r' = rq_activated r \<and> rq_finished r' = rq_finished r \<and> rq_transport r' = rq_transport r"
proof -
  have c: "rq_activated (fold note_cookie cs r) = rq_activated r \<and> rq_finished (fold note_cookie cs r) = rq_finished r \<and>
      rq_transport (fold note_cookie cs r) = rq_transport r" for cs r
    by (induction cs arbitrary: r) (auto simp: note_cookie_def split: prod.split option.split)
  show "parse_header h r = Inr r' \<Longrightarrow> rq_activated r' = rq_activated r \<and> rq_finished r' = rq_finished r \<and> rq_transport r' = rq_transport r"
    by (auto simp: parse_header_def Let_def c split: prod.splits if_splits header_value.splits option.splits)
qed

lemma parse_headers_fields:
  "parse_headers hs r = Inr r' \<Longrightarrow> rq_activated r' = rq_activated r \<and> rq_finished r' = rq_finished r \<and> rq_transport r' = rq_transport r"
  by (induction hs r rule: parse_headers.induct) (auto simp: bindE_Inr_iff dest!: parse_header_fields)

lemma new_request_fields:
  "new_request S info active = Inr r \<Longrightarrow> \<not> rq_activated r \<and> (rq_transport r = NoTransport) = active"
  unfolding new_request_def bindE_Inr_iff by (elim exE conjE, drule parse_headers_fields) (cases active; auto)

lemma channel_ok_body_start: "channel_ok ch \<Longrightarrow> channel_ok (snd (process_body_start S ch))"
proof -
  assume ok: "channel_ok ch"
  show ?thesis
  proof (cases "ch_reqinfo ch = None \<or> ch_requests ch = None")
    case False
    then obtain info rs where f: "ch_reqinfo ch = Some info" "ch_requests ch = Some rs" by auto
    note o = ok [unfolded channel_ok_some [OF f(2)]]
    show ?thesis
    proof (cases "new_request S info (rs = [])")
      case (Inr r)
      note n = new_request_fields [OF Inr]
      let ?i = "length (ch_table ch)"
      let ?ch = "ch\<lparr>ch_table := ch_table ch @ [r], ch_requests := Some (rs @ [?i])\<rparr>"
      have old: "the_req ?ch j = the_req ch j" if "j < ?i" for j using that by (simp add: nth_append)
      have new: "the_req ?ch ?i = r" by simp
      have rq: "ch_requests ?ch = Some (rs @ [?i])" by simp
      have "channel_ok ?ch"
        unfolding channel_ok_some [OF rq]
      proof (intro conjI ballI allI impI)
        fix j
        assume j: "j \<in> set (rs @ [?i])" "rq_activated (the_req ?ch j) \<or> rq_transport (the_req ?ch j) = NoTransport"
        show "j = hd (rs @ [?i])"
        proof (cases "j = ?i")
          case True
          with j n have "rs = []" by simp
          with True show ?thesis by simp
        next
          case False
          then have "j \<in> set rs" using j(1) by simp
          moreover from this have "j < ?i" using o by blast
          ultimately have "j = hd rs" using o j(2) old by metis
          then show ?thesis using \<open>j \<in> set rs\<close> by (cases rs) simp_all
        qed
      next
        fix j
        assume j: "j < length (ch_table ?ch)" "rq_activated (the_req ?ch j) \<and> j \<notin> set (rs @ [?i])"
        then have "j < ?i" by (auto simp: less_Suc_eq)
        with j o old show "rq_finished (the_req ?ch j)" by (metis Un_iff set_append)
      next
        fix j
        assume "j \<in> set (ch_scheduled ?ch)"
        then have "j \<in> set (ch_scheduled ch)" by simp
        then have "j \<in> set rs" "rq_activated (the_req ch j) \<and> rq_finished (the_req ch j)" using o by blast+
        moreover from this(1) have "j < ?i" using o by blast
        ultimately show "rq_activated (the_req ?ch j)" "rq_finished (the_req ?ch j)" "j \<in> set (rs @ [?i])"
          using old by simp_all
      qed (use o in \<open>auto simp: sorted_wrt_append intro: less_imp_le less_SucI\<close>)
      then have "channel_ok (snd (initiate S ?i ?ch))" by (rule channel_ok_initiate [OF _ rq]) simp
      then show ?thesis using f Inr by (simp add: process_body_start_def Let_def)
    qed (use ok f in \<open>simp add: process_body_start_def\<close>)
  qed (use ok in \<open>auto simp: process_body_start_def split: option.split\<close>)
qed

lemma channel_ok_last:
  assumes "channel_ok ch" and "\<And>i. works i ch (snd (f i ch))"
  shows "channel_ok (snd (with_last f ch))"
proof (cases "ch_requests ch")
  case (Some rs)
  then show ?thesis
  proof (cases rs)
    case (Cons i js)
    have "last (i # js) \<in> set rs" unfolding Cons by (rule last_in_set) simp
    from channel_ok_works [OF assms pipeline_mem [OF assms(1) Some this]]
    show ?thesis using Some Cons by (simp add: with_last_def)
  qed (use assms Some in \<open>simp add: with_last_def\<close>)
qed (use assms in \<open>simp add: with_last_def\<close>)

lemma works_data: "works i ch (snd (data_received S i data ch))"
proof -
  have "harmless (\<lambda>r. r\<lparr>rq_received_bytes := rq_received_bytes r + n\<rparr>)" for n by (simp add: harmless_def)
  from works_upd [OF this] works_trans [OF works_upd [OF this] works_guarded] show ?thesis
    by (simp add: data_received_def Let_def)
qed

lemma works_all_content: "works i ch (snd (all_content_received S i ch))"
proof -
  have "harmless (\<lambda>r. r\<lparr>rq_received := True\<rparr>)" by (simp add: harmless_def)
  from works_trans [OF works_upd [OF this] works_guarded] show ?thesis by (simp add: all_content_received_def)
qed

lemma works_lost: "works i ch (snd (request_connection_lost S i ch))"
  using works_handler [of i ch S OnConnectionLost]
  by (auto simp: request_connection_lost_def split: prod.splits option.splits exn.splits)

lemma channel_ok_each:
  assumes "channel_ok ch" and "ch_requests ch = Some rs" and "\<And>i ch. works i ch (snd (f i ch))" and "set js \<subseteq> set rs"
  shows "channel_ok (snd (run_each f js ch)) \<and> ch_requests (snd (run_each f js ch)) = Some rs"
proof (rule each_keeps)
  fix i ch
  assume "i \<in> set js" and k: "channel_ok ch \<and> ch_requests ch = Some rs"
  then have i: "i < length (ch_table ch)" using assms(4) pipeline_mem by blast
  show "channel_ok (snd (f i ch)) \<and> ch_requests (snd (f i ch)) = Some rs"
    using channel_ok_works [OF _ assms(3) i] assms(3) [of i ch] i k by (simp add: works_def keeps_pipeline_def)
qed (use assms in simp)

lemma channel_ok_hook: "channel_ok ch \<Longrightarrow> channel_ok (snd (server_hooks S c ch))"
proof -
  assume ok: "channel_ok ch"
  have e: "channel_ok (ch_http_error S code m ch)" for code m
    by (rule channel_ok_cong [OF ok])
      (simp_all add: ch_http_error_def lose_connection_def current_writers_append Let_def split: option.split list.split)
  have info: "channel_ok (snd (with_info f ch))" for f
    by (rule channel_ok_cong [OF ok]) (simp_all add: with_info_def split: option.split sum.split)
  show ?thesis
  proof (cases c)
    case (RequestLine line)
    have "channel_ok (ch\<lparr>ch_protocol := p, ch_reqinfo := q\<rparr>)" for p q
      by (rule channel_ok_cong [OF ok]) simp_all
    then show ?thesis using ok e
      by (auto simp: RequestLine server_hooks_def process_request_line_def split: list.split sum.split)
  next
    case Cleanup
    show ?thesis
    proof (cases "ch_requests ch")
      case (Some rs)
      have k: "channel_ok (snd (run_each (request_connection_lost S) rs ch))"
        by (rule channel_ok_each [OF ok Some works_lost order.refl, THEN conjunct1])
      then have "channel_ok ((snd (run_each (request_connection_lost S) rs ch))\<lparr>ch_requests := None\<rparr>)"
        by (simp add: channel_ok_def pipeline_ok_def)
      with k have "channel_ok (snd (and_then (run_each (request_connection_lost S) rs ch) (\<lambda>ch. (None, ch\<lparr>ch_requests := None\<rparr>))))"
        by (cases "run_each (request_connection_lost S) rs ch"; cases "fst (run_each (request_connection_lost S) rs ch)") auto
      then show ?thesis by (simp add: Cleanup server_hooks_def process_cleanup_def Some)
    qed (use ok in \<open>simp add: Cleanup server_hooks_def process_cleanup_def\<close>)
  next
    case ResetCall
    show ?thesis by (rule channel_ok_cong [OF ok]) (simp_all add: ResetCall server_hooks_def process_reset_def)
  next
    case BodyStart
    show ?thesis using channel_ok_body_start [OF ok] by (simp add: BodyStart server_hooks_def)
  next
    case (BodyData data)
    show ?thesis using channel_ok_last [OF ok, of "\<lambda>i. data_received S i data"] works_data by (simp add: BodyData server_hooks_def)
  next
    case BodyFinished
    show ?thesis using channel_ok_last [OF ok, of "all_content_received S"] works_all_content by (simp add: BodyFinished server_hooks_def)
  next
    case (BodyLength n)
    show ?thesis using info by (simp add: BodyLength server_hooks_def process_length_def)
  next
    case (ExtendHeader n vs)
    show ?thesis using info by (simp add: ExtendHeader server_hooks_def process_extend_header_def)
  next
    case (SetHeader n v)
    show ?thesis using info by (simp add: SetHeader server_hooks_def process_set_header_def)
  qed (simp_all add: server_hooks_def ok e)
qed

section \<open>Histories\<close>

lemma channel_ok_done:
  assumes "channel_ok ch" and "ch_scheduled ch = i # is"
  shows "channel_ok (snd (request_done S i (ch\<lparr>ch_scheduled := is\<rparr>)))"
proof (cases "ch_requests ch")
  case None
  then show ?thesis using assms by (simp add: request_done_def channel_ok_def pipeline_ok_def)
next
  case (Some rs)
  note o = assms(1) [unfolded channel_ok_some [OF Some] assms(2)]
  have "i \<in> set rs" "i = hd rs" using o by auto
  then obtain rs' where rs: "rs = i # rs'" by (cases rs) auto
  have nil: "is = []"
  proof (cases "is")
    case (Cons j js)
    then have "j \<in> set rs" "rq_activated (the_req ch j)" "j \<noteq> i" using o by auto
    then show ?thesis using o \<open>i = hd rs\<close> by blast
  qed
  let ?ch = "ch\<lparr>ch_scheduled := is, ch_requests := Some rs'\<rparr>"
  have rq: "ch_requests ?ch = Some rs'" by simp
  have i: "rq_finished (the_req ch i)" "\<And>j. j \<in> set rs' \<Longrightarrow> j \<in> set rs \<and> j \<noteq> i" using o rs by auto
  have no: "\<not> rq_activated (the_req ch j) \<and> rq_transport (the_req ch j) \<noteq> NoTransport" if "j \<in> set rs'" for j
    using o i(2) [OF that] \<open>i = hd rs\<close> by blast
  have "channel_ok ?ch"
    unfolding channel_ok_some [OF rq]
  proof (intro conjI ballI allI impI)
    show "sorted_wrt (<) rs'" using o rs by simp
    fix j
    assume "j < length (ch_table ?ch)" "rq_activated (the_req ?ch j) \<and> j \<notin> set rs'"
    then show "rq_finished (the_req ?ch j)" using o i(1) rs by (cases "j = i") auto
  qed (use o nil no i(2) in \<open>auto simp: rs\<close>)
  then show ?thesis
    using channel_ok_activate [of ?ch] rq
    by (cases rs') (auto simp: request_done_def Some rs lose_connection_def Let_def elim: channel_ok_cong)
qed

lemma channel_ok_cleanup: "channel_ok ch \<Longrightarrow> channel_ok (snd (run_cleanup S ch))"
proof (cases "ch_scheduled ch")
  case (Cons i js)
  assume ok: "channel_ok ch"
  let ?m = "request_done S i (ch\<lparr>ch_scheduled := js\<rparr>)"
  have m: "channel_ok (snd ?m)" by (rule channel_ok_done [OF ok Cons])
  have "harmless (\<lambda>r. r\<lparr>rq_detached := True\<rparr>)" by (simp add: harmless_def)
  then have "channel_ok (upd_req i (\<lambda>r. r\<lparr>rq_detached := True\<rparr>) (snd ?m))"
    using channel_ok_works [OF m works_upd] m by (cases "i < length (ch_table (snd ?m))") (auto simp: upd_req_def list_update_beyond)
  with m show ?thesis by (cases ?m; cases "fst ?m") (auto simp: run_cleanup_def Cons)
qed (simp add: run_cleanup_def)

lemma channel_ok_close: "channel_ok ch \<Longrightarrow> channel_ok (snd (close_channel S ch))"
proof (cases "ch_requests ch")
  case (Some rs)
  assume ok: "channel_ok ch"
  let ?m = "run_each (finish S) rs ch"
  have m: "channel_ok (snd ?m)" by (rule channel_ok_each [OF ok Some works_finish order.refl, THEN conjunct1])
  then have "channel_ok (lose_connection (snd ?m))" by (rule channel_ok_cong) (simp_all add: lose_connection_def)
  with m show ?thesis by (cases ?m; cases "fst ?m") (auto simp: close_channel_def Some)
qed (simp add: close_channel_def)

lemma channel_ok_step: "channel_ok ch \<Longrightarrow> channel_ok (snd (server_step S ev ch))"
  by (cases ev) (auto simp: server_step_def intro: channel_ok_hook channel_ok_cleanup channel_ok_close channel_ok_works [OF _ works_cmd])

lemma channel_ok_run: "channel_ok ch \<Longrightarrow> channel_ok (server_run S evs ch)"
  by (induction evs arbitrary: ch) (simp_all add: server_run_def channel_ok_step)

lemma channel_ok_new: "channel_ok fresh_channel"
  by (simp add: channel_ok_def pipeline_ok_def fresh_channel_def)

text \<open>C16: Whatever the applications do, what requests write while they are active and in the pipeline is written in
  the order in which the requests arrived.\<close>

theorem active_responses_in_order:
  "sorted (current_writers (ch_written (server_run S evs fresh_channel)))"
  using channel_ok_run [OF channel_ok_new] by (simp add: channel_ok_def)

text \<open>A cleanup that is due is always that of the oldest request of the pipeline, so that \<open>request_done\<close>
  never meets an unexpected request.\<close>

theorem cleanup_is_of_the_oldest:
  assumes "ch_scheduled (server_run S evs fresh_channel) = i # is"
    and "ch_requests (server_run S evs fresh_channel) = Some rs"
  shows "\<exists>rs'. rs = i # rs'"
proof -
  note o = channel_ok_run [OF channel_ok_new, of S evs, unfolded channel_ok_some [OF assms(2)] assms(1)]
  then have "i \<in> set rs" "i = hd rs" by auto
  then show ?thesis by (cases rs) auto
qed

text \<open>What \<open>finish\<close> writes for a request that was not given the connection: what its buffer holds and the head of
  its response.\<close>

definition closed_request :: "http_request \<Rightarrow> http_request" where
  "closed_request r =
     persistence (r\<lparr>rq_finished := True,
       rq_persistent := (if has_body r \<and> \<not> rq_received r then False else rq_persistent r)\<rparr>)"

definition kept_back :: "http_request \<Rightarrow> string" where
  "kept_back r = (case rq_transport r of Buffered s \<Rightarrow> s | _ \<Rightarrow> [])"

lemma finish_waiting:
  assumes i: "i < length (ch_table ch)" and fin: "\<not> rq_finished (the_req ch i)" and wr: "\<not> rq_writing (the_req ch i)"
    and tr: "\<not> rq_transport_activated (the_req ch i)" and act: "\<not> rq_activated (the_req ch i)"
  shows "fst (finish S i ch) = None \<and>
    ch_output (snd (finish S i ch)) =
      ch_output ch @ kept_back (the_req ch i) @ response_head S (closed_request (the_req ch i)) \<and>
    ch_scheduled (snd (finish S i ch)) = ch_scheduled ch"
proof -
  let ?r = "closed_request (the_req ch i)"
  define ch3 where "ch3 = upd_req i (\<lambda>r. r\<lparr>rq_writing := True\<rparr>) (upd_req i persistence (upd_req i (\<lambda>r. r\<lparr>rq_finished := True,
      rq_persistent := (if has_body r \<and> \<not> rq_received r then False else rq_persistent r)\<rparr>) ch))"
  have len: "length (ch_table ch3) = length (ch_table ch)" by (simp add: ch3_def)
  have r3: "the_req ch3 i = ?r\<lparr>rq_writing := True\<rparr>"
    using i by (simp add: ch3_def the_upd closed_request_def)
  have tr3: "rq_transport (the_req ch3 i) = rq_transport (the_req ch i)"
      "\<not> rq_transport_activated (the_req ch3 i)" "\<not> rq_activated (the_req ch3 i)"
    using tr act by (simp_all add: r3 closed_request_def persistence_fields persistence_transport)
  have out3: "ch_output ch3 = ch_output ch" "ch_scheduled ch3 = ch_scheduled ch" by (simp_all add: ch3_def ch_output_def)
  define ch4 where "ch4 = activate_transport i ch3"
  have out4: "ch_output ch4 = ch_output ch @ kept_back (the_req ch i)" "ch_scheduled ch4 = ch_scheduled ch"
    using tr3 out3 by (auto simp: ch4_def activate_transport_def put_out_def ch_output_def kept_back_def split: req_transport.split)
  have r4: "the_req ch4 i = ?r\<lparr>rq_writing := True, rq_transport := Direct, rq_transport_activated := True\<rparr>"
    using tr3 i len r3 by (auto simp: ch4_def activate_transport_def put_out_def the_upd split: req_transport.split)
  have head: "response_head S (the_req ch4 i) = response_head S ?r" unfolding r4 by (simp add: response_head_def)
  have "finish S i ch = and_then (transport_write i (response_head S (the_req ch4 i)) ch4)
      (\<lambda>ch. (None, if rq_activated (the_req ch i) then schedule_cleanup i ch else ch))"
    using fin wr i unfolding ch4_def ch3_def by (simp add: finish_def write_headers_def Let_def the_upd)
  also have "\<dots> = (None, put_out i (response_head S ?r) ch4)"
    using r4 head act by (simp add: transport_write_def put_out_def closed_request_def persistence_fields)
  finally show ?thesis using out4 by (simp add: put_out_def ch_output_def)
qed

text \<open>C39: A response does not wait for its turn.  When a request that is not the oldest of the pipeline finishes its
  answer before it was given the connection, then, whatever the history of the channel, what it kept back and the
  head of its response are written to the connection at once, although the oldest request is still to be answered;
  and its cleanup is not scheduled, so that it stays in the pipeline.\<close>

theorem waiting_response_is_written:
  assumes "ch = server_run S evs fresh_channel" "ch_requests ch = Some (k # rs)" "i \<in> set rs"
    and "\<not> rq_finished (the_req ch i)" "\<not> rq_writing (the_req ch i)" "\<not> rq_transport_activated (the_req ch i)"
  shows "let (e, ch') = server_step S (AppCall i CmdFinish) ch
    in e = None \<and>
       ch_output ch' = ch_output ch @ kept_back (the_req ch i) @ response_head S (closed_request (the_req ch i)) \<and>
       ch_scheduled ch' = ch_scheduled ch \<and> ch_requests ch' = Some (k # rs)"
proof -
  have ok: "channel_ok ch" using channel_ok_run [OF channel_ok_new] assms(1) by simp
  note o = ok [unfolded channel_ok_some [OF assms(2)]]
  have "i \<noteq> k" "i < length (ch_table ch)" "\<not> rq_activated (the_req ch i)" using o assms(3) by auto
  note f = finish_waiting [OF this(2) assms(4,5,6) this(3), of S]
  have "ch_requests (snd (finish S i ch)) = ch_requests ch"
    using works_finish [of i ch S] \<open>i < length (ch_table ch)\<close> by (simp add: works_def keeps_pipeline_def)
  then show ?thesis
    using f assms(2) \<open>i < length (ch_table ch)\<close> by (simp add: server_step_def run_cmd_def case_prod_beta)
qed

section \<open>Where the server fails\<close>

definition sample_server :: "(nat \<Rightarrow> req_event \<Rightarrow> http_request \<Rightarrow> req_cmd list \<times> exn option) \<Rightarrow> http_server" where
  "sample_server app =
     \<lparr>sv_app = app, sv_force = None, sv_responses = [(200, ''OK''), (400, ''Bad Request''), (500, ''Error'')],
      sv_repr = concat\<rparr>"

definition get_request :: "string \<Rightarrow> server_event list" where
  "get_request uri = map Hook [RequestLine (''GET '' @ uri @ '' HTTP/1.1''), SetHeader ''host'' ''here'', BodyStart,
     BodyFinished, ResetCall]"

text \<open>The first request waits; every other one answers with its number when it has been received.\<close>

definition slow_first :: "nat \<Rightarrow> req_event \<Rightarrow> http_request \<Rightarrow> req_cmd list \<times> exn option" where
  "slow_first i ev r =
     (if 0 < i \<and> ev = OnAllContent
      then ([CmdSetLength 1, CmdWrite (show_int (int i)), CmdFinish], None) else ([], None))"

definition writers :: "channel \<Rightarrow> nat option list" where
  "writers ch = map fst (ch_written ch)"

text \<open>For instance, the second request answers while the first is still being served.\<close>

theorem pipelined_response_overtakes:
  "let ch = server_run (sample_server slow_first)
      (get_request ''/slow'' @ get_request ''/quick'' @
       [AppCall 0 (CmdSetLength 1), AppCall 0 (CmdWrite ''0''), AppCall 0 CmdFinish]) fresh_channel
   in writers ch = [Some 1, Some 1, Some 0, Some 0] \<and>
      ch_output ch = concat (map (\<lambda>n. ''HTTP/1.1 200 OK'' @ [CHR 0x0D, CHR 0x0A] @ ''Content-Length: 1'' @
        [CHR 0x0D, CHR 0x0A, CHR 0x0D, CHR 0x0A] @ n) [''1'', ''0''])"
  by code_simp

definition answer_at_once :: "nat \<Rightarrow> req_event \<Rightarrow> http_request \<Rightarrow> req_cmd list \<times> exn option" where
  "answer_at_once i ev r =
     (if ev = OnInitiate then ([CmdSetLength 0, CmdFinish], None) else ([], None))"

text \<open>A request that finishes its answer when it is initiated is never activated and so never cleaned up: it stays
  at the head of the pipeline, and the requests after it are never active.\<close>

theorem early_answer_strands_pipeline:
  "let ch = server_run (sample_server answer_at_once)
      (get_request ''/'' @ [CleanupRuns] @ get_request ''/'' @ [CleanupRuns]) fresh_channel
   in ch_requests ch = Some [0, 1] \<and> ch_scheduled ch = [] \<and> \<not> ch_closing ch \<and>
      map rq_finished (ch_table ch) = [True, True] \<and> map rq_activated (ch_table ch) = [False, False]"
  by code_simp

definition quick_first :: "nat \<Rightarrow> req_event \<Rightarrow> http_request \<Rightarrow> req_cmd list \<times> exn option" where
  "quick_first i ev r = ([], None)"

definition fail_at :: "req_event \<Rightarrow> nat \<Rightarrow> req_event \<Rightarrow> http_request \<Rightarrow> req_cmd list \<times> exn option" where
  "fail_at ev0 i ev r = (if ev = ev0 then ([], Some HTTPError) else ([], None))"

text \<open>In these four cases an error is not answered: an \<open>HTTPError\<close> that a method of a request raises itself, when the
  request is initiated or activated, a request line that does not have three parts and an unknown method each end
  in another exception, and nothing is written.\<close>

theorem http_errors_are_not_answered:
  "map (\<lambda>ev.
      let S = sample_server (fail_at ev); ch = server_run S (take 2 (get_request ''/'')) fresh_channel;
          (e, ch) = server_step S (Hook BodyStart) ch
      in (e, ch_output ch)) [OnInitiate, OnActivate] = [(Some AttributeError, []), (Some AttributeError, [])] \<and>
   map (\<lambda>line.
      let (e, ch) = server_step (sample_server quick_first) (Hook (RequestLine line)) fresh_channel
      in (e, ch_output ch)) [''GET /'', ''TRACE / HTTP/1.1''] = [(Some AttributeError, []), (Some UnboundLocalError, [])]"
  by code_simp

text \<open>Two requests are waiting for their answers; the second finishes first.\<close>

theorem waiting_response_is_written_witness:
  "\<exists>ch. ch = server_run (sample_server quick_first) (get_request ''/a'' @ get_request ''/b'') fresh_channel \<and>
     ch_output ch = [] \<and>
     ch_output (snd (server_step (sample_server quick_first) (AppCall 1 CmdFinish) ch)) =
       response_head (sample_server quick_first) (closed_request (the_req ch 1))"
proof -
  let ?S = "sample_server quick_first" and ?evs = "get_request ''/a'' @ get_request ''/b''"
  obtain ch where ch: "ch = server_run ?S ?evs fresh_channel" by blast
  have rs: "ch_requests ch = Some (0 # [1])" unfolding ch by code_simp
  have h: "\<not> rq_finished (the_req ch 1)" "\<not> rq_writing (the_req ch 1)" "\<not> rq_transport_activated (the_req ch 1)"
    and out: "ch_output ch = []" and k: "kept_back (the_req ch 1) = []"
    unfolding ch by code_simp+
  have "1 \<in> set [1 :: nat]" by simp
  from waiting_response_is_written [OF ch rs this h] out k ch show ?thesis
    by (auto simp: case_prod_beta Let_def)
qed

text \<open>The witness of the cleanup: the first request has finished, the second waits.\<close>

theorem cleanup_is_of_the_oldest_witness:
  "\<exists>rs'. [0, 1] = (0 :: nat) # rs'"
proof -
  let ?S = "sample_server quick_first"
  let ?evs = "get_request ''/a'' @ get_request ''/b'' @ [AppCall 0 (CmdSetLength 0), AppCall 0 CmdFinish]"
  have "ch_scheduled (server_run ?S ?evs fresh_channel) = 0 # []" by code_simp
  moreover have "ch_requests (server_run ?S ?evs fresh_channel) = Some [0, 1]" by code_simp
  ultimately show ?thesis by (rule cleanup_is_of_the_oldest)
qed

end
