(* ===== verification/Values.thy ===== *)
theory Values
  imports WebStrings Enums
begin

text \<open>
  The values of models and the actions on them (\<open>models/value.py\<close>, \<open>models/action.py\<close>): what an input
  is validated to, what is published of a value, and how an action checks its parameters and runs its
  effects.

  An object of class \<open>String\<close>, \<open>Integer\<close> and so on is a constructor with what \<open>Value.__init__\<close> stores;
  \<open>FixedValues\<close> inherits \<open>validate\<close> and \<open>publish\<close> of \<open>Value\<close> and is \<open>IPlain\<close>.  Labels and descriptions are left
  out.  A unicode text is given by its UTF-8 encoding and keys of dictionaries are texts; floats are
  rationals, so infinities and \<open>nan\<close> are left out; \<open>int\<close> and \<open>long\<close> are one type.
\<close>

section \<open>Python values\<close>

datatype pyval =
    PyNone | PyBool bool | PyInt int | PyFloat rat | PyStr string | PyUnicode string
  | PyList "pyval list" | PyDict "(string \<times> pyval) list" | PyEnum nat int | PyObject nat

definition ascii_text :: "string \<Rightarrow> bool" where
  "ascii_text s = list_all (\<lambda>c. char_code c < 128) s"

text \<open>The number a value stands for in a comparison\<close>

definition py_number :: "pyval \<Rightarrow> rat option" where
  "py_number v =
     (case v of
        PyBool b \<Rightarrow> Some (if b then 1 else 0)
      | PyInt n \<Rightarrow> Some (of_int n)
      | PyFloat x \<Rightarrow> Some x
      | PyEnum _ n \<Rightarrow> Some (of_int n)
      | _ \<Rightarrow> None)"

text \<open>\<open>a == b\<close>; containers are compared as they are.\<close>

definition py_eq :: "pyval \<Rightarrow> pyval \<Rightarrow> bool" where
  "py_eq a b =
     (case (py_number a, py_number b) of
        (Some x, Some y) \<Rightarrow> x = y
      | _ \<Rightarrow>
          (case (a, b) of
             (PyStr s, PyUnicode t) \<Rightarrow> s = t \<and> ascii_text s
           | (PyUnicode s, PyStr t) \<Rightarrow> s = t \<and> ascii_text s
           | _ \<Rightarrow> a = b))"

text \<open>\<open>isinstance(v, int)\<close>: booleans and items of enumerations are integers.\<close>

definition is_int :: "pyval \<Rightarrow> bool" where
  "is_int v = (case v of PyBool _ \<Rightarrow> True | PyInt _ \<Rightarrow> True | PyEnum _ _ \<Rightarrow> True | _ \<Rightarrow> False)"

definition py_trunc :: "rat \<Rightarrow> int" where
  "py_trunc x = (if 0 \<le> x then \<lfloor>x\<rfloor> else \<lceil>x\<rceil>)"

text \<open>\<open>float(s)\<close> of a decimal number\<close>

definition digits_value :: "string \<Rightarrow> int option" where
  "digits_value s = (if s = [] then Some 0 else read_digits 0 s)"

definition read_mantissa :: "string \<Rightarrow> rat option" where
  "read_mantissa s =
     (case split_once (CHR ''.'') s of
        (a, None) \<Rightarrow> map_option of_int (read_number a)
      | (a, Some b) \<Rightarrow>
          if a = [] \<and> b = [] then None
          else (case (digits_value a, digits_value b) of
                  (Some x, Some y) \<Rightarrow> Some (of_int x + of_int y / 10 ^ length b)
                | _ \<Rightarrow> None))"

definition read_signed :: "string \<Rightarrow> (string \<Rightarrow> 'a :: uminus option) \<Rightarrow> 'a option" where
  "read_signed s f =
     (case s of
        c # cs \<Rightarrow> if c = CHR ''-'' then map_option uminus (f cs) else if c = CHR ''+'' then f cs else f s
      | [] \<Rightarrow> None)"

definition read_unsigned_float :: "string \<Rightarrow> rat option" where
  "read_unsigned_float s =
     (case split_once (CHR ''e'') (lower s) of
        (m, None) \<Rightarrow> read_mantissa m
      | (m, Some e) \<Rightarrow>
          (case (read_mantissa m, read_signed e read_number) of
             (Some x, Some k) \<Rightarrow> Some (if 0 \<le> k then x * 10 ^ nat k else x / 10 ^ nat (- k))
           | _ \<Rightarrow> None))"

definition float_of_string :: "string \<Rightarrow> rat option" where
  "float_of_string s = read_signed (strip s) read_unsigned_float"

section \<open>Value informations\<close>

record value_class =
  vc_default :: "pyval option"
  vc_options :: "pyval list"
  vc_only :: bool

datatype value_info =
    IPlain value_class
  | IString value_class
  | IFloat value_class
  | IInteger value_class
  | IBoolean value_class
  | IEnum nat enum_class value_class
  | IStructure value_class "(string \<times> value_info \<times> bool) list"
  | ICollection value_class "value_info list" "nat option" "nat option"

primrec info_class :: "value_info \<Rightarrow> value_class" where
  "info_class (IPlain vc) = vc"
| "info_class (IString vc) = vc"
| "info_class (IFloat vc) = vc"
| "info_class (IInteger vc) = vc"
| "info_class (IBoolean vc) = vc"
| "info_class (IEnum _ _ vc) = vc"
| "info_class (IStructure vc _) = vc"
| "info_class (ICollection vc _ _ _) = vc"

text \<open>\<open>ValueError\<close>, the three errors of parameters with the names they are about, \<open>TypeError\<close>, \<open>ParameterError\<close> and \<open>NotAvailable\<close>.\<close>

datatype value_error =
  BadValue | Missing "string list" | Unknown "string list" | Invalid "string list" | WrongType | BadParameter | Disabled

definition base_validate :: "value_class \<Rightarrow> pyval \<Rightarrow> pyval" where
  "base_validate vc v = (case (v, vc_default vc) of (PyNone, Some d) \<Rightarrow> d | _ \<Rightarrow> v)"

definition has_option :: "value_class \<Rightarrow> pyval \<Rightarrow> bool" where
  "has_option vc v = list_ex (\<lambda>opt. py_eq opt v) (vc_options vc)"

text \<open>\<open>Value.validate\<close> and \<open>Value.publish\<close>, which do the same\<close>

definition value_validate :: "value_class \<Rightarrow> pyval \<Rightarrow> value_error + pyval" where
  "value_validate vc v =
     (let v = base_validate vc v in if vc_only vc \<and> \<not> has_option vc v then Inl BadValue else Inr v)"

definition check_type :: "(pyval \<Rightarrow> bool) \<Rightarrow> pyval \<Rightarrow> value_error + pyval" where
  "check_type P v = (if P v then Inr v else Inl BadValue)"

definition is_unicode :: "pyval \<Rightarrow> bool" where
  "is_unicode v = (case v of PyUnicode _ \<Rightarrow> True | _ \<Rightarrow> False)"

definition is_bool :: "pyval \<Rightarrow> bool" where
  "is_bool v = (case v of PyBool _ \<Rightarrow> True | _ \<Rightarrow> False)"

definition is_float :: "pyval \<Rightarrow> bool" where
  "is_float v = (case v of PyFloat _ \<Rightarrow> True | _ \<Rightarrow> False)"

text \<open>\<open>unicode(s)\<close> decodes a byte string as ASCII.\<close>

definition decode :: "pyval \<Rightarrow> value_error + pyval" where
  "decode v = (case v of PyStr s \<Rightarrow> if ascii_text s then Inr (PyUnicode s) else Inl BadValue | _ \<Rightarrow> Inr v)"

definition string_convert :: "value_class \<Rightarrow> pyval \<Rightarrow> value_error + pyval" where
  "string_convert vc v = bindE (decode v) (\<lambda>v. bindE (value_validate vc v) (check_type is_unicode))"

definition to_float :: "pyval \<Rightarrow> value_error + pyval" where
  "to_float v =
     (case v of
        PyStr s \<Rightarrow> (case float_of_string s of None \<Rightarrow> Inl BadValue | Some x \<Rightarrow> Inr (PyFloat x))
      | PyUnicode s \<Rightarrow> (case float_of_string s of None \<Rightarrow> Inl BadValue | Some x \<Rightarrow> Inr (PyFloat x))
      | _ \<Rightarrow> Inr (if is_int v then PyFloat (the (py_number v)) else v))"

definition float_validate :: "value_class \<Rightarrow> pyval \<Rightarrow> value_error + pyval" where
  "float_validate vc v = bindE (to_float v) (\<lambda>v. bindE (value_validate vc v) (check_type is_float))"

definition float_publish :: "value_class \<Rightarrow> pyval \<Rightarrow> value_error + pyval" where
  "float_publish vc v =
     bindE (value_validate vc v) (\<lambda>v. Inr (if is_int v then PyFloat (the (py_number v)) else v))"

definition to_int :: "pyval \<Rightarrow> value_error + pyval" where
  "to_int v =
     (case v of
        PyStr s \<Rightarrow> (case int_of_string s of None \<Rightarrow> Inl BadValue | Some n \<Rightarrow> Inr (PyInt n))
      | PyUnicode s \<Rightarrow> (case int_of_string s of None \<Rightarrow> Inl BadValue | Some n \<Rightarrow> Inr (PyInt n))
      | PyFloat x \<Rightarrow> Inr (PyInt (py_trunc x))
      | _ \<Rightarrow> Inr v)"

definition integer_validate :: "value_class \<Rightarrow> pyval \<Rightarrow> value_error + pyval" where
  "integer_validate vc v = bindE (to_int v) (\<lambda>v. bindE (value_validate vc v) (check_type is_int))"

definition integer_publish :: "value_class \<Rightarrow> pyval \<Rightarrow> value_error + pyval" where
  "integer_publish vc v =
     bindE (value_validate vc v) (\<lambda>v.
       check_type is_int (case v of PyFloat x \<Rightarrow> PyInt (py_trunc x) | _ \<Rightarrow> v))"

definition to_bool :: "string \<Rightarrow> value_error + pyval" where
  "to_bool s =
     (if lower s = ''true'' then Inr (PyBool True)
      else if lower s = ''false'' then Inr (PyBool False)
      else Inl BadValue)"

definition boolean_validate :: "value_class \<Rightarrow> pyval \<Rightarrow> value_error + pyval" where
  "boolean_validate vc v =
     (if is_bool v then Inr v
      else bindE (case v of PyStr s \<Rightarrow> to_bool s | PyUnicode s \<Rightarrow> to_bool s | _ \<Rightarrow> Inr v) (\<lambda>v.
           bindE (value_validate vc v) (check_type is_bool)))"

definition boolean_publish :: "value_class \<Rightarrow> pyval \<Rightarrow> value_error + pyval" where
  "boolean_publish vc v = bindE (value_validate vc v) (check_type is_bool)"

text \<open>The key a value is in an enumeration; an item of another class makes the look-up raise.\<close>

definition enum_key_of :: "nat \<Rightarrow> pyval \<Rightarrow> enum_key option" where
  "enum_key_of cls v =
     (case v of
        PyStr s \<Rightarrow> Some (KeyStr s)
      | PyUnicode s \<Rightarrow> Some (KeyStr s)
      | PyInt n \<Rightarrow> Some (KeyInt n)
      | PyBool b \<Rightarrow> Some (KeyInt (if b then 1 else 0))
      | PyEnum c n \<Rightarrow> Some (if c = cls then KeyInt n else KeyForeign)
      | _ \<Rightarrow> None)"

definition enum_item :: "enum_class \<Rightarrow> enum_key \<Rightarrow> value_error + int" where
  "enum_item e k =
     (case enum_contains e k of
        Inl _ \<Rightarrow> Inl WrongType
      | Inr False \<Rightarrow> Inl BadValue
      | Inr True \<Rightarrow> (case enum_get e k of Inl _ \<Rightarrow> Inl WrongType | Inr n \<Rightarrow> Inr n))"

definition enum_validate :: "nat \<Rightarrow> enum_class \<Rightarrow> value_class \<Rightarrow> pyval \<Rightarrow> value_error + pyval" where
  "enum_validate cls e vc v =
     (case enum_key_of cls (base_validate vc v) of
        None \<Rightarrow> Inl BadValue
      | Some k \<Rightarrow> bindE (enum_item e k) (\<lambda>n. Inr (PyEnum cls n)))"

text \<open>\<open>publish\<close> gives a name as it is, and the name of a number.\<close>

definition enum_publish :: "nat \<Rightarrow> enum_class \<Rightarrow> value_class \<Rightarrow> pyval \<Rightarrow> value_error + pyval" where
  "enum_publish cls e vc v =
     (case enum_key_of cls (base_validate vc v) of
        None \<Rightarrow> Inl BadValue
      | Some k \<Rightarrow> bindE (enum_item e k) (\<lambda>n.
          Inr (PyUnicode (case k of KeyStr s \<Rightarrow> s | _ \<Rightarrow> enum_name e n))))"

section \<open>Structures and collections\<close>

text \<open>\<open>fields\<close>: of several with a name the last one counts, and stands in the place of the last.\<close>

fun last_fields :: "(string \<times> 'a) list \<Rightarrow> (string \<times> 'a) list" where
  "last_fields [] = []"
| "last_fields ((n, x) # fs) = (if n \<in> set (map fst fs) then last_fields fs else (n, x) # last_fields fs)"

text \<open>A field as the checks see it: how it converts a value, its default, and whether it is required.\<close>

type_synonym checker = "(pyval \<Rightarrow> value_error + pyval) \<times> pyval option \<times> bool"

definition required_names :: "(string \<times> checker) list \<Rightarrow> string list" where
  "required_names fs = map fst (filter (\<lambda>(n, f, d, r). r) fs)"

definition missing_names :: "(string \<times> checker) list \<Rightarrow> (string \<times> pyval) list \<Rightarrow> string list" where
  "missing_names fs d = filter (\<lambda>n. n \<notin> set (map fst d)) (required_names fs)"

definition unknown_names :: "(string \<times> checker) list \<Rightarrow> (string \<times> pyval) list \<Rightarrow> string list" where
  "unknown_names fs d = filter (\<lambda>n. n \<notin> set (map fst fs)) (map fst d)"

text \<open>The loop over the parameters: the values that are valid, the names of those that are not.  Only a
  \<open>ValueError\<close> is collected.\<close>

fun check_params ::
  "(string \<times> checker) list \<Rightarrow> (string \<times> pyval) list \<Rightarrow> (string \<times> pyval) list \<Rightarrow> string list \<Rightarrow>
   value_error + (string \<times> pyval) list \<times> string list" where
  "check_params fs [] ok bad = Inr (ok, bad)"
| "check_params fs ((n, v) # d) ok bad =
     (if \<not> ascii_text n then Inl BadValue
      else case map_of fs n of
             None \<Rightarrow> Inl WrongType
           | Some (f, _, _) \<Rightarrow>
               (case f v of
                  Inr w \<Rightarrow> check_params fs d (AList.update n w ok) bad
                | Inl BadValue \<Rightarrow> check_params fs d ok (bad @ [n])
                | Inl e \<Rightarrow> Inl e))"

definition fill_default :: "string \<times> checker \<Rightarrow> (string \<times> pyval) list \<Rightarrow> (string \<times> pyval) list" where
  "fill_default fd ok =
     (case fd of (n, f, dflt, required) \<Rightarrow>
        case dflt of
          None \<Rightarrow> ok
        | Some x \<Rightarrow> if \<not> required \<and> \<not> dict_has ok n then AList.update n x ok else ok)"

text \<open>In a structure the name of a field that gets its default goes through \<open>str\<close>, which takes ASCII only.\<close>

definition default_names_ok :: "(string \<times> checker) list \<Rightarrow> (string \<times> pyval) list \<Rightarrow> bool" where
  "default_names_ok fs ok =
     list_all (\<lambda>(n, f, dflt, required). required \<or> dict_has ok n \<or> dflt = None \<or> ascii_text n) fs"

definition structure_validate :: "(string \<times> checker) list \<Rightarrow> pyval \<Rightarrow> value_error + pyval" where
  "structure_validate fs v =
     (case v of
        PyDict d \<Rightarrow>
          if missing_names fs d \<noteq> [] then Inl (Missing (missing_names fs d))
          else if unknown_names fs d \<noteq> [] then Inl (Unknown (unknown_names fs d))
          else bindE (check_params fs d [] []) (\<lambda>(ok, bad).
                 if bad \<noteq> [] then Inl (Invalid bad)
                 else if \<not> default_names_ok fs ok then Inl BadValue
                 else Inr (PyDict (fold fill_default fs ok)))
      | _ \<Rightarrow> Inl BadValue)"

text \<open>\<open>getter\<close> of \<open>publish\<close>: a key of a dictionary; other values have attributes only if they are objects, whose
  attributes are the argument \<open>attr\<close>.\<close>

definition get_field :: "(nat \<Rightarrow> string \<Rightarrow> pyval option) \<Rightarrow> pyval \<Rightarrow> string \<Rightarrow> value_error + pyval" where
  "get_field attr v n =
     (case (case v of PyDict d \<Rightarrow> map_of d n | PyObject k \<Rightarrow> attr k n | _ \<Rightarrow> None) of
        None \<Rightarrow> Inl BadValue
      | Some x \<Rightarrow> Inr x)"

fun structure_publish ::
  "(nat \<Rightarrow> string \<Rightarrow> pyval option) \<Rightarrow> (string \<times> checker) list \<Rightarrow> pyval \<Rightarrow> (string \<times> pyval) list \<Rightarrow>
   value_error + pyval" where
  "structure_publish attr [] v result = Inr (PyDict result)"
| "structure_publish attr ((n, f, dflt, required) # fs) v result =
     (case bindE (get_field attr v n) f of
        Inr w \<Rightarrow> structure_publish attr fs v (AList.update n w result)
      | Inl BadValue \<Rightarrow>
          if required then Inl BadValue
          else (case dflt of
                  None \<Rightarrow> structure_publish attr fs v result
                | Some x \<Rightarrow> bindE (f x) (\<lambda>w. structure_publish attr fs v (AList.update n w result)))
      | Inl e \<Rightarrow> Inl e)"

text \<open>An element is converted by the first type that does not refuse it.\<close>

fun first_allowed :: "(pyval \<Rightarrow> value_error + pyval) list \<Rightarrow> pyval \<Rightarrow> value_error + pyval" where
  "first_allowed [] v = Inl BadValue"
| "first_allowed (f # fs) v =
     (case f v of
        Inr w \<Rightarrow> Inr w
      | Inl BadValue \<Rightarrow> first_allowed fs v
      | Inl (Invalid _) \<Rightarrow> first_allowed fs v
      | Inl e \<Rightarrow> Inl e)"

fun convert_all :: "(pyval \<Rightarrow> value_error + pyval) list \<Rightarrow> pyval list \<Rightarrow> value_error + pyval list" where
  "convert_all fs [] = Inr []"
| "convert_all fs (v # vs) = bindE (first_allowed fs v) (\<lambda>w. bindE (convert_all fs vs) (\<lambda>ws. Inr (w # ws)))"

definition elements :: "pyval \<Rightarrow> pyval list option" where
  "elements v = (case v of PyList vs \<Rightarrow> Some vs | PyDict d \<Rightarrow> Some (map (PyUnicode \<circ> fst) d) | _ \<Rightarrow> None)"

definition size_ok :: "nat option \<Rightarrow> nat option \<Rightarrow> nat \<Rightarrow> bool" where
  "size_ok lo hi n \<longleftrightarrow> (case lo of None \<Rightarrow> True | Some m \<Rightarrow> m \<le> n) \<and> (case hi of None \<Rightarrow> True | Some m \<Rightarrow> n \<le> m)"

definition collection_convert ::
  "(pyval \<Rightarrow> value_error + pyval) list \<Rightarrow> nat option \<Rightarrow> nat option \<Rightarrow> pyval \<Rightarrow> value_error + pyval" where
  "collection_convert fs lo hi v =
     (case elements v of
        None \<Rightarrow> Inl BadValue
      | Some vs \<Rightarrow> if size_ok lo hi (length vs) then map_sum id PyList (convert_all fs vs) else Inl BadValue)"

fun validate :: "value_info \<Rightarrow> pyval \<Rightarrow> value_error + pyval" where
  "validate (IPlain vc) v = value_validate vc v"
| "validate (IString vc) v = string_convert vc v"
| "validate (IFloat vc) v = float_validate vc v"
| "validate (IInteger vc) v = integer_validate vc v"
| "validate (IBoolean vc) v = boolean_validate vc v"
| "validate (IEnum cls e vc) v = enum_validate cls e vc v"
| "validate (IStructure vc fs) v =
     structure_validate (last_fields (map (\<lambda>(n, i, r). (n, validate i, vc_default (info_class i), r)) fs)) v"
| "validate (ICollection vc is lo hi) v = collection_convert (map validate is) lo hi v"

fun publish_value :: "(nat \<Rightarrow> string \<Rightarrow> pyval option) \<Rightarrow> value_info \<Rightarrow> pyval \<Rightarrow> value_error + pyval" where
  "publish_value attr (IPlain vc) v = value_validate vc v"
| "publish_value attr (IString vc) v = string_convert vc v"
| "publish_value attr (IFloat vc) v = float_publish vc v"
| "publish_value attr (IInteger vc) v = integer_publish vc v"
| "publish_value attr (IBoolean vc) v = boolean_publish vc v"
| "publish_value attr (IEnum cls e vc) v = enum_publish cls e vc v"
| "publish_value attr (IStructure vc fs) v =
     structure_publish attr
       (last_fields (map (\<lambda>(n, i, r). (n, publish_value attr i, vc_default (info_class i), r)) fs)) v []"
| "publish_value attr (ICollection vc is lo hi) v = collection_convert (map (publish_value attr) is) lo hi v"

section \<open>Making an information\<close>

text \<open>\<open>_add_option\<close>: the value is validated while options are not enforced; what is kept is the value that was
  given.  \<open>mk\<close> makes the information of the fields stored so far.\<close>

definition add_option :: "(value_class \<Rightarrow> value_info) \<Rightarrow> pyval \<Rightarrow> value_class \<Rightarrow> value_error + value_class" where
  "add_option mk v vc =
     bindE (validate (mk (vc\<lparr>vc_only := False\<rparr>)) v) (\<lambda>_. Inr (vc\<lparr>vc_options := vc_options vc @ [v]\<rparr>))"

fun add_options :: "(value_class \<Rightarrow> value_info) \<Rightarrow> pyval list \<Rightarrow> value_class \<Rightarrow> value_error + value_class" where
  "add_options mk [] vc = Inr vc"
| "add_options mk (v # vs) vc = bindE (add_option mk v vc) (add_options mk vs)"

definition set_default :: "(value_class \<Rightarrow> value_info) \<Rightarrow> pyval \<Rightarrow> value_class \<Rightarrow> value_error + value_class" where
  "set_default mk d vc = bindE (validate (mk vc) d) (\<lambda>d. Inr (vc\<lparr>vc_default := Some d\<rparr>))"

text \<open>\<open>Value.__init__\<close>: the options of the class, whether they are enforced, the default of the class (validated
  while the default is \<open>None\<close>), and the default given.\<close>

definition init_value ::
  "(value_class \<Rightarrow> value_info) \<Rightarrow> pyval list \<Rightarrow> bool \<Rightarrow> pyval option \<Rightarrow> pyval option \<Rightarrow> value_error + value_class" where
  "init_value mk options only class_default given =
     bindE (add_options mk options \<lparr>vc_default = None, vc_options = [], vc_only = False\<rparr>) (\<lambda>vc.
     let vc = vc\<lparr>vc_only := only\<rparr> in
     bindE (case class_default of None \<Rightarrow> Inr vc | Some d \<Rightarrow> set_default mk d (vc\<lparr>vc_default := Some PyNone\<rparr>)) (\<lambda>vc.
       case given of None \<Rightarrow> Inr vc | Some d \<Rightarrow> set_default mk d vc))"

text \<open>\<open>FixedValues(values, default)\<close>: the options are enforced by the class, and added after the default was
  validated.\<close>

definition fixed_values :: "pyval list \<Rightarrow> pyval option \<Rightarrow> value_error + value_info" where
  "fixed_values values given =
     bindE (init_value IPlain [] True None given) (\<lambda>vc. bindE (add_options IPlain values vc) (\<lambda>vc. Inr (IPlain vc)))"

definition boolean_value :: "pyval option \<Rightarrow> value_error + value_info" where
  "boolean_value given =
     bindE (init_value IBoolean [PyBool True, PyBool False] True None given) (\<lambda>vc. Inr (IBoolean vc))"

text \<open>\<open>Enum(enum, default)\<close>: the options are the names of the items.\<close>

definition enum_value_info :: "nat \<Rightarrow> enum_class \<Rightarrow> pyval option \<Rightarrow> value_error + value_info" where
  "enum_value_info cls e given =
     bindE (init_value (IEnum cls e) [] True None given) (\<lambda>vc.
     bindE (add_options (IEnum cls e) (map (PyUnicode \<circ> snd) (enum_values e)) vc) (\<lambda>vc. Inr (IEnum cls e vc)))"

section \<open>Actions\<close>

text \<open>A deferred is represented by its outcome; a failed one by its error.  An effect is given the value and the
  parameters, and may change the state of the model.\<close>

type_synonym 's effect = "pyval \<Rightarrow> (string \<times> pyval) list \<Rightarrow> 's \<Rightarrow> (value_error + pyval) \<times> 's"

record 's action =
  ac_params :: "(string \<times> value_info \<times> bool) list"
  ac_effects :: "'s effect list"
  ac_result :: "value_info option"
  ac_enabled :: "'s \<Rightarrow> value_error + bool"

definition action_fields :: "'s action \<Rightarrow> (string \<times> checker) list" where
  "action_fields a = last_fields (map (\<lambda>(n, i, r). (n, validate i, vc_default (info_class i), r)) (ac_params a))"

text \<open>The value given as an argument becomes the parameter \<open>value\<close>.\<close>

definition take_value :: "pyval list \<Rightarrow> (string \<times> pyval) list \<Rightarrow> value_error + (string \<times> pyval) list" where
  "take_value args kwargs =
     (case args of
        [] \<Rightarrow> Inr kwargs
      | a # _ \<Rightarrow> if 1 < length args \<or> dict_has kwargs ''value'' then Inl BadParameter
                 else Inr (AList.update ''value'' a kwargs))"

definition prepend_name :: "string \<Rightarrow> string list \<Rightarrow> string list" where
  "prepend_name n ns = map (\<lambda>m. n @ ''.'' @ m) ns"

fun action_check ::
  "(string \<times> checker) list \<Rightarrow> (string \<times> pyval) list \<Rightarrow> (string \<times> pyval) list \<Rightarrow> string list \<Rightarrow>
   value_error + (string \<times> pyval) list \<times> string list" where
  "action_check fs [] ok bad = Inr (ok, bad)"
| "action_check fs ((n, v) # d) ok bad =
     (case map_of fs n of
        None \<Rightarrow> Inl WrongType
      | Some (f, _, _) \<Rightarrow>
          (case f v of
             Inr w \<Rightarrow> action_check fs d (AList.update n w ok) bad
           | Inl BadValue \<Rightarrow> action_check fs d ok (bad @ [n])
           | Inl (Missing ns) \<Rightarrow> Inl (Missing (prepend_name n ns))
           | Inl (Unknown ns) \<Rightarrow> Inl (Unknown (prepend_name n ns))
           | Inl (Invalid ns) \<Rightarrow> action_check fs d ok (bad @ prepend_name n ns)
           | Inl e \<Rightarrow> Inl e))"

definition action_params :: "'s action \<Rightarrow> pyval list \<Rightarrow> (string \<times> pyval) list \<Rightarrow> value_error + (string \<times> pyval) list" where
  "action_params a args kwargs =
     (let fs = action_fields a in
      bindE (take_value args kwargs) (\<lambda>kwargs.
        if missing_names fs kwargs \<noteq> [] then Inl (Missing (missing_names fs kwargs))
        else if unknown_names fs kwargs \<noteq> [] then Inl (Unknown (unknown_names fs kwargs))
        else bindE (action_check fs kwargs [] []) (\<lambda>(ok, bad).
               if bad \<noteq> [] then Inl (Invalid bad) else Inr (fold fill_default fs ok))))"

text \<open>The chain of callbacks: an effect gets what the one before it returned; an error ends the chain.\<close>

fun run_effects :: "'s effect list \<Rightarrow> (string \<times> pyval) list \<Rightarrow> pyval \<Rightarrow> 's \<Rightarrow> (value_error + pyval) \<times> 's" where
  "run_effects [] ps v s = (Inr v, s)"
| "run_effects (f # fs) ps v s = (case f v ps s of (Inl e, s) \<Rightarrow> (Inl e, s) | (Inr w, s) \<Rightarrow> run_effects fs ps w s)"

definition perform ::
  "(nat \<Rightarrow> string \<Rightarrow> pyval option) \<Rightarrow> 's action \<Rightarrow> pyval list \<Rightarrow> (string \<times> pyval) list \<Rightarrow> 's \<Rightarrow> (value_error + pyval) \<times> 's" where
  "perform attr a args kwargs s =
     (case action_params a args kwargs of
        Inl e \<Rightarrow> (Inl e, s)
      | Inr ps \<Rightarrow>
          (case ac_enabled a s of
             Inl e \<Rightarrow> (Inl e, s)
           | Inr False \<Rightarrow> (Inl Disabled, s)
           | Inr True \<Rightarrow>
               (case run_effects (ac_effects a) (AList.delete ''value'' ps)
                       (case map_of ps ''value'' of None \<Rightarrow> PyNone | Some v \<Rightarrow> v) s of
                  (Inl e, s) \<Rightarrow> (Inl e, s)
                | (Inr v, s) \<Rightarrow>
                    (case ac_result a of
                       None \<Rightarrow> (Inr PyNone, s)
                     | Some i \<Rightarrow> (publish_value attr i v, s)))))"

end
