(* ===== verification/ValueProps.thy ===== *)
theory ValueProps
  imports Values
begin

text \<open>
  What value informations promise: a validated value has the type of its information, defaults and
  nested values included; a published value validates to the value it was published from; an action
  gives its effects typed parameters or does nothing.
\<close>

section \<open>Types\<close>

definition option_ok :: "value_class \<Rightarrow> pyval \<Rightarrow> bool" where
  "option_ok vc v \<longleftrightarrow> (vc_only vc \<longrightarrow> has_option vc v)"

definition is_item :: "nat \<Rightarrow> enum_class \<Rightarrow> pyval \<Rightarrow> bool" where
  "is_item cls e v = (case v of PyEnum c n \<Rightarrow> c = cls \<and> dict_has (enum_values e) n | _ \<Rightarrow> False)"

definition fields_ok :: "(string \<times> (pyval \<Rightarrow> bool) \<times> bool) list \<Rightarrow> (string \<times> pyval) list \<Rightarrow> bool" where
  "fields_ok fs d \<longleftrightarrow>
     set (map fst d) \<subseteq> set (map fst fs) \<and>
     (\<forall>(n, P, required) \<in> set fs. case map_of d n of None \<Rightarrow> \<not> required | Some x \<Rightarrow> P x)"

fun type_ok :: "value_info \<Rightarrow> pyval \<Rightarrow> bool" where
  "type_ok (IPlain vc) v = option_ok vc v"
| "type_ok (IString vc) v = (is_unicode v \<and> option_ok vc v)"
| "type_ok (IFloat vc) v = (is_float v \<and> option_ok vc v)"
| "type_ok (IInteger vc) v = (is_int v \<and> option_ok vc v)"
| "type_ok (IBoolean vc) v = is_bool v"
| "type_ok (IEnum cls e vc) v = is_item cls e v"
| "type_ok (IStructure vc fs) v =
     (case v of PyDict d \<Rightarrow> fields_ok (last_fields (map (\<lambda>(n, i, r). (n, type_ok i, r)) fs)) d | _ \<Rightarrow> False)"
| "type_ok (ICollection vc is lo hi) v =
     (case v of PyList vs \<Rightarrow> size_ok lo hi (length vs) \<and> (\<forall>v \<in> set vs. \<exists>i \<in> set is. type_ok i v) | _ \<Rightarrow> False)"

definition default_ok :: "value_info \<Rightarrow> bool" where
  "default_ok i \<longleftrightarrow> (case vc_default (info_class i) of None \<Rightarrow> True | Some d \<Rightarrow> type_ok i d)"

text \<open>The defaults of the fields of structures have the type of their field, at any depth; enumerations are as
  \<open>Enums\<close> makes them.\<close>

fun wf_info :: "value_info \<Rightarrow> bool" where
  "wf_info (IStructure vc fs) = (\<forall>(n, i, r) \<in> set fs. wf_info i \<and> default_ok i)"
| "wf_info (ICollection vc is lo hi) = (\<forall>i \<in> set is. wf_info i)"
| "wf_info (IEnum cls e vc) = enum_ok e"
| "wf_info _ = True"

section \<open>Fields\<close>

lemma names_map [simp]: "map fst (map (\<lambda>(n, x). (n, g x)) fs) = map fst fs"
  by (induction fs) auto

lemma last_fields_map: "last_fields (map (\<lambda>(n, x). (n, g x)) fs) = map (\<lambda>(n, x). (n, g x)) (last_fields fs)"
proof (induction fs)
  case (Cons f fs)
  obtain n x where "f = (n, x)" by (cases f)
  then show ?case using Cons names_map [of g fs] by (simp del: set_map list.map_comp map_map)
qed simp

lemma last_fields_names: "set (map fst (last_fields fs)) = set (map fst fs)"
proof (induction fs)
  case (Cons f fs)
  then show ?case by (cases f) auto
qed simp

lemma last_fields_sub: "set (last_fields fs) \<subseteq> set fs"
proof (induction fs)
  case (Cons f fs)
  then show ?case by (cases f) (auto split: if_splits)
qed simp

lemma last_fields_distinct: "distinct (map fst (last_fields fs))"
proof (induction fs)
  case (Cons f fs)
  then show ?case using last_fields_names [of fs] by (cases f) auto
qed simp

abbreviation checkers :: "(string \<times> value_info \<times> bool) list \<Rightarrow> (string \<times> checker) list" where
  "checkers fs \<equiv> map (\<lambda>(n, i, r). (n, validate i, vc_default (info_class i), r)) fs"

lemma checkers_last: "last_fields (checkers fs) = checkers (last_fields fs)"
proof -
  have "checkers fs = map (\<lambda>(n, x). (n, (\<lambda>(i, r). (validate i, vc_default (info_class i), r)) x)) fs" for fs
    by (rule map_cong) auto
  then show ?thesis by (simp only: last_fields_map)
qed

lemma types_last: "last_fields (map (\<lambda>(n, i, r). (n, type_ok i, r)) fs) = map (\<lambda>(n, i, r). (n, type_ok i, r)) (last_fields fs)"
proof -
  have e: "(\<lambda>(n, i, r). (n, type_ok i, r)) = (\<lambda>(n, x). (n, (\<lambda>(i, r). (type_ok i, r)) x))" by auto
  show ?thesis unfolding e by (rule last_fields_map)
qed

lemma checkers_look_up: "map_of (checkers fs) n = Some (f, d, r) \<Longrightarrow>
    \<exists>i. (n, i, r) \<in> set fs \<and> f = validate i \<and> d = vc_default (info_class i)"
  by (induction fs) (auto split: if_splits)

lemma checkers_names: "map fst (checkers fs) = map fst fs"
  by (induction fs) auto

lemma required_checkers: "set (required_names (checkers fs)) = {n. \<exists>i. (n, i, True) \<in> set fs}"
  by (force simp: required_names_def)

text \<open>What is collected so far: values of the right type for fields that exist.\<close>

definition typed_params :: "(string \<times> value_info \<times> bool) list \<Rightarrow> (string \<times> pyval) list \<Rightarrow> bool" where
  "typed_params fs ok \<longleftrightarrow> (\<forall>n x. map_of ok n = Some x \<longrightarrow> (\<exists>i r. (n, i, r) \<in> set fs \<and> type_ok i x))"

lemma typed_update:
  "typed_params fs ok \<Longrightarrow> (n, i, r) \<in> set fs \<Longrightarrow> type_ok i x \<Longrightarrow> typed_params fs (AList.update n x ok)"
  unfolding typed_params_def map_of_update by auto

lemma dict_has_update: "dict_has (AList.update n x d) m \<longleftrightarrow> m = n \<or> dict_has d m"
  by (auto simp: map_of_update)

lemma check_params_ok:
  assumes "\<And>n i r v w. (n, i, r) \<in> set fs \<Longrightarrow> validate i v = Inr w \<Longrightarrow> type_ok i w"
  shows "check_params (checkers fs) d ok bad = Inr (ok', bad') \<Longrightarrow> typed_params fs ok \<Longrightarrow>
    typed_params fs ok' \<and> set bad \<subseteq> set bad' \<and>
    (bad' = [] \<longrightarrow> (\<forall>n. dict_has ok n \<or> n \<in> set (map fst d) \<longrightarrow> dict_has ok' n))"
proof (induction "checkers fs" d ok bad arbitrary: ok' bad' rule: check_params.induct)
  case (2 n v d ok bad)
  then obtain f df r where f: "ascii_text n" "map_of (checkers fs) n = Some (f, df, r)"
    by (auto split: if_splits option.splits)
  from checkers_look_up [OF f(2)] obtain i where i: "(n, i, r) \<in> set fs" "f = validate i" by blast
  show ?case
  proof (cases "f v")
    case (Inr w)
    have t: "typed_params fs (AList.update n w ok)"
      by (rule typed_update [OF 2(4) i(1) assms [OF i(1)]]) (use Inr i in simp)
    have "check_params (checkers fs) d (AList.update n w ok) bad = Inr (ok', bad')"
      using 2(3) f Inr by simp
    from 2(2) [OF _ f(2) refl refl Inr this t] f(1) show ?thesis by (auto simp: dict_has_update simp del: not_None_eq)
  next
    case (Inl e)
    with 2 f have "e = BadValue" by (auto split: value_error.splits)
    with 2(1) [OF _ f(2) refl refl Inl] 2(3,4) f Inl show ?thesis by auto
  qed
qed auto

lemma fill_defaults_ok:
  assumes "\<forall>(n, i, r) \<in> set fs. default_ok i"
  shows "set hs \<subseteq> set fs \<Longrightarrow> typed_params fs ok \<Longrightarrow>
    typed_params fs (fold fill_default (checkers hs) ok) \<and>
    (\<forall>n. dict_has ok n \<longrightarrow> dict_has (fold fill_default (checkers hs) ok) n)"
proof (induction hs arbitrary: ok)
  case (Cons h hs)
  obtain n i r where h: "h = (n, i, r)" by (cases h)
  let ?ok = "fill_default (n, validate i, vc_default (info_class i), r) ok"
  have mem: "(n, i, r) \<in> set fs" using Cons.prems h by auto
  then have "default_ok i" using assms by auto
  then have t: "typed_params fs ?ok"
    using Cons.prems(2) typed_update [OF Cons.prems(2) mem] by (auto simp: fill_default_def default_ok_def split: option.splits)
  have k: "dict_has ?ok m" if "dict_has ok m" for m
    using that unfolding fill_default_def by (auto simp: dict_has_update split: option.split simp del: not_None_eq)
  have "set hs \<subseteq> set fs" using Cons.prems(1) by simp
  from Cons.IH [OF this t] k show ?case unfolding h list.map fold_simps case_prod_conv by blast
qed simp

lemma typed_fields:
  assumes "typed_params fs ok" and "distinct (map fst fs)" and "\<forall>n. (\<exists>i. (n, i, True) \<in> set fs) \<longrightarrow> dict_has ok n"
  shows "fields_ok (map (\<lambda>(n, i, r). (n, type_ok i, r)) fs) ok"
  unfolding fields_ok_def
proof (intro conjI ballI)
  show "set (map fst ok) \<subseteq> set (map fst (map (\<lambda>(n, i, r). (n, type_ok i, r)) fs))"
  proof
    fix n assume "n \<in> set (map fst ok)"
    then obtain x where "map_of ok n = Some x" by (metis domD domIff dom_map_of_conv_image_fst set_map)
    then obtain i r where "(n, i, r) \<in> set fs" using assms(1) unfolding typed_params_def by blast
    then show "n \<in> set (map fst (map (\<lambda>(n, i, r). (n, type_ok i, r)) fs))" by force
  qed
  fix f assume "f \<in> set (map (\<lambda>(n, i, r). (n, type_ok i, r)) fs)"
  then obtain n i r where f: "f = (n, type_ok i, r)" "(n, i, r) \<in> set fs" by auto
  show "case f of (n, P, required) \<Rightarrow> case map_of ok n of None \<Rightarrow> \<not> required | Some x \<Rightarrow> P x"
  proof (cases "map_of ok n")
    case None
    then have "\<not> r" using f(2) assms(3) by (cases r) auto
    with None show ?thesis by (simp add: f)
  next
    case (Some x)
    then obtain i' r' where "(n, i', r') \<in> set fs" "type_ok i' x" using assms(1) unfolding typed_params_def by blast
    with f(2) assms(2) have "type_ok i x" by (metis eq_key_imp_eq_value fst_conv)
    with Some show ?thesis by (simp add: f)
  qed
qed

lemma structure_typed:
  assumes "\<And>n i r v w. (n, i, r) \<in> set fs \<Longrightarrow> validate i v = Inr w \<Longrightarrow> type_ok i w"
    and "\<forall>(n, i, r) \<in> set fs. default_ok i" and "distinct (map fst fs)"
    and "structure_validate (checkers fs) v = Inr w"
  shows "\<exists>d. w = PyDict d \<and> fields_ok (map (\<lambda>(n, i, r). (n, type_ok i, r)) fs) d"
proof -
  obtain d ok where d: "v = PyDict d" "missing_names (checkers fs) d = []"
    "check_params (checkers fs) d [] [] = Inr (ok, [])" "w = PyDict (fold fill_default (checkers fs) ok)"
    using assms(4) by (auto simp: structure_validate_def bindE_Inr_iff split: pyval.splits if_splits)
  have "typed_params fs []" by (simp add: typed_params_def)
  then have "typed_params fs ok \<and> set [] \<subseteq> set ([] :: string list) \<and>
      ([] = ([] :: string list) \<longrightarrow> (\<forall>n. dict_has ([] :: (string \<times> pyval) list) n \<or> n \<in> set (map fst d) \<longrightarrow> dict_has ok n))"
    by (intro check_params_ok [OF _ d(3)]) (use assms(1) in blast)
  then have t: "typed_params fs ok" "\<forall>n. n \<in> set (map fst d) \<longrightarrow> dict_has ok n" by blast+
  from fill_defaults_ok [OF assms(2) order.refl t(1)]
  have f: "typed_params fs (fold fill_default (checkers fs) ok)"
    "\<forall>n. dict_has ok n \<longrightarrow> dict_has (fold fill_default (checkers fs) ok) n" by blast+
  have "\<forall>n. (\<exists>i. (n, i, True) \<in> set fs) \<longrightarrow> n \<in> set (map fst d)"
    using d(2) required_checkers [of fs] unfolding missing_names_def filter_empty_conv by blast
  with t(2) f(2) have "\<forall>n. (\<exists>i. (n, i, True) \<in> set fs) \<longrightarrow> dict_has (fold fill_default (checkers fs) ok) n" by blast
  from typed_fields [OF f(1) assms(3) this] d(4) show ?thesis by blast
qed

section \<open>Validated values are typed\<close>

lemma value_validate_option: "value_validate vc v = Inr w \<Longrightarrow> option_ok vc w"
  by (auto simp: value_validate_def option_ok_def Let_def split: if_splits)

lemma checked: "check_type P v = Inr w \<Longrightarrow> w = v \<and> P v"
  by (simp add: check_type_def split: if_splits)

lemma first_allowed_Inr: "first_allowed fs v = Inr w \<Longrightarrow> \<exists>f \<in> set fs. f v = Inr w"
  by (induction fs v rule: first_allowed.induct) (auto split: sum.splits value_error.splits)

lemma convert_all_Inr: "convert_all fs vs = Inr ws \<Longrightarrow> length ws = length vs \<and> (\<forall>w \<in> set ws. \<exists>v. \<exists>f \<in> set fs. f v = Inr w)"
proof (induction fs vs arbitrary: ws rule: convert_all.induct)
  case (2 fs v vs)
  then obtain x xs where x: "first_allowed fs v = Inr x" "convert_all fs vs = Inr xs" "ws = x # xs"
    by (auto simp: bindE_Inr_iff)
  with 2(1) [OF x(2)] first_allowed_Inr [OF x(1)] show ?case by auto
qed simp

lemma enum_item_known: "enum_ok e \<Longrightarrow> enum_item e k = Inr n \<Longrightarrow> dict_has (enum_values e) n"
  unfolding enum_item_def enum_get_def enum_contains_def enum_ok_def
  by (auto split: sum.splits bool.splits enum_key.splits option.splits simp del: map_of_eq_Some_iff)

lemma enum_validate_item: "enum_ok e \<Longrightarrow> enum_validate cls e vc v = Inr w \<Longrightarrow> is_item cls e w"
  by (auto simp: enum_validate_def is_item_def bindE_Inr_iff split: option.splits dest: enum_item_known)

text \<open>C14: What a value information validates has its type: the Python type, one of the options where they are
  enforced, all required fields and only known ones with values of their types, and a size and elements
  that the collection allows; defaults that are filled in included.\<close>

theorem values_are_typed: "wf_info i \<Longrightarrow> validate i v = Inr w \<Longrightarrow> type_ok i w"
proof (induction i v arbitrary: w rule: validate.induct)
  case (1 vc v)
  then show ?case using value_validate_option by simp
next
  case (2 vc v)
  then show ?case by (auto simp: string_convert_def bindE_Inr_iff dest!: checked dest: value_validate_option)
next
  case (3 vc v)
  then show ?case by (auto simp: float_validate_def bindE_Inr_iff dest!: checked dest: value_validate_option)
next
  case (4 vc v)
  then show ?case by (auto simp: integer_validate_def bindE_Inr_iff dest!: checked dest: value_validate_option)
next
  case (5 vc v)
  then show ?case by (auto simp: boolean_validate_def bindE_Inr_iff split: if_splits dest!: checked)
next
  case (6 cls e vc v)
  then show ?case using enum_validate_item by simp
next
  case (7 vc fs v)
  let ?F = "last_fields fs"
  have wf: "wf_info i \<and> default_ok i" if "(n, i, r) \<in> set ?F" for n i r
    using 7(2) that last_fields_sub [of fs] by auto
  have v: "type_ok i w" if "(n, i, r) \<in> set ?F" "validate i v = Inr w" for n i r v w
    using 7(1) [of "(n, i, r)" n "(i, r)" i r v w] that wf [OF that(1)] last_fields_sub [of fs] by auto
  have d: "\<forall>(n, i, r) \<in> set ?F. default_ok i" using wf by blast
  have "structure_validate (checkers ?F) v = Inr w" using 7(3) by (simp add: checkers_last)
  then have "\<exists>d. w = PyDict d \<and> fields_ok (map (\<lambda>(n, i, r). (n, type_ok i, r)) ?F) d"
    by (intro structure_typed [OF _ d last_fields_distinct]) (use v in blast)+
  then show ?case by (auto simp: types_last)
next
  case (8 vc "is" lo hi v)
  then obtain vs ws where vs: "size_ok lo hi (length vs)" "convert_all (map validate is) vs = Inr ws" "w = PyList ws"
    by (auto simp: collection_convert_def split: option.splits if_splits sum.splits) (metis map_sum.simps sum.exhaust Inl_Inr_False sum.inject(2))
  note c = convert_all_Inr [OF vs(2)]
  have "\<exists>i \<in> set is. type_ok i x" if "x \<in> set ws" for x
    using c that 8(1,2) by fastforce
  then show ?case using vs c by simp
qed

section \<open>Defaults\<close>

text \<open>The kinds of value whose type does not depend on the default.\<close>

definition kind_of :: "(value_class \<Rightarrow> value_info) \<Rightarrow> bool" where
  "kind_of mk \<longleftrightarrow>
     (\<forall>vc. info_class (mk vc) = vc \<and> (\<forall>d v. type_ok (mk (vc\<lparr>vc_default := d\<rparr>)) v = type_ok (mk vc) v) \<and>
        (\<forall>vc'. wf_info (mk vc) = wf_info (mk vc')))"

lemma kinds:
  "kind_of IPlain" "kind_of IString" "kind_of IFloat" "kind_of IInteger" "kind_of IBoolean" "kind_of (IEnum cls e)"
  "kind_of (\<lambda>vc. IStructure vc fs)" "kind_of (\<lambda>vc. ICollection vc is lo hi)"
  by (simp_all add: kind_of_def option_ok_def has_option_def)

lemma add_options_default: "add_options mk vs vc = Inr vc' \<Longrightarrow> vc_default vc' = vc_default vc"
  by (induction mk vs vc rule: add_options.induct) (auto simp: bindE_Inr_iff add_option_def)

lemma set_default_ok:
  assumes "kind_of mk" and "wf_info (mk vc0)" and "set_default mk d vc = Inr vc'"
  shows "default_ok (mk vc')"
proof -
  obtain x where x: "validate (mk vc) d = Inr x" "vc' = vc\<lparr>vc_default := Some x\<rparr>"
    using assms(3) by (auto simp: set_default_def bindE_Inr_iff)
  have "wf_info (mk vc)" using assms(1,2) unfolding kind_of_def by blast
  from values_are_typed [OF this x(1)] show ?thesis
    using assms(1) unfolding kind_of_def default_ok_def x(2) by simp
qed

text \<open>The default a constructor has stored has the type of the information.\<close>

lemma init_value_default_ok:
  assumes "kind_of mk" and "wf_info (mk vc0)" and "init_value mk options only cd given = Inr vc"
  shows "default_ok (mk vc)"
proof -
  let ?vc = "\<lparr>vc_default = None, vc_options = [], vc_only = False\<rparr>"
  obtain vc1 vc2 where 1: "add_options mk options ?vc = Inr vc1"
    and 2: "(case cd of None \<Rightarrow> Inr (vc1\<lparr>vc_only := only\<rparr>)
      | Some d \<Rightarrow> set_default mk d (vc1\<lparr>vc_only := only, vc_default := Some PyNone\<rparr>)) = Inr vc2"
    and 3: "(case given of None \<Rightarrow> Inr vc2 | Some d \<Rightarrow> set_default mk d vc2) = Inr vc"
    using assms(3) by (auto simp: init_value_def bindE_Inr_iff Let_def)
  have d2: "default_ok (mk vc2)"
  proof (cases cd)
    case None
    have i: "info_class (mk vc2) = vc2" using assms(1) by (simp add: kind_of_def)
    have "vc_default vc2 = None" using 2 None add_options_default [OF 1] by auto
    then show ?thesis by (simp add: default_ok_def i)
  next
    case (Some d)
    then show ?thesis using 2 set_default_ok [OF assms(1,2)] by simp
  qed
  then show ?thesis using 3 set_default_ok [OF assms(1,2)] by (cases given) auto
qed

text \<open>\<open>FixedValues\<close> cannot have a default: it is validated before the options it would have to be one of are
  added, and the constructor always raises \<open>ValueError\<close>.\<close>

theorem fixed_values_take_no_default: "fixed_values values (Some d) = Inl BadValue"
  by (simp add: fixed_values_def init_value_def set_default_def value_validate_def has_option_def Let_def)

section \<open>Publishing and validating again\<close>

text \<open>The informations for which a published value is unambiguous: enumerations without two items of a name,
  collections of one type.\<close>

fun regular :: "value_info \<Rightarrow> bool" where
  "regular (IBoolean vc) = (vc_only vc \<longrightarrow> has_option vc (PyBool True) \<and> has_option vc (PyBool False))"
| "regular (IEnum cls e vc) = (enum_ok e \<and> (\<forall>n s. map_of (enum_values e) n = Some s \<longrightarrow> map_of (enum_names e) s = Some n))"
| "regular (IStructure vc fs) = False"
| "regular (ICollection vc is lo hi) = (case is of [i] \<Rightarrow> regular i | _ \<Rightarrow> False)"
| "regular _ = True"

lemma value_validate_again: "value_validate vc v = Inr w \<Longrightarrow> value_validate vc w = Inr w"
  by (auto simp: value_validate_def base_validate_def Let_def split: if_splits pyval.splits option.splits)

lemma decode_unicode: "is_unicode w \<Longrightarrow> decode w = Inr w"
  by (cases w) (auto simp: is_unicode_def decode_def)

lemma to_float_float: "is_float w \<Longrightarrow> to_float w = Inr w \<and> \<not> is_int w"
  by (cases w) (auto simp: is_float_def to_float_def is_int_def)

lemma to_int_int: "is_int w \<Longrightarrow> to_int w = Inr w \<and> (case w of PyFloat x \<Rightarrow> PyInt (py_trunc x) | _ \<Rightarrow> w) = w"
  by (cases w) (auto simp: is_int_def to_int_def)

lemma boolean_again:
  assumes "regular (IBoolean vc)" and "is_bool w"
  shows "boolean_publish vc w = Inr w" "boolean_validate vc w = Inr w"
proof -
  obtain b where b: "w = PyBool b" using assms(2) by (cases w) (auto simp: is_bool_def)
  then show "boolean_publish vc w = Inr w"
    using assms(1) by (cases b) (auto simp: boolean_publish_def value_validate_def base_validate_def check_type_def is_bool_def)
  show "boolean_validate vc w = Inr w" using assms(2) by (simp add: boolean_validate_def)
qed

lemma enum_again:
  assumes "regular (IEnum cls e vc)" and "is_item cls e w"
  shows "\<exists>p. enum_publish cls e vc w = Inr p \<and> enum_validate cls e vc p = Inr w"
proof -
  obtain n s where w: "w = PyEnum cls n" "map_of (enum_values e) n = Some s"
    using assms(2) by (auto simp: is_item_def split: pyval.splits)
  then have s: "map_of (enum_names e) s = Some n" using assms(1) unfolding regular.simps by blast
  have "enum_publish cls e vc w = Inr (PyUnicode s)"
    by (simp add: enum_publish_def enum_key_of_def base_validate_def enum_item_def enum_contains_def enum_get_def
        enum_name_def w del: map_of_eq_Some_iff)
  moreover have "enum_validate cls e vc (PyUnicode s) = Inr w"
    by (simp add: enum_validate_def enum_key_of_def base_validate_def enum_item_def enum_contains_def enum_get_def
        w(1) s del: map_of_eq_Some_iff)
  ultimately show ?thesis by blast
qed

lemma first_of_one: "first_allowed [f] v = Inr w \<longleftrightarrow> f v = Inr w"
  by (auto split: sum.splits value_error.splits)

lemma convert_one: "convert_all [f] vs = Inr ws \<longleftrightarrow> list_all2 (\<lambda>v w. f v = Inr w) vs ws"
proof (induction vs arbitrary: ws)
  case (Cons v vs)
  show ?case
    using Cons.IH by (cases ws) (auto simp: bindE_Inr_iff first_of_one simp del: first_allowed.simps)
qed auto

lemma collection_one:
  "collection_convert [f] lo hi v = Inr w \<longleftrightarrow>
    (\<exists>vs ws. elements v = Some vs \<and> size_ok lo hi (length vs) \<and> list_all2 (\<lambda>v w. f v = Inr w) vs ws \<and> w = PyList ws)"
  unfolding convert_one [symmetric] collection_convert_def
  by (cases "elements v"; cases "convert_all [f] (the (elements v))") auto

text \<open>C33: A value that was validated by a description of a single value (a plain value, a string, a number, a
  boolean whose options, if enforced, have both values, an enumeration without synonyms) or of a
  collection with one such description for its elements, at any depth, can be published, and what is
  published validates to the same value.  Structures and collections of several types are left out: of a
  string and an enumeration, say, a published member is read back as the string.\<close>

theorem published_value_validates:
  "regular i \<Longrightarrow> validate i v = Inr w \<Longrightarrow> \<exists>p. publish_value attr i w = Inr p \<and> validate i p = Inr w"
proof (induction i v arbitrary: w rule: validate.induct)
  case (1 vc v)
  then show ?case using value_validate_again by auto
next
  case (2 vc v)
  then obtain u where u: "value_validate vc u = Inr w" "is_unicode w"
    by (auto simp: string_convert_def bindE_Inr_iff dest!: checked)
  then have "string_convert vc w = Inr w"
    using value_validate_again [OF u(1)] decode_unicode [OF u(2)] by (simp add: string_convert_def check_type_def)
  then show ?case by auto
next
  case (3 vc v)
  then obtain u where u: "value_validate vc u = Inr w" "is_float w"
    by (auto simp: float_validate_def bindE_Inr_iff dest!: checked)
  then show ?case
    using value_validate_again [OF u(1)] to_float_float [OF u(2)]
    by (auto simp: float_validate_def float_publish_def check_type_def)
next
  case (4 vc v)
  then obtain u where u: "value_validate vc u = Inr w" "is_int w"
    by (auto simp: integer_validate_def bindE_Inr_iff dest!: checked)
  then show ?case
    using value_validate_again [OF u(1)] to_int_int [OF u(2)]
    by (auto simp: integer_validate_def integer_publish_def check_type_def)
next
  case (5 vc v)
  then have "is_bool w" by (auto simp: boolean_validate_def bindE_Inr_iff split: if_splits dest!: checked)
  then show ?case using boolean_again [OF 5(1)] by auto
next
  case (6 cls e vc v)
  then have "is_item cls e w" using enum_validate_item by auto
  then show ?case using enum_again [OF 6(1)] by simp
next
  case (7 vc fs v)
  then show ?case by simp
next
  case (8 vc "is" lo hi v)
  then obtain i where i: "is = [i]" "regular i" by (auto split: list.splits)
  then obtain vs ws where vs: "size_ok lo hi (length vs)" "list_all2 (\<lambda>v w. validate i v = Inr w) vs ws" "w = PyList ws"
    using 8(3) unfolding i(1) validate.simps list.map collection_one by blast
  have "\<exists>ps. list_all2 (\<lambda>w p. publish_value attr i w = Inr p \<and> validate i p = Inr w) ws ps"
    using vs(2)
  proof (induction rule: list_all2_induct)
    case (Cons x xs y ys)
    obtain p where "publish_value attr i y = Inr p \<and> validate i p = Inr y"
      using 8(1) [of i x y] i Cons(1) by auto
    moreover obtain ps where "list_all2 (\<lambda>w p. publish_value attr i w = Inr p \<and> validate i p = Inr w) ys ps"
      using Cons(3) by blast
    ultimately show ?case by (intro exI [of _ "p # ps"]) simp
  qed (use list_all2_Nil in blast)
  then obtain ps where ps: "list_all2 (\<lambda>w p. publish_value attr i w = Inr p \<and> validate i p = Inr w) ws ps" by blast
  have l: "length ws = length vs" "length ps = length vs"
    using list_all2_lengthD [OF vs(2)] list_all2_lengthD [OF ps] by simp_all
  have "list_all2 (\<lambda>w p. publish_value attr i w = Inr p) ws ps" "list_all2 (\<lambda>p w. validate i p = Inr w) ps ws"
    using ps by (auto simp: list_all2_conv_all_nth)
  then have "collection_convert [publish_value attr i] lo hi w = Inr (PyList ps)"
    "collection_convert [validate i] lo hi (PyList ps) = Inr w"
    unfolding collection_one vs(3) using vs(1) l by (auto simp: elements_def)
  then show ?case by (simp add: i)
qed

section \<open>Actions\<close>

lemma check_params_invalid:
  "check_params fs d ok bad = Inl (Invalid ns) \<Longrightarrow> \<exists>n f df r v. map_of fs n = Some (f, df, r) \<and> f v = Inl (Invalid ns)"
proof (induction fs d ok bad rule: check_params.induct)
  case (2 fs n v d ok bad)
  then obtain f df r where f: "ascii_text n" "map_of fs n = Some (f, df, r)" by (auto split: if_splits option.splits)
  show ?case
  proof (cases "f v = Inl (Invalid ns)")
    case False
    with 2 f show ?thesis by (auto split: sum.splits value_error.splits)
  qed (use f in blast)
qed simp

lemma convert_all_valid: "convert_all fs vs \<noteq> Inl (Invalid ns)"
proof -
  have "first_allowed fs v \<noteq> Inl (Invalid ns)" for v
    by (induction fs v rule: first_allowed.induct) (auto split: sum.splits value_error.splits)
  then show ?thesis
    by (induction fs vs rule: convert_all.induct) (auto simp: bindE_def split: sum.splits)
qed

lemma invalid_names: "validate i v = Inl (Invalid ns) \<Longrightarrow> ns \<noteq> []"
proof (induction i v arbitrary: ns rule: validate.induct)
  case (7 vc fs v)
  then consider "ns \<noteq> []" | d where "check_params (checkers (last_fields fs)) d [] [] = Inl (Invalid ns)"
    by (auto simp: structure_validate_def bindE_def checkers_last split: pyval.splits if_splits sum.splits prod.splits)
  then show ?case
  proof cases
    case 2
    then obtain n f df r v where "map_of (checkers (last_fields fs)) n = Some (f, df, r)" "f v = Inl (Invalid ns)"
      using check_params_invalid by blast
    with checkers_look_up obtain i where "(n, i, r) \<in> set (last_fields fs)" "validate i v = Inl (Invalid ns)" by blast
    then show ?thesis using 7(1) [of "(n, i, r)" n "(i, r)" i r v ns] last_fields_sub [of fs] by auto
  qed
next
  case (8 vc "is" lo hi v)
  then show ?case using convert_all_valid [of "map validate is"]
    by (auto simp: collection_convert_def split: option.splits if_splits) (metis Inl_Inr_False id_apply map_sum.simps sum.exhaust sum.inject(1))
qed (auto simp: value_validate_def string_convert_def float_validate_def integer_validate_def boolean_validate_def
    enum_validate_def enum_item_def decode_def to_float_def to_int_def to_bool_def check_type_def bindE_def Let_def
    split: if_splits sum.splits option.splits pyval.splits bool.splits)

lemma action_check_ok:
  assumes "\<And>n i r v w. (n, i, r) \<in> set fs \<Longrightarrow> validate i v = Inr w \<Longrightarrow> type_ok i w"
  shows "action_check (checkers fs) d ok bad = Inr (ok', bad') \<Longrightarrow> typed_params fs ok \<Longrightarrow>
    typed_params fs ok' \<and> set bad \<subseteq> set bad' \<and>
    (bad' = [] \<longrightarrow> (\<forall>n. dict_has ok n \<or> n \<in> set (map fst d) \<longrightarrow> dict_has ok' n))"
proof (induction d arbitrary: ok bad)
  case (Cons nv d)
  obtain n v where nv: "nv = (n, v)" by (cases nv)
  obtain f df r where f: "map_of (checkers fs) n = Some (f, df, r)"
    using Cons.prems(1) nv by (auto split: option.splits)
  from checkers_look_up [OF f] obtain i where i: "(n, i, r) \<in> set fs" "f = validate i" by blast
  show ?case
  proof (cases "f v")
    case (Inr w)
    have t: "typed_params fs (AList.update n w ok)"
      by (rule typed_update [OF Cons.prems(2) i(1) assms [OF i(1)]]) (use Inr i in simp)
    have "action_check (checkers fs) d (AList.update n w ok) bad = Inr (ok', bad')"
      using Cons.prems(1) f Inr nv by simp
    from Cons.IH [OF this t] show ?thesis by (auto simp: nv dict_has_update simp del: not_None_eq)
  next
    case (Inl e)
    have "\<exists>ns. ns \<noteq> [] \<and> action_check (checkers fs) d ok (bad @ ns) = Inr (ok', bad')"
    proof (cases e)
      case (Invalid ns)
      then have "ns \<noteq> []" using Inl i invalid_names by simp
      then show ?thesis using Cons.prems(1) f Inl nv Invalid by (intro exI [of _ "prepend_name n ns"]) (simp add: prepend_name_def)
    qed (use Cons.prems(1) f Inl nv in \<open>auto intro: exI [of _ "[n]"]\<close>)
    then obtain ns where "ns \<noteq> []" "action_check (checkers fs) d ok (bad @ ns) = Inr (ok', bad')" by blast
    with Cons.IH [OF this(2) Cons.prems(2)] show ?thesis by auto
  qed
qed auto

definition action_ok :: "'s action \<Rightarrow> bool" where
  "action_ok a \<longleftrightarrow> (\<forall>(n, i, r) \<in> set (ac_params a). wf_info i \<and> default_ok i)"

lemma action_params_typed:
  assumes "action_ok a" and "action_params a args kwargs = Inr ps"
  shows "fields_ok (map (\<lambda>(n, i, r). (n, type_ok i, r)) (last_fields (ac_params a))) ps"
proof -
  let ?F = "last_fields (ac_params a)"
  obtain d ok where d: "missing_names (checkers ?F) d = []" "action_check (checkers ?F) d [] [] = Inr (ok, [])"
    "ps = fold fill_default (checkers ?F) ok"
    using assms(2) by (auto simp: action_params_def action_fields_def checkers_last bindE_Inr_iff Let_def split: if_splits)
  have wf: "wf_info i \<and> default_ok i" if "(n, i, r) \<in> set ?F" for n i r
    using assms(1) that last_fields_sub [of "ac_params a"] by (auto simp: action_ok_def)
  then have ty: "type_ok i w" if "(n, i, r) \<in> set ?F" "validate i v = Inr w" for n i r v w
    using values_are_typed that by blast
  have "typed_params ?F []" by (simp add: typed_params_def)
  then have "typed_params ?F ok \<and> set [] \<subseteq> set ([] :: string list) \<and>
      ([] = ([] :: string list) \<longrightarrow> (\<forall>n. dict_has ([] :: (string \<times> pyval) list) n \<or> n \<in> set (map fst d) \<longrightarrow> dict_has ok n))"
    by (intro action_check_ok [OF _ d(2)]) (use ty in blast)
  then have t: "typed_params ?F ok" "\<forall>n. n \<in> set (map fst d) \<longrightarrow> dict_has ok n" by blast+
  have df: "\<forall>(n, i, r) \<in> set ?F. default_ok i" using wf by blast
  note f = fill_defaults_ok [OF df order.refl t(1)]
  have "\<forall>n. (\<exists>i. (n, i, True) \<in> set ?F) \<longrightarrow> n \<in> set (map fst d)"
    using d(1) required_checkers [of ?F] unfolding missing_names_def filter_empty_conv by blast
  with t(2) f have "\<forall>n. (\<exists>i. (n, i, True) \<in> set ?F) \<longrightarrow> dict_has (fold fill_default (checkers ?F) ok) n" by blast
  from typed_fields [OF conjunct1 [OF f] last_fields_distinct this] show ?thesis by (simp add: d(3))
qed

text \<open>C34: Performing an action either leaves the model as it was, or runs its effects on parameters that are all
  there and have the types of the action, while the action was enabled.\<close>

theorem effects_get_typed_params:
  assumes "action_ok a" and "perform attr a args kwargs s = (r, s')" and "s' \<noteq> s"
  shows "ac_enabled a s = Inr True \<and>
    (\<exists>ps. fields_ok (map (\<lambda>(n, i, r). (n, type_ok i, r)) (last_fields (ac_params a))) ps \<and>
       s' = snd (run_effects (ac_effects a) (AList.delete ''value'' ps)
         (case map_of ps ''value'' of None \<Rightarrow> PyNone | Some v \<Rightarrow> v) s))"
proof (cases "action_params a args kwargs")
  case (Inr ps)
  have e: "ac_enabled a s = Inr True" using assms(2,3) Inr by (auto simp: perform_def split: sum.splits bool.splits)
  then have "s' = snd (run_effects (ac_effects a) (AList.delete ''value'' ps)
         (case map_of ps ''value'' of None \<Rightarrow> PyNone | Some v \<Rightarrow> v) s)"
    using assms(2) Inr by (auto simp: perform_def split: sum.splits prod.splits option.splits)
  with e action_params_typed [OF assms(1) Inr] show ?thesis by blast
qed (use assms in \<open>simp add: perform_def\<close>)

section \<open>Witnesses\<close>

definition plain_class :: value_class where
  "plain_class = \<lparr>vc_default = None, vc_options = [], vc_only = False\<rparr>"

definition order_info :: value_info where
  "order_info = IStructure plain_class
     [(''count'', IInteger plain_class, True), (''price'', IFloat (plain_class\<lparr>vc_default := Some (PyFloat (1 / 2))\<rparr>), False)]"

theorem values_are_typed_witness:
  "type_ok order_info (PyDict [(''count'', PyInt 3), (''price'', PyFloat (1 / 2))])"
proof -
  have "wf_info order_info" by (simp add: order_info_def default_ok_def option_ok_def plain_class_def is_float_def)
  moreover have "validate order_info (PyDict [(''count'', PyStr ''3'')]) =
      Inr (PyDict [(''count'', PyInt 3), (''price'', PyFloat (1 / 2))])" by code_simp
  ultimately show ?thesis by (rule values_are_typed)
qed

definition numbers_info :: value_info where
  "numbers_info = ICollection plain_class [IInteger plain_class] (Some 1) (Some 4)"

theorem published_value_validates_witness:
  "\<exists>p. publish_value (\<lambda>_ _. None) numbers_info (PyList [PyInt 3, PyInt 2]) = Inr p \<and>
     validate numbers_info p = Inr (PyList [PyInt 3, PyInt 2])"
proof -
  have "regular numbers_info" by (simp add: numbers_info_def)
  moreover have "validate numbers_info (PyList [PyStr ''3'', PyFloat (5 / 2)]) = Inr (PyList [PyInt 3, PyInt 2])"
    by code_simp
  ultimately show ?thesis by (rule published_value_validates)
qed

text \<open>An action that adds its value to a counter\<close>

definition add_effect :: "int effect" where
  "add_effect v ps s = (case v of PyInt n \<Rightarrow> (Inr (PyInt (s + n)), s + n) | _ \<Rightarrow> (Inl BadValue, s))"

definition add_action :: "int action" where
  "add_action = \<lparr>ac_params = [(''value'', IInteger plain_class, True)], ac_effects = [add_effect],
     ac_result = Some (IInteger plain_class), ac_enabled = (\<lambda>s. Inr (s < 10))\<rparr>"

theorem effects_get_typed_params_witness:
  "ac_enabled add_action 4 = Inr True \<and>
    (\<exists>ps. fields_ok (map (\<lambda>(n, i, r). (n, type_ok i, r)) (last_fields (ac_params add_action))) ps \<and>
       7 = snd (run_effects (ac_effects add_action) (AList.delete ''value'' ps)
         (case map_of ps ''value'' of None \<Rightarrow> PyNone | Some v \<Rightarrow> v) 4))"
proof -
  have "action_ok add_action" by (simp add: action_ok_def add_action_def default_ok_def plain_class_def)
  moreover have "perform (\<lambda>_ _. None) add_action [PyStr ''3''] [] 4 = (Inr (PyInt 7), 7)" by code_simp
  moreover have "(7 :: int) \<noteq> 4" by simp
  ultimately show ?thesis by (rule effects_get_typed_params)
qed

end
