(* ===== verification/Spec2Isabelle.thy ===== *)
theory Spec2Isabelle
  imports ExpQueue MroData ResourceCalls Offline Contracts Procedure QueryProps RoutingProps ChannelProps Rabbit RoundTrip RequestProps
    HttpProps UrlProps ServerProps ValueProps
begin

text \<open>
  A verification development for the core of feat, a framework for distributed agents written in
  Python 2 (sources under \<open>src/src/feat\<close>).

  \<^bold>\<open>The program.\<close>  An \<^emph>\<open>agency\<close> hosts \<^emph>\<open>agents\<close> and gives each a \<^emph>\<open>medium\<close>.  Agents talk by
  protocols: a manager announces a contract, contractors bid, the manager grants, the contractors
  report; or a requester sends a request and a replier answers.  For every protocol run the agency
  keeps a medium of its own, a state machine driven by messages, by calls of the agent and by
  timeouts.  Messages travel over channels, through a routing table, to local endpoints or to a
  message broker.  A message that arrives finds its medium, or an \<^emph>\<open>interest\<close> that starts one, perhaps
  after waiting in an expiring queue.  The descriptor of an agent is a document in CouchDB; what an
  agent has allocated of its resources is kept there and in an expiring dictionary.  The monitor
  agent watches others: intensive care measures the silence of its patients, the clerk decides by
  location whom to report as dead.  State goes between machines and into journals in serialized
  form.

  \<^bold>\<open>Which theory models what.\<close>

  \<^item> \<open>Prelude\<close>, \<open>Strings\<close>: exceptions, dictionaries, rounding, Python strings.
  \<^item> Expiration containers, \<open>common/container.py\<close>: \<open>Exp\<close> (\<open>ExpItem\<close>, \<open>RunningAverage\<close>, \<open>ExpDict\<close>),
    \<open>Heapq\<close> (the library module), \<open>ExpQueue\<close>; \<open>MroData\<close> has the class data that follow the order of
    resolution, and \<open>AsyncDict\<close>.
  \<^item> Contract protocol, \<open>agencies/common.py\<close>, \<open>agencies/contracts.py\<close>, \<open>agencies/message.py\<close>,
    \<open>agencies/recipient.py\<close>: \<open>StateMachine\<close> and \<open>Procedure\<close> (building blocks), \<open>Messages\<close>, \<open>Middle\<close>
    (\<open>AgencyMiddleBase\<close>), \<open>Contractor\<close>, \<open>Manager\<close>; \<open>MiddleProps\<close>, \<open>ContractorSafety\<close>, \<open>ManagerProps\<close> and
    \<open>Contracts\<close> hold what is proved.
  \<^item> Request protocol, \<open>agencies/requests.py\<close>: \<open>Requests\<close> (\<open>AgencyRequester\<close> and \<open>AgencyReplier\<close>, over
    \<open>Middle\<close>), \<open>RequestProps\<close>.  All four mediums interpret the interface \<open>medium_laws\<close>.
  \<^item> Monitor, \<open>agents/monitor\<close>: \<open>Patient\<close> and \<open>Intensive\<close> (\<open>intensive_care.py\<close>), \<open>Clerk\<close> (\<open>clerk.py\<close>);
    \<open>ClerkProps\<close>, \<open>ClerkSafety\<close>, \<open>Monitor\<close>, \<open>Coroner\<close>, \<open>Offline\<close>.  Intensive care uses its doctor
    through the interface \<open>doctor_laws\<close>, which the clerk satisfies.
  \<^item> Resources, \<open>agents/base/resource.py\<close>: \<open>Resource\<close> (ranges, scalars, allocations), \<open>Resources\<close> (the
    manager); \<open>ResourceSafety\<close> and \<open>ResourceCalls\<close> refine it to a machine of holders.
  \<^item> Database, \<open>database/emu.py\<close> and \<open>database/client.py\<close>: \<open>ViewKey\<close> (the order of keys), \<open>Database\<close>,
    \<open>Query\<close>; \<open>DatabaseProps\<close>, \<open>QueryProps\<close> (with the interface \<open>row_cache\<close>).
  \<^item> Messaging, \<open>agencies/messaging\<close>, \<open>agencies/protocols.py\<close>, \<open>agencies/notifications.py\<close>: \<open>Routing\<close>,
    \<open>RoutingProps\<close>, \<open>Channel\<close>, \<open>ChannelProps\<close>, \<open>Interest\<close>, \<open>Rabbit\<close> (the emulated broker and its
    client).  The message store is used through the interface \<open>exp_store\<close>, which \<open>ExpDict\<close> satisfies.
  \<^item> Serialization, \<open>common/serialization/base.py\<close> and \<open>sexp.py\<close>: \<open>Serializer\<close>, \<open>Unserializer\<close>;
    \<open>ObjectGraph\<close>, \<open>Flattening\<close>, \<open>Unpacking\<close> and \<open>RoundTrip\<close> hold what is proved.
  \<^item> HTTP, \<open>web/http.py\<close>, \<open>web/httpserver.py\<close>, \<open>web/compat.py\<close>, \<open>common/enum.py\<close>, \<open>common/timeout.py\<close>:
    \<open>WebStrings\<close> (Python strings, quoting), \<open>Enums\<close>, \<open>Http\<close> (messages, URLs), \<open>HttpProtocol\<close> (the connection
    and its timeouts), \<open>HttpServer\<close> (requests, the pipeline); \<open>HttpProps\<close>, \<open>UrlProps\<close>, \<open>ServerProps\<close>.
  \<^item> Values and actions of models, \<open>models/value.py\<close>, \<open>models/action.py\<close>: \<open>Values\<close>, \<open>ValueProps\<close>.

  \<^bold>\<open>How state and operations correspond.\<close>  The attributes of an object are the fields of a record, or
  an entry of a table where the code refers to the object by identity (jobs, patients, deferreds,
  sinks, objects of a heap); a method is a function of the same name that takes the record and
  returns it changed.  An operation that raises before it changed anything returns a sum; one that
  can raise half-way returns the exception with the changed state.  A dictionary is an association
  list and theorems hold for every order of its entries.  A callback the reactor runs later
  (\<open>call_next\<close>, \<open>call_later\<close>, an update of the descriptor) is queued in the state and run by an
  operation of its own, so that every interleaving is a sequence of events.  What the agent does
  inside of a synchronous call is a list of commands, given with the event.

  \<^bold>\<open>Conventions and bounds.\<close>  Times are rationals.  The clock stands still during one call of the
  routing table, of a channel or of the resource manager; \<open>ExpDict\<close> and \<open>ExpQueue\<close> read it as
  often as the code does.  Sinks do not call back into the routing table while a message is given
  to them, and a backend answers \<open>initiate\<close> at once.  Recursion ends as follows: the loops of the
  queue pop a finite heap; \<open>location_state_changed\<close> is given a depth, and the number of locations
  plus one is shown to be enough (each level takes one location out of recovery); the
  serializer is given a bound on its nesting and four times the number of objects plus one is
  shown to be enough; the unserializer's pending work loses weight in each round.  In
  \<open>Serializer\<close> and \<open>Unserializer\<close> keys of dictionaries and elements of sets are atoms, \<open>int\<close> and
  \<open>long\<close> are one type and a unicode text is its UTF-8 encoding; where data puts a tuple or an instance
  in the place of a key, the outcome of unpacking is \<open>NotModelled\<close>, which is no exception of the code.

  \<^bold>\<open>What is shown.\<close>  For the containers: refinement to a map with deadlines, the order of a queue,
  nothing lost.  For the contract: every contractor history follows the protocol and says exactly
  what the script of its state tells; a manager answers every bidder once and completes with
  the last report; a medium ends once.  For the request: an answer in time reaches the agent that
  asked, who is told of replies or of the end of the time, never of both.  For the monitor: no reachable state fails,
  the recursion ends, a death is reported once, never while disconnected, and at the latest with the end of the
  quarantine.  For resources: no over-commitment in any history in which the
  update of a call completes before the next call, and what a confirmation leaves unaccounted until then.
  For the database: the feed of changes tells the current revisions, the cache of views is
  invisible, stale saves are refused, with the exceptions named there (fixtures, saves that fail
  half-way, attachments saved alone, deletions).  For messaging: messages follow priorities, wait for their
  route, are handled once, queues are first in first out, interests stay bounded.  For
  serialization: the copy of an object graph is isomorphic, and serializing always succeeds.  For
  HTTP: requests and URLs are read back as they were composed, a silent peer is timed out, active
  requests write in the order of their arrival.  For values: what is validated is typed, what is
  published validates again, effects of actions get typed parameters.  The theorems of kind \<open>error\<close>
  and the lemmas on concrete runs show where the code does not do what it means to.

  \<^bold>\<open>Not modelled.\<close>  What only moves bytes or starts processes: the resources of the web server and the HTTP clients, \<open>txamqp\<close>
  and the CouchDB driver, the journal writers, ssh and process control, logging; the generic graph
  of models of the gateway and its HTML and JSON writers; replay of journals; the
  concrete agents besides the monitor, which consist of calls of the parts above; the life
  cycle of an agent in \<open>agencies/agency.py\<close>, which is the environment here: its events are
  those the models above are given.
\<close>

end
